(* ===== verification/Prelude.thy ===== *)
theory Prelude
  imports Main "HOL-Library.Word"
begin

text \<open>
  Shared ground of the development: the names of the machine types, the outcome type of
  operations that can fail, the model of the C++ library's linear searches, and the list
  lemmas the component theories use.

  Conventions.  A \<^verbatim>\<open>std::string\<close> or \<^verbatim>\<open>std::string_view\<close> is a HOL \<^typ>\<open>string\<close> (a list of
  8-bit characters), a \<^verbatim>\<open>Uint8View\<close> or \<^verbatim>\<open>Uint8Vector\<close> is a list of \<^typ>\<open>8 word\<close>.  An iterator
  is an index; the end iterator is the length.  \<^verbatim>\<open>npos\<close> is \<^const>\<open>None\<close>.
\<close>

section \<open>Machine types\<close>

type_synonym u8 = "8 word"
type_synonym u16 = "16 word"
type_synonym u32 = "32 word"
type_synonym u64 = "64 word"
type_synonym bytes = "u8 list"

named_theorems search_simps \<open>equations of the library's linear searches\<close>

section \<open>Linear search: \<^verbatim>\<open>std::find_if\<close>\<close>

text \<open>The index of the first element that satisfies the predicate, the length if none does.\<close>

fun find_if :: "('a \<Rightarrow> bool) \<Rightarrow> 'a list \<Rightarrow> nat" where
  "find_if p [] = 0"
| "find_if p (x # xs) = (if p x then 0 else Suc (find_if p xs))"

lemma find_if_le: "find_if p xs \<le> length xs"
  by (induction xs) auto

lemma find_if_eq_takeWhile: "find_if p xs = length (takeWhile (\<lambda>x. \<not> p x) xs)"
  by (induction xs) auto

lemma take_find_if [search_simps]: "take (find_if p xs) xs = takeWhile (\<lambda>x. \<not> p x) xs"
  by (induction xs) auto

lemma drop_find_if [search_simps]: "drop (find_if p xs) xs = dropWhile (\<lambda>x. \<not> p x) xs"
  by (induction xs) auto

lemma find_if_nth: "find_if p xs < length xs \<Longrightarrow> p (xs ! find_if p xs)"
  by (induction xs) auto

lemma find_if_before: "i < find_if p xs \<Longrightarrow> \<not> p (xs ! i)"
proof (induction xs arbitrary: i)
  case (Cons x xs)
  then show ?case by (cases i) (auto split: if_splits)
qed simp

lemma find_if_less_iff: "find_if p xs < length xs \<longleftrightarrow> (\<exists>x \<in> set xs. p x)"
  by (induction xs) auto

lemma find_if_append:
  "find_if p (xs @ ys) = (if \<exists>x \<in> set xs. p x then find_if p xs else length xs + find_if p ys)"
  by (induction xs) auto

lemma find_if_none: "(\<And>x. x \<in> set xs \<Longrightarrow> \<not> p x) \<Longrightarrow> find_if p xs = length xs"
  by (induction xs) auto

section \<open>Lists\<close>

lemma takeWhile_whole: "\<forall>x \<in> set xs. p x \<Longrightarrow> takeWhile p xs = xs"
  by (induction xs) auto

lemma list_split3 [case_names Nil One Two Many]:
  assumes "xs = [] \<Longrightarrow> P" and "\<And>a. xs = [a] \<Longrightarrow> P" and "\<And>a b. xs = [a, b] \<Longrightarrow> P"
    and "\<And>a b c ys. xs = a # b # c # ys \<Longrightarrow> P"
  shows P
proof (cases xs)
  case (Cons a as)
  then show ?thesis
  proof (cases as)
    case (Cons b bs)
    then show ?thesis using assms \<open>xs = a # as\<close> by (cases bs) auto
  qed (use assms \<open>xs = a # as\<close> in auto)
qed (use assms in auto)

end
