(* ===== verification/StringView.thy ===== *)
theory StringView
  imports Prelude
begin

text \<open>
  The parts of \<^verbatim>\<open>std::string_view\<close> and \<^verbatim>\<open><cctype>\<close> that the library relies on, and the
  whitespace, case and prefix helpers of \<^verbatim>\<open>common/include/common/utils.h\<close> built on them.
  Character classification is that of the "C" locale; a byte outside ASCII is neither a
  space nor a letter.
\<close>

section \<open>Library primitives\<close>

definition c_isspace :: "char \<Rightarrow> bool" where
  "c_isspace c \<longleftrightarrow> (let n = (of_char c :: nat) in n = 32 \<or> (9 \<le> n \<and> n \<le> 13))"

definition c_tolower :: "char \<Rightarrow> char" where
  "c_tolower c = (let n = (of_char c :: nat) in if 65 \<le> n \<and> n \<le> 90 then char_of (n + 32) else c)"

definition c_toupper :: "char \<Rightarrow> char" where
  "c_toupper c = (let n = (of_char c :: nat) in if 97 \<le> n \<and> n \<le> 122 then char_of (n - 32) else c)"

definition c_isdigit :: "char \<Rightarrow> bool" where
  "c_isdigit c \<longleftrightarrow> (let n = (of_char c :: nat) in 48 \<le> n \<and> n \<le> 57)"

text \<open>\<^verbatim>\<open>find_first_of(delims, from)\<close> and its relatives: a position, or \<^const>\<open>None\<close> for \<^verbatim>\<open>npos\<close>.\<close>

definition sv_find_pred :: "('a \<Rightarrow> bool) \<Rightarrow> 'a list \<Rightarrow> nat \<Rightarrow> nat option" where
  "sv_find_pred p s from =
     (let i = from + find_if p (drop from s) in if i < length s then Some i else None)"

definition sv_find_first_of :: "string \<Rightarrow> string \<Rightarrow> nat \<Rightarrow> nat option" where
  "sv_find_first_of s delims from = sv_find_pred (\<lambda>c. c \<in> set delims) s from"

definition sv_find_last_of :: "string \<Rightarrow> string \<Rightarrow> nat option" where
  "sv_find_last_of s delims =
     (let k = find_if (\<lambda>c. c \<in> set delims) (rev s)
      in if k < length s then Some (length s - 1 - k) else None)"

text \<open>\<^verbatim>\<open>find(needle, from)\<close> for a substring; the empty needle is found where the search starts.\<close>

fun sv_find_sub :: "string \<Rightarrow> string \<Rightarrow> nat option" where
  "sv_find_sub d [] = (if d = [] then Some 0 else None)"
| "sv_find_sub d (x # xs) =
     (if take (length d) (x # xs) = d then Some 0 else map_option Suc (sv_find_sub d xs))"

definition sv_find :: "string \<Rightarrow> string \<Rightarrow> nat \<Rightarrow> nat option" where
  "sv_find s d from =
     (if from \<le> length s then map_option (\<lambda>i. from + i) (sv_find_sub d (drop from s)) else None)"

definition sv_substr :: "'a list \<Rightarrow> nat \<Rightarrow> nat \<Rightarrow> 'a list" where
  "sv_substr s pos n = take n (drop pos s)"

subsection \<open>Facts about the searches\<close>

lemma sv_find_pred_Some:
  assumes "sv_find_pred p s from = Some i"
  shows "from \<le> i" and "i < length s" and "p (s ! i)" and "\<And>k. from \<le> k \<Longrightarrow> k < i \<Longrightarrow> \<not> p (s ! k)"
proof -
  let ?j = "find_if p (drop from s)"
  from assms have i: "i = from + ?j" and l: "i < length s"
    by (auto simp: sv_find_pred_def Let_def split: if_splits)
  show "from \<le> i" and "i < length s" using i l by simp_all
  from i l have "?j < length (drop from s)" by simp
  from find_if_nth [OF this] show "p (s ! i)" using i l by simp
  fix k assume "from \<le> k" and "k < i"
  then have "k - from < ?j" using i by simp
  from find_if_before [OF this] show "\<not> p (s ! k)" using \<open>from \<le> k\<close> \<open>k < i\<close> l by simp
qed

lemma sv_find_pred_None:
  "sv_find_pred p s from = None \<longleftrightarrow> (\<forall>x \<in> set (drop from s). \<not> p x)"
proof -
  have "\<not> (from + find_if p (drop from s) < length s) \<longleftrightarrow>
      \<not> (find_if p (drop from s) < length (drop from s))"
    by auto
  then show ?thesis
    using find_if_less_iff [of p "drop from s"] by (auto simp: sv_find_pred_def Let_def)
qed

lemma sv_find_sub_Some:
  "sv_find_sub d s = Some i \<Longrightarrow> take (length d) (drop i s) = d \<and> i + length d \<le> length s"
proof (induction d s arbitrary: i rule: sv_find_sub.induct)
  case (1 d)
  then show ?case by (auto split: if_splits)
next
  case (2 d x xs)
  show ?case
  proof (cases "take (length d) (x # xs) = d")
    case True
    then have "length d \<le> length (x # xs)"
      by (metis length_take min.cobounded1)
    with True 2 show ?thesis by simp
  next
    case False
    with 2 show ?thesis by auto
  qed
qed

lemma sv_find_sub_least:
  "sv_find_sub d s = Some i \<Longrightarrow> k < i \<Longrightarrow> take (length d) (drop k s) \<noteq> d"
proof (induction d s arbitrary: i k rule: sv_find_sub.induct)
  case (2 d x xs)
  then show ?case by (cases k) (auto split: if_splits)
qed (auto split: if_splits)

lemma sv_find_sub_None: "sv_find_sub d s = None \<Longrightarrow> take (length d) (drop k s) \<noteq> d"
proof (induction d s arbitrary: k rule: sv_find_sub.induct)
  case (2 d x xs)
  then show ?case by (cases k) (auto split: if_splits)
qed (auto split: if_splits)

lemma sv_find_sub_single: "sv_find_sub [c] s = (let i = find_if (\<lambda>x. x = c) s in if i < length s then Some i else None)"
  by (induction s) (auto simp: Let_def)

section \<open>Case and whitespace helpers (\<^verbatim>\<open>utils.h\<close>)\<close>

definition to_upper :: "string \<Rightarrow> string" where
  "to_upper str = map c_toupper str"

definition to_lower :: "string \<Rightarrow> string" where
  "to_lower str = map c_tolower str"

definition ltrim :: "string \<Rightarrow> string" where
  "ltrim str = drop (find_if (\<lambda>c. \<not> c_isspace c) str) str"

definition rtrim :: "string \<Rightarrow> string" where
  "rtrim str = take (length str - find_if (\<lambda>c. \<not> c_isspace c) (rev str)) str"

definition trim :: "string \<Rightarrow> string" where
  "trim str = rtrim (ltrim str)"

definition iequals :: "string \<Rightarrow> string \<Rightarrow> bool" where
  "iequals lhs rhs = list_all2 (\<lambda>l r. c_tolower l = c_tolower r) lhs rhs"

definition starts_with :: "string \<Rightarrow> string \<Rightarrow> bool" where
  "starts_with str pre \<longleftrightarrow> length pre \<le> length str \<and> sv_substr str 0 (length pre) = pre"

definition ends_with :: "string \<Rightarrow> string \<Rightarrow> bool" where
  "ends_with str suf \<longleftrightarrow>
     length suf \<le> length str \<and> sv_substr str (length str - length suf) (length suf) = suf"

definition istarts_with :: "string \<Rightarrow> string \<Rightarrow> bool" where
  "istarts_with str pre \<longleftrightarrow> length pre \<le> length str \<and> iequals (sv_substr str 0 (length pre)) pre"

definition iends_with :: "string \<Rightarrow> string \<Rightarrow> bool" where
  "iends_with str suf \<longleftrightarrow>
     length suf \<le> length str \<and> iequals (sv_substr str (length str - length suf) (length suf)) suf"

text \<open>
  \<^verbatim>\<open>ifind\<close>: the two nested \<^verbatim>\<open>do ... while\<close> loops both go on at the next position, so they are one
  recursion over the position; the test of the inner loop guards every step.
\<close>

function ifind_loop :: "string \<Rightarrow> string \<Rightarrow> char \<Rightarrow> nat \<Rightarrow> nat option" where
  "ifind_loop haystack needle c pos =
     (if length haystack \<le> pos \<or> length haystack - pos < length needle then None
      else if c_tolower (haystack ! pos) \<noteq> c then ifind_loop haystack needle c (pos + 1)
      else if \<not> iequals (sv_substr haystack (pos + 1) (length needle - 1)) (drop 1 needle)
        then ifind_loop haystack needle c (pos + 1)
      else Some pos)"
  by pat_completeness auto
termination
  by (relation "measure (\<lambda>(h, n, c, pos). length h - pos)") auto

declare ifind_loop.simps [simp del]

definition ifind :: "string \<Rightarrow> string \<Rightarrow> nat option" where
  "ifind haystack needle =
     (if needle = [] then Some 0
      else if haystack = [] then None
      else ifind_loop haystack needle (c_tolower (needle ! 0)) 0)"

subsection \<open>Trimming\<close>

lemma ltrim_dropWhile: "ltrim s = dropWhile c_isspace s"
  by (simp add: ltrim_def drop_find_if)

lemma rtrim_dropWhile: "rtrim s = rev (dropWhile c_isspace (rev s))"
proof -
  have "rev s = rev (drop 0 s)" by simp
  have "take (length s - k) s = rev (drop k (rev s))" for k
    by (simp add: rev_drop)
  then show ?thesis by (simp add: rtrim_def drop_find_if)
qed

lemma rtrim_prefix: "\<exists>t. s = rtrim s @ t \<and> (\<forall>c \<in> set t. c_isspace c)"
proof -
  let ?t = "rev (takeWhile c_isspace (rev s))"
  have "rtrim s @ ?t = rev (takeWhile c_isspace (rev s) @ dropWhile c_isspace (rev s))"
    by (simp only: rtrim_dropWhile rev_append)
  then have "s = rtrim s @ ?t" by simp
  moreover have "\<forall>c \<in> set ?t. c_isspace c" by (auto dest: set_takeWhileD)
  ultimately show ?thesis by blast
qed

text \<open>
  \<^verbatim>\<open>trim\<close> cuts its argument into leading whitespace, the result, and trailing whitespace, and the
  result neither starts nor ends with whitespace.
\<close>

lemma trim_decomposition:
  "\<exists>pre suf. s = pre @ trim s @ suf \<and> (\<forall>c \<in> set pre \<union> set suf. c_isspace c)"
proof -
  obtain t where t: "ltrim s = trim s @ t" "\<forall>c \<in> set t. c_isspace c"
    using rtrim_prefix [of "ltrim s"] by (auto simp: trim_def)
  have "s = takeWhile c_isspace s @ ltrim s" by (simp add: ltrim_dropWhile)
  then have "s = takeWhile c_isspace s @ trim s @ t" using t(1) by simp
  moreover have "\<forall>c \<in> set (takeWhile c_isspace s) \<union> set t. c_isspace c"
    using t(2) by (auto dest: set_takeWhileD)
  ultimately show ?thesis by blast
qed

lemma trim_last: "trim s \<noteq> [] \<Longrightarrow> \<not> c_isspace (last (trim s))"
  using hd_dropWhile [of c_isspace "rev (ltrim s)"]
  by (auto simp: trim_def rtrim_dropWhile last_rev)

lemma trim_hd:
  assumes "trim s \<noteq> []"
  shows "\<not> c_isspace (hd (trim s))"
proof -
  obtain t where t: "ltrim s = trim s @ t" using rtrim_prefix [of "ltrim s"] by (auto simp: trim_def)
  with assms have "hd (trim s) = hd (ltrim s)" and "ltrim s \<noteq> []" by auto
  then show ?thesis using hd_dropWhile [of c_isspace s] by (simp add: ltrim_dropWhile)
qed

lemma trim_fixpoint:
  assumes "s = [] \<or> \<not> c_isspace (hd s) \<and> \<not> c_isspace (last s)"
  shows "trim s = s"
proof (cases "s = []")
  case False
  with assms have "ltrim s = s" by (cases s) (auto simp: ltrim_dropWhile)
  moreover have "rtrim s = s"
    using False assms by (cases s rule: rev_cases) (auto simp: rtrim_dropWhile)
  ultimately show ?thesis by (simp add: trim_def)
qed (simp add: trim_def ltrim_def rtrim_def)

lemma trim_idem: "trim (trim s) = trim s"
  using trim_fixpoint trim_hd trim_last by blast

lemma trim_all_space: "trim s = [] \<longleftrightarrow> (\<forall>c \<in> set s. c_isspace c)"
proof
  assume "trim s = []"
  then show "\<forall>c \<in> set s. c_isspace c"
    using trim_decomposition [of s] by auto
next
  assume "\<forall>c \<in> set s. c_isspace c"
  then show "trim s = []" by (simp add: trim_def ltrim_dropWhile rtrim_def)
qed

lemma set_trim: "set (trim s) \<subseteq> set s"
  using trim_decomposition [of s] by (metis Un_iff set_append subsetI)

lemma length_trim: "length (trim s) \<le> length s"
  by (simp add: trim_def ltrim_def rtrim_def)

subsection \<open>Case-insensitive comparison\<close>

lemma iequals_iff: "iequals l r \<longleftrightarrow> to_lower l = to_lower r"
  by (auto simp: iequals_def to_lower_def list_all2_conv_all_nth list_eq_iff_nth_eq)

lemma iequals_refl [simp]: "iequals s s"
  by (simp add: iequals_iff)

lemma iequals_sym: "iequals l r \<longleftrightarrow> iequals r l"
  by (auto simp: iequals_iff)

lemma iequals_trans: "iequals a b \<Longrightarrow> iequals b c \<Longrightarrow> iequals a c"
  by (simp add: iequals_iff)

lemma iequals_length: "iequals l r \<Longrightarrow> length l = length r"
  by (auto simp: iequals_def dest: list_all2_lengthD)

lemma c_tolower_idem [simp]: "c_tolower (c_tolower c) = c_tolower c"
  by (simp add: c_tolower_def Let_def)

lemma to_lower_idem [simp]: "to_lower (to_lower s) = to_lower s"
  by (simp add: to_lower_def)

lemma starts_with_iff: "starts_with s p \<longleftrightarrow> (\<exists>t. s = p @ t)"
proof
  assume "starts_with s p"
  then have "s = p @ drop (length p) s"
    by (metis append_take_drop_id drop_0 starts_with_def sv_substr_def)
  then show "\<exists>t. s = p @ t" ..
qed (auto simp: starts_with_def sv_substr_def)

lemma ends_with_iff: "ends_with s p \<longleftrightarrow> (\<exists>t. s = t @ p)"
proof
  assume "ends_with s p"
  then have "s = take (length s - length p) s @ p"
    by (metis append_take_drop_id diff_diff_cancel ends_with_def length_drop order_refl
        sv_substr_def take_all)
  then show "\<exists>t. s = t @ p" ..
qed (auto simp: ends_with_def sv_substr_def)

subsection \<open>\<^verbatim>\<open>ifind\<close> against its specification\<close>

text \<open>A case-insensitive occurrence of the needle at a position.\<close>

definition ioccurs :: "string \<Rightarrow> string \<Rightarrow> nat \<Rightarrow> bool" where
  "ioccurs h n i \<longleftrightarrow> i + length n \<le> length h \<and> iequals (sv_substr h i (length n)) n"

lemma ioccurs_Cons:
  assumes "n \<noteq> []" and "i < length h"
  shows "ioccurs h n i \<longleftrightarrow> length n \<le> length h - i \<and> c_tolower (h ! i) = c_tolower (n ! 0) \<and>
    iequals (sv_substr h (i + 1) (length n - 1)) (drop 1 n)"
proof -
  from assms(1) obtain c m where n: "n = c # m" by (cases n) auto
  from assms(2) have "drop i h = h ! i # drop (i + 1) h" by (simp add: Cons_nth_drop_Suc)
  with n assms show ?thesis by (auto simp: ioccurs_def sv_substr_def iequals_def)
qed

lemma ifind_loop_correct:
  assumes "n \<noteq> []"
  shows "case ifind_loop h n (c_tolower (n ! 0)) pos of
      None \<Rightarrow> \<forall>i \<ge> pos. \<not> ioccurs h n i
    | Some i \<Rightarrow> pos \<le> i \<and> ioccurs h n i \<and> (\<forall>k. pos \<le> k \<and> k < i \<longrightarrow> \<not> ioccurs h n k)"
  using assms
proof (induction h n "c_tolower (n ! 0)" pos rule: ifind_loop.induct)
  case (1 h n pos)
  let ?c = "c_tolower (n ! 0)"
  note unf = ifind_loop.simps [of h n ?c pos]
  have skip: "(\<forall>i \<ge> pos. \<not> ioccurs h n i) \<longleftrightarrow> (\<forall>i \<ge> pos + 1. \<not> ioccurs h n i)"
    "(\<forall>k. pos \<le> k \<and> k < i \<longrightarrow> \<not> ioccurs h n k) \<longleftrightarrow> (\<forall>k. pos + 1 \<le> k \<and> k < i \<longrightarrow> \<not> ioccurs h n k)"
    if "\<not> ioccurs h n pos" for i
    using that by (metis Suc_eq_plus1 Suc_leD Suc_leI le_neq_implies_less)+
  show ?case
  proof (cases "length h \<le> pos \<or> length h - pos < length n")
    case True
    have "\<not> ioccurs h n i" if "pos \<le> i" for i
      using True that \<open>n \<noteq> []\<close> by (cases n) (auto simp: ioccurs_def)
    with True show ?thesis by (simp add: unf)
  next
    case False
    then have lt: "pos < length h" by simp
    show ?thesis
    proof (cases "ioccurs h n pos")
      case True
      with False show ?thesis
        using ioccurs_Cons [OF \<open>n \<noteq> []\<close> lt] by (auto simp: unf)
    next
      case no: False
      then have step: "ifind_loop h n ?c pos = ifind_loop h n ?c (pos + 1)"
        using False ioccurs_Cons [OF \<open>n \<noteq> []\<close> lt] by (auto simp: unf)
      have rest: "case ifind_loop h n ?c (pos + 1) of
          None \<Rightarrow> \<forall>i \<ge> pos + 1. \<not> ioccurs h n i
        | Some i \<Rightarrow> pos + 1 \<le> i \<and> ioccurs h n i \<and> (\<forall>k. pos + 1 \<le> k \<and> k < i \<longrightarrow> \<not> ioccurs h n k)"
      proof (cases "c_tolower (h ! pos) = ?c")
        case True
        with no False have "\<not> iequals (sv_substr h (pos + 1) (length n - 1)) (drop 1 n)"
          using ioccurs_Cons [OF \<open>n \<noteq> []\<close> lt] by auto
        with True False "1.hyps"(2) [OF False] \<open>n \<noteq> []\<close> show ?thesis by simp
      next
        case neq: False
        with "1.hyps"(1) [OF False] \<open>n \<noteq> []\<close> show ?thesis by simp
      qed
      from rest show ?thesis unfolding step
        by (auto simp: skip [OF no] split: option.splits)
    qed
  qed
qed

end
