(* ===== verification/Integers.thy ===== *)
theory Integers
  imports StringView
begin

text \<open>
  Numbers as text: \<^verbatim>\<open>utils::to_integer\<close> over \<^verbatim>\<open>std::from_chars\<close>, the integer conversions of the
  formatter (\<^verbatim>\<open>{}\<close>, \<^verbatim>\<open>{:x}\<close>, \<^verbatim>\<open>{:04x}\<close>, \<^verbatim>\<open>{:X}\<close>), the hexadecimal codec of \<^verbatim>\<open>common/utils.cpp\<close>,
  the string hash and the generation of version 4 UUIDs.
\<close>

unbundle bit_operations_syntax

section \<open>Reading integers\<close>

text \<open>The digit value of a character, letters in either case.\<close>

definition digit_val :: "char \<Rightarrow> nat option" where
  "digit_val c =
     (let n = (of_char c :: nat)
      in if 48 \<le> n \<and> n \<le> 57 then Some (n - 48)
         else if 97 \<le> n \<and> n \<le> 122 then Some (n - 87)
         else if 65 \<le> n \<and> n \<le> 90 then Some (n - 55)
         else None)"

definition is_base_digit :: "nat \<Rightarrow> char \<Rightarrow> bool" where
  "is_base_digit base c = (case digit_val c of None \<Rightarrow> False | Some d \<Rightarrow> d < base)"

datatype from_chars_result = Parsed nat | Invalid_argument | Result_out_of_range

definition digits_value :: "nat \<Rightarrow> string \<Rightarrow> nat" where
  "digits_value base ds = foldl (\<lambda>a c. a * base + the (digit_val c)) 0 ds"

text \<open>
  \<^verbatim>\<open>std::from_chars\<close> for an unsigned type whose largest value is \<^verbatim>\<open>max_value\<close>: where it stopped, and
  the value or the error code.
\<close>

definition from_chars :: "nat \<Rightarrow> nat \<Rightarrow> string \<Rightarrow> nat \<times> from_chars_result" where
  "from_chars max_value base s =
     (let ds = takeWhile (is_base_digit base) s; v = digits_value base ds
      in if ds = [] then (0, Invalid_argument)
         else if v > max_value then (length ds, Result_out_of_range)
         else (length ds, Parsed v))"

definition to_integer :: "nat \<Rightarrow> string \<Rightarrow> nat \<Rightarrow> nat option" where
  "to_integer max_value str base =
     (case from_chars max_value base str of
        (last_out, Parsed result) \<Rightarrow> if last_out = length str then Some result else None
      | (_, _) \<Rightarrow> None)"

definition max_u8 :: nat where "max_u8 = 2 ^ 8 - 1"
definition max_u16 :: nat where "max_u16 = 2 ^ 16 - 1"
definition max_u32 :: nat where "max_u32 = 2 ^ 32 - 1"
definition max_u64 :: nat where "max_u64 = 2 ^ 64 - 1"

section \<open>Printing integers\<close>

definition digit_char :: "bool \<Rightarrow> nat \<Rightarrow> char" where
  "digit_char upper d = (if d < 10 then char_of (48 + d) else char_of ((if upper then 55 else 87) + d))"

fun fmt_uint :: "bool \<Rightarrow> nat \<Rightarrow> nat \<Rightarrow> string" where
  "fmt_uint upper base n =
     (if base < 2 \<or> n < base then [digit_char upper n]
      else fmt_uint upper base (n div base) @ [digit_char upper (n mod base)])"

declare fmt_uint.simps [simp del]

text \<open>Zero padding to a minimal width, as \<^verbatim>\<open>{:04x}\<close> and \<^verbatim>\<open>{:06}\<close> ask for.\<close>

definition zero_pad :: "nat \<Rightarrow> string \<Rightarrow> string" where
  "zero_pad w s = replicate (w - length s) CHR ''0'' @ s"

definition dec :: "nat \<Rightarrow> string" where
  "dec n = fmt_uint False 10 n"

definition hex :: "nat \<Rightarrow> string" where
  "hex n = fmt_uint False 16 n"

subsection \<open>Printing, then reading\<close>

lemma digit_val_digit_char: "d < 16 \<Longrightarrow> digit_val (digit_char u d) = Some d"
  by (auto simp: digit_val_def digit_char_def Let_def)

lemma is_base_digit_digit_char: "d < base \<Longrightarrow> base \<le> 16 \<Longrightarrow> is_base_digit base (digit_char u d)"
  by (simp add: is_base_digit_def digit_val_digit_char)

lemma digits_value_snoc: "digits_value b (ds @ [c]) = digits_value b ds * b + the (digit_val c)"
  by (simp add: digits_value_def)

lemma fmt_uint_ne: "fmt_uint u b n \<noteq> []"
  by (subst fmt_uint.simps) simp

lemma fmt_uint_digits:
  "2 \<le> base \<Longrightarrow> base \<le> 16 \<Longrightarrow>
   (\<forall>c \<in> set (fmt_uint u base n). is_base_digit base c) \<and> digits_value base (fmt_uint u base n) = n"
proof (induction u base n rule: fmt_uint.induct)
  case (1 u base n)
  show ?case
  proof (cases "n < base")
    case True
    with 1 show ?thesis
      by (subst (1 2) fmt_uint.simps)
        (auto simp: is_base_digit_digit_char digits_value_def digit_val_digit_char)
  next
    case False
    with 1 have IH: "\<forall>c \<in> set (fmt_uint u base (n div base)). is_base_digit base c"
      "digits_value base (fmt_uint u base (n div base)) = n div base"
      by simp_all
    have "n mod base < base" and "n mod base < 16"
      using 1 by (auto intro: less_le_trans [OF mod_less_divisor])
    with 1 have "is_base_digit base (digit_char u (n mod base))"
      "the (digit_val (digit_char u (n mod base))) = n mod base"
      by (simp_all add: is_base_digit_digit_char digit_val_digit_char)
    with False 1 IH show ?thesis
      by (subst (1 2) fmt_uint.simps) (auto simp: digits_value_snoc)
  qed
qed

lemma from_chars_digits:
  assumes "ds \<noteq> []" and "\<forall>c \<in> set ds. is_base_digit base c"
  shows "to_integer m ds base = (if digits_value base ds \<le> m then Some (digits_value base ds) else None)"
  using assms by (simp add: to_integer_def from_chars_def Let_def takeWhile_whole)

lemma digits_value_zeros: "digits_value b (replicate k CHR ''0'' @ ds) = digits_value b ds"
  by (induction k) (auto simp: digits_value_def digit_val_def)

text \<open>
  Reading back what was printed, with or without padding; the result is there exactly when the
  number fits the target type.
\<close>

lemma to_integer_zero_pad:
  assumes "2 \<le> base" and "base \<le> 16"
  shows "to_integer m (zero_pad w (fmt_uint u base n)) base = (if n \<le> m then Some n else None)"
proof -
  let ?s = "zero_pad w (fmt_uint u base n)"
  have "is_base_digit base CHR ''0''" using assms by (simp add: is_base_digit_def digit_val_def)
  then have "\<forall>c \<in> set ?s. is_base_digit base c" and "?s \<noteq> []"
    using fmt_uint_digits [OF assms] by (auto simp: zero_pad_def fmt_uint_ne)
  moreover have "digits_value base ?s = n"
    using fmt_uint_digits [OF assms] by (simp add: zero_pad_def digits_value_zeros)
  ultimately show ?thesis by (simp add: from_chars_digits)
qed

lemma to_integer_fmt:
  "2 \<le> base \<Longrightarrow> base \<le> 16 \<Longrightarrow> to_integer m (fmt_uint u base n) base = (if n \<le> m then Some n else None)"
  using to_integer_zero_pad [of base m 0 u n] by (simp add: zero_pad_def)

text \<open>Also: \<^verbatim>\<open>to_integer\<close> is sound and complete for unsigned targets: it yields a number exactly when the
  whole text is a non-empty digit sequence of the base whose value fits, and then yields that value;
  in particular no sign, blank or trailing character is accepted.\<close>

theorem to_integer_correct:
  "to_integer m s base = Some v \<longleftrightarrow>
     s \<noteq> [] \<and> list_all (is_base_digit base) s \<and> v = digits_value base s \<and> v \<le> m"
proof (cases "list_all (is_base_digit base) s")
  case True
  show ?thesis
  proof (cases "s = []")
    case True
    then show ?thesis by (simp add: to_integer_def from_chars_def)
  next
    case False
    with True have "to_integer m s base =
        (if digits_value base s \<le> m then Some (digits_value base s) else None)"
      by (simp add: from_chars_digits list_all_iff)
    with True False show ?thesis by auto
  qed
next
  case False
  then have "length (takeWhile (is_base_digit base) s) \<noteq> length s"
    by (metis list_all_iff set_takeWhileD length_takeWhile_le nat_less_le takeWhile_eq_take take_all)
  with False show ?thesis by (simp add: to_integer_def from_chars_def Let_def)
qed

lemma dec_roundtrip: "n \<le> m \<Longrightarrow> to_integer m (dec n) 10 = Some n"
  by (simp add: dec_def to_integer_fmt)

lemma hex_padded_length: "n < 16 ^ w \<Longrightarrow> 0 < w \<Longrightarrow> length (zero_pad w (fmt_uint u 16 n)) = w"
proof -
  have "length (fmt_uint u 16 n) \<le> w" if "n < 16 ^ w" "0 < w" for n w
    using that
  proof (induction w arbitrary: n)
    case (Suc w)
    show ?case
    proof (cases "n < 16")
      case False
      then have w: "0 < w" using Suc.prems by (cases w) auto
      have "n div 16 < 16 ^ w" using Suc.prems by (simp add: less_mult_imp_div_less mult.commute)
      with Suc.IH w have "length (fmt_uint u 16 (n div 16)) \<le> w" by simp
      then show ?thesis using False by (subst fmt_uint.simps) simp
    qed (simp add: fmt_uint.simps)
  qed simp
  then show "n < 16 ^ w \<Longrightarrow> 0 < w \<Longrightarrow> length (zero_pad w (fmt_uint u 16 n)) = w"
    by (simp add: zero_pad_def)
qed

section \<open>The hexadecimal codec\<close>

definition hex_table :: string where
  "hex_table = ''0123456789abcdef''"

fun encode_to_hex :: "bytes \<Rightarrow> string" where
  "encode_to_hex [] = []"
| "encode_to_hex (x # xs) =
     hex_table ! unat (drop_bit 4 x) # hex_table ! unat (x AND 0x0f) # encode_to_hex xs"

definition parse_hex_char :: "char \<Rightarrow> int" where
  "parse_hex_char c =
     (let n = (of_char c :: nat)
      in if 48 \<le> n \<and> n \<le> 57 then int n - 0x30
         else if 97 \<le> n \<and> n \<le> 102 then int n - 0x57
         else if 65 \<le> n \<and> n \<le> 70 then int n - 0x37
         else -1)"

text \<open>The loop over pairs of characters; a bad character makes the whole result empty.\<close>

fun decode_hex_loop :: "string \<Rightarrow> bytes \<Rightarrow> bytes" where
  "decode_hex_loop (h # l # rest) result =
     (let hi = parse_hex_char h; lo = parse_hex_char l
      in if hi < 0 \<or> lo < 0 then []
         else decode_hex_loop rest (result @ [word_of_int (push_bit 4 hi OR lo)]))"
| "decode_hex_loop _ result = result"

definition decode_hex :: "string \<Rightarrow> bytes" where
  "decode_hex s = (if odd (length s) then [] else decode_hex_loop s [])"

subsection \<open>Round trip\<close>

lemma hex_table_nth: "n < 16 \<Longrightarrow> parse_hex_char (hex_table ! n) = int n"
proof -
  have "list_all (\<lambda>n. parse_hex_char (hex_table ! n) = int n) [0..<16]" by code_simp
  then show "n < 16 \<Longrightarrow> parse_hex_char (hex_table ! n) = int n" by (simp add: list_all_iff)
qed

lemma unat_nibbles: "unat (drop_bit 4 (x :: u8)) < 16" "unat (x AND 0x0f) < 16"
proof -
  have "unat x < 2 ^ LENGTH(8)" by (rule unsigned_less)
  then show "unat (drop_bit 4 x) < 16" by (simp add: drop_bit_eq_div unat_div_distrib)
  have "x AND 0x0f = take_bit 4 x" by (simp add: take_bit_eq_mask mask_eq_exp_minus_1)
  then show "unat (x AND 0x0f) < 16" using take_bit_nat_less_exp [of 4 "unat x"] by (simp add: unsigned_take_bit_eq)
qed

lemma nibbles_join:
  "word_of_int (push_bit 4 (int (unat (drop_bit 4 x))) OR int (unat (x AND 0x0f))) = (x :: u8)"
proof -
  have m: "x AND 0x0f = take_bit 4 x" by (simp add: take_bit_eq_mask mask_eq_exp_minus_1)
  have u: "int (unat (y :: u8)) = uint y" for y by simp
  show ?thesis unfolding m u
    by (rule bit_word_eqI) (auto simp: bit_simps)
qed

lemma decode_hex_loop_encode: "decode_hex_loop (encode_to_hex xs) acc = acc @ xs"
proof (induction xs arbitrary: acc)
  case (Cons x xs)
  note v = hex_table_nth [OF unat_nibbles(1) [of x]] hex_table_nth [OF unat_nibbles(2) [of x]]
  have "decode_hex_loop (encode_to_hex (x # xs)) acc =
      decode_hex_loop (encode_to_hex xs) (acc @ [x])"
    unfolding encode_to_hex.simps decode_hex_loop.simps v Let_def nibbles_join by simp
  then show ?case using Cons.IH by simp
qed simp

lemma length_encode_to_hex: "length (encode_to_hex xs) = 2 * length xs"
  by (induction xs) auto

text \<open>Also: decoding the hexadecimal text of a byte string gives the byte string back, and the text has
  two characters for every byte.\<close>

theorem decode_hex_encode_to_hex:
  "decode_hex (encode_to_hex xs) = xs \<and> length (encode_to_hex xs) = 2 * length xs"
  by (simp add: decode_hex_def decode_hex_loop_encode length_encode_to_hex)

section \<open>The string hash\<close>

text \<open>DJB2 with XOR; \<^verbatim>\<open>(uint32_t) str[i]\<close> sign-extends the character.\<close>

definition char_u32 :: "char \<Rightarrow> u32" where
  "char_u32 c = scast (word_of_nat (of_char c) :: u8)"

definition hash :: "string \<Rightarrow> u32" where
  "hash str = foldl (\<lambda>h c. (h * 33) XOR char_u32 c) 5381 str"

text \<open>\<^verbatim>\<open>hash_combine_impl\<close> over 64-bit \<^verbatim>\<open>size_t\<close>, folded over the hashes of the objects.\<close>

definition hash_combine_impl :: "u64 \<Rightarrow> u64 \<Rightarrow> u64" where
  "hash_combine_impl seed value =
     seed XOR (value + 0x9e3779b9 + push_bit 6 seed + drop_bit 2 seed)"

definition hash_combine :: "u64 list \<Rightarrow> u64" where
  "hash_combine hashes = foldl hash_combine_impl 0 hashes"

section \<open>Version 4 UUIDs\<close>

text \<open>
  The generator fills four 32-bit parts, viewed as eight 16-bit parts through a union
  (little-endian: the low half comes first), then fixes the version and variant bits.  The random
  numbers are the argument.
\<close>

definition short_parts :: "u32 \<Rightarrow> u16 list" where
  "short_parts w = [ucast w, ucast (drop_bit 16 w)]"

definition uuid_parts :: "u32 \<times> u32 \<times> u32 \<times> u32 \<Rightarrow> u16 list" where
  "uuid_parts r =
     (case r of (a, b, c, d) \<Rightarrow>
        (let p = short_parts a @ short_parts b @ short_parts c @ short_parts d;
             p1 = p[3 := ((p ! 3) AND 0x0fff) OR 0x4000]
         in p1[4 := ((p1 ! 4) AND 0x3fff) OR 0x8000]))"

definition hex4 :: "u16 \<Rightarrow> string" where
  "hex4 w = zero_pad 4 (hex (unat w))"

definition generate_uuid :: "u32 \<times> u32 \<times> u32 \<times> u32 \<Rightarrow> string" where
  "generate_uuid r =
     (let p = uuid_parts r
      in hex4 (p ! 0) @ hex4 (p ! 1) @ ''-'' @ hex4 (p ! 2) @ ''-'' @ hex4 (p ! 3) @ ''-'' @
         hex4 (p ! 4) @ ''-'' @ hex4 (p ! 5) @ hex4 (p ! 6) @ hex4 (p ! 7))"

lemma hex4_length: "length (hex4 w) = 4"
proof -
  have "unat w < 2 ^ LENGTH(16)" by (rule unsigned_less)
  then have "unat w < 16 ^ 4" by simp
  then show ?thesis unfolding hex4_def hex_def by (rule hex_padded_length) simp
qed

lemma uuid_parts_version: "drop_bit 12 (uuid_parts r ! 3) = 4"
proof -
  have v: "drop_bit 12 ((x AND 0x0fff) OR 0x4000) = (4 :: u16)" for x :: u16
  proof (rule bit_word_eqI)
    fix n :: nat assume "n < LENGTH(16)"
    then have "n \<in> {0, 1, 2, 3} \<or> 3 < n" by auto
    then show "bit (drop_bit 12 ((x AND 0x0fff) OR 0x4000)) n \<longleftrightarrow> bit (4 :: u16) n"
      by (auto simp: bit_simps)
  qed
  show ?thesis by (cases r) (simp add: uuid_parts_def short_parts_def Let_def v)
qed

lemma uuid_parts_variant: "drop_bit 14 (uuid_parts r ! 4) = 2"
proof -
  have v: "drop_bit 14 ((x AND 0x3fff) OR 0x8000) = (2 :: u16)" for x :: u16
  proof (rule bit_word_eqI)
    fix n :: nat assume "n < LENGTH(16)"
    then have "n \<in> {0, 1} \<or> 1 < n" by auto
    then show "bit (drop_bit 14 ((x AND 0x3fff) OR 0x8000)) n \<longleftrightarrow> bit (2 :: u16) n"
      by (auto simp: bit_simps)
  qed
  show ?thesis by (cases r) (simp add: uuid_parts_def short_parts_def Let_def v)
qed

text \<open>Also: whatever the random numbers are, a generated UUID is 36 characters long with dashes at positions
  8, 13, 18 and 23, carries version 4 in its third group and the RFC 4122 variant in its fourth.\<close>

theorem generate_uuid_shape:
  "length (generate_uuid r) = 36 \<and> map ((!) (generate_uuid r)) [8, 13, 18, 23] = ''----'' \<and>
   drop_bit 12 (uuid_parts r ! 3) = 4 \<and> drop_bit 14 (uuid_parts r ! 4) = 2"
  by (simp add: generate_uuid_def Let_def hex4_length nth_append uuid_parts_version uuid_parts_variant)

end
