(* ===== verification/Errors.thy ===== *)
theory Errors
  imports Integers
begin

text \<open>
  The error values of \<^verbatim>\<open>common/include/common/error.h\<close>: an error carries the place it was made at,
  the text of its code, a message and the error that caused it.  A \<^verbatim>\<open>Result\<close> is a sum whose left side
  is the error.  \<^verbatim>\<open>pretty_func\<close> cuts the function name out of the compiler's signature text.
\<close>

section \<open>Error values\<close>

datatype error_base =
  ErrorImpl (err_func: string) (err_line: nat) (err_code: string) (err_message: string)
    (err_next: "error_base option")

text \<open>The text of an error and of its causes, with and without the place.\<close>

fun err_str :: "error_base \<Rightarrow> string" where
  "err_str (ErrorImpl f l code msg nxt) =
     ''Error at '' @ f @ '':'' @ dec l @
     (if code \<noteq> [] then '': '' @ code else []) @
     (if msg \<noteq> [] then '': '' @ msg else []) @
     (case nxt of None \<Rightarrow> [] | Some e \<Rightarrow> [CHR 0x0A] @ ''Caused by: '' @ err_str e)"

fun err_pretty_str :: "error_base \<Rightarrow> string" where
  "err_pretty_str (ErrorImpl f l code msg nxt) =
     (if code \<noteq> [] then code else []) @
     (if msg \<noteq> [] then '': '' @ msg else []) @
     (case nxt of None \<Rightarrow> [] | Some e \<Rightarrow> ''. '' @ err_pretty_str e)"

lemma err_str_ne: "err_str e \<noteq> []"
  by (cases e) simp

section \<open>\<^verbatim>\<open>pretty_func\<close>\<close>

text \<open>\<^verbatim>\<open>rfind(needle, pos)\<close>: the last occurrence that starts at or before the position.\<close>

definition sv_rfind :: "string \<Rightarrow> string \<Rightarrow> nat option \<Rightarrow> nat option" where
  "sv_rfind s d pos =
     (if length s < length d then None
      else let hi = (case pos of None \<Rightarrow> length s - length d | Some q \<Rightarrow> min q (length s - length d));
               hits = filter (\<lambda>i. sv_substr s i (length d) = d) [0..<Suc hi]
           in if hits = [] then None else Some (last hits))"

text \<open>
  \<^verbatim>\<open>substr(pos, npos - pos - 1)\<close> runs to the end of the text, so a missing bracket keeps the rest.
\<close>

definition pretty_func :: "string \<Rightarrow> string \<Rightarrow> string" where
  "pretty_func pretty_function func =
     (let e = sv_find pretty_function ''('' 0;
          start = sv_rfind pretty_function func e
      in if start = None \<or> start = Some 0 then func
         else case sv_rfind pretty_function '' '' start of
           None \<Rightarrow> (case e of None \<Rightarrow> pretty_function | Some q \<Rightarrow> sv_substr pretty_function 0 q)
         | Some b \<Rightarrow>
             (case e of
                None \<Rightarrow> drop (b + 1) pretty_function
              | Some q \<Rightarrow> sv_substr pretty_function (b + 1) (q - b - 1)))"

end
