(* ===== verification/StringUtils.thy ===== *)
theory StringUtils
  imports StringView "HOL-Library.Multiset"
begin

text \<open>
  The string utilities of \<^verbatim>\<open>common/utils.cpp\<close> and \<^verbatim>\<open>common/include/common/utils.h\<close>: the
  splitters, joining, line iteration, word wrapping, shell quoting and
  \<^verbatim>\<open>swap_remove_if\<close>, each against a reference definition.
\<close>

section \<open>Splitters\<close>

text \<open>
  The body shared by the loops of \<^verbatim>\<open>split_by\<close> and \<^verbatim>\<open>split_by_any_of\<close>: what the piece
  between \<^verbatim>\<open>seek\<close> and \<^verbatim>\<open>end\<close> adds to the output.
\<close>

definition split_emit :: "bool \<Rightarrow> bool \<Rightarrow> string \<Rightarrow> string list" where
  "split_emit include_empty need_trim s =
     (if length s \<noteq> 0 then
        (let t = (if need_trim then trim s else s)
         in if include_empty \<or> t \<noteq> [] then [t] else [])
      else [])"

fun split_by_any_of_loop :: "string \<Rightarrow> string \<Rightarrow> bool \<Rightarrow> bool \<Rightarrow> nat \<Rightarrow> nat \<Rightarrow> string list" where
  "split_by_any_of_loop str delim ie nt 0 seek = []"
| "split_by_any_of_loop str delim ie nt (Suc n) seek =
     (let e = (case sv_find_first_of str delim seek of None \<Rightarrow> length str | Some i \<Rightarrow> i)
      in split_emit ie nt (sv_substr str seek (e - seek)) @
         split_by_any_of_loop str delim ie nt n (e + 1))"

definition split_by_any_of :: "string \<Rightarrow> string \<Rightarrow> bool \<Rightarrow> bool \<Rightarrow> string list" where
  "split_by_any_of str delim include_empty need_trim =
     (if str = [] then (if include_empty then [str] else [])
      else split_by_any_of_loop str delim include_empty need_trim
             (1 + length (filter (\<lambda>c. c \<in> set delim) str)) 0)"

definition split_by_char :: "string \<Rightarrow> char \<Rightarrow> bool \<Rightarrow> bool \<Rightarrow> string list" where
  "split_by_char str delim include_empty need_trim =
     split_by_any_of str [delim] include_empty need_trim"

text \<open>
  The overload with a string delimiter first counts the occurrences in a \<^verbatim>\<open>while (true)\<close> loop that
  leaves only when \<^verbatim>\<open>find\<close> fails; the loop may run forever, so it returns an option.
\<close>

partial_function (option) split_count :: "string \<Rightarrow> string \<Rightarrow> nat \<Rightarrow> nat \<Rightarrow> nat option" where
  "split_count str delim seek num =
     (case sv_find str delim seek of
        None \<Rightarrow> Some num
      | Some pos \<Rightarrow> split_count str delim (pos + length delim) (num + 1))"

fun split_by_loop :: "string \<Rightarrow> string \<Rightarrow> bool \<Rightarrow> bool \<Rightarrow> nat \<Rightarrow> nat \<Rightarrow> string list" where
  "split_by_loop str delim ie nt 0 seek = []"
| "split_by_loop str delim ie nt (Suc n) seek =
     (let e = (case sv_find str delim seek of None \<Rightarrow> length str | Some i \<Rightarrow> i)
      in split_emit ie nt (sv_substr str seek (e - seek)) @
         split_by_loop str delim ie nt n (e + length delim))"

definition split_by :: "string \<Rightarrow> string \<Rightarrow> bool \<Rightarrow> bool \<Rightarrow> string list option" where
  "split_by str delim include_empty need_trim =
     (if str = [] then Some (if include_empty then [str] else [])
      else map_option (\<lambda>num. split_by_loop str delim include_empty need_trim num 0)
             (split_count str delim 0 1))"

text \<open>Splitting in two at the first or the last delimiter.\<close>

definition split2 :: "string \<Rightarrow> string \<Rightarrow> bool \<Rightarrow> bool \<Rightarrow> string \<times> string" where
  "split2 str delim reverse need_trim =
     (let seek = (if \<not> reverse then sv_find_first_of str delim 0 else sv_find_last_of str delim);
          (first, second) = (case seek of
              Some i \<Rightarrow> (take i str, sv_substr str (i + 1) (length str - i - 1))
            | None \<Rightarrow> (str, []))
      in if need_trim then (trim first, trim second) else (first, second))"

definition split2_by :: "string \<Rightarrow> char \<Rightarrow> bool \<Rightarrow> string \<times> string" where
  "split2_by str delim need_trim = split2 str [delim] False need_trim"

definition rsplit2_by :: "string \<Rightarrow> char \<Rightarrow> bool \<Rightarrow> string \<times> string" where
  "rsplit2_by str delim need_trim = split2 str [delim] True need_trim"

definition split2_by_any_of :: "string \<Rightarrow> string \<Rightarrow> bool \<Rightarrow> string \<times> string" where
  "split2_by_any_of str delim need_trim = split2 str delim False need_trim"

text \<open>\<^verbatim>\<open>split_if\<close>: pieces between the characters that satisfy the predicate, empty pieces dropped.\<close>

function split_if :: "string \<Rightarrow> (char \<Rightarrow> bool) \<Rightarrow> bool \<Rightarrow> string list" where
  "split_if str p need_trim =
     (if str = [] then []
      else let pos = find_if p str;
               part = (if need_trim then trim (sv_substr str 0 pos) else sv_substr str 0 pos)
           in (if part \<noteq> [] then [part] else []) @
              split_if (drop (min (pos + 1) (length str)) str) p need_trim)"
  by pat_completeness auto
termination
  by (relation "measure (\<lambda>(s, p, nt). length s)") auto

declare split_if.simps [simp del]

section \<open>Concatenation and joining\<close>

fun concat_parts :: "'a list list \<Rightarrow> 'a list" where
  "concat_parts [] = []"
| "concat_parts (p # ps) = p @ concat_parts ps"

fun join_rest :: "string list \<Rightarrow> string \<Rightarrow> string" where
  "join_rest [] delimiter = []"
| "join_rest (x # xs) delimiter = delimiter @ x @ join_rest xs delimiter"

definition join :: "string list \<Rightarrow> string \<Rightarrow> string" where
  "join parts delimiter =
     (case parts of [] \<Rightarrow> [] | p # ps \<Rightarrow> p @ join_rest ps delimiter)"

section \<open>Lines\<close>

definition crlf_chars :: string where
  "crlf_chars = [CHR 0x0D, CHR 0x0A]"

text \<open>
  The loop test is \<^verbatim>\<open>start != str.size()\<close>; \<^verbatim>\<open>start\<close> never passes the size, since a line break found
  at \<^verbatim>\<open>end\<close> is below the size and the next start is \<^verbatim>\<open>end + 1\<close>.
  \<^verbatim>\<open>for_each_line\<close> calls back with the position truncated to 32 bits; the callback is a function
  on a state \<^typ>\<open>'st\<close> that also says whether to go on.
\<close>

function for_each_line_from ::
    "string \<Rightarrow> ('st \<Rightarrow> u32 \<Rightarrow> string \<Rightarrow> 'st \<times> bool) \<Rightarrow> 'st \<Rightarrow> nat \<Rightarrow> 'st" where
  "for_each_line_from str action st start =
     (if start \<ge> length str then st
      else case sv_find_first_of str crlf_chars start of
        None \<Rightarrow> fst (action st (of_nat start) (trim (drop start str)))
      | Some e \<Rightarrow>
          (let len = e - start; line = trim (sv_substr str start len);
               (st', go) = action st (of_nat start) line
           in if \<not> go then st' else for_each_line_from str action st' (start + (len + 1))))"
  by pat_completeness auto
termination
  by (relation "measure (\<lambda>(str, action, st, start). length str - start)") auto

declare for_each_line_from.simps [simp del]

definition for_each_line :: "string \<Rightarrow> ('st \<Rightarrow> u32 \<Rightarrow> string \<Rightarrow> 'st \<times> bool) \<Rightarrow> 'st \<Rightarrow> 'st \<times> int" where
  "for_each_line str action st = (for_each_line_from str action st 0, 0)"

definition read_line :: "string \<Rightarrow> nat \<Rightarrow> string option" where
  "read_line str pos =
     (if pos \<ge> length str then None
      else let e = (case sv_find_first_of str crlf_chars pos of None \<Rightarrow> length str | Some i \<Rightarrow> i)
           in Some (trim (sv_substr str pos (e - pos))))"

section \<open>Word wrapping\<close>

text \<open>One turn of the outer loop: the width of the segment that starts at \<^verbatim>\<open>cur_pos\<close>.\<close>

definition wrap_width :: "string \<Rightarrow> nat \<Rightarrow> nat \<Rightarrow> nat" where
  "wrap_width text width cur_pos =
     (let w = (if length text - cur_pos < width then length text - cur_pos else width);
          segment = sv_substr text cur_pos w
      in if cur_pos + w < length text \<and> text ! (cur_pos + w) \<noteq> CHR '' ''
         then (case sv_find_last_of segment '' '' of
                 None \<Rightarrow> w
               | Some i \<Rightarrow> (if i \<noteq> 0 then i else w))
         else w)"

text \<open>The inner loop that skips the spaces after a segment.\<close>

definition skip_spaces :: "string \<Rightarrow> nat \<Rightarrow> nat" where
  "skip_spaces text cur_pos = cur_pos + find_if (\<lambda>c. c \<noteq> CHR '' '') (drop cur_pos text)"

function word_wrap_loop :: "string \<Rightarrow> nat \<Rightarrow> nat \<Rightarrow> string list" where
  "word_wrap_loop text width cur_pos =
     (if cur_pos < length text \<and> width \<noteq> 0 then
        (let w = wrap_width text width cur_pos
         in sv_substr text cur_pos w #
            word_wrap_loop text width (skip_spaces text (cur_pos + w)))
      else [])"
  by pat_completeness auto

lemma wrap_width_pos: "cur_pos < length text \<Longrightarrow> width \<noteq> 0 \<Longrightarrow> 0 < wrap_width text width cur_pos"
  by (auto simp: wrap_width_def Let_def split: option.splits)

lemma skip_spaces_ge: "cur_pos \<le> skip_spaces text cur_pos"
  by (simp add: skip_spaces_def)

termination word_wrap_loop
proof (relation "measure (\<lambda>(t, w, c). length t - c)")
  fix t :: string and width cur_pos w :: nat
  assume a: "cur_pos < length t \<and> width \<noteq> 0" and w: "w = wrap_width t width cur_pos"
  then have "0 < w" using wrap_width_pos by simp
  moreover have "cur_pos + w \<le> skip_spaces t (cur_pos + w)" by (rule skip_spaces_ge)
  ultimately show "((t, width, skip_spaces t (cur_pos + w)), t, width, cur_pos)
      \<in> measure (\<lambda>(t, w, c). length t - c)"
    using a by (simp add: diff_less_mono2)
qed simp

declare word_wrap_loop.simps [simp del]

definition word_wrap :: "string \<Rightarrow> nat \<Rightarrow> string list" where
  "word_wrap text width =
     (if width = 0 \<or> length text \<le> width then [text] else word_wrap_loop text width 0)"

section \<open>Shell quoting\<close>

definition escape_argument_for_shell :: "string \<Rightarrow> string" where
  "escape_argument_for_shell arg =
     [CHR 0x27] @
     concat (map (\<lambda>ch. if ch \<noteq> CHR 0x27 then [ch] else [CHR 0x27, CHR 0x5C, CHR 0x27, CHR 0x27]) arg) @
     [CHR 0x27]"

section \<open>\<^verbatim>\<open>swap_remove_if\<close>\<close>

text \<open>The vector is a list, the iterators are indices; \<^verbatim>\<open>std::swap(*begin++, *i)\<close> swaps two cells.\<close>

definition swap_at :: "'a list \<Rightarrow> nat \<Rightarrow> nat \<Rightarrow> 'a list" where
  "swap_at xs i j = xs[i := xs ! j, j := xs ! i]"

function swap_remove_loop :: "('a \<Rightarrow> bool) \<Rightarrow> 'a list \<Rightarrow> nat \<Rightarrow> nat \<Rightarrow> 'a list \<times> nat" where
  "swap_remove_loop p xs b i =
     (if i + 1 < length xs then
        (if \<not> p (xs ! (i + 1)) then swap_remove_loop p (swap_at xs b (i + 1)) (b + 1) (i + 1)
         else swap_remove_loop p xs b (i + 1))
      else (xs, b))"
  by pat_completeness auto
termination
  by (relation "measure (\<lambda>(p, xs, b, i). length xs - i)") (auto simp: swap_at_def)

declare swap_remove_loop.simps [simp del]

definition swap_remove_if :: "('a \<Rightarrow> bool) \<Rightarrow> 'a list \<Rightarrow> 'a list \<times> nat" where
  "swap_remove_if p xs =
     (let b = find_if p xs in if b \<noteq> length xs then swap_remove_loop p xs b b else (xs, b))"

section \<open>Splitting against the list of pieces\<close>

text \<open>The reference: the maximal delimiter-free pieces of a text, empty ones included.\<close>

fun pieces :: "('a \<Rightarrow> bool) \<Rightarrow> 'a list \<Rightarrow> 'a list list" where
  "pieces p [] = [[]]"
| "pieces p (x # xs) =
     (if p x then [] # pieces p xs else (x # hd (pieces p xs)) # tl (pieces p xs))"

lemma pieces_ne [simp]: "pieces p xs \<noteq> []"
  by (induction xs) auto

lemma length_pieces: "length (pieces p xs) = 1 + length (filter p xs)"
  by (induction xs) auto

lemma pieces_unfold:
  "pieces p xs =
     takeWhile (\<lambda>x. \<not> p x) xs #
       (case dropWhile (\<lambda>x. \<not> p x) xs of [] \<Rightarrow> [] | y # ys \<Rightarrow> pieces p ys)"
  by (induction xs) auto

lemma pieces_free: "\<forall>t \<in> set (pieces p xs). \<forall>x \<in> set t. \<not> p x"
proof (induction xs)
  case (Cons y ys)
  then show ?case by (cases "pieces p ys") auto
qed simp

lemma pieces_whole: "\<forall>x \<in> set xs. \<not> p x \<Longrightarrow> pieces p xs = [xs]"
  by (induction xs) auto

lemma pieces_step:
  assumes "seek \<le> length s"
  shows "pieces p (drop seek s) =
    (case sv_find_pred p s seek of
       None \<Rightarrow> [drop seek s]
     | Some e \<Rightarrow> sv_substr s seek (e - seek) # pieces p (drop (e + 1) s))"
proof (cases "sv_find_pred p s seek")
  case None
  then have "\<forall>x \<in> set (drop seek s). \<not> p x" by (simp add: sv_find_pred_None)
  then show ?thesis using None by (simp add: pieces_whole)
next
  case (Some e)
  then have e: "e = seek + find_if p (drop seek s)" and l: "e < length s"
    by (auto simp: sv_find_pred_def Let_def split: if_splits)
  then have t: "takeWhile (\<lambda>x. \<not> p x) (drop seek s) = sv_substr s seek (e - seek)"
    by (simp add: sv_substr_def take_find_if)
  have "dropWhile (\<lambda>x. \<not> p x) (drop seek s) = drop (e - seek) (drop seek s)"
    using e by (simp only: drop_find_if [symmetric] add_diff_cancel_left')
  also have "\<dots> = s ! e # drop (e + 1) s"
    using e l by (simp add: Cons_nth_drop_Suc add.commute)
  finally show ?thesis using Some t by (subst pieces_unfold) simp
qed

lemma split_by_any_of_loop_pieces:
  assumes "seek \<le> length s" and "n = length (pieces (\<lambda>c. c \<in> set d) (drop seek s))"
  shows "split_by_any_of_loop s d ie nt n seek =
    concat (map (split_emit ie nt) (pieces (\<lambda>c. c \<in> set d) (drop seek s)))"
  using assms
proof (induction n arbitrary: seek)
  case (Suc n)
  let ?p = "\<lambda>c. c \<in> set d"
  note step = pieces_step [OF Suc.prems(1), of ?p]
  show ?case
  proof (cases "sv_find_pred ?p s seek")
    case None
    with step Suc.prems show ?thesis
      by (simp add: sv_find_first_of_def sv_substr_def Let_def)
  next
    case (Some e)
    then have "e + 1 \<le> length s" by (auto dest: sv_find_pred_Some(2))
    moreover from Some step Suc.prems(2) have "n = length (pieces ?p (drop (e + 1) s))" by simp
    ultimately have "split_by_any_of_loop s d ie nt n (e + 1) =
        concat (map (split_emit ie nt) (pieces ?p (drop (e + 1) s)))"
      by (rule Suc.IH)
    then show ?thesis using Some step by (simp add: sv_find_first_of_def Let_def)
  qed
qed simp

lemma split_by_any_of_pieces:
  "s \<noteq> [] \<Longrightarrow> split_by_any_of s d ie nt = concat (map (split_emit ie nt) (pieces (\<lambda>c. c \<in> set d) s))"
  using split_by_any_of_loop_pieces [of 0 s _ d ie nt]
  by (simp add: split_by_any_of_def length_pieces)

lemma pieces_join_rest:
  "(\<forall>p \<in> set (x # ps). c \<notin> set p) \<Longrightarrow> pieces (\<lambda>y. y \<in> set [c]) (x @ join_rest ps [c]) = x # ps"
proof (induction ps arbitrary: x)
  case Nil
  then show ?case by (auto intro: pieces_whole)
next
  case (Cons y ps)
  have "c \<notin> set x" using Cons.prems by simp
  then have tw: "takeWhile (\<lambda>z. z \<noteq> c) (x @ c # r) = x" "dropWhile (\<lambda>z. z \<noteq> c) (x @ c # r) = c # r" for r
    by (induction x) auto
  from Cons have "pieces (\<lambda>y. y \<in> set [c]) (y @ join_rest ps [c]) = y # ps" by simp
  then show ?case by (subst pieces_unfold) (simp add: tw)
qed

lemma split_emit_keep: "t \<noteq> [] \<Longrightarrow> \<not> nt \<or> trim t = t \<Longrightarrow> split_emit ie nt t = [t]"
  by (auto simp: split_emit_def)

text \<open>Also: splitting a joined list of non-empty, delimiter-free (and, when trimming is on, already
  trimmed) parts by the delimiter gives the list back.\<close>

theorem split_join_roundtrip:
  assumes "ps \<noteq> []"
    and "\<forall>p \<in> set ps. p \<noteq> [] \<and> c \<notin> set p \<and> (need_trim \<longrightarrow> trim p = p)"
  shows "split_by_char (join ps [c]) c include_empty need_trim = ps"
proof -
  from assms(1) obtain x rest where ps: "ps = x # rest" by (cases ps) auto
  let ?s = "x @ join_rest rest [c]"
  have "pieces (\<lambda>y. y \<in> set [c]) ?s = ps"
    using assms(2) pieces_join_rest [of x rest c] by (auto simp: ps)
  moreover have "?s \<noteq> []" using assms(2) by (simp add: ps)
  ultimately have "split_by_char ?s c include_empty need_trim =
      concat (map (split_emit include_empty need_trim) ps)"
    by (simp add: split_by_char_def split_by_any_of_pieces)
  also have "\<dots> = concat (map (\<lambda>t. [t]) ps)"
    using assms(2) by (intro arg_cong [of _ _ concat] map_cong refl split_emit_keep) auto
  finally show ?thesis by (simp add: join_def ps)
qed

theorem split_join_roundtrip_witness:
  "split_by_char (join [''ab'', ''c''] [CHR '','']) CHR '','' False True = [''ab'', ''c'']"
proof -
  have "trim ''ab'' = ''ab''" and "trim ''c'' = ''c''"
    by (simp_all add: trim_def ltrim_def rtrim_def c_isspace_def)
  then have "\<forall>p \<in> set [''ab'', ''c'']. p \<noteq> [] \<and> CHR '','' \<notin> set p \<and> (True \<longrightarrow> trim p = p)" by simp
  then show ?thesis by (intro split_join_roundtrip) simp_all
qed

section \<open>The splitter with a string delimiter\<close>

lemma sv_find_Some_bounds:
  assumes "sv_find s d from = Some i"
  shows "from \<le> i" and "i + length d \<le> length s"
proof -
  from assms obtain j where j: "sv_find_sub d (drop from s) = Some j" "i = from + j" "from \<le> length s"
    by (auto simp: sv_find_def split: if_splits)
  then show "from \<le> i" and "i + length d \<le> length s"
    using sv_find_sub_Some [OF j(1)] by auto
qed

lemma split_count_returns:
  assumes "d \<noteq> []"
  shows "\<exists>n. split_count s d seek num = Some n"
proof (induction "length s - seek" arbitrary: seek num rule: less_induct)
  case less
  show ?case
  proof (cases "sv_find s d seek")
    case None
    then show ?thesis by (simp add: split_count.simps)
  next
    case (Some i)
    have "length s - (i + length d) < length s - seek"
      using sv_find_Some_bounds [OF Some] assms by (cases d) auto
    then have "\<exists>n. split_count s d (i + length d) (num + 1) = Some n"
      by (rule less)
    then show ?thesis by (subst split_count.simps) (simp add: Some)
  qed
qed

lemma sv_find_empty: "seek \<le> length s \<Longrightarrow> sv_find s [] seek = Some seek"
  by (cases "drop seek s") (auto simp: sv_find_def)

lemma split_count_empty_delim:
  assumes "split_count s d seek num = Some n"
  shows "d = [] \<longrightarrow> \<not> seek \<le> length s"
proof (rule split_count.raw_induct [where P = "\<lambda>s d seek num n. d = [] \<longrightarrow> \<not> seek \<le> length s", OF _ assms])
  fix f and s d :: string and seek num n :: nat
  assume IH: "\<And>s d seek num n. f s d seek num = Some n \<Longrightarrow> d = [] \<longrightarrow> \<not> seek \<le> length s"
    and eq: "(case sv_find s d seek of None \<Rightarrow> Some num
      | Some pos \<Rightarrow> f s d (pos + length d) (num + 1)) = Some n"
  show "d = [] \<longrightarrow> \<not> seek \<le> length s"
  proof
    assume d: "d = []"
    show "\<not> seek \<le> length s"
    proof
      assume "seek \<le> length s"
      with d eq have "f s d seek (num + 1) = Some n" by (simp add: sv_find_empty)
      from IH [OF this] d \<open>seek \<le> length s\<close> show False by simp
    qed
  qed
qed

text \<open>Also: the splitter with a string delimiter returns exactly when it is not given an empty delimiter
  together with a non-empty text; in that case its counting loop never ends.\<close>

theorem split_by_returns_iff:
  "(\<exists>r. split_by s d ie nt = Some r) \<longleftrightarrow> \<not> (d = [] \<and> s \<noteq> [])"
proof -
  have "split_count s [] 0 1 = None"
    using split_count_empty_delim [of s "[]" 0 1] by (cases "split_count s [] 0 1") auto
  moreover have "d \<noteq> [] \<Longrightarrow> \<exists>n. split_count s d 0 1 = Some n"
    by (rule split_count_returns)
  ultimately show ?thesis by (cases "d = []") (auto simp: split_by_def)
qed

section \<open>Splitting in two\<close>

lemma split2_found:
  assumes "\<exists>c \<in> set s. c \<in> set d"
  shows "\<exists>a x b. split2 s d False False = (a, b) \<and> s = a @ x # b \<and> x \<in> set d \<and> set a \<inter> set d = {}"
proof -
  let ?p = "\<lambda>c. c \<in> set d"
  obtain i where i: "sv_find_first_of s d 0 = Some i"
    using assms sv_find_pred_None [of ?p s 0] by (cases "sv_find_pred ?p s 0") (auto simp: sv_find_first_of_def)
  note f = sv_find_pred_Some [OF i [unfolded sv_find_first_of_def]]
  have "s = take i s @ s ! i # drop (i + 1) s"
    using f(2) by (simp add: Cons_nth_drop_Suc)
  moreover have "set (take i s) \<inter> set d = {}"
    using f(2,4) by (auto simp: in_set_conv_nth)
  moreover have "split2 s d False False = (take i s, drop (i + 1) s)"
    using i by (simp add: split2_def sv_substr_def)
  ultimately show ?thesis using f(3) by blast
qed

lemma split2_not_found: "\<forall>c \<in> set s. c \<notin> set d \<Longrightarrow> split2 s d False nt = (if nt then trim s else s, [])"
  using sv_find_pred_None [of "\<lambda>c. c \<in> set d" s 0]
  by (simp add: split2_def sv_find_first_of_def trim_def ltrim_def rtrim_def)

section \<open>Word wrapping\<close>

abbreviation no_space :: "string \<Rightarrow> string" where
  "no_space s \<equiv> filter (\<lambda>c. c \<noteq> CHR '' '') s"

lemma wrap_width_le: "wrap_width t w c \<le> w" and wrap_width_le_rest: "wrap_width t w c \<le> length t - c"
proof -
  let ?v = "if length t - c < w then length t - c else w"
  have "wrap_width t w c \<le> ?v"
    by (auto simp: wrap_width_def Let_def sv_find_last_of_def sv_substr_def split: option.splits if_splits)
  then show "wrap_width t w c \<le> w" and "wrap_width t w c \<le> length t - c"
    by (auto split: if_splits)
qed

lemma no_space_skip: "no_space (drop (skip_spaces t c) t) = no_space (drop c t)"
proof -
  have "drop (skip_spaces t c) t = dropWhile (\<lambda>x. \<not> x \<noteq> CHR '' '') (drop c t)"
    using drop_find_if [of "\<lambda>x. x \<noteq> CHR '' ''" "drop c t"]
    by (simp add: skip_spaces_def add.commute)
  moreover have "no_space (dropWhile (\<lambda>x. \<not> x \<noteq> CHR '' '') u) = no_space u" for u
    by (induction u) auto
  ultimately show ?thesis by simp
qed

lemma word_wrap_loop_lines:
  "l \<in> set (word_wrap_loop t w c) \<Longrightarrow> l \<noteq> [] \<and> length l \<le> w"
proof (induction t w c rule: word_wrap_loop.induct)
  case (1 t w c)
  show ?case
  proof (cases "c < length t \<and> w \<noteq> 0")
    case True
    let ?v = "wrap_width t w c"
    have "0 < ?v" "?v \<le> w" using True wrap_width_pos wrap_width_le by auto
    then have "sv_substr t c ?v \<noteq> [] \<and> length (sv_substr t c ?v) \<le> w"
      using True by (simp add: sv_substr_def)
    then show ?thesis using 1 True by (auto simp: word_wrap_loop.simps [of t w c] Let_def)
  qed (use 1 in \<open>simp add: word_wrap_loop.simps\<close>)
qed

lemma word_wrap_loop_content:
  "w \<noteq> 0 \<Longrightarrow> no_space (concat (word_wrap_loop t w c)) = no_space (drop c t)"
proof (induction t w c rule: word_wrap_loop.induct)
  case (1 t w c)
  show ?case
  proof (cases "c < length t")
    case True
    let ?v = "wrap_width t w c"
    have "no_space (concat (word_wrap_loop t w (skip_spaces t (c + ?v)))) = no_space (drop (c + ?v) t)"
      using 1 True no_space_skip by simp
    moreover have "drop c t = take ?v (drop c t) @ drop (c + ?v) t"
      by (metis add.commute append_take_drop_id drop_drop)
    then have "no_space (drop c t) = no_space (take ?v (drop c t)) @ no_space (drop (c + ?v) t)"
      by (metis filter_append)
    ultimately show ?thesis using True "1.prems"
      by (simp add: word_wrap_loop.simps [of t w c] Let_def sv_substr_def)
  qed (simp add: word_wrap_loop.simps)
qed

text \<open>Also: for a non-zero width every line of a wrapped text fits the width, and wrapping loses or invents
  nothing but spaces: without the spaces, the lines put together are the text.\<close>

theorem word_wrap_correct:
  assumes "width \<noteq> 0"
  shows "(\<forall>l \<in> set (word_wrap t width). length l \<le> width) \<and>
    no_space (concat (word_wrap t width)) = no_space t"
  using assms word_wrap_loop_lines [of _ t width 0] word_wrap_loop_content [of width t 0]
  by (auto simp: word_wrap_def)

theorem word_wrap_correct_witness:
  "list_all (\<lambda>l. length l \<le> 4) (word_wrap ''ab cde f'' 4) \<and> (4::nat) \<noteq> 0 \<and>
   no_space (concat (word_wrap ''ab cde f'' 4)) = ''abcdef''"
  using word_wrap_correct [of 4 "''ab cde f''"] by (simp add: list_all_iff)

section \<open>Shell quoting\<close>

text \<open>
  How a POSIX shell reads one word made of quoted characters only: inside single quotes every
  character up to the next quote is literal, outside them a backslash quotes the next
  character.  Any other unquoted character could be special, and the reader gives up on it.
\<close>

fun sh_word :: "bool \<Rightarrow> string \<Rightarrow> string option" where
  "sh_word False [] = Some []"
| "sh_word True [] = None"
| "sh_word True (c # cs) =
     (if c = CHR 0x27 then sh_word False cs else map_option ((#) c) (sh_word True cs))"
| "sh_word False [c] = (if c = CHR 0x27 then sh_word True [] else None)"
| "sh_word False (c # d # cs) =
     (if c = CHR 0x27 then sh_word True (d # cs)
      else if c = CHR 0x5C then map_option ((#) d) (sh_word False cs)
      else None)"

lemma sh_word_open [simp]: "sh_word False (CHR 0x27 # cs) = sh_word True cs"
  by (cases cs) auto

lemma sh_word_quoted:
  "sh_word True (concat (map (\<lambda>ch. if ch \<noteq> CHR 0x27 then [ch]
      else [CHR 0x27, CHR 0x5C, CHR 0x27, CHR 0x27]) arg) @ [CHR 0x27]) = Some arg"
  by (induction arg) auto

text \<open>Also: a POSIX shell reads the escaped argument as exactly one word, the argument itself; no character
  of it is left unquoted.\<close>

theorem escape_argument_for_shell_correct:
  "sh_word False (escape_argument_for_shell arg) = Some arg"
  by (simp add: escape_argument_for_shell_def sh_word_quoted)

section \<open>\<^verbatim>\<open>swap_remove_if\<close>\<close>

lemma swap_at_length [simp]: "length (swap_at xs i j) = length xs"
  by (simp add: swap_at_def)

lemma mset_swap_at: "i < length xs \<Longrightarrow> j < length xs \<Longrightarrow> mset (swap_at xs i j) = mset xs"
  by (simp add: swap_at_def mset_swap)

text \<open>
  The loop invariant: below \<^verbatim>\<open>begin\<close> stand the kept elements of the prefix seen so far, in order;
  between \<^verbatim>\<open>begin\<close> and the cursor every element is one to remove.
\<close>

definition swap_inv :: "('a \<Rightarrow> bool) \<Rightarrow> 'a list \<Rightarrow> 'a list \<Rightarrow> nat \<Rightarrow> nat \<Rightarrow> bool" where
  "swap_inv p xs0 xs b i \<longleftrightarrow>
     b \<le> i \<and> i < length xs \<and> length xs = length xs0 \<and> mset xs = mset xs0 \<and>
     take b xs = filter (\<lambda>x. \<not> p x) (take (i + 1) xs0) \<and>
     (\<forall>k. b \<le> k \<and> k \<le> i \<longrightarrow> p (xs ! k)) \<and> drop (i + 1) xs = drop (i + 1) xs0"

lemma swap_inv_step:
  assumes inv: "swap_inv p xs0 xs b i" and i: "i + 1 < length xs"
  shows "if p (xs ! (i + 1)) then swap_inv p xs0 xs b (i + 1)
    else swap_inv p xs0 (swap_at xs b (i + 1)) (b + 1) (i + 1)"
proof -
  from inv have len: "length xs = length xs0" and d: "drop (i + 1) xs = drop (i + 1) xs0"
    and t: "take b xs = filter (\<lambda>x. \<not> p x) (take (i + 1) xs0)" and bi: "b \<le> i"
    and q: "\<forall>k. b \<le> k \<and> k \<le> i \<longrightarrow> p (xs ! k)" and m: "mset xs = mset xs0"
    by (auto simp: swap_inv_def)
  from d i len have nxt: "xs ! (i + 1) = xs0 ! (i + 1)"
    by (metis add.right_neutral less_imp_le_nat nth_drop)
  have d2: "drop (i + 2) xs = drop (i + 2) xs0"
    using arg_cong [OF d, of "drop 1"] by simp
  have tk: "take (i + 2) xs0 = take (i + 1) xs0 @ [xs0 ! (i + 1)]"
    using i len by (simp add: take_Suc_conv_app_nth)
  show ?thesis
  proof (cases "p (xs ! (i + 1))")
    case True
    have "p (xs ! k)" if "b \<le> k" "k \<le> i + 1" for k
      using that q True by (cases "k = i + 1") auto
    then show ?thesis
      using True inv i tk nxt d2 by (auto simp: swap_inv_def)
  next
    case False
    let ?ys = "swap_at xs b (i + 1)"
    have y: "?ys ! k = (if k = i + 1 then xs ! b else if k = b then xs ! (i + 1) else xs ! k)"
      if "k < length xs" for k
      using that bi i by (auto simp: swap_at_def nth_list_update)
    have "take b ?ys = take b xs" using bi by (simp add: swap_at_def)
    moreover have "?ys ! b = xs0 ! (i + 1)" using y [of b] bi i nxt by auto
    ultimately have "take (b + 1) ?ys = filter (\<lambda>x. \<not> p x) (take (i + 2) xs0)"
      using False t tk nxt bi i by (simp add: take_Suc_conv_app_nth)
    moreover have "p (?ys ! k)" if "b + 1 \<le> k" "k \<le> i + 1" for k
      using that y [of k] q bi i by auto
    moreover have "drop (i + 2) ?ys = drop (i + 2) xs0"
      using d2 bi by (simp add: swap_at_def)
    moreover have "mset ?ys = mset xs0" using mset_swap_at [of b xs "i + 1"] bi i m by simp
    ultimately show ?thesis
      using False bi i len by (simp add: swap_inv_def)
  qed
qed

lemma swap_remove_loop_inv:
  assumes "swap_inv p xs0 xs b i" and "swap_remove_loop p xs b i = (ys, e)"
  shows "swap_inv p xs0 ys e (length xs0 - 1)"
  using assms
proof (induction p xs b i rule: swap_remove_loop.induct)
  case (1 p xs b i)
  show ?case
  proof (cases "i + 1 < length xs")
    case True
    then show ?thesis
      using 1 swap_inv_step [OF "1.prems"(1) True]
      by (auto simp: swap_remove_loop.simps [of p xs b i] split: if_splits)
  next
    case False
    with "1.prems" have "ys = xs" "e = b" "i = length xs0 - 1"
      by (auto simp: swap_remove_loop.simps [of p xs b i] swap_inv_def)
    then show ?thesis using "1.prems"(1) by simp
  qed
qed

text \<open>Also: \<^verbatim>\<open>swap_remove_if\<close> permutes the range, puts the kept elements first in their original order, and
  leaves only elements to remove behind the returned iterator.\<close>

theorem swap_remove_if_correct:
  assumes "swap_remove_if p xs = (ys, e)"
  shows "mset ys = mset xs \<and> take e ys = filter (\<lambda>x. \<not> p x) xs \<and> (\<forall>x \<in> set (drop e ys). p x)"
proof (cases "find_if p xs = length xs")
  case True
  then have "\<forall>x \<in> set xs. \<not> p x" using find_if_less_iff [of p xs] by auto
  with True assms show ?thesis by (auto simp: swap_remove_if_def filter_id_conv)
next
  case False
  let ?b = "find_if p xs"
  from False have lt: "?b < length xs" using find_if_le [of p xs] by simp
  have "take (?b + 1) xs = takeWhile (\<lambda>x. \<not> p x) xs @ [xs ! ?b]"
    using lt by (simp add: take_Suc_conv_app_nth take_find_if)
  then have "filter (\<lambda>x. \<not> p x) (take (?b + 1) xs) = take ?b xs"
    using find_if_nth [OF lt] by (auto simp: take_find_if filter_id_conv dest: set_takeWhileD)
  then have "swap_inv p xs xs ?b ?b"
    using lt find_if_nth [OF lt] by (auto simp: swap_inv_def dest: le_antisym)
  moreover from False assms have "swap_remove_loop p xs ?b ?b = (ys, e)"
    by (simp add: swap_remove_if_def Let_def)
  ultimately have inv: "swap_inv p xs ys e (length xs - 1)" by (rule swap_remove_loop_inv)
  then have "\<forall>x \<in> set (drop e ys). p x"
    by (auto simp: swap_inv_def in_set_conv_nth)
  with inv lt show ?thesis by (auto simp: swap_inv_def)
qed

theorem swap_remove_if_correct_witness:
  "swap_remove_if even [1, 2, 3, 4, 5::nat] = ([1, 3, 5, 4, 2], 3) \<and>
   take 3 [1, 3, 5, 4, 2::nat] = filter (\<lambda>x. \<not> even x) [1, 2, 3, 4, 5]"
proof -
  have run: "swap_remove_if even [1, 2, 3, 4, 5::nat] = ([1, 3, 5, 4, 2], 3)"
    by (simp add: swap_remove_if_def Let_def swap_remove_loop.simps swap_at_def)
  show ?thesis using swap_remove_if_correct [OF run] run by blast
qed

section \<open>Lines\<close>

text \<open>Every line that \<^verbatim>\<open>for_each_line\<close> reports is the line \<^verbatim>\<open>read_line\<close> finds at its position.\<close>

lemma for_each_line_from_reads:
  assumes step: "\<And>st k line. P st \<Longrightarrow> k < length s \<Longrightarrow> read_line s k = Some line
      \<Longrightarrow> P (fst (action st (of_nat k) line))"
    and "P st"
  shows "P (for_each_line_from s action st start)"
  using assms(2)
proof (induction "length s - start" arbitrary: st start rule: less_induct)
  case less
  note unf = for_each_line_from.simps [of s action st start]
  show ?case
  proof (cases "start \<ge> length s")
    case True
    with less.prems show ?thesis by (simp add: unf)
  next
    case False
    then have lt: "start < length s" by simp
    show ?thesis
    proof (cases "sv_find_first_of s crlf_chars start")
      case None
      with False have "read_line s start = Some (trim (drop start s))"
        by (simp add: read_line_def sv_substr_def)
      from step [OF less.prems lt this] None False show ?thesis by (simp add: unf)
    next
      case (Some e)
      then have e: "start \<le> e" "e < length s"
        using sv_find_pred_Some(1,2) by (auto simp: sv_find_first_of_def)
      let ?line = "trim (sv_substr s start (e - start))"
      from Some False have "read_line s start = Some ?line" by (simp add: read_line_def)
      from step [OF less.prems lt this] have P: "P (fst (action st (of_nat start) ?line))" .
      have "length s - (e + 1) < length s - start" using e by simp
      from less.hyps [OF this P] P show ?thesis
        using Some False e by (auto simp: unf Let_def split: prod.splits)
    qed
  qed
qed

definition collect_line :: "(u32 \<times> string) list \<Rightarrow> u32 \<Rightarrow> string \<Rightarrow> (u32 \<times> string) list \<times> bool" where
  "collect_line acc pos line = (acc @ [(pos, line)], True)"

text \<open>Also: every line that \<^verbatim>\<open>for_each_line\<close> reports is the line that \<^verbatim>\<open>read_line\<close> returns for the position it
  was reported at.\<close>

theorem for_each_line_read_line:
  "list_all (\<lambda>(pos, line). \<exists>k < length s. pos = of_nat k \<and> read_line s k = Some line)
     (fst (for_each_line s collect_line []))"
  unfolding for_each_line_def fst_conv
  by (rule for_each_line_from_reads) (auto simp: collect_line_def)

end
