(* ===== verification/Bits.thy ===== *)
theory Bits
  imports Prelude
begin

text \<open>
  Network addresses as byte strings: their bits, most significant first, and their value as a
  big-endian number.  The two views meet in the fact that two addresses of the same size agree
  on their first \<open>p\<close> bits exactly when their values agree after division by the block size.
\<close>

unbundle bit_operations_syntax

section \<open>Bits of an address\<close>

definition abit :: "bytes \<Rightarrow> nat \<Rightarrow> bool" where
  "abit a k = bit (a ! (k div 8)) (7 - k mod 8)"

lemma abit_split: "i < n \<Longrightarrow> j < 8 \<Longrightarrow> \<exists>k < 8 * n. k div 8 = i \<and> 7 - k mod 8 = j" for i j n :: nat
proof -
  assume "i < n" and "j < 8"
  obtain m where m: "m = 7 - j" by simp
  have "(8 * i + m) div 8 = i" and "(8 * i + m) mod 8 = m" using m by simp_all
  moreover have "8 * i + m < 8 * n" using m \<open>i < n\<close> by simp
  moreover have "7 - m = j" using m \<open>j < 8\<close> by simp
  ultimately show "\<exists>k < 8 * n. k div 8 = i \<and> 7 - k mod 8 = j" by metis
qed

lemma bytes_eq_iff:
  assumes "length a = n" and "length b = n"
  shows "a = b \<longleftrightarrow> (\<forall>k < 8 * n. abit a k = abit b k)"
proof
  assume bits: "\<forall>k < 8 * n. abit a k = abit b k"
  show "a = b"
  proof (rule nth_equalityI)
    show "length a = length b" using assms by simp
    fix i assume "i < length a"
    show "a ! i = b ! i"
    proof (rule bit_word_eqI)
      fix j assume "j < LENGTH(8)"
      then obtain k where "k < 8 * n" "k div 8 = i" "7 - k mod 8 = j"
        using abit_split [of i n j] \<open>i < length a\<close> assms by auto
      with bits show "bit (a ! i) j \<longleftrightarrow> bit (b ! i) j" by (auto simp: abit_def)
    qed
  qed
qed simp

text \<open>Changing one bit of an address.\<close>

definition flip_abit :: "bytes \<Rightarrow> nat \<Rightarrow> bytes" where
  "flip_abit a k = a[k div 8 := (a ! (k div 8)) XOR push_bit (7 - k mod 8) 1]"

lemma flip_abit_length [simp]: "length (flip_abit a k) = length a"
  by (simp add: flip_abit_def)

lemma abit_flip:
  assumes "k < 8 * length a" and "l < 8 * length a"
  shows "abit (flip_abit a k) l \<longleftrightarrow> (if l = k then \<not> abit a k else abit a l)"
proof -
  have kl: "k div 8 < length a" "l div 8 < length a" using assms by auto
  show ?thesis
  proof (cases "l div 8 = k div 8")
    case True
    have "7 - l mod 8 = 7 - k mod 8 \<longleftrightarrow> l = k"
    proof
      assume "7 - l mod 8 = 7 - k mod 8"
      moreover have "l mod 8 < 8" "k mod 8 < 8" by simp_all
      ultimately have "l mod 8 = k mod 8" by linarith
      with True show "l = k" by (metis div_mult_mod_eq)
    qed simp
    then show ?thesis using kl True by (auto simp: abit_def flip_abit_def bit_simps)
  next
    case False
    then show ?thesis using kl by (auto simp: abit_def flip_abit_def nth_list_update)
  qed
qed

section \<open>The value of an address\<close>

fun addr_nat :: "bytes \<Rightarrow> nat" where
  "addr_nat [] = 0"
| "addr_nat (b # bs) = unat b * 256 ^ length bs + addr_nat bs"

lemma addr_nat_less: "addr_nat a < 256 ^ length a"
proof (induction a)
  case (Cons b bs)
  have "unat b < 2 ^ LENGTH(8)" by (rule unsigned_less)
  then have "unat b + 1 \<le> 256" by simp
  have "addr_nat (b # bs) < (unat b + 1) * 256 ^ length bs" using Cons by simp
  also have "\<dots> \<le> 256 * 256 ^ length bs" using \<open>unat b + 1 \<le> 256\<close> by (rule mult_le_mono1)
  finally show ?case by simp
qed simp

lemma addr_nat_less_exp: "addr_nat a < 2 ^ (8 * length a)"
  using addr_nat_less [of a] by (simp add: power_mult)

lemma bit_addr_nat_high: "8 * length a \<le> j \<Longrightarrow> \<not> bit (addr_nat a) j"
  using addr_nat_less_exp [of a] by (metis bit_take_bit_iff not_le take_bit_nat_eq_self_iff)

lemma bit_addr_nat: "k < 8 * length a \<Longrightarrow> bit (addr_nat a) (8 * length a - 1 - k) \<longleftrightarrow> abit a k"
proof (induction a arbitrary: k)
  case (Cons b bs)
  let ?m = "8 * length bs"
  have split: "addr_nat (b # bs) = push_bit ?m (unat b) OR addr_nat bs"
  proof -
    have "256 ^ length bs = (2::nat) ^ ?m" by (simp add: power_mult)
    then have e: "addr_nat (b # bs) = push_bit ?m (unat b) + addr_nat bs"
      by (simp add: push_bit_eq_mult)
    have "push_bit ?m (unat b) AND addr_nat bs = 0"
      by (intro bit_eqI) (auto simp: bit_simps bit_addr_nat_high)
    with e show ?thesis by (simp add: disjunctive_add_eq_or)
  qed
  show ?case
  proof (cases "k < 8")
    case True
    obtain j where j: "j = 7 - k" by simp
    have "8 * length (b # bs) - 1 - k = ?m + j" using True j by simp
    moreover have "\<not> bit (addr_nat bs) (?m + j)" by (simp add: bit_addr_nat_high)
    moreover have "abit (b # bs) k = bit b j" using True j by (simp add: abit_def)
    ultimately show ?thesis using split by (simp add: bit_simps)
  next
    case False
    then have lt: "k - 8 < ?m" using Cons.prems by auto
    obtain j where j: "j = ?m - 1 - (k - 8)" by simp
    have "8 * length (b # bs) - 1 - k = j" and "j < ?m" using False lt j by auto
    then have "bit (addr_nat (b # bs)) (8 * length (b # bs) - 1 - k) \<longleftrightarrow> bit (addr_nat bs) j"
      unfolding split by (simp add: bit_simps)
    also have "\<dots> \<longleftrightarrow> abit bs (k - 8)" unfolding j by (rule Cons.IH [OF lt])
    finally have "bit (addr_nat (b # bs)) (8 * length (b # bs) - 1 - k) \<longleftrightarrow> abit bs (k - 8)" .
    moreover have "k div 8 = Suc ((k - 8) div 8)" "(k - 8) mod 8 = k mod 8"
      using False by (auto simp: le_div_geq le_mod_geq)
    ultimately show ?thesis by (simp add: abit_def)
  qed
qed simp

lemma prefix_agree_iff:
  assumes "length a = n" and "length b = n" and "p \<le> 8 * n"
  shows "(\<forall>k < p. abit a k = abit b k) \<longleftrightarrow>
    addr_nat a div 2 ^ (8 * n - p) = addr_nat b div 2 ^ (8 * n - p)"
proof -
  let ?d = "8 * n - p"
  have high: "\<not> bit (addr_nat c) j" if "8 * n \<le> j" "length c = n" for c j
    using that by (simp add: bit_addr_nat_high)
  have "addr_nat a div 2 ^ ?d = addr_nat b div 2 ^ ?d \<longleftrightarrow>
      (\<forall>j. bit (addr_nat a) (?d + j) = bit (addr_nat b) (?d + j))"
    by (simp add: drop_bit_eq_div [symmetric] bit_eq_iff bit_drop_bit_eq)
  also have "\<dots> \<longleftrightarrow> (\<forall>k < p. abit a k = abit b k)"
  proof
    assume all: "\<forall>j. bit (addr_nat a) (?d + j) = bit (addr_nat b) (?d + j)"
    show "\<forall>k < p. abit a k = abit b k"
    proof (intro allI impI)
      fix k assume "k < p"
      then have "8 * n - 1 - k = ?d + (p - 1 - k)" using assms(3) by simp
      with all have "bit (addr_nat a) (8 * n - 1 - k) = bit (addr_nat b) (8 * n - 1 - k)" by metis
      then show "abit a k = abit b k"
        using bit_addr_nat [of k a] bit_addr_nat [of k b] assms \<open>k < p\<close> by simp
    qed
  next
    assume agree: "\<forall>k < p. abit a k = abit b k"
    show "\<forall>j. bit (addr_nat a) (?d + j) = bit (addr_nat b) (?d + j)"
    proof
      fix j
      show "bit (addr_nat a) (?d + j) = bit (addr_nat b) (?d + j)"
      proof (cases "?d + j < 8 * n")
        case True
        let ?k = "8 * n - 1 - (?d + j)"
        have "?k < p" "?k < 8 * n" "8 * n - 1 - ?k = ?d + j" using True assms(3) by auto
        then show ?thesis using bit_addr_nat [of ?k a] bit_addr_nat [of ?k b] assms agree by metis
      next
        case False
        then show ?thesis using high assms by simp
      qed
    qed
  qed
  finally show ?thesis by simp
qed

text \<open>The byte-wise comparison of addresses of one size is the comparison of their values.\<close>

fun bytes_less :: "bytes \<Rightarrow> bytes \<Rightarrow> bool" where
  "bytes_less (x # xs) (y # ys) = (if x \<noteq> y then x < y else bytes_less xs ys)"
| "bytes_less _ _ = False"

lemma bytes_less_iff: "length a = length b \<Longrightarrow> bytes_less a b \<longleftrightarrow> addr_nat a < addr_nat b"
proof (induction a b rule: bytes_less.induct)
  case (1 x xs y ys)
  show ?case
  proof (cases "x = y")
    case True
    with 1 show ?thesis by simp
  next
    case False
    have small: "addr_nat xs < 256 ^ length ys" "addr_nat ys < 256 ^ length ys"
      using addr_nat_less [of xs] addr_nat_less [of ys] 1 by simp_all
    have lt: "addr_nat (u # us) < addr_nat (v # vs)"
      if "u < v" "length us = length vs" for u v :: u8 and us vs
    proof -
      have "unat u + 1 \<le> unat v" using that(1) by (simp add: word_less_nat_alt)
      then have "(unat u + 1) * 256 ^ length vs \<le> unat v * 256 ^ length vs" by (rule mult_le_mono1)
      with addr_nat_less [of us] that(2) show ?thesis by (simp add: algebra_simps)
    qed
    show ?thesis
    proof (cases "x < y")
      case True
      then show ?thesis using False 1 lt [of x y xs ys] by simp
    next
      case nlt: False
      with False have "y < x" by simp
      then show ?thesis using False nlt 1 lt [of y x ys xs] by simp
    qed
  qed
qed auto

lemma addr_nat_inj: "length a = length b \<Longrightarrow> addr_nat a = addr_nat b \<longleftrightarrow> a = b"
  using prefix_agree_iff [of a "length b" b "8 * length b"] bytes_eq_iff [of a "length b" b]
  by auto

end
