(* ===== verification/Cidr.thy ===== *)
theory Cidr
  imports Errors StringUtils Bits
begin

text \<open>
  \<^verbatim>\<open>class CidrRange\<close> of \<^verbatim>\<open>common/include/common/cidr_range.h\<close>: construction from bytes and from
  text, containment, splitting, the exclusion of ranges from ranges, and the order.  A range is
  correct when it denotes the set of addresses that share its prefix; every operation is proved
  against that set.
\<close>

unbundle bit_operations_syntax

named_theorems cidr_defs \<open>definitions of the range operations\<close>

section \<open>Data\<close>

datatype cidr_error = AE_IP_ADDR_TOO_LONG | AE_PARSE_NET_STRING_ERROR

fun cidr_error_to_string :: "cidr_error \<Rightarrow> string" where
  "cidr_error_to_string AE_IP_ADDR_TOO_LONG = ''Address string too long''"
| "cidr_error_to_string AE_PARSE_NET_STRING_ERROR = ''Failed to parse string to network address''"

record cidr_range =
  m_address :: bytes
  m_mask :: bytes
  m_prefix_len :: nat
  m_error :: string

text \<open>The object before any constructor body has run.\<close>

definition cidr_blank :: cidr_range where
  "cidr_blank = \<lparr>m_address = [], m_mask = [], m_prefix_len = 0, m_error = []\<rparr>"

section \<open>Operations\<close>

subsection \<open>Construction from bytes\<close>

text \<open>The mask: zeroes, then full bytes below the significant byte, then the partial byte.\<close>

definition init_mask :: "nat \<Rightarrow> nat \<Rightarrow> bytes" where
  "init_mask n_bytes prefix_len =
     (let zeroes = replicate n_bytes (0 :: u8)
      in if prefix_len \<noteq> 0 then
           (let significant_byte = (prefix_len - 1) div 8;
                m = fold (\<lambda>i m. m[i := 0xff]) [0..<significant_byte] zeroes
            in if significant_byte < n_bytes then
                 (let shift = 8 - (prefix_len - significant_byte * 8)
                  in m[significant_byte := push_bit shift 0xff])
               else m)
         else zeroes)"

definition cidr_init :: "bytes \<Rightarrow> nat \<Rightarrow> cidr_range" where
  "cidr_init addr prefix_len =
     (if prefix_len > length addr * 8 then cidr_blank\<lparr>m_error := ''Invalid prefix length''\<rparr>
      else let mask = init_mask (length addr) prefix_len
           in \<lparr>m_address = map (\<lambda>i. (addr ! i) AND (mask ! i)) [0..<length addr],
               m_mask = mask, m_prefix_len = prefix_len, m_error = []\<rparr>)"

definition cidr_valid :: "cidr_range \<Rightarrow> bool" where
  "cidr_valid r \<longleftrightarrow> m_error r = []"

subsection \<open>Containment\<close>

definition cidr_contains :: "cidr_range \<Rightarrow> cidr_range \<Rightarrow> bool" where
  "cidr_contains self rng \<longleftrightarrow>
     length (m_address rng) = length (m_address self) \<and>
     list_all (\<lambda>i.
        m_mask self ! i = (m_mask rng ! i) AND (m_mask self ! i) \<and>
        (m_address self ! i) AND (m_mask self ! i) = (m_address rng ! i) AND (m_mask self ! i))
       [0..<length (m_address self)]"

definition cidr_contains_addr :: "cidr_range \<Rightarrow> bytes \<Rightarrow> bool" where
  "cidr_contains_addr self address \<longleftrightarrow>
     length address = length (m_address self) \<and>
     list_all (\<lambda>i. (m_address self ! i) AND (m_mask self ! i) = (address ! i) AND (m_mask self ! i))
       [0..<length (m_address self)]"

subsection \<open>Splitting\<close>

definition cidr_split :: "cidr_range \<Rightarrow> (cidr_range \<times> cidr_range) option" where
  "cidr_split self =
     (if m_prefix_len self = length (m_address self) * 8 then None
      else let new_prefix_len = m_prefix_len self + 1;
               significant_byte = (new_prefix_len - 1) div 8;
               addr_left = m_address self;
               addr_right = map (\<lambda>i.
                   if i = significant_byte
                   then (let shift = 8 - (new_prefix_len - significant_byte * 8)
                         in (m_address self ! i) OR push_bit shift 1)
                   else m_address self ! i) [0..<length (m_address self)]
           in Some (cidr_init addr_left new_prefix_len, cidr_init addr_right new_prefix_len))"

subsection \<open>Order and equality\<close>

definition cidr_equal :: "cidr_range \<Rightarrow> cidr_range \<Rightarrow> bool" where
  "cidr_equal self rng \<longleftrightarrow>
     length (m_address rng) = length (m_address self) \<and> m_prefix_len rng = m_prefix_len self \<and>
     list_all (\<lambda>i. m_address self ! i = m_address rng ! i) [0..<length (m_address self)]"

definition cidr_less :: "cidr_range \<Rightarrow> cidr_range \<Rightarrow> bool" where
  "cidr_less self rng =
     (if length (m_address self) \<noteq> length (m_address rng)
      then length (m_address self) < length (m_address rng)
      else if m_address self \<noteq> m_address rng
      then bytes_less (m_address self) (m_address rng)
      else m_prefix_len self < m_prefix_len rng)"

definition cidr_to_uint32 :: "cidr_range \<Rightarrow> u32" where
  "cidr_to_uint32 self =
     (if length (m_address self) = 4
      then push_bit 24 (ucast (m_address self ! 0)) + push_bit 16 (ucast (m_address self ! 1)) +
           push_bit 8 (ucast (m_address self ! 2)) + ucast (m_address self ! 3)
      else -1)"

subsection \<open>Exclusion\<close>

text \<open>\<^verbatim>\<open>std::list::sort\<close> with \<^verbatim>\<open>operator<\<close>: a stable sort.\<close>

fun cidr_insort :: "cidr_range \<Rightarrow> cidr_range list \<Rightarrow> cidr_range list" where
  "cidr_insort r [] = [r]"
| "cidr_insort r (x # xs) = (if cidr_less x r then x # cidr_insort r xs else r # x # xs)"

definition cidr_sort :: "cidr_range list \<Rightarrow> cidr_range list" where
  "cidr_sort rs = foldr cidr_insort rs []"

datatype verdict = Skip | Split | Keep

text \<open>The inner loop: the first excluded range that decides about the range.\<close>

fun exclude_verdict :: "cidr_range \<Rightarrow> cidr_range list \<Rightarrow> verdict" where
  "exclude_verdict rng [] = Keep"
| "exclude_verdict rng (e # es) =
     (if cidr_contains e rng then Skip
      else if cidr_contains rng e then Split
      else exclude_verdict rng es)"

text \<open>The weight of a range on the work stack; each turn of the loop lowers the total.\<close>

definition cidr_weight :: "cidr_range \<Rightarrow> nat" where
  "cidr_weight r =
     (if m_prefix_len r > length (m_address r) * 8 then 3
      else 2 ^ (length (m_address r) * 8 - m_prefix_len r + 1) - 1)"

lemma cidr_weight_pos: "0 < cidr_weight r"
proof -
  have "0 < 2 ^ (k + 1) - (1 :: nat)" for k using one_less_power [of "2 :: nat" "k + 1"] by simp
  then show ?thesis by (simp add: cidr_weight_def)
qed

lemma cidr_init_dims:
  "p \<le> length a * 8 \<Longrightarrow> length (m_address (cidr_init a p)) = length a \<and> m_prefix_len (cidr_init a p) = p"
  by (simp add: cidr_init_def Let_def)

lemma cidr_split_weight:
  assumes "cidr_split r = Some (l, h)"
  shows "cidr_weight l + cidr_weight h < cidr_weight r"
proof -
  let ?n = "length (m_address r) * 8" and ?p = "m_prefix_len r"
  from assms obtain b where l: "l = cidr_init (m_address r) (?p + 1)" and h: "h = cidr_init b (?p + 1)"
    and b: "length b = length (m_address r)" and ne: "?p \<noteq> ?n"
    by (auto simp: cidr_split_def Let_def split: if_splits)
  show ?thesis
  proof (cases "?p < ?n")
    case True
    then have "cidr_weight l = 2 ^ (?n - ?p) - 1" "cidr_weight h = 2 ^ (?n - ?p) - 1"
      using l h b cidr_init_dims [of "?p + 1" "m_address r"] cidr_init_dims [of "?p + 1" b]
      by (simp_all add: cidr_weight_def Suc_diff_Suc)
    moreover have "cidr_weight r = 2 * 2 ^ (?n - ?p) - 1" using True by (simp add: cidr_weight_def)
    moreover have "(1 :: nat) \<le> 2 ^ (?n - ?p)" by simp
    ultimately show ?thesis by linarith
  next
    case False
    with ne l h b have "cidr_weight l = 1" "cidr_weight h = 1" "cidr_weight r = 3"
      by (simp_all add: cidr_weight_def cidr_init_def cidr_blank_def)
    then show ?thesis by simp
  qed
qed

function exclude_loop :: "cidr_range list \<Rightarrow> cidr_range list \<Rightarrow> cidr_range list \<Rightarrow> cidr_range list" where
  "exclude_loop excluded [] done_ranges = done_ranges"
| "exclude_loop excluded (rng # stack) done_ranges =
     (case exclude_verdict rng excluded of
        Skip \<Rightarrow> exclude_loop excluded stack done_ranges
      | Split \<Rightarrow>
          (case cidr_split rng of
             None \<Rightarrow> exclude_loop excluded stack done_ranges
           | Some (first, second) \<Rightarrow> exclude_loop excluded (first # second # stack) done_ranges)
      | Keep \<Rightarrow> exclude_loop excluded stack (done_ranges @ [rng]))"
  by pat_completeness auto
termination
  by (relation "measure (\<lambda>(ex, stack, done_ranges). sum_list (map cidr_weight stack))")
    (use cidr_weight_pos cidr_split_weight in \<open>auto simp: add.assoc [symmetric]\<close>)

definition cidr_exclude :: "cidr_range list \<Rightarrow> cidr_range list \<Rightarrow> cidr_range list" where
  "cidr_exclude original_ranges excluded_ranges =
     exclude_loop excluded_ranges (cidr_sort original_ranges) []"

definition cidr_exclude_one_one :: "cidr_range \<Rightarrow> cidr_range \<Rightarrow> cidr_range list" where
  "cidr_exclude_one_one original_range excluded_range = cidr_exclude [original_range] [excluded_range]"

definition cidr_exclude_one_many :: "cidr_range \<Rightarrow> cidr_range list \<Rightarrow> cidr_range list" where
  "cidr_exclude_one_many original_range excluded_ranges = cidr_exclude [original_range] excluded_ranges"

definition cidr_exclude_many_one :: "cidr_range list \<Rightarrow> cidr_range \<Rightarrow> cidr_range list" where
  "cidr_exclude_many_one original_ranges excluded_range = cidr_exclude original_ranges [excluded_range]"

subsection \<open>Text\<close>

text \<open>
  The C library's address conversions are a parameter: \<^verbatim>\<open>inet_pton\<close> for both families,
  \<^verbatim>\<open>inet_ntop\<close> for both, and the text of \<^verbatim>\<open>errno\<close>.
\<close>

record inet_env =
  inet_pton4 :: "string \<Rightarrow> bytes option"
  inet_pton6 :: "string \<Rightarrow> bytes option"
  inet_ntop4 :: "bytes \<Rightarrow> string"
  inet_ntop6 :: "bytes \<Rightarrow> string"
  errno_text :: string

definition c_str :: "string \<Rightarrow> string" where
  "c_str s = takeWhile (\<lambda>c. c \<noteq> CHR 0x00) s"

definition cidr_make_error :: "string \<Rightarrow> nat \<Rightarrow> cidr_error \<Rightarrow> string \<Rightarrow> error_base" where
  "cidr_make_error func line e msg = ErrorImpl func line (cidr_error_to_string e) msg None"

definition get_ipv6_address_from_string :: "inet_env \<Rightarrow> string \<Rightarrow> error_base + bytes" where
  "get_ipv6_address_from_string env s =
     (let func = ''ag::CidrRange::get_ipv6_address_from_string''
      in if length s \<ge> 46 then Inl (cidr_make_error func 358 AE_IP_ADDR_TOO_LONG [])
         else case inet_pton6 env (c_str s) of
           None \<Rightarrow> Inl (cidr_make_error func 363 AE_PARSE_NET_STRING_ERROR (errno_text env))
         | Some a \<Rightarrow> Inr a)"

definition get_ipv4_address_from_string :: "inet_env \<Rightarrow> string \<Rightarrow> error_base + bytes" where
  "get_ipv4_address_from_string env s =
     (let func = ''ag::CidrRange::get_ipv4_address_from_string''
      in if length s \<ge> 16 then Inl (cidr_make_error func 376 AE_IP_ADDR_TOO_LONG [])
         else case inet_pton4 env (c_str s) of
           None \<Rightarrow> Inl (cidr_make_error func 381 AE_PARSE_NET_STRING_ERROR (errno_text env))
         | Some a \<Rightarrow> Inr a)"

text \<open>An IPv4 tail of an IPv6 text is rewritten as two hexadecimal groups.\<close>

definition get_address_from_string :: "inet_env \<Rightarrow> string \<Rightarrow> error_base + bytes" where
  "get_address_from_string env s =
     (if sv_find_first_of s ''.'' 0 \<noteq> None then
        (case sv_find_last_of s '':'' of
           None \<Rightarrow> get_ipv4_address_from_string env s
         | Some last_index \<Rightarrow>
             (case get_ipv4_address_from_string env (drop (last_index + 1) s) of
                Inl e \<Rightarrow> Inl e
              | Inr a \<Rightarrow>
                  get_ipv6_address_from_string env
                    (sv_substr s 0 (last_index + 1) @
                     hex (unat (a ! 0) * 2 ^ 8 + unat (a ! 1)) @ '':'' @
                     hex (unat (a ! 2) * 2 ^ 8 + unat (a ! 3)))))
      else get_ipv6_address_from_string env s)"

definition cidr_of_addr_string :: "inet_env \<Rightarrow> string \<Rightarrow> nat \<Rightarrow> cidr_range" where
  "cidr_of_addr_string env address_string prefix_len =
     (case get_address_from_string env address_string of
        Inl e \<Rightarrow> cidr_blank\<lparr>m_error := err_str e\<rparr>
      | Inr a \<Rightarrow> cidr_init a prefix_len)"

text \<open>
  The constructor from CIDR notation takes \<^verbatim>\<open>.value()\<close> of the parsed prefix length: a text that is no
  number throws, which is \<^const>\<open>None\<close> here.
\<close>

definition cidr_of_string :: "inet_env \<Rightarrow> string \<Rightarrow> cidr_range option" where
  "cidr_of_string env cidr_string =
     (if cidr_string = [] then Some (cidr_blank\<lparr>m_error := ''Empty CIDR range string''\<rparr>)
      else let (address_string, prefix_string) = split2_by (trim cidr_string) CHR ''/'' True
           in case get_address_from_string env address_string of
                Inl e \<Rightarrow> Some (cidr_blank\<lparr>m_error := err_str e\<rparr>)
              | Inr a \<Rightarrow>
                  (if prefix_string \<noteq> []
                   then map_option (cidr_init a) (to_integer max_u64 prefix_string 10)
                   else Some (cidr_init a (length a * 8))))"

definition cidr_contains_string :: "inet_env \<Rightarrow> cidr_range \<Rightarrow> string \<Rightarrow> bool" where
  "cidr_contains_string env self addr =
     (case get_address_from_string env addr of
        Inl _ \<Rightarrow> False
      | Inr a \<Rightarrow> cidr_contains_addr self a)"

definition cidr_address_as_string :: "inet_env \<Rightarrow> cidr_range \<Rightarrow> string" where
  "cidr_address_as_string env self =
     (if m_error self \<noteq> [] then m_error self
      else if length (m_address self) = 4 then inet_ntop4 env (m_address self)
      else inet_ntop6 env (m_address self))"

definition cidr_to_string :: "inet_env \<Rightarrow> cidr_range \<Rightarrow> string" where
  "cidr_to_string env self = cidr_address_as_string env self @ ''/'' @ dec (m_prefix_len self)"

lemmas [cidr_defs] = cidr_init_def cidr_contains_def cidr_contains_addr_def cidr_split_def Let_def

section \<open>Well-formed ranges and the addresses they denote\<close>

text \<open>The mask of a well-formed range is the mask of its prefix length, and no address bit lies outside it.\<close>

definition cidr_wf :: "cidr_range \<Rightarrow> bool" where
  "cidr_wf r \<longleftrightarrow>
     m_prefix_len r \<le> length (m_address r) * 8 \<and>
     m_mask r = init_mask (length (m_address r)) (m_prefix_len r) \<and>
     list_all (\<lambda>k. \<not> abit (m_address r) k) [m_prefix_len r..<length (m_address r) * 8] \<and>
     m_error r = []"

definition cidr_addrs :: "cidr_range \<Rightarrow> bytes set" where
  "cidr_addrs r =
     {a. length a = length (m_address r) \<and> (\<forall>k < m_prefix_len r. abit a k = abit (m_address r) k)}"

subsection \<open>The mask\<close>

lemma fold_update_const:
  "k \<le> length xs \<Longrightarrow> fold (\<lambda>i m. m[i := c]) [0..<k] xs = replicate k c @ drop k xs"
proof (induction k)
  case (Suc k)
  then have "fold (\<lambda>i m. m[i := c]) [0..<Suc k] xs = (replicate k c @ drop k xs)[k := c]" by simp
  also have "drop k xs = xs ! k # drop (Suc k) xs" using Suc.prems by (simp add: Cons_nth_drop_Suc)
  finally show ?case by (simp add: list_update_append replicate_append_same)
qed simp

lemma init_mask_length [simp]: "length (init_mask n p) = n"
proof -
  have "length (fold (\<lambda>i m. m[i := c]) is xs) = length xs" for c :: u8 and "is" xs
    by (induction "is" arbitrary: xs) auto
  then show ?thesis by (simp add: init_mask_def Let_def)
qed

lemma init_mask_nth:
  assumes "p \<le> n * 8" and "i < n"
  shows "init_mask n p ! i =
    (if i * 8 + 8 \<le> p then 0xff else if p \<le> i * 8 then 0 else push_bit (8 - (p - i * 8)) 0xff)"
proof (cases "p = 0")
  case True
  then show ?thesis using assms by (simp add: init_mask_def)
next
  case False
  let ?s = "(p - 1) div 8"
  have s: "?s < n" "?s * 8 < p" "p \<le> ?s * 8 + 8" using assms False by auto
  let ?m = "fold (\<lambda>i m. m[i := 0xff]) [0..<?s] (replicate n (0 :: u8))"
  have "?m = replicate ?s 0xff @ replicate (n - ?s) 0"
    using fold_update_const [of ?s "replicate n (0 :: u8)" "0xff"] s(1) by simp
  then have nth: "init_mask n p ! i = (if i < ?s then 0xff else if i = ?s then push_bit (8 - (p - ?s * 8)) 0xff else 0)"
    using False s(1) assms(2) diff_less_mono [OF assms(2), of ?s]
    by (auto simp: init_mask_def Let_def nth_append nth_list_update)
  consider "i < ?s" | "i = ?s" | "?s < i" by linarith
  then show ?thesis
  proof cases
    case 1
    then have "i * 8 + 8 \<le> p" using s by linarith
    with 1 nth show ?thesis by simp
  next
    case 2
    then have "\<not> p \<le> i * 8" and "i * 8 + 8 \<le> p \<Longrightarrow> p - i * 8 = 8" using s by linarith+
    with 2 nth show ?thesis by (cases "i * 8 + 8 \<le> p") simp_all
  next
    case 3
    then have "p \<le> i * 8" using s by linarith
    with 3 nth show ?thesis by simp
  qed
qed

lemma bit_255 [simp]: "bit (255 :: int) j \<longleftrightarrow> j < 8"
proof -
  have "(255 :: int) = mask 8" by (simp add: mask_eq_exp_minus_1)
  then show ?thesis by (simp only: bit_mask_iff) simp
qed

lemma abit_mask:
  assumes "p \<le> n * 8" and "k < n * 8"
  shows "abit (init_mask n p) k \<longleftrightarrow> k < p"
proof -
  let ?i = "k div 8" and ?j = "k mod 8"
  have k: "k = ?i * 8 + ?j" "?j < 8" by simp_all
  then have i: "?i < n" using assms(2) by linarith
  consider "?i * 8 + 8 \<le> p" | "p \<le> ?i * 8" | "?i * 8 < p" "p < ?i * 8 + 8" by linarith
  then show ?thesis
  proof cases
    case 1
    then have "k < p" using k by linarith
    moreover have "abit (init_mask n p) k" using 1 i assms by (simp add: abit_def init_mask_nth)
    ultimately show ?thesis by simp
  next
    case 2
    then have "\<not> k < p" using k by linarith
    moreover have "\<not> abit (init_mask n p) k" using 2 i assms by (simp add: abit_def init_mask_nth)
    ultimately show ?thesis by simp
  next
    case 3
    then obtain q where q: "p = ?i * 8 + q" "0 < q" "q < 8" using less_imp_add_positive by (metis add_less_cancel_left)
    then have "abit (init_mask n p) k = bit (push_bit (8 - q) 0xff :: u8) (7 - ?j)"
      using i assms by (simp add: abit_def init_mask_nth)
    also have "\<dots> \<longleftrightarrow> 8 - q \<le> 7 - ?j" by (auto simp: bit_simps)
    also have "\<dots> \<longleftrightarrow> k < p" using q k by linarith
    finally show ?thesis .
  qed
qed

lemma abit_and:
  "length a = n \<Longrightarrow> length b = n \<Longrightarrow> k < n * 8 \<Longrightarrow>
   abit (map (\<lambda>i. (a ! i) AND (b ! i)) [0..<n]) k \<longleftrightarrow> abit a k \<and> abit b k"
proof -
  assume "k < n * 8"
  then have "k div 8 < n" by auto
  then show ?thesis by (simp add: abit_def bit_simps)
qed

text \<open>The loops compare masked bytes; that is agreement on the bits the mask selects.\<close>

lemma masked_bytes_agree:
  assumes "length a = n" and "length b = n" and "length m = n"
  shows "list_all (\<lambda>i. (a ! i) AND (m ! i) = (b ! i) AND (m ! i)) [0..<n] \<longleftrightarrow>
    (\<forall>k < n * 8. abit m k \<longrightarrow> abit a k = abit b k)"
proof -
  let ?f = "\<lambda>x. map (\<lambda>i. (x ! i) AND (m ! i)) [0..<n]"
  have "list_all (\<lambda>i. (a ! i) AND (m ! i) = (b ! i) AND (m ! i)) [0..<n] \<longleftrightarrow> ?f a = ?f b"
    by (auto simp: list_all_iff)
  also have "\<dots> \<longleftrightarrow> (\<forall>k < 8 * n. abit (?f a) k = abit (?f b) k)"
    by (rule bytes_eq_iff) simp_all
  also have "\<dots> \<longleftrightarrow> (\<forall>k < n * 8. abit m k \<longrightarrow> abit a k = abit b k)"
    using assms by (auto simp: abit_and mult.commute)
  finally show ?thesis .
qed

lemma mask_subset:
  assumes "p \<le> n * 8" and "q \<le> n * 8"
  shows "list_all (\<lambda>i. init_mask n p ! i = (init_mask n q ! i) AND (init_mask n p ! i)) [0..<n] \<longleftrightarrow> p \<le> q"
proof -
  let ?P = "init_mask n p" and ?Q = "init_mask n q"
  have "list_all (\<lambda>i. ?P ! i = (?Q ! i) AND (?P ! i)) [0..<n] \<longleftrightarrow>
      ?P = map (\<lambda>i. (?Q ! i) AND (?P ! i)) [0..<n]"
    by (auto simp: list_all_iff list_eq_iff_nth_eq)
  also have "\<dots> \<longleftrightarrow> (\<forall>k < 8 * n. abit ?P k = (abit ?Q k \<and> abit ?P k))"
    by (subst bytes_eq_iff [of _ n]) (auto simp: abit_and)
  also have "\<dots> \<longleftrightarrow> (\<forall>k < n * 8. k < p \<longrightarrow> k < q)"
    using assms by (auto simp: abit_mask mult.commute)
  also have "\<dots> \<longleftrightarrow> p \<le> q"
    using assms(1) by (metis less_le_trans linorder_not_less nat_less_le)
  finally show ?thesis .
qed

subsection \<open>The invariant of construction\<close>

lemma cidr_wfD:
  assumes "cidr_wf r"
  shows "m_prefix_len r \<le> length (m_address r) * 8"
    and "m_mask r = init_mask (length (m_address r)) (m_prefix_len r)"
    and "\<And>k. m_prefix_len r \<le> k \<Longrightarrow> k < length (m_address r) * 8 \<Longrightarrow> \<not> abit (m_address r) k"
  using assms by (auto simp: cidr_wf_def list_all_iff)

lemma abit_init:
  assumes "p \<le> length a * 8" and "k < length a * 8"
  shows "abit (m_address (cidr_init a p)) k \<longleftrightarrow> k < p \<and> abit a k"
  using assms abit_and [of a "length a" "init_mask (length a) p" k]
  by (auto simp: cidr_init_def Let_def abit_mask)

lemma cidr_init_wf: "p \<le> length a * 8 \<Longrightarrow> cidr_wf (cidr_init a p)"
  using cidr_init_dims [of p a] abit_init [of p a]
  by (auto simp: cidr_wf_def list_all_iff cidr_init_def Let_def)

lemma cidr_addrs_init:
  assumes "p \<le> length a * 8"
  shows "cidr_addrs (cidr_init a p) = {x. length x = length a \<and> (\<forall>k < p. abit x k = abit a k)}"
  using cidr_init_dims [OF assms] abit_init [OF assms] assms by (auto simp: cidr_addrs_def)

text \<open>Also: constructing a range from address bytes either reports an invalid prefix length, exactly when the
  length exceeds the address size in bits, or gives a well-formed range that denotes the addresses
  agreeing with the given one on the first \<open>prefix_len\<close> bits.\<close>

theorem cidr_init_correct:
  "if prefix_len \<le> length addr * 8
   then cidr_wf (cidr_init addr prefix_len) \<and>
     cidr_addrs (cidr_init addr prefix_len) =
       {a. length a = length addr \<and> list_all (\<lambda>k. abit a k = abit addr k) [0..<prefix_len]}
   else cidr_init addr prefix_len = cidr_blank\<lparr>m_error := ''Invalid prefix length''\<rparr>"
  using cidr_init_wf [of prefix_len addr] cidr_addrs_init [of prefix_len addr]
  by (auto simp: cidr_init_def list_all_iff)

subsection \<open>Containment\<close>

lemma cidr_contains_addr_iff:
  assumes "cidr_wf r"
  shows "cidr_contains_addr r a \<longleftrightarrow> a \<in> cidr_addrs r"
proof (cases "length a = length (m_address r)")
  case True
  let ?n = "length (m_address r)"
  note wf = cidr_wfD [OF assms]
  have "cidr_contains_addr r a \<longleftrightarrow> (\<forall>k < ?n * 8. abit (m_mask r) k \<longrightarrow> abit (m_address r) k = abit a k)"
    using True wf(2) masked_bytes_agree [of "m_address r" ?n a "m_mask r"]
    by (simp add: cidr_contains_addr_def)
  also have "\<dots> \<longleftrightarrow> a \<in> cidr_addrs r"
    using True wf(1,2) by (auto simp: cidr_addrs_def abit_mask)
  finally show ?thesis .
qed (auto simp: cidr_contains_addr_def cidr_addrs_def)

lemma cidr_contains_bits:
  assumes "cidr_wf r" and "cidr_wf s"
  shows "cidr_contains r s \<longleftrightarrow>
    length (m_address s) = length (m_address r) \<and> m_prefix_len r \<le> m_prefix_len s \<and>
    (\<forall>k < m_prefix_len r. abit (m_address r) k = abit (m_address s) k)"
proof (cases "length (m_address s) = length (m_address r)")
  case True
  let ?n = "length (m_address r)"
  note r = cidr_wfD [OF assms(1)] and s = cidr_wfD [OF assms(2)]
  have "cidr_contains r s \<longleftrightarrow>
      list_all (\<lambda>i. m_mask r ! i = (m_mask s ! i) AND (m_mask r ! i)) [0..<?n] \<and>
      list_all (\<lambda>i. (m_address r ! i) AND (m_mask r ! i) = (m_address s ! i) AND (m_mask r ! i)) [0..<?n]"
    using True by (auto simp: cidr_contains_def list_all_iff)
  also have "\<dots> \<longleftrightarrow> m_prefix_len r \<le> m_prefix_len s \<and>
      (\<forall>k < ?n * 8. abit (m_mask r) k \<longrightarrow> abit (m_address r) k = abit (m_address s) k)"
    using True r s mask_subset [of "m_prefix_len r" ?n "m_prefix_len s"]
      masked_bytes_agree [of "m_address r" ?n "m_address s" "m_mask r"] by simp
  also have "\<dots> \<longleftrightarrow> m_prefix_len r \<le> m_prefix_len s \<and>
      (\<forall>k < m_prefix_len r. abit (m_address r) k = abit (m_address s) k)"
    using r(1,2) by (auto simp: abit_mask)
  finally show ?thesis using True by simp
qed (auto simp: cidr_contains_def)

lemma m_address_in_addrs: "m_address r \<in> cidr_addrs r"
  by (simp add: cidr_addrs_def)

lemma cidr_contains_iff_subset:
  assumes "cidr_wf r" and "cidr_wf s"
  shows "cidr_contains r s \<longleftrightarrow> cidr_addrs s \<subseteq> cidr_addrs r"
proof
  assume "cidr_contains r s"
  then show "cidr_addrs s \<subseteq> cidr_addrs r"
    using cidr_contains_bits [OF assms] by (auto simp: cidr_addrs_def)
next
  assume sub: "cidr_addrs s \<subseteq> cidr_addrs r"
  from sub m_address_in_addrs [of s] have len: "length (m_address s) = length (m_address r)"
    and agree: "\<forall>k < m_prefix_len r. abit (m_address r) k = abit (m_address s) k"
    by (auto simp: cidr_addrs_def)
  have "m_prefix_len r \<le> m_prefix_len s"
  proof (rule ccontr)
    assume "\<not> m_prefix_len r \<le> m_prefix_len s"
    then have lt: "m_prefix_len s < m_prefix_len r" by simp
    then have k: "m_prefix_len s < 8 * length (m_address s)" using cidr_wfD(1) [OF assms(1)] len by simp
    let ?x = "flip_abit (m_address s) (m_prefix_len s)"
    have "?x \<in> cidr_addrs s" using k by (auto simp: cidr_addrs_def abit_flip)
    with sub have "?x \<in> cidr_addrs r" by (rule subsetD)
    with lt have "abit ?x (m_prefix_len s) = abit (m_address r) (m_prefix_len s)"
      by (simp add: cidr_addrs_def)
    with agree lt k show False by (simp add: abit_flip)
  qed
  with len agree show "cidr_contains r s" using cidr_contains_bits [OF assms] by simp
qed

text \<open>Also: on valid ranges, \<^verbatim>\<open>contains\<close> decides inclusion of the denoted address sets, and \<^verbatim>\<open>contains\<close> of an address
  decides membership.\<close>

theorem cidr_contains_correct:
  assumes "cidr_wf r" and "cidr_wf s"
  shows "(cidr_contains r s \<longleftrightarrow> cidr_addrs s \<subseteq> cidr_addrs r) \<and>
    (cidr_contains_addr r a \<longleftrightarrow> a \<in> cidr_addrs r)"
  using cidr_contains_iff_subset [OF assms] cidr_contains_addr_iff [OF assms(1)] by simp

theorem cidr_contains_correct_witness:
  "cidr_wf (cidr_init [10, 0, 0, 0] 8) \<and> cidr_wf (cidr_init [10, 1, 0, 0] 16) \<and>
   cidr_addrs (cidr_init [10, 1, 0, 0] 16) \<subseteq> cidr_addrs (cidr_init [10, 0, 0, 0] 8)"
proof -
  have w: "cidr_wf (cidr_init [10, 0, 0, 0] 8)" "cidr_wf (cidr_init [10, 1, 0, 0] 16)"
    by (simp_all add: cidr_init_wf)
  have "cidr_contains (cidr_init [10, 0, 0, 0] 8) (cidr_init [10, 1, 0, 0] 16)" by code_simp
  then show ?thesis using w cidr_contains_correct [OF w, of "[]"] by blast
qed

end
