(* ===== verification/CidrExclude.thy ===== *)
theory CidrExclude
  imports Cidr
begin

text \<open>
  What the algorithms on ranges rely on, as interfaces: address ranges form a laminar family (two
  ranges are nested or disjoint), they can be halved, and they are ordered so that the ranges inside
  a range follow it without a gap.  The interfaces are interpreted on \<^const>\<open>cidr_contains\<close>,
  \<^const>\<open>cidr_split\<close> and \<^const>\<open>cidr_less\<close>; the correctness of the exclusion algorithm follows.
\<close>

section \<open>Interfaces\<close>

locale laminar_family =
  fixes wf :: "'r \<Rightarrow> bool" and sem :: "'r \<Rightarrow> 'a set" and cont :: "'r \<Rightarrow> 'r \<Rightarrow> bool"
  assumes cont_sem: "wf r \<Longrightarrow> wf s \<Longrightarrow> cont r s \<longleftrightarrow> sem s \<subseteq> sem r"
    and laminar: "wf r \<Longrightarrow> wf s \<Longrightarrow> sem r \<inter> sem s \<noteq> {} \<Longrightarrow> cont r s \<or> cont s r"
    and sem_nonempty: "wf r \<Longrightarrow> sem r \<noteq> {}"
begin

lemma cont_refl: "wf r \<Longrightarrow> cont r r"
  by (simp add: cont_sem)

lemma cont_trans: "wf r \<Longrightarrow> wf s \<Longrightarrow> wf t \<Longrightarrow> cont r s \<Longrightarrow> cont s t \<Longrightarrow> cont r t"
  by (meson cont_sem order_trans)

lemma undecided_disjoint:
  assumes "wf r" and "\<forall>e \<in> set es. wf e" and "\<forall>e \<in> set es. \<not> cont e r \<and> \<not> cont r e"
  shows "sem r \<inter> (\<Union>e \<in> set es. sem e) = {}"
  using assms laminar by fastforce

lemma covered_elsewhere:
  assumes "wf r" and "wf e" and "cont e r" and "e \<in> set es"
  shows "sem r - (\<Union>e \<in> set es. sem e) = {}"
  using assms cont_sem by blast

end

locale halving_family = laminar_family wf sem cont
  for wf :: "'r \<Rightarrow> bool" and sem :: "'r \<Rightarrow> 'a set" and cont :: "'r \<Rightarrow> 'r \<Rightarrow> bool" +
  fixes halve :: "'r \<Rightarrow> ('r \<times> 'r) option"
  assumes halve_wf: "wf r \<Longrightarrow> halve r = Some (l, h) \<Longrightarrow> wf l \<and> wf h"
    and halve_sem: "wf r \<Longrightarrow> halve r = Some (l, h) \<Longrightarrow> sem r = sem l \<union> sem h"
    and halve_disjoint: "wf r \<Longrightarrow> halve r = Some (l, h) \<Longrightarrow> sem l \<inter> sem h = {}"
    and halve_None: "wf r \<Longrightarrow> wf s \<Longrightarrow> halve r = None \<Longrightarrow> cont r s \<Longrightarrow> cont s r"
locale ordered_family = laminar_family wf sem cont
  for wf :: "'r \<Rightarrow> bool" and sem :: "'r \<Rightarrow> 'a set" and cont :: "'r \<Rightarrow> 'r \<Rightarrow> bool" +
  fixes less :: "'r \<Rightarrow> 'r \<Rightarrow> bool"
  assumes less_irrefl: "\<not> less r r"
    and less_trans: "wf r \<Longrightarrow> wf s \<Longrightarrow> wf t \<Longrightarrow> less r s \<Longrightarrow> less s t \<Longrightarrow> less r t"
    and less_total: "wf r \<Longrightarrow> wf s \<Longrightarrow> r \<noteq> s \<Longrightarrow> less r s \<or> less s r"
    and cont_not_less: "wf r \<Longrightarrow> wf s \<Longrightarrow> cont r s \<Longrightarrow> \<not> less s r"
    and convex: "wf r \<Longrightarrow> wf s \<Longrightarrow> wf t \<Longrightarrow> less r s \<Longrightarrow> less s t \<Longrightarrow> cont r t \<Longrightarrow> cont r s"
begin

lemma cont_antisym: "wf r \<Longrightarrow> wf s \<Longrightarrow> cont r s \<Longrightarrow> cont s r \<Longrightarrow> r = s"
  using cont_not_less less_total by blast

text \<open>The comparator that treats a range as equivalent to the ranges inside it.\<close>

lemma modified_less_down:
  assumes "wf a" "wf b" "wf r" and "less a b" "\<not> cont a b" and "less b r" "\<not> cont b r"
  shows "less a r \<and> \<not> cont a r"
  using assms less_trans convex by blast

lemma modified_less_up:
  assumes "wf a" "wf b" "wf r" and "less a b" "\<not> cont a b" and "less r a" "\<not> cont r a"
  shows "less r b \<and> \<not> cont r b"
  using assms less_trans convex by blast

lemma equivalent_iff_nested:
  assumes "wf a" "wf r"
  shows "\<not> (less a r \<and> \<not> cont a r) \<and> \<not> (less r a \<and> \<not> cont r a) \<longleftrightarrow> cont a r \<or> cont r a"
proof
  assume "\<not> (less a r \<and> \<not> cont a r) \<and> \<not> (less r a \<and> \<not> cont r a)"
  then show "cont a r \<or> cont r a" using less_total [OF assms] cont_refl [OF assms(1)] by blast
next
  assume "cont a r \<or> cont r a"
  then show "\<not> (less a r \<and> \<not> cont a r) \<and> \<not> (less r a \<and> \<not> cont r a)"
    using cont_not_less [OF assms] cont_not_less [OF assms(2,1)] by blast
qed

end

section \<open>CIDR ranges are such a family\<close>

lemma cidr_laminar:
  assumes "cidr_wf r" "cidr_wf s" and "cidr_addrs r \<inter> cidr_addrs s \<noteq> {}"
  shows "cidr_contains r s \<or> cidr_contains s r"
proof -
  from assms(3) obtain x where x: "x \<in> cidr_addrs r" "x \<in> cidr_addrs s" by blast
  then have "length (m_address r) = length (m_address s)" by (auto simp: cidr_addrs_def)
  moreover have "m_prefix_len r \<le> m_prefix_len s \<or> m_prefix_len s \<le> m_prefix_len r" by linarith
  ultimately show ?thesis
    using x cidr_contains_bits [OF assms(1,2)] cidr_contains_bits [OF assms(2,1)]
    by (auto simp: cidr_addrs_def)
qed

interpretation cidr_fam: laminar_family cidr_wf cidr_addrs cidr_contains
proof unfold_locales
  show "cidr_contains r s \<longleftrightarrow> cidr_addrs s \<subseteq> cidr_addrs r" if "cidr_wf r" "cidr_wf s" for r s
    using that by (rule cidr_contains_iff_subset)
  show "cidr_contains r s \<or> cidr_contains s r"
    if "cidr_wf r" "cidr_wf s" "cidr_addrs r \<inter> cidr_addrs s \<noteq> {}" for r s
    using that by (rule cidr_laminar)
  show "cidr_addrs r \<noteq> {}" for r using m_address_in_addrs [of r] by blast
qed

subsection \<open>Halving\<close>

lemma cidr_split_Some:
  assumes "cidr_wf r" and "cidr_split r = Some (l, h)"
  shows "m_prefix_len r < length (m_address r) * 8"
    and "l = cidr_init (m_address r) (m_prefix_len r + 1)"
    and "h = cidr_init (flip_abit (m_address r) (m_prefix_len r)) (m_prefix_len r + 1)"
proof -
  let ?p = "m_prefix_len r" and ?a = "m_address r"
  show lt: "?p < length ?a * 8"
    using assms cidr_wfD(1) [OF assms(1)] by (auto simp: cidr_split_def split: if_splits)
  show "l = cidr_init ?a (?p + 1)" using assms by (auto simp: cidr_split_def Let_def split: if_splits)
  have d: "?p div 8 < length ?a" using lt by auto
  have shift: "8 - (?p + 1 - ?p div 8 * 8) = 7 - ?p mod 8"
    using div_mult_mod_eq [of ?p 8] by linarith
  have "\<not> bit (?a ! (?p div 8)) (7 - ?p mod 8)"
    using cidr_wfD(3) [OF assms(1), of ?p] lt by (simp add: abit_def)
  then have set_bit: "?a ! (?p div 8) XOR push_bit (7 - ?p mod 8) 1 = ?a ! (?p div 8) OR push_bit (7 - ?p mod 8) 1"
    by (intro bit_word_eqI) (auto simp: bit_simps)
  have "flip_abit ?a ?p = map (\<lambda>i. if i = ?p div 8 then ?a ! i OR push_bit (7 - ?p mod 8) 1 else ?a ! i) [0..<length ?a]"
    unfolding flip_abit_def set_bit by (rule nth_equalityI) (simp_all add: nth_list_update)
  then show "h = cidr_init (flip_abit ?a ?p) (?p + 1)"
    using assms(2) shift lt by (simp add: cidr_split_def Let_def cong: if_cong)
qed

lemma cidr_split_sem:
  assumes "cidr_wf r" and "cidr_split r = Some (l, h)"
  shows "cidr_wf l \<and> cidr_wf h \<and> cidr_addrs r = cidr_addrs l \<union> cidr_addrs h \<and>
    cidr_addrs l \<inter> cidr_addrs h = {}"
proof -
  let ?p = "m_prefix_len r" and ?a = "m_address r"
  note sp = cidr_split_Some [OF assms]
  have p: "?p + 1 \<le> length ?a * 8" "?p + 1 \<le> length (flip_abit ?a ?p) * 8" using sp(1) by simp_all
  have flip: "abit (flip_abit ?a ?p) k = (if k = ?p then \<not> abit ?a ?p else abit ?a k)" if "k \<le> ?p" for k
    using that sp(1) by (simp add: abit_flip)
  have l: "cidr_addrs l = {x. length x = length ?a \<and> (\<forall>k < ?p + 1. abit x k = abit ?a k)}"
    unfolding sp(2) by (rule cidr_addrs_init [OF p(1)])
  have h: "cidr_addrs h = {x. length x = length ?a \<and> (\<forall>k < ?p + 1. abit x k = abit (flip_abit ?a ?p) k)}"
    unfolding sp(3) using cidr_addrs_init [OF p(2)] by simp
  have r: "cidr_addrs r = {x. length x = length ?a \<and> (\<forall>k < ?p. abit x k = abit ?a k)}"
    by (simp add: cidr_addrs_def)
  have h': "cidr_addrs h =
      {x. length x = length ?a \<and> (\<forall>k < ?p. abit x k = abit ?a k) \<and> abit x ?p = (\<not> abit ?a ?p)}"
    unfolding h using flip by (auto simp: less_Suc_eq)
  have l': "cidr_addrs l =
      {x. length x = length ?a \<and> (\<forall>k < ?p. abit x k = abit ?a k) \<and> abit x ?p = abit ?a ?p}"
    unfolding l by (auto simp: less_Suc_eq)
  have "cidr_addrs r = cidr_addrs l \<union> cidr_addrs h" and "cidr_addrs l \<inter> cidr_addrs h = {}"
    unfolding r l' h' by auto
  then show ?thesis using sp p by (simp add: cidr_init_wf)
qed

lemma cidr_split_None:
  assumes "cidr_wf r" "cidr_wf s" "cidr_split r = None" "cidr_contains r s"
  shows "cidr_contains s r"
proof -
  from assms(3) have "m_prefix_len r = length (m_address r) * 8"
    by (auto simp: cidr_split_def Let_def split: if_splits)
  moreover note cidr_wfD(1) [OF assms(2)]
  ultimately show ?thesis
    using assms(4) cidr_contains_bits [OF assms(1,2)] cidr_contains_bits [OF assms(2,1)] by auto
qed

interpretation cidr_half: halving_family cidr_wf cidr_addrs cidr_contains cidr_split
  by unfold_locales (use cidr_split_sem cidr_split_None in blast)+

text \<open>Also: splitting a valid range gives nothing exactly when the range is a single address; otherwise the two
  halves are valid, disjoint, together denote the range, and are one prefix bit longer.\<close>

theorem cidr_split_correct:
  assumes "cidr_wf r"
  shows "case cidr_split r of
      None \<Rightarrow> cidr_addrs r = {m_address r}
    | Some (l, h) \<Rightarrow> cidr_wf l \<and> cidr_wf h \<and> cidr_addrs l \<inter> cidr_addrs h = {} \<and>
        cidr_addrs l \<union> cidr_addrs h = cidr_addrs r \<and>
        m_prefix_len l = m_prefix_len r + 1 \<and> m_prefix_len h = m_prefix_len r + 1"
proof (cases "cidr_split r")
  case None
  then have "m_prefix_len r = length (m_address r) * 8"
    by (auto simp: cidr_split_def Let_def split: if_splits)
  then have "cidr_addrs r = {m_address r}"
    using bytes_eq_iff [of _ "length (m_address r)" "m_address r"]
    by (auto simp: cidr_addrs_def mult.commute)
  with None show ?thesis by simp
next
  case (Some lh)
  then obtain l h where lh: "cidr_split r = Some (l, h)" by (cases lh) auto
  note sp = cidr_split_Some [OF assms lh]
  have "m_prefix_len l = m_prefix_len r + 1" "m_prefix_len h = m_prefix_len r + 1"
    using sp cidr_init_dims [of "m_prefix_len r + 1"] by simp_all
  with lh cidr_split_sem [OF assms lh] show ?thesis by auto
qed

theorem cidr_split_correct_witness:
  "cidr_wf (cidr_init [10, 0] 8) \<and>
   cidr_addrs (cidr_init [10, 0] 9) \<union> cidr_addrs (cidr_init [10, 128] 9) = cidr_addrs (cidr_init [10, 0] 8)"
proof -
  have w: "cidr_wf (cidr_init [10, 0] 8)" by (simp add: cidr_init_wf)
  have "cidr_split (cidr_init [10, 0] 8) = Some (cidr_init [10, 0] 9, cidr_init [10, 128] 9)" by code_simp
  then show ?thesis using w cidr_split_correct [OF w] by simp
qed

section \<open>Exclusion\<close>

abbreviation denoted :: "cidr_range list \<Rightarrow> bytes set" where
  "denoted rs \<equiv> (\<Union>r \<in> set rs. cidr_addrs r)"

lemma exclude_verdict_cases:
  assumes "cidr_wf r" and "\<forall>e \<in> set es. cidr_wf e"
  shows "case exclude_verdict r es of
      Skip \<Rightarrow> cidr_addrs r - denoted es = {}
    | Split \<Rightarrow> (\<exists>e \<in> set es. cidr_contains r e \<and> \<not> cidr_contains e r)
    | Keep \<Rightarrow> cidr_addrs r \<inter> denoted es = {}"
proof -
  have "(exclude_verdict r es = Skip \<longrightarrow> (\<exists>e \<in> set es. cidr_contains e r)) \<and>
      (exclude_verdict r es = Split \<longrightarrow> (\<exists>e \<in> set es. cidr_contains r e \<and> \<not> cidr_contains e r)) \<and>
      (exclude_verdict r es = Keep \<longrightarrow> (\<forall>e \<in> set es. \<not> cidr_contains e r \<and> \<not> cidr_contains r e))"
    by (induction es) auto
  moreover have "cidr_addrs r - denoted es = {}" if "\<exists>e \<in> set es. cidr_contains e r"
  proof -
    from that obtain e where "e \<in> set es" "cidr_contains e r" by blast
    with assms show ?thesis using cidr_fam.covered_elsewhere [of r e es] by simp
  qed
  ultimately show ?thesis
    using cidr_fam.undecided_disjoint [OF assms] by (auto split: verdict.splits)
qed

lemma exclude_loop_correct:
  assumes "\<forall>e \<in> set es. cidr_wf e" and "\<forall>r \<in> set stack. cidr_wf r"
    and "\<forall>r \<in> set done_ranges. cidr_wf r"
  shows "(\<forall>r \<in> set (exclude_loop es stack done_ranges). cidr_wf r) \<and>
    denoted (exclude_loop es stack done_ranges) = denoted done_ranges \<union> (denoted stack - denoted es)"
  using assms
proof (induction es stack done_ranges rule: exclude_loop.induct)
  case (2 es r stack dn)
  have wf: "cidr_wf r" using 2 by simp
  note v = exclude_verdict_cases [OF wf "2.prems"(1)]
  show ?case
  proof (cases "exclude_verdict r es")
    case Skip
    have sub: "cidr_addrs r - denoted es = {}" using v Skip by simp
    have "denoted (r # stack) - denoted es = denoted stack - denoted es" using sub by auto
    then show ?thesis using "2.IH"(1) [OF Skip] "2.prems" Skip by simp
  next
    case Keep
    have disj: "cidr_addrs r \<inter> denoted es = {}" using v Keep by simp
    have eq: "denoted dn \<union> (denoted (r # stack) - denoted es) =
        denoted (dn @ [r]) \<union> (denoted stack - denoted es)" using disj by auto
    have st: "\<forall>r \<in> set stack. cidr_wf r" and dn: "\<forall>r \<in> set (dn @ [r]). cidr_wf r"
      using "2.prems" by auto
    note ih = "2.IH"(4) [OF Keep "2.prems"(1) st dn]
    have "exclude_loop es (r # stack) dn = exclude_loop es stack (dn @ [r])" using Keep by simp
    with ih eq show ?thesis by (simp only:) simp
  next
    case Split
    with v obtain e where e: "e \<in> set es" "cidr_contains r e" "\<not> cidr_contains e r" by auto
    then obtain l h where lh: "cidr_split r = Some (l, h)"
      using cidr_half.halve_None [OF wf] "2.prems"(1) by (cases "cidr_split r") auto
    note sem = cidr_split_sem [OF wf lh]
    then have st: "\<forall>r \<in> set (l # h # stack). cidr_wf r" using "2.prems" by simp
    have "denoted (l # h # stack) = denoted (r # stack)" using sem by auto
    then show ?thesis
      using "2.IH"(3) [OF Split lh refl "2.prems"(1) st "2.prems"(3)] Split lh by simp
  qed
qed simp

lemma set_cidr_sort: "set (cidr_sort rs) = set rs"
proof -
  have "set (cidr_insort r xs) = insert r (set xs)" for r xs by (induction xs) auto
  then show ?thesis by (induction rs) (simp_all add: cidr_sort_def)
qed

text \<open>C1: excluding ranges from ranges terminates with valid ranges that denote exactly the addresses of the
  original ranges that lie in no excluded range.\<close>

theorem cidr_exclude_correct:
  assumes "\<forall>r \<in> set original_ranges. cidr_wf r" and "\<forall>e \<in> set excluded_ranges. cidr_wf e"
  shows "(\<forall>r \<in> set (cidr_exclude original_ranges excluded_ranges). cidr_wf r) \<and>
    denoted (cidr_exclude original_ranges excluded_ranges) =
      denoted original_ranges - denoted excluded_ranges"
  using exclude_loop_correct [of excluded_ranges "cidr_sort original_ranges" "[]"] assms
  by (simp add: cidr_exclude_def set_cidr_sort)

theorem cidr_exclude_correct_witness:
  "\<not> (\<exists>r \<in> set (cidr_exclude [cidr_init [10, 0] 8] [cidr_init [10, 64] 10]). \<not> cidr_wf r) \<and>
   denoted (cidr_exclude [cidr_init [10, 0] 8] [cidr_init [10, 64] 10]) =
     cidr_addrs (cidr_init [10, 0] 8) - cidr_addrs (cidr_init [10, 64] 10)"
proof -
  have "\<forall>r \<in> set [cidr_init [10, 0] 8]. cidr_wf r" "\<forall>e \<in> set [cidr_init [10, 64] 10]. cidr_wf e"
    by (simp_all add: cidr_init_wf)
  from cidr_exclude_correct [OF this] show ?thesis by auto
qed

end
