(* ===== verification/CidrRangeSet.thy ===== *)
theory CidrRangeSet
  imports CidrExclude
begin

text \<open>
  \<^verbatim>\<open>class CidrRangeSet\<close> of \<^verbatim>\<open>common/include/common/cidr_range.h\<close>: a multiset of ranges under the
  comparator that treats a range and the ranges inside it as equivalent.  The comment of the class
  argues that this comparator supports inclusion tests; the argument is the interface
  \<^verbatim>\<open>ordered_family\<close>, interpreted here on the ranges, and the theorems are its conclusion.
\<close>

section \<open>Operations\<close>

text \<open>
  \<^verbatim>\<open>std::multiset\<close> with a comparator keeps its elements as a sequence sorted by it.
  \<^verbatim>\<open>equal_range\<close> cuts the sequence before the first element that is not less than the key and before the
  first element the key is less than.
\<close>

definition multiset_equal_range ::
    "('a \<Rightarrow> 'a \<Rightarrow> bool) \<Rightarrow> 'a list \<Rightarrow> 'a \<Rightarrow> 'a list \<times> 'a list \<times> 'a list" where
  "multiset_equal_range lt xs k =
     (let before = takeWhile (\<lambda>x. lt x k) xs;
          rest = dropWhile (\<lambda>x. lt x k) xs
      in (before, takeWhile (\<lambda>x. \<not> lt k x) rest, dropWhile (\<lambda>x. \<not> lt k x) rest))"

definition modified_less :: "cidr_range \<Rightarrow> cidr_range \<Rightarrow> bool" where
  "modified_less lhs rhs \<longleftrightarrow> cidr_less lhs rhs \<and> \<not> cidr_contains lhs rhs"

text \<open>
  The loop of \<^verbatim>\<open>insert\<close> over the equal range.  \<^const>\<open>None\<close> is the loop that never ends: an element that
  neither is contained in the range nor contains it leaves the iterator in place.  \<^verbatim>\<open>Some (Inl rest)\<close> is
  the early return, with the elements still in the container; \<^verbatim>\<open>Some (Inr ())\<close> has erased them all.
\<close>

fun range_set_insert_loop :: "cidr_range \<Rightarrow> cidr_range list \<Rightarrow> (cidr_range list + unit) option" where
  "range_set_insert_loop rng [] = Some (Inr ())"
| "range_set_insert_loop rng (n # ns) =
     (if cidr_contains rng n then range_set_insert_loop rng ns
      else if cidr_contains n rng then Some (Inl (n # ns))
      else None)"

definition range_set_insert :: "cidr_range list \<Rightarrow> cidr_range \<Rightarrow> (cidr_range list \<times> bool) option" where
  "range_set_insert m_set rng =
     (let (before, eqr, after) = multiset_equal_range modified_less m_set rng
      in case range_set_insert_loop rng eqr of
           None \<Rightarrow> None
         | Some (Inl rest) \<Rightarrow> Some (before @ rest @ after, False)
         | Some (Inr _) \<Rightarrow> Some (before @ rng # after, True))"

definition range_set_includes :: "cidr_range list \<Rightarrow> cidr_range \<Rightarrow> bool" where
  "range_set_includes m_set rng =
     (let (before, eqr, after) = multiset_equal_range modified_less m_set rng
      in list_ex (\<lambda>n. cidr_contains n rng) eqr)"

definition range_set_clear :: "cidr_range list \<Rightarrow> cidr_range list" where
  "range_set_clear m_set = []"

definition range_set_size :: "cidr_range list \<Rightarrow> nat" where
  "range_set_size m_set = length m_set"

section \<open>The order of the ranges\<close>

lemma cidr_less_key:
  "cidr_less r s \<longleftrightarrow>
     (length (m_address r) < length (m_address s) \<or>
      length (m_address r) = length (m_address s) \<and>
      (addr_nat (m_address r) < addr_nat (m_address s) \<or>
       addr_nat (m_address r) = addr_nat (m_address s) \<and> m_prefix_len r < m_prefix_len s))"
  using bytes_less_iff [of "m_address r" "m_address s"] addr_nat_inj [of "m_address r" "m_address s"]
  by (auto simp: cidr_less_def)

lemma cidr_wf_eqI:
  assumes "cidr_wf r" "cidr_wf s" "m_address r = m_address s" "m_prefix_len r = m_prefix_len s"
  shows "r = s"
  using assms by (simp add: cidr_wf_def)

text \<open>The block of addresses a range covers, by their values.\<close>

lemma cidr_contains_block:
  assumes "cidr_wf r" "cidr_wf s" and "length (m_address s) = length (m_address r)"
  shows "cidr_contains r s \<longleftrightarrow> m_prefix_len r \<le> m_prefix_len s \<and>
    addr_nat (m_address r) div 2 ^ (8 * length (m_address r) - m_prefix_len r) =
    addr_nat (m_address s) div 2 ^ (8 * length (m_address r) - m_prefix_len r)"
  using cidr_contains_bits [OF assms(1,2)] assms(3) cidr_wfD(1) [OF assms(1)]
    prefix_agree_iff [of "m_address r" "length (m_address r)" "m_address s" "m_prefix_len r"]
  by (simp add: mult.commute)

lemma prefix_determines:
  assumes "cidr_wf r" "cidr_wf s" and "length (m_address s) = length (m_address r)"
    and "\<forall>k < m_prefix_len r. abit (m_address r) k = abit (m_address s) k"
    and "m_prefix_len s \<le> m_prefix_len r"
  shows "m_address r = m_address s"
proof -
  have "abit (m_address r) k = abit (m_address s) k" if "k < 8 * length (m_address r)" for k
  proof (cases "k < m_prefix_len r")
    case False
    then show ?thesis using that assms(3,5) cidr_wfD(3) [OF assms(1), of k] cidr_wfD(3) [OF assms(2), of k] by simp
  qed (use assms(4) in simp)
  then show ?thesis using bytes_eq_iff [of "m_address r" _ "m_address s"] assms(3) by simp
qed

lemma cidr_contains_not_less:
  assumes "cidr_wf r" "cidr_wf s" and "cidr_contains r s"
  shows "\<not> cidr_less s r"
proof
  assume lt: "cidr_less s r"
  let ?n = "length (m_address r)" and ?a = "addr_nat (m_address r)" and ?b = "addr_nat (m_address s)"
  let ?d = "2 ^ (8 * length (m_address r) - m_prefix_len r) :: nat"
  have c: "length (m_address s) = ?n" "m_prefix_len r \<le> m_prefix_len s" "?a div ?d = ?b div ?d"
    using assms cidr_contains_bits [OF assms(1,2)] cidr_contains_block [OF assms(1,2)] by simp_all
  with lt have "?b < ?a" by (auto simp: cidr_less_key)
  moreover have "?d dvd ?a"
  proof -
    have "\<not> bit ?a j" if "j < 8 * ?n - m_prefix_len r" for j
    proof -
      have k: "8 * ?n - 1 - (8 * ?n - 1 - j) = j" "8 * ?n - 1 - j < 8 * ?n" "m_prefix_len r \<le> 8 * ?n - 1 - j"
        using that by auto
      then show ?thesis
        using bit_addr_nat [of "8 * ?n - 1 - j" "m_address r"] cidr_wfD(3) [OF assms(1), of "8 * ?n - 1 - j"] by simp
    qed
    then have "take_bit (8 * ?n - m_prefix_len r) ?a = 0" by (intro bit_eqI) (auto simp: bit_simps)
    then show ?thesis by (simp add: take_bit_eq_0_iff)
  qed
  then have "?a = ?a div ?d * ?d" by simp
  then have "?a \<le> ?b" using c(3) by (metis div_times_less_eq_dividend)
  ultimately show False by simp
qed

lemma cidr_convex:
  assumes wf: "cidr_wf r" "cidr_wf s" "cidr_wf t"
    and "cidr_less r s" "cidr_less s t" "cidr_contains r t"
  shows "cidr_contains r s"
proof -
  let ?d = "2 ^ (8 * length (m_address r) - m_prefix_len r) :: nat"
  have len: "length (m_address t) = length (m_address r)" "length (m_address s) = length (m_address r)"
    using assms cidr_contains_bits [OF wf(1,3)] by (auto simp: cidr_less_key)
  have le: "addr_nat (m_address r) \<le> addr_nat (m_address s)" "addr_nat (m_address s) \<le> addr_nat (m_address t)"
    using assms(4,5) len by (auto simp: cidr_less_key)
  have "addr_nat (m_address r) div ?d = addr_nat (m_address t) div ?d"
    using cidr_contains_block [OF wf(1,3)] len assms(6) by simp
  then have eq: "addr_nat (m_address r) div ?d = addr_nat (m_address s) div ?d"
    using div_le_mono [OF le(1), of ?d] div_le_mono [OF le(2), of ?d] by simp
  then have agree: "\<forall>k < m_prefix_len r. abit (m_address r) k = abit (m_address s) k"
    using prefix_agree_iff [of "m_address r" "length (m_address r)" "m_address s" "m_prefix_len r"]
      len cidr_wfD(1) [OF wf(1)] by (simp add: mult.commute)
  have "m_prefix_len r \<le> m_prefix_len s"
  proof (rule ccontr)
    assume not_le: "\<not> m_prefix_len r \<le> m_prefix_len s"
    then have "m_address r = m_address s" using prefix_determines [OF wf(1,2) len(2) agree] by simp
    with assms(4) not_le show False by (simp add: cidr_less_key)
  qed
  with eq len show ?thesis using cidr_contains_block [OF wf(1,2)] by simp
qed

interpretation cidr_ord: ordered_family cidr_wf cidr_addrs cidr_contains cidr_less
proof unfold_locales
  show "\<not> cidr_less r r" for r by (simp add: cidr_less_key)
  show "cidr_less r t" if "cidr_less r s" "cidr_less s t" for r s t
    using that by (auto simp: cidr_less_key)
  show "cidr_less r s \<or> cidr_less s r" if "cidr_wf r" "cidr_wf s" "r \<noteq> s" for r s
    using that cidr_wf_eqI [of r s] addr_nat_inj [of "m_address r" "m_address s"]
    by (fastforce simp: cidr_less_key)
  show "\<not> cidr_less s r" if "cidr_wf r" "cidr_wf s" "cidr_contains r s" for r s
    using that by (rule cidr_contains_not_less)
  show "cidr_contains r s" if "cidr_wf r" "cidr_wf s" "cidr_wf t" "cidr_less r s" "cidr_less s t"
    "cidr_contains r t" for r s t
    using that by (rule cidr_convex)
qed

section \<open>The invariant of the container\<close>

definition range_set_inv :: "cidr_range list \<Rightarrow> bool" where
  "range_set_inv xs \<longleftrightarrow> list_all cidr_wf xs \<and> sorted_wrt modified_less xs"

lemma modified_less_chain:
  assumes "cidr_wf a" "cidr_wf b" "cidr_wf r" and "modified_less a b"
  shows "(modified_less b r \<longrightarrow> modified_less a r) \<and> (modified_less r a \<longrightarrow> modified_less r b)"
  using assms cidr_ord.modified_less_down [of a b r] cidr_ord.modified_less_up [of a b r]
  by (auto simp: modified_less_def)

lemma modified_equivalent:
  assumes "cidr_wf a" "cidr_wf r"
  shows "\<not> modified_less a r \<and> \<not> modified_less r a \<longleftrightarrow> cidr_contains a r \<or> cidr_contains r a"
  using cidr_ord.equivalent_iff_nested [OF assms] by (simp add: modified_less_def)

lemma modified_less_asym: "\<not> (modified_less a b \<and> modified_less b a)"
  by (auto simp: modified_less_def cidr_less_key)

lemma dropWhile_all_not:
  assumes "sorted_wrt lt xs" and "\<And>a b. a \<in> set xs \<Longrightarrow> b \<in> set xs \<Longrightarrow> lt a b \<Longrightarrow> P b \<Longrightarrow> P a"
    and "x \<in> set (dropWhile P xs)"
  shows "\<not> P x"
  using assms
proof (induction xs)
  case (Cons y ys)
  show ?case
  proof (cases "P y")
    case True
    have "\<And>a b. a \<in> set ys \<Longrightarrow> b \<in> set ys \<Longrightarrow> lt a b \<Longrightarrow> P b \<Longrightarrow> P a" using Cons.prems(2) by (meson list.set_intros(2))
    with True Cons show ?thesis by simp
  next
    case False
    then have "x = y \<or> x \<in> set ys \<and> lt y x" using Cons.prems(1,3) by auto
    with False Cons.prems(2) [of y x] show ?thesis by auto
  qed
qed simp

text \<open>In a container that satisfies the invariant the three parts of the cut are exactly what they claim.\<close>

lemma equal_range_parts:
  assumes inv: "range_set_inv xs" and wf: "cidr_wf r"
    and cut: "multiset_equal_range modified_less xs r = (before, eqr, after)"
  shows "xs = before @ eqr @ after"
    and "\<forall>x \<in> set before. modified_less x r"
    and "\<forall>x \<in> set eqr. cidr_contains x r \<or> cidr_contains r x"
    and "\<forall>x \<in> set after. modified_less r x"
proof -
  have wfs: "\<forall>x \<in> set xs. cidr_wf x" and sorted: "sorted_wrt modified_less xs"
    using inv by (simp_all add: range_set_inv_def list_all_iff)
  let ?rest = "dropWhile (\<lambda>x. modified_less x r) xs"
  have parts: "before = takeWhile (\<lambda>x. modified_less x r) xs" "eqr = takeWhile (\<lambda>x. \<not> modified_less r x) ?rest"
    "after = dropWhile (\<lambda>x. \<not> modified_less r x) ?rest"
    using cut by (auto simp: multiset_equal_range_def Let_def)
  show "xs = before @ eqr @ after" by (simp add: parts)
  show "\<forall>x \<in> set before. modified_less x r" by (auto simp: parts dest: set_takeWhileD)
  have rest: "\<not> modified_less x r" if "x \<in> set ?rest" for x
    using dropWhile_all_not [OF sorted _ that] modified_less_chain wfs wf by blast
  have sub: "set ?rest \<subseteq> set xs" using set_dropWhileD by fastforce
  show "\<forall>x \<in> set eqr. cidr_contains x r \<or> cidr_contains r x"
  proof
    fix x assume x: "x \<in> set eqr"
    then have "x \<in> set ?rest" "\<not> modified_less r x" by (auto simp: parts dest: set_takeWhileD)
    then show "cidr_contains x r \<or> cidr_contains r x"
      using modified_equivalent [of x r] rest sub wfs wf by blast
  qed
  have "sorted_wrt modified_less ?rest" using sorted by (metis sorted_wrt_append takeWhile_dropWhile_id)
  then show "\<forall>x \<in> set after. modified_less r x"
    using dropWhile_all_not [of modified_less ?rest "\<lambda>x. \<not> modified_less r x"] modified_less_chain sub wfs wf
    unfolding parts by blast
qed

lemma sorted_not_nested:
  assumes "range_set_inv (as @ a # bs)" and "b \<in> set as \<union> set bs"
  shows "\<not> cidr_contains a b \<and> \<not> cidr_contains b a"
proof -
  have "cidr_wf a" "cidr_wf b" "modified_less a b \<or> modified_less b a"
    using assms by (auto simp: range_set_inv_def list_all_iff sorted_wrt_append)
  then show ?thesis using modified_equivalent [of a b] by blast
qed

lemma insert_loop_covered:
  "\<forall>n \<in> set ns. cidr_contains rng n \<Longrightarrow> range_set_insert_loop rng ns = Some (Inr ())"
  by (induction ns) auto

lemma range_set_inv_replace:
  assumes "range_set_inv (before @ eqr @ after)" and "cidr_wf r"
    and "\<forall>x \<in> set before. modified_less x r" and "\<forall>x \<in> set after. modified_less r x"
  shows "range_set_inv (before @ r # after)"
  using assms by (auto simp: range_set_inv_def sorted_wrt_append list_all_iff)

text \<open>A member that contains the range is alone in the equal range.\<close>

lemma equal_range_single:
  assumes inv: "range_set_inv (before @ eqr @ after)" and "cidr_wf r"
    and nested: "\<forall>x \<in> set eqr. cidr_contains x r \<or> cidr_contains r x"
    and n: "n \<in> set eqr" "cidr_contains n r"
  shows "eqr = [n]"
proof -
  obtain us vs where eqr: "eqr = us @ n # vs" using split_list [OF n(1)] by blast
  have wfs: "\<forall>x \<in> set eqr. cidr_wf x" using inv by (simp add: range_set_inv_def list_all_iff)
  have "False" if m: "m \<in> set us \<union> set vs" for m
  proof -
    have mw: "cidr_wf m" "cidr_wf n" using m eqr wfs by auto
    have apart: "\<not> cidr_contains n m \<and> \<not> cidr_contains m n"
      using sorted_not_nested [of "before @ us" n "vs @ after" m] inv m eqr by auto
    have "cidr_contains m r \<or> cidr_contains r m" using nested m eqr by auto
    then show False
    proof
      assume "cidr_contains r m"
      then show False using cidr_fam.cont_trans [OF mw(2) \<open>cidr_wf r\<close> mw(1) n(2)] apart by blast
    next
      assume "cidr_contains m r"
      then have "cidr_addrs r \<subseteq> cidr_addrs m \<inter> cidr_addrs n"
        using n(2) mw \<open>cidr_wf r\<close> by (simp add: cidr_contains_iff_subset)
      then have "cidr_addrs m \<inter> cidr_addrs n \<noteq> {}" using m_address_in_addrs [of r] by blast
      then show False using cidr_laminar [OF mw] apart by blast
    qed
  qed
  then have "set us \<union> set vs = {}" using ex_in_conv by metis
  with eqr show ?thesis by simp
qed

section \<open>Correctness\<close>

text \<open>C29: the inclusion test of a range set answers whether some member contains the range.\<close>

theorem range_set_includes_correct:
  assumes "range_set_inv xs" and "cidr_wf r"
  shows "range_set_includes xs r \<longleftrightarrow> (\<exists>n \<in> set xs. cidr_contains n r)"
proof -
  obtain before eqr after where cut: "multiset_equal_range modified_less xs r = (before, eqr, after)"
    by (metis prod_cases3)
  note parts = equal_range_parts [OF assms cut]
  have wfs: "\<forall>x \<in> set xs. cidr_wf x" using assms(1) by (simp add: range_set_inv_def list_all_iff)
  have "\<not> cidr_contains n r" if "n \<in> set before \<union> set after" for n
    using that parts(1,2,4) wfs modified_equivalent [of n r] assms(2) by auto
  then have "(\<exists>n \<in> set xs. cidr_contains n r) \<longleftrightarrow> (\<exists>n \<in> set eqr. cidr_contains n r)"
    using parts(1) by auto
  then show ?thesis by (simp add: range_set_includes_def cut list_ex_iff)
qed

theorem range_set_includes_correct_witness:
  "range_set_inv [cidr_init [10, 0] 8, cidr_init [192, 168] 16] \<and>
   (\<exists>n \<in> set [cidr_init [10, 0] 8, cidr_init [192, 168] 16]. cidr_contains n (cidr_init [10, 16] 12))"
proof -
  have inv: "range_set_inv [cidr_init [10, 0] 8, cidr_init [192, 168] 16]" by code_simp
  have wf: "cidr_wf (cidr_init [10, 16] 12)" by (simp add: cidr_init_wf)
  have "range_set_includes [cidr_init [10, 0] 8, cidr_init [192, 168] 16] (cidr_init [10, 16] 12)" by code_simp
  then show ?thesis using range_set_includes_correct [OF inv wf] inv by blast
qed

lemma range_set_insert_returns:
  assumes "range_set_inv xs" and "cidr_wf r"
  shows "\<exists>ys inserted. range_set_insert xs r = Some (ys, inserted) \<and>
    range_set_inv ys \<and> denoted ys = denoted xs \<union> cidr_addrs r \<and>
    (inserted \<longleftrightarrow> \<not> (\<exists>n \<in> set xs. cidr_contains n r \<and> n \<noteq> r)) \<and>
    (if inserted then r \<in> set ys else ys = xs)"
proof -
  obtain before eqr after where cut: "multiset_equal_range modified_less xs r = (before, eqr, after)"
    by (metis prod_cases3)
  note parts = equal_range_parts [OF assms cut]
  have wfs: "\<forall>x \<in> set xs. cidr_wf x" using assms(1) by (simp add: range_set_inv_def list_all_iff)
  have outside: "\<not> cidr_contains n r" if "n \<in> set before \<union> set after" for n
    using that parts(1,2,4) wfs modified_equivalent [of n r] assms(2) by auto
  show ?thesis
  proof (cases "\<exists>n \<in> set eqr. cidr_contains n r \<and> \<not> cidr_contains r n")
    case True
    then obtain n where n: "n \<in> set eqr" "cidr_contains n r" "\<not> cidr_contains r n" by blast
    then have eqr: "eqr = [n]" using equal_range_single [of before eqr after r n] parts assms by simp
    have "range_set_insert xs r = Some (xs, False)"
      unfolding range_set_insert_def cut eqr using n parts(1) eqr by simp
    moreover have "cidr_addrs r \<subseteq> denoted xs"
      using n parts(1) wfs assms(2) eqr by (auto simp: cidr_contains_iff_subset)
    moreover have "n \<in> set xs" "n \<noteq> r" using n parts(1) cidr_fam.cont_refl [OF assms(2)] by auto
    ultimately show ?thesis using assms(1) n(2) by auto
  next
    case False
    then have all: "\<forall>n \<in> set eqr. cidr_contains r n" using parts(3) by blast
    have res: "range_set_insert xs r = Some (before @ r # after, True)"
      using insert_loop_covered [OF all] by (simp add: range_set_insert_def cut)
    have eqr_wf: "\<forall>n \<in> set eqr. cidr_wf n" using wfs parts(1) by simp
    then have "denoted eqr \<subseteq> cidr_addrs r" using all assms(2) by (auto simp: cidr_contains_iff_subset)
    then have den: "denoted (before @ r # after) = denoted xs \<union> cidr_addrs r" unfolding parts(1) by auto
    have same: "n = r" if "n \<in> set xs" "cidr_contains n r" for n
      using that outside parts(1) all eqr_wf assms(2) cidr_ord.cont_antisym [of n r] by auto
    have "range_set_inv (before @ r # after)"
      using range_set_inv_replace [OF _ assms(2) parts(2,4)] assms(1) parts(1) by simp
    with res den same show ?thesis by auto
  qed
qed

text \<open>C28: inserting a valid range that is not itself a member of a range set always returns; the container keeps its invariant and
  denotes its old addresses together with the new ones; if some member contains the range, the answer is false and the container
  is unchanged, and otherwise the answer is true and the range is a member.  A range that is a member already is left out: the code
  puts it in anew and answers true.\<close>

theorem range_set_insert_correct:
  assumes "range_set_inv xs" and "cidr_wf r" and "r \<notin> set xs"
  shows "\<exists>ys inserted. range_set_insert xs r = Some (ys, inserted) \<and>
    range_set_inv ys \<and> denoted ys = denoted xs \<union> cidr_addrs r \<and>
    (inserted \<longleftrightarrow> \<not> (\<exists>n \<in> set xs. cidr_contains n r)) \<and>
    (if inserted then r \<in> set ys else ys = xs)"
proof -
  have "(\<exists>n \<in> set xs. cidr_contains n r \<and> n \<noteq> r) \<longleftrightarrow> (\<exists>n \<in> set xs. cidr_contains n r)" using assms(3) by auto
  then show ?thesis using range_set_insert_returns [OF assms(1,2)] by simp
qed

theorem range_set_insert_correct_witness:
  "range_set_insert [cidr_init [10, 16] 12, cidr_init [192, 168] 16] (cidr_init [10, 0] 8) =
     Some ([cidr_init [10, 0] 8, cidr_init [192, 168] 16], True) \<and>
   range_set_inv [cidr_init [10, 0] 8, cidr_init [192, 168] 16] \<and>
   range_set_insert [cidr_init [10, 16] 12, cidr_init [192, 168] 16] (cidr_init [10, 20] 16) =
     Some ([cidr_init [10, 16] 12, cidr_init [192, 168] 16], False)"
proof -
  let ?xs = "[cidr_init [10, 16] 12, cidr_init [192, 168] 16]"
  have inv: "range_set_inv ?xs" by code_simp
  have wf: "cidr_wf (cidr_init [10, 0] 8)" "cidr_wf (cidr_init [10, 20] 16)" by (simp_all add: cidr_init_wf)
  have new: "cidr_init [10, 0] 8 \<notin> set ?xs" "cidr_init [10, 20] 16 \<notin> set ?xs" by code_simp+
  have "range_set_insert ?xs (cidr_init [10, 0] 8) = Some ([cidr_init [10, 0] 8, cidr_init [192, 168] 16], True)" by code_simp
  moreover have "\<exists>n \<in> set ?xs. cidr_contains n (cidr_init [10, 20] 16)" by code_simp
  ultimately show ?thesis
    using range_set_insert_correct [OF inv wf(1) new(1)] range_set_insert_correct [OF inv wf(2) new(2)] by auto
qed

text \<open>Also: inserting a member again answers true.\<close>

theorem range_set_insert_member:
  "range_set_insert [cidr_init [10, 0] 8] (cidr_init [10, 0] 8) = Some ([cidr_init [10, 0] 8], True)"
  by code_simp

end
