(* ===== verification/LinkedIndex.thy ===== *)
theory LinkedIndex
  imports Prelude "HOL-Library.Multiset" "HOL-Library.AList_Mapping"
begin

text \<open>
  The structure behind the three caches of \<^verbatim>\<open>common/include/common/cache.h\<close>: a linked list whose nodes
  keep their identity while they move, and a hash map from keys to list iterators.  A node is its
  identity, its key and its payload; an iterator is the identity of a node.
\<close>

type_synonym ('k, 'p) node = "nat \<times> 'k \<times> 'p"

abbreviation node_id :: "('k, 'p) node \<Rightarrow> nat" where "node_id n \<equiv> fst n"
abbreviation node_key :: "('k, 'p) node \<Rightarrow> 'k" where "node_key n \<equiv> fst (snd n)"
abbreviation node_val :: "('k, 'p) node \<Rightarrow> 'p" where "node_val n \<equiv> snd (snd n)"

named_theorems index_intros \<open>operations that keep list and map in step\<close>

section \<open>List operations\<close>

text \<open>\<^verbatim>\<open>std::list\<close>: dereferencing an iterator, erasing, moving a node to either end, assigning through it.\<close>

definition ll_deref :: "nat \<Rightarrow> ('k, 'p) node list \<Rightarrow> ('k, 'p) node option" where
  "ll_deref i xs = find (\<lambda>n. node_id n = i) xs"

definition ll_erase :: "nat \<Rightarrow> ('k, 'p) node list \<Rightarrow> ('k, 'p) node list" where
  "ll_erase i xs = filter (\<lambda>n. node_id n \<noteq> i) xs"

definition ll_splice_front :: "nat \<Rightarrow> ('k, 'p) node list \<Rightarrow> ('k, 'p) node list" where
  "ll_splice_front i xs = filter (\<lambda>n. node_id n = i) xs @ ll_erase i xs"

definition ll_splice_back :: "nat \<Rightarrow> ('k, 'p) node list \<Rightarrow> ('k, 'p) node list" where
  "ll_splice_back i xs = ll_erase i xs @ filter (\<lambda>n. node_id n = i) xs"

definition ll_assign :: "nat \<Rightarrow> 'p \<Rightarrow> ('k, 'p) node list \<Rightarrow> ('k, 'p) node list" where
  "ll_assign i p xs = map (\<lambda>n. if node_id n = i then (i, node_key n, p) else n) xs"

text \<open>The identity of a newly allocated node.\<close>

definition ll_fresh :: "('k, 'p) node list \<Rightarrow> nat" where
  "ll_fresh xs = Suc (foldr (\<lambda>n m. max (node_id n) m) xs 0)"

lemma ll_fresh_new: "ll_fresh xs \<notin> node_id ` set xs"
proof -
  have "n \<in> set xs \<Longrightarrow> node_id n < ll_fresh xs" for n
    by (induction xs) (auto simp: ll_fresh_def less_Suc_eq_le max_def)
  then show ?thesis by fastforce
qed

section \<open>The index\<close>

definition index_ok :: "('k \<rightharpoonup> nat) \<Rightarrow> ('k, 'p) node list \<Rightarrow> bool" where
  "index_ok m xs \<longleftrightarrow> distinct (map node_id xs) \<and> distinct (map node_key xs) \<and>
     m = map_of (map (\<lambda>n. (node_key n, node_id n)) xs)"

text \<open>What the pair stands for: an association list without repeated keys.\<close>

abbreviation entries :: "('k, 'p) node list \<Rightarrow> ('k \<times> 'p) list" where
  "entries xs \<equiv> map snd xs"

definition drop_key :: "'k \<Rightarrow> ('k \<times> 'p) list \<Rightarrow> ('k \<times> 'p) list" where
  "drop_key k kvs = filter (\<lambda>kv. fst kv \<noteq> k) kvs"

lemma entries_keys: "map fst (entries xs) = map node_key xs"
  by simp

lemma index_ok_Nil [index_intros]: "index_ok Map.empty []"
  by (simp add: index_ok_def)

lemma index_Some_iff: "index_ok m xs \<Longrightarrow> m k = Some i \<longleftrightarrow> (\<exists>p. (i, k, p) \<in> set xs)"
  by (force simp: index_ok_def map_of_eq_Some_iff comp_def image_iff)

lemma index_None_iff: "index_ok m xs \<Longrightarrow> m k = None \<longleftrightarrow> k \<notin> fst ` set (entries xs)"
  by (auto simp: index_ok_def map_of_eq_None_iff image_image)

lemma index_dom: "index_ok m xs \<Longrightarrow> dom m = fst ` set (entries xs)"
  by (auto simp: index_ok_def dom_map_of_conv_image_fst image_image)

lemma index_distinct: "index_ok m xs \<Longrightarrow> distinct (map fst (entries xs))"
  by (simp add: index_ok_def comp_def)

lemma index_same_node:
  assumes "index_ok m xs" "m k = Some i" "n \<in> set xs"
  shows "node_id n = i \<longleftrightarrow> node_key n = k"
proof -
  from assms obtain p where p: "(i, k, p) \<in> set xs" by (auto simp: index_Some_iff)
  have inj: "inj_on node_id (set xs)" "inj_on node_key (set xs)"
    using assms(1) by (simp_all add: index_ok_def distinct_map)
  show ?thesis
    using inj_onD [OF inj(1) _ assms(3) p] inj_onD [OF inj(2) _ assms(3) p] by (metis fst_conv snd_conv)
qed

lemma index_deref:
  assumes "index_ok m xs" "m k = Some i"
  shows "\<exists>p. ll_deref i xs = Some (i, k, p) \<and> map_of (entries xs) k = Some p"
proof -
  from assms obtain p where p: "(i, k, p) \<in> set xs" by (auto simp: index_Some_iff)
  have "distinct (map node_id xs)" using assms(1) by (simp add: index_ok_def)
  then have "find (\<lambda>n. node_id n = i) xs = Some (i, k, p)" using p
    by (induction xs) (auto simp: image_iff)
  moreover have "map_of (entries xs) k = Some p"
    using p index_distinct [OF assms(1)] by (force simp: map_of_eq_Some_iff)
  ultimately show ?thesis by (auto simp: ll_deref_def)
qed

lemma ll_erase_by_key:
  assumes "index_ok m xs" "m k = Some i"
  shows "ll_erase i xs = filter (\<lambda>n. node_key n \<noteq> k) xs"
  unfolding ll_erase_def using index_same_node [OF assms] by (intro filter_cong) simp_all

lemma index_erase [index_intros]:
  assumes "index_ok m xs" "m k = Some i"
  shows "index_ok (m(k := None)) (ll_erase i xs)"
proof -
  note ll_erase_by_key [OF assms]
  moreover have "map_of (map (\<lambda>n. (node_key n, node_id n)) (filter (\<lambda>n. node_key n \<noteq> k) xs)) =
      (map_of (map (\<lambda>n. (node_key n, node_id n)) xs))(k := None)"
    by (induction xs) (auto simp: fun_eq_iff)
  ultimately show ?thesis using assms(1) by (simp add: index_ok_def distinct_map_filter)
qed

lemma entries_erase:
  assumes "index_ok m xs" "m k = Some i"
  shows "entries (ll_erase i xs) = drop_key k (entries xs)"
  by (simp add: ll_erase_by_key [OF assms] drop_key_def filter_map comp_def)

lemma index_reorder:
  assumes "index_ok m xs" and "mset ys = mset xs"
  shows "index_ok m ys"
proof -
  let ?f = "\<lambda>n :: ('a, 'b) node. (node_key n, node_id n)"
  have d': "distinct (map g ys) \<longleftrightarrow> distinct (map g xs)" for g :: "('a, 'b) node \<Rightarrow> nat"
    using assms(2) by (metis mset_eq_imp_distinct_iff mset_map)
  have d'': "distinct (map g ys) \<longleftrightarrow> distinct (map g xs)" for g :: "('a, 'b) node \<Rightarrow> 'a"
    using assms(2) by (metis mset_eq_imp_distinct_iff mset_map)
  have "map_of (map ?f ys) = map_of (map ?f xs)"
    using assms d'' [of node_key] mset_eq_setD [OF assms(2)]
    by (subst map_of_inject_set) (auto simp: index_ok_def comp_def)
  then show ?thesis using assms(1) d' [of node_id] d'' [of node_key] by (simp add: index_ok_def)
qed

lemma mset_splice:
  "mset (ll_splice_front i xs) = mset xs" "mset (ll_splice_back i xs) = mset xs"
  by (simp_all add: ll_splice_front_def ll_splice_back_def ll_erase_def)

lemma index_splice [index_intros]:
  "index_ok m xs \<Longrightarrow> index_ok m (ll_splice_front i xs)"
  "index_ok m xs \<Longrightarrow> index_ok m (ll_splice_back i xs)"
  by (auto intro: index_reorder simp: mset_splice)

lemma index_the_node:
  assumes "index_ok m xs" "m k = Some i" and "map_of (entries xs) k = Some p"
  shows "filter (\<lambda>n. node_id n = i) xs = [(i, k, p)]"
proof -
  from index_deref [OF assms(1,2)] assms(3) have "ll_deref i xs = Some (i, k, p)" by auto
  then have "(i, k, p) \<in> set xs" by (auto simp: ll_deref_def find_Some_iff intro: nth_mem)
  moreover have "distinct (map node_id xs)" using assms(1) by (simp add: index_ok_def)
  ultimately show ?thesis
  proof (induction xs)
    case (Cons n xs)
    then have "filter (\<lambda>n. node_id n = i) xs = []" if "node_id n = i"
      using that by (auto simp: filter_empty_conv image_iff)
    with Cons show ?case by (auto simp: image_iff)
  qed simp
qed

lemma entries_splice:
  assumes "index_ok m xs" "m k = Some i" and "map_of (entries xs) k = Some p"
  shows "entries (ll_splice_front i xs) = (k, p) # drop_key k (entries xs)"
    and "entries (ll_splice_back i xs) = drop_key k (entries xs) @ [(k, p)]"
  using index_the_node [OF assms] entries_erase [OF assms(1,2)]
  by (simp_all add: ll_splice_front_def ll_splice_back_def)

lemma index_assign [index_intros]:
  assumes "index_ok m xs"
  shows "index_ok m (ll_assign i p xs)"
proof -
  have "map node_id (ll_assign i p xs) = map node_id xs" "map node_key (ll_assign i p xs) = map node_key xs"
    "map (\<lambda>n. (node_key n, node_id n)) (ll_assign i p xs) = map (\<lambda>n. (node_key n, node_id n)) xs"
    by (auto simp: ll_assign_def)
  with assms show ?thesis by (simp add: index_ok_def)
qed

lemma entries_assign:
  assumes "index_ok m xs" "m k = Some i"
  shows "entries (ll_assign i p xs) = map (\<lambda>kv. if fst kv = k then (k, p) else kv) (entries xs)"
  using index_same_node [OF assms] by (auto simp: ll_assign_def)

lemma index_push [index_intros]:
  assumes "index_ok m xs" and "m k = None"
  shows "index_ok (m(k \<mapsto> ll_fresh xs)) ((ll_fresh xs, k, p) # xs)"
  using assms ll_fresh_new [of xs] index_None_iff [OF assms(1)]
  by (auto simp: index_ok_def image_image)

lemma index_pop_back [index_intros]:
  assumes "index_ok m (ys @ [n])"
  shows "index_ok (m(node_key n := None)) ys"
proof -
  have "m (node_key n) = Some (node_id n)" using index_Some_iff [OF assms] by (cases n) auto
  moreover have "ll_erase (node_id n) (ys @ [n]) = ys"
    using assms by (auto simp: ll_erase_def index_ok_def filter_id_conv image_iff)
  ultimately show ?thesis using index_erase [OF assms] by metis
qed

text \<open>The hash map itself is a \<^typ>\<open>('k, nat) mapping\<close>; its operations on the level of lookups.\<close>

lemma lookup_update_fun [simp]: "Mapping.lookup (Mapping.update k v m) = (Mapping.lookup m)(k \<mapsto> v)"
  by (auto simp: lookup_update')

lemma lookup_delete_fun [simp]: "Mapping.lookup (Mapping.delete k m) = (Mapping.lookup m)(k := None)"
proof
  show "Mapping.lookup (Mapping.delete k m) x = ((Mapping.lookup m)(k := None)) x" for x
    by (cases "x = k") simp_all
qed

lemma lookup_empty_fun [simp]: "Mapping.lookup Mapping.empty = Map.empty"
  by (rule ext) simp

lemma index_size: "index_ok (Mapping.lookup m) xs \<Longrightarrow> Mapping.size m = length xs"
  using index_dom [of "Mapping.lookup m" xs] index_distinct [of "Mapping.lookup m" xs]
    distinct_card [of "map fst (entries xs)"]
  by (simp add: Mapping.size_def keys_dom_lookup image_image)

lemma drop_key_absent: "k \<notin> fst ` set kvs \<Longrightarrow> drop_key k kvs = kvs"
  by (auto simp: drop_key_def filter_id_conv)

lemma set_drop_key: "set (drop_key k kvs) = {kv \<in> set kvs. fst kv \<noteq> k}"
  by (simp add: drop_key_def)

lemma map_of_drop_key: "map_of (drop_key k kvs) = (map_of kvs)(k := None)"
  by (induction kvs) (auto simp: drop_key_def fun_eq_iff)

lemma length_drop_key:
  "distinct (map fst kvs) \<Longrightarrow> k \<in> fst ` set kvs \<Longrightarrow> length (drop_key k kvs) = length kvs - 1"
proof (induction kvs)
  case (Cons kv kvs)
  show ?case
  proof (cases "fst kv = k")
    case True
    with Cons.prems have "drop_key k kvs = kvs" by (intro drop_key_absent) simp
    with True show ?thesis by (simp add: drop_key_def)
  next
    case False
    then have "k \<in> fst ` set kvs" using Cons.prems by auto
    moreover from this have "length kvs \<noteq> 0" by auto
    ultimately show ?thesis using False Cons by (simp add: drop_key_def)
  qed
qed simp

end
