(* ===== verification/LruCache.thy ===== *)
theory LruCache
  imports LinkedIndex
begin

text \<open>
  \<^verbatim>\<open>class LruCache\<close> of \<^verbatim>\<open>common/include/common/cache.h\<close>.  The cache refines a plain list of key-value
  pairs in order of use, most recent first; every operation is the obvious one on that list.  The
  mutex \<^verbatim>\<open>m_guard\<close> is left out: the operations are sequential here.
\<close>

section \<open>State and operations\<close>

record ('k, 'v) lru_cache =
  m_capacity :: nat
  m_key_values :: "('k, 'v) node list"
  m_mapped_values :: "('k, nat) mapping"

text \<open>
  \<^verbatim>\<open>Accessor\<close> wraps an iterator of the hash map: the key of an entry, or the default iterator.
  Dereferencing follows the entry to the list node.
\<close>

type_synonym 'k accessor = "'k option"

definition lru_deref :: "('k, 'v) lru_cache \<Rightarrow> 'k accessor \<Rightarrow> 'v option" where
  "lru_deref c acc =
     (case acc of
        None \<Rightarrow> None
      | Some k \<Rightarrow>
          (case Mapping.lookup (m_mapped_values c) k of
             None \<Rightarrow> None
           | Some i \<Rightarrow> map_option node_val (ll_deref i (m_key_values c))))"

text \<open>
  \<^verbatim>\<open>insert\<close>.  \<^const>\<open>None\<close> is the failed assertion on a cache without capacity.  The answer carries the
  key handed to \<^verbatim>\<open>on_key_evicted\<close>, if any; the hook of this class does nothing.
\<close>

definition lru_insert ::
    "'k \<Rightarrow> 'v \<Rightarrow> ('k, 'v) lru_cache \<Rightarrow> (('k, 'v) lru_cache \<times> bool \<times> 'k option) option" where
  "lru_insert k v c =
     (case Mapping.lookup (m_mapped_values c) k of
        Some i \<Rightarrow>
          (let spliced = ll_splice_front i (m_key_values c);
               front = node_id (hd spliced)
           in Some (c\<lparr>m_key_values := ll_assign front v spliced,
                      m_mapped_values := Mapping.update k front (m_mapped_values c)\<rparr>, False, None))
      | None \<Rightarrow>
          (if m_capacity c = 0 then None
           else let (key_values, mapped_values, evicted) =
                      (if length (m_key_values c) = m_capacity c
                       then (let back = node_key (last (m_key_values c))
                             in (butlast (m_key_values c), Mapping.delete back (m_mapped_values c), Some back))
                       else (m_key_values c, m_mapped_values c, None));
                    i = ll_fresh key_values
                in Some (c\<lparr>m_key_values := (i, k, v) # key_values,
                           m_mapped_values := Mapping.update k i mapped_values\<rparr>, True, evicted)))"

definition lru_get :: "'k \<Rightarrow> ('k, 'v) lru_cache \<Rightarrow> ('k, 'v) lru_cache \<times> 'k accessor" where
  "lru_get k c =
     (case Mapping.lookup (m_mapped_values c) k of
        None \<Rightarrow> (c, None)
      | Some i \<Rightarrow> (c\<lparr>m_key_values := ll_splice_front i (m_key_values c)\<rparr>, Some k))"

text \<open>\<^verbatim>\<open>make_lru\<close> dereferences its argument: a default or dangling accessor is \<^const>\<open>None\<close>.\<close>

definition lru_make_lru :: "'k accessor \<Rightarrow> ('k, 'v) lru_cache \<Rightarrow> ('k, 'v) lru_cache option" where
  "lru_make_lru acc c =
     (case acc of
        None \<Rightarrow> None
      | Some k \<Rightarrow>
          (case Mapping.lookup (m_mapped_values c) k of
             None \<Rightarrow> None
           | Some i \<Rightarrow> Some (c\<lparr>m_key_values := ll_splice_back i (m_key_values c)\<rparr>)))"

fun lru_iterate_nodes :: "('k \<Rightarrow> 'v \<Rightarrow> 's \<Rightarrow> 's \<times> bool) \<Rightarrow> ('k, 'v) node list \<Rightarrow> 's \<Rightarrow> 's" where
  "lru_iterate_nodes f [] s = s"
| "lru_iterate_nodes f (n # ns) s =
     (let (s', go_on) = f (node_key n) (node_val n) s
      in if go_on then lru_iterate_nodes f ns s' else s')"

definition lru_iterate_values :: "('k \<Rightarrow> 'v \<Rightarrow> 's \<Rightarrow> 's \<times> bool) \<Rightarrow> ('k, 'v) lru_cache \<Rightarrow> 's \<Rightarrow> 's" where
  "lru_iterate_values f c s = lru_iterate_nodes f (m_key_values c) s"

definition lru_erase :: "'k \<Rightarrow> ('k, 'v) lru_cache \<Rightarrow> ('k, 'v) lru_cache" where
  "lru_erase k c =
     (case Mapping.lookup (m_mapped_values c) k of
        None \<Rightarrow> c
      | Some i \<Rightarrow> c\<lparr>m_key_values := ll_erase i (m_key_values c),
                    m_mapped_values := Mapping.delete k (m_mapped_values c)\<rparr>)"

definition lru_clear :: "('k, 'v) lru_cache \<Rightarrow> ('k, 'v) lru_cache" where
  "lru_clear c = c\<lparr>m_key_values := [], m_mapped_values := Mapping.empty\<rparr>"

definition lru_size :: "('k, 'v) lru_cache \<Rightarrow> nat" where
  "lru_size c = Mapping.size (m_mapped_values c)"

definition lru_max_size :: "('k, 'v) lru_cache \<Rightarrow> nat" where
  "lru_max_size c = m_capacity c"

text \<open>The loop of \<^verbatim>\<open>set_capacity\<close>; \<^const>\<open>None\<close> would be \<^verbatim>\<open>back()\<close> of an empty list.\<close>

fun lru_shrink :: "nat \<Rightarrow> ('k, 'v) lru_cache \<Rightarrow> ('k, 'v) lru_cache option" where
  "lru_shrink 0 c = Some c"
| "lru_shrink (Suc d) c =
     (if m_key_values c = [] then None
      else lru_shrink d
        (c\<lparr>m_mapped_values := Mapping.delete (node_key (last (m_key_values c))) (m_mapped_values c),
           m_key_values := butlast (m_key_values c)\<rparr>))"

definition lru_set_capacity :: "nat \<Rightarrow> ('k, 'v) lru_cache \<Rightarrow> ('k, 'v) lru_cache option" where
  "lru_set_capacity max_size c =
     map_option (\<lambda>c'. c'\<lparr>m_capacity := max_size\<rparr>)
       (if max_size < lru_size c then lru_shrink (lru_size c - max_size) c else Some c)"

definition lru_new :: "nat \<Rightarrow> ('k, 'v) lru_cache option" where
  "lru_new max_size =
     lru_set_capacity max_size \<lparr>m_capacity = 0, m_key_values = [], m_mapped_values = Mapping.empty\<rparr>"

definition lru_default_capacity :: nat where
  "lru_default_capacity = 128"

section \<open>The list in order of use\<close>

definition mru_insert :: "nat \<Rightarrow> 'k \<Rightarrow> 'v \<Rightarrow> ('k \<times> 'v) list \<Rightarrow> ('k \<times> 'v) list" where
  "mru_insert cap k v kvs =
     (if k \<in> fst ` set kvs then (k, v) # drop_key k kvs
      else (k, v) # (if length kvs = cap then butlast kvs else kvs))"

definition mru_touch :: "'k \<Rightarrow> ('k \<times> 'v) list \<Rightarrow> ('k \<times> 'v) list" where
  "mru_touch k kvs = (case map_of kvs k of None \<Rightarrow> kvs | Some v \<Rightarrow> (k, v) # drop_key k kvs)"

definition mru_demote :: "'k \<Rightarrow> ('k \<times> 'v) list \<Rightarrow> ('k \<times> 'v) list" where
  "mru_demote k kvs = (case map_of kvs k of None \<Rightarrow> kvs | Some v \<Rightarrow> drop_key k kvs @ [(k, v)])"

definition mru_evicted :: "nat \<Rightarrow> 'k \<Rightarrow> ('k \<times> 'v) list \<Rightarrow> 'k option" where
  "mru_evicted cap k kvs =
     (if k \<notin> fst ` set kvs \<and> length kvs = cap then Some (fst (last kvs)) else None)"

text \<open>
  The interfaces a cache offers its clients: a store of entries with distinct keys from which keys can
  be removed, and its extension to a bounded list of entries in order of use.
\<close>

locale keyed_store =
  fixes inv :: "'c \<Rightarrow> bool" and contents :: "'c \<Rightarrow> ('k \<times> 'v) list" and rem :: "'k \<Rightarrow> 'c \<Rightarrow> 'c"
  assumes inv_distinct: "inv c \<Longrightarrow> distinct (map fst (contents c))"
    and rem_inv: "inv c \<Longrightarrow> inv (rem k c)"
    and rem_contents: "inv c \<Longrightarrow> contents (rem k c) = drop_key k (contents c)"
begin

abbreviation keys :: "'c \<Rightarrow> 'k set" where
  "keys c \<equiv> fst ` set (contents c)"

lemma rem_keys: "inv c \<Longrightarrow> keys (rem k c) = keys c - {k}"
  using rem_contents by (auto simp: set_drop_key)

lemma rem_lookup: "inv c \<Longrightarrow> map_of (contents (rem k c)) = (map_of (contents c))(k := None)"
  using rem_contents by (simp add: map_of_drop_key)

lemma rem_comm: "inv c \<Longrightarrow> contents (rem k (rem l c)) = contents (rem l (rem k c))"
  using rem_contents rem_inv by (simp add: drop_key_def conj_commute)

end

locale mru_cache = keyed_store inv contents rem
  for inv :: "'c \<Rightarrow> bool" and contents :: "'c \<Rightarrow> ('k \<times> 'v) list" and rem :: "'k \<Rightarrow> 'c \<Rightarrow> 'c" +
  fixes cap :: "'c \<Rightarrow> nat"
    and ins :: "'k \<Rightarrow> 'v \<Rightarrow> 'c \<Rightarrow> ('c \<times> bool \<times> 'k option) option"
    and look :: "'k \<Rightarrow> 'c \<Rightarrow> 'c \<times> 'k option"
  assumes inv_bounded: "inv c \<Longrightarrow> length (contents c) \<le> cap c"
    and ins_sim: "inv c \<Longrightarrow> 0 < cap c \<Longrightarrow> \<exists>c'. inv c' \<and> cap c' = cap c \<and>
        contents c' = mru_insert (cap c) k v (contents c) \<and>
        ins k v c = Some (c', k \<notin> fst ` set (contents c), mru_evicted (cap c) k (contents c))"
    and look_sim: "inv c \<Longrightarrow> \<exists>c'. inv c' \<and> cap c' = cap c \<and>
        contents c' = mru_touch k (contents c) \<and>
        look k c = (c', if k \<in> fst ` set (contents c) then Some k else None)"
    and rem_cap: "inv c \<Longrightarrow> cap (rem k c) = cap c"
begin

lemma look_lookup: "inv c \<Longrightarrow> look k c = (c', acc) \<Longrightarrow> map_of (contents c') = map_of (contents c)"
  using look_sim [of c k] by (auto simp: mru_touch_def map_of_drop_key fun_eq_iff split: option.splits)

lemma look_keys: "inv c \<Longrightarrow> look k c = (c', acc) \<Longrightarrow> keys c' = keys c"
  using look_lookup [of c k c' acc] by (metis dom_map_of_conv_image_fst)

lemma ins_lookup:
  assumes "inv c" "0 < cap c" "ins k v c = Some (c', inserted, evicted)"
  shows "map_of (contents c') k = Some v"
  using ins_sim [OF assms(1,2), of k v] assms(3) by (auto simp: mru_insert_def)

lemma butlast_keys:
  assumes "distinct (map fst kvs)" "kvs \<noteq> []"
  shows "fst ` set (butlast kvs) = fst ` set kvs - {fst (last kvs)}"
proof -
  have kvs: "kvs = butlast kvs @ [last kvs]" using assms(2) by simp
  then have "distinct (map fst (butlast kvs) @ [fst (last kvs)])" using assms(1) by (metis list.map(2) map_append list.map(1))
  moreover have "fst ` set kvs = fst ` set (butlast kvs) \<union> {fst (last kvs)}" by (subst kvs) auto
  ultimately show ?thesis by auto
qed

lemma ins_keys:
  assumes "inv c" "0 < cap c" "ins k v c = Some (c', inserted, evicted)"
  shows "keys c' = insert k (keys c - set_option evicted) \<and> k \<notin> set_option evicted"
proof -
  from ins_sim [OF assms(1,2), of k v] assms(3)
  have c': "contents c' = mru_insert (cap c) k v (contents c)" and e: "evicted = mru_evicted (cap c) k (contents c)"
    by auto
  show ?thesis
  proof (cases "k \<notin> keys c \<and> length (contents c) = cap c")
    case True
    then have "contents c \<noteq> []" using assms(2) by auto
    then show ?thesis
      using True c' e butlast_keys [OF inv_distinct [OF assms(1)]] last_in_set [of "contents c"]
      by (auto simp: mru_insert_def mru_evicted_def)
  next
    case False
    then show ?thesis using c' e by (auto simp: mru_insert_def mru_evicted_def set_drop_key)
  qed
qed

end

section \<open>Refinement\<close>

definition lru_inv :: "('k, 'v) lru_cache \<Rightarrow> bool" where
  "lru_inv c \<longleftrightarrow> index_ok (Mapping.lookup (m_mapped_values c)) (m_key_values c) \<and>
     length (m_key_values c) \<le> m_capacity c"

abbreviation lru_contents :: "('k, 'v) lru_cache \<Rightarrow> ('k \<times> 'v) list" where
  "lru_contents c \<equiv> entries (m_key_values c)"

lemma lru_inv_index: "lru_inv c \<Longrightarrow> index_ok (Mapping.lookup (m_mapped_values c)) (m_key_values c)"
  by (simp add: lru_inv_def)

lemma lru_found:
  assumes "lru_inv c" "Mapping.lookup (m_mapped_values c) k = Some i"
  shows "\<exists>v. map_of (lru_contents c) k = Some v \<and> k \<in> fst ` set (lru_contents c)"
  using index_deref [OF lru_inv_index [OF assms(1)] assms(2)]
  by (metis dom_map_of_conv_image_fst domI)

lemma lru_insert_present:
  assumes inv: "lru_inv c" and k: "Mapping.lookup (m_mapped_values c) k = Some i"
  shows "\<exists>c'. lru_insert k v c = Some (c', False, None) \<and> lru_inv c' \<and> m_capacity c' = m_capacity c \<and>
    lru_contents c' = (k, v) # drop_key k (lru_contents c)"
proof -
  let ?m = "Mapping.lookup (m_mapped_values c)" and ?xs = "m_key_values c"
  let ?sp = "ll_splice_front i ?xs"
  note ix = lru_inv_index [OF inv]
  obtain p where p: "map_of (lru_contents c) k = Some p" using lru_found [OF inv k] by blast
  have front: "hd ?sp = (i, k, p)" using index_the_node [OF ix k p] by (simp add: ll_splice_front_def)
  have ixsp: "index_ok ?m ?sp" by (rule index_splice [OF ix])
  have "index_ok (?m(k \<mapsto> i)) (ll_assign i v ?sp)"
    using index_assign [OF ixsp] k by (metis fun_upd_triv)
  moreover have "length (ll_assign i v ?sp) = length ?xs"
    using arg_cong [OF mset_splice(1) [of i ?xs], of size] by (simp add: ll_assign_def)
  moreover have "entries (ll_assign i v ?sp) = (k, v) # drop_key k (entries ?xs)"
  proof -
    have "entries (ll_assign i v ?sp) = map (\<lambda>kv. if fst kv = k then (k, v) else kv) (entries ?sp)"
      by (rule entries_assign [OF ixsp k])
    also have "\<dots> = (k, v) # drop_key k (entries ?xs)"
      unfolding entries_splice(1) [OF ix k p] by (auto simp: drop_key_def intro: map_idI)
    finally show ?thesis .
  qed
  ultimately show ?thesis using inv k front by (simp add: lru_insert_def lru_inv_def Let_def)
qed

lemma lru_insert_absent:
  assumes inv: "lru_inv c" and k: "Mapping.lookup (m_mapped_values c) k = None" and cap: "0 < m_capacity c"
  shows "\<exists>c'. lru_inv c' \<and> m_capacity c' = m_capacity c \<and>
    lru_contents c' = (k, v) # (if length (lru_contents c) = m_capacity c then butlast (lru_contents c) else lru_contents c) \<and>
    lru_insert k v c = Some (c', True, mru_evicted (m_capacity c) k (lru_contents c))"
proof -
  let ?m = "Mapping.lookup (m_mapped_values c)" and ?xs = "m_key_values c"
  note ix = lru_inv_index [OF inv]
  have fresh: "k \<notin> fst ` set (lru_contents c)" using k index_None_iff [OF ix] by simp
  show ?thesis
  proof (cases "length ?xs = m_capacity c")
    case False
    then have "length ?xs < m_capacity c" using inv by (simp add: lru_inv_def)
    then show ?thesis
      using False k cap index_push [OF ix k, of v]
      by (simp add: lru_insert_def lru_inv_def mru_evicted_def Let_def)
  next
    case True
    then obtain ys n where xs: "?xs = ys @ [n]" using cap by (metis rev_exhaust length_0_conv less_numeral_extra(3))
    have ixy: "index_ok (?m(node_key n := None)) ys" using index_pop_back ix xs by metis
    have "(?m(node_key n := None)) k = None" using k by simp
    then have "index_ok ((?m(node_key n := None))(k \<mapsto> ll_fresh ys)) ((ll_fresh ys, k, v) # ys)"
      by (rule index_push [OF ixy])
    then show ?thesis
      using True k cap xs fresh by (simp add: lru_insert_def lru_inv_def mru_evicted_def Let_def last_map map_butlast [symmetric])
  qed
qed

lemma lru_get_sim:
  assumes "lru_inv c"
  shows "\<exists>c'. lru_inv c' \<and> m_capacity c' = m_capacity c \<and> lru_contents c' = mru_touch k (lru_contents c) \<and>
    lru_get k c = (c', if k \<in> fst ` set (lru_contents c) then Some k else None)"
proof (cases "Mapping.lookup (m_mapped_values c) k")
  case None
  then have "k \<notin> fst ` set (lru_contents c)" using index_None_iff [OF lru_inv_index [OF assms]] by simp
  moreover from this have "map_of (lru_contents c) k = None" by (simp add: map_of_eq_None_iff)
  ultimately show ?thesis using None assms by (simp add: lru_get_def mru_touch_def)
next
  case (Some i)
  note ix = lru_inv_index [OF assms]
  from lru_found [OF assms Some] obtain p where p: "map_of (lru_contents c) k = Some p" "k \<in> fst ` set (lru_contents c)" by blast
  have "length (ll_splice_front i (m_key_values c)) = length (m_key_values c)"
    using mset_splice(1) [of i "m_key_values c"] by (metis size_mset)
  then show ?thesis
    using Some p assms index_splice(1) [OF ix, of i] entries_splice(1) [OF ix Some p(1)]
    by (simp add: lru_get_def mru_touch_def lru_inv_def)
qed

lemma lru_erase_sim:
  assumes "lru_inv c"
  shows "lru_inv (lru_erase k c) \<and> m_capacity (lru_erase k c) = m_capacity c \<and>
    lru_contents (lru_erase k c) = drop_key k (lru_contents c)"
proof (cases "Mapping.lookup (m_mapped_values c) k")
  case None
  then have "k \<notin> fst ` set (lru_contents c)" using index_None_iff [OF lru_inv_index [OF assms]] by simp
  then show ?thesis using None assms by (simp add: lru_erase_def drop_key_absent)
next
  case (Some i)
  note ix = lru_inv_index [OF assms]
  have "length (ll_erase i (m_key_values c)) \<le> length (m_key_values c)" by (simp add: ll_erase_def)
  then show ?thesis
    using Some assms index_erase [OF ix Some] entries_erase [OF ix Some]
    by (simp add: lru_erase_def lru_inv_def)
qed

interpretation lru: mru_cache lru_inv lru_contents lru_erase m_capacity lru_insert lru_get
proof unfold_locales
  show "distinct (map fst (lru_contents c))" if "lru_inv c" for c :: "('a, 'b) lru_cache"
    using index_distinct [OF lru_inv_index [OF that]] .
  show "length (lru_contents c) \<le> m_capacity c" if "lru_inv c" for c :: "('a, 'b) lru_cache"
    using that by (simp add: lru_inv_def)
  show "\<exists>c'. lru_inv c' \<and> m_capacity c' = m_capacity c \<and>
      lru_contents c' = mru_insert (m_capacity c) k v (lru_contents c) \<and>
      lru_insert k v c = Some (c', k \<notin> fst ` set (lru_contents c), mru_evicted (m_capacity c) k (lru_contents c))"
    if "lru_inv c" "0 < m_capacity c" for c k and v :: 'b
  proof (cases "Mapping.lookup (m_mapped_values c) k")
    case None
    then have "k \<notin> fst ` set (lru_contents c)" using index_None_iff [OF lru_inv_index [OF that(1)]] by simp
    then show ?thesis using lru_insert_absent [OF that(1) None that(2), of v] by (simp add: mru_insert_def)
  next
    case (Some i)
    then show ?thesis
      using lru_insert_present [OF that(1) Some, of v] lru_found [OF that(1) Some]
      by (auto simp: mru_insert_def mru_evicted_def)
  qed
qed (fact lru_get_sim | simp add: lru_erase_sim)+

subsection \<open>The remaining operations\<close>

lemma lru_make_lru_sim:
  assumes "lru_inv c"
  shows "case lru_make_lru acc c of
      None \<Rightarrow> (\<forall>k. acc = Some k \<longrightarrow> k \<notin> fst ` set (lru_contents c))
    | Some c' \<Rightarrow> (\<exists>k. acc = Some k \<and> k \<in> fst ` set (lru_contents c) \<and> lru_inv c' \<and>
        m_capacity c' = m_capacity c \<and> lru_contents c' = mru_demote k (lru_contents c))"
proof (cases acc)
  case (Some k)
  note ix = lru_inv_index [OF assms]
  show ?thesis
  proof (cases "Mapping.lookup (m_mapped_values c) k")
    case None
    then show ?thesis using Some index_None_iff [OF ix, of k] by (simp add: lru_make_lru_def)
  next
    case k: (Some i)
    from lru_found [OF assms k] obtain p where
      p: "map_of (lru_contents c) k = Some p" "k \<in> fst ` set (lru_contents c)" by blast
    have "length (ll_splice_back i (m_key_values c)) = length (m_key_values c)"
      using arg_cong [OF mset_splice(2) [of i "m_key_values c"], of size] by simp
    then show ?thesis
      using Some k p assms index_splice(2) [OF ix, of i] entries_splice(2) [OF ix k p(1)]
      by (simp add: lru_make_lru_def mru_demote_def lru_inv_def)
  qed
qed (simp add: lru_make_lru_def)

lemma lru_deref_sim:
  assumes "lru_inv c"
  shows "lru_deref c (Some k) = map_of (lru_contents c) k"
proof (cases "Mapping.lookup (m_mapped_values c) k")
  case None
  then have "map_of (lru_contents c) k = None"
    using index_None_iff [OF lru_inv_index [OF assms]] by (simp add: map_of_eq_None_iff)
  with None show ?thesis by (simp add: lru_deref_def)
next
  case (Some i)
  with index_deref [OF lru_inv_index [OF assms] Some] show ?thesis by (auto simp: lru_deref_def)
qed

lemma lru_size_sim: "lru_inv c \<Longrightarrow> lru_size c = length (lru_contents c)"
  using index_size [OF lru_inv_index] by (simp add: lru_size_def)

lemma lru_clear_sim:
  "lru_inv c \<Longrightarrow> lru_inv (lru_clear c) \<and> m_capacity (lru_clear c) = m_capacity c \<and> lru_contents (lru_clear c) = []"
  by (simp add: lru_clear_def lru_inv_def index_ok_Nil)

lemma lru_shrink_sim:
  assumes "lru_inv c" and "d \<le> length (m_key_values c)"
  shows "\<exists>c'. lru_shrink d c = Some c' \<and> lru_inv c' \<and>
    lru_contents c' = take (length (lru_contents c) - d) (lru_contents c)"
  using assms
proof (induction d arbitrary: c)
  case (Suc d)
  then obtain ys n where xs: "m_key_values c = ys @ [n]"
    by (metis Suc_le_length_iff list.discI rev_exhaust)
  let ?c = "c\<lparr>m_mapped_values := Mapping.delete (node_key n) (m_mapped_values c), m_key_values := ys\<rparr>"
  have "index_ok ((Mapping.lookup (m_mapped_values c))(node_key n := None)) ys"
    using index_pop_back lru_inv_index [OF Suc.prems(1)] xs by metis
  then have "lru_inv ?c" using Suc.prems xs by (simp add: lru_inv_def)
  then have "\<exists>c'. lru_shrink d ?c = Some c' \<and> lru_inv c' \<and> lru_contents c' = take (length (entries ys) - d) (entries ys)"
    using Suc.IH [of ?c] Suc.prems xs by simp
  then show ?case using xs by simp
qed simp

lemma lru_shrink_capacity: "lru_shrink d c = Some c' \<Longrightarrow> m_capacity c' = m_capacity c"
  by (induction d arbitrary: c) (auto split: if_splits)

lemma lru_set_capacity_sim:
  assumes "lru_inv c"
  shows "\<exists>c'. lru_set_capacity n c = Some c' \<and> lru_inv c' \<and> m_capacity c' = n \<and>
    lru_contents c' = take n (lru_contents c)"
proof (cases "n < lru_size c")
  case True
  then have le: "lru_size c - n \<le> length (m_key_values c)" using lru_size_sim [OF assms] by simp
  from lru_shrink_sim [OF assms le] obtain c' where c': "lru_shrink (lru_size c - n) c = Some c'" "lru_inv c'"
    "lru_contents c' = take n (lru_contents c)" using True lru_size_sim [OF assms] by auto
  have "length (m_key_values c') \<le> n" using arg_cong [OF c'(3), of length] by simp
  then show ?thesis using True c' by (simp add: lru_set_capacity_def lru_inv_def)
next
  case False
  then show ?thesis using assms lru_size_sim [OF assms] by (simp add: lru_set_capacity_def lru_inv_def)
qed

lemma lru_new_sim: "\<exists>c. lru_new n = Some c \<and> lru_inv c \<and> m_capacity c = n \<and> lru_contents c = []"
proof -
  have "lru_inv \<lparr>m_capacity = 0, m_key_values = [] :: ('a, 'b) node list, m_mapped_values = Mapping.empty\<rparr>"
    by (simp add: lru_inv_def index_ok_Nil)
  from lru_set_capacity_sim [OF this, of n] show ?thesis by (simp add: lru_new_def)
qed

section \<open>Programs over the cache\<close>

text \<open>Any client is a sequence of calls; the answers it sees are collected in order.\<close>

datatype ('k, 'v) lru_op =
  Op_insert 'k 'v | Op_get 'k | Op_make_lru 'k | Op_erase 'k | Op_clear | Op_size | Op_set_capacity nat

datatype 'v lru_answer = Ans_inserted bool | Ans_value "'v option" | Ans_size nat | Ans_done

fun lru_call :: "('k, 'v) lru_op \<Rightarrow> ('k, 'v) lru_cache \<Rightarrow> (('k, 'v) lru_cache \<times> 'v lru_answer) option" where
  "lru_call (Op_insert k v) c = map_option (\<lambda>(c', inserted, _). (c', Ans_inserted inserted)) (lru_insert k v c)"
| "lru_call (Op_get k) c = (let (c', acc) = lru_get k c in Some (c', Ans_value (lru_deref c' acc)))"
| "lru_call (Op_make_lru k) c =
     (let (c', acc) = lru_get k c
      in if acc = None then Some (c', Ans_done) else map_option (\<lambda>c''. (c'', Ans_done)) (lru_make_lru acc c'))"
| "lru_call (Op_erase k) c = Some (lru_erase k c, Ans_done)"
| "lru_call Op_clear c = Some (lru_clear c, Ans_done)"
| "lru_call Op_size c = Some (c, Ans_size (lru_size c))"
| "lru_call (Op_set_capacity n) c = map_option (\<lambda>c'. (c', Ans_done)) (lru_set_capacity n c)"

fun mru_call :: "('k, 'v) lru_op \<Rightarrow> nat \<times> ('k \<times> 'v) list \<Rightarrow> ((nat \<times> ('k \<times> 'v) list) \<times> 'v lru_answer) option" where
  "mru_call (Op_insert k v) (n, kvs) =
     (if n = 0 then None else Some ((n, mru_insert n k v kvs), Ans_inserted (k \<notin> fst ` set kvs)))"
| "mru_call (Op_get k) (n, kvs) = Some ((n, mru_touch k kvs), Ans_value (map_of kvs k))"
| "mru_call (Op_make_lru k) (n, kvs) = Some ((n, mru_demote k kvs), Ans_done)"
| "mru_call (Op_erase k) (n, kvs) = Some ((n, drop_key k kvs), Ans_done)"
| "mru_call Op_clear (n, kvs) = Some ((n, []), Ans_done)"
| "mru_call Op_size (n, kvs) = Some ((n, kvs), Ans_size (length kvs))"
| "mru_call (Op_set_capacity m) (n, kvs) = Some ((m, take m kvs), Ans_done)"

fun run_calls :: "('o \<Rightarrow> 's \<Rightarrow> ('s \<times> 'a) option) \<Rightarrow> 'o list \<Rightarrow> 's \<Rightarrow> ('s \<times> 'a list) option" where
  "run_calls call [] s = Some (s, [])"
| "run_calls call (x # xs) s =
     (case call x s of
        None \<Rightarrow> None
      | Some (s', a) \<Rightarrow> map_option (\<lambda>(s'', as). (s'', a # as)) (run_calls call xs s'))"

abbreviation lru_view :: "('k, 'v) lru_cache \<Rightarrow> nat \<times> ('k \<times> 'v) list" where
  "lru_view c \<equiv> (lru_max_size c, lru_contents c)"

lemma mru_demote_touch:
  "distinct (map fst kvs) \<Longrightarrow> mru_demote k (mru_touch k kvs) = mru_demote k kvs"
  by (auto simp: mru_demote_def mru_touch_def drop_key_def split: option.splits)

lemma lru_inv_zero: "lru_inv c \<Longrightarrow> m_capacity c = 0 \<Longrightarrow> lru_insert k v c = None"
proof -
  assume inv: "lru_inv c" and zero: "m_capacity c = 0"
  then have "Mapping.lookup (m_mapped_values c) k = None"
    using index_None_iff [OF lru_inv_index [OF inv]] by (simp add: lru_inv_def)
  with zero show ?thesis by (simp add: lru_insert_def)
qed

abbreviation lru_simulated :: "('k, 'v) lru_op \<Rightarrow> ('k, 'v) lru_cache \<Rightarrow> bool" where
  "lru_simulated op c \<equiv> map_option (\<lambda>(c', a). (lru_view c', a)) (lru_call op c) = mru_call op (lru_view c) \<and>
     (\<forall>c' a. lru_call op c = Some (c', a) \<longrightarrow> lru_inv c')"

lemma lru_call_insert:
  assumes "lru_inv c"
  shows "lru_simulated (Op_insert k v) c"
proof (cases "m_capacity c = 0")
  case True
  then show ?thesis using lru_inv_zero [OF assms] by (simp add: lru_max_size_def)
next
  case False
  then show ?thesis using lru.ins_sim [OF assms, of k v] by (auto simp: lru_max_size_def)
qed

lemma lru_call_get:
  assumes "lru_inv c"
  shows "lru_simulated (Op_get k) c"
proof -
  from lru_get_sim [OF assms, of k] obtain c' where c': "lru_inv c'" "m_capacity c' = m_capacity c"
    "lru_contents c' = mru_touch k (lru_contents c)"
    "lru_get k c = (c', if k \<in> fst ` set (lru_contents c) then Some k else None)" by blast
  have "map_of (lru_contents c') k = map_of (lru_contents c) k"
    using lru.look_lookup [OF assms c'(4)] by simp
  moreover have "lru_deref c' None = None" by (simp add: lru_deref_def)
  moreover have "k \<notin> fst ` set (lru_contents c) \<Longrightarrow> map_of (lru_contents c) k = None"
    by (simp only: map_of_eq_None_iff not_False_eq_True)
  ultimately show ?thesis using c' lru_deref_sim [OF c'(1)] by (auto simp: lru_max_size_def)
qed

lemma lru_call_make_lru:
  assumes "lru_inv c"
  shows "lru_simulated (Op_make_lru k) c"
proof -
  from lru_get_sim [OF assms, of k] obtain c' where c': "lru_inv c'" "m_capacity c' = m_capacity c"
    "lru_contents c' = mru_touch k (lru_contents c)"
    "lru_get k c = (c', if k \<in> fst ` set (lru_contents c) then Some k else None)" by blast
  show ?thesis
  proof (cases "k \<in> fst ` set (lru_contents c)")
    case True
    have kc': "k \<in> fst ` set (lru_contents c')" using lru.look_keys [OF assms c'(4)] True by simp
    from lru_make_lru_sim [OF c'(1), of "Some k"] kc'
    obtain c'' where "lru_make_lru (Some k) c' = Some c''" "lru_inv c''" "m_capacity c'' = m_capacity c'"
      "lru_contents c'' = mru_demote k (lru_contents c')" by (auto split: option.splits)
    then show ?thesis
      using True c' mru_demote_touch [OF lru.inv_distinct [OF assms]] by (simp add: lru_max_size_def)
  next
    case False
    then have "map_of (lru_contents c) k = None" by (simp only: map_of_eq_None_iff not_False_eq_True)
    then show ?thesis using False c' by (auto simp: lru_max_size_def mru_touch_def mru_demote_def)
  qed
qed

lemma lru_call_sim:
  assumes "lru_inv c"
  shows "map_option (\<lambda>(c', a). (lru_view c', a)) (lru_call op c) = mru_call op (lru_view c)"
    and "lru_call op c = Some (c', a) \<Longrightarrow> lru_inv c'"
proof -
  have "lru_simulated op c"
  proof (cases op)
    case (Op_erase k)
    then show ?thesis using lru_erase_sim [OF assms, of k] by (simp add: lru_max_size_def)
  next
    case Op_clear
    then show ?thesis using lru_clear_sim [OF assms] by (simp add: lru_max_size_def)
  next
    case Op_size
    then show ?thesis using lru_size_sim [OF assms] assms by (simp add: lru_max_size_def)
  next
    case (Op_set_capacity n)
    then show ?thesis using lru_set_capacity_sim [OF assms, of n] by (auto simp: lru_max_size_def)
  qed (use lru_call_insert [OF assms] lru_call_get [OF assms] lru_call_make_lru [OF assms] in \<open>blast+\<close>)
  then show "map_option (\<lambda>(c', a). (lru_view c', a)) (lru_call op c) = mru_call op (lru_view c)"
    and "lru_call op c = Some (c', a) \<Longrightarrow> lru_inv c'" by blast+
qed

lemma lru_run_sim:
  assumes "lru_inv c"
  shows "map_option (\<lambda>(c', as). (lru_view c', as)) (run_calls lru_call ops c) = run_calls mru_call ops (lru_view c)"
    and "run_calls lru_call ops c = Some (c', as) \<Longrightarrow> lru_inv c'"
proof -
  have "map_option (\<lambda>(c', as). (lru_view c', as)) (run_calls lru_call ops c) = run_calls mru_call ops (lru_view c) \<and>
    (\<forall>c' as. run_calls lru_call ops c = Some (c', as) \<longrightarrow> lru_inv c')"
    using assms
  proof (induction ops arbitrary: c)
    case (Cons op ops)
    show ?case
    proof (cases "lru_call op c")
      case None
      then show ?thesis using lru_call_sim(1) [OF Cons.prems, of op] by simp
    next
      case (Some r)
      then obtain c1 a where r: "lru_call op c = Some (c1, a)" by (cases r) auto
      have "lru_inv c1" by (rule lru_call_sim(2) [OF Cons.prems r])
      note ih = Cons.IH [OF this]
      have "mru_call op (lru_view c) = Some (lru_view c1, a)" using lru_call_sim(1) [OF Cons.prems, of op] r by simp
      then have "run_calls mru_call (op # ops) (lru_view c) =
          map_option (\<lambda>(s, as). (s, a # as)) (run_calls mru_call ops (lru_view c1))" by simp
      also have "\<dots> = map_option (\<lambda>(s, as). (s, a # as))
          (map_option (\<lambda>(c', as). (lru_view c', as)) (run_calls lru_call ops c1))" using ih by simp
      finally show ?thesis using r ih by (auto simp: option.map_comp comp_def split_def)
    qed
  qed simp
  then show "map_option (\<lambda>(c', as). (lru_view c', as)) (run_calls lru_call ops c) = run_calls mru_call ops (lru_view c)"
    and "run_calls lru_call ops c = Some (c', as) \<Longrightarrow> lru_inv c'" by blast+
qed

text \<open>With a capacity there is always an answer.\<close>

lemma mru_run_total:
  "\<lbrakk>0 < n; Op_set_capacity 0 \<notin> set ops\<rbrakk> \<Longrightarrow> \<exists>m kvs' as. run_calls mru_call ops (n, kvs) = Some ((m, kvs'), as) \<and> 0 < m"
proof (induction ops arbitrary: n kvs)
  case (Cons op ops)
  then have "\<exists>n' kvs' a. mru_call op (n, kvs) = Some ((n', kvs'), a) \<and> 0 < n'" by (cases op) auto
  then obtain n' kvs' a where s: "mru_call op (n, kvs) = Some ((n', kvs'), a)" "0 < n'" by blast
  with Cons.IH [of n' kvs'] Cons.prems show ?case by fastforce
qed simp

text \<open>C5: a client of an LRU cache cannot tell it from a plain list of entries in order of use: every sequence of calls on a cache
  that is made with a capacity above zero, and that is never told to take the capacity zero, runs to its end, gives the answers
  that the list gives, and ends with the capacity and the entries of the list in the same order of use.  Capacity zero is left
  out: the documentation lets it stand for the default capacity, the code takes it as it is.\<close>

theorem lru_cache_refines_mru:
  assumes "0 < n" "Op_set_capacity 0 \<notin> set ops"
  shows "\<exists>c answers. Option.bind (lru_new n) (run_calls lru_call ops) = Some (c, answers) \<and>
    run_calls mru_call ops (n, []) = Some ((lru_max_size c, lru_contents c), answers)"
proof -
  from lru_new_sim [of n] obtain c0 :: "('a, 'b) lru_cache" where c0: "lru_new n = Some c0" "lru_inv c0" "m_capacity c0 = n"
    "lru_contents c0 = []" by blast
  moreover from mru_run_total [OF assms, of "[]"] obtain m kvs as where
    r: "run_calls mru_call ops (n, [] :: ('a \<times> 'b) list) = Some ((m, kvs), as)" by blast
  moreover have "map_option (\<lambda>(c', as). (lru_view c', as)) (run_calls lru_call ops c0) = run_calls mru_call ops (n, [])"
    using lru_run_sim(1) [OF c0(2), of ops] c0(3,4) by (simp add: lru_max_size_def)
  ultimately show ?thesis by fastforce
qed

theorem lru_cache_refines_mru_witness:
  "\<exists>c. Option.bind (lru_new 3) (run_calls lru_call [Op_insert (1::nat) ''a'', Op_insert 2 ''b'', Op_get 1, Op_set_capacity 1, Op_get 2]) =
     Some (c, [Ans_inserted True, Ans_inserted True, Ans_value (Some ''a''), Ans_done, Ans_value None]) \<and>
   lru_max_size c = 1 \<and> lru_contents c = [(1, ''a'')]"
  using lru_cache_refines_mru [of 3 "[Op_insert (1::nat) ''a'', Op_insert 2 ''b'', Op_get 1, Op_set_capacity 1, Op_get 2]"]
  by (auto simp: mru_insert_def mru_touch_def drop_key_def)

text \<open>Also: telling a cache to take the capacity zero empties it and leaves it without capacity, and inserting then fails.\<close>

theorem lru_capacity_zero:
  "(case Option.bind (lru_new 2) (run_calls lru_call [Op_insert (1::nat) ''a'', Op_set_capacity 0]) of
      Some (c, answers) \<Rightarrow> answers = [Ans_inserted True, Ans_done] \<and> lru_max_size c = 0 \<and> lru_contents c = [] \<and>
        lru_call (Op_insert 1 ''a'') c = None
    | None \<Rightarrow> False)"
  by code_simp

text \<open>Also: in every state an LRU cache can reach the hash map holds exactly the keys of the list and points at
  their nodes, no key is stored twice, and the number of entries does not exceed the capacity.\<close>

theorem lru_cache_reachable_inv:
  assumes "Option.bind (lru_new n) (run_calls lru_call ops) = Some (c, answers)"
  shows "(\<forall>k i. Mapping.lookup (m_mapped_values c) k = Some i \<longleftrightarrow> (\<exists>v. (i, k, v) \<in> set (m_key_values c))) \<and>
    distinct (map fst (lru_contents c)) \<and> lru_size c = length (m_key_values c) \<and> lru_size c \<le> lru_max_size c"
proof -
  from lru_new_sim [of n] obtain c0 :: "('a, 'b) lru_cache" where c0: "lru_new n = Some c0" "lru_inv c0" by blast
  then have inv: "lru_inv c" using lru_run_sim(2) [OF c0(2)] assms by simp
  show ?thesis
    using index_Some_iff [OF lru_inv_index [OF inv]] lru.inv_distinct [OF inv] lru_size_sim [OF inv] inv
    by (simp add: lru_inv_def lru_max_size_def)
qed

theorem lru_cache_reachable_inv_witness:
  "lru_size (fst (the (Option.bind (lru_new 2)
     (run_calls lru_call [Op_insert (1::nat) ''a'', Op_insert 2 ''b'', Op_get 1, Op_insert 3 ''c''])))) \<le> 2"
proof -
  let ?r = "Option.bind (lru_new 2)
     (run_calls lru_call [Op_insert (1::nat) ''a'', Op_insert 2 ''b'', Op_get 1, Op_insert 3 ''c''])"
  have "\<not> Option.is_none ?r" by code_simp
  then obtain c answers where run: "?r = Some (c, answers)" by (cases ?r) auto
  have "lru_max_size (fst (the ?r)) = 2" by code_simp
  then show ?thesis using lru_cache_reachable_inv [OF run] run by simp
qed

end
