(* ===== verification/TimeoutCaches.thy ===== *)
theory TimeoutCaches
  imports LruCache
begin

text \<open>
  \<^verbatim>\<open>LruTimeoutCache\<close> and \<^verbatim>\<open>TimeoutCache\<close> of \<^verbatim>\<open>common/include/common/cache.h\<close>.  Each operation takes the
  readings of the steady clock it makes, in order, as arguments; times and durations are whole
  numbers of clock ticks.
\<close>

section \<open>LruTimeoutCache\<close>

text \<open>
  The multimap from deadlines to keys is a list sorted by deadline whose nodes keep their identity;
  a node holds the key, the deadline and the duration \<^verbatim>\<open>to\<close>.
\<close>

record ('k, 'v) lru_timeout_cache =
  lt_base :: "('k, 'v) lru_cache"
  lt_TIMEOUT :: int
  lt_AUTO_UPDATE :: bool
  m_timeout_keys :: "('k, int \<times> int) node list"
  m_keys_timeout_iters :: "('k, nat) mapping"

abbreviation node_deadline :: "('k, int \<times> int) node \<Rightarrow> int" where "node_deadline n \<equiv> fst (node_val n)"
abbreviation node_to :: "('k, int \<times> int) node \<Rightarrow> int" where "node_to n \<equiv> snd (node_val n)"

text \<open>\<^verbatim>\<open>std::multimap::emplace\<close> puts the new node after those with an equal or smaller key.\<close>

definition mm_emplace :: "('k, int \<times> int) node \<Rightarrow> ('k, int \<times> int) node list \<Rightarrow> ('k, int \<times> int) node list" where
  "mm_emplace n xs =
     takeWhile (\<lambda>x. node_deadline x \<le> node_deadline n) xs @ n #
     dropWhile (\<lambda>x. node_deadline x \<le> node_deadline n) xs"

definition lt_new :: "nat \<Rightarrow> int \<Rightarrow> bool \<Rightarrow> ('k, 'v) lru_timeout_cache option" where
  "lt_new s to up =
     map_option (\<lambda>base. \<lparr>lt_base = base, lt_TIMEOUT = to, lt_AUTO_UPDATE = up,
       m_timeout_keys = [], m_keys_timeout_iters = Mapping.empty\<rparr>) (lru_new s)"

text \<open>The loop of \<^verbatim>\<open>update\<close> over the nodes before \<^verbatim>\<open>lower_bound\<close> of the current time.\<close>

fun lt_expire :: "('k, int \<times> int) node list \<Rightarrow> ('k, 'v) lru_timeout_cache \<Rightarrow> ('k, 'v) lru_timeout_cache" where
  "lt_expire [] c = c"
| "lt_expire (n # ns) c =
     lt_expire ns
       (c\<lparr>lt_base := lru_erase (node_key n) (lt_base c),
          m_keys_timeout_iters := Mapping.delete (node_key n) (m_keys_timeout_iters c),
          m_timeout_keys := ll_erase (node_id n) (m_timeout_keys c)\<rparr>)"

definition lt_update :: "int \<Rightarrow> ('k, 'v) lru_timeout_cache \<Rightarrow> ('k, 'v) lru_timeout_cache" where
  "lt_update now c = lt_expire (takeWhile (\<lambda>n. node_deadline n < now) (m_timeout_keys c)) c"

definition lt_auto_update :: "int \<Rightarrow> ('k, 'v) lru_timeout_cache \<Rightarrow> ('k, 'v) lru_timeout_cache" where
  "lt_auto_update now c = (if lt_AUTO_UPDATE c then lt_update now c else c)"

text \<open>Forgetting the deadline of a key, as \<^verbatim>\<open>on_key_evicted\<close>, \<^verbatim>\<open>insert\<close> and \<^verbatim>\<open>erase\<close> do.\<close>

definition lt_forget :: "'k \<Rightarrow> ('k, 'v) lru_timeout_cache \<Rightarrow> ('k, 'v) lru_timeout_cache" where
  "lt_forget k c =
     (case Mapping.lookup (m_keys_timeout_iters c) k of
        None \<Rightarrow> c
      | Some i \<Rightarrow> c\<lparr>m_timeout_keys := ll_erase i (m_timeout_keys c),
                    m_keys_timeout_iters := Mapping.delete k (m_keys_timeout_iters c)\<rparr>)"

definition lt_on_key_evicted :: "'k option \<Rightarrow> ('k, 'v) lru_timeout_cache \<Rightarrow> ('k, 'v) lru_timeout_cache" where
  "lt_on_key_evicted evicted c = (case evicted of None \<Rightarrow> c | Some k \<Rightarrow> lt_forget k c)"

definition lt_insert_with ::
    "int \<Rightarrow> int \<Rightarrow> 'k \<Rightarrow> 'v \<Rightarrow> int \<Rightarrow> bool \<Rightarrow> ('k, 'v) lru_timeout_cache \<Rightarrow>
      (('k, 'v) lru_timeout_cache \<times> bool) option" where
  "lt_insert_with now_update now k v to preserve_longer_timeout c0 =
     (let c1 = lt_auto_update now_update c0;
          to' = (case Mapping.lookup (m_keys_timeout_iters c1) k of
                   None \<Rightarrow> to
                 | Some i \<Rightarrow>
                     (case ll_deref i (m_timeout_keys c1) of
                        None \<Rightarrow> to
                      | Some n \<Rightarrow> if preserve_longer_timeout \<and> node_to n > to then node_to n else to));
          c2 = lt_forget k c1;
          i = ll_fresh (m_timeout_keys c2);
          c3 = c2\<lparr>m_timeout_keys := mm_emplace (i, k, (now + to', to')) (m_timeout_keys c2),
                  m_keys_timeout_iters := Mapping.update k i (m_keys_timeout_iters c2)\<rparr>
      in case lru_insert k v (lt_base c3) of
           None \<Rightarrow> None
         | Some (base, inserted, evicted) \<Rightarrow>
             Some (lt_on_key_evicted evicted (c3\<lparr>lt_base := base\<rparr>), inserted))"

definition lt_insert ::
    "int \<Rightarrow> int \<Rightarrow> 'k \<Rightarrow> 'v \<Rightarrow> ('k, 'v) lru_timeout_cache \<Rightarrow> (('k, 'v) lru_timeout_cache \<times> bool) option" where
  "lt_insert now_update now k v c = lt_insert_with now_update now k v (lt_TIMEOUT c) False c"

text \<open>\<^verbatim>\<open>get\<close>; \<^const>\<open>None\<close> is the failed assertion that a cached key has a deadline.\<close>

definition lt_get ::
    "int \<Rightarrow> int \<Rightarrow> 'k \<Rightarrow> ('k, 'v) lru_timeout_cache \<Rightarrow> (('k, 'v) lru_timeout_cache \<times> 'k accessor) option" where
  "lt_get now_update now k c0 =
     (let c1 = lt_auto_update now_update c0;
          (base, v) = lru_get k (lt_base c1);
          c2 = c1\<lparr>lt_base := base\<rparr>
      in if v = None then Some (c2, v)
         else case Mapping.lookup (m_keys_timeout_iters c2) k of
           None \<Rightarrow> None
         | Some i \<Rightarrow>
             (case ll_deref i (m_timeout_keys c2) of
                None \<Rightarrow> None
              | Some n \<Rightarrow>
                  (let j = ll_fresh (m_timeout_keys c2);
                       moved = mm_emplace (j, node_key n, (now + node_to n, node_to n)) (m_timeout_keys c2)
                   in Some (c2\<lparr>m_timeout_keys := ll_erase i moved,
                               m_keys_timeout_iters := Mapping.update k j (m_keys_timeout_iters c2)\<rparr>, v))))"

definition lt_clear :: "('k, 'v) lru_timeout_cache \<Rightarrow> ('k, 'v) lru_timeout_cache" where
  "lt_clear c = c\<lparr>m_timeout_keys := [], m_keys_timeout_iters := Mapping.empty, lt_base := lru_clear (lt_base c)\<rparr>"

definition lt_erase :: "int \<Rightarrow> 'k \<Rightarrow> ('k, 'v) lru_timeout_cache \<Rightarrow> ('k, 'v) lru_timeout_cache" where
  "lt_erase now_update k c0 =
     (let c1 = lt_forget k (lt_auto_update now_update c0)
      in c1\<lparr>lt_base := lru_erase k (lt_base c1)\<rparr>)"

definition lt_set_capacity :: "nat \<Rightarrow> ('k, 'v) lru_timeout_cache \<Rightarrow> ('k, 'v) lru_timeout_cache option" where
  "lt_set_capacity n c = map_option (\<lambda>base. c\<lparr>lt_base := base\<rparr>) (lru_set_capacity n (lt_base c))"

section \<open>TimeoutCache\<close>

record ('k, 'v) timeout_cache =
  m_entries :: "('k, 'v \<times> int) node list"
  m_entry_iter_by_key :: "('k, nat) mapping"
  tc_TIMEOUT :: int
  tc_CAPACITY :: nat

definition tc_new :: "int \<Rightarrow> nat \<Rightarrow> ('k, 'v) timeout_cache" where
  "tc_new timeout max_size =
     \<lparr>m_entries = [], m_entry_iter_by_key = Mapping.empty, tc_TIMEOUT = timeout, tc_CAPACITY = max_size\<rparr>"

text \<open>Making room: the entry at the back goes.\<close>

definition tc_make_room :: "('k, 'v) timeout_cache \<Rightarrow> ('k, 'v) timeout_cache" where
  "tc_make_room c =
     (if tc_CAPACITY c \<noteq> 0 \<and> Mapping.size (m_entry_iter_by_key c) = tc_CAPACITY c
      then c\<lparr>m_entry_iter_by_key := Mapping.delete (node_key (last (m_entries c))) (m_entry_iter_by_key c),
             m_entries := butlast (m_entries c)\<rparr>
      else c)"

definition tc_insert :: "int \<Rightarrow> 'k \<Rightarrow> 'v \<Rightarrow> ('k, 'v) timeout_cache \<Rightarrow> ('k, 'v) timeout_cache" where
  "tc_insert now k v c0 =
     (let c = tc_make_room c0;
          expires = now + tc_TIMEOUT c
      in case Mapping.lookup (m_entry_iter_by_key c) k of
           Some i \<Rightarrow> c\<lparr>m_entries := ll_splice_front i (ll_assign i (v, expires) (m_entries c))\<rparr>
         | None \<Rightarrow>
             (let i = ll_fresh (m_entries c)
              in c\<lparr>m_entries := (i, k, (v, expires)) # m_entries c,
                   m_entry_iter_by_key := Mapping.update k i (m_entry_iter_by_key c)\<rparr>))"

definition tc_get :: "int \<Rightarrow> 'k \<Rightarrow> ('k, 'v) timeout_cache \<Rightarrow> ('k, 'v) timeout_cache \<times> 'v option" where
  "tc_get now k c =
     (case Mapping.lookup (m_entry_iter_by_key c) k of
        None \<Rightarrow> (c, None)
      | Some i \<Rightarrow>
          (case ll_deref i (m_entries c) of
             None \<Rightarrow> (c, None)
           | Some n \<Rightarrow>
               (if now \<ge> snd (node_val n)
                then (c\<lparr>m_entries := ll_erase i (m_entries c),
                        m_entry_iter_by_key := Mapping.delete k (m_entry_iter_by_key c)\<rparr>, None)
                else (c, Some (fst (node_val n))))))"

definition tc_erase :: "'k \<Rightarrow> ('k, 'v) timeout_cache \<Rightarrow> ('k, 'v) timeout_cache" where
  "tc_erase k c =
     (case Mapping.lookup (m_entry_iter_by_key c) k of
        None \<Rightarrow> c
      | Some i \<Rightarrow> c\<lparr>m_entries := ll_erase i (m_entries c),
                    m_entry_iter_by_key := Mapping.delete k (m_entry_iter_by_key c)\<rparr>)"

definition tc_clear :: "('k, 'v) timeout_cache \<Rightarrow> ('k, 'v) timeout_cache" where
  "tc_clear c = c\<lparr>m_entries := [], m_entry_iter_by_key := Mapping.empty\<rparr>"

definition tc_size :: "('k, 'v) timeout_cache \<Rightarrow> nat" where
  "tc_size c = length (m_entries c)"

definition tc_empty :: "('k, 'v) timeout_cache \<Rightarrow> bool" where
  "tc_empty c \<longleftrightarrow> m_entries c = []"

section \<open>LruTimeoutCache: the invariant\<close>

definition lt_inv :: "('k, 'v) lru_timeout_cache \<Rightarrow> bool" where
  "lt_inv c \<longleftrightarrow> lru_inv (lt_base c) \<and>
     index_ok (Mapping.lookup (m_keys_timeout_iters c)) (m_timeout_keys c) \<and>
     sorted (map node_deadline (m_timeout_keys c)) \<and>
     lru.keys (lt_base c) \<subseteq> fst ` set (entries (m_timeout_keys c))"

text \<open>The keys that have a deadline but no value.\<close>

definition lt_stale :: "('k, 'v) lru_timeout_cache \<Rightarrow> 'k set" where
  "lt_stale c = fst ` set (entries (m_timeout_keys c)) - lru.keys (lt_base c)"

definition lt_lookup :: "('k, 'v) lru_timeout_cache \<Rightarrow> 'k \<Rightarrow> 'v option" where
  "lt_lookup c k = map_of (lru_contents (lt_base c)) k"

definition lt_deadline :: "('k, 'v) lru_timeout_cache \<Rightarrow> 'k \<Rightarrow> (int \<times> int) option" where
  "lt_deadline c k = map_of (entries (m_timeout_keys c)) k"

abbreviation lt_same_setup :: "('k, 'v) lru_timeout_cache \<Rightarrow> ('k, 'v) lru_timeout_cache \<Rightarrow> bool" where
  "lt_same_setup c c' \<equiv> lt_TIMEOUT c' = lt_TIMEOUT c \<and> lt_AUTO_UPDATE c' = lt_AUTO_UPDATE c \<and>
     m_capacity (lt_base c') = m_capacity (lt_base c)"

lemma lt_invD:
  assumes "lt_inv c"
  shows "lru_inv (lt_base c)" "index_ok (Mapping.lookup (m_keys_timeout_iters c)) (m_timeout_keys c)"
    "sorted (map node_deadline (m_timeout_keys c))"
    "lru.keys (lt_base c) \<subseteq> fst ` set (entries (m_timeout_keys c))"
  using assms by (simp_all add: lt_inv_def)

subsection \<open>The multimap\<close>

lemma mset_mm_emplace: "mset (mm_emplace n xs) = mset (n # xs)"
proof -
  have "mset (takeWhile P xs) + mset (dropWhile P xs) = mset xs" for P :: "('a, int \<times> int) node \<Rightarrow> bool"
    by (metis mset_append takeWhile_dropWhile_id)
  then show ?thesis by (simp add: mm_emplace_def)
qed

lemma set_mm_emplace: "set (mm_emplace n xs) = insert n (set xs)"
  using mset_eq_setD [OF mset_mm_emplace [of n xs]] by simp

lemma sorted_dropWhile_le:
  "sorted (map node_deadline xs) \<Longrightarrow> x \<in> set (dropWhile (\<lambda>x. node_deadline x \<le> d) xs) \<Longrightarrow> d \<le> node_deadline x"
proof (induction xs)
  case (Cons y ys)
  show ?case
  proof (cases "node_deadline y \<le> d")
    case True
    with Cons show ?thesis by simp
  next
    case False
    then have "x = y \<or> x \<in> set ys" using Cons.prems(2) by simp
    then have "node_deadline y \<le> node_deadline x" using Cons.prems(1) by auto
    with False show ?thesis by simp
  qed
qed simp

lemma sorted_insert_mid:
  fixes d :: int
  shows "sorted (as @ bs) \<Longrightarrow> \<forall>a \<in> set as. a \<le> d \<Longrightarrow> \<forall>b \<in> set bs. d \<le> b \<Longrightarrow> sorted (as @ d # bs)"
  by (auto simp: sorted_append)

lemma sorted_mm_emplace:
  assumes "sorted (map node_deadline xs)"
  shows "sorted (map node_deadline (mm_emplace n xs))"
proof -
  let ?P = "\<lambda>x. node_deadline x \<le> node_deadline n"
  have "sorted (map node_deadline (takeWhile ?P xs) @ map node_deadline (dropWhile ?P xs))"
    using assms by (metis map_append takeWhile_dropWhile_id)
  moreover have "\<forall>x \<in> set (takeWhile ?P xs). ?P x" by (auto dest: set_takeWhileD)
  moreover have "\<forall>x \<in> set (dropWhile ?P xs). node_deadline n \<le> node_deadline x"
    using sorted_dropWhile_le [OF assms] by blast
  ultimately have "sorted (map node_deadline (takeWhile ?P xs) @ node_deadline n # map node_deadline (dropWhile ?P xs))"
    by (intro sorted_insert_mid) (auto simp only: set_map)
  then show ?thesis by (simp add: mm_emplace_def)
qed

lemma sorted_filter_deadline:
  "sorted (map node_deadline xs) \<Longrightarrow> sorted (map node_deadline (ll_erase i xs))"
  by (simp add: ll_erase_def sorted_filter)

lemma index_emplace:
  assumes "index_ok m xs" and "m k = None"
  shows "index_ok (m(k \<mapsto> ll_fresh xs)) (mm_emplace (ll_fresh xs, k, p) xs)"
  by (rule index_reorder [OF index_push [OF assms] mset_mm_emplace])

lemma map_of_emplace:
  assumes "index_ok m xs" and "m k = None"
  shows "map_of (entries (mm_emplace (ll_fresh xs, k, p) xs)) = (map_of (entries xs))(k \<mapsto> p)"
proof -
  have "map_of (entries (mm_emplace (ll_fresh xs, k, p) xs)) = map_of (entries ((ll_fresh xs, k, p) # xs))"
    using index_distinct [OF index_push [OF assms]] index_distinct [OF index_emplace [OF assms]]
    by (subst map_of_inject_set) (auto simp: set_mm_emplace)
  then show ?thesis by simp
qed

lemma ll_erase_head: "index_ok m (n # xs) \<Longrightarrow> ll_erase (node_id n) (n # xs) = xs"
proof -
  assume "index_ok m (n # xs)"
  then have "\<forall>x \<in> set xs. node_id x \<noteq> node_id n" by (auto simp: index_ok_def image_iff)
  then show ?thesis by (simp add: ll_erase_def filter_id_conv)
qed

subsection \<open>Forgetting a deadline\<close>

lemma lt_forget_base: "lt_base (lt_forget k c) = lt_base c" "lt_TIMEOUT (lt_forget k c) = lt_TIMEOUT c"
  "lt_AUTO_UPDATE (lt_forget k c) = lt_AUTO_UPDATE c"
  by (simp_all add: lt_forget_def split: option.splits)

lemma lt_forget_sim:
  assumes "index_ok (Mapping.lookup (m_keys_timeout_iters c)) (m_timeout_keys c)"
    and "sorted (map node_deadline (m_timeout_keys c))"
  shows "index_ok (Mapping.lookup (m_keys_timeout_iters (lt_forget k c))) (m_timeout_keys (lt_forget k c)) \<and>
    sorted (map node_deadline (m_timeout_keys (lt_forget k c))) \<and>
    entries (m_timeout_keys (lt_forget k c)) = drop_key k (entries (m_timeout_keys c)) \<and>
    Mapping.lookup (m_keys_timeout_iters (lt_forget k c)) k = None"
proof (cases "Mapping.lookup (m_keys_timeout_iters c) k")
  case None
  then have "drop_key k (entries (m_timeout_keys c)) = entries (m_timeout_keys c)"
    using index_None_iff [OF assms(1), of k] by (intro drop_key_absent) simp
  then show ?thesis using None assms by (simp add: lt_forget_def)
next
  case (Some i)
  then show ?thesis
    using assms index_erase [OF assms(1) Some] entries_erase [OF assms(1) Some] sorted_filter_deadline [OF assms(2)]
    by (simp add: lt_forget_def)
qed

subsection \<open>Expiry\<close>

lemma lt_expire_sim:
  assumes "lt_inv c" and "m_timeout_keys c = ns @ rest"
  shows "lt_inv (lt_expire ns c) \<and> m_timeout_keys (lt_expire ns c) = rest \<and> lt_same_setup c (lt_expire ns c) \<and>
    lt_lookup (lt_expire ns c) = (lt_lookup c) |` (- (node_key ` set ns)) \<and>
    lt_stale (lt_expire ns c) \<subseteq> lt_stale c"
  using assms
proof (induction ns arbitrary: c)
  case (Cons n ns)
  note inv = lt_invD [OF Cons.prems(1)]
  let ?c = "c\<lparr>lt_base := lru_erase (node_key n) (lt_base c),
          m_keys_timeout_iters := Mapping.delete (node_key n) (m_keys_timeout_iters c),
          m_timeout_keys := ll_erase (node_id n) (m_timeout_keys c)\<rparr>"
  have n: "Mapping.lookup (m_keys_timeout_iters c) (node_key n) = Some (node_id n)"
    using index_Some_iff [OF inv(2)] Cons.prems(2) by (cases n) auto
  have rest: "ll_erase (node_id n) (m_timeout_keys c) = ns @ rest"
    using ll_erase_head inv(2) Cons.prems(2) by (metis append_Cons)
  have keys: "fst ` set (entries (ns @ rest)) = fst ` set (entries (m_timeout_keys c)) - {node_key n}"
    using entries_erase [OF inv(2) n] rest by (auto simp: set_drop_key)
  have k1: "lru.keys (lt_base ?c) = lru.keys (lt_base c) - {node_key n}"
    using lru.rem_keys [OF inv(1), of "node_key n"] by simp
  have k2: "fst ` set (entries (m_timeout_keys ?c)) = fst ` set (entries (m_timeout_keys c)) - {node_key n}"
    using keys rest by simp
  have "lru.keys (lt_base ?c) \<subseteq> fst ` set (entries (m_timeout_keys ?c))" unfolding k1 k2 using inv(4) by blast
  moreover have "lru_inv (lt_base ?c)" using lru.rem_inv [OF inv(1)] by simp
  moreover have "index_ok (Mapping.lookup (m_keys_timeout_iters ?c)) (m_timeout_keys ?c)"
    "sorted (map node_deadline (m_timeout_keys ?c))"
    using index_erase [OF inv(2) n] sorted_filter_deadline [OF inv(3)] by simp_all
  ultimately have "lt_inv ?c" unfolding lt_inv_def by blast
  moreover have "m_timeout_keys ?c = ns @ rest" using rest by simp
  ultimately have ih: "lt_inv (lt_expire ns ?c)" "m_timeout_keys (lt_expire ns ?c) = rest" "lt_same_setup ?c (lt_expire ns ?c)"
    "lt_lookup (lt_expire ns ?c) = (lt_lookup ?c) |` (- (node_key ` set ns))" "lt_stale (lt_expire ns ?c) \<subseteq> lt_stale ?c"
    using Cons.IH [of ?c] by blast+
  have "lt_lookup ?c = (lt_lookup c)(node_key n := None)"
    using lru.rem_lookup [OF inv(1), of "node_key n"] by (auto simp: lt_lookup_def)
  then have "lt_lookup (lt_expire (n # ns) c) = (lt_lookup c) |` (- (node_key ` set (n # ns)))"
    using ih(4) by (auto simp: restrict_map_def)
  moreover have "lt_stale ?c \<subseteq> lt_stale c"
    unfolding lt_stale_def k1 k2 by blast
  moreover have "lt_same_setup c ?c" using lru_erase_sim [OF inv(1)] by simp
  ultimately show ?case using ih by auto
qed (simp add: restrict_map_def)

lemma sorted_takeWhile_less:
  assumes "sorted (map node_deadline xs)" and "n \<in> set xs"
  shows "n \<in> set (takeWhile (\<lambda>n. node_deadline n < now) xs) \<longleftrightarrow> node_deadline n < now"
  using assms by (induction xs) auto

lemma sorted_dropWhile_less:
  "sorted (map node_deadline xs) \<Longrightarrow>
   n \<in> set (dropWhile (\<lambda>n. node_deadline n < now) xs) \<longleftrightarrow> n \<in> set xs \<and> \<not> node_deadline n < now"
proof (induction xs)
  case (Cons y ys)
  show ?case
  proof (cases "node_deadline y < now")
    case True
    with Cons show ?thesis by auto
  next
    case False
    have "node_deadline y \<le> node_deadline n" if "n \<in> set ys" using that Cons.prems by simp
    with False show ?thesis by auto
  qed
qed simp

lemma lt_update_sim:
  assumes "lt_inv c"
  shows "lt_inv (lt_update now c) \<and> lt_same_setup c (lt_update now c) \<and> lt_stale (lt_update now c) \<subseteq> lt_stale c \<and>
    (\<forall>k. lt_lookup (lt_update now c) k =
      (case lt_deadline c k of None \<Rightarrow> None | Some (d, _) \<Rightarrow> if d < now then None else lt_lookup c k)) \<and>
    (\<forall>k. lt_deadline (lt_update now c) k =
      (case lt_deadline c k of None \<Rightarrow> None | Some (d, to) \<Rightarrow> if d < now then None else Some (d, to)))"
proof -
  let ?P = "\<lambda>n. node_deadline n < now" and ?xs = "m_timeout_keys c"
  note inv = lt_invD [OF assms]
  note ex = lt_expire_sim [OF assms, of "takeWhile ?P ?xs" "dropWhile ?P ?xs", simplified, folded lt_update_def]
  have node: "(\<exists>i. (i, k, p) \<in> set ?xs) \<longleftrightarrow> lt_deadline c k = Some p" for k p
    using index_distinct [OF inv(2)] by (force simp: lt_deadline_def map_of_eq_Some_iff)
  have gone: "k \<in> node_key ` set (takeWhile ?P ?xs) \<longleftrightarrow> (\<exists>d to. lt_deadline c k = Some (d, to) \<and> d < now)" for k
  proof
    assume "k \<in> node_key ` set (takeWhile ?P ?xs)"
    then obtain i d to where t: "(i, k, (d, to)) \<in> set (takeWhile ?P ?xs)" by auto
    then have "(i, k, (d, to)) \<in> set ?xs" "d < now" by (auto dest: set_takeWhileD)
    then show "\<exists>d to. lt_deadline c k = Some (d, to) \<and> d < now" using node by blast
  next
    assume "\<exists>d to. lt_deadline c k = Some (d, to) \<and> d < now"
    then obtain i d to where "(i, k, (d, to)) \<in> set ?xs" "d < now" using node by blast
    then have "(i, k, (d, to)) \<in> set (takeWhile ?P ?xs)" using sorted_takeWhile_less [OF inv(3)] by simp
    then show "k \<in> node_key ` set (takeWhile ?P ?xs)" by force
  qed
  have none: "lt_deadline c k = None \<Longrightarrow> lt_lookup c k = None" for k
    using inv(4) by (force simp: lt_deadline_def lt_lookup_def map_of_eq_None_iff)
  have look: "lt_lookup (lt_update now c) k =
      (case lt_deadline c k of None \<Rightarrow> None | Some (d, _) \<Rightarrow> if d < now then None else lt_lookup c k)" for k
    using ex gone [of k] none [of k] by (auto simp: restrict_map_def split: option.splits)
  have "distinct (map fst (entries (dropWhile ?P ?xs)))"
    using ex lt_invD(2) [of "lt_update now c"] index_distinct by metis
  then have dl: "lt_deadline (lt_update now c) k = Some p \<longleftrightarrow> (\<exists>i. (i, k, p) \<in> set (dropWhile ?P ?xs))" for k p
    using ex by (force simp: lt_deadline_def map_of_eq_Some_iff)
  have kept: "n \<in> set (dropWhile ?P ?xs) \<longleftrightarrow> n \<in> set ?xs \<and> \<not> ?P n" for n
    by (rule sorted_dropWhile_less [OF inv(3)])
  have dead: "lt_deadline (lt_update now c) k =
      (case lt_deadline c k of None \<Rightarrow> None | Some (d, to) \<Rightarrow> if d < now then None else Some (d, to))" for k
  proof -
    have iff: "lt_deadline (lt_update now c) k = Some (d, to) \<longleftrightarrow> lt_deadline c k = Some (d, to) \<and> \<not> d < now" for d to
      using dl [of k] kept node [of k] by auto
    show ?thesis
    proof (cases "lt_deadline (lt_update now c) k")
      case None
      then show ?thesis using iff by (auto split: option.splits)
    next
      case (Some p)
      then show ?thesis using iff by (cases p) auto
    qed
  qed
  from ex look dead show ?thesis by blast
qed

subsection \<open>Operations keep the invariant\<close>

abbreviation lt_timed :: "('k, 'v) lru_timeout_cache \<Rightarrow> 'k set" where
  "lt_timed c \<equiv> fst ` set (entries (m_timeout_keys c))"

lemma lt_timed_dom: "lt_timed c = dom (lt_deadline c)"
  unfolding lt_deadline_def by (simp add: dom_map_of_conv_image_fst)

lemma lt_deadline_base: "lt_deadline (c\<lparr>lt_base := b\<rparr>) = lt_deadline c"
  by (rule ext) (simp add: lt_deadline_def)

lemma lt_auto_update_sim:
  assumes "lt_inv c"
  shows "lt_inv (lt_auto_update now c) \<and> lt_same_setup c (lt_auto_update now c) \<and>
    lt_stale (lt_auto_update now c) \<subseteq> lt_stale c"
  using lt_update_sim [OF assms, of now] assms by (simp add: lt_auto_update_def)

text \<open>Recording a new deadline for a key that has none.\<close>

lemma lt_emplace_sim:
  fixes p :: "int \<times> int"
  assumes "index_ok (Mapping.lookup (m_keys_timeout_iters c)) (m_timeout_keys c)"
    and "sorted (map node_deadline (m_timeout_keys c))"
    and "Mapping.lookup (m_keys_timeout_iters c) k = None"
  defines "c' \<equiv> c\<lparr>m_timeout_keys := mm_emplace (ll_fresh (m_timeout_keys c), k, p) (m_timeout_keys c),
                  m_keys_timeout_iters := Mapping.update k (ll_fresh (m_timeout_keys c)) (m_keys_timeout_iters c)\<rparr>"
  shows "index_ok (Mapping.lookup (m_keys_timeout_iters c')) (m_timeout_keys c')"
    and "sorted (map node_deadline (m_timeout_keys c'))"
    and "lt_deadline c' = (lt_deadline c)(k \<mapsto> p)"
  using index_emplace [OF assms(1,3), of p] sorted_mm_emplace [OF assms(2)] map_of_emplace [OF assms(1,3), of p]
  by (auto simp: c'_def lt_deadline_def)

lemma lt_forget_deadline:
  assumes "index_ok (Mapping.lookup (m_keys_timeout_iters c)) (m_timeout_keys c)"
    and "sorted (map node_deadline (m_timeout_keys c))"
  shows "lt_deadline (lt_forget k c) = (lt_deadline c)(k := None)"
  using lt_forget_sim [OF assms, of k] by (auto simp: lt_deadline_def map_of_drop_key)

lemma lt_on_key_evicted_sim:
  fixes evicted :: "'k option"
  assumes "index_ok (Mapping.lookup (m_keys_timeout_iters c)) (m_timeout_keys c)"
    and "sorted (map node_deadline (m_timeout_keys c))"
  defines "c' \<equiv> lt_on_key_evicted evicted c"
  shows "index_ok (Mapping.lookup (m_keys_timeout_iters c')) (m_timeout_keys c') \<and>
      sorted (map node_deadline (m_timeout_keys c')) \<and> lt_deadline c' = (lt_deadline c) |` (- set_option evicted) \<and>
      lt_base c' = lt_base c \<and> lt_TIMEOUT c' = lt_TIMEOUT c \<and> lt_AUTO_UPDATE c' = lt_AUTO_UPDATE c"
proof (cases evicted)
  case None
  then show ?thesis using assms by (simp add: c'_def lt_on_key_evicted_def restrict_map_def)
next
  case (Some e)
  then show ?thesis
    using lt_forget_sim [OF assms(1,2), of e] lt_forget_deadline [OF assms(1,2), of e]
    by (auto simp: c'_def lt_on_key_evicted_def lt_forget_base restrict_map_def)
qed

text \<open>The duration an insertion uses.\<close>

definition chosen_to :: "int \<Rightarrow> bool \<Rightarrow> (int \<times> int) option \<Rightarrow> int" where
  "chosen_to to preserve old =
     (case old of None \<Rightarrow> to | Some (_, t) \<Rightarrow> if preserve \<and> t > to then t else to)"

lemma chosen_to_deref:
  assumes "index_ok (Mapping.lookup (m_keys_timeout_iters c)) (m_timeout_keys c)"
  shows "(case Mapping.lookup (m_keys_timeout_iters c) k of
            None \<Rightarrow> to
          | Some i \<Rightarrow>
              (case ll_deref i (m_timeout_keys c) of
                 None \<Rightarrow> to
               | Some n \<Rightarrow> if preserve \<and> node_to n > to then node_to n else to)) =
         chosen_to to preserve (lt_deadline c k)"
proof (cases "Mapping.lookup (m_keys_timeout_iters c) k")
  case None
  then have "lt_deadline c k = None"
    using index_None_iff [OF assms] by (simp add: lt_deadline_def map_of_eq_None_iff)
  with None show ?thesis by (simp add: chosen_to_def)
next
  case (Some i)
  from index_deref [OF assms Some] obtain p where
    p: "ll_deref i (m_timeout_keys c) = Some (i, k, p)" "lt_deadline c k = Some p" by (auto simp: lt_deadline_def)
  then show ?thesis by (cases p) (simp add: chosen_to_def Some)
qed

lemma lt_insert_with_sim:
  assumes inv: "lt_inv c" and cap: "0 < m_capacity (lt_base c)"
  shows "\<exists>c' inserted. lt_insert_with now_update now k v to preserve c = Some (c', inserted) \<and>
    lt_inv c' \<and> lt_same_setup c c' \<and> lt_stale c' \<subseteq> lt_stale c \<and> lt_lookup c' k = Some v \<and>
    (let t = chosen_to to preserve (lt_deadline (lt_auto_update now_update c) k)
     in lt_deadline c' k = Some (now + t, t))"
proof -
  define c1 where "c1 = lt_auto_update now_update c"
  have c1: "lt_inv c1" "lt_same_setup c c1" "lt_stale c1 \<subseteq> lt_stale c"
    using lt_auto_update_sim [OF inv] by (simp_all add: c1_def)
  note i1 = lt_invD [OF c1(1)]
  define t where "t = chosen_to to preserve (lt_deadline c1 k)"
  define c2 where "c2 = lt_forget k c1"
  note f2 = lt_forget_sim [OF i1(2,3), of k, folded c2_def]
  define c3 where "c3 = c2\<lparr>m_timeout_keys := mm_emplace (ll_fresh (m_timeout_keys c2), k, (now + t, t)) (m_timeout_keys c2),
      m_keys_timeout_iters := Mapping.update k (ll_fresh (m_timeout_keys c2)) (m_keys_timeout_iters c2)\<rparr>"
  have c3: "index_ok (Mapping.lookup (m_keys_timeout_iters c3)) (m_timeout_keys c3)"
    "sorted (map node_deadline (m_timeout_keys c3))" "lt_deadline c3 = (lt_deadline c2)(k \<mapsto> (now + t, t))"
    using lt_emplace_sim [of c2 k "(now + t, t)"] f2 by (auto simp: c3_def)
  have base3: "lt_base c3 = lt_base c1" "lt_TIMEOUT c3 = lt_TIMEOUT c1" "lt_AUTO_UPDATE c3 = lt_AUTO_UPDATE c1"
    by (simp_all add: c3_def c2_def lt_forget_base)
  have d3: "lt_deadline c3 = (lt_deadline c1)(k \<mapsto> (now + t, t))"
    using c3(3) lt_forget_deadline [OF i1(2,3), of k] by (simp add: c2_def)
  have cap1: "0 < m_capacity (lt_base c1)" using cap c1(2) by simp
  from lru.ins_sim [OF i1(1) cap1, of k v] obtain base inserted evicted where
    b: "lru_insert k v (lt_base c1) = Some (base, inserted, evicted)" "lru_inv base"
      "m_capacity base = m_capacity (lt_base c1)" by blast
  note keys = lru.ins_keys [OF i1(1) cap1 b(1)]
  define c4 where "c4 = lt_on_key_evicted evicted (c3\<lparr>lt_base := base\<rparr>)"
  have c4: "index_ok (Mapping.lookup (m_keys_timeout_iters c4)) (m_timeout_keys c4) \<and>
      sorted (map node_deadline (m_timeout_keys c4)) \<and> lt_deadline c4 = (lt_deadline c3) |` (- set_option evicted) \<and>
      lt_base c4 = base \<and> lt_TIMEOUT c4 = lt_TIMEOUT c3 \<and> lt_AUTO_UPDATE c4 = lt_AUTO_UPDATE c3"
    using lt_on_key_evicted_sim [of "c3\<lparr>lt_base := base\<rparr>" evicted] c3(1,2) by (simp add: c4_def lt_deadline_base)
  have timed: "lt_timed c4 = insert k (lt_timed c1) - set_option evicted"
    unfolding lt_timed_dom using c4 d3 by (simp only: dom_restrict dom_fun_upd option.distinct if_False Diff_eq)
  have "lru.keys (lt_base c4) \<subseteq> lt_timed c4"
    using keys timed i1(4) c4 by auto
  then have inv4: "lt_inv c4" using c4 b unfolding lt_inv_def by blast
  have stale: "lt_stale c4 \<subseteq> lt_stale c1"
    unfolding lt_stale_def timed using keys c4 by auto
  have res: "lt_insert_with now_update now k v to preserve c = Some (c4, inserted)"
    unfolding lt_insert_with_def c1_def [symmetric] Let_def chosen_to_deref [OF i1(2)]
    unfolding t_def [symmetric] c2_def [symmetric] c3_def [symmetric]
    by (simp add: base3 b(1) c4_def)
  have "lt_lookup c4 k = Some v" using lru.ins_lookup [OF i1(1) cap1 b(1)] c4 by (simp add: lt_lookup_def)
  moreover have "lt_deadline c4 k = Some (now + t, t)" using keys c4 d3 by (simp add: restrict_map_def)
  moreover have "lt_same_setup c c4" using c4 base3 c1(2) b(3) by simp
  ultimately show ?thesis using res inv4 stale c1(3) unfolding c1_def [symmetric] t_def [symmetric] Let_def by blast
qed

text \<open>Moving the deadline of a key: the new node goes in before the old one is erased.\<close>

lemma lt_move_deadline:
  fixes p :: "int \<times> int"
  assumes ix: "index_ok m xs" and sorted: "sorted (map node_deadline xs)" and k: "m k = Some i"
  defines "xs' \<equiv> ll_erase i (mm_emplace (ll_fresh xs, k, p) xs)"
  shows "index_ok (m(k \<mapsto> ll_fresh xs)) xs'" and "sorted (map node_deadline xs')"
    and "map_of (entries xs') = (map_of (entries xs))(k \<mapsto> p)"
proof -
  have i: "i \<noteq> ll_fresh xs" using ll_fresh_new [of xs] k index_Some_iff [OF ix] by (force simp: image_iff)
  have "mset (ll_erase i (mm_emplace (ll_fresh xs, k, p) xs)) = mset (ll_erase i ((ll_fresh xs, k, p) # xs))"
    unfolding ll_erase_def by (simp only: mset_filter mset_mm_emplace)
  then have ms: "mset xs' = mset ((ll_fresh xs, k, p) # ll_erase i xs)"
    using i by (simp add: xs'_def ll_erase_def)
  have new: "ll_fresh xs \<notin> node_id ` set (ll_erase i xs)" using ll_fresh_new [of xs] by (auto simp: ll_erase_def)
  have ixe: "index_ok (m(k := None)) (ll_erase i xs)" by (rule index_erase [OF ix k])
  have "k \<notin> fst ` set (entries (ll_erase i xs))" using index_None_iff [OF ixe, of k] by simp
  have cons: "index_ok (m(k \<mapsto> ll_fresh xs)) ((ll_fresh xs, k, p) # ll_erase i xs)"
  proof -
    have "m(k \<mapsto> ll_fresh xs) = (m(k := None))(k \<mapsto> ll_fresh xs)" by simp
    also have "m(k := None) = map_of (map (\<lambda>n. (node_key n, node_id n)) (ll_erase i xs))"
      using ixe by (simp add: index_ok_def)
    finally have m: "m(k \<mapsto> ll_fresh xs) = (map_of (map (\<lambda>n. (node_key n, node_id n)) (ll_erase i xs)))(k \<mapsto> ll_fresh xs)" .
    show ?thesis
      unfolding m using ixe new \<open>k \<notin> fst ` set (entries (ll_erase i xs))\<close> by (simp add: index_ok_def image_image)
  qed
  then show ixx: "index_ok (m(k \<mapsto> ll_fresh xs)) xs'" using ms by (rule index_reorder)
  show "sorted (map node_deadline xs')"
    unfolding xs'_def by (intro sorted_filter_deadline sorted_mm_emplace sorted)
  have "map_of (entries xs') = map_of (entries ((ll_fresh xs, k, p) # ll_erase i xs))"
    using index_distinct [OF ixx] index_distinct [OF cons] mset_eq_setD [OF ms]
    by (subst map_of_inject_set) auto
  also have "\<dots> = (map_of (entries xs))(k \<mapsto> p)"
    using entries_erase [OF ix k] by (simp add: map_of_drop_key)
  finally show "map_of (entries xs') = (map_of (entries xs))(k \<mapsto> p)" .
qed

lemma lt_get_sim:
  fixes now_update :: int
  assumes inv: "lt_inv c"
  defines "c1 \<equiv> lt_auto_update now_update c"
  shows "\<exists>c'. lt_get now_update now k c = Some (c', if lt_lookup c1 k = None then None else Some k) \<and>
    lt_inv c' \<and> lt_same_setup c c' \<and> lt_stale c' \<subseteq> lt_stale c \<and> lt_lookup c' = lt_lookup c1 \<and>
    lt_deadline c' = (if lt_lookup c1 k = None then lt_deadline c1
      else (lt_deadline c1)(k := map_option (\<lambda>(d, t). (now + t, t)) (lt_deadline c1 k)))"
proof -
  have c1: "lt_inv c1" "lt_same_setup c c1" "lt_stale c1 \<subseteq> lt_stale c"
    using lt_auto_update_sim [OF inv] by (simp_all add: c1_def)
  note i1 = lt_invD [OF c1(1)]
  from lru.look_sim [OF i1(1), of k] obtain base where b: "lru_inv base" "m_capacity base = m_capacity (lt_base c1)"
    "lru_get k (lt_base c1) = (base, if k \<in> lru.keys (lt_base c1) then Some k else None)" by blast
  define c2 where "c2 = c1\<lparr>lt_base := base\<rparr>"
  have look2: "lt_lookup c2 = lt_lookup c1"
    using lru.look_lookup [OF i1(1) b(3)] by (auto simp: lt_lookup_def c2_def)
  have keys2: "lru.keys base = lru.keys (lt_base c1)" by (rule lru.look_keys [OF i1(1) b(3)])
  have inv2: "lt_inv c2" unfolding lt_inv_def using b i1 keys2 by (simp add: c2_def)
  have dl2: "lt_deadline c2 = lt_deadline c1" by (simp add: c2_def lt_deadline_base)
  have stale2: "lt_stale c2 = lt_stale c1" unfolding lt_stale_def using keys2 by (simp add: c2_def)
  have present: "k \<in> lru.keys (lt_base c1) \<longleftrightarrow> lt_lookup c1 k \<noteq> None"
    unfolding lt_lookup_def by (simp only: map_of_eq_None_iff) simp
  show ?thesis
  proof (cases "lt_lookup c1 k = None")
    case True
    then have "lt_get now_update now k c = Some (c2, None)"
      using b(3) present by (simp add: lt_get_def c1_def [symmetric] c2_def Let_def)
    then show ?thesis using True inv2 look2 dl2 stale2 c1 b(2) by (simp add: c2_def)
  next
    case False
    note i2 = lt_invD [OF inv2]
    let ?xs = "m_timeout_keys c2" and ?m = "Mapping.lookup (m_keys_timeout_iters c2)"
    have "k \<in> lt_timed c1" using False present i1(4) by blast
    then have "k \<in> lt_timed c2" by (simp add: c2_def)
    then obtain i where i: "?m k = Some i" using index_None_iff [OF i2(2), of k] by auto
    from index_deref [OF i2(2) i] obtain d t where
      n: "ll_deref i ?xs = Some (i, k, (d, t))" "lt_deadline c2 k = Some (d, t)" by (auto simp: lt_deadline_def)
    let ?j = "ll_fresh ?xs"
    let ?c' = "c2\<lparr>m_timeout_keys := ll_erase i (mm_emplace (?j, k, (now + t, t)) ?xs),
      m_keys_timeout_iters := Mapping.update k ?j (m_keys_timeout_iters c2)\<rparr>"
    have res: "lt_get now_update now k c = Some (?c', Some k)"
      using b(3) present False i n(1) by (simp add: lt_get_def c1_def [symmetric] c2_def Let_def)
    note mv = lt_move_deadline [OF i2(2,3) i, of "(now + t, t)"]
    have "lt_deadline ?c' = (lt_deadline c2)(k \<mapsto> (now + t, t))" using mv(3) by (auto simp: lt_deadline_def)
    moreover from this have "lt_timed ?c' = lt_timed c2" unfolding lt_timed_dom using n(2) by auto
    moreover from this have "lt_inv ?c'" unfolding lt_inv_def using mv i2 by simp
    moreover have "lt_stale ?c' = lt_stale c2" unfolding lt_stale_def using calculation(2) by simp
    moreover have "lt_lookup ?c' = lt_lookup c2" by (auto simp: lt_lookup_def)
    moreover have "lt_same_setup c ?c'" using c1(2) b(2) by (simp add: c2_def)
    ultimately show ?thesis using res False look2 dl2 n(2) stale2 c1(3) by auto
  qed
qed

lemma lt_erase_sim:
  assumes inv: "lt_inv c"
  shows "lt_inv (lt_erase now_update k c) \<and> lt_same_setup c (lt_erase now_update k c) \<and>
    lt_stale (lt_erase now_update k c) \<subseteq> lt_stale c \<and>
    lt_lookup (lt_erase now_update k c) k = None \<and> lt_deadline (lt_erase now_update k c) k = None"
proof -
  define c1 where "c1 = lt_auto_update now_update c"
  have c1: "lt_inv c1" "lt_same_setup c c1" "lt_stale c1 \<subseteq> lt_stale c"
    using lt_auto_update_sim [OF inv] by (simp_all add: c1_def)
  note i1 = lt_invD [OF c1(1)]
  define c' where "c' = lt_erase now_update k c"
  have c': "c' = (lt_forget k c1)\<lparr>lt_base := lru_erase k (lt_base c1)\<rparr>"
    by (simp add: c'_def lt_erase_def c1_def Let_def lt_forget_base)
  note f = lt_forget_sim [OF i1(2,3), of k]
  have dl: "lt_deadline c' = (lt_deadline c1)(k := None)"
    using lt_forget_deadline [OF i1(2,3), of k] by (simp add: c' lt_deadline_base)
  have timed: "lt_timed c' = lt_timed c1 - {k}" unfolding lt_timed_dom using dl by simp
  have keys: "lru.keys (lt_base c') = lru.keys (lt_base c1) - {k}"
    using lru.rem_keys [OF i1(1), of k] by (simp add: c')
  have "lru.keys (lt_base c') \<subseteq> lt_timed c'" unfolding keys timed using i1(4) by blast
  moreover have "lru_inv (lt_base c')" using lru.rem_inv [OF i1(1)] by (simp add: c')
  moreover have "index_ok (Mapping.lookup (m_keys_timeout_iters c')) (m_timeout_keys c')"
    "sorted (map node_deadline (m_timeout_keys c'))" using f by (simp_all add: c')
  ultimately have "lt_inv c'" unfolding lt_inv_def by blast
  moreover have "lt_stale c' \<subseteq> lt_stale c1" unfolding lt_stale_def keys timed by blast
  moreover have "lt_lookup c' k = None" using lru.rem_lookup [OF i1(1), of k] by (simp add: lt_lookup_def c')
  moreover have "lt_same_setup c c'" using c1(2) lru_erase_sim [OF i1(1), of k] by (simp add: c' lt_forget_base)
  ultimately show ?thesis using c1(3) dl unfolding c'_def [symmetric] by auto
qed

lemma lt_clear_sim:
  "lt_inv c \<Longrightarrow> lt_inv (lt_clear c) \<and> lt_same_setup c (lt_clear c) \<and> lt_stale (lt_clear c) = {}"
  using lru_clear_sim [of "lt_base c"] by (simp add: lt_clear_def lt_inv_def lt_stale_def index_ok_Nil)

lemma lt_set_capacity_sim:
  assumes inv: "lt_inv c"
  shows "\<exists>c'. lt_set_capacity n c = Some c' \<and> lt_inv c'"
proof -
  note i = lt_invD [OF inv]
  from lru_set_capacity_sim [OF i(1), of n] obtain base where
    b: "lru_set_capacity n (lt_base c) = Some base" "lru_inv base" "lru_contents base = take n (lru_contents (lt_base c))"
    by blast
  have "lru.keys base \<subseteq> lru.keys (lt_base c)" unfolding b(3) by (intro image_mono set_take_subset)
  then have "lt_inv (c\<lparr>lt_base := base\<rparr>)" unfolding lt_inv_def using b(2) i by auto
  then show ?thesis using b(1) by (simp add: lt_set_capacity_def)
qed

subsection \<open>Reachable states\<close>

text \<open>
  The states of a cache of capacity \<open>n\<close> under any calls, with any clock readings.  The flag records
  whether the inherited \<^verbatim>\<open>set_capacity\<close> was called.
\<close>

inductive lt_reachable :: "nat \<Rightarrow> int \<Rightarrow> bool \<Rightarrow> bool \<Rightarrow> ('k, 'v) lru_timeout_cache \<Rightarrow> bool"
  for n :: nat and to :: int and up :: bool where
  init: "lt_new n to up = Some c \<Longrightarrow> lt_reachable n to up False c"
| insert: "lt_reachable n to up resized c \<Longrightarrow> lt_insert t1 t2 k v c = Some (c', inserted) \<Longrightarrow>
    lt_reachable n to up resized c'"
| insert_with: "lt_reachable n to up resized c \<Longrightarrow>
    lt_insert_with t1 t2 k v d preserve c = Some (c', inserted) \<Longrightarrow> lt_reachable n to up resized c'"
| get: "lt_reachable n to up resized c \<Longrightarrow> lt_get t1 t2 k c = Some (c', acc) \<Longrightarrow>
    lt_reachable n to up resized c'"
| erase: "lt_reachable n to up resized c \<Longrightarrow> lt_reachable n to up resized (lt_erase t1 k c)"
| clear: "lt_reachable n to up resized c \<Longrightarrow> lt_reachable n to up resized (lt_clear c)"
| update: "lt_reachable n to up resized c \<Longrightarrow> lt_reachable n to up resized (lt_update t1 c)"
| set_capacity: "lt_reachable n to up resized c \<Longrightarrow> lt_set_capacity m c = Some c' \<Longrightarrow>
    lt_reachable n to up True c'"

lemma lt_insert_no_capacity:
  assumes "lt_inv c" "m_capacity (lt_base c) = 0"
  shows "lt_insert_with t1 t2 k v d preserve c = None"
proof -
  have c1: "lt_inv (lt_auto_update t1 c)" "m_capacity (lt_base (lt_auto_update t1 c)) = 0"
    using lt_auto_update_sim [OF assms(1), of t1] assms(2) by simp_all
  then show ?thesis
    using lru_inv_zero [OF lt_invD(1) [OF c1(1)] c1(2)] by (simp add: lt_insert_with_def Let_def lt_forget_base)
qed

lemma lt_insert_with_keeps:
  assumes "lt_inv c" and "lt_insert_with t1 t2 k v d preserve c = Some (c', inserted)"
  shows "lt_inv c' \<and> lt_stale c' \<subseteq> lt_stale c"
proof (cases "m_capacity (lt_base c) = 0")
  case True
  then show ?thesis using lt_insert_no_capacity [OF assms(1)] assms(2) by simp
next
  case False
  then show ?thesis using lt_insert_with_sim [OF assms(1), of t1 t2 k v d preserve] assms(2) by auto
qed

lemma lt_reachable_inv: "lt_reachable n to up resized c \<Longrightarrow> lt_inv c \<and> (\<not> resized \<longrightarrow> lt_stale c = {})"
proof (induction rule: lt_reachable.induct)
  case (init c)
  from lru_new_sim [of n] obtain base :: "('a, 'b) lru_cache" where
    "lru_new n = Some base" "lru_inv base" "lru_contents base = []" by blast
  with init show ?case by (auto simp: lt_new_def lt_inv_def lt_stale_def index_ok_Nil)
next
  case (insert resized c t1 t2 k v c' inserted)
  then show ?case using lt_insert_with_keeps [of c t1 t2 k v "lt_TIMEOUT c" False c' inserted]
    by (auto simp: lt_insert_def)
next
  case (insert_with resized c t1 t2 k v d preserve c' inserted)
  then show ?case using lt_insert_with_keeps [of c t1 t2 k v d preserve c' inserted] by auto
next
  case (get resized c t1 t2 k c' acc)
  then show ?case using lt_get_sim [of c t1 t2 k] by auto
next
  case (erase resized c t1 k)
  then show ?case using lt_erase_sim [of c t1 k] by auto
next
  case (clear resized c)
  then show ?case using lt_clear_sim [of c] by auto
next
  case (update resized c t1)
  then show ?case using lt_update_sim [of c t1] by auto
next
  case (set_capacity resized c m c')
  then show ?case using lt_set_capacity_sim [of c m] by auto
qed

definition lt_sample :: "(nat, string) lru_timeout_cache" where
  "lt_sample = fst (the (lt_insert 0 0 1 ''a'' (the (lt_new 2 10 True))))"

lemma lt_sample_reachable: "lt_reachable 2 10 True False lt_sample"
proof -
  let ?c0 = "the (lt_new 2 10 True) :: (nat, string) lru_timeout_cache"
  have "\<not> Option.is_none (lt_new 2 10 True :: (nat, string) lru_timeout_cache option)" by code_simp
  then have "lt_reachable 2 10 True False ?c0" by (intro lt_reachable.init) (auto simp: Option.is_none_def)
  moreover have "\<not> Option.is_none (lt_insert 0 0 1 ''a'' ?c0)" by code_simp
  then have "lt_insert 0 0 1 ''a'' ?c0 = Some (lt_sample, snd (the (lt_insert 0 0 1 ''a'' ?c0)))"
    by (auto simp: Option.is_none_def lt_sample_def)
  ultimately show ?thesis by (rule lt_reachable.insert)
qed

section \<open>LruTimeoutCache: correctness\<close>

text \<open>C25: in every reachable state of an LRU cache with timeouts the deadlines are sorted and cover every
  cached key, so that no lookup can fail the assertion on a missing deadline; and as long as the
  capacity was not changed no deadline is left behind for a key that is gone.\<close>

theorem lt_reachable_correct:
  assumes "lt_reachable n to up resized c"
  shows "sorted (map node_deadline (m_timeout_keys c)) \<and>
    lru_size (lt_base c) \<le> lru_max_size (lt_base c) \<and>
    lru.keys (lt_base c) \<subseteq> Mapping.keys (m_keys_timeout_iters c) \<and>
    lt_get t1 t2 k c \<noteq> None \<and>
    (if resized then True else Mapping.keys (m_keys_timeout_iters c) = lru.keys (lt_base c))"
proof -
  have inv: "lt_inv c" and clean: "\<not> resized \<Longrightarrow> lt_stale c = {}" using lt_reachable_inv [OF assms] by simp_all
  note i = lt_invD [OF inv]
  have timed: "lt_timed c = Mapping.keys (m_keys_timeout_iters c)"
    using index_dom [OF i(2)] by (simp add: keys_dom_lookup)
  have "lru_size (lt_base c) \<le> lru_max_size (lt_base c)"
    using lru_size_sim [OF i(1)] lru.inv_bounded [OF i(1)] by (simp add: lru_max_size_def)
  moreover have "lt_get t1 t2 k c \<noteq> None" using lt_get_sim [OF inv, of t1 t2 k] by auto
  ultimately show ?thesis using i(3,4) clean timed unfolding lt_stale_def by auto
qed

theorem lt_reachable_correct_witness:
  "lt_reachable 2 10 True False lt_sample \<and> lt_get 5 5 1 lt_sample \<noteq> None \<and>
   Mapping.keys (m_keys_timeout_iters lt_sample) = lru.keys (lt_base lt_sample)"
  using lt_reachable_correct [OF lt_sample_reachable, of 5 5 1] lt_sample_reachable by simp

text \<open>Also: a lookup in a self-updating LRU cache with timeouts answers the stored value exactly when the deadline
  of the key has not passed, and then moves the deadline by the entry's own duration; other
  values stay as the expiry leaves them.\<close>

theorem lt_get_correct:
  assumes "lt_inv c" and "lt_AUTO_UPDATE c"
  shows "\<exists>c' acc. lt_get now_update now k c = Some (c', acc) \<and> lt_inv c' \<and>
    (case lt_deadline c k of
       None \<Rightarrow> acc = None
     | Some (d, to) \<Rightarrow>
         if d < now_update \<or> lt_lookup c k = None then lru_deref (lt_base c') acc = None
         else lru_deref (lt_base c') acc = lt_lookup c k \<and> lt_deadline c' k = Some (now + to, to))"
proof -
  let ?c1 = "lt_auto_update now_update c"
  have c1: "?c1 = lt_update now_update c" using assms(2) by (simp add: lt_auto_update_def)
  note up = lt_update_sim [OF assms(1), of now_update, folded c1]
  from lt_get_sim [OF assms(1), of now_update now k] obtain c' where
    g: "lt_get now_update now k c = Some (c', if lt_lookup ?c1 k = None then None else Some k)" "lt_inv c'"
      "lt_lookup c' = lt_lookup ?c1"
      "lt_deadline c' = (if lt_lookup ?c1 k = None then lt_deadline ?c1
        else (lt_deadline ?c1)(k := map_option (\<lambda>(d, t). (now + t, t)) (lt_deadline ?c1 k)))" by blast
  have deref: "lru_deref (lt_base c') (Some k) = lt_lookup ?c1 k"
    using lru_deref_sim [OF lt_invD(1) [OF g(2)]] g(3) by (metis lt_lookup_def)
  have none: "lru_deref (lt_base c') None = None" by (simp add: lru_deref_def)
  show ?thesis using g deref none up by (auto split: option.splits)
qed

theorem lt_get_correct_witness:
  "lt_inv lt_sample \<and> lt_AUTO_UPDATE lt_sample \<and>
   (\<exists>c' acc. lt_get 7 8 1 lt_sample = Some (c', acc) \<and> lru_deref (lt_base c') acc = Some ''a'' \<and>
     lt_deadline c' 1 = Some (18, 10))"
proof -
  have inv: "lt_inv lt_sample" using lt_reachable_inv [OF lt_sample_reachable] by simp
  have up: "lt_AUTO_UPDATE lt_sample" by code_simp
  have "lt_deadline lt_sample 1 = Some (10, 10)" "lt_lookup lt_sample 1 = Some ''a''" by code_simp+
  then show ?thesis using lt_get_correct [OF inv up, of 7 8 1] inv up by auto
qed

section \<open>TimeoutCache: refinement\<close>

definition tc_inv :: "('k, 'v) timeout_cache \<Rightarrow> bool" where
  "tc_inv c \<longleftrightarrow> index_ok (Mapping.lookup (m_entry_iter_by_key c)) (m_entries c) \<and>
     (tc_CAPACITY c = 0 \<or> length (m_entries c) \<le> tc_CAPACITY c)"

abbreviation tc_contents :: "('k, 'v) timeout_cache \<Rightarrow> ('k \<times> 'v \<times> int) list" where
  "tc_contents c \<equiv> entries (m_entries c)"

text \<open>The plain list of entries, newest first.\<close>

definition ttl_insert :: "nat \<Rightarrow> int \<Rightarrow> 'k \<Rightarrow> 'v \<Rightarrow> ('k \<times> 'v \<times> int) list \<Rightarrow> ('k \<times> 'v \<times> int) list" where
  "ttl_insert cap expires k v kvs =
     (k, v, expires) # drop_key k (if cap \<noteq> 0 \<and> length kvs = cap then butlast kvs else kvs)"

definition ttl_get :: "int \<Rightarrow> 'k \<Rightarrow> ('k \<times> 'v \<times> int) list \<Rightarrow> ('k \<times> 'v \<times> int) list \<times> 'v option" where
  "ttl_get now k kvs =
     (case map_of kvs k of
        None \<Rightarrow> (kvs, None)
      | Some (v, expires) \<Rightarrow> if expires \<le> now then (drop_key k kvs, None) else (kvs, Some v))"

lemma tc_make_room_sim:
  assumes inv: "tc_inv c"
  defines "c' \<equiv> tc_make_room c"
  shows "index_ok (Mapping.lookup (m_entry_iter_by_key c')) (m_entries c') \<and>
    tc_contents c' = (if tc_CAPACITY c \<noteq> 0 \<and> length (tc_contents c) = tc_CAPACITY c
      then butlast (tc_contents c) else tc_contents c) \<and>
    (tc_CAPACITY c = 0 \<or> length (m_entries c') < tc_CAPACITY c) \<and>
    tc_CAPACITY c' = tc_CAPACITY c \<and> tc_TIMEOUT c' = tc_TIMEOUT c"
proof -
  have ix: "index_ok (Mapping.lookup (m_entry_iter_by_key c)) (m_entries c)" using inv by (simp add: tc_inv_def)
  note size = index_size [OF ix]
  show ?thesis
  proof (cases "tc_CAPACITY c \<noteq> 0 \<and> length (m_entries c) = tc_CAPACITY c")
    case True
    then obtain ys n where xs: "m_entries c = ys @ [n]" by (metis length_0_conv rev_exhaust)
    have "index_ok ((Mapping.lookup (m_entry_iter_by_key c))(node_key n := None)) ys"
      using index_pop_back ix xs by metis
    moreover have "length ys < tc_CAPACITY c" using True xs by simp
    ultimately show ?thesis using True xs size by (simp add: c'_def tc_make_room_def map_butlast [symmetric])
  next
    case False
    then show ?thesis using inv size by (auto simp: c'_def tc_make_room_def tc_inv_def)
  qed
qed

lemma drop_key_map: "drop_key k (map (\<lambda>kv. if fst kv = k then (k, p) else kv) kvs) = drop_key k kvs"
  by (induction kvs) (auto simp: drop_key_def)

lemma tc_insert_sim:
  assumes inv: "tc_inv c"
  shows "tc_inv (tc_insert now k v c) \<and> tc_CAPACITY (tc_insert now k v c) = tc_CAPACITY c \<and>
    tc_TIMEOUT (tc_insert now k v c) = tc_TIMEOUT c \<and>
    tc_contents (tc_insert now k v c) = ttl_insert (tc_CAPACITY c) (now + tc_TIMEOUT c) k v (tc_contents c)"
proof -
  define r where "r = tc_make_room c"
  note room = tc_make_room_sim [OF inv, folded r_def]
  let ?m = "Mapping.lookup (m_entry_iter_by_key r)" and ?p = "(v, now + tc_TIMEOUT c)"
  have ix: "index_ok ?m (m_entries r)" using room by blast
  show ?thesis
  proof (cases "?m k")
    case None
    then have "drop_key k (tc_contents r) = tc_contents r"
      using index_None_iff [OF ix, of k] by (intro drop_key_absent) simp
    then show ?thesis
      using None room index_push [OF ix None, of ?p]
      by (auto simp: tc_insert_def r_def [symmetric] Let_def tc_inv_def ttl_insert_def)
  next
    case (Some i)
    let ?ys = "ll_assign i ?p (m_entries r)"
    have iy: "index_ok ?m ?ys" by (rule index_assign [OF ix])
    have ent: "entries ?ys = map (\<lambda>kv. if fst kv = k then (k, ?p) else kv) (tc_contents r)"
      by (rule entries_assign [OF ix Some])
    have drop: "drop_key k (entries ?ys) = drop_key k (tc_contents r)"
      unfolding ent by (rule drop_key_map)
    have "map_of (map (\<lambda>kv. if fst kv = k then (k, ?p) else kv) kvs) k = Some ?p" if "k \<in> fst ` set kvs" for kvs
      using that by (induction kvs) auto
    moreover have "k \<in> fst ` set (tc_contents r)" using index_None_iff [OF ix, of k] Some by auto
    ultimately have "map_of (entries ?ys) k = Some ?p" unfolding ent by blast
    then have "entries (ll_splice_front i ?ys) = (k, ?p) # drop_key k (tc_contents r)"
      using entries_splice(1) [OF iy Some] drop by simp
    moreover have "length (ll_splice_front i ?ys) = length (m_entries r)"
      using arg_cong [OF mset_splice(1) [of i ?ys], of size] by (simp add: ll_assign_def)
    ultimately show ?thesis
      using Some room index_splice(1) [OF iy, of i]
      by (auto simp: tc_insert_def r_def [symmetric] Let_def tc_inv_def ttl_insert_def)
  qed
qed

lemma tc_erase_sim:
  assumes "tc_inv c"
  shows "tc_inv (tc_erase k c)" "tc_contents (tc_erase k c) = drop_key k (tc_contents c)"
    "tc_CAPACITY (tc_erase k c) = tc_CAPACITY c" "tc_TIMEOUT (tc_erase k c) = tc_TIMEOUT c"
proof -
  have ix: "index_ok (Mapping.lookup (m_entry_iter_by_key c)) (m_entries c)" using assms by (simp add: tc_inv_def)
  have "tc_inv (tc_erase k c) \<and> tc_contents (tc_erase k c) = drop_key k (tc_contents c) \<and>
    tc_CAPACITY (tc_erase k c) = tc_CAPACITY c \<and> tc_TIMEOUT (tc_erase k c) = tc_TIMEOUT c"
  proof (cases "Mapping.lookup (m_entry_iter_by_key c) k")
    case None
    then have "drop_key k (tc_contents c) = tc_contents c"
      using index_None_iff [OF ix, of k] by (intro drop_key_absent) simp
    with None assms show ?thesis by (simp add: tc_erase_def)
  next
    case (Some i)
    have "length (ll_erase i (m_entries c)) \<le> length (m_entries c)" by (simp add: ll_erase_def)
    then show ?thesis
      using Some assms index_erase [OF ix Some] entries_erase [OF ix Some] by (auto simp: tc_erase_def tc_inv_def)
  qed
  then show "tc_inv (tc_erase k c)" "tc_contents (tc_erase k c) = drop_key k (tc_contents c)"
    "tc_CAPACITY (tc_erase k c) = tc_CAPACITY c" "tc_TIMEOUT (tc_erase k c) = tc_TIMEOUT c" by simp_all
qed

interpretation tc: keyed_store tc_inv tc_contents tc_erase
proof unfold_locales
  show "distinct (map fst (tc_contents c))" if "tc_inv c" for c :: "('a, 'b) timeout_cache"
    using index_distinct that unfolding tc_inv_def by blast
qed (fact tc_erase_sim)+

lemma tc_get_sim:
  assumes inv: "tc_inv c"
  shows "(\<lambda>(c', a). (tc_contents c', a)) (tc_get now k c) = ttl_get now k (tc_contents c)"
    and "tc_get now k c = (c', a) \<Longrightarrow> tc_inv c' \<and> tc_CAPACITY c' = tc_CAPACITY c \<and> tc_TIMEOUT c' = tc_TIMEOUT c"
proof -
  have ix: "index_ok (Mapping.lookup (m_entry_iter_by_key c)) (m_entries c)" using inv by (simp add: tc_inv_def)
  have "(\<lambda>(c', a). (tc_contents c', a)) (tc_get now k c) = ttl_get now k (tc_contents c) \<and>
    (\<forall>c' a. tc_get now k c = (c', a) \<longrightarrow> tc_inv c' \<and> tc_CAPACITY c' = tc_CAPACITY c \<and> tc_TIMEOUT c' = tc_TIMEOUT c)"
  proof (cases "Mapping.lookup (m_entry_iter_by_key c) k")
    case None
    then have "map_of (tc_contents c) k = None" using index_None_iff [OF ix, of k] by (simp add: map_of_eq_None_iff)
    with None inv show ?thesis by (simp add: tc_get_def ttl_get_def)
  next
    case (Some i)
    from index_deref [OF ix Some] obtain v e where
      n: "ll_deref i (m_entries c) = Some (i, k, (v, e))" "map_of (tc_contents c) k = Some (v, e)" by auto
    have "tc_get now k c = (if e \<le> now then (tc_erase k c, None) else (c, Some v))"
      using Some n by (simp add: tc_get_def tc_erase_def)
    then show ?thesis using n(2) tc_erase_sim [OF inv, of k] inv by (simp add: ttl_get_def)
  qed
  then show "(\<lambda>(c', a). (tc_contents c', a)) (tc_get now k c) = ttl_get now k (tc_contents c)"
    and "tc_get now k c = (c', a) \<Longrightarrow> tc_inv c' \<and> tc_CAPACITY c' = tc_CAPACITY c \<and> tc_TIMEOUT c' = tc_TIMEOUT c"
    by blast+
qed

subsection \<open>Programs over the cache\<close>

datatype ('k, 'v) tc_op = Tc_insert int 'k 'v | Tc_get int 'k | Tc_erase 'k | Tc_clear | Tc_size

fun tc_call :: "('k, 'v) tc_op \<Rightarrow> ('k, 'v) timeout_cache \<Rightarrow> (('k, 'v) timeout_cache \<times> 'v lru_answer) option" where
  "tc_call (Tc_insert now k v) c = Some (tc_insert now k v c, Ans_done)"
| "tc_call (Tc_get now k) c = (let (c', a) = tc_get now k c in Some (c', Ans_value a))"
| "tc_call (Tc_erase k) c = Some (tc_erase k c, Ans_done)"
| "tc_call Tc_clear c = Some (tc_clear c, Ans_done)"
| "tc_call Tc_size c = Some (c, Ans_size (if tc_empty c then 0 else tc_size c))"

fun ttl_call :: "nat \<Rightarrow> int \<Rightarrow> ('k, 'v) tc_op \<Rightarrow> ('k \<times> 'v \<times> int) list \<Rightarrow> (('k \<times> 'v \<times> int) list \<times> 'v lru_answer) option" where
  "ttl_call cap timeout (Tc_insert now k v) kvs = Some (ttl_insert cap (now + timeout) k v kvs, Ans_done)"
| "ttl_call cap timeout (Tc_get now k) kvs = (let (kvs', a) = ttl_get now k kvs in Some (kvs', Ans_value a))"
| "ttl_call cap timeout (Tc_erase k) kvs = Some (drop_key k kvs, Ans_done)"
| "ttl_call cap timeout Tc_clear kvs = Some ([], Ans_done)"
| "ttl_call cap timeout Tc_size kvs = Some (kvs, Ans_size (length kvs))"

lemma tc_call_sim:
  assumes inv: "tc_inv c"
  shows "\<exists>c' a. tc_call op c = Some (c', a) \<and> tc_inv c' \<and> tc_CAPACITY c' = tc_CAPACITY c \<and> tc_TIMEOUT c' = tc_TIMEOUT c \<and>
    ttl_call (tc_CAPACITY c) (tc_TIMEOUT c) op (tc_contents c) = Some (tc_contents c', a)"
proof (cases op)
  case (Tc_insert now k v)
  then show ?thesis using tc_insert_sim [OF inv, of now k v] by simp
next
  case (Tc_get now k)
  obtain c' a where g: "tc_get now k c = (c', a)" by fastforce
  then have "ttl_get now k (tc_contents c) = (tc_contents c', a)" using tc_get_sim(1) [OF inv, of now k] by simp
  with g show ?thesis using Tc_get tc_get_sim(2) [OF inv g] by simp
next
  case (Tc_erase k)
  then show ?thesis using tc_erase_sim [OF inv, of k] by simp
next
  case Tc_clear
  then show ?thesis by (simp add: tc_clear_def tc_inv_def index_ok_Nil)
next
  case Tc_size
  then show ?thesis using inv by (simp add: tc_size_def tc_empty_def)
qed

lemma tc_run_sim:
  assumes "tc_inv c"
  shows "\<exists>c' as. run_calls tc_call ops c = Some (c', as) \<and> tc_inv c' \<and> tc_CAPACITY c' = tc_CAPACITY c \<and>
    run_calls (ttl_call (tc_CAPACITY c) (tc_TIMEOUT c)) ops (tc_contents c) = Some (tc_contents c', as)"
  using assms
proof (induction ops arbitrary: c)
  case (Cons op ops)
  from tc_call_sim [OF Cons.prems, of op] obtain c1 a where
    c1: "tc_call op c = Some (c1, a)" "tc_inv c1" "tc_CAPACITY c1 = tc_CAPACITY c" "tc_TIMEOUT c1 = tc_TIMEOUT c"
      "ttl_call (tc_CAPACITY c) (tc_TIMEOUT c) op (tc_contents c) = Some (tc_contents c1, a)" by blast
  from Cons.IH [OF c1(2)] obtain c' as where
    "run_calls tc_call ops c1 = Some (c', as)" "tc_inv c'" "tc_CAPACITY c' = tc_CAPACITY c1"
    "run_calls (ttl_call (tc_CAPACITY c1) (tc_TIMEOUT c1)) ops (tc_contents c1) = Some (tc_contents c', as)" by blast
  with c1 show ?case by simp
qed simp

text \<open>C20: a client of a timeout cache cannot tell it from a plain list of entries, newest first, where each
  entry carries its expiry: for every sequence of calls with any clock readings the answers and the
  entries agree, and a bounded cache never holds more entries than its capacity.\<close>

theorem timeout_cache_refines_ttl:
  "\<exists>c answers. run_calls tc_call ops (tc_new timeout cap) = Some (c, answers) \<and>
     run_calls (ttl_call cap timeout) ops [] = Some (tc_contents c, answers) \<and>
     (if cap = 0 then True else tc_size c \<le> cap)"
proof -
  have "tc_inv (tc_new timeout cap :: ('a, 'b) timeout_cache)" by (simp add: tc_new_def tc_inv_def index_ok_Nil)
  from tc_run_sim [OF this, of ops] show ?thesis by (auto simp: tc_new_def tc_inv_def tc_size_def)
qed

end
