(* ===== verification/Base64.thy ===== *)
theory Base64
  imports Prelude
begin

text \<open>
  \<^verbatim>\<open>common/base64.cpp\<close>: encoding into and decoding from both Base64 alphabets.  The encoder writes through
  an iterator into a buffer of the computed size; the decoder indexes a table of 256 entries with
  plain \<^verbatim>\<open>char\<close> values, whose signedness the platform chooses.  Both accesses are checked in the model.
\<close>

unbundle bit_operations_syntax

section \<open>Tables\<close>

definition base64_table_default :: string where
  "base64_table_default = ''ABCDEFGHIJKLMNOPQRSTUVWXYZabcdefghijklmnopqrstuvwxyz0123456789+/''"

definition url_safe_base64_table :: "string \<Rightarrow> string" where
  "url_safe_base64_table xs =
     map (\<lambda>x. if x = CHR ''+'' then CHR ''-'' else if x = CHR ''/'' then CHR ''_'' else x) xs"

definition base64_table :: "bool \<Rightarrow> string" where
  "base64_table url_safe =
     (if url_safe then url_safe_base64_table base64_table_default else base64_table_default)"

definition basis_default :: "u8 list" where
  "basis_default = [
     77, 77, 77, 77, 77, 77, 77, 77, 77, 77, 77, 77, 77, 77, 77, 77,
     77, 77, 77, 77, 77, 77, 77, 77, 77, 77, 77, 77, 77, 77, 77, 77,
     77, 77, 77, 77, 77, 77, 77, 77, 77, 77, 77, 62, 77, 77, 77, 63,
     52, 53, 54, 55, 56, 57, 58, 59, 60, 61, 77, 77, 77, 77, 77, 77,
     77,  0,  1,  2,  3,  4,  5,  6,  7,  8,  9, 10, 11, 12, 13, 14,
     15, 16, 17, 18, 19, 20, 21, 22, 23, 24, 25, 77, 77, 77, 77, 77,
     77, 26, 27, 28, 29, 30, 31, 32, 33, 34, 35, 36, 37, 38, 39, 40,
     41, 42, 43, 44, 45, 46, 47, 48, 49, 50, 51, 77, 77, 77, 77, 77] @ replicate 128 77"

text \<open>The lambda \<^verbatim>\<open>constexpr_swap\<close>, twice: 45 is the hyphen, 43 plus, 95 underscore, 47 slash.\<close>

definition url_safe_basis :: "u8 list \<Rightarrow> u8 list" where
  "url_safe_basis xs =
     (let r = xs[45 := xs ! 43, 43 := xs ! 45]
      in r[95 := r ! 47, 47 := r ! 95])"

definition basis :: "bool \<Rightarrow> u8 list" where
  "basis url_safe = (if url_safe then url_safe_basis basis_default else basis_default)"

section \<open>Encoding\<close>

definition encode_base64_size :: "nat \<Rightarrow> bool \<Rightarrow> nat" where
  "encode_base64_size data_size url_safe =
     (if url_safe then (data_size * 4 + 2) div 3 else (data_size + 2) div 3 * 4)"

definition tab :: "bool \<Rightarrow> u8 \<Rightarrow> char" where
  "tab url_safe i = base64_table url_safe ! unat i"

text \<open>What is written through the output iterator.\<close>

fun encode_to_base64_dest :: "bytes \<Rightarrow> bool \<Rightarrow> string" where
  "encode_to_base64_dest (a # b # c # in_pos) url_safe =
     [tab url_safe (drop_bit 2 a),
      tab url_safe (push_bit 4 (a AND 0x03) OR drop_bit 4 b),
      tab url_safe (push_bit 2 (b AND 0x0f) OR drop_bit 6 c),
      tab url_safe (c AND 0x3f)] @ encode_to_base64_dest in_pos url_safe"
| "encode_to_base64_dest [a] url_safe =
     [tab url_safe (drop_bit 2 a), tab url_safe (push_bit 4 (a AND 0x03))] @
     (if \<not> url_safe then ''='' else []) @ (if \<not> url_safe then ''='' else [])"
| "encode_to_base64_dest [a, b] url_safe =
     [tab url_safe (drop_bit 2 a),
      tab url_safe (push_bit 4 (a AND 0x03) OR drop_bit 4 b),
      tab url_safe (push_bit 2 (b AND 0x0f))] @ (if \<not> url_safe then ''='' else [])"
| "encode_to_base64_dest [] url_safe = []"

text \<open>
  The string is resized first, zero-filled, and then written from its beginning; writing past its end
  is \<^const>\<open>None\<close>.
\<close>

definition encode_to_base64 :: "bytes \<Rightarrow> bool \<Rightarrow> string option" where
  "encode_to_base64 data url_safe =
     (let size = encode_base64_size (length data) url_safe;
          written = encode_to_base64_dest data url_safe
      in if length written \<le> size
         then Some (written @ replicate (size - length written) (CHR 0x00))
         else None)"

section \<open>Decoding\<close>

text \<open>Reading the table at a \<^verbatim>\<open>char\<close>; a negative one converts to an index outside the table.\<close>

definition basis_at :: "bool \<Rightarrow> bool \<Rightarrow> char \<Rightarrow> u8 option" where
  "basis_at char_signed url_safe c =
     (if char_signed \<and> of_char c \<ge> (128 :: nat) then None else Some (basis url_safe ! of_char c))"

text \<open>The first loop: the length before the padding; \<^term>\<open>Some None\<close> is the early return.\<close>

fun base64_scan :: "bool \<Rightarrow> bool \<Rightarrow> string \<Rightarrow> nat option option" where
  "base64_scan char_signed url_safe [] = Some (Some 0)"
| "base64_scan char_signed url_safe (c # cs) =
     (if c = CHR ''='' then Some (Some 0)
      else case basis_at char_signed url_safe c of
        None \<Rightarrow> None
      | Some b \<Rightarrow>
          (if b = 77 then Some None
           else map_option (map_option Suc) (base64_scan char_signed url_safe cs)))"

definition bas :: "bool \<Rightarrow> char \<Rightarrow> u8" where
  "bas url_safe c = basis url_safe ! of_char c"

text \<open>The second loop and the tail, on the characters before the padding.\<close>

fun base64_chunks :: "bool \<Rightarrow> string \<Rightarrow> bytes" where
  "base64_chunks url_safe (s0 # s1 # s2 # s3 # s) =
     (push_bit 2 (bas url_safe s0) OR drop_bit 4 (bas url_safe s1)) #
     (push_bit 4 (bas url_safe s1) OR drop_bit 2 (bas url_safe s2)) #
     (push_bit 6 (bas url_safe s2) OR bas url_safe s3) # base64_chunks url_safe s"
| "base64_chunks url_safe [s0, s1, s2] =
     [push_bit 2 (bas url_safe s0) OR drop_bit 4 (bas url_safe s1),
      push_bit 4 (bas url_safe s1) OR drop_bit 2 (bas url_safe s2)]"
| "base64_chunks url_safe [s0, s1] = [push_bit 2 (bas url_safe s0) OR drop_bit 4 (bas url_safe s1)]"
| "base64_chunks url_safe _ = []"

text \<open>\<^const>\<open>None\<close> is the read outside the table, \<^term>\<open>Some None\<close> the rejected input.\<close>

definition decode_base64 :: "bool \<Rightarrow> string \<Rightarrow> bool \<Rightarrow> bytes option option" where
  "decode_base64 char_signed data url_safe =
     (case base64_scan char_signed url_safe data of
        None \<Rightarrow> None
      | Some None \<Rightarrow> Some None
      | Some (Some len) \<Rightarrow>
          (if len mod 4 = 1 then Some None
           else Some (Some (base64_chunks url_safe (take len data)))))"

section \<open>Correctness\<close>

subsection \<open>Size\<close>

lemma encode_dest_length: "length (encode_to_base64_dest data url_safe) = encode_base64_size (length data) url_safe"
proof (induction data url_safe rule: encode_to_base64_dest.induct)
  case (1 a b c in_pos url_safe)
  have "(length (a # b # c # in_pos) * 4 + 2) div 3 = (length in_pos * 4 + 2) div 3 + 4"
    "(length (a # b # c # in_pos) + 2) div 3 = (length in_pos + 2) div 3 + 1" by simp_all
  with 1 show ?case by (simp add: encode_base64_size_def)
qed (simp_all add: encode_base64_size_def)

lemma encode_to_base64_dest: "encode_to_base64 data url_safe = Some (encode_to_base64_dest data url_safe)"
  by (simp add: encode_to_base64_def encode_dest_length Let_def)

subsection \<open>The tables are inverse\<close>

definition table_entry_ok :: "bool \<Rightarrow> nat \<Rightarrow> bool" where
  "table_entry_ok url_safe i \<longleftrightarrow>
     (let c = base64_table url_safe ! i
      in c \<noteq> CHR ''='' \<and> of_char c < (128 :: nat) \<and> basis url_safe ! of_char c = word_of_nat i)"

lemma table_entries_ok: "list_all (table_entry_ok True) [0..<64] \<and> list_all (table_entry_ok False) [0..<64]"
  by code_simp

lemma tab_ok:
  assumes "i < 64"
  shows "tab url_safe i \<noteq> CHR ''=''" "of_char (tab url_safe i) < (128 :: nat)" "bas url_safe (tab url_safe i) = i"
proof -
  have "unat i < 64" using assms by (simp add: word_less_nat_alt)
  then have "table_entry_ok url_safe (unat i)"
    using table_entries_ok by (cases url_safe) (auto simp: list_all_iff)
  then show "tab url_safe i \<noteq> CHR ''=''" "of_char (tab url_safe i) < (128 :: nat)" "bas url_safe (tab url_safe i) = i"
    by (simp_all add: table_entry_ok_def tab_def bas_def Let_def)
qed

lemma scan_tab:
  assumes "i < 64"
  shows "base64_scan sg url_safe (tab url_safe i # cs) = map_option (map_option Suc) (base64_scan sg url_safe cs)"
proof -
  have "basis_at sg url_safe (tab url_safe i) = Some i"
    using tab_ok [OF assms, of url_safe] by (simp add: basis_at_def bas_def not_le)
  moreover have "i \<noteq> 77" using assms by auto
  ultimately show ?thesis using tab_ok(1) [OF assms, of url_safe] by simp
qed

subsection \<open>Sextets\<close>

lemma u8_eqI:
  fixes a b :: u8
  assumes "bit a 0 = bit b 0" "bit a 1 = bit b 1" "bit a 2 = bit b 2" "bit a 3 = bit b 3"
    "bit a 4 = bit b 4" "bit a 5 = bit b 5" "bit a 6 = bit b 6" "bit a 7 = bit b 7"
  shows "a = b"
proof (rule bit_word_eqI)
  fix n assume "n < LENGTH(8)"
  then have "n = 0 \<or> n = 1 \<or> n = 2 \<or> n = 3 \<or> n = 4 \<or> n = 5 \<or> n = 6 \<or> n = 7" by auto
  with assms show "bit a n = bit b n" by (elim disjE) (simp_all only:)
qed

lemma sextet_bounds:
  fixes a b :: u8
  shows "drop_bit 2 a < 64" "push_bit 4 (a AND 3) OR drop_bit 4 b < 64" "push_bit 2 (a AND 15) OR drop_bit 6 b < 64"
    "a AND 63 < 64" "push_bit 4 (a AND 3) < 64" "push_bit 2 (a AND 15) < 64"
proof -
  have b: "x < 64" if "x = take_bit 6 x" for x :: u8
  proof -
    have "unat (take_bit 6 x) = take_bit 6 (unat x)" by (rule unsigned_take_bit_eq)
    also have "\<dots> < 2 ^ 6" by (rule take_bit_nat_less_exp)
    finally show ?thesis using that by (simp add: word_less_nat_alt)
  qed
  have high: "\<not> bit x 8" "\<not> bit x 9" "\<not> bit x 10" "\<not> bit x 11" "\<not> bit x 12" "\<not> bit x 13" for x :: u8 by (auto dest: bit_imp_le_length)
  show "drop_bit 2 a < 64" by (rule b, rule u8_eqI) (simp_all add: bit_simps high)
  show "push_bit 4 (a AND 3) OR drop_bit 4 b < 64" by (rule b, rule u8_eqI) (simp_all add: bit_simps high)
  show "push_bit 2 (a AND 15) OR drop_bit 6 b < 64" by (rule b, rule u8_eqI) (simp_all add: bit_simps high)
  show "a AND 63 < 64" by (rule b, rule u8_eqI) (simp_all add: bit_simps)
  show "push_bit 4 (a AND 3) < 64" by (rule b, rule u8_eqI) (simp_all add: bit_simps)
  show "push_bit 2 (a AND 15) < 64" by (rule b, rule u8_eqI) (simp_all add: bit_simps)
qed

lemma sextets_join:
  fixes a b c :: u8
  shows "push_bit 2 (drop_bit 2 a) OR drop_bit 4 (push_bit 4 (a AND 3) OR drop_bit 4 b) = a"
    and "push_bit 4 (push_bit 4 (a AND 3) OR drop_bit 4 b) OR drop_bit 2 (push_bit 2 (b AND 15) OR drop_bit 6 c) = b"
    and "push_bit 6 (push_bit 2 (b AND 15) OR drop_bit 6 c) OR (c AND 63) = c"
    and "push_bit 2 (drop_bit 2 a) OR drop_bit 4 (push_bit 4 (a AND 3)) = a"
    and "push_bit 4 (push_bit 4 (a AND 3) OR drop_bit 4 b) OR drop_bit 2 (push_bit 2 (b AND 15)) = b"
  by (rule u8_eqI; simp add: bit_simps)+

lemma scan_tabs:
  assumes "list_all (\<lambda>i. i < 64) is" and "rest = [] \<or> hd rest = CHR ''=''"
  shows "base64_scan sg url_safe (map (tab url_safe) is @ rest) = Some (Some (length is))"
  using assms(1)
proof (induction "is")
  case Nil
  then show ?case using assms(2) by (cases rest) simp_all
next
  case (Cons i "is")
  then have "i < 64" by simp
  with Cons show ?case using scan_tab [OF \<open>i < 64\<close>, of sg url_safe "map (tab url_safe) is @ rest"] by simp
qed

lemma scan_encoded:
  "\<exists>len. base64_scan sg url_safe (encode_to_base64_dest data url_safe) = Some (Some len) \<and> len mod 4 \<noteq> 1 \<and>
    base64_chunks url_safe (take len (encode_to_base64_dest data url_safe)) = data"
proof (induction data url_safe rule: encode_to_base64_dest.induct)
  case (1 a b c in_pos url_safe)
  then obtain len where
    len: "base64_scan sg url_safe (encode_to_base64_dest in_pos url_safe) = Some (Some len)" "len mod 4 \<noteq> 1"
      "base64_chunks url_safe (take len (encode_to_base64_dest in_pos url_safe)) = in_pos" by blast
  have "Suc (Suc (Suc (Suc len))) = len + 4" by simp
  then have m: "Suc (Suc (Suc (Suc len))) mod 4 \<noteq> 1" using len(2) by (metis mod_add_self2)
  obtain i j k l where ix: "i = drop_bit 2 a" "j = push_bit 4 (a AND 3) OR drop_bit 4 b"
    "k = push_bit 2 (b AND 15) OR drop_bit 6 c" "l = c AND 63" by blast
  have lt: "i < 64" "j < 64" "k < 64" "l < 64" unfolding ix by (rule sextet_bounds)+
  have join: "push_bit 2 i OR drop_bit 4 j = a" "push_bit 4 j OR drop_bit 2 k = b" "push_bit 6 k OR l = c"
    unfolding ix by (rule sextets_join)+
  show ?case
    unfolding encode_to_base64_dest.simps ix [symmetric]
    using len m lt join by (intro exI [of _ "Suc (Suc (Suc (Suc len)))"])
      (simp add: scan_tab tab_ok del: base64_scan.simps(2))
next
  case (2 a url_safe)
  obtain i j where ix: "i = drop_bit 2 a" "j = push_bit 4 (a AND 3)" by blast
  have lt: "i < 64" "j < 64" unfolding ix by (rule sextet_bounds)+
  have join: "push_bit 2 i OR drop_bit 4 j = a" unfolding ix by (rule sextets_join)
  have enc: "encode_to_base64_dest [a] url_safe = map (tab url_safe) [i, j] @ (if url_safe then [] else ''=='')"
    unfolding encode_to_base64_dest.simps ix [symmetric] by simp
  have "base64_scan sg url_safe (map (tab url_safe) [i, j] @ (if url_safe then [] else ''=='')) = Some (Some 2)"
    using scan_tabs [of "[i, j]" "if url_safe then [] else ''==''" sg url_safe] lt by simp
  moreover have "base64_chunks url_safe (map (tab url_safe) [i, j]) = [a]"
    by (simp only: list.map base64_chunks.simps tab_ok [OF lt(1)] tab_ok [OF lt(2)] join)
  ultimately show ?case unfolding enc by (intro exI [of _ 2]) simp
next
  case (3 a b url_safe)
  obtain i j k where ix: "i = drop_bit 2 a" "j = push_bit 4 (a AND 3) OR drop_bit 4 b"
    "k = push_bit 2 (b AND 15)" by blast
  have lt: "i < 64" "j < 64" "k < 64" unfolding ix by (rule sextet_bounds)+
  have join: "push_bit 2 i OR drop_bit 4 j = a" "push_bit 4 j OR drop_bit 2 k = b" unfolding ix by (rule sextets_join)+
  have enc: "encode_to_base64_dest [a, b] url_safe = map (tab url_safe) [i, j, k] @ (if url_safe then [] else ''='')"
    unfolding encode_to_base64_dest.simps ix [symmetric] by simp
  have "base64_scan sg url_safe (map (tab url_safe) [i, j, k] @ (if url_safe then [] else ''='')) = Some (Some 3)"
    using scan_tabs [of "[i, j, k]" "if url_safe then [] else ''=''" sg url_safe] lt by simp
  moreover have "base64_chunks url_safe (map (tab url_safe) [i, j, k]) = [a, b]"
    by (simp only: list.map base64_chunks.simps tab_ok [OF lt(1)] tab_ok [OF lt(2)] tab_ok [OF lt(3)] join)
  ultimately show ?case unfolding enc by (intro exI [of _ 3]) simp
qed simp

text \<open>C32: encoding bytes to Base64 stays inside the buffer of the computed size and fills it, and decoding the
  result, on any platform, gives the bytes back, for both alphabets.\<close>

theorem base64_roundtrip:
  "\<exists>text. encode_to_base64 data url_safe = Some text \<and>
     length text = encode_base64_size (length data) url_safe \<and>
     decode_base64 char_signed text url_safe = Some (Some data)"
  using scan_encoded [of char_signed url_safe data]
  by (auto simp: encode_to_base64_dest encode_dest_length decode_base64_def)

text \<open>Also: where plain \<^verbatim>\<open>char\<close> is unsigned the decoder never reads outside its table; where it is signed it does so
  exactly when a byte of 128 or more comes before any padding and after only alphabet characters.\<close>

theorem decode_base64_in_bounds:
  "decode_base64 char_signed data url_safe = None \<longleftrightarrow>
     char_signed \<and> (\<exists>pre c post. data = pre @ c # post \<and> of_char c \<ge> (128 :: nat) \<and>
       list_all (\<lambda>x. x \<noteq> CHR ''='' \<and> of_char x < (128 :: nat) \<and> bas url_safe x \<noteq> 77) pre)"
proof -
  have "base64_scan char_signed url_safe data = None \<longleftrightarrow>
     char_signed \<and> (\<exists>pre c post. data = pre @ c # post \<and> of_char c \<ge> (128 :: nat) \<and>
       list_all (\<lambda>x. x \<noteq> CHR ''='' \<and> of_char x < (128 :: nat) \<and> bas url_safe x \<noteq> 77) pre)"
  proof (induction data)
    case (Cons x xs)
    let ?ok = "\<lambda>x. x \<noteq> CHR ''='' \<and> of_char x < (128 :: nat) \<and> bas url_safe x \<noteq> 77"
    have split: "(\<exists>pre c post. x # xs = pre @ c # post \<and> of_char c \<ge> (128 :: nat) \<and> list_all ?ok pre) \<longleftrightarrow>
      of_char x \<ge> (128 :: nat) \<or> ?ok x \<and> (\<exists>pre c post. xs = pre @ c # post \<and> of_char c \<ge> (128 :: nat) \<and> list_all ?ok pre)"
    proof
      assume "\<exists>pre c post. x # xs = pre @ c # post \<and> of_char c \<ge> (128 :: nat) \<and> list_all ?ok pre"
      then obtain pre c post where p: "x # xs = pre @ c # post" "of_char c \<ge> (128 :: nat)" "list_all ?ok pre" by blast
      then show "of_char x \<ge> (128 :: nat) \<or>
          ?ok x \<and> (\<exists>pre c post. xs = pre @ c # post \<and> of_char c \<ge> (128 :: nat) \<and> list_all ?ok pre)"
        by (cases pre) auto
    next
      assume "of_char x \<ge> (128 :: nat) \<or>
          ?ok x \<and> (\<exists>pre c post. xs = pre @ c # post \<and> of_char c \<ge> (128 :: nat) \<and> list_all ?ok pre)"
      then show "\<exists>pre c post. x # xs = pre @ c # post \<and> of_char c \<ge> (128 :: nat) \<and> list_all ?ok pre"
      proof
        assume "of_char x \<ge> (128 :: nat)"
        then have "x # xs = [] @ x # xs \<and> of_char x \<ge> (128 :: nat) \<and> list_all ?ok []" by simp
        then show ?thesis by blast
      next
        assume "?ok x \<and> (\<exists>pre c post. xs = pre @ c # post \<and> of_char c \<ge> (128 :: nat) \<and> list_all ?ok pre)"
        then obtain pre c post where "x # xs = (x # pre) @ c # post" "of_char c \<ge> (128 :: nat)" "list_all ?ok (x # pre)"
          by auto
        then show ?thesis by blast
      qed
    qed
    have "of_char (CHR ''='') < (128 :: nat)" by code_simp
    then show ?case unfolding split using Cons by (auto simp: basis_at_def bas_def)
  qed simp
  then show ?thesis by (auto simp: decode_base64_def split: option.splits)
qed

end
