(* ===== verification/Cesu8.thy ===== *)
theory Cesu8
  imports Prelude
begin

text \<open>
  \<^verbatim>\<open>common/cesu8.cpp\<close>: conversion of UTF-8 to CESU-8, where a code point beyond the basic plane becomes a
  pair of three-byte surrogates.  Both functions are one pass over the bytes with a small state; the
  converter reserves what the length function predicts.
\<close>

unbundle bit_operations_syntax

section \<open>The length\<close>

record cesu_len_state =
  cl_current_char_len :: nat
  cl_utf_chars_remaining :: nat
  cl_i :: nat

text \<open>The part of the loop body below the \<^verbatim>\<open>if (utf_chars_remaining > 0)\<close>.\<close>

definition cesu8_len_lead :: "u8 \<Rightarrow> cesu_len_state \<Rightarrow> cesu_len_state" where
  "cesu8_len_lead c st =
     (if c AND 0x80 = 0 then st\<lparr>cl_i := cl_i st + 1\<rparr>
      else if c AND 0xe0 = 0xc0 then st\<lparr>cl_current_char_len := 1, cl_utf_chars_remaining := 1\<rparr>
      else if c AND 0xf0 = 0xe0 then st\<lparr>cl_current_char_len := 1, cl_utf_chars_remaining := 2\<rparr>
      else if c AND 0xf8 = 0xf0 then st\<lparr>cl_current_char_len := 1, cl_utf_chars_remaining := 3\<rparr>
      else st\<lparr>cl_i := cl_i st + 3, cl_utf_chars_remaining := 0\<rparr>)"

definition cesu8_len_step :: "u8 \<Rightarrow> cesu_len_state \<Rightarrow> cesu_len_state" where
  "cesu8_len_step c st =
     (if cl_utf_chars_remaining st > 0 then
        (if c AND 0xc0 = 0x80 then
           (let len = cl_current_char_len st + 1;
                remaining = cl_utf_chars_remaining st - 1
            in if remaining = 0
               then (let len' = (if len = 4 then 6 else len)
                     in st\<lparr>cl_current_char_len := len', cl_utf_chars_remaining := 0, cl_i := cl_i st + len'\<rparr>)
               else st\<lparr>cl_current_char_len := len, cl_utf_chars_remaining := remaining\<rparr>)
         else cesu8_len_lead c (st\<lparr>cl_i := cl_i st + 3, cl_utf_chars_remaining := 0\<rparr>))
      else cesu8_len_lead c st)"

definition cesu8_len :: "bytes \<Rightarrow> nat" where
  "cesu8_len utf8 =
     cl_i (fold cesu8_len_step utf8 \<lparr>cl_current_char_len = 0, cl_utf_chars_remaining = 0, cl_i = 0\<rparr>)"

section \<open>The conversion\<close>

record cesu_state =
  cs_utf_chars_remaining :: nat
  cs_current_uchar :: u32
  cs_modified_utf :: bytes

definition replacement_char :: bytes where
  "replacement_char = [0xef, 0xbf, 0xbd]"

text \<open>What is appended once the last byte of a sequence has been read.\<close>

definition cesu8_emit :: "u32 \<Rightarrow> bytes" where
  "cesu8_emit u =
     (if u \<le> 0x7ff then
        [ucast (0xc0 + (drop_bit 6 u AND 0x1f)), ucast (0x80 + (u AND 0x3f))]
      else if u \<le> 0xffff then
        [ucast (0xe0 + (drop_bit 12 u AND 0x0f)), ucast (0x80 + (drop_bit 6 u AND 0x3f)), ucast (0x80 + (u AND 0x3f))]
      else
        [0xed, ucast (0xa0 + ((drop_bit 16 u - 1) AND 0x0f)), ucast (0x80 + (drop_bit 10 u AND 0x3f)),
         0xed, ucast (0xb0 + (drop_bit 6 u AND 0x0f)), ucast (0x80 + (u AND 0x3f))])"

definition utf8_to_cesu8_lead :: "u8 \<Rightarrow> cesu_state \<Rightarrow> cesu_state" where
  "utf8_to_cesu8_lead c st =
     (if c AND 0x80 = 0 then st\<lparr>cs_modified_utf := cs_modified_utf st @ [c]\<rparr>
      else if c AND 0xe0 = 0xc0 then st\<lparr>cs_current_uchar := ucast (c AND 0x1f), cs_utf_chars_remaining := 1\<rparr>
      else if c AND 0xf0 = 0xe0 then st\<lparr>cs_current_uchar := ucast (c AND 0x0f), cs_utf_chars_remaining := 2\<rparr>
      else if c AND 0xf8 = 0xf0 then st\<lparr>cs_current_uchar := ucast (c AND 0x07), cs_utf_chars_remaining := 3\<rparr>
      else st\<lparr>cs_modified_utf := cs_modified_utf st @ replacement_char, cs_utf_chars_remaining := 0\<rparr>)"

definition utf8_to_cesu8_step :: "u8 \<Rightarrow> cesu_state \<Rightarrow> cesu_state" where
  "utf8_to_cesu8_step c st =
     (if cs_utf_chars_remaining st > 0 then
        (if c AND 0xc0 = 0x80 then
           (let u = push_bit 6 (cs_current_uchar st) OR ucast (c AND 0x3f);
                remaining = cs_utf_chars_remaining st - 1
            in st\<lparr>cs_current_uchar := u, cs_utf_chars_remaining := remaining,
                  cs_modified_utf := cs_modified_utf st @ (if remaining = 0 then cesu8_emit u else [])\<rparr>)
         else utf8_to_cesu8_lead c
           (st\<lparr>cs_modified_utf := cs_modified_utf st @ replacement_char, cs_utf_chars_remaining := 0\<rparr>))
      else utf8_to_cesu8_lead c st)"

definition utf8_to_cesu8 :: "bytes \<Rightarrow> bytes" where
  "utf8_to_cesu8 utf8 =
     cs_modified_utf (fold utf8_to_cesu8_step utf8
       \<lparr>cs_utf_chars_remaining = 0, cs_current_uchar = 0, cs_modified_utf = []\<rparr>)"

section \<open>Arithmetic of the bit operations\<close>

lemma mask_numerals: "(0x3f :: 'a :: len word) = mask 6" "(0x1f :: 'a word) = mask 5" "(0x0f :: 'a word) = mask 4"
  "(0x07 :: 'a word) = mask 3"
  by (simp_all add: mask_eq_exp_minus_1)

lemma unat_and_mask: "unat (w AND mask b) = unat w mod 2 ^ b" for w :: "'a :: len word"
  unfolding take_bit_eq_mask [symmetric] unsigned_take_bit_eq by (rule take_bit_eq_mod)

lemma unat_drop_bit: "unat (drop_bit a w) = unat w div 2 ^ a" for w :: "'a :: len word"
  unfolding unat_drop_bit_eq by (rule drop_bit_eq_div)

lemma unat_ucast_u32: "unat (ucast c :: u32) = unat c" for c :: u8
proof -
  have "unat c < 2 ^ LENGTH(8)" by (rule unsigned_less)
  then have "unat c < 2 ^ LENGTH(32)" by simp
  then show ?thesis unfolding unsigned_ucast_eq by (simp only: take_bit_nat_eq_self_iff)
qed

lemma append_sextet:
  fixes c :: u8
  assumes "unat u < 2 ^ 26"
  shows "unat (push_bit 6 u OR ucast (c AND 0x3f) :: u32) = unat u * 64 + unat c mod 64"
proof -
  have "push_bit 6 u AND ucast (c AND 0x3f) = (0 :: u32)"
    unfolding mask_numerals by (intro bit_word_eqI) (auto simp: bit_simps)
  then have "push_bit 6 u OR ucast (c AND 0x3f) = push_bit 6 u + (ucast (c AND 0x3f) :: u32)"
    by (simp only: disjunctive_add_eq_or)
  moreover have "unat (push_bit 6 u) = unat u * 64"
    using assms by (simp add: push_bit_eq_mult unat_word_ariths)
  moreover have "unat (ucast (c AND 0x3f) :: u32) = unat c mod 64"
    unfolding unat_ucast_u32 mask_numerals unat_and_mask by simp
  moreover have "unat u * 64 + unat c mod 64 < 2 ^ 32" using assms by simp
  ultimately show ?thesis by (simp add: unat_word_ariths)
qed

text \<open>A byte made of a constant and some bits of the code point.\<close>

lemma byte_of_bits:
  assumes "unat k + 2 ^ b \<le> 256"
  shows "(ucast (k + (drop_bit a u AND mask b) :: u32) :: u8) = word_of_nat (unat k + unat u div 2 ^ a mod 2 ^ b)"
proof -
  have "unat (drop_bit a u AND mask b) = unat u div 2 ^ a mod 2 ^ b" by (simp only: unat_and_mask unat_drop_bit)
  moreover have "unat k + unat u div 2 ^ a mod 2 ^ b < 256"
  proof -
    have "unat u div 2 ^ a mod 2 ^ b < 2 ^ b" by simp
    with assms show ?thesis by linarith
  qed
  ultimately have "unat (k + (drop_bit a u AND mask b)) = unat k + unat u div 2 ^ a mod 2 ^ b"
    by (simp add: unat_word_ariths)
  then show ?thesis by (metis of_nat_unat)
qed

section \<open>The prediction is enough\<close>

text \<open>How the two passes move together; the bounds say that a sequence of two or three bytes stays short.\<close>

definition cesu_sim :: "cesu_len_state \<Rightarrow> cesu_state \<Rightarrow> bool" where
  "cesu_sim l s \<longleftrightarrow> cs_utf_chars_remaining s = cl_utf_chars_remaining l \<and>
     length (cs_modified_utf s) \<le> cl_i l \<and>
     (case (cl_utf_chars_remaining l, cl_current_char_len l) of
        (0, _) \<Rightarrow> True
      | (Suc 0, Suc 0) \<Rightarrow> unat (cs_current_uchar s) < 32
      | (Suc (Suc 0), Suc 0) \<Rightarrow> unat (cs_current_uchar s) < 16
      | (Suc 0, Suc (Suc 0)) \<Rightarrow> unat (cs_current_uchar s) < 1024
      | (r, n) \<Rightarrow> r + n = 4)"

lemma emit_length: "length (cesu8_emit u) = (if unat u < 0x800 then 2 else if unat u < 0x10000 then 3 else 6)"
  by (simp add: cesu8_emit_def word_le_nat_alt)

lemma sim_lead:
  assumes "length (cs_modified_utf s) \<le> cl_i l" "cs_utf_chars_remaining s = 0" "cl_utf_chars_remaining l = 0"
  shows "cesu_sim (cesu8_len_lead c l) (utf8_to_cesu8_lead c s)"
proof -
  have "unat (ucast (c AND 0x1f) :: u32) < 32" "unat (ucast (c AND 0x0f) :: u32) < 16"
    unfolding unat_ucast_u32 mask_numerals unat_and_mask by simp_all
  with assms show ?thesis
    by (simp add: cesu_sim_def cesu8_len_lead_def utf8_to_cesu8_lead_def replacement_char_def numeral_3_eq_3 numeral_2_eq_2)
qed

lemma sim_step:
  assumes sim: "cesu_sim l s"
  shows "cesu_sim (cesu8_len_step c l) (utf8_to_cesu8_step c s)"
proof -
  have rem: "cs_utf_chars_remaining s = cl_utf_chars_remaining l" and len: "length (cs_modified_utf s) \<le> cl_i l"
    using sim by (simp_all add: cesu_sim_def)
  show ?thesis
  proof (cases "cl_utf_chars_remaining l")
    case 0
    then show ?thesis using rem len sim_lead by (simp add: cesu8_len_step_def utf8_to_cesu8_step_def)
  next
    case (Suc r)
    show ?thesis
    proof (cases "c AND 0xc0 = 0x80")
      case False
      then show ?thesis using Suc rem len
        by (simp add: cesu8_len_step_def utf8_to_cesu8_step_def) (rule sim_lead; simp add: replacement_char_def)
    next
      case True
      let ?u = "push_bit 6 (cs_current_uchar s) OR ucast (c AND 0x3f)"
      have u: "unat (cs_current_uchar s) < 2 ^ 26 \<Longrightarrow> unat ?u = unat (cs_current_uchar s) * 64 + unat c mod 64"
        by (rule append_sextet)
      have "unat c mod 64 < 64" by simp
      then show ?thesis
        using True Suc rem len sim u
        by (auto simp: cesu_sim_def cesu8_len_step_def utf8_to_cesu8_step_def emit_length Let_def
            split: nat.splits if_splits)
    qed
  qed
qed

lemma sim_fold: "cesu_sim l s \<Longrightarrow> cesu_sim (fold cesu8_len_step bs l) (fold utf8_to_cesu8_step bs s)"
  by (induction bs arbitrary: l s) (simp_all add: sim_step)

text \<open>Also: for every input, valid UTF-8 or not, the converted string is no longer than the length predicted for it.\<close>

theorem cesu8_len_suffices: "length (utf8_to_cesu8 utf8) \<le> cesu8_len utf8"
proof -
  have "cesu_sim \<lparr>cl_current_char_len = 0, cl_utf_chars_remaining = 0, cl_i = 0\<rparr>
      \<lparr>cs_utf_chars_remaining = 0, cs_current_uchar = 0, cs_modified_utf = []\<rparr>"
    by (simp add: cesu_sim_def)
  from sim_fold [OF this, of utf8] show ?thesis by (simp add: cesu_sim_def utf8_to_cesu8_def cesu8_len_def)
qed

section \<open>Well-formed input\<close>

text \<open>The two encodings of a code point, by their definitions.\<close>

definition enc3 :: "nat \<Rightarrow> bytes" where
  "enc3 n = [word_of_nat (0xe0 + n div 4096), word_of_nat (0x80 + n div 64 mod 64), word_of_nat (0x80 + n mod 64)]"

definition utf8_enc :: "nat \<Rightarrow> bytes" where
  "utf8_enc n =
     (if n < 0x80 then [word_of_nat n]
      else if n < 0x800 then [word_of_nat (0xc0 + n div 64), word_of_nat (0x80 + n mod 64)]
      else if n < 0x10000 then enc3 n
      else [word_of_nat (0xf0 + n div 262144), word_of_nat (0x80 + n div 4096 mod 64),
            word_of_nat (0x80 + n div 64 mod 64), word_of_nat (0x80 + n mod 64)])"

definition cesu8_enc :: "nat \<Rightarrow> bytes" where
  "cesu8_enc n =
     (if n < 0x10000 then utf8_enc n
      else enc3 (0xd800 + (n - 0x10000) div 1024) @ enc3 (0xdc00 + (n - 0x10000) mod 1024))"

definition lead_ok :: "nat \<Rightarrow> bool" where
  "lead_ok m \<longleftrightarrow>
     (let c2 = word_of_nat (0xc0 + m mod 32) :: u8; c3 = word_of_nat (0xe0 + m mod 16) :: u8;
          c4 = word_of_nat (0xf0 + m mod 8) :: u8; cc = word_of_nat (0x80 + m) :: u8
      in c2 AND 0x80 \<noteq> 0 \<and> c2 AND 0xe0 = 0xc0 \<and> unat (c2 AND 0x1f) = m mod 32 \<and>
         c3 AND 0x80 \<noteq> 0 \<and> c3 AND 0xe0 \<noteq> 0xc0 \<and> c3 AND 0xf0 = 0xe0 \<and> unat (c3 AND 0x0f) = m mod 16 \<and>
         c4 AND 0x80 \<noteq> 0 \<and> c4 AND 0xe0 \<noteq> 0xc0 \<and> c4 AND 0xf0 \<noteq> 0xe0 \<and> c4 AND 0xf8 = 0xf0 \<and>
         unat (c4 AND 0x07) = m mod 8 \<and> cc AND 0xc0 = 0x80 \<and> unat cc mod 64 = m)"

lemma lead_ok_all: "m < 64 \<Longrightarrow> lead_ok m"
proof -
  have "list_all lead_ok [0..<64]" by code_simp
  then show "m < 64 \<Longrightarrow> lead_ok m" by (simp add: list_all_iff)
qed

lemma ascii_lead: "n < 128 \<Longrightarrow> (word_of_nat n :: u8) AND 0x80 = 0"
proof -
  have "list_all (\<lambda>n. (word_of_nat n :: u8) AND 0x80 = 0) [0..<128]" by code_simp
  then show "n < 128 \<Longrightarrow> (word_of_nat n :: u8) AND 0x80 = 0" by (simp add: list_all_iff)
qed

text \<open>One continuation byte.\<close>

lemma step_cont:
  assumes "m < 64" and "cs_utf_chars_remaining s = Suc r" and "unat (cs_current_uchar s) < 2 ^ 26"
  shows "\<exists>u. unat u = unat (cs_current_uchar s) * 64 + m \<and>
    utf8_to_cesu8_step (word_of_nat (0x80 + m)) s =
      s\<lparr>cs_current_uchar := u, cs_utf_chars_remaining := r,
        cs_modified_utf := cs_modified_utf s @ (if r = 0 then cesu8_emit u else [])\<rparr>"
proof -
  let ?c = "word_of_nat (0x80 + m) :: u8"
  have c: "?c AND 0xc0 = 0x80" "unat ?c mod 64 = m" using lead_ok_all [OF assms(1)] by (simp_all add: lead_ok_def Let_def)
  show ?thesis
    using append_sextet [OF assms(3), of ?c] c assms(2)
    by (intro exI [of _ "push_bit 6 (cs_current_uchar s) OR ucast (?c AND 0x3f)"])
      (simp add: utf8_to_cesu8_step_def Let_def)
qed

lemma emit_bytes:
  fixes u :: u32
  assumes "unat u = n"
  shows "(ucast (0xc0 + (drop_bit 6 u AND 0x1f)) :: u8) = word_of_nat (0xc0 + n div 64 mod 32)"
    "(ucast (0x80 + (u AND 0x3f)) :: u8) = word_of_nat (0x80 + n mod 64)"
    "(ucast (0xe0 + (drop_bit 12 u AND 0x0f)) :: u8) = word_of_nat (0xe0 + n div 4096 mod 16)"
    "(ucast (0x80 + (drop_bit 6 u AND 0x3f)) :: u8) = word_of_nat (0x80 + n div 64 mod 64)"
    "(ucast (0x80 + (drop_bit 10 u AND 0x3f)) :: u8) = word_of_nat (0x80 + n div 1024 mod 64)"
    "(ucast (0xb0 + (drop_bit 6 u AND 0x0f)) :: u8) = word_of_nat (0xb0 + n div 64 mod 16)"
  unfolding mask_numerals
  using byte_of_bits [of "0xc0" 5 6 u] byte_of_bits [of "0x80" 6 0 u] byte_of_bits [of "0xe0" 4 12 u]
    byte_of_bits [of "0x80" 6 6 u] byte_of_bits [of "0x80" 6 10 u] byte_of_bits [of "0xb0" 4 6 u] assms
  by simp_all

lemma emit_high:
  fixes u :: u32
  assumes "unat u = n" "0x10000 \<le> n" "n < 0x110000"
  shows "(ucast (0xa0 + ((drop_bit 16 u - 1) AND 0x0f)) :: u8) = word_of_nat (0xa0 + (n div 65536 - 1))"
proof -
  have "unat (drop_bit 16 u) = n div 65536" unfolding unat_drop_bit assms(1) by simp
  moreover have "1 \<le> n div 65536" using assms(2) by simp
  ultimately have v: "unat (drop_bit 16 u - 1) = n div 65536 - 1"
    by (subst unat_minus_one) auto
  have "n div 65536 - 1 < 16" using assms(3) by simp
  then show ?thesis using byte_of_bits [of "0xa0" 4 0 "drop_bit 16 u - 1"] v unfolding mask_numerals by simp
qed

lemma surrogate_parts:
  fixes k :: nat
  assumes "k < 1048576"
  shows "k div 1024 < 1024" "k div 1024 div 64 = (65536 + k) div 65536 - 1"
    "k div 1024 mod 64 = (65536 + k) div 1024 mod 64"
    "k mod 1024 < 1024" "k mod 1024 div 64 = (65536 + k) div 64 mod 16" "k mod 1024 mod 64 = (65536 + k) mod 64"
proof -
  show "k div 1024 < 1024" using assms by simp
  have "k div 1024 div 64 = k div 65536" by (simp add: div_mult2_eq [symmetric])
  moreover have "(65536 + k) div 65536 = 1 + k div 65536" by simp
  ultimately show "k div 1024 div 64 = (65536 + k) div 65536 - 1" by simp
  have "(65536 + k) div 1024 = 64 + k div 1024" using div_mult_self1 [of 1024 k 64] by simp
  then show "k div 1024 mod 64 = (65536 + k) div 1024 mod 64" by simp
  show "k mod 1024 < 1024" by simp
  have "(65536 + k) div 64 = 1024 + k div 64" using div_mult_self1 [of 64 k 1024] by simp
  moreover have "(1024 + k div 64) mod 16 = k div 64 mod 16" using mod_mult_self2 [of "k div 64" 16 64] by (simp add: add.commute)
  moreover have "k mod 1024 = 64 * (k div 64 mod 16) + k mod 64" using mod_mult2_eq [of k 64 16] by simp
  ultimately show "k mod 1024 div 64 = (65536 + k) div 64 mod 16" by simp
  have "(65536 + k) mod 64 = k mod 64" using mod_mult_self2 [of k 64 1024] by (simp add: add.commute)
  then show "k mod 1024 mod 64 = (65536 + k) mod 64" by (simp add: mod_mod_cancel)
qed

lemma surrogate_enc:
  fixes q :: nat
  assumes "q < 1024"
  shows "(0xd800 + q) div 4096 = 13" "(0xd800 + q) div 64 mod 64 = 32 + q div 64" "(0xd800 + q) mod 64 = q mod 64"
    "(0xdc00 + q) div 4096 = 13" "(0xdc00 + q) div 64 mod 64 = 48 + q div 64" "(0xdc00 + q) mod 64 = q mod 64"
proof -
  have q: "q div 64 < 16" using assms by simp
  show "(0xd800 + q) div 4096 = 13" "(0xdc00 + q) div 4096 = 13" using assms by simp_all
  have "(0xd800 + q) div 64 = 864 + q div 64" using div_mult_self1 [of 64 q 864] by simp
  then show "(0xd800 + q) div 64 mod 64 = 32 + q div 64"
    using q mod_mult_self2 [of "32 + q div 64" 64 13] by (simp add: algebra_simps)
  have "(0xdc00 + q) div 64 = 880 + q div 64" using div_mult_self1 [of 64 q 880] by simp
  then show "(0xdc00 + q) div 64 mod 64 = 48 + q div 64"
    using q mod_mult_self2 [of "48 + q div 64" 64 13] by (simp add: algebra_simps)
  show "(0xd800 + q) mod 64 = q mod 64" using mod_mult_self2 [of q 64 864] by (simp add: add.commute)
  show "(0xdc00 + q) mod 64 = q mod 64" using mod_mult_self2 [of q 64 880] by (simp add: add.commute)
qed

lemma emit_point:
  assumes u: "unat u = n" and lo: "0x80 \<le> n" and hi: "n < 0x110000"
  shows "cesu8_emit u = cesu8_enc n"
proof -
  consider "n < 0x800" | "0x800 \<le> n" "n < 0x10000" | "0x10000 \<le> n" by linarith
  then show ?thesis
  proof cases
    case 1
    then have "n div 64 mod 32 = n div 64" by simp
    then show ?thesis using 1 u lo emit_bytes(1,2) [OF u]
      by (simp add: cesu8_emit_def cesu8_enc_def utf8_enc_def word_le_nat_alt)
  next
    case 2
    then have "n div 4096 mod 16 = n div 4096" by simp
    then show ?thesis using 2 u emit_bytes(2,3,4) [OF u]
      by (simp add: cesu8_emit_def cesu8_enc_def utf8_enc_def enc3_def word_le_nat_alt)
  next
    case 3
    define q r where "q = (n - 0x10000) div 1024" and "r = (n - 0x10000) mod 1024"
    obtain k where k: "n = 65536 + k" using 3 le_Suc_ex by metis
    have "k < 1048576" using hi k by simp
    note q = surrogate_parts [OF this, folded k] and r = surrogate_parts [OF this, folded k]
    have qr: "q < 1024" "q div 64 = n div 65536 - 1" "q mod 64 = n div 1024 mod 64"
      "r < 1024" "r div 64 = n div 64 mod 16" "r mod 64 = n mod 64"
      using q by (simp_all add: q_def r_def k)
    note hi_s = surrogate_enc(1,2,3) [OF qr(1)] and lo_s = surrogate_enc(4,5,6) [OF qr(4)]
    have "cesu8_enc n = enc3 (0xd800 + q) @ enc3 (0xdc00 + r)" using 3 by (simp add: cesu8_enc_def q_def r_def)
    also have "\<dots> = [word_of_nat (0xe0 + 13), word_of_nat (0x80 + (32 + q div 64)), word_of_nat (0x80 + q mod 64),
        word_of_nat (0xe0 + 13), word_of_nat (0x80 + (48 + r div 64)), word_of_nat (0x80 + r mod 64)]"
      unfolding enc3_def hi_s lo_s by simp
    also have "\<dots> = [0xed, word_of_nat (0xa0 + (n div 65536 - 1)), word_of_nat (0x80 + n div 1024 mod 64),
        0xed, word_of_nat (0xb0 + n div 64 mod 16), word_of_nat (0x80 + n mod 64)]"
      unfolding qr by simp
    also have "\<dots> = cesu8_emit u"
      using 3 u emit_bytes(2,5,6) [OF u] emit_high [OF u 3 hi]
      by (simp add: cesu8_emit_def word_le_nat_alt)
    finally show ?thesis ..
  qed
qed

text \<open>One code point: from between two characters to between the next two.\<close>

lemma step_ascii:
  assumes "n < 0x80" "cs_utf_chars_remaining s = 0"
  shows "utf8_to_cesu8_step (word_of_nat n) s = s\<lparr>cs_modified_utf := cs_modified_utf s @ [word_of_nat n]\<rparr>"
  using assms ascii_lead [of n] by (simp add: utf8_to_cesu8_step_def utf8_to_cesu8_lead_def)

lemma step_lead:
  assumes "cs_utf_chars_remaining s = 0"
  shows "m < 32 \<Longrightarrow> \<exists>u. unat u = m \<and>
      utf8_to_cesu8_step (word_of_nat (0xc0 + m)) s = s\<lparr>cs_current_uchar := u, cs_utf_chars_remaining := 1\<rparr>"
    and "m < 16 \<Longrightarrow> \<exists>u. unat u = m \<and>
      utf8_to_cesu8_step (word_of_nat (0xe0 + m)) s = s\<lparr>cs_current_uchar := u, cs_utf_chars_remaining := 2\<rparr>"
    and "m < 8 \<Longrightarrow> \<exists>u. unat u = m \<and>
      utf8_to_cesu8_step (word_of_nat (0xf0 + m)) s = s\<lparr>cs_current_uchar := u, cs_utf_chars_remaining := 3\<rparr>"
proof -
  show "\<exists>u. unat u = m \<and>
      utf8_to_cesu8_step (word_of_nat (0xc0 + m)) s = s\<lparr>cs_current_uchar := u, cs_utf_chars_remaining := 1\<rparr>" if "m < 32"
    using that assms lead_ok_all [of m]
    by (intro exI [of _ "ucast ((word_of_nat (0xc0 + m) :: u8) AND 0x1f)"])
      (simp add: lead_ok_def Let_def unat_ucast_u32 utf8_to_cesu8_step_def utf8_to_cesu8_lead_def)
  show "\<exists>u. unat u = m \<and>
      utf8_to_cesu8_step (word_of_nat (0xe0 + m)) s = s\<lparr>cs_current_uchar := u, cs_utf_chars_remaining := 2\<rparr>" if "m < 16"
    using that assms lead_ok_all [of m]
    by (intro exI [of _ "ucast ((word_of_nat (0xe0 + m) :: u8) AND 0x0f)"])
      (simp add: lead_ok_def Let_def unat_ucast_u32 utf8_to_cesu8_step_def utf8_to_cesu8_lead_def)
  show "\<exists>u. unat u = m \<and>
      utf8_to_cesu8_step (word_of_nat (0xf0 + m)) s = s\<lparr>cs_current_uchar := u, cs_utf_chars_remaining := 3\<rparr>" if "m < 8"
    using that assms lead_ok_all [of m]
    by (intro exI [of _ "ucast ((word_of_nat (0xf0 + m) :: u8) AND 0x07)"])
      (simp add: lead_ok_def Let_def unat_ucast_u32 utf8_to_cesu8_step_def utf8_to_cesu8_lead_def)
qed

abbreviation conts :: "nat list \<Rightarrow> bytes" where
  "conts ms \<equiv> map (\<lambda>m. word_of_nat (0x80 + m)) ms"

abbreviation sextets :: "nat \<Rightarrow> nat list \<Rightarrow> nat" where
  "sextets v ms \<equiv> foldl (\<lambda>v m. v * 64 + m) v ms"

lemma sextets_ge: "v \<le> sextets v ms"
proof (induction ms arbitrary: v)
  case (Cons m ms)
  have "v \<le> v * 64 + m" by simp
  also have "\<dots> \<le> sextets (v * 64 + m) ms" by (rule Cons.IH)
  finally show ?case by simp
qed simp

lemma fold_conts:
  assumes "ms \<noteq> []" and "list_all (\<lambda>m. m < 64) ms" and "cs_utf_chars_remaining s = length ms"
    and "sextets (unat (cs_current_uchar s)) ms = n" and "n < 2 ^ 26"
  shows "\<exists>u. unat u = n \<and> fold utf8_to_cesu8_step (conts ms) s =
    s\<lparr>cs_current_uchar := u, cs_utf_chars_remaining := 0, cs_modified_utf := cs_modified_utf s @ cesu8_emit u\<rparr>"
  using assms
proof (induction ms arbitrary: s)
  case (Cons m ms)
  have m: "m < 64" and r: "cs_utf_chars_remaining s = Suc (length ms)" using Cons.prems by simp_all
  have "unat (cs_current_uchar s) < 2 ^ 26"
    using sextets_ge [of "unat (cs_current_uchar s)" "m # ms"] Cons.prems(4,5) by linarith
  from step_cont [OF m r this] obtain u where u: "unat u = unat (cs_current_uchar s) * 64 + m"
    "utf8_to_cesu8_step (word_of_nat (0x80 + m)) s = s\<lparr>cs_current_uchar := u, cs_utf_chars_remaining := length ms,
        cs_modified_utf := cs_modified_utf s @ (if length ms = 0 then cesu8_emit u else [])\<rparr>" by blast
  show ?case
  proof (cases "ms = []")
    case True
    then show ?thesis using u Cons.prems(4) by (intro exI [of _ u]) (simp del: of_nat_add)
  next
    case False
    let ?s = "s\<lparr>cs_current_uchar := u, cs_utf_chars_remaining := length ms\<rparr>"
    have step: "utf8_to_cesu8_step (word_of_nat (0x80 + m)) s = ?s" using u(2) False by simp
    have "\<exists>u. unat u = n \<and> fold utf8_to_cesu8_step (conts ms) ?s =
      ?s\<lparr>cs_current_uchar := u, cs_utf_chars_remaining := 0, cs_modified_utf := cs_modified_utf ?s @ cesu8_emit u\<rparr>"
      using Cons.prems u(1) False by (intro Cons.IH) simp_all
    then show ?thesis using step by (simp del: of_nat_add)
  qed
qed simp

lemma fold_seq:
  assumes lead: "\<exists>u. unat u = v \<and> utf8_to_cesu8_step c s =
      s\<lparr>cs_current_uchar := u, cs_utf_chars_remaining := length ms\<rparr>"
    and "ms \<noteq> []" "list_all (\<lambda>m. m < 64) ms" "sextets v ms = n" "0x80 \<le> n" "n < 0x110000"
    and s: "cs_utf_chars_remaining s = 0"
  shows "\<exists>u. fold utf8_to_cesu8_step (c # conts ms) s =
    s\<lparr>cs_current_uchar := u, cs_modified_utf := cs_modified_utf s @ cesu8_enc n\<rparr>"
proof -
  from lead obtain u where u: "unat u = v" "utf8_to_cesu8_step c s =
    s\<lparr>cs_current_uchar := u, cs_utf_chars_remaining := length ms\<rparr>" by blast
  let ?s = "s\<lparr>cs_current_uchar := u, cs_utf_chars_remaining := length ms\<rparr>"
  have "\<exists>u. unat u = n \<and> fold utf8_to_cesu8_step (conts ms) ?s =
      ?s\<lparr>cs_current_uchar := u, cs_utf_chars_remaining := 0, cs_modified_utf := cs_modified_utf ?s @ cesu8_emit u\<rparr>"
    using assms u(1) by (intro fold_conts) simp_all
  then obtain u' where u': "unat u' = n" "fold utf8_to_cesu8_step (conts ms) ?s =
      ?s\<lparr>cs_current_uchar := u', cs_utf_chars_remaining := 0, cs_modified_utf := cs_modified_utf s @ cesu8_emit u'\<rparr>" by auto
  then have "fold utf8_to_cesu8_step (c # conts ms) s =
      s\<lparr>cs_current_uchar := u', cs_modified_utf := cs_modified_utf s @ cesu8_enc n\<rparr>"
    using u(2) emit_point [OF u'(1)] assms(5,6) s by (simp del: of_nat_add)
  then show ?thesis by blast
qed

lemma fold_point:
  assumes n: "n < 0x110000" and s: "cs_utf_chars_remaining s = 0"
  shows "\<exists>u. fold utf8_to_cesu8_step (utf8_enc n) s =
    s\<lparr>cs_current_uchar := u, cs_modified_utf := cs_modified_utf s @ cesu8_enc n\<rparr>"
proof -
  have split64: "x div 64 * 64 + x mod 64 = x" for x :: nat by simp
  have d: "n div 4096 = n div 64 div 64" "n div 262144 = n div 64 div 64 div 64" by (simp_all add: div_mult2_eq [symmetric])
  consider "n < 0x80" | "0x80 \<le> n" "n < 0x800" | "0x800 \<le> n" "n < 0x10000" | "0x10000 \<le> n" by linarith
  then show ?thesis
  proof cases
    case 1
    then show ?thesis using step_ascii [OF 1 s] by (intro exI [of _ "cs_current_uchar s"]) (simp add: utf8_enc_def cesu8_enc_def)
  next
    case 2
    then have "n div 64 < 32" by simp
    from fold_seq [of "n div 64" "word_of_nat (0xc0 + n div 64)" s "[n mod 64]" n] step_lead(1) [OF s this] 2 n s
    show ?thesis by (simp add: utf8_enc_def split64)
  next
    case 3
    then have "n div 4096 < 16" by simp
    from fold_seq [of "n div 4096" "word_of_nat (0xe0 + n div 4096)" s "[n div 64 mod 64, n mod 64]" n]
      step_lead(2) [OF s this] 3 n s
    show ?thesis by (simp add: utf8_enc_def enc3_def d split64 numeral_2_eq_2)
  next
    case 4
    then have "n div 262144 < 8" using n by simp
    from fold_seq [of "n div 262144" "word_of_nat (0xf0 + n div 262144)" s "[n div 4096 mod 64, n div 64 mod 64, n mod 64]" n]
      step_lead(3) [OF s this] 4 n s
    show ?thesis by (simp add: utf8_enc_def d split64 numeral_3_eq_3)
  qed
qed

lemma fold_points:
  assumes "list_all (\<lambda>n. n < 0x110000) ns" "cs_utf_chars_remaining s = 0"
  shows "cs_modified_utf (fold utf8_to_cesu8_step (concat (map utf8_enc ns)) s) =
    cs_modified_utf s @ concat (map cesu8_enc ns)"
  using assms
proof (induction ns arbitrary: s)
  case (Cons n ns)
  then obtain u where u: "fold utf8_to_cesu8_step (utf8_enc n) s =
    s\<lparr>cs_current_uchar := u, cs_modified_utf := cs_modified_utf s @ cesu8_enc n\<rparr>"
    using fold_point [of n s] by auto
  then show ?case using Cons by simp
qed simp

text \<open>C34: converting the UTF-8 encoding of a sequence of code points gives their CESU-8 encoding, each code
  point beyond the basic plane as its two surrogates in three bytes each.\<close>

theorem utf8_to_cesu8_correct:
  assumes "list_all (\<lambda>n. n < 0x110000) code_points"
  shows "utf8_to_cesu8 (concat (map utf8_enc code_points)) = concat (map cesu8_enc code_points)"
  using fold_points [OF assms] by (simp add: utf8_to_cesu8_def)

theorem utf8_to_cesu8_correct_witness:
  "utf8_to_cesu8 [0x41, 0xf0, 0x9f, 0x98, 0x80] = [0x41, 0xed, 0xa0, 0xbd, 0xed, 0xb8, 0x80]"
proof -
  have "list_all (\<lambda>n. n < 0x110000) [0x41, 0x1f600 :: nat]" by simp
  from utf8_to_cesu8_correct [OF this] show ?thesis
    by (simp add: utf8_enc_def cesu8_enc_def enc3_def)
qed

end
