(* ===== verification/SocketAddress.thy ===== *)
theory SocketAddress
  imports Cidr
begin

text \<open>
  Socket addresses: \<^verbatim>\<open>common/socket_address.cpp\<close> and the address functions of \<^verbatim>\<open>common/net_utils.cpp\<close>.  The
  storage is modelled byte by byte as the compact structure is laid out on Linux with a
  little-endian processor, because equality, order and hashing compare raw memory.
\<close>

unbundle bit_operations_syntax

section \<open>Host and port\<close>

datatype net_utils_error =
  AE_INVALID_IF_INDEX | AE_UNSUPPORTED_FAMILY | AE_BIND_ERROR | AE_INVALID_IF_NAME
| AE_IPV6_PORT_EMPTY | AE_IPV6_MISSING_RIGHT_BRACKET | AE_IPV6_MISSING_BRACKETS | AE_IPV4_PORT_EMPTY

fun net_utils_error_to_string :: "net_utils_error \<Rightarrow> string" where
  "net_utils_error_to_string AE_INVALID_IF_INDEX = ''if_indextoname() error''"
| "net_utils_error_to_string AE_UNSUPPORTED_FAMILY = ''Unsupported socket family''"
| "net_utils_error_to_string AE_BIND_ERROR = ''Failed to bind''"
| "net_utils_error_to_string AE_INVALID_IF_NAME = ''Invalid interface name''"
| "net_utils_error_to_string AE_IPV6_PORT_EMPTY = ''Port after colon is empty in IPv6 address''"
| "net_utils_error_to_string AE_IPV6_MISSING_RIGHT_BRACKET = ''IPv6 address contains `[` but not contains `]`''"
| "net_utils_error_to_string AE_IPV6_MISSING_BRACKETS = ''IPv6 address not in square brackets''"
| "net_utils_error_to_string AE_IPV4_PORT_EMPTY = ''Port after colon is empty in IPv4 address''"

definition split_host_port :: "string \<Rightarrow> bool \<Rightarrow> bool \<Rightarrow> net_utils_error + string \<times> string" where
  "split_host_port s require_brackets require_port =
     (if s \<noteq> [] \<and> hd s = CHR ''['' then
        (case sv_find s '']:'' 0 of
           Some pos \<Rightarrow>
             (let port = drop (pos + 2) s
              in if require_port \<and> port = [] then Inl AE_IPV6_PORT_EMPTY
                 else Inr (sv_substr s 1 (pos - 1), port))
         | None \<Rightarrow>
             (if last s = CHR '']'' then Inr (sv_substr s 1 (length s - 2), [])
              else Inl AE_IPV6_MISSING_RIGHT_BRACKET))
      else
        (case sv_find s '':'' 0 of
           Some pos \<Rightarrow>
             (if Some pos \<noteq> sv_find_last_of s '':'' then
                (if require_brackets then Inl AE_IPV6_MISSING_BRACKETS else Inr (s, []))
              else
                (let port = drop (pos + 1) s
                 in if require_port \<and> port = [] then Inl AE_IPV4_PORT_EMPTY
                    else Inr (sv_substr s 0 pos, port)))
         | None \<Rightarrow> Inr (s, [])))"

definition join_host_port :: "string \<Rightarrow> string \<Rightarrow> string" where
  "join_host_port host port =
     (if sv_find host '':'' 0 \<noteq> None then ''['' @ host @ '']:'' @ port else host @ '':'' @ port)"

section \<open>Storage\<close>

definition be16 :: "u16 \<Rightarrow> bytes" where
  "be16 p = [ucast (drop_bit 8 p), ucast p]"

definition le16 :: "u16 \<Rightarrow> bytes" where
  "le16 p = [ucast p, ucast (drop_bit 8 p)]"

definition AF_UNSPEC :: u16 where "AF_UNSPEC = 0"
definition AF_INET :: u16 where "AF_INET = 2"
definition AF_INET6 :: u16 where "AF_INET6 = 10"

text \<open>
  \<^verbatim>\<open>SocketAddressStorage\<close>: 28 bytes.  \<^verbatim>\<open>sockaddr_in\<close> has the family, the port in network order, four address
  bytes and eight unused ones; \<^verbatim>\<open>sockaddr_in6\<close> the family, the port, the flow information, sixteen address
  bytes and the scope.
\<close>

type_synonym storage = bytes

definition storage_zero :: storage where
  "storage_zero = replicate 28 0"

definition sa_family :: "storage \<Rightarrow> u16" where
  "sa_family ss = ucast (ss ! 0) OR push_bit 8 (ucast (ss ! 1))"

definition sa_socklen :: "storage \<Rightarrow> nat" where
  "sa_socklen ss = (if sa_family ss = AF_INET6 then 28 else if sa_family ss = AF_INET then 16 else 0)"

definition mem_write :: "bytes \<Rightarrow> nat \<Rightarrow> bytes \<Rightarrow> bytes" where
  "mem_write m off bs = take off m @ bs @ drop (off + length bs) m"

definition make_sockaddr_storage :: "bytes \<Rightarrow> u16 \<Rightarrow> storage" where
  "make_sockaddr_storage addr port =
     (if length addr = 16 then
        mem_write (mem_write (mem_write storage_zero 0 (le16 AF_INET6)) 2 (be16 port)) 8 addr
      else if length addr = 4 then
        mem_write (mem_write (mem_write storage_zero 0 (le16 AF_INET)) 2 (be16 port)) 4 addr
      else storage_zero)"

text \<open>
  From text.  Parameters: the address parsers of libevent and \<^verbatim>\<open>getaddrinfo\<close> with a numeric host, whose
  answer is the bytes of the socket address it fills in.
\<close>

record resolver =
  ev_pton4 :: "string \<Rightarrow> bytes option"
  ev_pton6 :: "string \<Rightarrow> bytes option"
  getaddrinfo6 :: "string \<Rightarrow> bytes option"

definition make_sockaddr_storage_str :: "resolver \<Rightarrow> string \<Rightarrow> u16 \<Rightarrow> storage" where
  "make_sockaddr_storage_str env numeric_host port =
     (if length numeric_host > 46 - 1 then storage_zero
      else let p = c_str numeric_host
           in case ev_pton4 env p of
                Some ip \<Rightarrow> make_sockaddr_storage (take 4 ip) port
              | None \<Rightarrow>
                  (case ev_pton6 env p of
                     Some ip \<Rightarrow> make_sockaddr_storage (take 16 ip) port
                   | None \<Rightarrow>
                       (if list_all (\<lambda>c. \<not> (c = CHR ''['' \<or> c = CHR '']'')) numeric_host
                        then case getaddrinfo6 env p of
                               Some ai \<Rightarrow> mem_write (mem_write storage_zero 0 ai) 2 (be16 port)
                             | None \<Rightarrow> storage_zero
                        else storage_zero)))"

definition sa_of_host :: "resolver \<Rightarrow> string \<Rightarrow> u16 \<Rightarrow> storage" where
  "sa_of_host env numeric_host port = make_sockaddr_storage_str env numeric_host port"

definition sa_of_host_port :: "resolver \<Rightarrow> string \<Rightarrow> storage" where
  "sa_of_host_port env numeric_host_port =
     (case split_host_port numeric_host_port False False of
        Inl _ \<Rightarrow> storage_zero
      | Inr (host, port_str) \<Rightarrow>
          (let port = to_integer max_u16 port_str 10
           in if port = None \<and> port_str \<noteq> [] then storage_zero
              else sa_of_host env host (case port of None \<Rightarrow> 0 | Some p \<Rightarrow> word_of_nat p)))"

definition sa_of_bytes :: "bytes \<Rightarrow> u16 \<Rightarrow> storage" where
  "sa_of_bytes addr port = make_sockaddr_storage addr port"

datatype ip_address = Ip_none | Ipv4 bytes | Ipv6 bytes

fun sa_of_ip_address :: "ip_address \<Rightarrow> u16 \<Rightarrow> storage" where
  "sa_of_ip_address (Ipv4 a) port = make_sockaddr_storage a port"
| "sa_of_ip_address (Ipv6 a) port = make_sockaddr_storage a port"
| "sa_of_ip_address Ip_none port = storage_zero"

text \<open>From a C \<^verbatim>\<open>sockaddr\<close>, given as the memory it points to, or a null pointer.\<close>

definition sa_of_sockaddr :: "bytes option \<Rightarrow> storage" where
  "sa_of_sockaddr addr =
     (case addr of None \<Rightarrow> storage_zero | Some m \<Rightarrow> mem_write storage_zero 0 (take (sa_socklen m) m))"

section \<open>Operations\<close>

text \<open>\<^verbatim>\<open>memcmp\<close> compares unsigned bytes.\<close>

definition sa_less :: "storage \<Rightarrow> storage \<Rightarrow> bool" where
  "sa_less self other = bytes_less (take (sa_socklen self) self) (take (sa_socklen self) other)"

definition sa_equal :: "storage \<Rightarrow> storage \<Rightarrow> bool" where
  "sa_equal self other \<longleftrightarrow> take (sa_socklen self) self = take (sa_socklen self) other"

definition sa_addr :: "storage \<Rightarrow> bytes" where
  "sa_addr ss =
     (if sa_family ss = AF_INET then sv_substr ss 4 4
      else if sa_family ss = AF_INET6 then sv_substr ss 8 16
      else [])"

definition sa_addr_variant :: "storage \<Rightarrow> ip_address" where
  "sa_addr_variant ss =
     (if sa_family ss = AF_INET then Ipv4 (sv_substr ss 4 4)
      else if sa_family ss = AF_INET6 then Ipv6 (sv_substr ss 8 16)
      else Ip_none)"

definition ntohs_at :: "storage \<Rightarrow> nat \<Rightarrow> u16" where
  "ntohs_at ss off = push_bit 8 (ucast (ss ! off)) OR ucast (ss ! (off + 1))"

definition sa_port :: "storage \<Rightarrow> u16" where
  "sa_port ss = (if sa_family ss = AF_INET6 \<or> sa_family ss = AF_INET then ntohs_at ss 2 else 0)"

definition sa_set_port :: "u16 \<Rightarrow> storage \<Rightarrow> storage" where
  "sa_set_port port ss =
     (if sa_family ss = AF_INET \<or> sa_family ss = AF_INET6 then mem_write ss 2 (be16 port) else ss)"

definition sa_valid :: "storage \<Rightarrow> bool" where
  "sa_valid ss \<longleftrightarrow> sa_family ss \<noteq> AF_UNSPEC"

definition sa_is_ipv6 :: "storage \<Rightarrow> bool" where
  "sa_is_ipv6 ss \<longleftrightarrow> sa_family ss = AF_INET6"

definition ipv4_mapped_prefix :: bytes where
  "ipv4_mapped_prefix = [0, 0, 0, 0, 0, 0, 0, 0, 0, 0, 0xff, 0xff]"

definition sa_is_ipv4_mapped :: "storage \<Rightarrow> bool" where
  "sa_is_ipv4_mapped ss \<longleftrightarrow> sa_family ss = AF_INET6 \<and> sv_substr ss 8 12 = ipv4_mapped_prefix"

definition sa_is_ipv4 :: "storage \<Rightarrow> bool" where
  "sa_is_ipv4 ss \<longleftrightarrow> sa_family ss = AF_INET \<or> sa_is_ipv4_mapped ss"

definition sa_addr_unmapped :: "storage \<Rightarrow> bytes" where
  "sa_addr_unmapped ss = (if \<not> sa_is_ipv4_mapped ss then sa_addr ss else sv_substr ss (8 + 12) 4)"

definition to_ipv4_unmapped :: "storage \<Rightarrow> storage" where
  "to_ipv4_unmapped ss =
     (if sa_family ss = AF_INET then ss
      else if \<not> sa_is_ipv4_mapped ss then storage_zero
      else sa_of_bytes (drop (length ipv4_mapped_prefix) (sa_addr ss)) (sa_port ss))"

definition to_ipv4_mapped :: "storage \<Rightarrow> storage" where
  "to_ipv4_mapped ss =
     (if sa_family ss = AF_INET6 then ss
      else if sa_family ss \<noteq> AF_INET then storage_zero
      else sa_of_bytes (ipv4_mapped_prefix @ sa_addr ss) (sa_port ss))"

definition socket_family_cast :: "u16 \<Rightarrow> storage \<Rightarrow> storage" where
  "socket_family_cast family ss =
     (if family = AF_INET then to_ipv4_unmapped ss
      else if family = AF_INET6 then to_ipv4_mapped ss
      else storage_zero)"

definition ntohl_at :: "storage \<Rightarrow> nat \<Rightarrow> u32" where
  "ntohl_at ss off = push_bit 24 (ucast (ss ! off)) OR push_bit 16 (ucast (ss ! (off + 1))) OR
     push_bit 8 (ucast (ss ! (off + 2))) OR ucast (ss ! (off + 3))"

text \<open>The IPv4 cases; the recursion of the source on a mapped address ends in them.\<close>

definition ipv4_is_loopback :: "storage \<Rightarrow> bool" where
  "ipv4_is_loopback ss \<longleftrightarrow> 0x7f000001 AND 0xff000000 = ntohl_at ss 4 AND 0xff000000"

definition ipv4_is_any :: "storage \<Rightarrow> bool" where
  "ipv4_is_any ss \<longleftrightarrow> 0 = ntohl_at ss 4"

definition sa_is_loopback :: "storage \<Rightarrow> bool" where
  "sa_is_loopback ss =
     (if sa_family ss = AF_INET then ipv4_is_loopback ss
      else if sa_family ss = AF_INET6 then
        (if \<not> sa_is_ipv4_mapped ss then sv_substr ss 8 16 = replicate 15 0 @ [1]
         else ipv4_is_loopback (to_ipv4_unmapped ss))
      else False)"

definition sa_is_any :: "storage \<Rightarrow> bool" where
  "sa_is_any ss =
     (if sa_family ss = AF_INET then ipv4_is_any ss
      else if sa_family ss = AF_INET6 then
        (if \<not> sa_is_ipv4_mapped ss then sv_substr ss 8 16 = replicate 16 0
         else ipv4_is_any (to_ipv4_unmapped ss))
      else False)"

text \<open>Text; \<^verbatim>\<open>getnameinfo\<close> is a parameter that answers the numeric host and service of a socket address.\<close>

definition sa_host_str :: "(bytes \<Rightarrow> string) \<Rightarrow> storage \<Rightarrow> bool \<Rightarrow> string" where
  "sa_host_str numeric_host ss ipv6_brackets =
     (let host = numeric_host (take (sa_socklen ss) ss)
      in if sa_family ss = AF_INET6 \<and> ipv6_brackets then ''['' @ host @ '']'' else host)"

definition sa_str :: "(bytes \<Rightarrow> string) \<Rightarrow> (bytes \<Rightarrow> string) \<Rightarrow> storage \<Rightarrow> string" where
  "sa_str numeric_host numeric_serv ss =
     sa_host_str numeric_host ss True @ '':'' @ numeric_serv (take (sa_socklen ss) ss)"

definition is_valid_ip4 :: "resolver \<Rightarrow> string \<Rightarrow> bool" where
  "is_valid_ip4 env str = (let addr = sa_of_host env str 0 in sa_valid addr \<and> sa_family addr = AF_INET)"

definition is_valid_ip6 :: "resolver \<Rightarrow> string \<Rightarrow> bool" where
  "is_valid_ip6 env str = (let addr = sa_of_host env str 0 in sa_valid addr \<and> sa_family addr = AF_INET6)"

section \<open>Network utilities on addresses\<close>

definition addr_to_str :: "inet_env \<Rightarrow> bytes \<Rightarrow> string" where
  "addr_to_str env v =
     (if length v = 4 then inet_ntop4 env v else if length v = 16 then inet_ntop6 env v else [])"

text \<open>
  \<^verbatim>\<open>strtoll\<close> in base ten: white space, a sign, digits.  The answer is the value, clamped to 64 bits, and the
  number of characters read; without digits nothing is read.
\<close>

definition strtoll10 :: "string \<Rightarrow> int \<times> nat" where
  "strtoll10 s =
     (let w = length (takeWhile c_isspace s);
          s1 = drop w s;
          neg = (s1 \<noteq> [] \<and> hd s1 = CHR ''-'');
          sg = (if s1 \<noteq> [] \<and> (hd s1 = CHR ''-'' \<or> hd s1 = CHR ''+'') then 1 else 0);
          ds = takeWhile c_isdigit (drop sg s1);
          v = int (digits_value 10 ds)
      in if ds = [] then (0, 0)
         else (if neg then max (- (2 ^ 63)) (- v) else min (2 ^ 63 - 1) v, w + sg + length ds))"

definition str_to_socket_address :: "resolver \<Rightarrow> string \<Rightarrow> storage" where
  "str_to_socket_address env address =
     (case split_host_port address False False of
        Inl _ \<Rightarrow> storage_zero
      | Inr (host_view, port_view) \<Rightarrow>
          (if port_view = [] then sa_of_host env host_view 0
           else let (port, n) = strtoll10 (c_str port_view)
                in if n \<noteq> length port_view \<or> port < 0 \<or> port > 65535 then storage_zero
                   else sa_of_host env host_view (word_of_int port)))"

definition EAGAIN :: int where "EAGAIN = 11"
definition EWOULDBLOCK :: int where "EWOULDBLOCK = 11"

definition socket_error_is_eagain :: "int \<Rightarrow> bool" where
  "socket_error_is_eagain err \<longleftrightarrow> err = EAGAIN \<or> err = EWOULDBLOCK"

text \<open>
  \<^verbatim>\<open>retrieve_system_dns_servers\<close> on Linux: the lines of \<^verbatim>\<open>/etc/resolv.conf\<close> are its input, the unfiltered
  AdGuard servers and loopback addresses are skipped.
\<close>

definition plain_dns_port :: u16 where "plain_dns_port = 53"

definition unfiltered_dns_ips :: "string list" where
  "unfiltered_dns_ips = [''46.243.231.30'', ''46.243.231.31'', ''2a10:50c0::1:ff'', ''2a10:50c0::2:ff'']"

definition resolv_conf_address :: "string \<Rightarrow> string" where
  "resolv_conf_address line =
     (let v = (if starts_with line ''nameserver'' then drop (length ''nameserver'') line else line);
          v' = ltrim v
      in sv_substr v' 0 (find_if c_isspace v'))"

definition retrieve_system_dns_servers :: "resolver \<Rightarrow> string list \<Rightarrow> string list" where
  "retrieve_system_dns_servers env file_lines =
     concat (map (\<lambda>line.
        let host = resolv_conf_address line;
            addr = sa_of_host env host plain_dns_port
        in if \<not> sa_valid addr then []
           else if sa_is_loopback addr \<or>
             list_ex (\<lambda>u. sa_equal (sa_of_host env u plain_dns_port) addr) unfiltered_dns_ips then []
           else [host]) file_lines)"

section \<open>Layout of the storage\<close>

lemma le16_families: "le16 AF_INET = [2, 0]" "le16 AF_INET6 = [10, 0]"
  by code_simp+

lemma make_storage_4:
  "length a = 4 \<Longrightarrow> make_sockaddr_storage a p = [2, 0] @ be16 p @ a @ replicate 20 0"
  by (simp add: make_sockaddr_storage_def mem_write_def storage_zero_def le16_families be16_def)

lemma make_storage_16:
  "length a = 16 \<Longrightarrow> make_sockaddr_storage a p = [10, 0] @ be16 p @ [0, 0, 0, 0] @ a @ [0, 0, 0, 0]"
proof -
  have "replicate 4 (0 :: u8) = [0, 0, 0, 0]" by code_simp
  then show "length a = 16 \<Longrightarrow> ?thesis"
    by (simp add: make_sockaddr_storage_def mem_write_def storage_zero_def le16_families be16_def take_Cons' drop_Cons')
qed

lemma ntohs_be16: "push_bit 8 (ucast (ucast (drop_bit 8 p) :: u8)) OR ucast (ucast p :: u8) = p" for p :: u16
  by (rule bit_word_eqI) (auto simp: bit_simps)

lemma family_of_bytes:
  "sa_family ([2, 0] @ xs) = AF_INET" "sa_family ([10, 0] @ xs) = AF_INET6"
  by (simp_all add: sa_family_def AF_INET_def AF_INET6_def)

lemma storage_4:
  fixes p :: u16
  assumes "length a = 4"
  defines "ss \<equiv> make_sockaddr_storage a p"
  shows "sa_family ss = AF_INET" "sa_addr ss = a" "sa_port ss = p" "length ss = 28" "sa_socklen ss = 16"
proof -
  have ss: "ss = [2, 0] @ be16 p @ a @ replicate 20 0" unfolding ss_def by (rule make_storage_4 [OF assms(1)])
  show f: "sa_family ss = AF_INET" unfolding ss by (rule family_of_bytes)
  show "sa_addr ss = a" using f assms(1) by (simp add: sa_addr_def ss sv_substr_def be16_def AF_INET_def AF_INET6_def)
  show "sa_port ss = p" using f by (simp add: sa_port_def ntohs_at_def ss be16_def ntohs_be16 numeral_3_eq_3 numeral_2_eq_2)
  show "length ss = 28" using assms(1) by (simp add: ss be16_def)
  show "sa_socklen ss = 16" using f by (simp add: sa_socklen_def AF_INET_def AF_INET6_def)
qed

lemma storage_16:
  fixes p :: u16
  assumes "length a = 16"
  defines "ss \<equiv> make_sockaddr_storage a p"
  shows "sa_family ss = AF_INET6" "sa_addr ss = a" "sa_port ss = p" "length ss = 28" "sa_socklen ss = 28"
    "sv_substr ss 8 12 = take 12 a"
proof -
  have ss: "ss = [10, 0] @ be16 p @ [0, 0, 0, 0] @ a @ [0, 0, 0, 0]" unfolding ss_def by (rule make_storage_16 [OF assms(1)])
  show f: "sa_family ss = AF_INET6" unfolding ss by (rule family_of_bytes)
  show "sa_addr ss = a" using f assms(1) by (simp add: sa_addr_def ss sv_substr_def be16_def AF_INET_def AF_INET6_def)
  show "sa_port ss = p" using f by (simp add: sa_port_def ntohs_at_def ss be16_def ntohs_be16 numeral_3_eq_3 numeral_2_eq_2)
  show "length ss = 28" using assms(1) by (simp add: ss be16_def)
  show "sa_socklen ss = 28" using f by (simp add: sa_socklen_def)
  show "sv_substr ss 8 12 = take 12 a" using assms(1) by (simp add: ss sv_substr_def be16_def)
qed

lemma storage_zero_family: "sa_family storage_zero = AF_UNSPEC"
  by (simp add: storage_zero_def sa_family_def AF_UNSPEC_def)

section \<open>Correctness of the accessors\<close>

text \<open>Also: a socket address made from four or sixteen address bytes is valid and gives back its address, its port
  and its kind; any other number of bytes gives the invalid address.\<close>

theorem sa_of_bytes_correct:
  "if length a = 4 \<or> length a = 16
   then sa_valid (sa_of_bytes a p) \<and> sa_addr (sa_of_bytes a p) = a \<and> sa_port (sa_of_bytes a p) = p \<and>
     sa_addr_variant (sa_of_bytes a p) = (if length a = 4 then Ipv4 a else Ipv6 a) \<and>
     sa_of_ip_address (sa_addr_variant (sa_of_bytes a p)) (sa_port (sa_of_bytes a p)) = sa_of_bytes a p
   else \<not> sa_valid (sa_of_bytes a p)"
proof -
  have f: "AF_INET \<noteq> AF_UNSPEC" "AF_INET6 \<noteq> AF_UNSPEC" "AF_INET \<noteq> AF_INET6"
    by (simp_all add: AF_INET_def AF_INET6_def AF_UNSPEC_def)
  consider "length a = 4" | "length a = 16" | "length a \<noteq> 4" "length a \<noteq> 16" by blast
  then show ?thesis
  proof cases
    case 1
    note s = storage_4 [OF 1, of p]
    have "sa_addr_variant (sa_of_bytes a p) = Ipv4 (sa_addr (sa_of_bytes a p))"
      using s(1) by (simp add: sa_addr_variant_def sa_addr_def sa_of_bytes_def)
    with 1 s f show ?thesis by (simp add: sa_of_bytes_def sa_valid_def)
  next
    case 2
    note s = storage_16 [OF 2, of p]
    have "sa_addr_variant (sa_of_bytes a p) = Ipv6 (sa_addr (sa_of_bytes a p))"
      using s(1) f by (simp add: sa_addr_variant_def sa_addr_def sa_of_bytes_def)
    with 2 s f show ?thesis by (simp add: sa_of_bytes_def sa_valid_def)
  next
    case 3
    then show ?thesis using storage_zero_family by (simp add: sa_of_bytes_def make_sockaddr_storage_def sa_valid_def)
  qed
qed

subsection \<open>Casting between the families\<close>

lemma mapped_storage:
  fixes p :: u16
  assumes "length a = 4"
  defines "m \<equiv> to_ipv4_mapped (sa_of_bytes a p)"
  shows "m = sa_of_bytes (ipv4_mapped_prefix @ a) p" "sa_is_ipv4_mapped m" "sa_family m = AF_INET6"
    "to_ipv4_unmapped m = sa_of_bytes a p"
proof -
  note s = storage_4 [OF assms(1), of p]
  have f: "AF_INET \<noteq> AF_INET6" by (simp add: AF_INET_def AF_INET6_def)
  show m: "m = sa_of_bytes (ipv4_mapped_prefix @ a) p"
    using s f by (simp add: m_def to_ipv4_mapped_def sa_of_bytes_def)
  have l: "length (ipv4_mapped_prefix @ a) = 16" using assms by (simp add: ipv4_mapped_prefix_def)
  note t = storage_16 [OF l, of p]
  show fm: "sa_family m = AF_INET6" using t by (simp add: m sa_of_bytes_def)
  have "take 12 (ipv4_mapped_prefix @ a) = ipv4_mapped_prefix" by (simp add: ipv4_mapped_prefix_def)
  then show mapped: "sa_is_ipv4_mapped m" using t fm by (simp add: sa_is_ipv4_mapped_def m sa_of_bytes_def)
  show "to_ipv4_unmapped m = sa_of_bytes a p"
    using mapped fm f t by (simp add: to_ipv4_unmapped_def m sa_of_bytes_def)
qed

lemma ntohl_bytes:
  fixes x0 x1 x2 x3 :: u8
  shows "(push_bit 24 (ucast x0) OR push_bit 16 (ucast x1) OR push_bit 8 (ucast x2) OR ucast x3 :: u32) AND 0xff000000 =
      push_bit 24 (ucast x0)"
proof -
  have m: "(0xff000000 :: u32) = push_bit 24 (mask 8)" by (simp add: mask_eq_exp_minus_1 push_bit_eq_mult)
  have h: "bit x n \<Longrightarrow> n < 8" for x :: u8 and n by (auto dest: bit_imp_le_length)
  show ?thesis unfolding m by (rule bit_word_eqI) (auto simp: bit_simps dest: h)
qed

lemma ipv4_loopback_iff:
  assumes "length a = 4"
  shows "ipv4_is_loopback (sa_of_bytes a p) \<longleftrightarrow> a ! 0 = 127"
proof -
  have ss: "sa_of_bytes a p = [2, 0] @ be16 p @ a @ replicate 20 0"
    using assms make_storage_4 by (simp add: sa_of_bytes_def)
  obtain a0 a1 a2 a3 where a: "a = [a0, a1, a2, a3]"
    using assms by (auto simp: length_Suc_conv numeral_eq_Suc)
  have "ntohl_at (sa_of_bytes a p) 4 = push_bit 24 (ucast a0) OR push_bit 16 (ucast a1) OR push_bit 8 (ucast a2) OR ucast a3"
    unfolding ss by (simp add: ntohl_at_def a be16_def)
  then have "ipv4_is_loopback (sa_of_bytes a p) \<longleftrightarrow> (0x7f000001 :: u32) AND 0xff000000 = push_bit 24 (ucast a0)"
    unfolding ipv4_is_loopback_def by (simp only: ntohl_bytes)
  also have "\<dots> \<longleftrightarrow> push_bit 24 (ucast (127 :: u8)) = (push_bit 24 (ucast a0) :: u32)" by simp
  also have "\<dots> \<longleftrightarrow> a0 = 127"
  proof
    assume "push_bit 24 (ucast (127 :: u8)) = (push_bit 24 (ucast a0) :: u32)"
    then have "drop_bit 24 (push_bit 24 (ucast (127 :: u8)) :: u32) = drop_bit 24 (push_bit 24 (ucast a0))" by (simp only:)
    moreover have "drop_bit 24 (push_bit 24 (ucast x) :: u32) = ucast x" for x :: u8
      by (rule bit_word_eqI) (auto simp: bit_simps dest: bit_imp_le_length)
    ultimately have "(ucast (127 :: u8) :: u32) = ucast a0" by (simp only:)
    then have "(ucast (ucast (127 :: u8) :: u32) :: u8) = ucast (ucast a0 :: u32)" by (simp only:)
    moreover have "(ucast (ucast x :: u32) :: u8) = x" for x :: u8 by (rule bit_word_eqI) (auto simp: bit_simps)
    ultimately show "a0 = 127" by (simp only:)
  qed simp
  finally show ?thesis by (simp add: a)
qed

text \<open>Also: casting an IPv4 address to IPv6 gives its IPv4-mapped form, which keeps the port and the loopback
  status and casts back to the same address; an IPv6 address that is not mapped has no IPv4 form.\<close>

theorem socket_family_cast_correct:
  assumes "length a = 4" and "length b = 16" and "take 12 b \<noteq> ipv4_mapped_prefix"
  shows "sa_addr (socket_family_cast AF_INET6 (sa_of_bytes a p)) = ipv4_mapped_prefix @ a \<and>
    sa_port (socket_family_cast AF_INET6 (sa_of_bytes a p)) = p \<and>
    sa_addr_unmapped (socket_family_cast AF_INET6 (sa_of_bytes a p)) = a \<and>
    (sa_is_loopback (socket_family_cast AF_INET6 (sa_of_bytes a p)) \<longleftrightarrow> a ! 0 = 127) \<and>
    (sa_is_loopback (sa_of_bytes a p) \<longleftrightarrow> a ! 0 = 127) \<and>
    socket_family_cast AF_INET (socket_family_cast AF_INET6 (sa_of_bytes a p)) = sa_of_bytes a p \<and>
    \<not> sa_valid (socket_family_cast AF_INET (sa_of_bytes b p))"
proof -
  have f: "AF_INET \<noteq> AF_INET6" "AF_INET6 \<noteq> AF_INET" by (simp_all add: AF_INET_def AF_INET6_def)
  let ?m = "to_ipv4_mapped (sa_of_bytes a p)"
  have cast: "socket_family_cast AF_INET6 (sa_of_bytes a p) = ?m" using f by (simp add: socket_family_cast_def)
  note m = mapped_storage [OF assms(1), of p]
  have l: "length (ipv4_mapped_prefix @ a) = 16" using assms by (simp add: ipv4_mapped_prefix_def)
  note t = storage_16 [OF l, of p] and s = storage_4 [OF assms(1), of p] and u = storage_16 [OF assms(2), of p]
  have addr_m: "sa_addr ?m = ipv4_mapped_prefix @ a" and port_m: "sa_port ?m = p"
    unfolding m(1) unfolding sa_of_bytes_def using t by simp_all
  have "sa_addr_unmapped ?m = a"
  proof -
    have "sv_substr ?m 20 4 = drop 12 (sv_substr ?m 8 16)" by (simp add: sv_substr_def drop_take)
    also have "sv_substr ?m 8 16 = sa_addr ?m" using m(3) f by (simp add: sa_addr_def)
    also note addr_m
    finally show ?thesis using m(2) by (simp add: sa_addr_unmapped_def ipv4_mapped_prefix_def)
  qed
  moreover have "sa_is_loopback ?m \<longleftrightarrow> a ! 0 = 127"
    using m f ipv4_loopback_iff [OF assms(1), of p] by (simp add: sa_is_loopback_def)
  moreover have "sa_is_loopback (sa_of_bytes a p) \<longleftrightarrow> a ! 0 = 127"
    using s(1) ipv4_loopback_iff [OF assms(1), of p] by (simp add: sa_is_loopback_def sa_of_bytes_def)
  moreover have "socket_family_cast AF_INET ?m = sa_of_bytes a p" using m(4) by (simp add: socket_family_cast_def)
  moreover have "\<not> sa_valid (socket_family_cast AF_INET (sa_of_bytes b p))"
    using u f assms(3) storage_zero_family
    by (simp add: socket_family_cast_def to_ipv4_unmapped_def sa_is_ipv4_mapped_def sa_of_bytes_def sa_valid_def)
  ultimately show ?thesis using addr_m port_m unfolding cast by blast
qed

theorem socket_family_cast_correct_witness:
  "length [127, 0, 0, 1 :: u8] = 4 \<and> length (replicate 16 1 :: bytes) = 16 \<and> take 12 (replicate 16 1) \<noteq> ipv4_mapped_prefix \<and>
   sa_is_loopback (socket_family_cast AF_INET6 (sa_of_bytes [127, 0, 0, 1] 53))"
proof -
  have h: "length [127, 0, 0, 1 :: u8] = 4" "length (replicate 16 1 :: bytes) = 16"
    "take 12 (replicate 16 1) \<noteq> ipv4_mapped_prefix" by code_simp+
  from socket_family_cast_correct [OF h, of 53] h show ?thesis by simp
qed

subsection \<open>Equality\<close>

text \<open>Also: equality of valid socket addresses made from bytes is equality of address and port; but it is decided by
  the length of the left operand only, so an invalid left operand equals every address while no valid
  address equals it.\<close>

theorem sa_equal_correct:
  assumes "length a \<in> {4, 16}" and "length b \<in> {4, 16}"
  shows "(sa_equal (sa_of_bytes a p) (sa_of_bytes b q) \<longleftrightarrow> a = b \<and> p = q) \<and>
    sa_equal storage_zero (sa_of_bytes b q) \<and> \<not> sa_equal (sa_of_bytes b q) storage_zero"
proof -
  have be: "be16 p = be16 q \<longleftrightarrow> p = q"
    by (metis (no_types, lifting) be16_def list.inject ntohs_be16)
  have c: "sa_of_bytes x r = (if length x = 4 then [2, 0] @ be16 r @ x @ replicate 20 0
      else [10, 0] @ be16 r @ [0, 0, 0, 0] @ x @ [0, 0, 0, 0])" if "length x \<in> {4, 16}" for x r
    using that make_storage_4 make_storage_16 by (auto simp: sa_of_bytes_def)
  have l: "sa_socklen (sa_of_bytes x r) = (if length x = 4 then 16 else 28)" if "length x \<in> {4, 16}" for x r
    using that storage_4 storage_16 by (auto simp: sa_of_bytes_def)
  have lb: "length (be16 r) = 2" for r by (simp add: be16_def)
  have z: "replicate 28 (0 :: u8) = 0 # replicate 27 0" by code_simp
  have "sa_equal (sa_of_bytes a p) (sa_of_bytes b q) \<longleftrightarrow> a = b \<and> p = q"
    using assms l [OF assms(1)] c [OF assms(1)] c [OF assms(2)] be lb
    by (auto simp: sa_equal_def)
  moreover have "sa_socklen storage_zero = 0"
    using storage_zero_family by (simp add: sa_socklen_def AF_UNSPEC_def AF_INET_def AF_INET6_def)
  moreover have "\<not> sa_equal (sa_of_bytes b q) storage_zero"
    using l [OF assms(2)] c [OF assms(2)] z by (auto simp: sa_equal_def storage_zero_def)
  ultimately show ?thesis by (simp add: sa_equal_def)
qed

theorem sa_equal_correct_witness:
  "length [1, 1, 1, 1 :: u8] \<in> {4, 16} \<and> sa_equal storage_zero (sa_of_bytes [1, 1, 1, 1] 53) \<and>
   \<not> sa_equal (sa_of_bytes [1, 1, 1, 1] 53) storage_zero"
proof -
  have h: "length [1, 1, 1, 1 :: u8] \<in> {4, 16}" by simp
  from sa_equal_correct [OF h h, of 53 53] h show ?thesis by simp
qed

section \<open>Host and port round trip\<close>

lemma sv_find_sub_at:
  "c \<notin> set pre \<Longrightarrow> sv_find_sub (c # d) (pre @ c # d @ post) = Some (length pre)"
  by (induction pre) auto

lemma sv_find_at: "c \<notin> set pre \<Longrightarrow> sv_find (pre @ c # d @ post) (c # d) 0 = Some (length pre)"
  by (simp add: sv_find_def sv_find_sub_at)

lemma sv_find_absent: "c \<notin> set s \<Longrightarrow> sv_find s [c] 0 = None"
proof -
  have "c \<notin> set s \<Longrightarrow> sv_find_sub [c] s = None" by (induction s) auto
  then show "c \<notin> set s \<Longrightarrow> ?thesis" by (simp add: sv_find_def)
qed

lemma sv_find_present: "c \<in> set s \<Longrightarrow> sv_find s [c] 0 \<noteq> None"
proof -
  assume "c \<in> set s"
  then obtain pre post where "s = pre @ c # post" "c \<notin> set pre" by (meson split_list_first)
  then show ?thesis using sv_find_at [of c pre "[]" post] by simp
qed

lemma sv_find_last_of_at:
  assumes "c \<notin> set post"
  shows "sv_find_last_of (pre @ c # post) [c] = Some (length pre)"
proof -
  have "find_if (\<lambda>x. x \<in> set [c]) (rev post @ c # rev pre) = length post"
    using assms by (simp add: find_if_append find_if_none)
  then show ?thesis by (simp add: sv_find_last_of_def Let_def)
qed

lemma split_join_host_port_aux:
  assumes "CHR ''['' \<notin> set host" "CHR '']'' \<notin> set host" "CHR '':'' \<notin> set port"
    and "\<not> (require_port \<and> port = [])"
  shows "split_host_port (join_host_port host port) require_brackets require_port = Inr (host, port)"
proof (cases "CHR '':'' \<in> set host")
  case True
  let ?s = "CHR ''['' # host @ CHR '']'' # '':'' @ port"
  have s: "join_host_port host port = ?s"
    using sv_find_present [OF True] by (simp add: join_host_port_def)
  have "sv_find ((CHR ''['' # host) @ CHR '']'' # '':'' @ port) '']:'' 0 = Some (length (CHR ''['' # host))"
    by (rule sv_find_at) (use assms(2) in auto)
  then have f: "sv_find ?s '']:'' 0 = Some (Suc (length host))" by simp
  show ?thesis unfolding s using f assms(4) by (auto simp: split_host_port_def Let_def sv_substr_def)
next
  case False
  let ?s = "host @ CHR '':'' # port"
  have s: "join_host_port host port = ?s"
    using sv_find_absent [OF False] by (simp add: join_host_port_def)
  have f: "sv_find ?s '':'' 0 = Some (length host)" using sv_find_at [OF False, of "[]" port] by simp
  have l: "sv_find_last_of ?s '':'' = Some (length host)" by (rule sv_find_last_of_at [OF assms(3)])
  have h: "hd ?s \<noteq> CHR ''[''" using assms(1) by (cases host) auto
  show ?thesis unfolding s using f l h assms(4) by (auto simp: split_host_port_def Let_def sv_substr_def)
qed

text \<open>Also: splitting what was joined from a host without brackets and a port without colon gives them back, for
  names, IPv4 and IPv6 addresses, whatever strictness is asked for.\<close>

theorem split_join_host_port:
  assumes "CHR ''['' \<notin> set host" "CHR '']'' \<notin> set host" "CHR '':'' \<notin> set port"
    and "\<not> (require_port \<and> port = [])"
  shows "split_host_port (join_host_port host port) require_brackets require_port = Inr (host, port)"
  by (rule split_join_host_port_aux [OF assms])

theorem split_join_host_port_witness:
  "split_host_port (join_host_port ''::1'' ''53'') True True = Inr (''::1'', ''53'')"
  using split_join_host_port [of "''::1''" "''53''" True True] by simp

subsection \<open>Ports\<close>

lemma base10_digit_iff: "is_base_digit 10 c \<longleftrightarrow> c_isdigit c"
  by (auto simp: is_base_digit_def digit_val_def c_isdigit_def Let_def)

lemma dec_digits: "\<forall>c \<in> set (dec n). c_isdigit c" "dec n \<noteq> []" "digits_value 10 (dec n) = n"
  using fmt_uint_digits [of 10 False n] fmt_uint_ne [of False 10 n] by (simp_all add: dec_def base10_digit_iff)

lemma digit_plain: "c_isdigit c \<Longrightarrow> c \<noteq> CHR '':'' \<and> c \<noteq> CHR 0x00 \<and> c \<noteq> CHR ''-'' \<and> c \<noteq> CHR ''+'' \<and> \<not> c_isspace c"
  by (auto simp: c_isdigit_def c_isspace_def Let_def)

lemma strtoll10_dec:
  assumes "n \<le> 65535"
  shows "strtoll10 (c_str (dec n)) = (int n, length (dec n))"
proof -
  note d = dec_digits [of n]
  have plain: "\<forall>c \<in> set (dec n). c \<noteq> CHR 0x00 \<and> c \<noteq> CHR ''-'' \<and> c \<noteq> CHR ''+'' \<and> \<not> c_isspace c"
    using d(1) digit_plain by blast
  then have "c_str (dec n) = dec n" by (simp add: c_str_def takeWhile_whole)
  moreover have "takeWhile c_isspace (dec n) = []" using plain d(2) by (cases "dec n") auto
  moreover have "hd (dec n) \<noteq> CHR ''-''" "hd (dec n) \<noteq> CHR ''+''" using plain d(2) by auto
  moreover have "takeWhile c_isdigit (dec n) = dec n" using d(1) by (intro takeWhile_whole) simp
  note this [simp]
  ultimately show ?thesis using d(2,3) assms by (simp add: strtoll10_def Let_def)
qed

text \<open>Also: reading back the text made from a host without brackets and a decimal port gives the address of that
  host with that port, by either of the two functions that read such a text.\<close>

theorem str_to_socket_address_join:
  assumes "CHR ''['' \<notin> set host" "CHR '']'' \<notin> set host" and "port \<le> 65535"
  shows "str_to_socket_address env (join_host_port host (dec port)) = sa_of_host env host (word_of_nat port) \<and>
    sa_of_host_port env (join_host_port host (dec port)) = sa_of_host env host (word_of_nat port)"
proof -
  have "CHR '':'' \<notin> set (dec port)" using dec_digits(1) [of port] digit_plain by blast
  then have split: "split_host_port (join_host_port host (dec port)) False False = Inr (host, dec port)"
    by (intro split_join_host_port_aux) (use assms in auto)
  have "to_integer max_u16 (dec port) 10 = Some port" by (rule dec_roundtrip) (use assms(3) in \<open>simp add: max_u16_def\<close>)
  then show ?thesis
    using split strtoll10_dec [OF assms(3)] dec_digits(2) [of port] assms(3)
    by (simp add: str_to_socket_address_def sa_of_host_port_def)
qed

theorem str_to_socket_address_join_witness:
  "str_to_socket_address \<lparr>ev_pton4 = \<lambda>s. if s = ''1.1.1.1'' then Some [1, 1, 1, 1] else None,
      ev_pton6 = \<lambda>s. None, getaddrinfo6 = \<lambda>s. None\<rparr> (join_host_port ''1.1.1.1'' (dec 53)) =
   sa_of_bytes [1, 1, 1, 1] 53"
proof -
  let ?env = "\<lparr>ev_pton4 = \<lambda>s. if s = ''1.1.1.1'' then Some [1, 1, 1, 1] else None,
      ev_pton6 = \<lambda>s. None, getaddrinfo6 = \<lambda>s. None\<rparr>"
  have "str_to_socket_address ?env (join_host_port ''1.1.1.1'' (dec 53)) = sa_of_host ?env ''1.1.1.1'' (word_of_nat 53)"
    using str_to_socket_address_join [of "''1.1.1.1''" 53 ?env] by simp
  also have "\<dots> = sa_of_bytes [1, 1, 1, 1] 53"
    by (simp add: sa_of_host_def make_sockaddr_storage_str_def c_str_def sa_of_bytes_def)
  finally show ?thesis .
qed

subsection \<open>System resolvers\<close>

text \<open>Also: the list of system resolvers never contains a loopback address or one of the unfiltered AdGuard
  resolvers, so forwarding to it cannot loop back into this machine.\<close>

theorem retrieve_system_dns_servers_safe:
  "list_all (\<lambda>host. sa_valid (sa_of_host env host plain_dns_port) \<and> \<not> sa_is_loopback (sa_of_host env host plain_dns_port) \<and>
     \<not> list_ex (\<lambda>u. sa_equal (sa_of_host env u plain_dns_port) (sa_of_host env host plain_dns_port)) unfiltered_dns_ips)
   (retrieve_system_dns_servers env file_lines)"
  by (auto simp: retrieve_system_dns_servers_def Let_def list_ex_iff list_all_iff split: if_splits)

end
