(* ===== verification/Guid.thy ===== *)
theory Guid
  imports Integers
begin

text \<open>
  \<^verbatim>\<open>common/guid_utils.cpp\<close>: GUIDs as text.  The code is for Windows, where \<^verbatim>\<open>unsigned long\<close> has 32 bits.
\<close>

unbundle bit_operations_syntax

record guid =
  Data1 :: u32
  Data2 :: u16
  Data3 :: u16
  Data4 :: "u8 list"

definition hex_field :: "nat \<Rightarrow> nat \<Rightarrow> string" where
  "hex_field w n = zero_pad w (hex n)"

definition guid_to_string :: "guid \<Rightarrow> string" where
  "guid_to_string g =
     ''{'' @ hex_field 8 (unat (Data1 g)) @ ''-'' @ hex_field 4 (unat (Data2 g)) @ ''-'' @
     hex_field 4 (unat (Data3 g)) @ ''-'' @
     hex_field 2 (unat (Data4 g ! 0)) @ hex_field 2 (unat (Data4 g ! 1)) @ ''-'' @
     hex_field 2 (unat (Data4 g ! 2)) @ hex_field 2 (unat (Data4 g ! 3)) @ hex_field 2 (unat (Data4 g ! 4)) @
     hex_field 2 (unat (Data4 g ! 5)) @ hex_field 2 (unat (Data4 g ! 6)) @ hex_field 2 (unat (Data4 g ! 7)) @ ''}''"

text \<open>The loop over \<^verbatim>\<open>Data4\<close>: the number of fields left and the rest of the text.\<close>

fun guid_data4 :: "nat \<Rightarrow> string \<Rightarrow> u8 list option" where
  "guid_data4 0 s = Some []"
| "guid_data4 (Suc n) s =
     (case to_integer max_u8 (take 2 s) 16 of
        None \<Rightarrow> None
      | Some v \<Rightarrow>
          (let s1 = drop 2 s;
               s2 = (if s1 \<noteq> [] \<and> hd s1 = CHR ''-'' then tl s1 else s1)
           in map_option (\<lambda>vs. word_of_nat v # vs) (guid_data4 n s2)))"

definition string_to_guid :: "string \<Rightarrow> guid option" where
  "string_to_guid guid_str =
     (if guid_str = [] then None
      else let s = (if length guid_str = 38 \<and> guid_str ! 0 = CHR ''{'' \<and> guid_str ! 37 = CHR ''}''
                    then butlast (tl guid_str) else guid_str)
           in if length s \<noteq> 36 \<or> s ! 8 \<noteq> CHR ''-'' \<or> s ! 13 \<noteq> CHR ''-'' \<or> s ! 18 \<noteq> CHR ''-'' \<or> s ! 23 \<noteq> CHR ''-''
              then None
              else case to_integer max_u32 (take 8 s) 16 of
                None \<Rightarrow> None
              | Some d1 \<Rightarrow>
                  (let s = drop 9 s
                   in case to_integer max_u16 (take 4 s) 16 of
                        None \<Rightarrow> None
                      | Some d2 \<Rightarrow>
                          (let s = drop 5 s
                           in case to_integer max_u16 (take 4 s) 16 of
                                None \<Rightarrow> None
                              | Some d3 \<Rightarrow>
                                  map_option (\<lambda>d4. \<lparr>Data1 = word_of_nat d1, Data2 = word_of_nat d2,
                                      Data3 = word_of_nat d3, Data4 = d4\<rparr>)
                                    (guid_data4 8 (drop 5 s)))))"

text \<open>The structure as random bytes fill it.\<close>

definition random_guid :: "guid \<Rightarrow> guid" where
  "random_guid filled =
     filled\<lparr>Data3 := 0x40 OR (Data3 filled AND 0x0f),
            Data4 := (Data4 filled)[0 := 0x80 OR (Data4 filled ! 0 AND 0x3f)]\<rparr>"

section \<open>Round trip\<close>

lemma hex_field_length: "n < 16 ^ w \<Longrightarrow> 0 < w \<Longrightarrow> length (hex_field w n) = w"
  using hex_padded_length by (simp add: hex_field_def hex_def)

lemma hex_field_read: "n \<le> m \<Longrightarrow> to_integer m (hex_field w n) 16 = Some n"
  by (simp add: hex_field_def hex_def to_integer_zero_pad)

lemma u8_field: "length (hex_field 2 (unat x)) = 2" "to_integer max_u8 (hex_field 2 (unat x)) 16 = Some (unat x)" for x :: u8
proof -
  have "unat x < 2 ^ LENGTH(8)" by (rule unsigned_less)
  then show "length (hex_field 2 (unat x)) = 2" "to_integer max_u8 (hex_field 2 (unat x)) 16 = Some (unat x)"
    by (simp_all add: hex_field_length hex_field_read max_u8_def)
qed

lemma u16_field: "length (hex_field 4 (unat x)) = 4" "to_integer max_u16 (hex_field 4 (unat x)) 16 = Some (unat x)" for x :: u16
proof -
  have "unat x < 2 ^ LENGTH(16)" by (rule unsigned_less)
  then show "length (hex_field 4 (unat x)) = 4" "to_integer max_u16 (hex_field 4 (unat x)) 16 = Some (unat x)"
    by (simp_all add: hex_field_length hex_field_read max_u16_def)
qed

lemma u32_field: "length (hex_field 8 (unat x)) = 8" "to_integer max_u32 (hex_field 8 (unat x)) 16 = Some (unat x)" for x :: u32
proof -
  have "unat x < 2 ^ LENGTH(32)" by (rule unsigned_less)
  then show "length (hex_field 8 (unat x)) = 8" "to_integer max_u32 (hex_field 8 (unat x)) 16 = Some (unat x)"
    by (simp_all add: hex_field_length hex_field_read max_u32_def)
qed

text \<open>A hexadecimal field never starts with a dash.\<close>

lemma hex_field_no_dash: "hd (hex_field 2 (unat x) @ rest) \<noteq> CHR ''-''" for x :: u8
proof -
  obtain c cs where c: "hex_field 2 (unat x) = c # cs" using u8_field(1) [of x] by (cases "hex_field 2 (unat x)") auto
  have "\<forall>c \<in> set (hex_field 2 (unat x)). is_base_digit 16 c"
    using fmt_uint_digits [of 16 False "unat x"]
    by (auto simp: hex_field_def hex_def zero_pad_def is_base_digit_def digit_val_def)
  then show ?thesis using c by (auto simp: is_base_digit_def digit_val_def)
qed

lemma data4_step:
  "guid_data4 (Suc n) (hex_field 2 (unat x) @ rest) =
     map_option ((#) x) (guid_data4 n (if rest \<noteq> [] \<and> hd rest = CHR ''-'' then tl rest else rest))"
  using u8_field [of x] by (simp add: Let_def)

lemma data4_read:
  assumes "length d = 8"
  shows "guid_data4 8 (hex_field 2 (unat (d ! 0)) @ hex_field 2 (unat (d ! 1)) @ ''-'' @
     hex_field 2 (unat (d ! 2)) @ hex_field 2 (unat (d ! 3)) @ hex_field 2 (unat (d ! 4)) @
     hex_field 2 (unat (d ! 5)) @ hex_field 2 (unat (d ! 6)) @ hex_field 2 (unat (d ! 7))) = Some d"
proof -
  obtain a b c e f g h i where d: "d = [a, b, c, e, f, g, h, i]"
    using assms by (auto simp: length_Suc_conv numeral_eq_Suc)
  have "guid_data4 8 s = guid_data4 (Suc (Suc (Suc (Suc (Suc (Suc (Suc (Suc 0)))))))) s" for s
    by (simp add: eval_nat_numeral)
  then show ?thesis
    using data4_step [of 0 i "[]"] hex_field_no_dash hex_field_no_dash [of i "[]"]
    by (simp add: d data4_step del: guid_data4.simps(2))
qed

lemma string_to_guid_parts:
  assumes "length s = 36" "s ! 8 = CHR ''-''" "s ! 13 = CHR ''-''" "s ! 18 = CHR ''-''" "s ! 23 = CHR ''-''"
    and "take 8 s = f1" "to_integer max_u32 f1 16 = Some (unat (Data1 g))"
    and "drop 9 s = s2" "take 4 s2 = f2" "to_integer max_u16 f2 16 = Some (unat (Data2 g))"
    and "drop 5 s2 = s3" "take 4 s3 = f3" "to_integer max_u16 f3 16 = Some (unat (Data3 g))"
    and "drop 5 s3 = s4" "guid_data4 8 s4 = Some (Data4 g)"
  shows "string_to_guid s = Some g"
proof -
  have "s \<noteq> []" using assms(1) by auto
  then show ?thesis using assms by (simp add: string_to_guid_def)
qed

lemma string_to_guid_braces:
  assumes "length s = 36"
  shows "string_to_guid (''{'' @ s @ ''}'') = string_to_guid s"
proof -
  have "(''{'' @ s @ ''}'') ! 37 = CHR ''}''" using assms by (simp add: nth_append)
  moreover have "butlast (tl (''{'' @ s @ ''}'')) = s" by (simp add: butlast_append)
  moreover have "s \<noteq> []" using assms by auto
  ultimately show ?thesis using assms by (simp add: string_to_guid_def)
qed

text \<open>Also: the text of a GUID reads back as the same GUID, with its braces or without them.\<close>

theorem guid_roundtrip:
  assumes "length (Data4 g) = 8"
  shows "string_to_guid (guid_to_string g) = Some g \<and>
    string_to_guid (butlast (tl (guid_to_string g))) = Some g"
proof -
  let ?d4 = "hex_field 2 (unat (Data4 g ! 0)) @ hex_field 2 (unat (Data4 g ! 1)) @ ''-'' @
     hex_field 2 (unat (Data4 g ! 2)) @ hex_field 2 (unat (Data4 g ! 3)) @ hex_field 2 (unat (Data4 g ! 4)) @
     hex_field 2 (unat (Data4 g ! 5)) @ hex_field 2 (unat (Data4 g ! 6)) @ hex_field 2 (unat (Data4 g ! 7))"
  define f1 f2 f3 where "f1 = hex_field 8 (unat (Data1 g))" and "f2 = hex_field 4 (unat (Data2 g))"
    and "f3 = hex_field 4 (unat (Data3 g))"
  define p q where "p = hex_field 2 (unat (Data4 g ! 0)) @ hex_field 2 (unat (Data4 g ! 1))"
    and "q = hex_field 2 (unat (Data4 g ! 2)) @ hex_field 2 (unat (Data4 g ! 3)) @ hex_field 2 (unat (Data4 g ! 4)) @
     hex_field 2 (unat (Data4 g ! 5)) @ hex_field 2 (unat (Data4 g ! 6)) @ hex_field 2 (unat (Data4 g ! 7))"
  let ?s = "f1 @ ''-'' @ f2 @ ''-'' @ f3 @ ''-'' @ p @ ''-'' @ q"
  have len: "length f1 = 8" "length f2 = 4" "length f3 = 4" "length p = 4" "length q = 12"
    by (simp_all add: f1_def f2_def f3_def p_def q_def u8_field u16_field u32_field)
  have str: "guid_to_string g = ''{'' @ ?s @ ''}''"
    by (simp add: guid_to_string_def f1_def f2_def f3_def p_def q_def)
  have inner: "butlast (tl (''{'' @ ?s @ ''}'')) = ?s" by (simp add: butlast_append)
  have data4: "guid_data4 8 (p @ ''-'' @ q) = Some (Data4 g)"
    using data4_read [OF assms] by (simp add: p_def q_def)
  have dashes: "?s ! 8 = CHR ''-''" "?s ! 13 = CHR ''-''" "?s ! 18 = CHR ''-''" "?s ! 23 = CHR ''-''"
    using len by (simp_all add: nth_append)
  have reads: "to_integer max_u32 f1 16 = Some (unat (Data1 g))" "to_integer max_u16 f2 16 = Some (unat (Data2 g))"
    "to_integer max_u16 f3 16 = Some (unat (Data3 g))"
    by (simp_all add: f1_def f2_def f3_def u16_field u32_field)
  have cuts: "take 8 ?s = f1" "drop 9 ?s = f2 @ ''-'' @ f3 @ ''-'' @ p @ ''-'' @ q"
    "take 4 (f2 @ ''-'' @ f3 @ ''-'' @ p @ ''-'' @ q) = f2"
    "drop 5 (f2 @ ''-'' @ f3 @ ''-'' @ p @ ''-'' @ q) = f3 @ ''-'' @ p @ ''-'' @ q"
    "take 4 (f3 @ ''-'' @ p @ ''-'' @ q) = f3" "drop 5 (f3 @ ''-'' @ p @ ''-'' @ q) = p @ ''-'' @ q"
    using len by simp_all
  have l36: "length ?s = 36" using len by simp
  have plain: "string_to_guid ?s = Some g"
    by (rule string_to_guid_parts [OF l36 dashes cuts(1) reads(1) cuts(2,3) reads(2) cuts(4,5) reads(3) cuts(6) data4]) 
  show ?thesis unfolding str inner using plain string_to_guid_braces [OF l36] by simp
qed

theorem guid_roundtrip_witness:
  "string_to_guid (guid_to_string \<lparr>Data1 = 0x12345678, Data2 = 0x9abc, Data3 = 0x4def, Data4 = [1, 2, 3, 4, 5, 6, 7, 8]\<rparr>) =
   Some \<lparr>Data1 = 0x12345678, Data2 = 0x9abc, Data3 = 0x4def, Data4 = [1, 2, 3, 4, 5, 6, 7, 8]\<rparr>"
  using guid_roundtrip [of "\<lparr>Data1 = 0x12345678, Data2 = 0x9abc, Data3 = 0x4def, Data4 = [1, 2, 3, 4, 5, 6, 7, 8]\<rparr>"]
  by simp

text \<open>Also: a random GUID carries the RFC 4122 variant, but its third group lies between 0040 and 004f whatever the
  random bytes are: the version is put into the low byte of the 16-bit field and its version digit,
  the highest one, is 0 and not 4.\<close>

theorem random_guid_version:
  "drop_bit 12 (Data3 (random_guid filled)) = 0 \<and>
   drop_bit 4 (Data3 (random_guid filled)) = 4 \<and>
   (if Data4 filled = [] then True else drop_bit 6 (Data4 (random_guid filled) ! 0) = 2)"
proof -
  have low: "Data3 filled AND 0x0f = take_bit 4 (Data3 filled)" by (simp add: take_bit_eq_mask mask_eq_exp_minus_1)
  have low4: "x AND 0x3f = take_bit 6 x" for x :: u8 by (simp add: take_bit_eq_mask mask_eq_exp_minus_1)
  have "drop_bit 4 (take_bit 4 (Data3 filled)) = 0" "drop_bit 12 (take_bit 4 (Data3 filled)) = 0"
    by (rule bit_word_eqI; simp add: bit_simps)+
  moreover have "drop_bit 6 (take_bit 6 x) = 0" for x :: u8 by (rule bit_word_eqI) (simp add: bit_simps)
  ultimately show ?thesis by (simp add: random_guid_def low low4 drop_bit_or)
qed

end
