(* ===== verification/UrlPath.thy ===== *)
theory UrlPath
  imports StringUtils
begin

text \<open>
  \<^verbatim>\<open>common/url.cpp\<close>: removal of dot segments from a path or URL.
\<close>

section \<open>The code\<close>

definition combine_path :: "string \<Rightarrow> string \<Rightarrow> string" where
  "combine_path l r =
     (let l' = (if ends_with l ''/'' then drop 1 l else l);
          r' = (if starts_with r ''/'' then drop 1 r else r)
      in l' @ ''/'' @ r')"

text \<open>The loop over the characters: the out segments and the contents of \<^verbatim>\<open>segment_builder\<close>.\<close>

fun normalize_loop :: "nat \<Rightarrow> string \<Rightarrow> string list \<Rightarrow> string \<Rightarrow> string list \<times> string" where
  "normalize_loop index [] out b = (out, b)"
| "normalize_loop index (c # rest) out b =
     (if c = CHR ''?'' \<or> c = CHR ''#'' then (out @ [b @ c # rest], [])
      else if c \<noteq> CHR ''/'' \<or> index = 0 then normalize_loop (index + 1) rest out (b @ [c])
      else if ''..'' = b \<or> ''.'' = b \<or> ''/.'' = b then normalize_loop (index + 1) rest out [c]
      else if starts_with b ''/..''
      then normalize_loop (index + 1) rest (if out \<noteq> [] then butlast out else out) [c]
      else normalize_loop (index + 1) rest (out @ [b]) [c])"

definition normalize_start :: "string \<Rightarrow> nat" where
  "normalize_start path =
     (case sv_find path ''//'' 0 of
        None \<Rightarrow> 0
      | Some protocol_index \<Rightarrow>
          (let idx_to_find = (if protocol_index + 2 > length path then length path else protocol_index + 2)
           in case sv_find path ''/'' idx_to_find of
                None \<Rightarrow> 0
              | Some segments_start \<Rightarrow>
                  (if segments_start + 1 > length path then length path else segments_start + 1)))"

definition normalize_path :: "string \<Rightarrow> string" where
  "normalize_path path =
     (if path = [] then path
      else if sv_find path ''./'' 0 = None then path
      else let start_index = normalize_start path;
               (out, b) = normalize_loop start_index (drop start_index path) [] [];
               out' = (if length b > 0 then out @ [b] else out)
           in combine_path (sv_substr path 0 start_index) (join out' []))"

section \<open>The loop is a fold over the segments\<close>

text \<open>What the loop does with one finished segment.\<close>

definition push_segment :: "string list \<Rightarrow> string \<Rightarrow> string list" where
  "push_segment out s =
     (if ''..'' = s \<or> ''.'' = s \<or> ''/.'' = s then out
      else if starts_with s ''/..'' then butlast out else out @ [s])"

definition plain :: "string \<Rightarrow> bool" where
  "plain t \<longleftrightarrow> list_all (\<lambda>c. c \<notin> set ''/?#'') t"

definition query :: "string \<Rightarrow> bool" where
  "query t \<longleftrightarrow> t = [] \<or> hd t \<in> set ''?#''"

lemma normalize_loop_plain:
  "plain t \<Longrightarrow> normalize_loop i (t @ rest) out b = normalize_loop (i + length t) rest out (b @ t)"
  by (induction t arbitrary: i b) (auto simp: plain_def)

lemma normalize_loop_slash:
  "0 < i \<Longrightarrow> normalize_loop i (CHR ''/'' # rest) out b =
     normalize_loop (i + 1) rest (push_segment out b) ''/''"
  by (simp add: push_segment_def)

lemma normalize_loop_query:
  "query t \<Longrightarrow> normalize_loop i t out b = (if t = [] then (out, b) else (out @ [b @ t], []))"
  by (cases t) (auto simp: query_def)

abbreviation led :: "string \<Rightarrow> string" where
  "led t \<equiv> CHR ''/'' # t"

lemma normalize_loop_segments:
  assumes "0 < i" "list_all plain ts" "query q" and "b \<noteq> []"
  shows "case normalize_loop i (concat (map led ts) @ q) out b of (out', b') \<Rightarrow>
    concat (out' @ (if b' = [] then [] else [b'])) =
      concat (foldl push_segment out (butlast (b # map led ts))) @ last (b # map led ts) @ q"
  using assms
proof (induction ts arbitrary: i out b)
  case Nil
  then show ?case by (simp add: normalize_loop_query)
next
  case (Cons t ts)
  have "normalize_loop i (concat (map led (t # ts)) @ q) out b =
    normalize_loop (i + 1 + length t) (concat (map led ts) @ q) (push_segment out b) (led t)"
    using Cons.prems normalize_loop_plain [of t "i + 1" "concat (map led ts) @ q" _ "''/''"]
    by (simp add: normalize_loop_slash del: normalize_loop.simps)
  then show ?case using Cons.IH [of "i + 1 + length t" "led t" "push_segment out b"] Cons.prems by simp
qed

lemma join_nil: "join xs [] = concat xs"
proof -
  have "join_rest ys [] = concat ys" for ys by (induction ys) auto
  then show ?thesis by (auto simp: join_def split: list.splits)
qed

section \<open>Dot segments are removed\<close>

text \<open>The reference: section 5.2.4 of RFC 3986 on a list of segments, each with its leading slash.\<close>

fun remove_dot_segments :: "string list \<Rightarrow> string list \<Rightarrow> string list" where
  "remove_dot_segments out [] = out"
| "remove_dot_segments out (s # ss) =
     (if s = ''/.'' then remove_dot_segments out ss
      else if s = ''/..'' then remove_dot_segments (butlast out) ss
      else remove_dot_segments (out @ [s]) ss)"

text \<open>The code takes every segment that begins with two dots for the parent segment.\<close>

definition dots_exact :: "string \<Rightarrow> bool" where
  "dots_exact t \<longleftrightarrow> (if starts_with t ''..'' then t = ''..'' else True)"

lemma push_segment_exact:
  "dots_exact t \<Longrightarrow> push_segment out (led t) =
     (if t = ''.'' then out else if t = ''..'' then butlast out else out @ [led t])"
proof -
  have "starts_with (led t) ''/..'' = starts_with t ''..''" by (auto simp: starts_with_iff)
  moreover assume "dots_exact t"
  ultimately have "starts_with (led t) ''/..'' = (t = ''..'')"
    by (auto simp: dots_exact_def starts_with_iff split: if_splits)
  then show ?thesis by (simp add: push_segment_def)
qed

lemma fold_push_segment:
  "list_all dots_exact ts \<Longrightarrow> foldl push_segment out (map led ts) = remove_dot_segments out (map led ts)"
  by (induction ts arbitrary: out) (auto simp: push_segment_exact)

lemma remove_dot_segments_id:
  "list_all (\<lambda>t. t \<noteq> ''.'' \<and> t \<noteq> ''..'') ts \<Longrightarrow> remove_dot_segments out (map led ts) = out @ map led ts"
  by (induction ts arbitrary: out) auto

lemma sv_find_none_split: "sv_find (p @ d @ r) d 0 \<noteq> None"
  using sv_find_sub_None [of d "p @ d @ r" "length p"] by (auto simp: sv_find_def)

lemma no_dot_slash:
  assumes "sv_find (concat (map led (ts @ [u])) @ q) ''./'' 0 = None"
  shows "list_all (\<lambda>t. t \<noteq> ''.'' \<and> t \<noteq> ''..'') ts"
proof -
  have False if t: "t \<in> set ts" and d: "t = ''.'' \<or> t = ''..''" for t
  proof -
    obtain us vs where ts: "ts = us @ t # vs" using t by (meson split_list)
    obtain w where tail: "concat (map led (vs @ [u])) @ q = CHR ''/'' # w"
      by (cases vs) auto
    have "concat (map led (ts @ [u])) @ q = (concat (map led us) @ led (butlast t)) @ ''./'' @ w"
      using ts d tail by auto
    then show False using assms sv_find_none_split by metis
  qed
  then show ?thesis by (auto simp: list_all_iff)
qed

lemma remove_dot_segments_led: "list_all (\<lambda>s. starts_with s ''/'') out \<Longrightarrow>
  list_all (\<lambda>s. starts_with s ''/'') (remove_dot_segments out (map led ts))"
proof (induction ts arbitrary: out)
  case (Cons t ts)
  moreover have "list_all (\<lambda>s. starts_with s ''/'') (butlast out)"
    using Cons.prems by (auto simp: list_all_iff dest: in_set_butlastD)
  ultimately show ?case by (auto simp: starts_with_iff)
qed simp

lemma combine_path_root: "starts_with r ''/'' \<Longrightarrow> combine_path [] r = r"
  by (auto simp: combine_path_def ends_with_iff starts_with_iff)

lemma concat_led:
  "list_all (\<lambda>s. starts_with s ''/'') out \<Longrightarrow> starts_with (concat out @ led u @ q) ''/''"
  by (cases out) (auto simp: starts_with_iff)

lemma normalize_absolute:
  assumes "list_all plain (ts @ [u])" "query q"
    and find: "sv_find (concat (map led (ts @ [u])) @ q) ''//'' 0 = None"
    and dots: "sv_find (concat (map led (ts @ [u])) @ q) ''./'' 0 \<noteq> None"
  shows "normalize_path (concat (map led (ts @ [u])) @ q) =
    combine_path [] (concat (foldl push_segment [] (map led ts)) @ led u @ q)"
proof -
  let ?p = "concat (map led (ts @ [u])) @ q"
  obtain t vs where tv: "ts @ [u] = t # vs" by (cases ts) auto
  have pl: "plain t" "list_all plain vs" using assms(1) tv by auto
  have "normalize_loop 0 ?p [] [] = normalize_loop (1 + length t) (concat (map led vs) @ q) [] (led t)"
    using normalize_loop_plain [OF pl(1), of 1 "concat (map led vs) @ q" "[]" "''/''"] tv by simp
  moreover have "led t # map led vs = map led ts @ [led u]"
    using arg_cong [OF tv, of "map led"] by simp
  ultimately have "case normalize_loop 0 ?p [] [] of (out', b') \<Rightarrow>
    concat (out' @ (if b' = [] then [] else [b'])) = concat (foldl push_segment [] (map led ts)) @ led u @ q"
    using normalize_loop_segments [of "1 + length t" vs q "led t" "[]"] pl assms(2) by simp
  moreover have "?p \<noteq> []" using tv by simp
  ultimately show ?thesis using find dots
    by (auto simp: normalize_path_def normalize_start_def join_nil sv_substr_def split: prod.splits if_splits)
qed

lemma normalize_path_segments:
  assumes "list_all plain (ts @ [u])" "list_all dots_exact ts" "query q"
    and "sv_find (concat (map led (ts @ [u])) @ q) ''//'' 0 = None"
  shows "normalize_path (concat (map led (ts @ [u])) @ q) =
    concat (remove_dot_segments [] (map led ts)) @ led u @ q"
proof (cases "sv_find (concat (map led (ts @ [u])) @ q) ''./'' 0")
  case None
  then have "normalize_path (concat (map led (ts @ [u])) @ q) = concat (map led (ts @ [u])) @ q"
    by (simp add: normalize_path_def)
  moreover have "remove_dot_segments [] (map led ts) = map led ts"
    using no_dot_slash [OF None] remove_dot_segments_id [of ts "[]"] by simp
  ultimately show ?thesis by simp
next
  case (Some i)
  then show ?thesis
    using normalize_absolute [OF assms(1,3,4)] fold_push_segment [OF assms(2), of "[]"]
      combine_path_root concat_led remove_dot_segments_led [of "[]" ts] by simp
qed

subsection \<open>The algorithm of RFC 3986\<close>

text \<open>Section 5.2.4 to the letter: the input buffer is consumed from the front by the rules A to E, and the output buffer grows at its
  end or loses its last segment.\<close>

definition cut_last_segment :: "string \<Rightarrow> string" where
  "cut_last_segment out = rev (drop 1 (dropWhile (\<lambda>c. c \<noteq> CHR ''/'') (rev out)))"

definition first_segment :: "string \<Rightarrow> string" where
  "first_segment inp = take 1 inp @ takeWhile (\<lambda>c. c \<noteq> CHR ''/'') (drop 1 inp)"

function rfc_remove_dots :: "string \<Rightarrow> string \<Rightarrow> string" where
  "rfc_remove_dots inp out =
     (if inp = [] then out
      else if starts_with inp ''../'' then rfc_remove_dots (drop 3 inp) out
      else if starts_with inp ''./'' then rfc_remove_dots (drop 2 inp) out
      else if starts_with inp ''/./'' then rfc_remove_dots (drop 2 inp) out
      else if inp = ''/.'' then rfc_remove_dots ''/'' out
      else if starts_with inp ''/../'' then rfc_remove_dots (drop 3 inp) (cut_last_segment out)
      else if inp = ''/..'' then rfc_remove_dots ''/'' (cut_last_segment out)
      else if inp = ''.'' \<or> inp = ''..'' then out
      else rfc_remove_dots (drop (length (first_segment inp)) inp) (out @ first_segment inp))"
  by pat_completeness auto
termination by (relation "measure (\<lambda>(inp, out). length inp)") (auto simp: first_segment_def)

declare rfc_remove_dots.simps [simp del]

lemma takeWhile_segment:
  "\<lbrakk>plain t; r = [] \<or> hd r = CHR ''/''\<rbrakk> \<Longrightarrow> takeWhile (\<lambda>c. c \<noteq> CHR ''/'') (t @ r) = t"
  by (cases r) (auto simp: plain_def list_all_iff takeWhile_append)

lemma cut_last_led: "plain t \<Longrightarrow> cut_last_segment (out @ led t) = out"
proof -
  assume "plain t"
  then have "dropWhile (\<lambda>c. c \<noteq> CHR ''/'') (rev t @ CHR ''/'' # rev out) = CHR ''/'' # rev out"
    by (subst dropWhile_append) (auto simp: plain_def list_all_iff)
  then show ?thesis by (simp add: cut_last_segment_def)
qed

definition led_plain :: "string \<Rightarrow> bool" where
  "led_plain s \<longleftrightarrow> (\<exists>t. s = led t \<and> plain t)"

lemma cut_last_concat: "list_all led_plain outs \<Longrightarrow> cut_last_segment (concat outs) = concat (butlast outs)"
  by (cases outs rule: rev_cases) (auto simp: cut_last_led led_plain_def, simp add: cut_last_segment_def)

lemma rfc_step:
  assumes "plain t" "hd r = CHR ''/''" "r \<noteq> []"
  shows "rfc_remove_dots (led t @ r) out =
    (if t = ''.'' then rfc_remove_dots r out
     else if t = ''..'' then rfc_remove_dots r (cut_last_segment out)
     else rfc_remove_dots r (out @ led t))"
proof -
  obtain r' where r: "r = CHR ''/'' # r'" using assms(2,3) by (cases r) auto
  have first: "first_segment (led t @ r) = led t" using takeWhile_segment [OF assms(1), of r] assms(2) by (simp add: first_segment_def)
  have dots: "starts_with (led t @ r) ''/./'' \<longleftrightarrow> t = ''.''" "starts_with (led t @ r) ''/../'' \<longleftrightarrow> t = ''..''"
    using assms(1) unfolding r
    by (cases t; cases "tl t"; cases "tl (tl t)"; auto simp: starts_with_iff plain_def)+
  have "CHR ''/'' \<in> set (t @ r)" using r by simp
  then have "t @ r \<noteq> ''.''" "t @ r \<noteq> ''..''" by (force simp del: set_append)+
  then show ?thesis
    by (subst rfc_remove_dots.simps) (use dots first r in \<open>auto simp: starts_with_iff\<close>)
qed

lemma rfc_last:
  assumes "plain u" "u \<noteq> ''.''" "u \<noteq> ''..''"
  shows "rfc_remove_dots (led u) out = out @ led u"
proof -
  have first: "first_segment (led u) = led u" using takeWhile_segment [OF assms(1), of "[]"] by (simp add: first_segment_def)
  have "\<not> starts_with (led u) ''/./''" "\<not> starts_with (led u) ''/../''"
    using assms(1) by (auto simp: starts_with_iff plain_def)
  moreover have "rfc_remove_dots [] x = x" for x by (simp add: rfc_remove_dots.simps)
  ultimately show ?thesis
    by (subst rfc_remove_dots.simps) (use assms first in \<open>auto simp: starts_with_iff\<close>)
qed

lemma rfc_segments:
  assumes "list_all plain ts" "plain u" "u \<noteq> ''.''" "u \<noteq> ''..''" "list_all led_plain outs"
  shows "rfc_remove_dots (concat (map led (ts @ [u]))) (concat outs) = concat (remove_dot_segments outs (map led ts)) @ led u"
  using assms(1,5)
proof (induction ts arbitrary: outs)
  case Nil
  then show ?case using rfc_last [OF assms(2-4)] by simp
next
  case (Cons t ts)
  let ?r = "concat (map led (ts @ [u]))"
  have r: "?r \<noteq> []" "hd ?r = CHR ''/''" by (cases ts; simp)+
  have but: "list_all led_plain (butlast outs)" using Cons.prems(2) by (auto simp: list_all_iff dest: in_set_butlastD)
  have add: "list_all led_plain (outs @ [led t])" using Cons.prems by (simp add: led_plain_def [of "led t"])
  show ?case
    using rfc_step [of t ?r "concat outs"] r Cons.prems cut_last_concat [OF Cons.prems(2)]
      Cons.IH [of outs] Cons.IH [OF _ but] Cons.IH [OF _ add] by simp
qed

text \<open>C35: An absolute path with an optional query or fragment is normalised by the algorithm of RFC 3986, section 5.2.4, and the query or
  fragment is kept as it is, provided that there is no double slash in the text, that no segment begins with two dots without being the
  segment of two dots, and that the last segment is not itself a dot segment.  In the cases left out the code does not follow the
  algorithm: it keeps a final dot segment and takes a segment like \<^verbatim>\<open>..a\<close> for the parent.\<close>

theorem normalize_path_rfc:
  assumes "list_all plain (ts @ [u])" "list_all dots_exact ts" "query q"
    and "u \<noteq> ''.''" "u \<noteq> ''..''" "path = concat (map led (ts @ [u]))" "sv_find (path @ q) ''//'' 0 = None"
  shows "normalize_path (path @ q) = rfc_remove_dots path [] @ q"
  using normalize_path_segments [of ts u q] rfc_segments [of ts u "[]"] assms by simp

theorem normalize_path_rfc_witness:
  "normalize_path ''/a/./b/../../c/d?x=./..'' = rfc_remove_dots ''/a/./b/../../c/d'' [] @ ''?x=./..'' \<and>
   normalize_path ''/a/./b/../../c/d?x=./..'' = ''/c/d?x=./..''"
proof
  show "normalize_path ''/a/./b/../../c/d?x=./..'' = rfc_remove_dots ''/a/./b/../../c/d'' [] @ ''?x=./..''"
    using normalize_path_rfc [of "[''a'', ''.'', ''b'', ''..'', ''..'', ''c'']" "''d''" "''?x=./..''" "''/a/./b/../../c/d''"]
    by (simp add: plain_def dots_exact_def query_def starts_with_def sv_substr_def sv_find_def)
  show "normalize_path ''/a/./b/../../c/d?x=./..'' = ''/c/d?x=./..''" by code_simp
qed

text \<open>Also: the last segment stays even if it is a dot segment, where RFC 3986 takes it away.\<close>

theorem normalize_path_last_dots:
  "normalize_path ''/a/./b/..'' = ''/a/b/..'' \<and> rfc_remove_dots ''/a/./b/..'' [] = ''/a/'' \<and>
   normalize_path ''/a/..b/c'' = ''/a/..b/c'' \<and> normalize_path ''/./a/..b/c'' = ''/c'' \<and> rfc_remove_dots ''/./a/..b/c'' [] = ''/a/..b/c''"
  by code_simp

section \<open>URLs with an authority\<close>

lemma sv_find_single:
  "c \<notin> set h \<Longrightarrow> sv_find (p @ h @ [c] @ r) [c] (length p) = Some (length p + length h)"
proof -
  assume "c \<notin> set h"
  then have "find_if (\<lambda>x. x = c) (h @ [c] @ r) = length h" by (induction h) auto
  then show ?thesis by (simp add: sv_find_def sv_find_sub_single Let_def)
qed

lemma sv_find_double:
  "CHR ''/'' \<notin> set s \<Longrightarrow> sv_find (s @ ''//'' @ r) ''//'' 0 = Some (length s)"
  unfolding sv_find_def by (induction s) auto

lemma normalize_start_url:
  assumes "CHR ''/'' \<notin> set s" "CHR ''/'' \<notin> set h"
  shows "normalize_start (s @ ''//'' @ h @ ''/'' @ r) = length (s @ ''//'' @ h @ ''/'')"
  using sv_find_double [OF assms(1), of "h @ ''/'' @ r"]
    sv_find_single [OF assms(2), of "s @ ''//''" r]
  by (simp add: normalize_start_def numeral_2_eq_2)

text \<open>Also: a URL with a scheme, an authority and a path in which a dot stands before a slash loses its
  first character and gets a second slash after the authority: \<^verbatim>\<open>combine_path\<close> takes the
  trailing slash of its left argument off the wrong end.\<close>

theorem normalize_path_url:
  assumes "CHR ''/'' \<notin> set s" "CHR ''/'' \<notin> set h" "s \<noteq> []"
    and "sv_find (s @ ''//'' @ h @ ''/'' @ r) ''./'' 0 \<noteq> None"
  shows "\<exists>t. normalize_path (s @ ''//'' @ h @ ''/'' @ r) = tl s @ ''//'' @ h @ ''//'' @ t"
proof -
  let ?u = "s @ ''//'' @ h @ ''/'' @ r"
  have "sv_substr ?u 0 (normalize_start ?u) = s @ ''//'' @ h @ ''/''"
    using normalize_start_url [OF assms(1,2), of r] by (simp add: sv_substr_def numeral_3_eq_3)
  moreover have "combine_path (s @ ''//'' @ h @ ''/'') w = tl s @ ''//'' @ h @ ''//'' @ (if starts_with w ''/'' then drop 1 w else w)" for w
    using assms(3) by (cases s) (auto simp: combine_path_def ends_with_iff)
  ultimately show ?thesis using assms(3,4)
    by (auto simp: normalize_path_def Let_def split: prod.splits)
qed

theorem normalize_path_url_witness:
  "(\<exists>t. normalize_path ''http://h/a/./b'' = ''ttp://h//'' @ t) \<and>
   normalize_path ''http://h/a/./b'' = ''ttp://h//a/b''"
proof
  show "\<exists>t. normalize_path ''http://h/a/./b'' = ''ttp://h//'' @ t"
    using normalize_path_url [of "''http:''" "''h''" "''a/./b''"] by (simp add: sv_find_def)
  show "normalize_path ''http://h/a/./b'' = ''ttp://h//a/b''" by code_simp
qed

end
