(* ===== verification/CommonDefs.thy ===== *)
theory CommonDefs
  imports Integers
begin

text \<open>
  The comparison of byte views of \<^verbatim>\<open>common/defs.h\<close>, the shifted clock and the expiring value of \<^verbatim>\<open>common/clock.h\<close> and the logger of \<^verbatim>\<open>common/logger.cpp\<close>.
  The clock is an argument; a logger's callback is recorded by the messages it is given.
\<close>

section \<open>Byte views\<close>

text \<open>\<^verbatim>\<open>strncmp\<close> compares as unsigned octets and stops at a zero octet.\<close>

fun c_strncmp :: "bytes \<Rightarrow> bytes \<Rightarrow> nat \<Rightarrow> int" where
  "c_strncmp (x # xs) (y # ys) (Suc n) =
     (if x \<noteq> y then (if x < y then -1 else 1) else if x = 0 then 0 else c_strncmp xs ys n)"
| "c_strncmp _ _ _ = 0"

text \<open>The comparison of the character traits, and the equality of views that the library builds on it.\<close>

definition traits_compare :: "bytes \<Rightarrow> bytes \<Rightarrow> nat \<Rightarrow> int" where
  "traits_compare l r s = c_strncmp l r s"

definition view_equal :: "bytes \<Rightarrow> bytes \<Rightarrow> bool" where
  "view_equal l r \<longleftrightarrow> length l = length r \<and> traits_compare l r (length l) = 0"

lemma c_strncmp_zero:
  "length l = length r \<Longrightarrow> c_strncmp l r (length l) = 0 \<longleftrightarrow> takeWhile (\<lambda>b. b \<noteq> 0) l = takeWhile (\<lambda>b. b \<noteq> 0) r"
  by (induction l r rule: list_induct2) auto

text \<open>Also: byte views are compared as if they were strings that end at a zero octet: two views are equal just when they have the same
  length and agree up to their first zero octet, so any two views of one length that begin with a zero octet are equal.\<close>

theorem view_equal_to_zero:
  "view_equal l r \<longleftrightarrow> length l = length r \<and> takeWhile (\<lambda>b. b \<noteq> 0) l = takeWhile (\<lambda>b. b \<noteq> 0) r"
  using c_strncmp_zero [of l r] by (auto simp: view_equal_def traits_compare_def)

section \<open>Expiring values\<close>

record 'v expiring_value =
  ev_value :: 'v
  ev_expire :: "int option"
  ev_duration :: int

definition ev_make :: "int \<Rightarrow> 'v \<Rightarrow> int \<Rightarrow> 'v expiring_value" where
  "ev_make now v d = \<lparr>ev_value = v, ev_expire = Some (now + d), ev_duration = d\<rparr>"

definition ev_empty :: "'v \<Rightarrow> int \<Rightarrow> 'v expiring_value" where
  "ev_empty dflt d = \<lparr>ev_value = dflt, ev_expire = None, ev_duration = d\<rparr>"

definition ev_assign :: "int \<Rightarrow> 'v \<Rightarrow> 'v expiring_value \<Rightarrow> 'v expiring_value" where
  "ev_assign now v e = e\<lparr>ev_value := v, ev_expire := Some (now + ev_duration e)\<rparr>"

definition is_timed_out :: "int \<Rightarrow> 'v expiring_value \<Rightarrow> bool" where
  "is_timed_out now e = (case ev_expire e of None \<Rightarrow> False | Some t \<Rightarrow> now > t)"

definition ev_reset :: "'v \<Rightarrow> 'v expiring_value \<Rightarrow> 'v expiring_value" where
  "ev_reset dflt e = e\<lparr>ev_value := dflt, ev_expire := None\<rparr>"

definition ev_get :: "'v \<Rightarrow> int \<Rightarrow> 'v expiring_value \<Rightarrow> 'v \<times> 'v expiring_value" where
  "ev_get dflt now e =
     (let e1 = (if is_timed_out now e then e\<lparr>ev_value := dflt, ev_expire := None\<rparr> else e) in (ev_value e1, e1))"

text \<open>Assigning, resetting and reading at times that do not go back.\<close>

datatype 'v ev_op = EvAssign 'v | EvReset | EvGet

fun ev_step :: "'v \<Rightarrow> 'v expiring_value \<Rightarrow> int \<times> 'v ev_op \<Rightarrow> 'v expiring_value" where
  "ev_step dflt e (now, EvAssign v) = ev_assign now v e"
| "ev_step dflt e (now, EvReset) = ev_reset dflt e"
| "ev_step dflt e (now, EvGet) = snd (ev_get dflt now e)"

text \<open>What the object promises: the value assigned last and when, unless it was reset since.\<close>

fun last_assigned :: "(int \<times> 'v ev_op) list \<Rightarrow> (int \<times> 'v) option" where
  "last_assigned [] = None"
| "last_assigned ((now, EvAssign v) # ops) = Some (now, v)"
| "last_assigned ((now, EvReset) # ops) = None"
| "last_assigned ((now, EvGet) # ops) = last_assigned ops"

definition promised :: "'v \<Rightarrow> int \<Rightarrow> (int \<times> 'v) option \<Rightarrow> int \<Rightarrow> 'v" where
  "promised dflt d assigned now = (case assigned of None \<Rightarrow> dflt | Some (t, v) \<Rightarrow> if now > t + d then dflt else v)"

definition ev_refines :: "'v \<Rightarrow> int \<Rightarrow> (int \<times> 'v ev_op) list \<Rightarrow> int \<Rightarrow> 'v expiring_value \<Rightarrow> bool" where
  "ev_refines dflt d ops latest e \<longleftrightarrow> ev_duration e = d \<and>
     (\<forall>now \<ge> latest. fst (ev_get dflt now e) = promised dflt d (last_assigned ops) now)"

lemma ev_step_refines:
  assumes "ev_refines dflt d ops latest e" "latest \<le> now"
  shows "ev_refines dflt d ((now, p) # ops) now (ev_step dflt e (now, p))"
proof (cases p)
  case EvGet
  have "fst (ev_get dflt t (snd (ev_get dflt now e))) = fst (ev_get dflt t e)" if "now \<le> t" for t
    using that by (auto simp: ev_get_def is_timed_out_def Let_def split: option.splits)
  then show ?thesis using assms EvGet by (auto simp: ev_refines_def) (simp add: ev_get_def Let_def)
qed (use assms in \<open>auto simp: ev_refines_def ev_assign_def ev_reset_def ev_get_def is_timed_out_def promised_def Let_def\<close>)

lemma ev_run_refines:
  assumes "sorted (map fst ops)" "ops \<noteq> []"
  shows "ev_refines dflt d (rev ops) (fst (last ops)) (foldl (ev_step dflt) (ev_empty dflt d) ops)"
  using assms
proof (induction ops rule: rev_induct)
  case (snoc x xs)
  obtain now p where x: "x = (now, p)" by (cases x)
  show ?case
  proof (cases "xs = []")
    case True
    have "ev_refines dflt d [] now (ev_empty dflt d)" by (simp add: ev_refines_def ev_empty_def ev_get_def is_timed_out_def promised_def)
    then show ?thesis using ev_step_refines [of dflt d "[]" now "ev_empty dflt d" now p] True x by simp
  next
    case False
    then have "fst (last xs) \<le> now" using snoc.prems(1) x by (auto simp: sorted_append)
    then show ?thesis using ev_step_refines [OF snoc.IH] False snoc.prems(1) x by (auto simp: sorted_append)
  qed
qed simp

text \<open>Also: an expiring value promises what was assigned last.  After any assignments, resets and reads at times that do not go back,
  reading gives the value assigned last for as long as the duration since that assignment lasts, its end included,
  and the default value afterwards, after a reset and before any assignment.\<close>

theorem expiring_value_refines:
  assumes "sorted (map fst ops)" "ops \<noteq> []" "fst (last ops) \<le> now"
  shows "fst (ev_get dflt now (foldl (ev_step dflt) (ev_empty dflt d) ops)) = promised dflt d (last_assigned (rev ops)) now"
  using ev_run_refines [OF assms(1,2)] assms(3) by (simp add: ev_refines_def)

theorem expiring_value_refines_witness:
  "fst (ev_get (0::nat) 15 (foldl (ev_step 0) (ev_empty 0 10) [(1, EvAssign 7), (3, EvGet), (5, EvAssign 8)])) = 8 \<and>
   fst (ev_get (0::nat) 16 (foldl (ev_step 0) (ev_empty 0 10) [(1, EvAssign 7), (3, EvGet), (5, EvAssign 8)])) = 0"
  using expiring_value_refines [of "[(1, EvAssign 7), (3, EvGet), (5, EvAssign (8::nat))]" 15 0 10]
    expiring_value_refines [of "[(1, EvAssign 7), (3, EvGet), (5, EvAssign (8::nat))]" 16 0 10] by (simp add: promised_def)

section \<open>Logger\<close>

record logger_globals =
  g_log_level :: int
  g_log_callback :: "string option"
  lg_messages :: "(string option \<times> int \<times> string) list"

record logger =
  lg_name :: string
  lg_level_override :: "int option"

definition set_log_level :: "int \<Rightarrow> logger_globals \<Rightarrow> logger_globals" where
  "set_log_level level g = g\<lparr>g_log_level := level\<rparr>"

text \<open>\<^const>\<open>None\<close> stands for an empty callback on the way in and for the callback that writes to the standard error inside.\<close>

definition set_callback :: "string option \<Rightarrow> logger_globals \<Rightarrow> logger_globals" where
  "set_callback callback g = g\<lparr>g_log_callback := callback\<rparr>"

definition is_enabled :: "logger \<Rightarrow> int \<Rightarrow> logger_globals \<Rightarrow> bool" where
  "is_enabled l level g = (case lg_level_override l of Some override \<Rightarrow> level \<le> override | None \<Rightarrow> level \<le> g_log_level g)"

definition log_impl :: "int \<Rightarrow> string \<Rightarrow> logger_globals \<Rightarrow> logger_globals" where
  "log_impl level message g = g\<lparr>lg_messages := lg_messages g @ [(g_log_callback g, level, message)]\<rparr>"

definition vlog :: "logger \<Rightarrow> int \<Rightarrow> string \<Rightarrow> logger_globals \<Rightarrow> logger_globals" where
  "vlog l level text g = (if is_enabled l level g then log_impl level (lg_name l @ '' '' @ text) g else g)"

definition get_log_level :: "logger_globals \<Rightarrow> int" where
  "get_log_level g = g_log_level g"

text \<open>The line that the default callback prints; the text of the date and the thread are arguments.  Names are padded on the right.\<close>

definition log_level_names :: "string list" where
  "log_level_names = [''ERROR'', ''WARN'', ''INFO'', ''DEBUG'', ''TRACE'']"

definition log_to_file :: "string \<Rightarrow> nat \<Rightarrow> nat \<Rightarrow> int \<Rightarrow> string \<Rightarrow> string" where
  "log_to_file date us tid level message =
     (let level_str = (if level \<ge> 0 \<and> level < int (length log_level_names) then log_level_names ! nat level else ''UNKNOWN'')
      in date @ ''.'' @ zero_pad 6 (dec us) @ '' '' @ level_str @ replicate (5 - length level_str) CHR '' '' @
         '' ['' @ dec tid @ ''] '' @ message @ [CHR 0x0A])"

text \<open>Also: a logger passes a message on exactly when its level is enabled, with its name in front, to the callback of that moment, and a
  logger with a level of its own does not depend on the global level.\<close>

theorem vlog_enabled:
  "lg_messages (vlog l level text (set_log_level n (set_callback c g))) =
     lg_messages g @
       (if level \<le> (case lg_level_override l of Some own \<Rightarrow> own | None \<Rightarrow> n) then [(c, level, lg_name l @ '' '' @ text)] else [])"
  by (simp add: vlog_def is_enabled_def log_impl_def set_log_level_def set_callback_def split: option.split)

section \<open>The shifted clock\<close>

text \<open>The shift is static; the base clock is an argument.\<close>

definition steady_now :: "int \<Rightarrow> int \<Rightarrow> int" where
  "steady_now base_now m_time_shift = base_now + m_time_shift"

definition add_time_shift :: "int \<Rightarrow> int \<Rightarrow> int" where
  "add_time_shift v m_time_shift = m_time_shift + v"

definition reset_time_shift :: "int \<Rightarrow> int" where
  "reset_time_shift m_time_shift = 0"

section \<open>Small utilities\<close>

unbundle bit_operations_syntax

definition bitwise_includes :: "'a :: len word \<Rightarrow> 'a word \<Rightarrow> bool" where
  "bitwise_includes lhs rhs \<longleftrightarrow> lhs AND rhs = rhs"

definition safe_string_view :: "string option \<Rightarrow> string" where
  "safe_string_view cstr = (case cstr of Some s \<Rightarrow> takeWhile (\<lambda>c. c \<noteq> CHR 0x00) s | None \<Rightarrow> [])"

definition make_optional_if :: "bool \<Rightarrow> 'a \<Rightarrow> 'a option" where
  "make_optional_if condition v = (if condition then Some v else None)"

text \<open>Also: the inclusion of bit sets is the subset relation of their members.\<close>

theorem bitwise_includes_subset: "bitwise_includes lhs rhs \<longleftrightarrow> {i. bit rhs i} \<subseteq> {i. bit lhs i}"
  by (auto simp: bitwise_includes_def bit_eq_iff bit_and_iff dest: bit_imp_le_length)

end
