(* ===== verification/OwnedHandles.thy ===== *)
theory OwnedHandles
  imports Main "HOL-Library.Multiset"
begin

text \<open>
  The two classes that own a handle: \<^verbatim>\<open>AutoFd\<close> of \<^verbatim>\<open>common/autofd.h\<close>, which closes a descriptor, and \<^verbatim>\<open>AutoPod\<close> of
  \<^verbatim>\<open>common/utils.h\<close>, which calls a deleter on plain data.  The objects of a program are the cells of a list, so that an
  object may be moved to itself; every operation gives the cells and the handles that were closed.  The value
  that stands for no handle, \<^verbatim>\<open>EVUTIL_INVALID_SOCKET\<close> or the zeroed data, is a parameter.  The locale \<^verbatim>\<open>owner\<close> states what
  both classes promise, and the account of handles that follows from it is proved once.
\<close>

section \<open>Model\<close>

subsection \<open>Descriptors\<close>

definition dup_fd :: "('r \<Rightarrow> 'r) \<Rightarrow> 'r \<Rightarrow> 'r \<Rightarrow> 'r" where
  "dup_fd dup invalid fd = (if fd \<noteq> invalid then dup fd else invalid)"

definition adopt_fd :: "'r \<Rightarrow> 'r \<Rightarrow> 'r" where
  "adopt_fd invalid fd = (if fd \<noteq> invalid then fd else invalid)"

definition autofd_is_valid :: "'r \<Rightarrow> 'r \<Rightarrow> bool" where
  "autofd_is_valid invalid m_fd \<longleftrightarrow> m_fd \<noteq> invalid"

definition autofd_release :: "'r \<Rightarrow> nat \<Rightarrow> 'r list \<Rightarrow> 'r \<times> 'r list" where
  "autofd_release invalid i s = (s ! i, s[i := invalid])"

definition autofd_reset :: "'r \<Rightarrow> nat \<Rightarrow> 'r \<Rightarrow> 'r list \<Rightarrow> 'r list \<times> 'r list" where
  "autofd_reset invalid i new_fd s =
     (let fd = s ! i; s1 = s[i := new_fd]
      in (s1, if fd \<noteq> invalid \<and> new_fd \<noteq> fd then [fd] else []))"

text \<open>The move resets the target first, and only then reads the source.\<close>

definition autofd_assign :: "'r \<Rightarrow> nat \<Rightarrow> nat \<Rightarrow> 'r list \<Rightarrow> 'r list \<times> 'r list" where
  "autofd_assign invalid i j s =
     (let (s1, closed) = autofd_reset invalid i invalid s;
          fd = s1 ! j;
          s2 = s1[j := invalid]
      in (s2[i := fd], closed))"

subsection \<open>Plain data with a deleter\<close>

definition autopod_release :: "'r \<Rightarrow> nat \<Rightarrow> 'r list \<Rightarrow> 'r \<times> 'r list" where
  "autopod_release zero i s = (s ! i, s[i := zero])"

definition autopod_clear :: "'r \<Rightarrow> nat \<Rightarrow> 'r list \<Rightarrow> 'r list \<times> 'r list" where
  "autopod_clear zero i s = (snd (autopod_release zero i s), [s ! i])"

text \<open>The new value is given by value: a reference to the object's own data, which the function would read after clearing it, and
  writes through \<^verbatim>\<open>get\<close> are left out.\<close>

definition autopod_reset :: "'r \<Rightarrow> nat \<Rightarrow> 'r \<Rightarrow> 'r list \<Rightarrow> 'r list \<times> 'r list" where
  "autopod_reset zero i d s = (let (s1, deleted) = autopod_clear zero i s in (s1[i := d], deleted))"

definition autopod_assign :: "nat \<Rightarrow> nat \<Rightarrow> 'r list \<Rightarrow> 'r list \<times> 'r list" where
  "autopod_assign i j s = (s[j := s ! i, i := s ! j], [])"

subsection \<open>Programs that use them\<close>

text \<open>The operations of a class, and which handles the caller hands over with a reset: a descriptor that the object already
  has stays where it is.\<close>

record 'r owner_ops =
  op_reset :: "nat \<Rightarrow> 'r \<Rightarrow> 'r list \<Rightarrow> 'r list \<times> 'r list"
  op_release :: "nat \<Rightarrow> 'r list \<Rightarrow> 'r \<times> 'r list"
  op_assign :: "nat \<Rightarrow> nat \<Rightarrow> 'r list \<Rightarrow> 'r list \<times> 'r list"
  op_clear :: "nat \<Rightarrow> 'r list \<Rightarrow> 'r list \<times> 'r list"
  op_gain :: "'r \<Rightarrow> 'r \<Rightarrow> 'r list"

definition autofd_ops :: "'r \<Rightarrow> 'r owner_ops" where
  "autofd_ops invalid = \<lparr>op_reset = autofd_reset invalid, op_release = autofd_release invalid,
     op_assign = autofd_assign invalid, op_clear = (\<lambda>i. autofd_reset invalid i invalid),
     op_gain = (\<lambda>old new. if new = old then [] else [new])\<rparr>"

definition autopod_ops :: "'r \<Rightarrow> 'r owner_ops" where
  "autopod_ops zero = \<lparr>op_reset = autopod_reset zero, op_release = autopod_release zero,
     op_assign = autopod_assign, op_clear = autopod_clear zero, op_gain = (\<lambda>old new. [new])\<rparr>"

datatype 'r own_op =
    Own_make 'r \<comment> \<open>construct from a handle\<close>
  | Own_reset nat 'r
  | Own_release nat
  | Own_move_make nat \<comment> \<open>construct by moving from an object\<close>
  | Own_assign nat nat
  | Own_destroy nat \<comment> \<open>the destructor, or a reset without a handle\<close>

record 'r own_state =
  objs :: "'r list"
  closed :: "'r list"
  acquired :: "'r list"
  released :: "'r list"

definition own_start :: "'r own_state" where
  "own_start = \<lparr>objs = [], closed = [], acquired = [], released = []\<rparr>"

fun own_step :: "'r owner_ops \<Rightarrow> 'r \<Rightarrow> 'r own_op \<Rightarrow> 'r own_state \<Rightarrow> 'r own_state" where
  "own_step ops null (Own_make r) st = st\<lparr>objs := objs st @ [r], acquired := acquired st @ [r]\<rparr>"
| "own_step ops null (Own_reset i r) st =
     (let (s, c) = op_reset ops i r (objs st)
      in st\<lparr>objs := s, closed := closed st @ c, acquired := acquired st @ op_gain ops (objs st ! i) r\<rparr>)"
| "own_step ops null (Own_release i) st =
     (let (r, s) = op_release ops i (objs st) in st\<lparr>objs := s, released := released st @ [r]\<rparr>)"
| "own_step ops null (Own_move_make j) st =
     (let (s, c) = op_assign ops (length (objs st)) j (objs st @ [null]) in st\<lparr>objs := s, closed := closed st @ c\<rparr>)"
| "own_step ops null (Own_assign i j) st =
     (let (s, c) = op_assign ops i j (objs st) in st\<lparr>objs := s, closed := closed st @ c\<rparr>)"
| "own_step ops null (Own_destroy i) st =
     (let (s, c) = op_clear ops i (objs st) in st\<lparr>objs := s, closed := closed st @ c\<rparr>)"

definition own_run :: "'r owner_ops \<Rightarrow> 'r \<Rightarrow> 'r own_op list \<Rightarrow> 'r own_state" where
  "own_run ops null prog = fold (own_step ops null) prog own_start"

text \<open>A program names only objects that it has constructed; \<^term>\<open>n\<close> of them exist at its start.\<close>

fun own_wf :: "nat \<Rightarrow> 'r own_op list \<Rightarrow> bool" where
  "own_wf n [] = True"
| "own_wf n (Own_make r # ops) = own_wf (n + 1) ops"
| "own_wf n (Own_reset i r # ops) = (i < n \<and> own_wf n ops)"
| "own_wf n (Own_release i # ops) = (i < n \<and> own_wf n ops)"
| "own_wf n (Own_move_make j # ops) = (j < n \<and> own_wf (n + 1) ops)"
| "own_wf n (Own_assign i j # ops) = (i < n \<and> j < n \<and> own_wf n ops)"
| "own_wf n (Own_destroy i # ops) = (i < n \<and> own_wf n ops)"

section \<open>The account of handles\<close>

text \<open>The handles in a list, each as often as it occurs.\<close>

definition live :: "'r \<Rightarrow> 'r list \<Rightarrow> 'r multiset" where
  "live null s = filter_mset (\<lambda>r. r \<noteq> null) (mset s)"

lemma live_simps [simp]:
  "live null [] = {#}" "live null (s @ t) = live null s + live null t" "live null [null] = {#}"
  by (simp_all add: live_def)

lemma live_update:
  assumes "i < length s"
  shows "live null (s[i := r]) + live null [s ! i] = live null s + live null [r]"
proof -
  have "mset (s[i := r]) + mset [s ! i] = mset s + mset [r]" using assms by (simp add: mset_update nth_mem_mset)
  then show ?thesis unfolding live_def filter_union_mset [symmetric] by simp
qed

lemma live_clear: "i < length s \<Longrightarrow> live null s = live null (s[i := null]) + live null [s ! i]"
  using live_update [of i s null null] by simp

locale owner =
  fixes ops :: "'r owner_ops" and null :: 'r
  assumes reset_length: "length (fst (op_reset ops i r s)) = length s"
    and reset_account: "i < length s \<Longrightarrow>
      live null (fst (op_reset ops i r s)) + live null (snd (op_reset ops i r s)) = live null s + live null (op_gain ops (s ! i) r)"
    and release_cell: "op_release ops i s = (s ! i, s[i := null])"
    and assign_length: "length (fst (op_assign ops i j s)) = length s"
    and assign_account: "i < length s \<Longrightarrow> j < length s \<Longrightarrow>
      live null (fst (op_assign ops i j s)) + live null (snd (op_assign ops i j s)) = live null s"
    and clear_cell: "fst (op_clear ops i s) = s[i := null]"
    and clear_account: "i < length s \<Longrightarrow> live null (snd (op_clear ops i s)) = live null [s ! i]"
begin

definition balanced :: "'r own_state \<Rightarrow> bool" where
  "balanced st \<longleftrightarrow> live null (acquired st) = live null (closed st) + live null (released st) + live null (objs st)"

lemma step_length:
  "length (objs (own_step ops null x st)) = (case x of Own_make r \<Rightarrow> length (objs st) + 1
     | Own_move_make j \<Rightarrow> length (objs st) + 1 | _ \<Rightarrow> length (objs st))"
  by (cases x) (simp_all add: case_prod_beta release_cell clear_cell reset_length assign_length)

lemma step_balanced:
  assumes "balanced st" "own_wf (length (objs st)) (x # xs)"
  shows "balanced (own_step ops null x st)" "own_wf (length (objs (own_step ops null x st))) xs"
proof -
  show "own_wf (length (objs (own_step ops null x st))) xs"
    unfolding step_length using assms(2) by (cases x) simp_all
  show "balanced (own_step ops null x st)"
  proof (cases x)
    case (Own_reset i r)
    with assms reset_account [of i "objs st" r] show ?thesis
      by (simp add: balanced_def case_prod_beta ac_simps)
  next
    case (Own_release i)
    with assms live_clear [of i "objs st" null] show ?thesis
      by (simp add: balanced_def release_cell ac_simps)
  next
    case (Own_move_make j)
    with assms assign_account [of "length (objs st)" "objs st @ [null]" j] show ?thesis
      by (simp add: balanced_def case_prod_beta ac_simps)
  next
    case (Own_assign i j)
    with assms assign_account [of i "objs st" j] show ?thesis
      by (simp add: balanced_def case_prod_beta ac_simps)
  next
    case (Own_destroy i)
    with assms live_clear [of i "objs st" null] clear_account [of i "objs st"] show ?thesis
      by (simp add: balanced_def case_prod_beta clear_cell ac_simps)
  qed (use assms in \<open>simp add: balanced_def ac_simps\<close>)
qed

lemma fold_balanced:
  "balanced st \<Longrightarrow> own_wf (length (objs st)) prog \<Longrightarrow> balanced (fold (own_step ops null) prog st)"
proof (induction prog arbitrary: st)
  case (Cons x xs)
  then show ?case using step_balanced [OF Cons.prems] by simp
qed simp

lemma run_account:
  assumes "own_wf 0 prog"
  shows "live null (acquired (own_run ops null prog)) = live null (closed (own_run ops null prog)) +
    live null (released (own_run ops null prog)) + live null (objs (own_run ops null prog))"
  using fold_balanced [of own_start prog] assms by (simp add: own_run_def own_start_def balanced_def)

end

lemma autofd_move_account:
  assumes "i < length s" "j < length s"
  shows "live invalid (fst (autofd_assign invalid i j s)) + live invalid (snd (autofd_assign invalid i j s)) = live invalid s"
proof -
  let ?s1 = "s[i := invalid]"
  let ?s2 = "?s1[j := invalid]"
  have "?s2 ! i = invalid" using assms by (cases "i = j") simp_all
  then have "live invalid (?s2[i := ?s1 ! j]) = live invalid ?s2 + live invalid [?s1 ! j]"
    using live_update [of i ?s2 invalid "?s1 ! j"] assms by simp
  also have "\<dots> = live invalid ?s1" using live_clear [of j ?s1 invalid] assms by simp
  finally have moved: "live invalid (?s2[i := ?s1 ! j]) = live invalid ?s1" .
  have "live invalid (snd (autofd_assign invalid i j s)) = live invalid [s ! i]"
    by (auto simp: autofd_assign_def autofd_reset_def Let_def)
  moreover have "fst (autofd_assign invalid i j s) = ?s2[i := ?s1 ! j]"
    by (simp add: autofd_assign_def autofd_reset_def Let_def)
  ultimately show ?thesis using moved live_clear [OF assms(1), of invalid] by simp
qed

lemma autofd_reset_account:
  assumes "i < length s"
  shows "live invalid (s[i := r]) + live invalid (if s ! i \<noteq> invalid \<and> r \<noteq> s ! i then [s ! i] else []) =
    live invalid s + live invalid (if r = s ! i then [] else [r])"
  using live_update [OF assms, of invalid r] by (auto simp: assms)

interpretation fd: owner "autofd_ops invalid" invalid for invalid
proof unfold_locales
  show "i < length s \<Longrightarrow> live invalid (fst (op_reset (autofd_ops invalid) i r s)) + live invalid (snd (op_reset (autofd_ops invalid) i r s)) =
      live invalid s + live invalid (op_gain (autofd_ops invalid) (s ! i) r)" for i s r
    using autofd_reset_account [of i s invalid r] by (simp add: autofd_ops_def autofd_reset_def Let_def)
  show "i < length s \<Longrightarrow> j < length s \<Longrightarrow>
      live invalid (fst (op_assign (autofd_ops invalid) i j s)) + live invalid (snd (op_assign (autofd_ops invalid) i j s)) = live invalid s" for i j s
    using autofd_move_account by (simp add: autofd_ops_def)
  show "i < length s \<Longrightarrow> live invalid (snd (op_clear (autofd_ops invalid) i s)) = live invalid [s ! i]" for i s
    by (auto simp: autofd_ops_def autofd_reset_def Let_def)
qed (simp_all add: autofd_ops_def autofd_reset_def autofd_assign_def autofd_release_def Let_def)

interpretation pod: owner "autopod_ops zero" zero for zero
proof unfold_locales
  show "i < length s \<Longrightarrow> live zero (fst (op_reset (autopod_ops zero) i r s)) + live zero (snd (op_reset (autopod_ops zero) i r s)) =
      live zero s + live zero (op_gain (autopod_ops zero) (s ! i) r)" for i s r
    using live_update [of i s zero r] by (simp add: autopod_ops_def autopod_reset_def autopod_clear_def autopod_release_def)
  show "i < length s \<Longrightarrow> j < length s \<Longrightarrow>
      live zero (fst (op_assign (autopod_ops zero) i j s)) + live zero (snd (op_assign (autopod_ops zero) i j s)) = live zero s" for i j s
    by (simp add: autopod_ops_def autopod_assign_def live_def mset_swap)
qed (simp_all add: autopod_ops_def autopod_reset_def autopod_clear_def autopod_assign_def autopod_release_def)

subsection \<open>What follows for the two classes\<close>

lemma autofd_step_valid:
  "invalid \<notin> set (closed st) \<Longrightarrow> invalid \<notin> set (closed (own_step (autofd_ops invalid) invalid x st))"
  by (cases x) (auto simp: autofd_ops_def autofd_reset_def autofd_assign_def autofd_release_def Let_def)

lemma autofd_run_valid: "invalid \<notin> set (closed (own_run (autofd_ops invalid) invalid prog))"
proof -
  have "invalid \<notin> set (closed st) \<Longrightarrow> invalid \<notin> set (closed (fold (own_step (autofd_ops invalid) invalid) prog st))" for st
    by (induction prog arbitrary: st) (simp_all add: autofd_step_valid)
  then show ?thesis by (simp add: own_run_def own_start_def)
qed

text \<open>C37: in every program over objects of \<^verbatim>\<open>AutoFd\<close> and of \<^verbatim>\<open>AutoPod\<close>, with moves of an object to itself, the handles handed over are
  exactly those closed, those released to the caller and those that the objects still hold, each as often; so once the
  objects are destroyed nothing has leaked and nothing was closed more often than it was handed over.  A descriptor
  that is not valid is never closed.\<close>

theorem owned_handles_balance:
  fixes inv :: 'r
  assumes "own_wf 0 prog"
  defines "fds \<equiv> own_run (autofd_ops inv) inv prog" and "pods \<equiv> own_run (autopod_ops inv) inv prog"
  shows "live inv (acquired fds) = live inv (closed fds) + live inv (released fds) + live inv (objs fds) \<and>
    live inv (acquired pods) = live inv (closed pods) + live inv (released pods) + live inv (objs pods) \<and>
    inv \<notin> set (closed fds)"
  using fd.run_account [OF assms(1), of inv] pod.run_account [OF assms(1), of inv] autofd_run_valid [of inv prog]
  unfolding fds_def pods_def by blast

text \<open>Three descriptors: one moved and closed, one moved to itself, which closes it, and one released.\<close>

definition own_sample :: "int own_op list" where
  "own_sample = [Own_make 3, Own_make 4, Own_move_make 0, Own_assign 1 1, Own_reset 2 5, Own_reset 2 5, Own_release 2,
     Own_destroy 0, Own_destroy 1, Own_destroy 2]"

theorem owned_handles_balance_witness:
  "own_wf 0 own_sample \<and> {#3, 4, 5#} = live (- 1) (closed (own_run (autofd_ops (- 1)) (- 1) own_sample)) + {#5 :: int#}"
proof -
  have wf: "own_wf 0 own_sample" by (simp add: own_sample_def)
  have st: "own_run (autofd_ops (- 1)) (- 1) own_sample = \<lparr>objs = [-1, -1, -1], closed = [4, 3], acquired = [3, 4, 5], released = [5]\<rparr>"
    by (simp add: own_sample_def own_run_def own_start_def autofd_ops_def autofd_reset_def autofd_assign_def autofd_release_def Let_def)
  show ?thesis using wf owned_handles_balance [OF wf, of "- 1"] by (simp add: st live_def)
qed

end
