(* ===== verification/Streams.thy ===== *)
theory Streams
  imports StringUtils
begin

text \<open>
  Two readers of \<^verbatim>\<open>common/utils.h\<close>: \<^verbatim>\<open>StringViewStream\<close>, an input stream over a string view, and \<^verbatim>\<open>exec_with_output\<close>, which runs a
  command and reads all it prints.  The get area of the stream buffer is the text and the index of the next character.
  The answers of \<^verbatim>\<open>popen\<close>, \<^verbatim>\<open>fread\<close> and \<^verbatim>\<open>pclose\<close> are parameters.
\<close>

section \<open>Model\<close>

subsection \<open>A stream over a string view\<close>

record view_buf =
  eback :: string
  gptr :: nat

definition view_buf_make :: "string \<Rightarrow> view_buf" where
  "view_buf_make v = \<lparr>eback = v, gptr = 0\<rparr>"

datatype seekdir = Seek_beg | Seek_cur | Seek_end | Seek_other

definition view_move :: "int \<Rightarrow> view_buf \<Rightarrow> int \<times> view_buf" where
  "view_move np b = (if 0 \<le> np \<and> np \<le> int (length (eback b)) then (np, b\<lparr>gptr := nat np\<rparr>) else (- 1, b))"

definition seekoff :: "int \<Rightarrow> seekdir \<Rightarrow> view_buf \<Rightarrow> int \<times> view_buf" where
  "seekoff off way b =
     (case way of
        Seek_beg \<Rightarrow> view_move off b
      | Seek_cur \<Rightarrow> view_move (int (gptr b) + off) b
      | Seek_end \<Rightarrow> view_move (int (length (eback b)) + off) b
      | Seek_other \<Rightarrow> (- 1, b))"

definition seekpos :: "int \<Rightarrow> view_buf \<Rightarrow> int \<times> view_buf" where
  "seekpos pos b = view_move pos b"

text \<open>Reading is that of \<^verbatim>\<open>std::streambuf\<close>: what is left in the get area, up to the number asked for; there is no underflow.\<close>

definition sgetn :: "nat \<Rightarrow> view_buf \<Rightarrow> string \<times> view_buf" where
  "sgetn n b = (let n' = min n (length (eback b) - gptr b) in (take n' (drop (gptr b) (eback b)), b\<lparr>gptr := gptr b + n'\<rparr>))"

datatype view_op = View_seekoff int seekdir | View_seekpos int | View_read nat

datatype view_answer = At int | Got string

fun view_step :: "view_op \<Rightarrow> view_buf \<Rightarrow> view_answer \<times> view_buf" where
  "view_step (View_seekoff off way) b = (let (r, b') = seekoff off way b in (At r, b'))"
| "view_step (View_seekpos pos) b = (let (r, b') = seekpos pos b in (At r, b'))"
| "view_step (View_read n) b = (let (t, b') = sgetn n b in (Got t, b'))"

fun view_run :: "view_op list \<Rightarrow> view_buf \<Rightarrow> view_answer list \<times> view_buf" where
  "view_run [] b = ([], b)"
| "view_run (x # xs) b = (let (a, b1) = view_step x b; (as, b2) = view_run xs b1 in (a # as, b2))"

subsection \<open>Running a command\<close>

datatype exec_error = EE_POPEN | EE_PCLOSE

definition exec_error_str :: "exec_error \<Rightarrow> string" where
  "exec_error_str e = (case e of EE_POPEN \<Rightarrow> ''popen()'' | EE_PCLOSE \<Rightarrow> ''pclose()'')"

record exec_result =
  ex_output :: string
  ex_status :: int

definition WEXITSTATUS :: "int \<Rightarrow> int" where
  "WEXITSTATUS status = status div 256 mod 256"

text \<open>The loop ends with the first read that gives nothing.\<close>

fun read_pipe :: "string list \<Rightarrow> string \<Rightarrow> string" where
  "read_pipe [] output = output"
| "read_pipe (buf # bufs) output = (if buf = [] then output else read_pipe bufs (output @ buf))"

definition exec_with_output :: "(string \<Rightarrow> (string list \<times> int) option) \<Rightarrow> string \<Rightarrow> exec_error + exec_result" where
  "exec_with_output popen cmd =
     (case popen (cmd @ '' 2>&1'') of
        None \<Rightarrow> Inl EE_POPEN
      | Some (reads, ret) \<Rightarrow>
          (let output = read_pipe reads []
           in if ret = - 1 then Inl EE_PCLOSE else Inr \<lparr>ex_output = output, ex_status = WEXITSTATUS ret\<rparr>))"

section \<open>Properties\<close>

text \<open>The reference: a text and a position in it.  A position outside the text is refused and changes nothing.\<close>

fun spec_target :: "string \<Rightarrow> nat \<Rightarrow> view_op \<Rightarrow> int" where
  "spec_target v p (View_seekpos k) = k"
| "spec_target v p (View_seekoff k w) =
     (case w of Seek_beg \<Rightarrow> k | Seek_cur \<Rightarrow> int p + k | Seek_end \<Rightarrow> int (length v) + k | Seek_other \<Rightarrow> - 1)"
| "spec_target v p (View_read n) = int (min (p + n) (length v))"

fun spec_run :: "string \<Rightarrow> nat \<Rightarrow> view_op list \<Rightarrow> view_answer list" where
  "spec_run v p [] = []"
| "spec_run v p (x # xs) =
     (let k = spec_target v p x; ok = (0 \<le> k \<and> k \<le> int (length v)); p' = (if ok then nat k else p)
      in (case x of View_read n \<Rightarrow> Got (drop p (take p' v)) | _ \<Rightarrow> At (if ok then k else - 1)) # spec_run v p' xs)"

lemma view_step_spec:
  assumes "eback b = v" "gptr b \<le> length v" "view_step x b = (a, b')"
  defines "k \<equiv> spec_target v (gptr b) x"
  shows "eback b' = v" "gptr b' = (if 0 \<le> k \<and> k \<le> int (length v) then nat k else gptr b)" "gptr b' \<le> length v"
    "a = (case x of View_read n \<Rightarrow> Got (drop (gptr b) (take (gptr b') v)) | _ \<Rightarrow> At (if 0 \<le> k \<and> k \<le> int (length v) then k else - 1))"
proof -
  have "eback b' = v \<and> gptr b' = (if 0 \<le> k \<and> k \<le> int (length v) then nat k else gptr b) \<and> gptr b' \<le> length v \<and>
    a = (case x of View_read n \<Rightarrow> Got (drop (gptr b) (take (gptr b') v)) | _ \<Rightarrow> At (if 0 \<le> k \<and> k \<le> int (length v) then k else - 1))"
  proof (cases x)
    case (View_seekoff off way)
    then show ?thesis using assms(1-3)
      by (cases way) (auto simp: k_def seekoff_def view_move_def Let_def split: if_splits)
  next
    case (View_seekpos pos)
    then show ?thesis using assms(1-3) by (auto simp: k_def seekpos_def view_move_def split: if_splits)
  next
    case (View_read n)
    then show ?thesis using assms(1-3) by (auto simp: k_def sgetn_def Let_def drop_take min_def)
  qed
  then show "eback b' = v" "gptr b' = (if 0 \<le> k \<and> k \<le> int (length v) then nat k else gptr b)" "gptr b' \<le> length v"
    "a = (case x of View_read n \<Rightarrow> Got (drop (gptr b) (take (gptr b') v)) | _ \<Rightarrow> At (if 0 \<le> k \<and> k \<le> int (length v) then k else - 1))"
    by blast+
qed

lemma view_run_spec:
  "eback b = v \<Longrightarrow> gptr b \<le> length v \<Longrightarrow> fst (view_run ops b) = spec_run v (gptr b) ops"
proof (induction ops arbitrary: b)
  case (Cons x xs)
  obtain a b' where s: "view_step x b = (a, b')" by (cases "view_step x b")
  note sp = view_step_spec [OF Cons.prems s]
  have "fst (view_run (x # xs) b) = a # fst (view_run xs b')" by (simp add: s case_prod_beta Let_def)
  also have "\<dots> = a # spec_run v (gptr b') xs" using Cons.IH [OF sp(1,3)] by simp
  finally show ?case unfolding sp(4) sp(2) by (simp add: Let_def)
qed simp

text \<open>Also: whatever is sought and read, the stream answers as a position in the text does; a seek that leaves the text is refused
  and does not move, and the end of the text is a position.\<close>

theorem view_stream_correct:
  "fst (view_run ops (view_buf_make v)) = spec_run v 0 ops"
  using view_run_spec [of "view_buf_make v" v ops] by (simp add: view_buf_make_def)

lemma read_pipe_eq: "read_pipe bufs acc = acc @ concat (takeWhile (\<lambda>b. b \<noteq> []) bufs)"
  by (induction bufs arbitrary: acc) auto

text \<open>How the system encodes the end of a process: by exit, or by a signal, with or without a memory dump.\<close>

definition wait_exited :: "nat \<Rightarrow> int" where
  "wait_exited code = int code * 256"

definition wait_signaled :: "nat \<Rightarrow> bool \<Rightarrow> int" where
  "wait_signaled sig core = int sig + (if core then 128 else 0)"

text \<open>Also: the result has all that the command wrote and its exit code; but a command that a signal ended is reported with status zero,
  as one that succeeded.\<close>

theorem exec_reports:
  assumes "popen (cmd @ '' 2>&1'') = Some (chunks @ [[]], ret)" "list_all (\<lambda>b. b \<noteq> []) chunks"
    and "code < 256" "0 < sig" "sig < 127" "ret = wait_exited code \<or> ret = wait_signaled sig core"
  shows "exec_with_output popen cmd =
    Inr \<lparr>ex_output = concat chunks, ex_status = (if ret = wait_exited code then int code else 0)\<rparr>"
proof -
  have "takeWhile (\<lambda>b. b \<noteq> []) (chunks @ [[]]) = chunks" using assms(2) by (simp add: takeWhile_append2 list_all_iff)
  moreover have "ret \<noteq> - 1" "WEXITSTATUS ret = (if ret = wait_exited code then int code else 0)"
    using assms(3-6) by (auto simp: wait_exited_def wait_signaled_def WEXITSTATUS_def split: if_splits)
  ultimately show ?thesis using assms(1) by (simp add: exec_with_output_def read_pipe_eq)
qed

theorem exec_reports_witness:
  "exec_with_output (\<lambda>c. Some ([''out'', ''put''] @ [[]], wait_signaled 9 False)) ''run'' = Inr \<lparr>ex_output = ''output'', ex_status = 0\<rparr>"
  using exec_reports [of "\<lambda>c. Some ([''out'', ''put''] @ [[]], wait_signaled 9 False)" "''run''" "[''out'', ''put'']" "wait_signaled 9 False" 1 9 False]
  by (simp add: wait_signaled_def wait_exited_def)

end
