(* ===== verification/TimeUtils.thy ===== *)
theory TimeUtils
  imports Integers Streams "HOL-Library.Signed_Division" "HOL-Library.Char_ord"
begin

text \<open>
  Time conversions and formatting of \<^verbatim>\<open>common/time_utils.cpp\<close>.  A duration is the \<^typ>\<open>int\<close> number of its units, a time point
  its duration since the epoch in nanoseconds.  The calendar functions of the C library and \<^verbatim>\<open>strftime\<close>'s conversions
  are arguments; a \<^verbatim>\<open>tm\<close> is of any type.
\<close>

section \<open>Conversions\<close>

definition to_micros :: "int \<Rightarrow> int" where
  "to_micros duration = duration sdiv 1000"

definition to_millis :: "int \<Rightarrow> int" where
  "to_millis duration = duration sdiv 1000000"

definition to_secs :: "int \<Rightarrow> int" where
  "to_secs duration = duration sdiv 1000000000"

definition gmtime_from_system_time :: "(int \<Rightarrow> 'tm) \<Rightarrow> int \<Rightarrow> 'tm" where
  "gmtime_from_system_time gmtime_r timepoint = gmtime_r (to_secs timepoint)"

definition system_time_from_gmtime :: "('tm \<Rightarrow> int) \<Rightarrow> 'tm \<Rightarrow> int" where
  "system_time_from_gmtime timegm tm_info = timegm tm_info * 1000000000"

definition localtime_from_system_time :: "(int \<Rightarrow> 'tm) \<Rightarrow> int \<Rightarrow> 'tm" where
  "localtime_from_system_time localtime_r timepoint = localtime_r (to_secs timepoint)"

text \<open>On Windows the function of the C library can fail, and the result is then the zero time.\<close>

definition win_localtime_from_system_time :: "'tm \<Rightarrow> (int \<Rightarrow> 'tm option) \<Rightarrow> int \<Rightarrow> 'tm" where
  "win_localtime_from_system_time tm0 localtime64_s timepoint =
     (case localtime64_s (to_secs timepoint) of Some tm_info \<Rightarrow> tm_info | None \<Rightarrow> tm0)"

record timeval =
  tv_sec :: int
  tv_usec :: int

definition timeval_from_timepoint :: "int \<Rightarrow> timeval" where
  "timeval_from_timepoint timepoint =
     (let micros = to_micros timepoint in \<lparr>tv_sec = micros sdiv 1000000, tv_usec = micros smod 1000000\<rparr>)"

definition duration_to_timeval :: "int \<Rightarrow> timeval" where
  "duration_to_timeval usecs = \<lparr>tv_sec = usecs sdiv 1000000, tv_usec = usecs smod 1000000\<rparr>"

section \<open>Time zones\<close>

definition alnum :: "char \<Rightarrow> bool" where
  "alnum c \<longleftrightarrow> c_isdigit c \<or> (CHR ''a'' \<le> c \<and> c \<le> CHR ''z'') \<or> (CHR ''A'' \<le> c \<and> c \<le> CHR ''Z'')"

definition validate_gmt_tz :: "string \<Rightarrow> nat option" where
  "validate_gmt_tz s =
     (let str = trim s;
          start_offset = find_if (\<lambda>c. \<not> c_isspace c) s;
          alpha = (starts_with str ''GMT'' \<or> starts_with str ''UTC'');
          digital = (\<not> alpha \<and> (starts_with str ''-'' \<or> starts_with str ''+'') \<and> starts_with (drop 1 str) ''0000'')
      in if \<not> alpha \<and> \<not> digital then None
         else let len = (if alpha then 3 else 5)
              in if length str > len \<and> alnum (str ! len)
                 then None
                 else Some (start_offset + len))"

section \<open>Parsing\<close>

text \<open>What \<^verbatim>\<open>std::get_time\<close> leaves behind: the time, the buffer of the stream, and the two flags of the stream.\<close>

record 'tm time_read =
  gt_tm :: 'tm
  gt_buf :: view_buf
  gt_eof :: bool
  gt_fail :: bool

text \<open>\<^verbatim>\<open>tellg\<close> builds a sentry first, which fails when the end was reached, and asks the buffer only after that.\<close>

definition tellg :: "'tm time_read \<Rightarrow> int" where
  "tellg r = (if gt_eof r \<or> gt_fail r then - 1 else fst (seekoff 0 Seek_cur (gt_buf r)))"

text \<open>The position behind the time, \<^const>\<open>None\<close> for \<^verbatim>\<open>npos\<close>, and the time; \<^verbatim>\<open>msvc\<close> is the build with the library of Microsoft.\<close>

definition parse_time ::
    "(view_buf \<Rightarrow> string \<Rightarrow> 'tm time_read) \<Rightarrow> bool \<Rightarrow> ('tm \<Rightarrow> int) \<Rightarrow> 'tm \<Rightarrow> string \<Rightarrow> string \<Rightarrow> u64 option \<times> 'tm" where
  "parse_time get_time msvc tm_year tm0 s format =
     (let input = get_time (view_buf_make s) format
      in if gt_fail input then (None, tm0)
         else if msvc \<and> tm_year (gt_tm input) = 0 then (None, tm0)
         else let whole_string_parsed = (tellg input = - 1);
                  ret_pos = (if whole_string_parsed then word_of_nat (length s) else word_of_int (tellg input))
              in (Some ret_pos, gt_tm input))"

section \<open>Formatting\<close>

text \<open>The format \<^verbatim>\<open>{:06}\<close>: at least six characters, zeroes after the sign.\<close>

definition fmt06 :: "int \<Rightarrow> string" where
  "fmt06 us = (if us < 0 then ''-'' @ zero_pad 5 (dec (nat (- us))) else zero_pad 6 (dec (nat us)))"

datatype inject_state = DEFAULT | AFTER_PERCENT

fun inject_loop :: "int \<Rightarrow> bool \<Rightarrow> inject_state \<Rightarrow> string \<Rightarrow> string" where
  "inject_loop us gmt DEFAULT [] = []"
| "inject_loop us gmt AFTER_PERCENT [] = ''%''"
| "inject_loop us gmt DEFAULT (ch # rest) =
     (if ch = CHR ''%'' then inject_loop us gmt AFTER_PERCENT rest else ch # inject_loop us gmt DEFAULT rest)"
| "inject_loop us gmt AFTER_PERCENT (ch # rest) =
     (if ch = CHR ''f'' then fmt06 us @ inject_loop us gmt DEFAULT rest
      else if ch = CHR ''%'' then ''%%'' @ inject_loop us gmt DEFAULT rest
      else if (ch = CHR ''z'' \<or> ch = CHR ''Z'') \<and> gmt
      then (if ch = CHR ''z'' then ''+0000'' else ''GMT'') @ inject_loop us gmt DEFAULT rest
      else CHR ''%'' # ch # inject_loop us gmt DEFAULT rest)"

definition inject_microseconds_and_gmt :: "int \<Rightarrow> bool \<Rightarrow> string \<Rightarrow> string" where
  "inject_microseconds_and_gmt us gmt format = inject_loop us gmt DEFAULT format"

text \<open>\<^verbatim>\<open>strftime\<close> reads its format from left to right: an ordinary character stands for itself, \<^verbatim>\<open>%%\<close> for a percent sign, and a
  percent sign with a character for the conversion of that character.\<close>

fun strftime :: "('tm \<Rightarrow> char \<Rightarrow> string) \<Rightarrow> 'tm \<Rightarrow> string \<Rightarrow> string" where
  "strftime conv tm [] = []"
| "strftime conv tm [c] = [c]"
| "strftime conv tm (c # d # rest) =
     (if c \<noteq> CHR ''%'' then c # strftime conv tm (d # rest)
      else (if d = CHR ''%'' then ''%'' else conv tm d) @ strftime conv tm rest)"

definition format_time :: "('tm \<Rightarrow> char \<Rightarrow> string) \<Rightarrow> 'tm \<Rightarrow> int \<Rightarrow> bool \<Rightarrow> string \<Rightarrow> string" where
  "format_time conv tm us gmt format = strftime conv tm (inject_microseconds_and_gmt us gmt format)"

definition format_gmtime_tm :: "('tm \<Rightarrow> char \<Rightarrow> string) \<Rightarrow> 'tm \<Rightarrow> string \<Rightarrow> string" where
  "format_gmtime_tm conv tm_info format = format_time conv tm_info 0 True format"

definition format_localtime_tm :: "('tm \<Rightarrow> char \<Rightarrow> string) \<Rightarrow> 'tm \<Rightarrow> string \<Rightarrow> string" where
  "format_localtime_tm conv tm_info format = format_time conv tm_info 0 False format"

definition format_gmtime :: "('tm \<Rightarrow> char \<Rightarrow> string) \<Rightarrow> (int \<Rightarrow> 'tm) \<Rightarrow> int \<Rightarrow> string \<Rightarrow> string" where
  "format_gmtime conv gmtime_r time format =
     format_time conv (gmtime_from_system_time gmtime_r time) (to_micros (time - to_secs time * 1000000000)) True format"

definition format_localtime :: "('tm \<Rightarrow> char \<Rightarrow> string) \<Rightarrow> (int \<Rightarrow> 'tm) \<Rightarrow> int \<Rightarrow> string \<Rightarrow> string" where
  "format_localtime conv localtime_r time format =
     format_time conv (localtime_from_system_time localtime_r time) (to_micros (time - to_secs time * 1000000000)) False format"

section \<open>Properties\<close>

lemma strftime_cons: "c \<noteq> CHR ''%'' \<Longrightarrow> strftime conv tm (c # rest) = c # strftime conv tm rest"
  by (cases rest) simp_all

lemma strftime_literal: "CHR ''%'' \<notin> set lit \<Longrightarrow> strftime conv tm (lit @ rest) = lit @ strftime conv tm rest"
  by (induction lit) (auto simp: strftime_cons)

lemma fmt06_no_percent: "CHR ''%'' \<notin> set (fmt06 us)"
proof -
  have "CHR ''%'' \<notin> set (dec n)" for n
    using fmt_uint_digits [of 10 False n] by (auto simp: dec_def is_base_digit_def digit_val_def Let_def)
  then show ?thesis by (auto simp: fmt06_def zero_pad_def)
qed

lemma strftime_inject:
  "strftime conv tm (inject_loop us gmt DEFAULT format) =
     strftime (\<lambda>t c. if c = CHR ''f'' then fmt06 us
       else if gmt \<and> c = CHR ''z'' then ''+0000'' else if gmt \<and> c = CHR ''Z'' then ''GMT'' else conv t c) tm format"
  (is "_ = strftime ?conv tm format")
proof (induction ?conv tm format rule: strftime.induct)
  case (3 tm c d rest)
  then show ?case
    by (cases "c = CHR ''%''") (auto simp: strftime_cons strftime_literal fmt06_no_percent)
qed auto

text \<open>Also: formatting extends \<^verbatim>\<open>strftime\<close> by conversions of its own.  Formatting a time is the same as \<^verbatim>\<open>strftime\<close> with the conversion
  \<^verbatim>\<open>f\<close> giving the microseconds and, for GMT, \<^verbatim>\<open>z\<close> and \<^verbatim>\<open>Z\<close> giving \<^verbatim>\<open>+0000\<close> and \<^verbatim>\<open>GMT\<close>, for every format, the
  escaped percent sign included.\<close>

theorem format_time_extends:
  "format_time conv tm us gmt format =
     strftime (\<lambda>t c. if c = CHR ''f'' then fmt06 us
       else if gmt \<and> c = CHR ''z'' then ''+0000'' else if gmt \<and> c = CHR ''Z'' then ''GMT'' else conv t c) tm format"
  by (simp add: format_time_def inject_microseconds_and_gmt_def strftime_inject)

text \<open>Also: a time value is exact and its parts have one sign: seconds and microseconds make up the time truncated to microseconds,
  the microseconds stay below a million, and they are negative or zero for times before the epoch.\<close>

theorem timeval_exact:
  "tv_sec (timeval_from_timepoint t) * 1000000 + tv_usec (timeval_from_timepoint t) = to_micros t \<and>
   \<bar>tv_usec (timeval_from_timepoint t)\<bar> < 1000000 \<and>
   (if 0 \<le> t then 0 \<le> tv_usec (timeval_from_timepoint t) else tv_usec (timeval_from_timepoint t) \<le> 0) \<and>
   \<bar>t - to_micros t * 1000\<bar> < 1000"
proof -
  have "\<bar>m smod 1000000\<bar> < (1000000 :: int)" for m by (simp add: signed_modulo_int_def abs_mult)
  moreover have "\<bar>t smod 1000\<bar> < 1000" by (simp add: signed_modulo_int_def abs_mult)
  moreover have "t - to_micros t * 1000 = t smod 1000" by (simp add: to_micros_def minus_sdiv_mult_eq_smod)
  moreover have "0 \<le> t \<Longrightarrow> 0 \<le> to_micros t smod 1000000" "\<not> 0 \<le> t \<Longrightarrow> to_micros t smod 1000000 \<le> 0"
    by (auto simp: to_micros_def signed_modulo_int_def signed_divide_int_def mult_le_0_iff zero_le_mult_iff sgn_if)
  ultimately show ?thesis by (simp add: timeval_from_timepoint_def Let_def sdiv_mult_smod_eq)
qed

text \<open>What is documented of \<^verbatim>\<open>std::get_time\<close>: it reads forward in the text it is given, and it sets the end flag just when it has read everything.\<close>

definition reads_forward :: "(view_buf \<Rightarrow> string \<Rightarrow> 'tm time_read) \<Rightarrow> string \<Rightarrow> string \<Rightarrow> bool" where
  "reads_forward get_time s format \<longleftrightarrow>
     (let r = get_time (view_buf_make s) format
      in eback (gt_buf r) = s \<and> gptr (gt_buf r) \<le> length s \<and> (gt_eof r \<longleftrightarrow> gptr (gt_buf r) = length s))"

text \<open>Also: parsing gives the time and the number of characters that were read, at the end of the text and before it, or nothing when the text does not
  fit the format, so that the rest of the text can be given to the check of the time zone.\<close>

theorem parse_time_position:
  assumes "reads_forward get_time s format"
  shows "parse_time get_time False tm_year tm0 s format =
    (let r = get_time (view_buf_make s) format
     in if gt_fail r then (None, tm0) else (Some (word_of_nat (gptr (gt_buf r))), gt_tm r))"
  using assms
  by (auto simp: parse_time_def reads_forward_def tellg_def seekoff_def view_move_def Let_def)

text \<open>Also: the build with the library of Microsoft refuses every time of the year 1900, which the other builds accept.\<close>

theorem parse_time_msvc:
  "parse_time get_time True tm_year tm0 s format =
    (if tm_year (gt_tm (get_time (view_buf_make s) format)) = 0 then (None, tm0)
     else parse_time get_time False tm_year tm0 s format)"
  by (simp add: parse_time_def Let_def)

text \<open>A reader of four digits, for a concrete run.\<close>

definition read_year :: "view_buf \<Rightarrow> string \<Rightarrow> string time_read" where
  "read_year b format =
     (let (t, b') = sgetn 4 b
      in \<lparr>gt_tm = t, gt_buf = b', gt_eof = (gptr b' = length (eback b')), gt_fail = (length t < 4)\<rparr>)"

theorem parse_time_position_witness:
  "parse_time read_year False (\<lambda>t. 0) [] ''2009 GMT'' ''%Y'' = (Some 4, ''2009'') \<and>
   validate_gmt_tz (drop 4 ''2009 GMT'') = Some 4"
proof
  have "reads_forward read_year ''2009 GMT'' ''%Y''" by code_simp
  from parse_time_position [OF this, of "\<lambda>t. 0" "[]"]
  show "parse_time read_year False (\<lambda>t. 0) [] ''2009 GMT'' ''%Y'' = (Some 4, ''2009'')"
    by (simp add: read_year_def sgetn_def view_buf_make_def Let_def)
  show "validate_gmt_tz (drop 4 ''2009 GMT'') = Some 4" by code_simp
qed

lemma rtrim_append: "x \<noteq> [] \<Longrightarrow> \<not> c_isspace (last x) \<Longrightarrow> rtrim (x @ y) = x @ rtrim y"
proof -
  assume x: "x \<noteq> []" "\<not> c_isspace (last x)"
  have d: "dropWhile c_isspace (rev x) = rev x" using x by (cases x rule: rev_cases) auto
  show ?thesis
  proof (cases "list_all c_isspace (rev y)")
    case True
    then have "dropWhile c_isspace (rev y @ rev x) = rev x" "dropWhile c_isspace (rev y) = []"
      using d by (simp_all add: dropWhile_append list_all_iff)
    then show ?thesis by (simp add: rtrim_dropWhile)
  next
    case False
    then obtain c where "c \<in> set (rev y)" "\<not> c_isspace c" by (auto simp: list_all_iff)
    then have "dropWhile c_isspace (rev y @ rev x) = dropWhile c_isspace (rev y) @ rev x" by (rule dropWhile_append1)
    then show ?thesis by (simp add: rtrim_dropWhile)
  qed
qed

definition gmt_names :: "string list" where
  "gmt_names = [''GMT'', ''UTC'', ''+0000'', ''-0000'']"

lemma space_not_alnum: "c_isspace c \<Longrightarrow> \<not> alnum c"
  by (auto simp: c_isspace_def alnum_def c_isdigit_def less_eq_char_def Let_def)

lemma gmt_name_cases:
  "(if starts_with str ''GMT'' \<or> starts_with str ''UTC'' then Some 3
    else if (starts_with str ''-'' \<or> starts_with str ''+'') \<and> starts_with (drop 1 str) ''0000'' then Some (5 :: nat) else None) = Some n
   \<longleftrightarrow> (\<exists>tz \<in> set gmt_names. \<exists>r. str = tz @ r \<and> n = length tz)"
  by (auto simp: starts_with_iff gmt_names_def)

lemma validate_unfold:
  "validate_gmt_tz s = Some p \<longleftrightarrow>
     (\<exists>tz r. trim s = tz @ r \<and> tz \<in> set gmt_names \<and> p = length (takeWhile c_isspace s) + length tz \<and>
        (r = [] \<or> \<not> alnum (hd r)))"
proof -
  have "validate_gmt_tz s = Some p \<longleftrightarrow>
    (\<exists>n. (if starts_with (trim s) ''GMT'' \<or> starts_with (trim s) ''UTC'' then Some 3
      else if (starts_with (trim s) ''-'' \<or> starts_with (trim s) ''+'') \<and> starts_with (drop 1 (trim s)) ''0000'' then Some (5 :: nat) else None) = Some n \<and>
      \<not> (length (trim s) > n \<and> alnum (trim s ! n)) \<and> p = find_if (\<lambda>c. \<not> c_isspace c) s + n)"
    by (auto simp: validate_gmt_tz_def Let_def)
  also have "\<dots> \<longleftrightarrow> (\<exists>tz r. trim s = tz @ r \<and> tz \<in> set gmt_names \<and> p = length (takeWhile c_isspace s) + length tz \<and>
        (r = [] \<or> \<not> alnum (hd r)))"
  proof -
    have q: "\<not> (length (trim s) > length tz \<and> alnum (trim s ! length tz)) \<longleftrightarrow> r = [] \<or> \<not> alnum (hd r)" if "trim s = tz @ r" for tz r
      using that by (cases r) auto
    show ?thesis unfolding gmt_name_cases find_if_eq_takeWhile not_not using q by blast
  qed
  finally show ?thesis .
qed

text \<open>Also: the time-zone check accepts exactly the names of Greenwich time.  It returns a position just when the text is white space,
  one of \<^verbatim>\<open>GMT\<close>, \<^verbatim>\<open>UTC\<close>, \<^verbatim>\<open>+0000\<close> and \<^verbatim>\<open>-0000\<close>, and a rest that does not go on with a letter or a digit, and the position is
  the end of the name.\<close>

theorem validate_gmt_tz_correct:
  "validate_gmt_tz s = Some p \<longleftrightarrow>
     (\<exists>sp tz rest. s = sp @ tz @ rest \<and> list_all c_isspace sp \<and> tz \<in> set gmt_names \<and> p = length sp + length tz \<and>
        (if rest = [] then True else \<not> alnum (hd rest)))"
proof
  assume "validate_gmt_tz s = Some p"
  then obtain tz r where v: "trim s = tz @ r" "tz \<in> set gmt_names" "p = length (takeWhile c_isspace s) + length tz"
    "r = [] \<or> \<not> alnum (hd r)" by (auto simp: validate_unfold)
  obtain t where t: "ltrim s = trim s @ t" "\<forall>c \<in> set t. c_isspace c" using rtrim_prefix [of "ltrim s"] by (auto simp: trim_def)
  have "s = takeWhile c_isspace s @ tz @ r @ t" using t(1) v(1) by (metis append_assoc ltrim_dropWhile takeWhile_dropWhile_id)
  moreover have "list_all c_isspace (takeWhile c_isspace s)" by (auto simp: list_all_iff dest: set_takeWhileD)
  moreover have "if r @ t = [] then True else \<not> alnum (hd (r @ t))"
    using v(4) t(2) space_not_alnum by (cases r; cases t) auto
  ultimately show "\<exists>sp tz rest. s = sp @ tz @ rest \<and> list_all c_isspace sp \<and> tz \<in> set gmt_names \<and> p = length sp + length tz \<and>
        (if rest = [] then True else \<not> alnum (hd rest))"
    using v(2,3) by blast
next
  assume "\<exists>sp tz rest. s = sp @ tz @ rest \<and> list_all c_isspace sp \<and> tz \<in> set gmt_names \<and> p = length sp + length tz \<and>
        (if rest = [] then True else \<not> alnum (hd rest))"
  then obtain sp tz rest where v: "s = sp @ tz @ rest" "list_all c_isspace sp" "tz \<in> set gmt_names" "p = length sp + length tz"
    "if rest = [] then True else \<not> alnum (hd rest)" by blast
  have tz: "tz \<noteq> []" "\<not> c_isspace (hd tz)" "\<not> c_isspace (last tz)" using v(3) by (auto simp: gmt_names_def c_isspace_def)
  have sp: "takeWhile c_isspace s = sp" "dropWhile c_isspace s = tz @ rest"
    using v(1,2) tz(1,2) by (auto simp: takeWhile_append dropWhile_append list_all_iff hd_append takeWhile_eq_Nil_iff dropWhile_eq_self_iff)
  then have "trim s = tz @ rtrim rest" using rtrim_append [OF tz(1,3)] by (simp add: trim_def ltrim_dropWhile)
  moreover have "rtrim rest = [] \<or> \<not> alnum (hd (rtrim rest))"
    using v(5) rtrim_prefix [of rest] by (metis hd_append2 append_is_Nil_conv)
  ultimately show "validate_gmt_tz s = Some p" using v(3,4) sp(1) unfolding validate_unfold by blast
qed

end
