(* ===== verification/FileLines.thy ===== *)
theory FileLines
  imports StringView
begin

text \<open>
  Reading lines from a file, \<^verbatim>\<open>for_each_line\<close> and \<^verbatim>\<open>read_line\<close> of \<^verbatim>\<open>common/file.cpp\<close>.  The file handle is a parameter: the size that
  the system reports, the pieces that successive reads return, none of them empty, and the status of the
  last read, zero at the end of the file and negative on an error.
\<close>

section \<open>Model\<close>

definition is_break :: "char \<Rightarrow> bool" where
  "is_break c \<longleftrightarrow> c = CHR 0x0d \<or> c = CHR 0x0a"

text \<open>The calls of the user's action, a position and a line each, and the answer of the action.  The action takes the position
  as a number of 32 bits.\<close>

definition action_pos :: "nat \<Rightarrow> nat" where
  "action_pos k = k mod 2 ^ 32"

type_synonym line_action = "nat \<Rightarrow> string \<Rightarrow> bool"

record line_state =
  ls_line :: string
  ls_line_idx :: nat
  ls_calls :: "(nat \<times> string) list"

text \<open>The inner loop over one piece; \<^const>\<open>Inl\<close> when the action asked to stop.\<close>

fun line_chunk :: "line_action \<Rightarrow> nat \<Rightarrow> nat \<Rightarrow> string \<Rightarrow> line_state \<Rightarrow> (nat \<times> string) list + line_state" where
  "line_chunk action file_idx i [] st = Inr st"
| "line_chunk action file_idx i (c # cs) st =
     (if \<not> is_break c then line_chunk action file_idx (i + 1) cs (st\<lparr>ls_line := ls_line st @ [c]\<rparr>)
      else let line_view = trim (ls_line st);
               calls = ls_calls st @ [(action_pos (ls_line_idx st), line_view)]
           in if \<not> action (action_pos (ls_line_idx st)) line_view then Inl calls
              else line_chunk action file_idx (i + 1) cs \<lparr>ls_line = [], ls_line_idx = file_idx + i + 1, ls_calls = calls\<rparr>)"

fun line_loop :: "line_action \<Rightarrow> nat \<Rightarrow> string list \<Rightarrow> line_state \<Rightarrow> (nat \<times> string) list + line_state" where
  "line_loop action file_idx [] st = Inr st"
| "line_loop action file_idx (chunk # chunks) st =
     (case line_chunk action file_idx 0 chunk st of
        Inl calls \<Rightarrow> Inl calls
      | Inr st1 \<Rightarrow> line_loop action (file_idx + length chunk) chunks st1)"

text \<open>The size less one is converted to an unsigned number of 64 bits.\<close>

definition file_for_each_line :: "line_action \<Rightarrow> int \<Rightarrow> string list \<Rightarrow> int \<Rightarrow> int \<times> (nat \<times> string) list" where
  "file_for_each_line action file_size chunks last_read =
     (if file_size < 0 then (-1, [])
      else case line_loop action 0 chunks \<lparr>ls_line = [], ls_line_idx = 0, ls_calls = []\<rparr> of
             Inl calls \<Rightarrow> (0, calls)
           | Inr st \<Rightarrow>
               (if last_read < 0 then -1 else 0,
                if (file_size - 1) mod 2 ^ 64 > int (ls_line_idx st)
                then ls_calls st @ [(action_pos (ls_line_idx st), trim (ls_line st))] else ls_calls st))"

fun read_line_loop :: "string list \<Rightarrow> string \<Rightarrow> string" where
  "read_line_loop [] line = line"
| "read_line_loop (chunk # chunks) line =
     (let i = find_if is_break chunk
      in if i < length chunk then line @ take i chunk else read_line_loop chunks (line @ chunk))"

text \<open>The position is set first; the pieces are what is read from there on.\<close>

definition file_read_line :: "int \<Rightarrow> string list \<Rightarrow> string option" where
  "file_read_line set_position chunks = (if set_position < 0 then None else Some (trim (read_line_loop chunks [])))"

section \<open>Properties\<close>

text \<open>The lines of a text with their positions, each ended by one line break, and the rest after the last break.\<close>

fun lines_from :: "nat \<Rightarrow> string \<Rightarrow> string \<Rightarrow> (nat \<times> string) list \<times> nat \<times> string" where
  "lines_from start line [] = ([], start, line)"
| "lines_from start line (c # cs) =
     (if is_break c
      then (case lines_from (start + length line + 1) [] cs of (ls, rest) \<Rightarrow> ((start, line) # ls, rest))
      else lines_from start (line @ [c]) cs)"

lemma lines_from_append:
  "lines_from start line (xs @ ys) =
     (case lines_from start line xs of
        (ls, start1, line1) \<Rightarrow> (case lines_from start1 line1 ys of (ls2, rest) \<Rightarrow> (ls @ ls2, rest)))"
  by (induction xs arbitrary: start line) (auto split: prod.splits)

lemma lines_from_length: "lines_from start line xs = (ls, start1, line1) \<Longrightarrow> start1 + length line1 = start + length line + length xs"
  by (induction xs arbitrary: start line ls) (auto split: if_splits prod.splits)

lemma line_chunk_lines:
  assumes "\<And>i l. action i l"
  shows "file_idx + i = ls_line_idx st + length (ls_line st) \<Longrightarrow>
    lines_from (ls_line_idx st) (ls_line st) cs = (ls, start, line) \<Longrightarrow>
    line_chunk action file_idx i cs st =
      Inr \<lparr>ls_line = line, ls_line_idx = start, ls_calls = ls_calls st @ map (\<lambda>(k, l). (action_pos k, trim l)) ls\<rparr>"
proof (induction cs arbitrary: i st ls)
  case (Cons c cs)
  show ?case
  proof (cases "is_break c")
    case True
    obtain ls1 where "lines_from (file_idx + i + 1) [] cs = (ls1, start, line)" "ls = (ls_line_idx st, ls_line st) # ls1"
      using Cons.prems True by (auto split: prod.splits)
    then show ?thesis
      using Cons.IH [of "i + 1" "\<lparr>ls_line = [], ls_line_idx = file_idx + i + 1,
          ls_calls = ls_calls st @ [(action_pos (ls_line_idx st), trim (ls_line st))]\<rparr>" ls1] True assms by (simp add: Let_def)
  next
    case False
    then show ?thesis using Cons.IH [of "i + 1" "st\<lparr>ls_line := ls_line st @ [c]\<rparr>" ls] Cons.prems by simp
  qed
qed simp

lemma line_loop_lines:
  assumes "\<And>i l. action i l"
  shows "file_idx = ls_line_idx st + length (ls_line st) \<Longrightarrow>
    lines_from (ls_line_idx st) (ls_line st) (concat chunks) = (ls, start, line) \<Longrightarrow>
    line_loop action file_idx chunks st =
      Inr \<lparr>ls_line = line, ls_line_idx = start, ls_calls = ls_calls st @ map (\<lambda>(k, l). (action_pos k, trim l)) ls\<rparr>"
proof (induction chunks arbitrary: file_idx st ls)
  case (Cons ch chunks)
  obtain ls1 s1 l1 where f: "lines_from (ls_line_idx st) (ls_line st) ch = (ls1, s1, l1)" by (cases "lines_from (ls_line_idx st) (ls_line st) ch")
  obtain ls2 where f2: "lines_from s1 l1 (concat chunks) = (ls2, start, line)" "ls = ls1 @ ls2"
    using Cons.prems(2) f by (auto simp: lines_from_append split: prod.splits)
  show ?case
    using line_chunk_lines [where action = action, OF assms, of file_idx 0 st ch ls1 s1 l1] f f2 lines_from_length [OF f] Cons.prems(1)
      Cons.IH [of "file_idx + length ch" "\<lparr>ls_line = l1, ls_line_idx = s1, ls_calls = ls_calls st @ map (\<lambda>(k, l). (action_pos k, trim l)) ls1\<rparr>" ls2]
    by simp
qed simp

lemma read_line_loop_eq: "read_line_loop chunks line = line @ takeWhile (\<lambda>c. \<not> is_break c) (concat chunks)"
proof (induction chunks arbitrary: line)
  case (Cons ch chunks)
  show ?case
  proof (cases "find_if is_break ch < length ch")
    case True
    then have "\<exists>c \<in> set ch. is_break c" by (induction ch) (auto split: if_splits)
    then have "takeWhile (\<lambda>c. \<not> is_break c) (ch @ concat chunks) = takeWhile (\<lambda>c. \<not> is_break c) ch" by (metis takeWhile_append1)
    then show ?thesis using True by (simp add: Let_def take_find_if)
  next
    case False
    then have "\<forall>c \<in> set ch. \<not> is_break c" by (induction ch) (auto split: if_splits)
    then show ?thesis using False Cons.IH by (simp add: Let_def)
  qed
qed simp

lemma lines_from_positions:
  assumes "list_all (\<lambda>c. \<not> is_break c) line" "lines_from start line xs = (ls, start1, line1)" "(k, l) \<in> set ((start1, line1) # ls)"
  shows "start \<le> k \<and> takeWhile (\<lambda>c. \<not> is_break c) (drop (k - start) (line @ xs)) = l"
  using assms
proof (induction xs arbitrary: start line ls)
  case (Cons c xs)
  show ?case
  proof (cases "is_break c")
    case True
    obtain ls1 where f: "lines_from (start + length line + 1) [] xs = (ls1, start1, line1)" "ls = (start, line) # ls1"
      using Cons.prems(2) True by (auto split: prod.splits)
    show ?thesis
    proof (cases "(k, l) = (start, line)")
      case True
      then show ?thesis using \<open>is_break c\<close> Cons.prems(1) by (simp add: list_all_iff)
    next
      case False
      then have "(k, l) \<in> set ((start1, line1) # ls1)" using Cons.prems(3) f(2) by auto
      then have "start + length line + 1 \<le> k" "takeWhile (\<lambda>c. \<not> is_break c) (drop (k - (start + length line + 1)) xs) = l"
        using Cons.IH [OF _ f(1)] by simp_all
      moreover from this(1) have "drop (k - start) (line @ c # xs) = drop (k - (start + length line + 1)) xs"
        by (simp add: drop_Cons' Suc_diff_le)
      ultimately show ?thesis by simp
    qed
  next
    case False
    then show ?thesis using Cons.IH [of "line @ [c]" start ls] Cons.prems by simp
  qed
qed (auto simp: list_all_iff)

lemma lines_from_bound:
  "lines_from start line xs = (ls, start1, line1) \<Longrightarrow> (k, l) \<in> set ((start1, line1) # ls) \<Longrightarrow> k \<le> start + length line + length xs"
proof (induction xs arbitrary: start line ls)
  case (Cons c xs)
  then show ?case by (force split: if_splits prod.splits)
qed auto

text \<open>Also: reading lines from a file does not depend on how the system cuts the file into pieces, and the two ways of reading
  agree, for files below four gigabytes.  The action is called for every line that ends in a line break, in order, with the position where the
  line starts, and for the rest after the last break when it has at least two characters or the file is
  empty; reading one line at a position that was reported gives the line that was reported.\<close>

theorem file_lines_correct:
  assumes "\<And>i l. action i l" "file_size = int (length (concat chunks))" "file_size < 2 ^ 32"
  shows "case lines_from 0 [] (concat chunks) of (ls, start, line) \<Rightarrow>
      file_for_each_line action file_size chunks 0 =
        (0, map (\<lambda>(k, l). (k, trim l)) (ls @ (if length line \<ge> 2 \<or> concat chunks = [] then [(start, line)] else []))) \<and>
      list_all (\<lambda>(k, l). if concat (pieces k) = drop k (concat chunks) then file_read_line 0 (pieces k) = Some l else True)
        (snd (file_for_each_line action file_size chunks 0))"
proof -
  obtain ls start line where f: "lines_from 0 [] (concat chunks) = (ls, start, line)" by (cases "lines_from 0 [] (concat chunks)")
  have len: "start + length line = length (concat chunks)" using lines_from_length [OF f] by simp
  have "(file_size - 1) mod 2 ^ 64 > int start \<longleftrightarrow> length line \<ge> 2 \<or> concat chunks = []"
  proof (cases "concat chunks = []")
    case True
    then have "length (concat chunks) = 0" by (simp only: list.size)
    then have "file_size = 0" "start = 0" using assms(2) len by linarith+
    then show ?thesis using True by simp
  next
    case False
    then have "0 < length (concat chunks)" by simp
    then have "(file_size - 1) mod 2 ^ 64 = file_size - 1" using assms(2,3) by (simp add: mod_pos_pos_trivial)
    then show ?thesis using False len assms(2) by auto
  qed
  moreover have "action_pos k = k" if "(k, l) \<in> set ((start, line) # ls)" for k l
    using lines_from_bound [OF f that] assms(2,3) by (simp add: action_pos_def)
  ultimately have eq: "file_for_each_line action file_size chunks 0 =
      (0, map (\<lambda>(k, l). (k, trim l)) (ls @ (if length line \<ge> 2 \<or> concat chunks = [] then [(start, line)] else [])))"
    using line_loop_lines [where action = action, OF assms(1), of 0 "\<lparr>ls_line = [], ls_line_idx = 0, ls_calls = []\<rparr>" chunks ls start line] f assms(2)
    by (auto simp: file_for_each_line_def)
  have "file_read_line 0 (pieces k) = Some (trim l)" if "(k, l) \<in> set ((start, line) # ls)" "concat (pieces k) = drop k (concat chunks)" for k l
    using lines_from_positions [OF _ f that(1)] that(2) by (simp add: file_read_line_def read_line_loop_eq)
  then show ?thesis unfolding f eq by (auto simp: list_all_iff)
qed

theorem file_lines_correct_witness:
  "file_for_each_line (\<lambda>i l. True) 4 [''a'', [CHR 0x0a, CHR 0x62], ''c''] 0 = (0, [(0, ''a''), (2, ''bc'')]) \<and>
   file_for_each_line (\<lambda>i l. True) 3 [''a'', [CHR 0x0a, CHR 0x62]] 0 = (0, [(0, ''a'')])"
  using file_lines_correct [of "\<lambda>i l. True" 4 "[''a'', [CHR 0x0a, CHR 0x62], ''c'']" "\<lambda>k. []"]
    file_lines_correct [of "\<lambda>i l. True" 3 "[''a'', [CHR 0x0a, CHR 0x62]]" "\<lambda>k. []"]
  by (simp add: is_break_def) (simp add: trim_def ltrim_def rtrim_def c_isspace_def Let_def)

end
