(* ===== verification/RotatingLog.thy ===== *)
theory RotatingLog
  imports Integers
begin

text \<open>
  The rotating log of \<^verbatim>\<open>common/rotating_log_to_file.cpp\<close>.  The file system is a map from names to contents; what it may refuse,
  and the position it reports after opening a file for appending, are a parameter.  The text of the current
  time and the thread are arguments.  The mutex is left out: a message is logged at once.
\<close>

section \<open>Model\<close>














definition rotated_name :: "string \<Rightarrow> nat \<Rightarrow> string" where
  "rotated_name path index = path @ ''.'' @ dec index"








section \<open>Files by index\<close>

text \<open>Index zero is the current file.\<close>

definition log_name :: "string \<Rightarrow> nat \<Rightarrow> string" where
  "log_name path k = (if k = 0 then path else rotated_name path k)"













section \<open>The log as a list of files\<close>












lemma log_name_0 [simp]: "log_name path 0 = path"
  by (simp add: log_name_def)













end
