(* ===== verification/Netlink.thy ===== *)
theory Netlink
  imports Prelude
begin

text \<open>
  The messages of the routing socket of Linux, as \<^verbatim>\<open>common/network_monitor.cpp\<close> reads them with the macros of
  \<^verbatim>\<open>linux/netlink.h\<close> and \<^verbatim>\<open>linux/rtnetlink.h\<close>: a message has a header of sixteen octets with its length and its type, a
  message about a route goes on with twelve octets and then with attributes, each of which has a length, a type and
  a payload.  Numbers are in the order of a little-endian host.  A pointer to a message or to an attribute is the
  list of the octets from there to the end of the buffer.
\<close>

unbundle bit_operations_syntax

section \<open>Model\<close>

text \<open>An octet past the end of the buffer reads as zero.\<close>

definition rd8 :: "bytes \<Rightarrow> nat \<Rightarrow> nat" where
  "rd8 b i = (if i < length b then unat (b ! i) else 0)"

definition rd16 :: "bytes \<Rightarrow> nat \<Rightarrow> nat" where
  "rd16 b i = rd8 b i + 256 * rd8 b (i + 1)"

definition rd32 :: "bytes \<Rightarrow> nat \<Rightarrow> nat" where
  "rd32 b i = rd16 b i + 65536 * rd16 b (i + 2)"

definition nl_align :: "nat \<Rightarrow> nat" where
  "nl_align n = (n + 3) div 4 * 4"

definition RTA_OK :: "bytes \<Rightarrow> int \<Rightarrow> bool" where
  "RTA_OK b len \<longleftrightarrow> 4 \<le> len \<and> 4 \<le> rd16 b 0 \<and> int (rd16 b 0) \<le> len"

definition rta_type :: "bytes \<Rightarrow> nat" where
  "rta_type b = rd16 b 2"

definition RTA_DATA :: "bytes \<Rightarrow> bytes" where
  "RTA_DATA b = take (rd16 b 0 - 4) (drop 4 b)"

lemma nl_align_ge: "n \<le> nl_align n"
  unfolding nl_align_def by linarith

text \<open>The attributes that a loop with \<^verbatim>\<open>RTA_OK\<close> and \<^verbatim>\<open>RTA_NEXT\<close> visits.\<close>

function rta_attrs :: "bytes \<Rightarrow> int \<Rightarrow> (nat \<times> bytes) list" where
  "rta_attrs b len =
     (if RTA_OK b len
      then (rta_type b, RTA_DATA b) # rta_attrs (drop (nl_align (rd16 b 0)) b) (len - int (nl_align (rd16 b 0)))
      else [])"
  by auto
termination
proof (relation "measure (\<lambda>(b, len). nat len)")
  fix b :: bytes and len
  assume "RTA_OK b len"
  then show "((drop (nl_align (rd16 b 0)) b, len - int (nl_align (rd16 b 0))), b, len) \<in> measure (\<lambda>(b, len). nat len)"
    using nl_align_ge [of "rd16 b 0"] by (simp add: RTA_OK_def)
qed simp

declare rta_attrs.simps [simp del]

definition NLMSG_OK :: "bytes \<Rightarrow> int \<Rightarrow> bool" where
  "NLMSG_OK b len \<longleftrightarrow> 16 \<le> len \<and> 16 \<le> rd32 b 0 \<and> int (rd32 b 0) \<le> len"

definition nlmsg_type :: "bytes \<Rightarrow> nat" where
  "nlmsg_type b = rd16 b 4"

definition NLMSG_DATA :: "bytes \<Rightarrow> bytes" where
  "NLMSG_DATA b = drop 16 b"

text \<open>The messages that a loop with \<^verbatim>\<open>NLMSG_OK\<close> and \<^verbatim>\<open>NLMSG_NEXT\<close> visits.\<close>

function nl_msgs :: "bytes \<Rightarrow> int \<Rightarrow> bytes list" where
  "nl_msgs b len =
     (if NLMSG_OK b len then b # nl_msgs (drop (nl_align (rd32 b 0)) b) (len - int (nl_align (rd32 b 0))) else [])"
  by auto
termination
proof (relation "measure (\<lambda>(b, len). nat len)")
  fix b :: bytes and len
  assume "NLMSG_OK b len"
  then show "((drop (nl_align (rd32 b 0)) b, len - int (nl_align (rd32 b 0))), b, len) \<in> measure (\<lambda>(b, len). nat len)"
    using nl_align_ge [of "rd32 b 0"] by (simp add: NLMSG_OK_def)
qed simp

declare nl_msgs.simps [simp del]

definition NLMSG_ERROR :: nat where "NLMSG_ERROR = 2"
definition NLMSG_DONE :: nat where "NLMSG_DONE = 3"
definition RTM_NEWADDR :: nat where "RTM_NEWADDR = 20"
definition RTM_DELADDR :: nat where "RTM_DELADDR = 21"
definition RTM_NEWROUTE :: nat where "RTM_NEWROUTE = 24"
definition RTM_DELROUTE :: nat where "RTM_DELROUTE = 25"

lemmas nl_types = NLMSG_ERROR_def NLMSG_DONE_def RTM_NEWADDR_def RTM_DELADDR_def RTM_NEWROUTE_def RTM_DELROUTE_def

section \<open>Reading what was written\<close>

definition le16n :: "nat \<Rightarrow> bytes" where
  "le16n n = [word_of_nat n, word_of_nat (n div 256)]"

definition le32n :: "nat \<Rightarrow> bytes" where
  "le32n n = le16n n @ le16n (n div 65536)"

definition nl_pad :: "bytes \<Rightarrow> bytes" where
  "nl_pad p = p @ replicate (nl_align (length p) - length p) 0"

definition rta_encode :: "nat \<times> bytes \<Rightarrow> bytes" where
  "rta_encode a = nl_pad (le16n (4 + length (snd a)) @ le16n (fst a) @ snd a)"

definition rta_encodes :: "(nat \<times> bytes) list \<Rightarrow> bytes" where
  "rta_encodes as = concat (map rta_encode as)"

definition nl_encode :: "nat \<Rightarrow> bytes \<Rightarrow> bytes" where
  "nl_encode t body = nl_pad (le32n (16 + length body) @ le16n t @ replicate 10 0 @ body)"

lemma length_le16n [simp]: "length (le16n n) = 2"
  by (simp add: le16n_def)

lemma length_le32n [simp]: "length (le32n n) = 4"
  by (simp add: le32n_def)

lemma length_nl_pad [simp]: "length (nl_pad p) = nl_align (length p)"
  using nl_align_ge [of "length p"] by (simp add: nl_pad_def)

lemma rd8_word: "i < length b \<Longrightarrow> rd8 b i = unat (b ! i)"
  by (simp add: rd8_def)

lemma unat_byte: "unat (word_of_nat n :: u8) = n mod 256"
  by (simp add: unat_of_nat)

lemma rd8_append: "length a \<le> i \<Longrightarrow> rd8 (a @ b) i = rd8 b (i - length a)"
  by (auto simp: rd8_def nth_append)

lemma rd16_append: "length a \<le> i \<Longrightarrow> rd16 (a @ b) i = rd16 b (i - length a)"
  by (simp add: rd16_def rd8_append Suc_diff_le)

lemma rd16_le16n [simp]: "n < 65536 \<Longrightarrow> rd16 (le16n n @ b) 0 = n"
  by (simp add: rd16_def rd8_def le16n_def unat_byte)

lemma rd32_le32n [simp]: "n < 2 ^ 32 \<Longrightarrow> rd32 (le32n n @ b) 0 = n"
proof -
  assume n: "n < 2 ^ 32"
  have "rd16 (le32n n @ b) 0 = n mod 65536"
    by (simp add: le32n_def rd16_def rd8_def le16n_def unat_byte nth_append mod_mult2_eq [of n 256 256, simplified])
  moreover have "rd16 (le32n n @ b) 2 = n div 65536"
    using n by (simp add: le32n_def rd16_append)
  ultimately have "rd32 (le32n n @ b) 0 = n mod 65536 + 65536 * (n div 65536)" unfolding rd32_def by (simp only: add_0_left)
  then show ?thesis by simp
qed

lemma length_rta_encode: "length (rta_encode (t, p)) = nl_align (4 + length p)"
proof -
  have "length (le16n (4 + length p) @ le16n t @ p) = 4 + length p" by simp
  then show ?thesis by (simp only: rta_encode_def length_nl_pad fst_conv snd_conv)
qed

lemma rta_encode_read:
  assumes "4 + length p < 65536" "t < 65536"
  shows "rd16 (rta_encode (t, p) @ b) 0 = 4 + length p" "rta_type (rta_encode (t, p) @ b) = t"
    "RTA_DATA (rta_encode (t, p) @ b) = p" "drop (nl_align (4 + length p)) (rta_encode (t, p) @ b) = b"
proof -
  show r: "rd16 (rta_encode (t, p) @ b) 0 = 4 + length p"
    using assms by (simp add: rta_encode_def nl_pad_def)
  show "rta_type (rta_encode (t, p) @ b) = t"
    using assms by (simp add: rta_type_def rta_encode_def nl_pad_def rd16_append)
  show "RTA_DATA (rta_encode (t, p) @ b) = p"
    unfolding RTA_DATA_def r by (simp add: rta_encode_def nl_pad_def le16n_def)
  show "drop (nl_align (4 + length p)) (rta_encode (t, p) @ b) = b"
    by (simp add: length_rta_encode)
qed

abbreviation rta_fits :: "(nat \<times> bytes) list \<Rightarrow> bool" where
  "rta_fits as \<equiv> list_all (\<lambda>(t, p). t < 65536 \<and> 4 + length p < 65536) as"

lemma rta_attrs_encode:
  "rta_fits as \<Longrightarrow> rta_attrs (rta_encodes as @ b) (int (length (rta_encodes as))) = as"
proof (induction as)
  case Nil
  show ?case by (subst rta_attrs.simps) (simp add: rta_encodes_def RTA_OK_def)
next
  case (Cons a as)
  obtain t p where a: "a = (t, p)" by (cases a)
  then have fit: "4 + length p < 65536" "t < 65536" using Cons.prems by auto
  let ?r = "rta_encodes as @ b"
  have e: "rta_encodes (a # as) @ b = rta_encode (t, p) @ ?r" by (simp add: rta_encodes_def a)
  have l: "length (rta_encodes (a # as)) = nl_align (4 + length p) + length (rta_encodes as)"
    by (simp add: rta_encodes_def a length_rta_encode)
  have "RTA_OK (rta_encode (t, p) @ ?r) (int (length (rta_encodes (a # as))))"
    unfolding RTA_OK_def rta_encode_read(1) [OF fit] l using nl_align_ge [of "4 + length p"] by linarith
  then show ?case
    unfolding e l by (subst rta_attrs.simps) (use Cons a in \<open>simp add: rta_encode_read [OF fit] length_rta_encode\<close>)
qed

lemma nl_encode_read:
  assumes "16 + length body < 2 ^ 32" "t < 65536"
  shows "rd32 (nl_encode t body @ b) 0 = 16 + length body" "nlmsg_type (nl_encode t body @ b) = t"
    "take (length body) (NLMSG_DATA (nl_encode t body @ b)) = body"
    "drop (nl_align (16 + length body)) (nl_encode t body @ b) = b" "length (nl_encode t body) = nl_align (16 + length body)"
proof -
  show "rd32 (nl_encode t body @ b) 0 = 16 + length body"
    using assms by (simp add: nl_encode_def nl_pad_def)
  show "nlmsg_type (nl_encode t body @ b) = t"
    using assms by (simp add: nlmsg_type_def nl_encode_def nl_pad_def rd16_append)
  show "take (length body) (NLMSG_DATA (nl_encode t body @ b)) = body"
    by (simp add: NLMSG_DATA_def nl_encode_def nl_pad_def le32n_def le16n_def)
  show "length (nl_encode t body) = nl_align (16 + length body)" by (simp add: nl_encode_def)
  then show "drop (nl_align (16 + length body)) (nl_encode t body @ b) = b" by simp
qed

text \<open>A batch of messages is visited message by message.\<close>

definition nl_batch :: "(nat \<times> bytes) list \<Rightarrow> bytes" where
  "nl_batch ms = concat (map (\<lambda>(t, body). nl_encode t body) ms)"

abbreviation nl_fits :: "(nat \<times> bytes) list \<Rightarrow> bool" where
  "nl_fits ms \<equiv> list_all (\<lambda>(t, body). t < 65536 \<and> 16 + length body < 2 ^ 32) ms"

fun nl_tails :: "(nat \<times> bytes) list \<Rightarrow> bytes \<Rightarrow> bytes list" where
  "nl_tails [] b = []"
| "nl_tails (m # ms) b = (nl_batch (m # ms) @ b) # nl_tails ms b"

lemma nl_msgs_batch: "nl_fits ms \<Longrightarrow> nl_msgs (nl_batch ms @ b) (int (length (nl_batch ms))) = nl_tails ms b"
proof (induction ms)
  case Nil
  show ?case by (subst nl_msgs.simps) (simp add: nl_batch_def NLMSG_OK_def)
next
  case (Cons m ms)
  obtain t body where m: "m = (t, body)" by (cases m)
  then have fit: "16 + length body < 2 ^ 32" "t < 65536" using Cons.prems by auto
  let ?r = "nl_batch ms @ b"
  have e: "nl_batch (m # ms) @ b = nl_encode t body @ ?r" by (simp add: nl_batch_def m)
  have l: "length (nl_batch (m # ms)) = nl_align (16 + length body) + length (nl_batch ms)"
    by (simp add: nl_batch_def m nl_encode_def)
  have "NLMSG_OK (nl_encode t body @ ?r) (int (length (nl_batch (m # ms))))"
    unfolding NLMSG_OK_def nl_encode_read(1) [OF fit] l using nl_align_ge [of "16 + length body"] by linarith
  then show ?case
    unfolding e l nl_tails.simps by (subst nl_msgs.simps) (use Cons m in \<open>simp add: nl_encode_read [OF fit]\<close>)
qed

end
