(* ===== verification/RoutingTable.thy ===== *)
theory RoutingTable
  imports Netlink CidrRangeSet
begin

text \<open>
  \<^verbatim>\<open>LinuxRoutingTable\<close> of \<^verbatim>\<open>common/network_monitor.cpp\<close>: the routes of the system, read from the routing socket and kept up
  to date by its notifications, and the default interface that follows from them.  What the system answers is a
  parameter: the names of the interfaces, the answers about their kind, and the octets that are received.  So is
  \<^verbatim>\<open>std::sort\<close>, which may order routes that compare equal in any way.
\<close>

section \<open>Model\<close>

subsection \<open>Routes\<close>

record route_entry =
  re_prefix :: cidr_range
  re_if_index :: u32
  re_metric :: u32

definition route_less :: "route_entry \<Rightarrow> route_entry \<Rightarrow> bool" where
  "route_less a b =
     (if m_prefix_len (re_prefix a) \<noteq> m_prefix_len (re_prefix b)
      then m_prefix_len (re_prefix a) > m_prefix_len (re_prefix b)
      else re_metric a < re_metric b)"

definition is_default_route :: "route_entry \<Rightarrow> bool" where
  "is_default_route r \<longleftrightarrow> m_prefix_len (re_prefix r) = 0"

definition RTN_UNICAST :: nat where "RTN_UNICAST = 1"
definition RT_TABLE_DEFAULT :: nat where "RT_TABLE_DEFAULT = 253"
definition RT_TABLE_MAIN :: nat where "RT_TABLE_MAIN = 254"
definition RTA_DST :: nat where "RTA_DST = 1"
definition RTA_OIF :: nat where "RTA_OIF = 4"
definition RTA_PRIORITY :: nat where "RTA_PRIORITY = 6"
definition IFLA_LINKINFO :: nat where "IFLA_LINKINFO = 18"
definition IFLA_INFO_KIND :: nat where "IFLA_INFO_KIND = 1"

lemmas rta_types = RTN_UNICAST_def RT_TABLE_DEFAULT_def RT_TABLE_MAIN_def RTA_DST_def RTA_OIF_def RTA_PRIORITY_def

text \<open>The local variables of \<^verbatim>\<open>parse_route_msg\<close>, and the body of its loop.\<close>

record route_vars =
  rv_dst_addr :: bytes
  rv_if_index :: u32
  rv_metric :: u32

definition route_attr :: "nat \<Rightarrow> nat \<times> bytes \<Rightarrow> route_vars \<Rightarrow> route_vars" where
  "route_attr addr_len a v =
     (let (t, p) = a
      in if t = RTA_DST then (if addr_len \<le> length p then v\<lparr>rv_dst_addr := take addr_len p\<rparr> else v)
         else if t = RTA_OIF then (if 4 \<le> length p then v\<lparr>rv_if_index := word_of_nat (rd32 p 0)\<rparr> else v)
         else if t = RTA_PRIORITY then (if 4 \<le> length p then v\<lparr>rv_metric := word_of_nat (rd32 p 0)\<rparr> else v)
         else v)"

definition parse_route_msg :: "bytes \<Rightarrow> route_entry option" where
  "parse_route_msg nlh =
     (let rtm = NLMSG_DATA nlh
      in if rd8 rtm 7 \<noteq> RTN_UNICAST then None
         else if rd8 rtm 4 \<noteq> RT_TABLE_MAIN \<and> rd8 rtm 4 \<noteq> RT_TABLE_DEFAULT then None
         else
           (let addr_len = (if rd8 rtm 0 = 2 then 4 else 16);
                v = fold (route_attr addr_len) (rta_attrs (drop 12 rtm) (int (rd32 nlh 0) - 28))
                      \<lparr>rv_dst_addr = [], rv_if_index = 0, rv_metric = 0\<rparr>;
                dst_addr = (if rv_dst_addr v = [] then replicate addr_len 0 else rv_dst_addr v);
                prefix = cidr_init dst_addr (rd8 rtm 1)
            in if cidr_valid prefix
               then Some \<lparr>re_prefix = prefix, re_if_index = rv_if_index v, re_metric = rv_metric v\<rparr>
               else None))"

subsection \<open>The table\<close>

record routing_table =
  m_routes_v4 :: "route_entry list"
  m_routes_v6 :: "route_entry list"
  m_prev_default_v4 :: "u32 option"
  m_prev_default_v6 :: "u32 option"
  m_default_changed :: bool
  m_ignore_tun :: bool
  m_query_fd :: int
  m_ignored_interfaces :: "string list"

definition routing_table_make :: routing_table where
  "routing_table_make = \<lparr>m_routes_v4 = [], m_routes_v6 = [], m_prev_default_v4 = None, m_prev_default_v6 = None,
     m_default_changed = False, m_ignore_tun = False, m_query_fd = - 1, m_ignored_interfaces = []\<rparr>"

record rt_env =
  if_indextoname :: "u32 \<Rightarrow> string option"
  link_answer :: "u32 \<Rightarrow> bytes option" \<comment> \<open>what is received for a query of a link, if anything\<close>
  route_sort :: "route_entry list \<Rightarrow> route_entry list"

definition set_ignore_tun_interfaces :: "bool \<Rightarrow> routing_table \<Rightarrow> routing_table" where
  "set_ignore_tun_interfaces ignore t = t\<lparr>m_ignore_tun := ignore\<rparr>"

definition add_ignored_interface :: "string \<Rightarrow> routing_table \<Rightarrow> routing_table" where
  "add_ignored_interface name t = t\<lparr>m_ignored_interfaces := List.insert name (m_ignored_interfaces t)\<rparr>"

definition clear_ignored_interfaces :: "routing_table \<Rightarrow> routing_table" where
  "clear_ignored_interfaces t = t\<lparr>m_ignored_interfaces := []\<rparr>"

definition init_query_socket :: "int \<Rightarrow> routing_table \<Rightarrow> bool \<times> routing_table" where
  "init_query_socket socket t =
     (if 0 \<le> m_query_fd t then (True, t)
      else let t1 = t\<lparr>m_query_fd := socket\<rparr> in (0 \<le> socket, t1))"

definition close_query_socket :: "routing_table \<Rightarrow> routing_table" where
  "close_query_socket t = (if 0 \<le> m_query_fd t then t\<lparr>m_query_fd := - 1\<rparr> else t)"

definition get_interface_kind :: "rt_env \<Rightarrow> int \<Rightarrow> u32 \<Rightarrow> string" where
  "get_interface_kind env netlink_fd if_index =
     (if netlink_fd < 0 then []
      else case link_answer env if_index of
        None \<Rightarrow> []
      | Some buf \<Rightarrow>
          (if \<not> NLMSG_OK buf (int (length buf)) \<or> nlmsg_type buf = NLMSG_ERROR then []
           else let attrs = rta_attrs (drop 16 (NLMSG_DATA buf)) (int (rd32 buf 0) - 32);
                    nested = concat (map (\<lambda>(t, p). if t = IFLA_LINKINFO then rta_attrs p (int (length p)) else []) attrs)
                in case find (\<lambda>(t, p). t = IFLA_INFO_KIND) nested of
                     None \<Rightarrow> []
                   | Some (_, p) \<Rightarrow>
                       map (\<lambda>w. char_of (unat w)) (if p \<noteq> [] \<and> last p = 0 then butlast p else p)))"

definition is_interface_ignored :: "rt_env \<Rightarrow> routing_table \<Rightarrow> u32 \<Rightarrow> bool" where
  "is_interface_ignored env t if_index =
     (if if_index = 0 then False
      else case if_indextoname env if_index of
        None \<Rightarrow> False
      | Some if_name \<Rightarrow>
          if_name \<in> set (m_ignored_interfaces t) \<or>
          m_ignore_tun t \<and> 0 \<le> m_query_fd t \<and> get_interface_kind env (m_query_fd t) if_index = ''tun'')"

definition find_default_route :: "rt_env \<Rightarrow> routing_table \<Rightarrow> route_entry list \<Rightarrow> u32 option" where
  "find_default_route env t routes =
     map_option re_if_index
       (find (\<lambda>r. is_default_route r \<and> re_if_index r \<noteq> 0 \<and> \<not> is_interface_ignored env t (re_if_index r)) routes)"

definition sort_and_update_cache :: "rt_env \<Rightarrow> routing_table \<Rightarrow> routing_table" where
  "sort_and_update_cache env t =
     (let t1 = t\<lparr>m_routes_v4 := route_sort env (m_routes_v4 t), m_routes_v6 := route_sort env (m_routes_v6 t)\<rparr>;
          new_default_v4 = find_default_route env t1 (m_routes_v4 t1);
          new_default_v6 = find_default_route env t1 (m_routes_v6 t1)
      in if new_default_v4 \<noteq> m_prev_default_v4 t1 \<or> new_default_v6 \<noteq> m_prev_default_v6 t1
         then t1\<lparr>m_default_changed := True, m_prev_default_v4 := new_default_v4, m_prev_default_v6 := new_default_v6\<rparr>
         else t1)"

definition get_routes_by_addr_size :: "nat \<Rightarrow> routing_table \<Rightarrow> route_entry list" where
  "get_routes_by_addr_size n t = (if n = 4 then m_routes_v4 t else m_routes_v6 t)"

definition put_routes_by_addr_size :: "nat \<Rightarrow> route_entry list \<Rightarrow> routing_table \<Rightarrow> routing_table" where
  "put_routes_by_addr_size n rs t = (if n = 4 then t\<lparr>m_routes_v4 := rs\<rparr> else t\<lparr>m_routes_v6 := rs\<rparr>)"

definition same_route :: "route_entry \<Rightarrow> route_entry \<Rightarrow> bool" where
  "same_route e r \<longleftrightarrow> cidr_equal (re_prefix r) (re_prefix e) \<and> re_if_index r = re_if_index e"

definition add_route :: "route_entry \<Rightarrow> route_entry list \<Rightarrow> route_entry list" where
  "add_route e routes =
     (let i = find_if (same_route e) routes in if i \<noteq> length routes then routes[i := e] else routes @ [e])"

definition handle_new_route :: "rt_env \<Rightarrow> bytes \<Rightarrow> routing_table \<Rightarrow> routing_table" where
  "handle_new_route env nlh t =
     (case parse_route_msg nlh of
        None \<Rightarrow> t
      | Some e \<Rightarrow>
          (let n = length (m_address (re_prefix e))
           in sort_and_update_cache env (put_routes_by_addr_size n (add_route e (get_routes_by_addr_size n t)) t)))"

definition handle_del_route :: "rt_env \<Rightarrow> bytes \<Rightarrow> routing_table \<Rightarrow> routing_table" where
  "handle_del_route env nlh t =
     (case parse_route_msg nlh of
        None \<Rightarrow> t
      | Some e \<Rightarrow>
          (let n = length (m_address (re_prefix e))
           in sort_and_update_cache env
                (put_routes_by_addr_size n (filter (\<lambda>r. \<not> same_route e r) (get_routes_by_addr_size n t)) t)))"

text \<open>Reading the whole table.  The loop over the messages of one answer stops at the end mark or fails at an error.\<close>

datatype dump_state = Dump_failed | Dump_done | Dump_more

fun reload_msgs :: "bytes list \<Rightarrow> route_entry list \<times> route_entry list \<Rightarrow> dump_state \<times> route_entry list \<times> route_entry list" where
  "reload_msgs [] rs = (Dump_more, rs)"
| "reload_msgs (nlh # ms) (v4, v6) =
     (if nlmsg_type nlh = NLMSG_DONE then (Dump_done, v4, v6)
      else if nlmsg_type nlh = NLMSG_ERROR then (Dump_failed, v4, v6)
      else if nlmsg_type nlh = RTM_NEWROUTE then
        (case parse_route_msg nlh of
           None \<Rightarrow> reload_msgs ms (v4, v6)
         | Some e \<Rightarrow> reload_msgs ms (if length (m_address (re_prefix e)) = 4 then (v4 @ [e], v6) else (v4, v6 @ [e])))
      else reload_msgs ms (v4, v6))"

text \<open>The answers are those of successive calls of \<^verbatim>\<open>recv\<close>, \<^const>\<open>None\<close> for a failure; when they run out the call waits.\<close>

fun reload_loop :: "bytes option list \<Rightarrow> route_entry list \<times> route_entry list \<Rightarrow> (route_entry list \<times> route_entry list) option option" where
  "reload_loop [] rs = None"
| "reload_loop (None # answers) rs = Some None"
| "reload_loop (Some buf # answers) rs =
     (case reload_msgs (nl_msgs buf (int (length buf))) rs of
        (Dump_failed, _) \<Rightarrow> Some None
      | (Dump_done, rs') \<Rightarrow> Some (Some rs')
      | (Dump_more, rs') \<Rightarrow> reload_loop answers rs')"

definition reload :: "rt_env \<Rightarrow> bool \<Rightarrow> bytes option list \<Rightarrow> routing_table \<Rightarrow> (bool \<times> routing_table) option" where
  "reload env send_ok answers t =
     (if m_query_fd t < 0 \<or> \<not> send_ok then Some (False, t)
      else map_option (\<lambda>res. case res of
             None \<Rightarrow> (False, t)
           | Some (v4, v6) \<Rightarrow> (True, sort_and_update_cache env (t\<lparr>m_routes_v4 := v4, m_routes_v6 := v6\<rparr>)))
           (reload_loop answers ([], [])))"

definition get_default_if_index :: "routing_table \<Rightarrow> u32 option" where
  "get_default_if_index t = (if m_prev_default_v4 t \<noteq> None then m_prev_default_v4 t else m_prev_default_v6 t)"

definition get_default_if_name :: "rt_env \<Rightarrow> routing_table \<Rightarrow> string" where
  "get_default_if_name env t =
     (case get_default_if_index t of
        None \<Rightarrow> []
      | Some i \<Rightarrow> if i = 0 then [] else case if_indextoname env i of None \<Rightarrow> [] | Some n \<Rightarrow> n)"

definition has_default_changed_and_reset :: "routing_table \<Rightarrow> bool \<times> routing_table" where
  "has_default_changed_and_reset t = (m_default_changed t, t\<lparr>m_default_changed := False\<rparr>)"

section \<open>Reading a route\<close>

text \<open>A message about a route as the system writes it: the fixed part, then the attributes.\<close>

definition rtmsg_encode :: "nat \<Rightarrow> nat \<Rightarrow> nat \<Rightarrow> nat \<Rightarrow> bytes" where
  "rtmsg_encode family dst_len table rtype =
     map word_of_nat [family, dst_len, 0, 0, table, 0, 0, rtype, 0, 0, 0, 0]"

definition route_message :: "nat \<Rightarrow> nat \<Rightarrow> nat \<Rightarrow> nat \<Rightarrow> nat \<Rightarrow> (nat \<times> bytes) list \<Rightarrow> bytes" where
  "route_message t family dst_len table rtype attrs =
     nl_encode t (rtmsg_encode family dst_len table rtype @ rta_encodes attrs)"

lemma length_rtmsg [simp]: "length (rtmsg_encode f d t r) = 12"
  by (simp add: rtmsg_encode_def)

lemma rtmsg_read:
  assumes "f < 256" "d < 256" "t < 256" "r < 256"
  shows "rd8 (rtmsg_encode f d t r @ x) 0 = f" "rd8 (rtmsg_encode f d t r @ x) 1 = d"
    "rd8 (rtmsg_encode f d t r @ x) 4 = t" "rd8 (rtmsg_encode f d t r @ x) 7 = r"
  using assms by (simp_all add: rtmsg_encode_def rd8_def unat_byte nth_append)

lemma nl_data_encode: "\<exists>z. NLMSG_DATA (nl_encode t body @ b) = body @ z"
  by (simp add: NLMSG_DATA_def nl_encode_def nl_pad_def le32n_def le16n_def)

lemma route_attr_simps:
  "route_attr n (t, p) v = (if t = RTA_DST then (if n \<le> length p then v\<lparr>rv_dst_addr := take n p\<rparr> else v)
     else if t = RTA_OIF then (if 4 \<le> length p then v\<lparr>rv_if_index := word_of_nat (rd32 p 0)\<rparr> else v)
     else if t = RTA_PRIORITY then (if 4 \<le> length p then v\<lparr>rv_metric := word_of_nat (rd32 p 0)\<rparr> else v) else v)"
  by (simp add: route_attr_def)

text \<open>The variables after the loop, when every type occurs at most once and the payloads are long enough.\<close>

definition attr_or :: "(nat \<times> bytes) list \<Rightarrow> nat \<Rightarrow> (bytes \<Rightarrow> 'a) \<Rightarrow> 'a \<Rightarrow> 'a" where
  "attr_or as t f d = (case map_of as t of None \<Rightarrow> d | Some p \<Rightarrow> f p)"

definition route_attrs_ok :: "nat \<Rightarrow> (nat \<times> bytes) list \<Rightarrow> bool" where
  "route_attrs_ok n as \<longleftrightarrow> distinct (map fst as) \<and>
     list_all (\<lambda>(t, p). (if t = RTA_DST then length p = n else True) \<and>
       (if t = RTA_OIF \<or> t = RTA_PRIORITY then length p = 4 else True)) as"

lemma attr_or_Cons: "map_of as t = None \<Longrightarrow> attr_or ((t, p) # as) u f d = attr_or as u f (if t = u then f p else d)"
  by (auto simp: attr_or_def)

lemma fold_route_attr:
  "route_attrs_ok n as \<Longrightarrow> fold (route_attr n) as v =
     \<lparr>rv_dst_addr = attr_or as RTA_DST (\<lambda>p. p) (rv_dst_addr v),
      rv_if_index = attr_or as RTA_OIF (\<lambda>p. word_of_nat (rd32 p 0)) (rv_if_index v),
      rv_metric = attr_or as RTA_PRIORITY (\<lambda>p. word_of_nat (rd32 p 0)) (rv_metric v)\<rparr>"
proof (induction as arbitrary: v)
  case (Cons a as)
  obtain t p where a: "a = (t, p)" by (cases a)
  have ok: "route_attrs_ok n as" using Cons.prems by (simp add: route_attrs_ok_def)
  have none: "map_of as t = None" using Cons.prems by (simp add: a route_attrs_ok_def map_of_eq_None_iff)
  have diff: "RTA_DST \<noteq> RTA_OIF" "RTA_DST \<noteq> RTA_PRIORITY" "RTA_OIF \<noteq> RTA_PRIORITY" by (simp_all add: rta_types)
  have long: "(if t = RTA_DST then length p = n else True)" "(if t = RTA_OIF \<or> t = RTA_PRIORITY then length p = 4 else True)"
    using Cons.prems by (auto simp: a route_attrs_ok_def)
  consider "t = RTA_DST" | "t = RTA_OIF" | "t = RTA_PRIORITY" | "t \<noteq> RTA_DST" "t \<noteq> RTA_OIF" "t \<noteq> RTA_PRIORITY" by blast
  then have "route_attr n a v = v\<lparr>rv_dst_addr := (if t = RTA_DST then p else rv_dst_addr v),
      rv_if_index := (if t = RTA_OIF then word_of_nat (rd32 p 0) else rv_if_index v),
      rv_metric := (if t = RTA_PRIORITY then word_of_nat (rd32 p 0) else rv_metric v)\<rparr>"
    by cases (use long diff in \<open>simp_all add: a route_attr_simps\<close>)
  then have "fold (route_attr n) (a # as) v = \<lparr>rv_dst_addr = attr_or as RTA_DST (\<lambda>p. p) (if t = RTA_DST then p else rv_dst_addr v),
      rv_if_index = attr_or as RTA_OIF (\<lambda>p. word_of_nat (rd32 p 0)) (if t = RTA_OIF then word_of_nat (rd32 p 0) else rv_if_index v),
      rv_metric = attr_or as RTA_PRIORITY (\<lambda>p. word_of_nat (rd32 p 0)) (if t = RTA_PRIORITY then word_of_nat (rd32 p 0) else rv_metric v)\<rparr>"
    using Cons.IH [OF ok] by simp
  then show ?case by (simp only: a attr_or_Cons [OF none])
qed (simp add: attr_or_def)

definition addr_size :: "nat \<Rightarrow> nat" where
  "addr_size family = (if family = 2 then 4 else 16)"

lemma route_message_parse:
  assumes "table = RT_TABLE_MAIN \<or> table = RT_TABLE_DEFAULT" "family < 256" "n = addr_size family"
    "dst_len \<le> 8 * n" "t < 65536"
    "rta_fits attrs" "route_attrs_ok n attrs" "length (rta_encodes attrs) < 2 ^ 31"
  shows "parse_route_msg (route_message t family dst_len table RTN_UNICAST attrs @ rest) =
    Some \<lparr>re_prefix = cidr_init (attr_or attrs RTA_DST (\<lambda>p. p) (replicate n 0)) dst_len,
          re_if_index = attr_or attrs RTA_OIF (\<lambda>p. word_of_nat (rd32 p 0)) 0,
          re_metric = attr_or attrs RTA_PRIORITY (\<lambda>p. word_of_nat (rd32 p 0)) 0\<rparr>"
proof -
  let ?body = "rtmsg_encode family dst_len table RTN_UNICAST @ rta_encodes attrs"
  have size: "16 + length ?body < 2 ^ 32" using assms(8) by simp
  obtain z where z: "NLMSG_DATA (nl_encode t ?body @ rest) = ?body @ z" using nl_data_encode by blast
  have len: "rd32 (nl_encode t ?body @ rest) 0 = 28 + length (rta_encodes attrs)"
    using nl_encode_read(1) [OF size assms(5)] by simp
  have fit: "family < 256" "dst_len < 256" "table < 256" "RTN_UNICAST < 256"
    using assms(1-4) by (auto simp: rta_types addr_size_def split: if_splits)
  note rtm = rtmsg_read [OF fit, of "rta_encodes attrs @ z"]
  have d: "map_of attrs RTA_DST = Some p \<Longrightarrow> length p = n" for p
    using assms(7) by (fastforce simp: route_attrs_ok_def list_all_iff dest: map_of_SomeD)
  have n: "0 < n" using assms(3) by (simp add: addr_size_def)
  let ?dst = "attr_or attrs RTA_DST (\<lambda>p. p) []"
  have dst: "(if ?dst = [] then replicate n 0 else ?dst) = attr_or attrs RTA_DST (\<lambda>p. p) (replicate n 0)"
    "length (attr_or attrs RTA_DST (\<lambda>p. p) (replicate n 0)) = n"
    using d n by (auto simp: attr_or_def split: option.splits)
  have "cidr_valid (cidr_init (attr_or attrs RTA_DST (\<lambda>p. p) (replicate n 0)) dst_len)"
    using assms(4) dst(2) by (simp add: cidr_valid_def cidr_init_def Let_def mult.commute)
  moreover have "rta_attrs (rta_encodes attrs @ z) (int (length (rta_encodes attrs))) = attrs"
    by (rule rta_attrs_encode [OF assms(6)])
  ultimately show ?thesis
    unfolding route_message_def parse_route_msg_def z len Let_def append_assoc rtm
    using assms(1) fold_route_attr [OF assms(7)] dst(1) by (auto simp: rta_types simp flip: assms(3) addr_size_def)
qed

text \<open>What a message says: its type, the address family, the length of the prefix, the table and the attributes.\<close>

record route_says =
  says_type :: nat
  says_family :: nat
  says_dst_len :: nat
  says_table :: nat
  says_attrs :: "(nat \<times> bytes) list"

definition says_ok :: "route_says \<Rightarrow> bool" where
  "says_ok r \<longleftrightarrow> (says_table r = RT_TABLE_MAIN \<or> says_table r = RT_TABLE_DEFAULT) \<and> says_family r < 256 \<and>
     says_dst_len r \<le> 8 * addr_size (says_family r) \<and> says_type r < 65536 \<and> rta_fits (says_attrs r) \<and>
     route_attrs_ok (addr_size (says_family r)) (says_attrs r) \<and> length (rta_encodes (says_attrs r)) < 2 ^ 31"

definition says_body :: "route_says \<Rightarrow> nat \<times> bytes" where
  "says_body r = (says_type r,
     rtmsg_encode (says_family r) (says_dst_len r) (says_table r) RTN_UNICAST @ rta_encodes (says_attrs r))"

definition says_route :: "route_says \<Rightarrow> route_entry" where
  "says_route r =
     \<lparr>re_prefix = cidr_init (attr_or (says_attrs r) RTA_DST (\<lambda>p. p) (replicate (addr_size (says_family r)) 0)) (says_dst_len r),
      re_if_index = attr_or (says_attrs r) RTA_OIF (\<lambda>p. word_of_nat (rd32 p 0)) 0,
      re_metric = attr_or (says_attrs r) RTA_PRIORITY (\<lambda>p. word_of_nat (rd32 p 0)) 0\<rparr>"

lemma says_parse: "says_ok r \<Longrightarrow> parse_route_msg (nl_batch (says_body r # ms) @ rest) = Some (says_route r)"
  using route_message_parse [of "says_table r" "says_family r" "addr_size (says_family r)" "says_dst_len r" "says_type r"
      "says_attrs r" "nl_batch ms @ rest"]
  by (simp add: says_ok_def says_body_def says_route_def route_message_def nl_batch_def)

text \<open>Also: a batch of messages about unicast routes of the main or the default table is read as the routes it describes, in order:
  whatever the order of the attributes of a message and whatever other attributes it has, the prefix is the destination
  cut to its length (all addresses when there is none), and the interface and the metric are those of the attributes,
  zero when there are none.\<close>

theorem route_batch_read:
  assumes "list_all says_ok rs"
  shows "map parse_route_msg (nl_msgs (nl_batch (map says_body rs) @ rest) (int (length (nl_batch (map says_body rs))))) =
    map (\<lambda>r. Some (says_route r)) rs"
proof -
  have "nl_fits (map says_body rs)"
    using assms by (auto simp: list_all_iff says_ok_def says_body_def)
  moreover have "map parse_route_msg (nl_tails (map says_body rs) rest) = map (\<lambda>r. Some (says_route r)) rs"
    using assms by (induction rs) (simp_all add: says_parse)
  ultimately show ?thesis by (simp only: nl_msgs_batch)
qed

theorem route_batch_read_witness:
  "map parse_route_msg (nl_msgs (nl_batch (map says_body
      [\<lparr>says_type = RTM_NEWROUTE, says_family = 2, says_dst_len = 8, says_table = RT_TABLE_MAIN,
        says_attrs = [(RTA_OIF, [7, 0, 0, 0]), (RTA_DST, [10, 0, 0, 0])]\<rparr>]) @ []) 44) =
    [Some \<lparr>re_prefix = cidr_init [10, 0, 0, 0] 8, re_if_index = 7, re_metric = 0\<rparr>]"
  using route_batch_read [of "[\<lparr>says_type = RTM_NEWROUTE, says_family = 2, says_dst_len = 8, says_table = RT_TABLE_MAIN,
        says_attrs = [(RTA_OIF, [7, 0, 0, 0]), (RTA_DST, [10, 0, 0, 0])]\<rparr>]" "[]"]
  by (simp add: says_ok_def says_body_def says_route_def addr_size_def route_attrs_ok_def rta_types RTM_NEWROUTE_def attr_or_def
      rd32_def rd16_def rd8_def rta_encodes_def rta_encode_def nl_pad_def nl_align_def nl_batch_def nl_encode_def)

section \<open>The table and its default interface\<close>

definition std_sort :: "rt_env \<Rightarrow> bool" where
  "std_sort env \<longleftrightarrow> (\<forall>rs. mset (route_sort env rs) = mset rs \<and> sorted_wrt (\<lambda>a b. \<not> route_less b a) (route_sort env rs))"

definition usable :: "rt_env \<Rightarrow> routing_table \<Rightarrow> route_entry \<Rightarrow> bool" where
  "usable env t r \<longleftrightarrow> is_default_route r \<and> re_if_index r \<noteq> 0 \<and> \<not> is_interface_ignored env t (re_if_index r)"

definition routes_ok :: "nat \<Rightarrow> route_entry list \<Rightarrow> bool" where
  "routes_ok n rs \<longleftrightarrow> list_all (\<lambda>r. cidr_wf (re_prefix r) \<and> length (m_address (re_prefix r)) = n) rs \<and>
     sorted_wrt (\<lambda>a b. \<not> route_less b a) rs"

definition rt_inv :: "rt_env \<Rightarrow> routing_table \<Rightarrow> bool" where
  "rt_inv env t \<longleftrightarrow> routes_ok 4 (m_routes_v4 t) \<and> routes_ok 16 (m_routes_v6 t) \<and>
     m_prev_default_v4 t = find_default_route env t (m_routes_v4 t) \<and>
     m_prev_default_v6 t = find_default_route env t (m_routes_v6 t)"

text \<open>The settings that decide which interfaces are ignored.\<close>

abbreviation rt_settings :: "routing_table \<Rightarrow> bool \<times> int \<times> string list" where
  "rt_settings t \<equiv> (m_ignore_tun t, m_query_fd t, m_ignored_interfaces t)"

lemma ignored_cong: "rt_settings t = rt_settings u \<Longrightarrow> is_interface_ignored env t i = is_interface_ignored env u i"
  by (auto simp: is_interface_ignored_def split: option.splits)

lemma default_cong:
  assumes "rt_settings t = rt_settings u"
  shows "find_default_route env t rs = find_default_route env u rs"
proof -
  have "is_interface_ignored env t = is_interface_ignored env u" by (rule ext) (rule ignored_cong [OF assms])
  then show ?thesis by (simp add: find_default_route_def)
qed

lemma parse_route_wf:
  assumes "parse_route_msg b = Some e"
  shows "cidr_wf (re_prefix e)" "length (m_address (re_prefix e)) = 4 \<or> length (m_address (re_prefix e)) = 16"
proof -
  have dst: "length (rv_dst_addr (fold (route_attr n) as v)) = n" if "length (rv_dst_addr v) = n" for n as v
    using that by (induction as arbitrary: v) (auto simp: route_attr_def split: prod.splits)
  have empty: "rv_dst_addr (fold (route_attr n) as v) = [] \<or> length (rv_dst_addr (fold (route_attr n) as v)) = n"
    if "rv_dst_addr v = []" for n as v
    using that
  proof (induction as arbitrary: v)
    case (Cons a as)
    have "rv_dst_addr (route_attr n a v) = [] \<or> length (rv_dst_addr (route_attr n a v)) = n"
      using Cons.prems by (auto simp: route_attr_def split: prod.splits)
    then show ?case using Cons.IH dst by auto
  qed simp
  define n :: nat where "n = (if rd8 (NLMSG_DATA b) 0 = 2 then 4 else 16)"
  define v where "v = fold (route_attr n) (rta_attrs (drop 12 (NLMSG_DATA b)) (int (rd32 b 0) - 28))
    \<lparr>rv_dst_addr = [], rv_if_index = 0, rv_metric = 0\<rparr>"
  define d where "d = (if rv_dst_addr v = [] then replicate n 0 else rv_dst_addr v)"
  define p where "p = rd8 (NLMSG_DATA b) 1"
  have "re_prefix e = cidr_init d p" "cidr_valid (cidr_init d p)"
    using assms unfolding parse_route_msg_def Let_def n_def [symmetric] v_def [symmetric] d_def [symmetric] p_def [symmetric]
    by (auto split: if_splits)
  moreover have "length d = n" using empty [of "\<lparr>rv_dst_addr = [], rv_if_index = 0, rv_metric = 0\<rparr>" n]
    by (auto simp: d_def v_def)
  moreover have "n = 4 \<or> n = 16" by (simp add: n_def)
  ultimately have e: "re_prefix e = cidr_init d p" "cidr_valid (cidr_init d p)" "length d = n" "n = 4 \<or> n = 16" .
  then have "p \<le> length d * 8" by (auto simp: cidr_valid_def cidr_init_def cidr_blank_def split: if_splits)
  then show "cidr_wf (re_prefix e)" "length (m_address (re_prefix e)) = 4 \<or> length (m_address (re_prefix e)) = 16"
    using e cidr_init_wf cidr_init_dims by auto
qed

lemma sort_and_update_fields:
  "m_routes_v4 (sort_and_update_cache env t) = route_sort env (m_routes_v4 t)"
  "m_routes_v6 (sort_and_update_cache env t) = route_sort env (m_routes_v6 t)"
  "rt_settings (sort_and_update_cache env t) = rt_settings t"
  "m_prev_default_v4 (sort_and_update_cache env t) = find_default_route env t (route_sort env (m_routes_v4 t))"
  "m_prev_default_v6 (sort_and_update_cache env t) = find_default_route env t (route_sort env (m_routes_v6 t))"
  unfolding sort_and_update_cache_def Let_def
  by (auto simp: default_cong [of "t\<lparr>m_routes_v4 := a, m_routes_v6 := b\<rparr>" t for a b])

definition all_sized :: "nat \<Rightarrow> route_entry list \<Rightarrow> bool" where
  "all_sized n rs \<longleftrightarrow> list_all (\<lambda>r. cidr_wf (re_prefix r) \<and> length (m_address (re_prefix r)) = n) rs"

lemma sort_routes_ok: "std_sort env \<Longrightarrow> all_sized n rs \<Longrightarrow> routes_ok n (route_sort env rs)"
  unfolding std_sort_def routes_ok_def all_sized_def list_all_iff by (metis set_mset_mset)

lemma sort_and_update_inv:
  assumes "std_sort env" "all_sized 4 (m_routes_v4 t)" "all_sized 16 (m_routes_v6 t)"
  shows "rt_inv env (sort_and_update_cache env t)"
  using sort_routes_ok [OF assms(1,2)] sort_routes_ok [OF assms(1,3)] sort_and_update_fields [of env t]
    default_cong [of "sort_and_update_cache env t" t env] by (simp add: rt_inv_def)

lemma rt_inv_sized: "rt_inv env t \<Longrightarrow> all_sized 4 (m_routes_v4 t) \<and> all_sized 16 (m_routes_v6 t)"
  by (simp add: rt_inv_def routes_ok_def all_sized_def)

lemma set_add_route: "set (add_route e rs) \<subseteq> insert e (set rs)"
  unfolding add_route_def Let_def using set_update_subset_insert [of rs] by auto

lemma add_route_sized: "all_sized n rs \<Longrightarrow> cidr_wf (re_prefix e) \<Longrightarrow> length (m_address (re_prefix e)) = n \<Longrightarrow> all_sized n (add_route e rs)"
  using set_add_route [of e rs] unfolding all_sized_def list_all_iff by blast

lemma put_sized:
  assumes "all_sized 4 (m_routes_v4 t)" "all_sized 16 (m_routes_v6 t)" "n = 4 \<or> n = 16" "all_sized n rs"
  shows "all_sized 4 (m_routes_v4 (put_routes_by_addr_size n rs t))" "all_sized 16 (m_routes_v6 (put_routes_by_addr_size n rs t))"
  using assms by (auto simp: put_routes_by_addr_size_def)

lemma get_sized: "all_sized 4 (m_routes_v4 t) \<Longrightarrow> all_sized 16 (m_routes_v6 t) \<Longrightarrow> n = 4 \<or> n = 16 \<Longrightarrow>
    all_sized n (get_routes_by_addr_size n t)"
  by (auto simp: get_routes_by_addr_size_def)

lemma change_routes_inv:
  assumes "std_sort env" "rt_inv env t" "n = 4 \<or> n = 16" "all_sized n rs"
  shows "rt_inv env (sort_and_update_cache env (put_routes_by_addr_size n rs t))"
  using assms rt_inv_sized [OF assms(2)] by (intro sort_and_update_inv put_sized) auto

lemma handle_new_route_inv:
  assumes "std_sort env" "rt_inv env t"
  shows "rt_inv env (handle_new_route env b t)"
proof (cases "parse_route_msg b")
  case (Some e)
  note e = parse_route_wf [OF Some]
  then have "all_sized (length (m_address (re_prefix e))) (add_route e (get_routes_by_addr_size (length (m_address (re_prefix e))) t))"
    using rt_inv_sized [OF assms(2)] by (intro add_route_sized get_sized) auto
  then show ?thesis using change_routes_inv [OF assms e(2)] by (simp add: handle_new_route_def Some Let_def)
qed (simp add: handle_new_route_def assms)

lemma filter_sized: "all_sized n rs \<Longrightarrow> all_sized n (filter p rs)"
  by (simp add: all_sized_def list_all_iff)

lemma handle_del_route_inv:
  assumes "std_sort env" "rt_inv env t"
  shows "rt_inv env (handle_del_route env b t)"
proof (cases "parse_route_msg b")
  case (Some e)
  note e = parse_route_wf [OF Some]
  then have "all_sized (length (m_address (re_prefix e))) (filter (\<lambda>r. \<not> same_route e r) (get_routes_by_addr_size (length (m_address (re_prefix e))) t))"
    using rt_inv_sized [OF assms(2)] by (intro filter_sized get_sized) auto
  then show ?thesis using change_routes_inv [OF assms e(2)] by (simp add: handle_del_route_def Some Let_def)
qed (simp add: handle_del_route_def assms)

lemma reload_msgs_sized:
  "reload_msgs ms (v4, v6) = (d, w4, w6) \<Longrightarrow> all_sized 4 v4 \<Longrightarrow> all_sized 16 v6 \<Longrightarrow> all_sized 4 w4 \<and> all_sized 16 w6"
proof (induction ms arbitrary: v4 v6)
  case (Cons m ms)
  then show ?case
    using parse_route_wf [of m] by (auto simp: all_sized_def split: if_splits option.splits)
qed simp

lemma reload_loop_sized:
  "reload_loop answers (v4, v6) = Some (Some (w4, w6)) \<Longrightarrow> all_sized 4 v4 \<Longrightarrow> all_sized 16 v6 \<Longrightarrow>
   all_sized 4 w4 \<and> all_sized 16 w6"
proof (induction answers arbitrary: v4 v6)
  case (Cons a answers)
  then show ?case
    by (cases a) (auto split: prod.splits dump_state.splits dest!: reload_msgs_sized)
qed simp

lemma reload_inv:
  assumes "std_sort env" "rt_inv env t" "reload env ok answers t = Some (r, t')"
  shows "rt_inv env t'"
proof -
  have "all_sized 4 []" "all_sized 16 []" by (simp_all add: all_sized_def)
  then show ?thesis
    using assms by (auto simp: reload_def split: if_splits option.splits intro!: sort_and_update_inv
        dest!: reload_loop_sized)
qed

inductive rt_reachable :: "rt_env \<Rightarrow> routing_table \<Rightarrow> routing_table \<Rightarrow> bool" for env t0 where
  rt_start: "rt_reachable env t0 t0"
| rt_new: "rt_reachable env t0 t \<Longrightarrow> rt_reachable env t0 (handle_new_route env b t)"
| rt_del: "rt_reachable env t0 t \<Longrightarrow> rt_reachable env t0 (handle_del_route env b t)"
| rt_reload: "rt_reachable env t0 t \<Longrightarrow> reload env ok answers t = Some (r, t') \<Longrightarrow> rt_reachable env t0 t'"
| rt_reset: "rt_reachable env t0 t \<Longrightarrow> rt_reachable env t0 (snd (has_default_changed_and_reset t))"

lemma rt_reachable_inv: "rt_reachable env t0 t \<Longrightarrow> std_sort env \<Longrightarrow> rt_inv env t0 \<Longrightarrow> rt_inv env t"
proof (induction rule: rt_reachable.induct)
  case (rt_new t b)
  then show ?case using handle_new_route_inv by blast
next
  case (rt_del t b)
  then show ?case using handle_del_route_inv by blast
next
  case (rt_reload t ok answers r t')
  then show ?case using reload_inv by blast
next
  case (rt_reset t)
  then show ?case
    using default_cong [of "snd (has_default_changed_and_reset t)" t env]
    by (simp add: rt_inv_def has_default_changed_and_reset_def)
qed

text \<open>What the default interface should be: of the usable default routes one with the least metric.\<close>

definition best_route :: "rt_env \<Rightarrow> routing_table \<Rightarrow> route_entry list \<Rightarrow> u32 option \<Rightarrow> bool" where
  "best_route env t rs d \<longleftrightarrow>
     (case d of
        None \<Rightarrow> \<not> list_ex (usable env t) rs
      | Some i \<Rightarrow> \<exists>e \<in> set rs. usable env t e \<and> re_if_index e = i \<and>
          (\<forall>f \<in> set rs. usable env t f \<longrightarrow> re_metric e \<le> re_metric f))"

lemma find_default_usable: "find_default_route env t rs = map_option re_if_index (find (usable env t) rs)"
  unfolding find_default_route_def usable_def [abs_def] ..

lemma find_default_best:
  assumes "routes_ok n rs"
  shows "best_route env t rs (find_default_route env t rs)"
proof (cases "find (usable env t) rs")
  case None
  then have "find_default_route env t rs = None" by (simp add: find_default_usable)
  moreover have "\<not> list_ex (usable env t) rs" using None by (simp add: find_None_iff list_ex_iff)
  ultimately show ?thesis by (simp add: best_route_def)
next
  case (Some e)
  then obtain i where i: "i < length rs" "usable env t (rs ! i)" "e = rs ! i" "\<forall>j < i. \<not> usable env t (rs ! j)"
    by (auto simp: find_Some_iff)
  have "re_metric e \<le> re_metric f" if f: "f \<in> set rs" "usable env t f" for f
  proof -
    obtain j where j: "j < length rs" "f = rs ! j" using f(1) by (auto simp: in_set_conv_nth)
    have "i = j \<or> i < j" using i(4) j f(2) by (meson linorder_neqE_nat)
    then have "f = e \<or> \<not> route_less f e"
      using assms i(1,3) j unfolding routes_ok_def by (auto dest: sorted_wrt_nth_less)
    then show ?thesis using f(2) i(2,3) by (auto simp: route_less_def usable_def is_default_route_def)
  qed
  moreover have "find_default_route env t rs = Some (re_if_index e)"
    using Some by (simp add: find_default_usable)
  ultimately show ?thesis using i by (auto simp: best_route_def)
qed

definition rt_begin :: "bool \<Rightarrow> int \<Rightarrow> string list \<Rightarrow> routing_table" where
  "rt_begin tun fd ignored = routing_table_make\<lparr>m_ignore_tun := tun, m_query_fd := fd, m_ignored_interfaces := ignored\<rparr>"

lemma rt_begin_inv: "rt_inv env (rt_begin tun fd ignored)"
  by (simp add: rt_inv_def rt_begin_def routing_table_make_def routes_ok_def find_default_route_def)

lemma best_route_ne: "best_route env t rs d \<Longrightarrow> (d = None \<longleftrightarrow> \<not> list_ex (usable env t) rs)"
  by (auto simp: best_route_def list_ex_iff split: option.splits)

lemma rt_inv_default:
  assumes "rt_inv env t"
  shows "if list_ex (usable env t) (m_routes_v4 t) then best_route env t (m_routes_v4 t) (get_default_if_index t)
    else best_route env t (m_routes_v6 t) (get_default_if_index t)"
proof -
  have b: "best_route env t (m_routes_v4 t) (m_prev_default_v4 t)" "best_route env t (m_routes_v6 t) (m_prev_default_v6 t)"
    using assms unfolding rt_inv_def using find_default_best by metis+
  then show ?thesis using best_route_ne [OF b(1)] by (auto simp: get_default_if_index_def)
qed

text \<open>C39: whatever notifications, reloads and failed reloads a table has seen, the interface that it gives as the default is the one
  of a usable default route with the least metric, an IPv4 route when there is a usable one and an IPv6 route otherwise;
  it gives none exactly when there is no usable default route.  A route is usable when its interface is known and not
  ignored.\<close>

theorem default_interface_best:
  assumes "std_sort env" "rt_reachable env (rt_begin tun fd ignored) t"
  shows "if list_ex (usable env t) (m_routes_v4 t) then best_route env t (m_routes_v4 t) (get_default_if_index t)
    else best_route env t (m_routes_v6 t) (get_default_if_index t)"
  by (rule rt_inv_default [OF rt_reachable_inv [OF assms(2,1) rt_begin_inv]])

section \<open>The table as a map\<close>

text \<open>Notifications name a route by its prefix and its interface; the table refines a map from these to metrics.\<close>

type_synonym route_key = "cidr_range \<times> u32"

definition rt_key :: "route_entry \<Rightarrow> route_key" where
  "rt_key e = (re_prefix e, re_if_index e)"

datatype rt_event = Ev_new bytes | Ev_del bytes

fun rt_apply :: "rt_env \<Rightarrow> rt_event \<Rightarrow> routing_table \<Rightarrow> routing_table" where
  "rt_apply env (Ev_new b) t = handle_new_route env b t"
| "rt_apply env (Ev_del b) t = handle_del_route env b t"

fun map_apply :: "rt_event \<Rightarrow> (route_key \<rightharpoonup> u32) \<Rightarrow> route_key \<rightharpoonup> u32" where
  "map_apply (Ev_new b) m = (case parse_route_msg b of None \<Rightarrow> m | Some e \<Rightarrow> m(rt_key e \<mapsto> re_metric e))"
| "map_apply (Ev_del b) m = (case parse_route_msg b of None \<Rightarrow> m | Some e \<Rightarrow> m(rt_key e := None))"

definition rt_routes :: "routing_table \<Rightarrow> route_entry list" where
  "rt_routes t = m_routes_v4 t @ m_routes_v6 t"

definition rt_abs :: "routing_table \<Rightarrow> route_key \<rightharpoonup> u32" where
  "rt_abs t = map_of (map (\<lambda>e. (rt_key e, re_metric e)) (rt_routes t))"

definition keys_distinct :: "route_entry list \<Rightarrow> bool" where
  "keys_distinct rs \<longleftrightarrow> distinct (map rt_key rs)"

lemma same_route_iff:
  assumes "cidr_wf (re_prefix e)" "cidr_wf (re_prefix r)"
  shows "same_route e r \<longleftrightarrow> rt_key r = rt_key e"
proof -
  have "cidr_equal (re_prefix r) (re_prefix e) \<longleftrightarrow> re_prefix r = re_prefix e"
    using cidr_wf_eqI [OF assms(2,1)] by (auto simp: cidr_equal_def list_all_iff nth_equalityI)
  then show ?thesis by (auto simp: same_route_def rt_key_def)
qed

lemma map_keys_perm:
  assumes "mset rs = mset rs'" "keys_distinct rs"
  shows "keys_distinct rs'" "map_of (map (\<lambda>e. (rt_key e, re_metric e)) rs) = map_of (map (\<lambda>e. (rt_key e, re_metric e)) rs')"
proof -
  have "mset (map rt_key rs) = mset (map rt_key rs')" using assms(1) by simp
  then show d: "keys_distinct rs'" using assms(2) unfolding keys_distinct_def by (metis mset_eq_imp_distinct_iff)
  show "map_of (map (\<lambda>e. (rt_key e, re_metric e)) rs) = map_of (map (\<lambda>e. (rt_key e, re_metric e)) rs')"
    using assms(2) d mset_eq_setD [OF assms(1)] by (intro map_of_inject_set [THEN iffD2]) (simp_all add: keys_distinct_def comp_def)
qed

lemma add_route_keys:
  assumes "all_sized n rs" "cidr_wf (re_prefix e)" "keys_distinct rs"
  shows "keys_distinct (add_route e rs) \<and>
    map_of (map (\<lambda>e. (rt_key e, re_metric e)) (add_route e rs)) = (map_of (map (\<lambda>e. (rt_key e, re_metric e)) rs))(rt_key e \<mapsto> re_metric e)"
  using assms
proof (induction rs)
  case (Cons r rs)
  have r: "cidr_wf (re_prefix r)" "all_sized n rs" using Cons.prems(1) by (simp_all add: all_sized_def)
  show ?case
  proof (cases "same_route e r")
    case True
    then have k: "rt_key r = rt_key e" using same_route_iff [OF Cons.prems(2) r(1)] by simp
    have "add_route e (r # rs) = e # rs" using True by (simp add: add_route_def)
    then show ?thesis using Cons.prems(3) k by (auto simp: keys_distinct_def fun_eq_iff)
  next
    case False
    then have k: "rt_key r \<noteq> rt_key e" using same_route_iff [OF Cons.prems(2) r(1)] by simp
    have a: "add_route e (r # rs) = r # add_route e rs" using False by (simp add: add_route_def Let_def)
    have "rt_key r \<notin> rt_key ` set (add_route e rs)"
      using Cons.prems(3) k set_add_route [of e rs] by (auto simp: keys_distinct_def)
    moreover have "keys_distinct rs" using Cons.prems(3) by (simp add: keys_distinct_def)
    ultimately show ?thesis
      unfolding a using Cons.IH [OF r(2) Cons.prems(2)] k by (auto simp: keys_distinct_def)
  qed
qed (simp add: add_route_def keys_distinct_def)

lemma del_route_keys:
  assumes "all_sized n rs" "cidr_wf (re_prefix e)" "keys_distinct rs"
  shows "keys_distinct (filter (\<lambda>r. \<not> same_route e r) rs) \<and>
    map_of (map (\<lambda>e. (rt_key e, re_metric e)) (filter (\<lambda>r. \<not> same_route e r) rs)) =
    (map_of (map (\<lambda>e. (rt_key e, re_metric e)) rs))(rt_key e := None)"
  using assms
proof (induction rs)
  case (Cons r rs)
  have r: "cidr_wf (re_prefix r)" "all_sized n rs" using Cons.prems(1) by (simp_all add: all_sized_def)
  have "keys_distinct rs" using Cons.prems(3) by (simp add: keys_distinct_def)
  then show ?case
    using Cons.IH [OF r(2) Cons.prems(2)] Cons.prems(3) same_route_iff [OF Cons.prems(2) r(1)]
    by (auto simp: keys_distinct_def fun_upd_twist)
qed (simp add: keys_distinct_def)

text \<open>The keys of the two families are apart, so the map is the sum of two.\<close>

definition rt_distinct :: "routing_table \<Rightarrow> bool" where
  "rt_distinct t \<longleftrightarrow> keys_distinct (m_routes_v4 t) \<and> keys_distinct (m_routes_v6 t)"

abbreviation metrics :: "route_entry list \<Rightarrow> route_key \<rightharpoonup> u32" where
  "metrics rs \<equiv> map_of (map (\<lambda>e. (rt_key e, re_metric e)) rs)"

lemma rt_abs_sum: "rt_abs t = metrics (m_routes_v6 t) ++ metrics (m_routes_v4 t)"
  by (simp add: rt_abs_def rt_routes_def)

lemma sized_key: "all_sized n rs \<Longrightarrow> k \<in> dom (metrics rs) \<Longrightarrow> length (m_address (fst k)) = n"
  by (auto simp: all_sized_def list_all_iff rt_key_def dest!: map_of_SomeD)

lemma change_routes_abs:
  assumes "std_sort env" "rt_inv env t" "rt_distinct t" "n = 4 \<or> n = 16" "length (m_address (fst k)) = n"
    and rs: "keys_distinct rs \<and> metrics rs = (metrics (get_routes_by_addr_size n t))(k := v)"
  shows "rt_distinct (sort_and_update_cache env (put_routes_by_addr_size n rs t))"
    "rt_abs (sort_and_update_cache env (put_routes_by_addr_size n rs t)) = (rt_abs t)(k := v)"
proof -
  let ?t = "put_routes_by_addr_size n rs t"
  have d: "keys_distinct (m_routes_v4 ?t)" "keys_distinct (m_routes_v6 ?t)"
    using assms(3,4) rs by (auto simp: put_routes_by_addr_size_def rt_distinct_def)
  have s: "mset xs = mset (route_sort env xs)" for xs using assms(1) by (simp add: std_sort_def)
  show "rt_distinct (sort_and_update_cache env ?t)"
    unfolding rt_distinct_def sort_and_update_fields using map_keys_perm(1) [OF s] d by blast
  have "rt_abs (sort_and_update_cache env ?t) = metrics (m_routes_v6 ?t) ++ metrics (m_routes_v4 ?t)"
    unfolding rt_abs_sum sort_and_update_fields using map_keys_perm(2) [OF s d(1)] map_keys_perm(2) [OF s d(2)] by simp
  also have "\<dots> = (rt_abs t)(k := v)"
    using assms(4)
  proof
    assume n: "n = 4"
    then show ?thesis
      using rs assms(5) sized_key [of 16 "m_routes_v6 t" k] rt_inv_sized [OF assms(2)]
      by (auto simp: rt_abs_sum put_routes_by_addr_size_def get_routes_by_addr_size_def map_add_def fun_eq_iff split: option.splits)
  next
    assume n: "n = 16"
    then show ?thesis
      using rs assms(5) sized_key [of 4 "m_routes_v4 t" k] rt_inv_sized [OF assms(2)]
      by (auto simp: rt_abs_sum put_routes_by_addr_size_def get_routes_by_addr_size_def map_add_def fun_eq_iff split: option.splits)
  qed
  finally show "rt_abs (sort_and_update_cache env ?t) = (rt_abs t)(k := v)" .
qed

lemma get_distinct: "rt_distinct t \<Longrightarrow> keys_distinct (get_routes_by_addr_size n t)"
  by (simp add: rt_distinct_def get_routes_by_addr_size_def)

lemma rt_apply_abs:
  assumes "std_sort env" "rt_inv env t" "rt_distinct t"
  shows "rt_inv env (rt_apply env ev t) \<and> rt_distinct (rt_apply env ev t) \<and> rt_abs (rt_apply env ev t) = map_apply ev (rt_abs t)"
proof (cases ev)
  case (Ev_new b)
  show ?thesis
  proof (cases "parse_route_msg b")
    case (Some e)
    let ?n = "length (m_address (re_prefix e))"
    note e = parse_route_wf [OF Some]
    have sz: "all_sized ?n (get_routes_by_addr_size ?n t)" using rt_inv_sized [OF assms(2)] e(2) by (intro get_sized) auto
    have k: "length (m_address (fst (rt_key e))) = ?n" by (simp add: rt_key_def)
    show ?thesis
      using change_routes_abs [OF assms e(2) k add_route_keys [OF sz e(1) get_distinct [OF assms(3)]]]
        handle_new_route_inv [OF assms(1,2), of b] Ev_new by (simp add: handle_new_route_def Some Let_def)
  qed (use Ev_new assms in \<open>simp add: handle_new_route_def\<close>)
next
  case (Ev_del b)
  show ?thesis
  proof (cases "parse_route_msg b")
    case (Some e)
    let ?n = "length (m_address (re_prefix e))"
    note e = parse_route_wf [OF Some]
    have sz: "all_sized ?n (get_routes_by_addr_size ?n t)" using rt_inv_sized [OF assms(2)] e(2) by (intro get_sized) auto
    have k: "length (m_address (fst (rt_key e))) = ?n" by (simp add: rt_key_def)
    show ?thesis
      using change_routes_abs [OF assms e(2) k del_route_keys [OF sz e(1) get_distinct [OF assms(3)]]]
        handle_del_route_inv [OF assms(1,2), of b] Ev_del by (simp add: handle_del_route_def Some Let_def)
  qed (use Ev_del assms in \<open>simp add: handle_del_route_def\<close>)
qed

lemma rt_run_abs:
  "std_sort env \<Longrightarrow> rt_inv env t \<Longrightarrow> rt_distinct t \<Longrightarrow>
   rt_distinct (fold (rt_apply env) evs t) \<and> rt_abs (fold (rt_apply env) evs t) = fold map_apply evs (rt_abs t)"
proof (induction evs arbitrary: t)
  case (Cons ev evs)
  then show ?case using rt_apply_abs [OF Cons.prems, of ev] by simp
qed simp

subsection \<open>The dump that notifications follow\<close>

text \<open>The routes that a dump lists: those of its route messages before the end mark, in the order of the answers.\<close>

definition listed_routes :: "bytes list \<Rightarrow> route_entry list" where
  "listed_routes ms =
     List.map_filter parse_route_msg (filter (\<lambda>m. nlmsg_type m = RTM_NEWROUTE) (takeWhile (\<lambda>m. nlmsg_type m \<noteq> NLMSG_DONE) ms))"

definition dump_messages :: "bytes option list \<Rightarrow> bytes list" where
  "dump_messages answers = concat (map (\<lambda>a. case a of None \<Rightarrow> [] | Some buf \<Rightarrow> nl_msgs buf (int (length buf))) answers)"

abbreviation of_v4 :: "route_entry \<Rightarrow> bool" where
  "of_v4 e \<equiv> length (m_address (re_prefix e)) = 4"

lemma listed_routes_Cons:
  "listed_routes (m # ms) =
     (if nlmsg_type m = NLMSG_DONE then []
      else (if nlmsg_type m = RTM_NEWROUTE then case parse_route_msg m of None \<Rightarrow> [] | Some e \<Rightarrow> [e] else []) @ listed_routes ms)"
  by (auto simp: listed_routes_def List.map_filter_simps split: option.splits)

lemma listed_routes_append:
  "list_all (\<lambda>m. nlmsg_type m \<noteq> NLMSG_DONE) ms \<Longrightarrow> listed_routes (ms @ ns) = listed_routes ms @ listed_routes ns"
  by (induction ms) (auto simp: listed_routes_Cons, simp add: listed_routes_def List.map_filter_simps)

lemma listed_routes_done:
  "\<not> list_all (\<lambda>m. nlmsg_type m \<noteq> NLMSG_DONE) ms \<Longrightarrow> listed_routes (ms @ ns) = listed_routes ms"
  by (induction ms) (auto simp: listed_routes_Cons)

lemma reload_msgs_listed:
  assumes "reload_msgs ms (v4, v6) = (d, w4, w6)" "d \<noteq> Dump_failed"
  shows "w4 = v4 @ filter of_v4 (listed_routes ms) \<and> w6 = v6 @ filter (\<lambda>e. \<not> of_v4 e) (listed_routes ms) \<and>
    (d = Dump_more \<longleftrightarrow> list_all (\<lambda>m. nlmsg_type m \<noteq> NLMSG_DONE) ms)"
  using assms
proof (induction ms arbitrary: v4 v6)
  case Nil
  then show ?case by (auto simp: listed_routes_def List.map_filter_simps)
next
  case (Cons m ms)
  show ?case
  proof (cases "nlmsg_type m = RTM_NEWROUTE \<and> nlmsg_type m \<noteq> NLMSG_DONE \<and> nlmsg_type m \<noteq> NLMSG_ERROR")
    case True
    then show ?thesis
    proof (cases "parse_route_msg m")
      case None
      then show ?thesis using True Cons.prems Cons.IH [of v4 v6] by (auto simp: listed_routes_Cons)
    next
      case (Some e)
      then show ?thesis using True Cons.prems Cons.IH [of "v4 @ [e]" v6] Cons.IH [of v4 "v6 @ [e]"]
        by (cases "of_v4 e") (auto simp: listed_routes_Cons)
    qed
  next
    case False
    have "nlmsg_type m \<noteq> NLMSG_DONE \<Longrightarrow> nlmsg_type m \<noteq> NLMSG_ERROR" using Cons.prems by auto
    with False consider "nlmsg_type m = NLMSG_DONE"
      | "nlmsg_type m \<noteq> RTM_NEWROUTE" "nlmsg_type m \<noteq> NLMSG_ERROR" "nlmsg_type m \<noteq> NLMSG_DONE" by blast
    then show ?thesis
    proof cases
      case 1
      then show ?thesis using Cons.prems(1) by (simp add: listed_routes_Cons)
    next
      case 2
      then have "reload_msgs ms (v4, v6) = (d, w4, w6)" using Cons.prems(1) by simp
      from Cons.IH [OF this Cons.prems(2)] 2 show ?thesis by (simp add: listed_routes_Cons)
    qed
  qed
qed

lemma reload_loop_listed:
  assumes "reload_loop answers (v4, v6) = Some (Some (w4, w6))"
  shows "w4 = v4 @ filter of_v4 (listed_routes (dump_messages answers)) \<and>
    w6 = v6 @ filter (\<lambda>e. \<not> of_v4 e) (listed_routes (dump_messages answers))"
  using assms
proof (induction answers arbitrary: v4 v6)
  case (Cons a answers)
  then obtain buf where a: "a = Some buf" by (cases a) auto
  let ?ms = "nl_msgs buf (int (length buf))"
  obtain d u4 u6 where r: "reload_msgs ?ms (v4, v6) = (d, u4, u6)" by (metis prod_cases3)
  have split: "dump_messages (a # answers) = ?ms @ dump_messages answers" by (simp add: dump_messages_def a)
  have "d \<noteq> Dump_failed" using Cons.prems r a by auto
  note m = reload_msgs_listed [OF r this]
  show ?case
  proof (cases "d = Dump_more")
    case True
    then have "reload_loop answers (u4, u6) = Some (Some (w4, w6))" using Cons.prems r a by simp
    from Cons.IH [OF this] show ?thesis
      using m True listed_routes_append [of ?ms "dump_messages answers"] unfolding split by simp
  next
    case False
    then have "d = Dump_done" using \<open>d \<noteq> Dump_failed\<close> by (cases d) auto
    then show ?thesis
      using m False Cons.prems r a listed_routes_done [of ?ms "dump_messages answers"] unfolding split by simp
  qed
qed simp

lemma reload_abs:
  assumes "std_sort env" "reload env ok answers t0 = Some (True, t)" "keys_distinct (listed_routes (dump_messages answers))"
  shows "rt_inv env t \<and> rt_distinct t \<and> rt_abs t = metrics (listed_routes (dump_messages answers))"
proof -
  let ?rs = "listed_routes (dump_messages answers)"
  obtain v4 v6 where l: "reload_loop answers ([], []) = Some (Some (v4, v6))"
    and t: "t = sort_and_update_cache env (t0\<lparr>m_routes_v4 := v4, m_routes_v6 := v6\<rparr>)"
    using assms(2) by (auto simp: reload_def split: if_splits option.splits)
  have "all_sized 4 []" "all_sized 16 []" by (simp_all add: all_sized_def)
  from reload_loop_sized [OF l this] have inv: "rt_inv env t" using sort_and_update_inv [OF assms(1)] t by simp
  have "mset (rt_routes t) = mset v4 + mset v6"
    using assms(1) by (simp add: rt_routes_def t sort_and_update_fields std_sort_def)
  also have "\<dots> = mset ?rs" using reload_loop_listed [OF l] by simp
  finally have perm: "mset ?rs = mset (rt_routes t)" by simp
  have "keys_distinct (rt_routes t)" by (rule map_keys_perm(1) [OF perm assms(3)])
  then have "rt_distinct t" by (simp add: rt_distinct_def rt_routes_def keys_distinct_def)
  moreover have "rt_abs t = metrics ?rs" using map_keys_perm(2) [OF perm assms(3)] by (simp add: rt_abs_def)
  ultimately show ?thesis using inv by blast
qed

text \<open>C9: The table refines a map from prefixes and interfaces to metrics.  After a reload that succeeded, and whose dump lists no prefix twice
  for the same interface, the table is the map of the routes that the dump lists before its end mark; and notifications keep
  it equal to a map: an added route sets its entry and a removed route clears it, in any sequence of messages and
  whatever the messages contain.\<close>

theorem route_events_refine_map:
  assumes "std_sort env" "reload env ok answers t0 = Some (True, t)"
    and "distinct (map rt_key (listed_routes (dump_messages answers)))"
  shows "rt_abs (fold (rt_apply env) evs t) =
    fold map_apply evs (map_of (map (\<lambda>e. (rt_key e, re_metric e)) (listed_routes (dump_messages answers))))"
  using reload_abs [OF assms(1,2)] rt_run_abs [OF assms(1), of t evs] assms(3) by (simp add: keys_distinct_def)

section \<open>An example\<close>

fun route_insert :: "route_entry \<Rightarrow> route_entry list \<Rightarrow> route_entry list" where
  "route_insert e [] = [e]"
| "route_insert e (x # xs) = (if route_less x e then x # route_insert e xs else e # x # xs)"

definition sample_env :: rt_env where
  "sample_env = \<lparr>if_indextoname = (\<lambda>i. if i = 2 then Some ''eth0'' else if i = 3 then Some ''wlan0'' else None),
     link_answer = (\<lambda>_. None), route_sort = (\<lambda>rs. foldr route_insert rs [])\<rparr>"

lemma mset_route_insert: "mset (route_insert e rs) = add_mset e (mset rs)"
  by (induction rs) auto

lemma set_route_insert: "set (route_insert e rs) = insert e (set rs)"
  by (induction rs) auto

lemma route_le_trans: "\<not> route_less b a \<Longrightarrow> \<not> route_less c b \<Longrightarrow> \<not> route_less c a"
  by (auto simp: route_less_def split: if_splits)

lemma sorted_route_insert:
  "sorted_wrt (\<lambda>a b. \<not> route_less b a) rs \<Longrightarrow> sorted_wrt (\<lambda>a b. \<not> route_less b a) (route_insert e rs)"
proof (induction rs)
  case (Cons x xs)
  have "\<not> route_less e x" if "route_less x e" using that by (auto simp: route_less_def split: if_splits)
  then show ?case using Cons route_le_trans [of x e] by (auto simp: set_route_insert)
qed simp

lemma sample_sort: "std_sort sample_env"
proof -
  have "mset (foldr route_insert rs []) = mset rs \<and> sorted_wrt (\<lambda>a b. \<not> route_less b a) (foldr route_insert rs [])" for rs
    by (induction rs) (simp_all add: mset_route_insert sorted_route_insert)
  then show ?thesis by (simp add: std_sort_def sample_env_def)
qed

definition sample_says :: "u8 \<Rightarrow> u8 \<Rightarrow> route_says" where
  "sample_says oif metric = \<lparr>says_type = RTM_NEWROUTE, says_family = 2, says_dst_len = 0, says_table = RT_TABLE_MAIN,
     says_attrs = [(RTA_OIF, [oif, 0, 0, 0]), (RTA_PRIORITY, [metric, 0, 0, 0])]\<rparr>"

definition sample_route :: "u8 \<Rightarrow> u8 \<Rightarrow> bytes" where
  "sample_route oif metric = nl_batch [says_body (sample_says oif metric)]"

lemma sample_parse:
  "parse_route_msg (sample_route oif metric) =
     Some \<lparr>re_prefix = cidr_init [0, 0, 0, 0] 0, re_if_index = word_of_nat (unat oif), re_metric = word_of_nat (unat metric)\<rparr>"
proof -
  have "says_ok (sample_says oif metric)"
    by (simp add: says_ok_def sample_says_def addr_size_def route_attrs_ok_def rta_types RTM_NEWROUTE_def
        rta_encodes_def rta_encode_def nl_pad_def nl_align_def)
  moreover have "replicate 4 (0 :: u8) = [0, 0, 0, 0]" by (simp add: numeral_eq_Suc)
  then have "says_route (sample_says oif metric) =
     \<lparr>re_prefix = cidr_init [0, 0, 0, 0] 0, re_if_index = word_of_nat (unat oif), re_metric = word_of_nat (unat metric)\<rparr>"
    by (simp add: says_route_def sample_says_def attr_or_def addr_size_def rta_types rd32_def rd16_def rd8_def)
  ultimately show ?thesis using says_parse [of "sample_says oif metric" "[]" "[]"] by (simp add: sample_route_def)
qed

definition sample_table :: routing_table where
  "sample_table = fold (rt_apply sample_env) [Ev_new (sample_route 2 200), Ev_new (sample_route 3 100)] (rt_begin False (- 1) [])"

lemma sample_reachable: "rt_reachable sample_env (rt_begin False (- 1) []) sample_table"
  by (simp add: sample_table_def rt_reachable.intros)

lemma sample_default: "get_default_if_index sample_table = Some 3"
  by (simp add: sample_table_def handle_new_route_def sample_parse rt_begin_def routing_table_make_def get_default_if_index_def
      sort_and_update_cache_def find_default_route_def add_route_def same_route_def get_routes_by_addr_size_def
      put_routes_by_addr_size_def is_default_route_def is_interface_ignored_def sample_env_def route_less_def
      cidr_init_dims Let_def)

theorem default_interface_best_witness:
  "best_route sample_env sample_table (m_routes_v4 sample_table) (Some 3) \<or>
   best_route sample_env sample_table (m_routes_v6 sample_table) (Some 3)"
  using default_interface_best [OF sample_sort sample_reachable] by (auto simp: sample_default split: if_splits)

text \<open>A dump of one route and the end mark.\<close>

definition sample_dump :: "bytes option list" where
  "sample_dump = [Some (nl_batch [says_body (sample_says 2 200), (NLMSG_DONE, [])])]"

definition sample_entry :: "u8 \<Rightarrow> u8 \<Rightarrow> route_entry" where
  "sample_entry oif metric =
     \<lparr>re_prefix = cidr_init [0, 0, 0, 0] 0, re_if_index = word_of_nat (unat oif), re_metric = word_of_nat (unat metric)\<rparr>"

lemma sample_says_ok: "says_ok (sample_says oif metric)"
  by (simp add: says_ok_def sample_says_def addr_size_def route_attrs_ok_def rta_types RTM_NEWROUTE_def
      rta_encodes_def rta_encode_def nl_pad_def nl_align_def)

lemma sample_says_route: "says_route (sample_says oif metric) = sample_entry oif metric"
proof -
  have "replicate 4 (0 :: u8) = [0, 0, 0, 0]" by (simp add: numeral_eq_Suc)
  then show ?thesis
    by (simp add: says_route_def sample_says_def sample_entry_def attr_or_def addr_size_def rta_types rd32_def rd16_def rd8_def)
qed

lemma sample_dump_messages:
  "dump_messages sample_dump = [nl_batch [says_body (sample_says 2 200), (NLMSG_DONE, [])], nl_batch [(NLMSG_DONE, [])]]"
proof -
  have "nl_fits [says_body (sample_says 2 200), (NLMSG_DONE, [])]"
    using sample_says_ok [of 2 200] by (simp add: says_ok_def says_body_def NLMSG_DONE_def)
  from nl_msgs_batch [OF this, of "[]"] show ?thesis by (simp add: dump_messages_def sample_dump_def)
qed

lemma sample_dump_types:
  "nlmsg_type (nl_batch [says_body (sample_says 2 200), (NLMSG_DONE, [])]) = RTM_NEWROUTE"
  "nlmsg_type (nl_batch [(NLMSG_DONE, [])]) = NLMSG_DONE"
  using nl_encode_read(2) [of "snd (says_body (sample_says 2 200))" RTM_NEWROUTE "nl_batch [(NLMSG_DONE, [])]"]
    nl_encode_read(2) [of "[]" NLMSG_DONE "[]"]
  by (simp_all add: nl_batch_def says_body_def sample_says_def RTM_NEWROUTE_def NLMSG_DONE_def rta_encodes_def
      length_rta_encode nl_align_def)

lemma sample_listed: "listed_routes (dump_messages sample_dump) = [sample_entry 2 200]"
  using says_parse [OF sample_says_ok, of 2 200 "[(NLMSG_DONE, [])]" "[]"] sample_dump_types
  by (simp add: sample_dump_messages listed_routes_Cons sample_says_route RTM_NEWROUTE_def NLMSG_DONE_def)

lemma sample_reload: "\<exists>t. reload sample_env True sample_dump (rt_begin False 5 []) = Some (True, t)"
proof -
  have "\<exists>v4 v6. reload_loop sample_dump ([], []) = Some (Some (v4, v6))"
    using says_parse [OF sample_says_ok, of 2 200 "[(NLMSG_DONE, [])]" "[]"] sample_dump_types sample_dump_messages
    by (simp add: sample_dump_def dump_messages_def RTM_NEWROUTE_def NLMSG_DONE_def NLMSG_ERROR_def)
  then show ?thesis by (auto simp: reload_def rt_begin_def routing_table_make_def)
qed

theorem route_events_refine_map_witness:
  "\<exists>t. reload sample_env True sample_dump (rt_begin False 5 []) = Some (True, t) \<and>
    rt_abs (fold (rt_apply sample_env) [Ev_new (sample_route 2 50), Ev_new (sample_route 3 100), Ev_del (sample_route 2 50)] t) =
      [(cidr_init [0, 0, 0, 0] 0, 3) \<mapsto> 100]"
proof -
  obtain t where t: "reload sample_env True sample_dump (rt_begin False 5 []) = Some (True, t)" using sample_reload by blast
  show ?thesis
    using t route_events_refine_map [OF sample_sort t, of "[Ev_new (sample_route 2 50), Ev_new (sample_route 3 100), Ev_del (sample_route 2 50)]"]
    by (auto simp: sample_listed sample_parse rt_key_def sample_entry_def fun_eq_iff)
qed

text \<open>Also: the system may have several routes to one prefix through one interface that differ in their metrics; the table has one entry for
  them all, so the removal of one of them is the removal of all.\<close>

theorem route_metrics_merged:
  assumes "std_sort env" "parse_route_msg a = Some r" "parse_route_msg b = Some s" "rt_key r = rt_key s" "re_metric r \<noteq> re_metric s"
  shows "rt_abs (fold (rt_apply env) [Ev_new a, Ev_new b, Ev_del b] (rt_begin tun fd ignored)) (rt_key r) = None"
proof -
  have "rt_distinct (rt_begin tun fd ignored)"
    by (simp add: rt_begin_def routing_table_make_def rt_distinct_def keys_distinct_def)
  then have "rt_abs (fold (rt_apply env) [Ev_new a, Ev_new b, Ev_del b] (rt_begin tun fd ignored)) =
    fold map_apply [Ev_new a, Ev_new b, Ev_del b] (rt_abs (rt_begin tun fd ignored))"
    using rt_run_abs [OF assms(1) rt_begin_inv] by blast
  then show ?thesis using assms(2-4) by (simp only: fold.simps comp_apply id_apply map_apply.simps option.case) simp
qed

theorem route_metrics_merged_witness:
  "rt_abs (fold (rt_apply sample_env) [Ev_new (sample_route 2 200), Ev_new (sample_route 2 100), Ev_del (sample_route 2 100)]
     (rt_begin False (- 1) [])) (cidr_init [0, 0, 0, 0] 0, 2) = None"
  using route_metrics_merged [of sample_env "sample_route 2 200" _ "sample_route 2 100", OF sample_sort sample_parse sample_parse, of False "- 1" "[]"] by (simp add: rt_key_def)

text \<open>Also: reading the table ends as soon as an answer fails or has the end mark or an error among its messages.\<close>

definition dump_ends :: "bytes \<Rightarrow> bool" where
  "dump_ends buf \<longleftrightarrow> list_ex (\<lambda>m. nlmsg_type m = NLMSG_DONE \<or> nlmsg_type m = NLMSG_ERROR) (nl_msgs buf (int (length buf)))"

lemma reload_msgs_more: "fst (reload_msgs ms rs) = Dump_more \<longleftrightarrow> \<not> list_ex (\<lambda>m. nlmsg_type m = NLMSG_DONE \<or> nlmsg_type m = NLMSG_ERROR) ms"
proof (induction ms arbitrary: rs)
  case (Cons m ms)
  obtain v4 v6 where "rs = (v4, v6)" by (cases rs)
  then show ?case using Cons.IH by (simp split: option.splits)
qed simp

lemma reload_loop_returns: "reload_loop answers rs \<noteq> None \<longleftrightarrow> list_ex (\<lambda>a. case a of None \<Rightarrow> True | Some buf \<Rightarrow> dump_ends buf) answers"
proof (induction answers arbitrary: rs)
  case (Cons a answers)
  show ?case
  proof (cases a)
    case (Some buf)
    obtain d rs' where d: "reload_msgs (nl_msgs buf (int (length buf))) rs = (d, rs')" by (cases "reload_msgs (nl_msgs buf (int (length buf))) rs")
    then show ?thesis using reload_msgs_more [of "nl_msgs buf (int (length buf))" rs] Cons.IH Some
      by (cases d) (auto simp: dump_ends_def)
  qed simp
qed simp

theorem reload_returns_iff:
  "(\<exists>r. reload env ok answers t = Some r) \<longleftrightarrow>
   (if m_query_fd t < 0 \<or> \<not> ok then True else list_ex (\<lambda>a. case a of None \<Rightarrow> True | Some buf \<Rightarrow> dump_ends buf) answers)"
  using reload_loop_returns [of answers "([], [])"] by (auto simp: reload_def)

end
