(* ===== verification/NetworkMonitor.thy ===== *)
theory NetworkMonitor
  imports RoutingTable Streams
begin

text \<open>
  \<^verbatim>\<open>NetworkMonitorImpl\<close> of \<^verbatim>\<open>common/network_monitor.cpp\<close> for Linux and for Apple systems: starting and stopping, the notifications
  that arrive, and the reports that the user's handler gets.  The answers of the system calls are parameters; the
  reports and the stops are recorded in the order in which they happen.
\<close>

section \<open>Model\<close>

datatype mon_event = Reported string bool | Stopped

record monitor_core =
  m_cmd_handler :: bool \<comment> \<open>whether there is a handler\<close>
  m_if_name :: string
  mon_events :: "mon_event list"

definition report :: "string \<Rightarrow> bool \<Rightarrow> 'a monitor_core_scheme \<Rightarrow> 'a monitor_core_scheme" where
  "report name connected m = (if m_cmd_handler m then m\<lparr>mon_events := mon_events m @ [Reported name connected]\<rparr> else m)"

definition handle_network_change :: "string \<Rightarrow> bool \<Rightarrow> 'a monitor_core_scheme \<Rightarrow> 'a monitor_core_scheme" where
  "handle_network_change new_if_name is_satisfied m =
     (if \<not> is_satisfied then (report [] False m)\<lparr>m_if_name := []\<rparr>
      else if m_if_name m \<noteq> new_if_name then (report new_if_name True m)\<lparr>m_if_name := new_if_name\<rparr>
      else m)"

subsection \<open>Linux\<close>

record linux_monitor = monitor_core +
  m_monitor_event :: bool
  m_monitor_sock_fd :: int
  m_routing_table :: routing_table
  m_netlink_available :: bool

text \<open>The answers of the calls that set up the socket.\<close>

record sock_answers =
  ans_socket :: int
  ans_getfl :: int
  ans_setfl :: int
  ans_bind :: int

definition close_socket :: "linux_monitor \<Rightarrow> linux_monitor" where
  "close_socket m =
     (let m1 = m\<lparr>m_routing_table := close_query_socket (m_routing_table m)\<rparr>
      in if m_monitor_sock_fd m1 \<noteq> - 1 then m1\<lparr>m_monitor_sock_fd := - 1\<rparr> else m1)"

definition create_socket :: "sock_answers \<Rightarrow> linux_monitor \<Rightarrow> bool \<times> linux_monitor" where
  "create_socket ans m =
     (let m1 = m\<lparr>m_monitor_sock_fd := ans_socket ans\<rparr>
      in if ans_socket ans < 0 then (False, m1)
         else if ans_getfl ans = - 1 then (False, close_socket m1)
         else if ans_setfl ans = - 1 then (False, close_socket m1)
         else if ans_bind ans < 0 then (False, close_socket m1)
         else (True, m1))"

text \<open>The answers of the query socket: its descriptor, whether the request is sent, and what is received.\<close>

record query_answers =
  qa_socket :: int
  qa_send :: bool
  qa_recv :: "bytes option list"

definition init_routing_table :: "rt_env \<Rightarrow> query_answers \<Rightarrow> linux_monitor \<Rightarrow> (bool \<times> linux_monitor) option" where
  "init_routing_table env qa m =
     (if m_monitor_sock_fd m < 0 then Some (False, m)
      else case init_query_socket (qa_socket qa) (m_routing_table m) of
        (False, t) \<Rightarrow> Some (False, m\<lparr>m_routing_table := t\<rparr>)
      | (True, t) \<Rightarrow>
          map_option (\<lambda>(ok, t1).
            if \<not> ok then (False, m\<lparr>m_routing_table := t1\<rparr>)
            else (True, m\<lparr>m_routing_table := snd (has_default_changed_and_reset t1), m_netlink_available := True\<rparr>))
            (reload env (qa_send qa) (qa_recv qa) t))"

definition mon_is_running :: "linux_monitor \<Rightarrow> bool" where
  "mon_is_running m = m_monitor_event m"

definition mon_start :: "rt_env \<Rightarrow> bool \<Rightarrow> sock_answers \<Rightarrow> query_answers \<Rightarrow> linux_monitor \<Rightarrow> linux_monitor option" where
  "mon_start env ev_base ans qa m =
     (if mon_is_running m \<or> \<not> ev_base then Some m
      else case create_socket ans m of
        (False, m1) \<Rightarrow> Some m1
      | (True, m1) \<Rightarrow> map_option (\<lambda>(_, m2). m2\<lparr>m_monitor_event := True\<rparr>) (init_routing_table env qa m1))"

definition mon_stop :: "linux_monitor \<Rightarrow> linux_monitor" where
  "mon_stop m =
     (if \<not> mon_is_running m then m
      else let m1 = close_socket (m\<lparr>m_monitor_event := False\<rparr>)
           in m1\<lparr>m_if_name := [], mon_events := mon_events m1 @ [Stopped]\<rparr>)"

text \<open>Without the routing socket the default interface is taken from the output of a command.\<close>

definition ip_route_command :: string where
  "ip_route_command = ''ip -o route show to default''"

definition interface_of_output :: "string \<Rightarrow> string" where
  "interface_of_output output =
     (let parts = split_by_char output CHR '' '' False True;
          found = find_if (\<lambda>p. p = ''dev'') parts
      in if found = length parts \<or> found + 1 = length parts then [] else parts ! (found + 1))"

definition get_default_interface :: "rt_env \<Rightarrow> (string \<Rightarrow> (string list \<times> int) option) \<Rightarrow> linux_monitor \<Rightarrow> string" where
  "get_default_interface env popen m =
     (if m_netlink_available m then get_default_if_name env (m_routing_table m)
      else case exec_with_output popen ip_route_command of
        Inl _ \<Rightarrow> []
      | Inr result \<Rightarrow> interface_of_output (ex_output result))"

text \<open>One message of a notification; the first component says whether an address changed.\<close>

definition mon_message :: "rt_env \<Rightarrow> bytes \<Rightarrow> bool \<times> linux_monitor \<Rightarrow> bool \<times> linux_monitor" where
  "mon_message env nlh s =
     (let (addr_changed, m) = s; t = nlmsg_type nlh
      in if t = RTM_NEWADDR \<or> t = RTM_DELADDR then (True, m)
         else if t = RTM_NEWROUTE then
           (addr_changed, if m_netlink_available m then m\<lparr>m_routing_table := handle_new_route env nlh (m_routing_table m)\<rparr> else m)
         else if t = RTM_DELROUTE then
           (addr_changed, if m_netlink_available m then m\<lparr>m_routing_table := handle_del_route env nlh (m_routing_table m)\<rparr> else m)
         else (addr_changed, m))"

definition changed_handler :: "rt_env \<Rightarrow> (string \<Rightarrow> (string list \<times> int) option) \<Rightarrow> bytes option \<Rightarrow> linux_monitor \<Rightarrow> linux_monitor" where
  "changed_handler env popen received m =
     (case received of
        None \<Rightarrow> m
      | Some buf \<Rightarrow>
          (let (addr_changed, m1) = fold (mon_message env) (nl_msgs buf (int (length buf))) (False, m)
           in if m_netlink_available m1 then
                (let (changed, m2) =
                       (if addr_changed then (True, m1)
                        else let (c, t) = has_default_changed_and_reset (m_routing_table m1) in (c, m1\<lparr>m_routing_table := t\<rparr>))
                 in if changed
                    then (let new_if_name = get_default_if_name env (m_routing_table m2)
                          in handle_network_change new_if_name (new_if_name \<noteq> []) m2)
                    else m2)
              else if addr_changed then
                (let new_if_name = get_default_interface env popen m1
                 in handle_network_change new_if_name (new_if_name \<noteq> []) m1)
              else m1))"

subsection \<open>Apple\<close>

record apple_monitor = monitor_core +
  m_nw_path_monitor :: bool
  m_first_update_done :: bool

text \<open>The interfaces of a path, in the order of the system; those of tunnels are passed over.\<close>

definition get_interface_name :: "string list \<Rightarrow> string" where
  "get_interface_name ifs =
     (case find (\<lambda>n. \<not> starts_with n ''utun'' \<and> \<not> starts_with n ''ipsec'') ifs of None \<Rightarrow> [] | Some n \<Rightarrow> n)"

definition apple_changed_handler :: "string list \<Rightarrow> bool \<Rightarrow> apple_monitor \<Rightarrow> apple_monitor" where
  "apple_changed_handler ifs is_satisfied m =
     (let new_if_name = get_interface_name ifs
      in if m_first_update_done m then handle_network_change new_if_name is_satisfied m
         else m\<lparr>m_if_name := new_if_name, m_first_update_done := True\<rparr>)"

definition apple_stop :: "apple_monitor \<Rightarrow> apple_monitor" where
  "apple_stop m =
     (if \<not> m_nw_path_monitor m then m
      else m\<lparr>m_nw_path_monitor := False, m_first_update_done := False, m_if_name := [], mon_events := mon_events m @ [Stopped]\<rparr>)"

section \<open>The reports follow the default interface\<close>

text \<open>The last report of the running session, and that no interface is reported twice in a row.\<close>

fun last_report :: "mon_event list \<Rightarrow> (string \<times> bool) option" where
  "last_report es = (if es = [] then None else case last es of Stopped \<Rightarrow> None | Reported n c \<Rightarrow> Some (n, c))"

declare last_report.simps [simp del]

fun connected :: "mon_event \<Rightarrow> bool" where
  "connected (Reported n c) = c"
| "connected Stopped = False"

definition no_repeat :: "mon_event list \<Rightarrow> bool" where
  "no_repeat es = successively (\<lambda>a b. \<not> (a = b \<and> connected a)) es"

lemma last_report_snoc [simp]:
  "last_report (es @ [Reported n c]) = Some (n, c)" "last_report (es @ [Stopped]) = None" "last_report [] = None"
  by (simp_all add: last_report.simps)

lemma no_repeat_snoc:
  assumes "no_repeat es" "\<And>n. e = Reported n True \<Longrightarrow> last_report es \<noteq> Some (n, True)"
  shows "no_repeat (es @ [e])"
proof -
  have "es = [] \<or> \<not> (last es = e \<and> connected e)"
    using assms(2) by (cases e) (auto simp: last_report.simps)
  then show ?thesis using assms(1) by (auto simp: no_repeat_def successively_append_iff)
qed

fun names :: "(string \<times> bool) option \<Rightarrow> string \<Rightarrow> bool" where
  "names None s = True"
| "names (Some (n, c)) s = (n = s)"

text \<open>What holds at any time: a connected interface was the last to be reported, and no interface was reported twice in a row.\<close>

definition core_inv :: "'a monitor_core_scheme \<Rightarrow> bool" where
  "core_inv m \<longleftrightarrow> m_cmd_handler m \<and> no_repeat (mon_events m) \<and>
     list_all (\<lambda>e. case e of Reported n c \<Rightarrow> c = (n \<noteq> []) | Stopped \<Rightarrow> True) (mon_events m) \<and>
     names (last_report (mon_events m)) (m_if_name m)"

lemma handle_change_inv:
  assumes "core_inv m" "sat = (n \<noteq> [])"
  shows "core_inv (handle_network_change n sat m)" "m_if_name (handle_network_change n sat m) = n"
    "monitor_core.more (handle_network_change n sat m) = monitor_core.more m"
proof -
  have h: "m_cmd_handler m" using assms(1) by (simp add: core_inv_def)
  have n1: "no_repeat (mon_events m @ [Reported [] False])"
    using assms(1) by (intro no_repeat_snoc) (simp_all add: core_inv_def)
  have n2: "no_repeat (mon_events m @ [Reported n True])" if "m_if_name m \<noteq> n"
    using assms(1) that by (intro no_repeat_snoc) (auto simp: core_inv_def)
  show "core_inv (handle_network_change n sat m)"
    using assms h n1 n2 by (auto simp: handle_network_change_def report_def core_inv_def)
  show "m_if_name (handle_network_change n sat m) = n" "monitor_core.more (handle_network_change n sat m) = monitor_core.more m"
    using assms(2) by (simp_all add: handle_network_change_def report_def)
qed

lemma handle_change_fields:
  "m_routing_table (handle_network_change n sat m) = m_routing_table m"
  "m_netlink_available (handle_network_change n sat m) = m_netlink_available m"
  "m_monitor_event (handle_network_change n sat m) = m_monitor_event m"
  "last_report (mon_events (handle_network_change n sat m)) = None \<Longrightarrow> last_report (mon_events m) = None"
  by (simp_all add: handle_network_change_def report_def split: if_splits)

text \<open>The table of a monitor in a running session; the environment stays the same.\<close>

definition session_inv :: "rt_env \<Rightarrow> linux_monitor \<Rightarrow> bool" where
  "session_inv env m \<longleftrightarrow> core_inv m \<and> m_netlink_available m \<and> rt_inv env (m_routing_table m) \<and>
     (last_report (mon_events m) \<noteq> None \<longrightarrow> m_if_name m = get_default_if_name env (m_routing_table m))"

inductive mon_session :: "rt_env \<Rightarrow> linux_monitor \<Rightarrow> linux_monitor \<Rightarrow> bool" for env m0 where
  ms_start: "mon_session env m0 m0"
| ms_notified: "mon_session env m0 m \<Longrightarrow> mon_session env m0 (changed_handler env popen received m)"

abbreviation mon_core :: "linux_monitor \<Rightarrow> bool \<times> string \<times> mon_event list" where
  "mon_core m \<equiv> (m_cmd_handler m, m_if_name m, mon_events m)"

text \<open>Whether the flag is set or the default is as before.\<close>

definition settled :: "routing_table \<Rightarrow> routing_table \<Rightarrow> bool" where
  "settled t u \<longleftrightarrow> m_default_changed u \<or> get_default_if_index u = get_default_if_index t"

lemma sort_settled: "settled t (sort_and_update_cache env (put_routes_by_addr_size n rs t))"
  by (auto simp: settled_def sort_and_update_cache_def put_routes_by_addr_size_def get_default_if_index_def Let_def)

lemma route_settled: "settled t (handle_new_route env b t)" "settled t (handle_del_route env b t)"
  using sort_settled by (auto simp: handle_new_route_def handle_del_route_def Let_def settled_def split: option.splits)

lemma sort_flag: "m_default_changed t \<Longrightarrow> m_default_changed (sort_and_update_cache env (put_routes_by_addr_size n rs t))"
  by (simp add: sort_and_update_cache_def put_routes_by_addr_size_def Let_def)

lemma route_flag:
  "m_default_changed t \<Longrightarrow> m_default_changed (handle_new_route env b t)" "m_default_changed t \<Longrightarrow> m_default_changed (handle_del_route env b t)"
  using sort_flag by (auto simp: handle_new_route_def handle_del_route_def Let_def split: option.splits)

lemma settled_refl: "settled t t"
  by (simp add: settled_def)

lemma settled_trans:
  "settled t u \<Longrightarrow> settled u v \<Longrightarrow> (m_default_changed u \<Longrightarrow> m_default_changed v) \<Longrightarrow> settled t v"
  by (auto simp: settled_def)

lemma mon_message_inv:
  assumes "std_sort env" "mon_message env b (a, m) = (a', m')" "m_netlink_available m" "rt_inv env (m_routing_table m)"
  shows "rt_inv env (m_routing_table m')" "settled (m_routing_table m) (m_routing_table m')"
    "m_default_changed (m_routing_table m) \<Longrightarrow> m_default_changed (m_routing_table m')"
    "m_netlink_available m'" "mon_core m' = mon_core m"
proof -
  consider (new) "m' = m\<lparr>m_routing_table := handle_new_route env b (m_routing_table m)\<rparr>"
    | (del) "m' = m\<lparr>m_routing_table := handle_del_route env b (m_routing_table m)\<rparr>" | (same) "m' = m"
    using assms(2,3) by (auto simp: mon_message_def Let_def split: if_splits)
  note c = this
  show "rt_inv env (m_routing_table m')" using c assms(4) by cases (simp_all add: handle_new_route_inv handle_del_route_inv assms(1))
  show "settled (m_routing_table m) (m_routing_table m')" using c by cases (simp_all add: route_settled settled_refl)
  show "m_default_changed (m_routing_table m) \<Longrightarrow> m_default_changed (m_routing_table m')" using c by cases (auto intro: route_flag)
  show "m_netlink_available m'" using c assms(3) by cases simp_all
  show "mon_core m' = mon_core m" using c by cases simp_all
qed

lemma mon_messages_inv:
  assumes "std_sort env" "fold (mon_message env) bs (a, m) = (a', m')" "m_netlink_available m" "rt_inv env (m_routing_table m)"
  shows "rt_inv env (m_routing_table m') \<and> settled (m_routing_table m) (m_routing_table m') \<and>
    (m_default_changed (m_routing_table m) \<longrightarrow> m_default_changed (m_routing_table m')) \<and>
    m_netlink_available m' \<and> mon_core m' = mon_core m"
  using assms(2-4)
proof (induction bs arbitrary: a m)
  case (Cons b bs)
  obtain a1 m1 where s: "mon_message env b (a, m) = (a1, m1)" by (cases "mon_message env b (a, m)")
  note i = mon_message_inv [OF assms(1) s Cons.prems(2,3)]
  have "fold (mon_message env) bs (a1, m1) = (a', m')" using Cons.prems(1) s by simp
  from Cons.IH [OF this i(4,1)] show ?case using i settled_trans [OF i(2)] by auto
qed (simp add: settled_def)

lemma default_name_cong: "get_default_if_index t = get_default_if_index u \<Longrightarrow> get_default_if_name env t = get_default_if_name env u"
  by (simp add: get_default_if_name_def)

lemma reset_flag_inv:
  "rt_inv env t \<Longrightarrow> rt_inv env (t\<lparr>m_default_changed := False\<rparr>)"
  "get_default_if_name env (t\<lparr>m_default_changed := False\<rparr>) = get_default_if_name env t"
  using default_cong [of "t\<lparr>m_default_changed := False\<rparr>" t env]
  by (simp_all add: rt_inv_def get_default_if_name_def get_default_if_index_def)

lemma report_default_inv:
  assumes "core_inv m" "m_netlink_available m" "rt_inv env (m_routing_table m)" "n = get_default_if_name env (m_routing_table m)"
  shows "session_inv env (handle_network_change n (n \<noteq> []) m)"
  using assms handle_change_inv [OF assms(1) refl, of n] by (simp add: session_inv_def handle_change_fields)

lemma changed_handler_inv:
  assumes "std_sort env" "session_inv env m"
  shows "session_inv env (changed_handler env popen received m)"
proof (cases received)
  case None
  then show ?thesis using assms(2) by (simp add: changed_handler_def)
next
  case (Some buf)
  obtain a m1 where f: "fold (mon_message env) (nl_msgs buf (int (length buf))) (False, m) = (a, m1)"
    by (cases "fold (mon_message env) (nl_msgs buf (int (length buf))) (False, m)")
  have s: "core_inv m" "m_netlink_available m" "rt_inv env (m_routing_table m)" using assms(2) by (simp_all add: session_inv_def)
  note i = mon_messages_inv [OF assms(1) f s(2,3)]
  have e: "m_cmd_handler m1 = m_cmd_handler m" "m_if_name m1 = m_if_name m" "mon_events m1 = mon_events m"
    using i by simp_all
  have c1: "core_inv m1" using s(1) by (simp only: core_inv_def e)
  define m2 where "m2 = m1\<lparr>m_routing_table := (m_routing_table m1)\<lparr>m_default_changed := False\<rparr>\<rparr>"
  have c2: "core_inv m2" "m_netlink_available m2" "rt_inv env (m_routing_table m2)"
    using c1 i reset_flag_inv(1) by (simp_all add: m2_def core_inv_def)
  define k where "k = (if a then m1 else m2)"
  have k: "core_inv k" "m_netlink_available k" "rt_inv env (m_routing_table k)" using c1 c2 i by (simp_all add: k_def)
  have res: "changed_handler env popen received m =
    (if a \<or> m_default_changed (m_routing_table m1)
     then handle_network_change (get_default_if_name env (m_routing_table k)) (get_default_if_name env (m_routing_table k) \<noteq> []) k else m2)"
    using i by (simp add: changed_handler_def Some f has_default_changed_and_reset_def k_def m2_def Let_def)
  show ?thesis
  proof (cases "a \<or> m_default_changed (m_routing_table m1)")
    case True
    then show ?thesis unfolding res using report_default_inv [OF k refl] by simp
  next
    case False
    then have "get_default_if_index (m_routing_table m1) = get_default_if_index (m_routing_table m)"
      using i by (simp add: settled_def)
    then have "get_default_if_name env (m_routing_table m2) = get_default_if_name env (m_routing_table m)"
      by (simp add: m2_def reset_flag_inv(2) default_name_cong [of "m_routing_table m1" "m_routing_table m" env])
    moreover have "m_if_name m2 = m_if_name m" "mon_events m2 = mon_events m" by (simp_all add: m2_def e)
    ultimately have "session_inv env m2" using c2 assms(2) by (simp add: session_inv_def)
    then show ?thesis unfolding res using False by simp
  qed
qed

definition mon_make :: "routing_table \<Rightarrow> linux_monitor" where
  "mon_make t = \<lparr>m_cmd_handler = True, m_if_name = [], mon_events = [], m_monitor_event = False, m_monitor_sock_fd = - 1,
     m_routing_table = t, m_netlink_available = False\<rparr>"

lemma rt_begin_query: "\<exists>fd'. snd (init_query_socket s (rt_begin tun fd ignored)) = rt_begin tun fd' ignored"
  by (auto simp: init_query_socket_def rt_begin_def routing_table_make_def Let_def)

lemma start_inv:
  assumes "std_sort env" "mon_start env True ans qa (mon_make (rt_begin tun fd ignored)) = Some m0" "m_netlink_available m0"
  shows "session_inv env m0"
proof -
  let ?m1 = "(mon_make (rt_begin tun fd ignored))\<lparr>m_monitor_sock_fd := ans_socket ans\<rparr>"
  obtain ok t where q: "init_query_socket (qa_socket qa) (rt_begin tun fd ignored) = (ok, t)" by (cases "init_query_socket (qa_socket qa) (rt_begin tun fd ignored)")
  have inv: "rt_inv env t" using rt_begin_query [of "qa_socket qa" tun fd ignored] rt_begin_inv [of env] by (auto simp: q)
  obtain t1 where "reload env (qa_send qa) (qa_recv qa) t = Some (True, t1)"
    "m0 = ?m1\<lparr>m_routing_table := t1\<lparr>m_default_changed := False\<rparr>, m_netlink_available := True, m_monitor_event := True\<rparr>"
    using assms(2,3) by (auto simp: mon_start_def create_socket_def init_routing_table_def q has_default_changed_and_reset_def
        mon_is_running_def mon_make_def close_socket_def Let_def split: if_splits bool.splits)
  then show ?thesis
    using reload_inv [OF assms(1) inv] reset_flag_inv(1) by (simp add: session_inv_def core_inv_def mon_make_def no_repeat_def)
qed

lemma mon_session_inv: "mon_session env m0 m \<Longrightarrow> std_sort env \<Longrightarrow> session_inv env m0 \<Longrightarrow> session_inv env m"
  by (induction rule: mon_session.induct) (simp_all add: changed_handler_inv)

text \<open>C8: after a monitor has started with the routing socket, and whatever notifications it then receives, the last report that the
  handler got names the interface of the best usable default route of the table, or says that there is no connection
  when there is none; and the same interface is never reported twice in a row.\<close>

theorem monitor_reports_default:
  assumes "std_sort env" "mon_start env True ans qa (mon_make (rt_begin tun fd ignored)) = Some m0" "m_netlink_available m0"
    and "mon_session env m0 m"
  defines "t \<equiv> m_routing_table m"
  shows "(case last_report (mon_events m) of
      None \<Rightarrow> True
    | Some (name, up) \<Rightarrow> name = get_default_if_name env t \<and> up = (name \<noteq> []) \<and>
        (if list_ex (usable env t) (m_routes_v4 t) then best_route env t (m_routes_v4 t) (get_default_if_index t)
         else best_route env t (m_routes_v6 t) (get_default_if_index t))) \<and>
    no_repeat (mon_events m)"
proof -
  have s: "session_inv env m" using mon_session_inv [OF assms(4,1) start_inv [OF assms(1-3)]] .
  then have inv: "rt_inv env t" by (simp add: session_inv_def t_def)
  show ?thesis
  proof (cases "last_report (mon_events m)")
    case None
    then show ?thesis using s by (simp add: session_inv_def core_inv_def)
  next
    case (Some r)
    obtain name up where r: "r = (name, up)" by (cases r)
    have "Reported name up \<in> set (mon_events m)"
      using Some unfolding r last_report.simps by (auto split: if_splits mon_event.splits) (metis last_in_set)
    then have "up = (name \<noteq> [])" using s by (auto simp: session_inv_def core_inv_def list_all_iff)
    moreover have "name = m_if_name m" "m_if_name m = get_default_if_name env t" "no_repeat (mon_events m)"
      using s Some by (simp_all add: session_inv_def core_inv_def r t_def)
    ultimately show ?thesis using rt_inv_default [OF inv] Some r by simp
  qed
qed

subsection \<open>An example\<close>

definition sample_query :: query_answers where
  "sample_query = \<lparr>qa_socket = 5, qa_send = True, qa_recv = [Some (nl_batch [(NLMSG_DONE, [])])]\<rparr>"

definition sample_start :: "linux_monitor option" where
  "sample_start = mon_start sample_env True \<lparr>ans_socket = 3, ans_getfl = 2, ans_setfl = 0, ans_bind = 0\<rparr> sample_query
     (mon_make (rt_begin False (- 1) []))"

definition sample_monitor :: linux_monitor where
  "sample_monitor = (mon_make (rt_begin False 5 []))\<lparr>m_monitor_sock_fd := 3, m_netlink_available := True, m_monitor_event := True\<rparr>"

lemma sample_done: "nl_msgs (nl_batch [(NLMSG_DONE, [])]) (int (length (nl_batch [(NLMSG_DONE, [])]))) = [nl_batch [(NLMSG_DONE, [])]]"
  using nl_msgs_batch [of "[(NLMSG_DONE, [])]" "[]"] by (simp add: NLMSG_DONE_def)

lemma sample_done_type: "nlmsg_type (nl_batch [(NLMSG_DONE, [])]) = NLMSG_DONE"
  using nl_encode_read(2) [of "[]" NLMSG_DONE "[]"] by (simp add: nl_batch_def NLMSG_DONE_def)

lemma sample_started: "sample_start = Some sample_monitor"
proof -
  have "reload sample_env True [Some (nl_batch [(NLMSG_DONE, [])])] (rt_begin False 5 []) = Some (True, rt_begin False 5 [])"
    by (simp add: reload_def sample_done sample_done_type rt_begin_def routing_table_make_def sort_and_update_cache_def
        find_default_route_def sample_env_def Let_def)
  moreover have "init_query_socket 5 (rt_begin False (- 1) []) = (True, rt_begin False 5 [])"
    by (simp add: init_query_socket_def rt_begin_def routing_table_make_def Let_def)
  ultimately show ?thesis
    by (simp add: sample_start_def mon_start_def create_socket_def init_routing_table_def sample_query_def sample_monitor_def
        mon_make_def mon_is_running_def has_default_changed_and_reset_def Let_def)
      (simp add: rt_begin_def routing_table_make_def)
qed

lemma sample_notified: "nl_msgs (sample_route i k) (int (length (sample_route i k))) = [sample_route i k]"
proof -
  have "nl_fits [says_body (sample_says i k)]"
    by (simp add: says_body_def sample_says_def RTM_NEWROUTE_def rta_encodes_def length_rta_encode nl_align_def)
  then show ?thesis using nl_msgs_batch [of "[says_body (sample_says i k)]" "[]"] by (simp add: sample_route_def)
qed

lemma sample_type: "nlmsg_type (sample_route i k) = RTM_NEWROUTE"
  using nl_encode_read(2) [of "snd (says_body (sample_says i k))" RTM_NEWROUTE "[]"]
  by (simp add: sample_route_def nl_batch_def says_body_def sample_says_def RTM_NEWROUTE_def rta_encodes_def length_rta_encode nl_align_def)

definition sample_after :: linux_monitor where
  "sample_after = changed_handler sample_env (\<lambda>_. None) (Some (sample_route 2 100)) sample_monitor"

lemma sample_reported: "mon_events sample_after = [Reported ''eth0'' True]"
  by (simp add: sample_after_def changed_handler_def sample_notified mon_message_def sample_type nl_types sample_monitor_def
      mon_make_def handle_new_route_def sample_parse rt_begin_def routing_table_make_def get_default_if_index_def
      sort_and_update_cache_def find_default_route_def add_route_def same_route_def get_routes_by_addr_size_def
      put_routes_by_addr_size_def is_default_route_def is_interface_ignored_def sample_env_def cidr_init_dims
      has_default_changed_and_reset_def get_default_if_name_def handle_network_change_def report_def Let_def)

theorem monitor_reports_default_witness:
  "''eth0'' = get_default_if_name sample_env (m_routing_table sample_after) \<and> no_repeat [Reported ''eth0'' True]"
proof -
  have s: "mon_session sample_env sample_monitor sample_after"
    unfolding sample_after_def by (intro mon_session.intros)
  have n: "m_netlink_available sample_monitor" by (simp add: sample_monitor_def)
  show ?thesis
    using monitor_reports_default [OF sample_sort sample_started [unfolded sample_start_def] n s] sample_reported
    by (simp only: last_report.simps) simp
qed

text \<open>Also: stopping leaves the flag that the table is current, so a stopped monitor answers from the table of the session that ended,
  whatever the system and its commands say.\<close>

theorem stopped_monitor_stale:
  assumes "m_netlink_available m" "m_monitor_event m"
  shows "get_default_interface env popen (mon_stop m) = get_default_if_name env (m_routing_table m)"
proof -
  have "get_default_if_name env (close_query_socket t) = get_default_if_name env t" for t
    by (rule default_name_cong) (auto simp: close_query_socket_def get_default_if_index_def)
  then show ?thesis
    using assms by (simp add: mon_stop_def mon_is_running_def close_socket_def get_default_interface_def Let_def)
qed

theorem stopped_monitor_stale_witness:
  "get_default_interface sample_env (\<lambda>_. None) (mon_stop sample_monitor) = get_default_if_name sample_env (m_routing_table sample_monitor)"
  by (rule stopped_monitor_stale) (simp_all add: sample_monitor_def)

text \<open>Also: on Apple systems the interface that is remembered is that of the last path, if the path is usable or is the first one.\<close>

theorem apple_last_path:
  assumes "us \<noteq> []" "\<not> m_first_update_done m"
  shows "m_if_name (fold (\<lambda>(ifs, sat). apple_changed_handler ifs sat) us m) =
    (if length us = 1 \<or> snd (last us) then get_interface_name (fst (last us)) else [])"
proof -
  obtain u vs where us: "us = u # vs" using assms(1) by (cases us) auto
  have step: "m_first_update_done (apple_changed_handler ifs sat n)" for ifs sat n
    by (simp add: apple_changed_handler_def handle_network_change_def report_def Let_def)
  have later1: "m_if_name (apple_changed_handler ifs sat n) = (if sat then get_interface_name ifs else [])"
    if "m_first_update_done n" for ifs sat n
    using that by (simp add: apple_changed_handler_def handle_network_change_def report_def Let_def)
  have later: "m_if_name (fold (\<lambda>(ifs, sat). apple_changed_handler ifs sat) ws n) =
      (if snd (last ws) then get_interface_name (fst (last ws)) else [])" if "ws \<noteq> []" "m_first_update_done n" for ws n
    using that
  proof (induction ws arbitrary: n)
    case (Cons w ws)
    obtain ifs sat where w: "w = (ifs, sat)" by (cases w)
    show ?case using Cons.IH [of "apple_changed_handler ifs sat n"] step later1 [OF Cons.prems(2)] by (cases "ws = []") (simp_all add: w)
  qed simp
  obtain ifs sat where u: "u = (ifs, sat)" by (cases u)
  show ?thesis
  proof (cases "vs = []")
    case True
    then show ?thesis using assms(2) by (simp add: us u apple_changed_handler_def Let_def)
  next
    case False
    then show ?thesis using later [OF False step, of ifs sat m] by (simp add: us u)
  qed
qed

theorem apple_last_path_witness:
  "m_if_name (fold (\<lambda>(ifs, sat). apple_changed_handler ifs sat) [([''utun0'', ''en0''], True), ([''pdp_ip0''], True)]
     \<lparr>m_cmd_handler = True, m_if_name = [], mon_events = [], m_nw_path_monitor = True, m_first_update_done = False\<rparr>) =
   get_interface_name [''pdp_ip0'']"
  using apple_last_path [of "[([''utun0'', ''en0''], True), ([''pdp_ip0''], True)]"
      "\<lparr>m_cmd_handler = True, m_if_name = [], mon_events = [], m_nw_path_monitor = True, m_first_update_done = False\<rparr>"] by simp

end
