(* ===== verification/RouteResolver.thy ===== *)
theory RouteResolver
  imports Netlink Cidr SocketAddress
begin

text \<open>
  \<^verbatim>\<open>AppleRouteResolver\<close> of \<^verbatim>\<open>common/route_resolver.cpp\<close>: the routing table of the kernel is read, its usual routes are kept,
  most specific first, and the interface for an address is that of the first route that matches.  Tables are kept,
  after a time in which they are read anew for every question, until they are flushed.  What \<^verbatim>\<open>sysctl\<close> answers, the clock
  and \<^verbatim>\<open>std::sort\<close>, which may order routes with equal masks in any way, are parameters.
\<close>

unbundle bit_operations_syntax

section \<open>Model\<close>

subsection \<open>Reading the table\<close>

datatype route_resolver_error = AE_SYSCTL_ERROR | AE_NOMEM

fun route_resolver_error_to_string :: "route_resolver_error \<Rightarrow> string" where
  "route_resolver_error_to_string AE_SYSCTL_ERROR = ''sysctl() error''"
| "route_resolver_error_to_string AE_NOMEM = ''Failed to allocate enough memory''"

record ip_route =
  rt_address :: bytes
  rt_netmask :: bytes
  rt_if_index :: nat

text \<open>The calls of \<^verbatim>\<open>sysctl\<close> that ask for the size and for the table, by family, number of the try and size: the table or \<^verbatim>\<open>errno\<close>.\<close>

record resolver_env =
  sysctl_estimate :: "nat \<Rightarrow> nat \<Rightarrow> nat + nat"
  sysctl_dump :: "nat \<Rightarrow> nat \<Rightarrow> nat \<Rightarrow> nat + bytes"
  strerror :: "nat \<Rightarrow> string"
  ip_route_sort :: "ip_route list \<Rightarrow> ip_route list"

definition RT_AF_INET :: nat where "RT_AF_INET = 2"
definition RT_AF_INET6 :: nat where "RT_AF_INET6 = 30"
definition ENOMEM :: nat where "ENOMEM = 12"

fun dump_tries :: "resolver_env \<Rightarrow> nat \<Rightarrow> nat \<Rightarrow> nat \<Rightarrow> (route_resolver_error \<times> string) + bytes" where
  "dump_tries env family 0 n_try = Inl (AE_NOMEM, dec n_try @ '' tries'')"
| "dump_tries env family (Suc left) n_try =
     (case sysctl_estimate env family n_try of
        Inl errno \<Rightarrow> Inl (AE_SYSCTL_ERROR, ''estimate: '' @ dec errno @ '', '' @ strerror env errno)
      | Inr out_size \<Rightarrow>
          (case sysctl_dump env family n_try (out_size * 2) of
             Inl errno \<Rightarrow>
               if errno = ENOMEM then dump_tries env family left (n_try + 1)
               else Inl (AE_SYSCTL_ERROR, ''dump: '' @ dec errno @ '', '' @ strerror env errno)
           | Inr rt \<Rightarrow> Inr rt))"

definition dump_routing_table :: "resolver_env \<Rightarrow> nat \<Rightarrow> (route_resolver_error \<times> string) + bytes" where
  "dump_routing_table env family = dump_tries env family 10 0"

text \<open>A message starts with its length, the index is at 4, the flags at 8 and the set of addresses at 12; addresses follow at 92.\<close>

definition rtm_msglen :: "bytes \<Rightarrow> nat" where "rtm_msglen b = rd16 b 0"
definition rtm_index :: "bytes \<Rightarrow> nat" where "rtm_index b = rd16 b 4"
definition rtm_flags :: "bytes \<Rightarrow> u32" where "rtm_flags b = word_of_nat (rd32 b 8)"
definition rtm_addrs :: "bytes \<Rightarrow> u32" where "rtm_addrs b = word_of_nat (rd32 b 12)"

text \<open>The loop over the messages; a message of length zero is visited forever.\<close>

partial_function (option) rt_messages :: "bytes \<Rightarrow> bytes list option" where
  "rt_messages rt =
     (if rt = [] then Some [] else Option.bind (rt_messages (drop (rtm_msglen rt) rt)) (\<lambda>ms. Some (rt # ms)))"

definition route_roundup :: "nat \<Rightarrow> nat" where
  "route_roundup a = (if a > 0 then 1 + ((a - 1) OR 3) else 4)"

fun rta_scan :: "u32 \<Rightarrow> nat list \<Rightarrow> bytes \<Rightarrow> (nat \<times> bytes) list" where
  "rta_scan addrs [] sa = []"
| "rta_scan addrs (i # is) sa =
     (if bit addrs i then (i, sa) # rta_scan addrs is (drop (route_roundup (rd8 sa 0)) sa) else rta_scan addrs is sa)"

definition wanted_route :: "u32 \<Rightarrow> bool" where
  "wanted_route flags \<longleftrightarrow> flags AND 0x1 \<noteq> 0 \<and> flags AND 0x800 \<noteq> 0 \<and> flags AND 0x20000 = 0 \<and> flags AND 0x1000000 = 0"

text \<open>\<^verbatim>\<open>memcpy\<close> to the mask: what is longer than the mask goes on to the index that follows it.\<close>

definition copy_netmask :: "bytes \<Rightarrow> ip_route \<Rightarrow> ip_route" where
  "copy_netmask m r =
     (let s = rt_netmask r @ le32n (rt_if_index r); s' = take 20 (m @ drop (length m) s)
      in r\<lparr>rt_netmask := take 16 s', rt_if_index := rd32 (drop 16 s') 0\<rparr>)"

definition fill_route :: "nat \<Rightarrow> nat \<Rightarrow> bytes \<Rightarrow> bytes option \<Rightarrow> ip_route \<Rightarrow> ip_route" where
  "fill_route off n dst netmask r =
     (let r1 = r\<lparr>rt_address := take n (drop off dst) @ drop n (rt_address r)\<rparr>
      in case netmask of
           None \<Rightarrow> r1\<lparr>rt_netmask := replicate n 0xff @ drop n (rt_netmask r)\<rparr>
         | Some m \<Rightarrow> if rd8 m 0 \<le> off then r1 else copy_netmask (take (rd8 m 0 - off) (drop off m)) r1)"

definition parse_rtm :: "nat \<Rightarrow> bytes \<Rightarrow> ip_route option" where
  "parse_rtm family rtm =
     (let sa = drop 92 rtm
      in if \<not> wanted_route (rtm_flags rtm) then None
         else if rd8 sa 1 \<noteq> family then None
         else let rta = map_of (rta_scan (rtm_addrs rtm) [0..<8] sa)
              in case rta 0 of
                   None \<Rightarrow> None
                 | Some dst \<Rightarrow>
                     (let route = \<lparr>rt_address = replicate 16 0, rt_netmask = replicate 16 0, rt_if_index = rtm_index rtm\<rparr>
                      in if rd8 dst 1 = RT_AF_INET then Some (fill_route 4 4 dst (rta 2) route)
                         else if rd8 dst 1 = RT_AF_INET6 then Some (fill_route 8 16 dst (rta 2) route)
                         else Some route))"

definition read_routing_table :: "resolver_env \<Rightarrow> nat \<Rightarrow> ip_route list option" where
  "read_routing_table env family =
     (case dump_routing_table env family of
        Inl e \<Rightarrow> Some []
      | Inr rt \<Rightarrow> map_option (\<lambda>ms. ip_route_sort env (List.map_filter (parse_rtm family) ms)) (rt_messages rt))"

subsection \<open>Routes\<close>

fun route_matches :: "bytes \<Rightarrow> bytes \<Rightarrow> bytes \<Rightarrow> bool" where
  "route_matches (d # dest) (m # netmask) (a # address) =
     (if m = 0 then True else if d AND m \<noteq> a then False else route_matches dest netmask address)"
| "route_matches _ _ _ = True"

definition ip_route_less :: "ip_route \<Rightarrow> ip_route \<Rightarrow> bool" where
  "ip_route_less r s = bytes_less (rt_netmask s) (rt_netmask r)"

subsection \<open>The resolver\<close>

record apple_route_resolver =
  ipv4_cache :: "ip_route list"
  ipv6_cache :: "ip_route list"
  created_at :: int

definition resolver_create :: "int \<Rightarrow> apple_route_resolver" where
  "resolver_create now = \<lparr>ipv4_cache = [], ipv6_cache = [], created_at = now\<rparr>"

text \<open>The clock counts nanoseconds.\<close>

definition NO_CACHE_SECONDS :: int where "NO_CACHE_SECONDS = 10"

fun first_match :: "bytes \<Rightarrow> ip_route list \<Rightarrow> nat option" where
  "first_match dest [] = None"
| "first_match dest (r # rs) =
     (if route_matches dest (rt_netmask r) (rt_address r) then Some (rt_if_index r) else first_match dest rs)"

definition resolve :: "resolver_env \<Rightarrow> int \<Rightarrow> storage \<Rightarrow> apple_route_resolver \<Rightarrow> (nat option \<times> apple_route_resolver) option" where
  "resolve env now address s =
     (let ipv4 = sa_is_ipv4 address;
          no_cache = now - created_at s < NO_CACHE_SECONDS * 10 ^ 9;
          table = (if no_cache then [] else if ipv4 then ipv4_cache s else ipv6_cache s);
          answer = first_match (sa_addr_unmapped address)
      in if table = []
         then map_option (\<lambda>t. (answer t,
                if no_cache then s else if ipv4 then s\<lparr>ipv4_cache := t\<rparr> else s\<lparr>ipv6_cache := t\<rparr>))
              (read_routing_table env (if ipv4 then RT_AF_INET else RT_AF_INET6))
         else Some (answer table, s))"

definition flush_cache :: "apple_route_resolver \<Rightarrow> apple_route_resolver" where
  "flush_cache s = s\<lparr>ipv4_cache := [], ipv6_cache := []\<rparr>"

text \<open>Everywhere else there are no routes.\<close>

definition noop_resolve :: "storage \<Rightarrow> nat option" where
  "noop_resolve address = None"

section \<open>Masks and matches\<close>

lemma addr_nat_mask:
  assumes "p \<le> n * 8"
  shows "addr_nat (init_mask n p) = push_bit (8 * n - p) (mask p)"
proof (rule bit_eqI)
  fix j
  show "bit (addr_nat (init_mask n p)) j \<longleftrightarrow> bit (push_bit (8 * n - p) (mask p :: nat)) j"
  proof (cases "j < 8 * n")
    case True
    let ?k = "8 * n - 1 - j"
    have "bit (addr_nat (init_mask n p)) j \<longleftrightarrow> abit (init_mask n p) ?k"
      using bit_addr_nat[of ?k "init_mask n p"] True by simp
    also have "\<dots> \<longleftrightarrow> ?k < p"
      using abit_mask[OF assms, of ?k] True by simp
    finally show ?thesis
      using True assms by (auto simp: bit_simps)
  next
    case False
    then show ?thesis
      using bit_addr_nat_high[of "init_mask n p" j] assms by (auto simp: bit_simps)
  qed
qed

text \<open>Masks are contiguous: the greater mask is that of the longer prefix.\<close>

lemma mask_less_iff:
  assumes "p \<le> n * 8" "q \<le> n * 8"
  shows "bytes_less (init_mask n p) (init_mask n q) \<longleftrightarrow> p < q"
proof -
  have v: "addr_nat (init_mask n x) + 2 ^ (8 * n - x) = 2 ^ (8 * n)" if "x \<le> n * 8" for x
  proof -
    have "2 ^ (8 * n - x) * (2 ^ x - 1) + 2 ^ (8 * n - x) = (2 :: nat) ^ (8 * n - x) * 2 ^ x"
      by (simp add: algebra_simps)
    also have "\<dots> = 2 ^ (8 * n)"
      using that by (simp add: power_add[symmetric])
    finally show ?thesis
      using that by (simp add: addr_nat_mask push_bit_eq_mult mask_eq_exp_minus_1 mult.commute)
  qed
  have "bytes_less (init_mask n p) (init_mask n q) \<longleftrightarrow> addr_nat (init_mask n p) < addr_nat (init_mask n q)"
    by (simp add: bytes_less_iff)
  also have "\<dots> \<longleftrightarrow> (2 :: nat) ^ (8 * n - q) < 2 ^ (8 * n - p)"
    using v[OF assms(1)] v[OF assms(2)] by linarith
  also have "\<dots> \<longleftrightarrow> 8 * n - q < 8 * n - p"
    by simp
  also have "\<dots> \<longleftrightarrow> p < q"
    using assms by linarith
  finally show ?thesis .
qed

lemma route_matches_iff:
  assumes "length dest \<le> length ms" "length as = length ms"
    and "\<And>i j. i \<le> j \<Longrightarrow> j < length ms \<Longrightarrow> ms ! i = 0 \<Longrightarrow> ms ! j = 0"
    and "\<And>i. i < length ms \<Longrightarrow> (as ! i) AND (ms ! i) = as ! i"
  shows "route_matches dest ms as \<longleftrightarrow> list_all (\<lambda>i. (as ! i) AND (ms ! i) = (dest ! i) AND (ms ! i)) [0..<length dest]"
  using assms
proof (induction dest ms as rule: route_matches.induct)
  case (1 d dest m ms a as)
  have up: "list_all P [0..<length (d # dest)] \<longleftrightarrow> P 0 \<and> list_all (\<lambda>i. P (Suc i)) [0..<length dest]" for P
    by (auto simp: list_all_iff less_Suc_eq_0_disj simp del: upt_Suc)
  have a: "a AND m = a"
    using 1(5)[of 0] by simp
  show ?case
  proof (cases "m = 0")
    case True
    then have "(m # ms) ! i = 0" if "i < length (m # ms)" for i
      using 1(4)[of 0 i] that by simp
    then show ?thesis
      using True 1(2) by (simp add: list_all_iff del: upt_Suc)
  next
    case False
    have "route_matches dest ms as \<longleftrightarrow> list_all (\<lambda>i. (as ! i) AND (ms ! i) = (dest ! i) AND (ms ! i)) [0..<length dest]"
      if "d AND m = a"
    proof (rule 1(1)[OF False])
      show "\<not> d AND m \<noteq> a"
        using that by simp
      show "length dest \<le> length ms" "length as = length ms"
        using 1(2,3) by simp_all
      show "ms ! j = 0" if "i \<le> j" "j < length ms" "ms ! i = 0" for i j
        using 1(4)[of "Suc i" "Suc j"] that by simp
      show "(as ! i) AND (ms ! i) = as ! i" if "i < length ms" for i
        using 1(5)[of "Suc i"] that by simp
    qed
    then show ?thesis
      unfolding up using False a by auto
  qed
qed auto

text \<open>The entry for a range: its address with zeros after it, and the mask of its prefix.\<close>

definition route_of :: "cidr_range \<Rightarrow> nat \<Rightarrow> ip_route" where
  "route_of c i = \<lparr>rt_address = m_address c @ replicate (16 - length (m_address c)) 0,
     rt_netmask = init_mask 16 (m_prefix_len c), rt_if_index = i\<rparr>"

lemma wf_clean:
  assumes "cidr_wf c" "i < length (m_address c)"
  shows "(m_address c ! i) AND (m_mask c ! i) = m_address c ! i"
proof -
  let ?n = "length (m_address c)"
  note w = cidr_wfD[OF assms(1)]
  have "abit (map (\<lambda>i. (m_address c ! i) AND (m_mask c ! i)) [0..<?n]) k = abit (m_address c) k" if "k < 8 * ?n" for k
    using w abit_and[of "m_address c" ?n "m_mask c" k] abit_mask[OF w(1), of k] that by (auto simp: mult.commute)
  then have "map (\<lambda>i. (m_address c ! i) AND (m_mask c ! i)) [0..<?n] = m_address c"
    using bytes_eq_iff[of _ ?n "m_address c"] by simp
  from arg_cong[OF this, of "\<lambda>xs. xs ! i"] assms(2) show ?thesis
    by simp
qed

lemma init_mask_shorter: "p \<le> n * 8 \<Longrightarrow> n \<le> m \<Longrightarrow> i < n \<Longrightarrow> init_mask m p ! i = init_mask n p ! i"
  using init_mask_nth[of p n i] init_mask_nth[of p m i] by simp

lemma route_of_matches:
  assumes "cidr_wf c" "length dest = length (m_address c)" "length dest \<le> 16"
  shows "route_matches dest (rt_netmask (route_of c i)) (rt_address (route_of c i)) \<longleftrightarrow> dest \<in> cidr_addrs c"
proof -
  let ?n = "length dest" and ?p = "m_prefix_len c"
  note w = cidr_wfD[OF assms(1)]
  have p: "?p \<le> ?n * 8"
    using w(1) assms(2) by simp
  have m: "init_mask 16 ?p ! i = m_mask c ! i" if "i < ?n" for i
    using init_mask_shorter[OF p assms(3) that] w(2) assms(2) by simp
  have z: "init_mask 16 ?p ! j = 0" if "i \<le> j" "j < 16" "init_mask 16 ?p ! i = 0" for i j
  proof (rule ccontr)
    assume "init_mask 16 ?p ! j \<noteq> 0"
    then have "j * 8 < ?p"
      using init_mask_nth[of ?p 16 j] p assms(3) that(2) by (auto split: if_splits)
    then have "abit (init_mask 16 ?p) (i * 8)"
      using abit_mask[of ?p 16 "i * 8"] p assms(3) that by auto
    then show False
      using that(3) by (simp add: abit_def)
  qed
  have "route_matches dest (init_mask 16 ?p) (m_address c @ replicate (16 - ?n) 0) \<longleftrightarrow>
      list_all (\<lambda>i. ((m_address c @ replicate (16 - ?n) 0) ! i) AND (init_mask 16 ?p ! i) = (dest ! i) AND (init_mask 16 ?p ! i)) [0..<?n]"
  proof (rule route_matches_iff)
    show "(m_address c @ replicate (16 - ?n) 0) ! i AND init_mask 16 ?p ! i = (m_address c @ replicate (16 - ?n) 0) ! i"
      if "i < length (init_mask 16 ?p)" for i
      using that wf_clean[OF assms(1), of i] assms(2) m[of i] by (cases "i < ?n") (auto simp: nth_append)
  qed (use assms z in auto)
  also have "\<dots> \<longleftrightarrow> cidr_contains_addr c dest"
    using assms(2) m by (simp add: cidr_contains_addr_def list_all_iff nth_append)
  finally show ?thesis
    using assms(2) cidr_contains_addr_iff[OF assms(1)] by (simp add: route_of_def)
qed

lemma route_of_less:
  assumes "m_prefix_len c \<le> 128" "m_prefix_len d \<le> 128"
  shows "ip_route_less (route_of c i) (route_of d j) \<longleftrightarrow> m_prefix_len d < m_prefix_len c"
  using mask_less_iff[of "m_prefix_len d" 16 "m_prefix_len c"] assms by (simp add: ip_route_less_def route_of_def)

subsection \<open>The longest prefix\<close>

definition sorts_routes :: "resolver_env \<Rightarrow> bool" where
  "sorts_routes env \<longleftrightarrow> (\<forall>rs. list_all (\<lambda>r. length (rt_netmask r) = 16) rs \<longrightarrow> mset (ip_route_sort env rs) = mset rs \<and>
     sorted_wrt (\<lambda>a b. \<not> ip_route_less b a) (ip_route_sort env rs))"

lemma sorted_routes:
  assumes "sorts_routes env"
  shows "mset (ip_route_sort env (map (\<lambda>(c, i). route_of c i) routes)) = mset (map (\<lambda>(c, i). route_of c i) routes)"
    and "sorted_wrt (\<lambda>a b. \<not> ip_route_less b a) (ip_route_sort env (map (\<lambda>(c, i). route_of c i) routes))"
proof -
  have "list_all (\<lambda>r. length (rt_netmask r) = 16) (map (\<lambda>(c, i). route_of c i) routes)"
    by (auto simp: list_all_iff route_of_def)
  then show "mset (ip_route_sort env (map (\<lambda>(c, i). route_of c i) routes)) = mset (map (\<lambda>(c, i). route_of c i) routes)"
    "sorted_wrt (\<lambda>a b. \<not> ip_route_less b a) (ip_route_sort env (map (\<lambda>(c, i). route_of c i) routes))"
    using assms unfolding sorts_routes_def by blast+
qed

lemma first_match_first:
  "case first_match dest rs of
     None \<Rightarrow> \<forall>r \<in> set rs. \<not> route_matches dest (rt_netmask r) (rt_address r)
   | Some i \<Rightarrow> \<exists>xs r ys. rs = xs @ r # ys \<and> i = rt_if_index r \<and> route_matches dest (rt_netmask r) (rt_address r) \<and>
       (\<forall>x \<in> set xs. \<not> route_matches dest (rt_netmask x) (rt_address x))"
proof (induction rs)
  case (Cons r rs)
  show ?case
  proof (cases "route_matches dest (rt_netmask r) (rt_address r)")
    case True
    then show ?thesis
      by (auto intro: exI[of _ "[]"])
  next
    case False
    then show ?thesis
      using Cons by (auto split: option.splits) (metis append_Cons set_ConsD)
  qed
qed simp

definition longest_prefix :: "bytes \<Rightarrow> (cidr_range \<times> nat) list \<Rightarrow> nat option \<Rightarrow> bool" where
  "longest_prefix dest routes answer \<longleftrightarrow>
     (case answer of
        None \<Rightarrow> \<forall>(c, i) \<in> set routes. dest \<notin> cidr_addrs c
      | Some i \<Rightarrow> \<exists>c. (c, i) \<in> set routes \<and> dest \<in> cidr_addrs c \<and>
          (\<forall>(c', i') \<in> set routes. dest \<in> cidr_addrs c' \<longrightarrow> m_prefix_len c' \<le> m_prefix_len c))"

lemma first_match_longest:
  assumes "sorts_routes env" and n: "length dest = n" "n \<le> 16"
    and wf: "\<And>c i. (c, i) \<in> set routes \<Longrightarrow> cidr_wf c \<and> length (m_address c) = n"
  shows "longest_prefix dest routes (first_match dest (ip_route_sort env (map (\<lambda>(c, i). route_of c i) routes)))"
proof -
  let ?rs = "ip_route_sort env (map (\<lambda>(c, i). route_of c i) routes)"
  note sorted = sorted_routes(2)[OF assms(1), of routes]
  have set: "set ?rs = (\<lambda>(c, i). route_of c i) ` set routes"
    using mset_eq_setD[OF sorted_routes(1)[OF assms(1), of routes]] by simp
  have match: "route_matches dest (rt_netmask (route_of c i)) (rt_address (route_of c i)) \<longleftrightarrow> dest \<in> cidr_addrs c"
    if "(c, i) \<in> set routes" for c i
    using route_of_matches[of c dest i] wf[OF that] n by simp
  have len: "m_prefix_len c \<le> 128" if "(c, i) \<in> set routes" for c i
    using cidr_wfD(1)[of c] wf[OF that] n by simp
  note f = first_match_first[where dest = dest and rs = ?rs]
  show ?thesis
  proof (cases "first_match dest ?rs")
    case None
    then show ?thesis
      using f set match by (auto simp: longest_prefix_def)
  next
    case (Some i)
    then obtain xs r ys where rs: "?rs = xs @ r # ys" and r: "i = rt_if_index r" "route_matches dest (rt_netmask r) (rt_address r)"
      and xs: "\<forall>x \<in> set xs. \<not> route_matches dest (rt_netmask x) (rt_address x)"
      using f by auto
    have "r \<in> set ?rs"
      unfolding rs by simp
    then obtain c j where "(c, j) \<in> set routes" "r = route_of c j"
      unfolding set by auto
    with r(1) have c: "(c, i) \<in> set routes" "r = route_of c i"
      by (simp_all add: route_of_def)
    have "m_prefix_len c' \<le> m_prefix_len c" if c': "(c', i') \<in> set routes" "dest \<in> cidr_addrs c'" for c' i'
    proof -
      have "route_of c' i' \<in> set ?rs"
        unfolding set using c'(1) by (intro image_eqI[of _ _ "(c', i')"]) simp_all
      then consider "route_of c' i' \<in> set xs" | "route_of c' i' = r" | "route_of c' i' \<in> set ys"
        using rs by auto
      then have "\<not> ip_route_less (route_of c' i') r \<or> route_of c' i' = r"
      proof cases
        case 1
        then show ?thesis
          using xs match[OF c'(1)] c'(2) by blast
      next
        case 3
        then show ?thesis
          using sorted rs by (auto simp: sorted_wrt_append)
      qed simp
      then show ?thesis
      proof
        assume "\<not> ip_route_less (route_of c' i') r"
        then show ?thesis
          using route_of_less[OF len[OF c'(1)] len[OF c(1)], of i' i] c(2) by simp
      next
        assume "route_of c' i' = r"
        then have "\<not> ip_route_less (route_of c' i') (route_of c i)" "\<not> ip_route_less (route_of c i) (route_of c' i')"
          using c(2) route_of_less[OF len[OF c(1)] len[OF c(1)], of i i] by simp_all
        then show ?thesis
          using route_of_less[OF len[OF c'(1)] len[OF c(1)], of i' i] by simp
      qed
    qed
    then show ?thesis
      using Some c match[OF c(1)] r(2) by (auto simp: longest_prefix_def)
  qed
qed

section \<open>Reading what the kernel writes\<close>

text \<open>A message about a route: flags, range, index and the address of the gateway, which stands between the destination and the mask.
  The mask has the form of the kernel: no zero bytes at its end, and nothing at all for the default route.  A route to a host may
  come without a mask.\<close>

record kernel_route =
  k_flags :: nat
  k_range :: cidr_range
  k_index :: nat
  k_gateway :: bytes
  k_masked :: bool

definition sa_offset :: "nat \<Rightarrow> nat" where "sa_offset n = (if n = 4 then 4 else 8)"
definition sa_family_of :: "nat \<Rightarrow> nat" where "sa_family_of n = (if n = 4 then RT_AF_INET else RT_AF_INET6)"

definition k_dst :: "nat \<Rightarrow> cidr_range \<Rightarrow> bytes" where
  "k_dst n c = (if n = 4 then [16, 2, 0, 0] @ m_address c @ replicate 8 0 else [28, 30, 0, 0, 0, 0, 0, 0] @ m_address c @ replicate 4 0)"

definition mask_len :: "cidr_range \<Rightarrow> nat" where
  "mask_len c = (m_prefix_len c + 7) div 8"

definition k_mask :: "nat \<Rightarrow> cidr_range \<Rightarrow> bytes" where
  "k_mask n c =
     (if m_prefix_len c = 0 then [0, 0, 0, 0]
      else nl_pad (word_of_nat (sa_offset n + mask_len c) # replicate (sa_offset n - 1) 0 @ take (mask_len c) (m_mask c)))"

definition k_addrs :: "kernel_route \<Rightarrow> nat" where
  "k_addrs k = (if k_masked k then 7 else 3)"

definition k_body :: "nat \<Rightarrow> kernel_route \<Rightarrow> bytes" where
  "k_body n k = k_dst n (k_range k) @ k_gateway k @ (if k_masked k then k_mask n (k_range k) else [])"

definition k_encode :: "nat \<Rightarrow> kernel_route \<Rightarrow> bytes" where
  "k_encode n k = le16n (92 + length (k_body n k)) @ [5, 0x14] @ le16n (k_index k) @ [0, 0] @ le32n (k_flags k) @ le32n (k_addrs k) @
     replicate 76 0 @ k_body n k"

definition kernel_route_ok :: "nat \<Rightarrow> kernel_route \<Rightarrow> bool" where
  "kernel_route_ok n k \<longleftrightarrow> cidr_wf (k_range k) \<and> length (m_address (k_range k)) = n \<and> k_flags k < 2 ^ 32 \<and> k_index k < 2 ^ 16 \<and>
     k_gateway k \<noteq> [] \<and> length (k_gateway k) \<le> 256 \<and> length (k_gateway k) = route_roundup (unat (hd (k_gateway k))) \<and>
     (k_masked k \<or> m_prefix_len (k_range k) = 8 * n)"

lemma rd8_Cons: "rd8 (x # b) 0 = unat x" "0 < i \<Longrightarrow> rd8 (x # b) i = rd8 b (i - 1)"
  by (auto simp: rd8_def nth_Cons')

lemma rd32_append: "length a \<le> i \<Longrightarrow> rd32 (a @ b) i = rd32 b (i - length a)"
  by (simp add: rd32_def rd16_append Suc_diff_le)

lemma k_header:
  assumes "kernel_route_ok n k" "n = 4 \<or> n = 16" "length (k_encode n k) < 2 ^ 16"
  shows "rtm_msglen (k_encode n k @ b) = length (k_encode n k)" "rtm_index (k_encode n k @ b) = k_index k"
    "rtm_flags (k_encode n k @ b) = word_of_nat (k_flags k)" "rtm_addrs (k_encode n k @ b) = word_of_nat (k_addrs k)"
    "drop 92 (k_encode n k @ b) = k_body n k @ b"
proof -
  define body where "body = k_body n k"
  have e: "k_encode n k @ b = le16n (92 + length body) @ [5, 0x14] @ le16n (k_index k) @ [0, 0] @ le32n (k_flags k) @
      le32n (k_addrs k) @ replicate 76 0 @ body @ b"
    by (simp add: k_encode_def body_def)
  have l: "length (k_encode n k) = 92 + length body"
    by (simp add: k_encode_def body_def)
  have i: "k_index k < 65536" "k_flags k < 2 ^ 32"
    using assms(1) by (simp_all add: kernel_route_ok_def)
  show "rtm_msglen (k_encode n k @ b) = length (k_encode n k)"
    unfolding e l rtm_msglen_def using assms(3) l by (intro rd16_le16n) simp
  show "rtm_index (k_encode n k @ b) = k_index k"
    unfolding e rtm_index_def
    using rd16_append[of "le16n (92 + length body) @ [5, 0x14]" 4 "le16n (k_index k) @ r" for r] i by simp
  show "rtm_flags (k_encode n k @ b) = word_of_nat (k_flags k)"
    unfolding e rtm_flags_def
    using rd32_append[of "le16n (92 + length body) @ [5, 0x14] @ le16n (k_index k) @ [0, 0]" 8 "le32n (k_flags k) @ r" for r] i by simp
  have "k_addrs k < 2 ^ 32"
    by (simp add: k_addrs_def)
  then show "rtm_addrs (k_encode n k @ b) = word_of_nat (k_addrs k)"
    unfolding e rtm_addrs_def
    using rd32_append[of "le16n (92 + length body) @ [5, 0x14] @ le16n (k_index k) @ [0, 0] @ le32n (k_flags k)" 12 "le32n (k_addrs k) @ r" for r]
    by simp
  show "drop 92 (k_encode n k @ b) = k_body n k @ b"
    unfolding e by (simp add: body_def)
qed

lemma mask_trim:
  assumes "p \<le> n * 8" "n \<le> 16"
  shows "init_mask 16 p = take ((p + 7) div 8) (init_mask n p) @ replicate (16 - (p + 7) div 8) 0" (is "_ = ?r")
proof (rule nth_equalityI)
  let ?l = "(p + 7) div 8"
  have l: "?l \<le> n"
    using assms(1) by linarith
  then show "length (init_mask 16 p) = length ?r"
    using assms(2) by simp
  fix i
  assume "i < length (init_mask 16 p)"
  then have i: "i < 16"
    by simp
  show "init_mask 16 p ! i = ?r ! i"
  proof (cases "i < ?l")
    case True
    then show ?thesis
      using init_mask_shorter[OF assms, of i] l by (simp add: nth_append)
  next
    case False
    then have "p \<le> i * 8"
      by linarith
    then show ?thesis
      using init_mask_nth[of p 16 i] assms i False l by (simp add: nth_append)
  qed
qed

lemma copy_netmask_short:
  assumes "length m \<le> 16" "rt_netmask r = replicate 16 0" "rt_if_index r < 2 ^ 32"
  shows "copy_netmask m r = r\<lparr>rt_netmask := m @ replicate (16 - length m) 0\<rparr>"
proof -
  have "rd32 (le32n (rt_if_index r)) 0 = rt_if_index r"
    using rd32_le32n[of "rt_if_index r" "[]"] assms(3) by simp
  then show ?thesis
    using assms by (simp add: copy_netmask_def Let_def)
qed

lemma k_mask_read:
  assumes "cidr_wf c" "length (m_address c) = n" "n = 4 \<or> n = 16"
  shows "rd8 (k_mask n c @ b) 0 = (if m_prefix_len c = 0 then 0 else sa_offset n + mask_len c)"
    and "m_prefix_len c \<noteq> 0 \<Longrightarrow> take (mask_len c) (drop (sa_offset n) (k_mask n c @ b)) = take (mask_len c) (m_mask c)"
proof -
  have l: "mask_len c \<le> n" "length (m_mask c) = n"
    using cidr_wfD(1,2)[OF assms(1)] assms(2) by (auto simp: mask_len_def)
  have "sa_offset n + mask_len c < 256"
    using l(1) assms(3) by (auto simp: sa_offset_def)
  then show "rd8 (k_mask n c @ b) 0 = (if m_prefix_len c = 0 then 0 else sa_offset n + mask_len c)"
    using unat_byte[of "sa_offset n + mask_len c"] by (simp add: k_mask_def nl_pad_def rd8_Cons)
  show "take (mask_len c) (drop (sa_offset n) (k_mask n c @ b)) = take (mask_len c) (m_mask c)" if "m_prefix_len c \<noteq> 0"
    using that l assms(3) by (auto simp: k_mask_def nl_pad_def sa_offset_def drop_Cons')
qed

lemma fill_route_kernel:
  assumes "cidr_wf c" "length (m_address c) = n" "n = 4 \<or> n = 16" "i < 2 ^ 16"
  shows "fill_route (sa_offset n) n (k_dst n c @ b) (Some (k_mask n c @ b'))
      \<lparr>rt_address = replicate 16 0, rt_netmask = replicate 16 0, rt_if_index = i\<rparr> = route_of c i"
proof -
  note w = cidr_wfD(1,2)[OF assms(1)]
  have a: "take n (drop (sa_offset n) (k_dst n c @ b)) = m_address c"
    using assms(2,3) by (auto simp: k_dst_def sa_offset_def)
  have p: "m_prefix_len c \<le> n * 8" "n \<le> 16"
    using w(1) assms(2,3) by auto
  have l: "mask_len c \<le> n" "length (m_mask c) = n"
    using w assms(2) by (auto simp: mask_len_def)
  show ?thesis
  proof (cases "m_prefix_len c = 0")
    case True
    have "init_mask 16 0 = replicate 16 (0 :: u8)"
      by (simp add: init_mask_def)
    then show ?thesis
      using True a assms(2) k_mask_read(1)[OF assms(1-3)]
      by (simp add: fill_route_def route_of_def)
  next
    case False
    then have pos: "0 < mask_len c"
      by (simp add: mask_len_def div_greater_zero_iff)
    have m: "init_mask 16 (m_prefix_len c) = take (mask_len c) (m_mask c) @ replicate (16 - mask_len c) 0"
      using mask_trim[OF p] w(2) assms(2) by (simp add: mask_len_def)
    show ?thesis
      using False pos a assms(2-4) l k_mask_read[OF assms(1-3)] p
      by (subst fill_route_def) (auto simp: copy_netmask_short route_of_def m)
  qed
qed

text \<open>A route to a host that comes without a mask.\<close>

lemma fill_route_host:
  assumes "cidr_wf c" "length (m_address c) = n" "n = 4 \<or> n = 16" "m_prefix_len c = 8 * n"
  shows "fill_route (sa_offset n) n (k_dst n c @ b) None
      \<lparr>rt_address = replicate 16 0, rt_netmask = replicate 16 0, rt_if_index = i\<rparr> = route_of c i"
proof -
  have a: "take n (drop (sa_offset n) (k_dst n c @ b)) = m_address c"
    using assms(2,3) by (auto simp: k_dst_def sa_offset_def)
  have "init_mask n (8 * n) = replicate n (0xff :: u8)"
    by (intro nth_equalityI) (simp_all add: init_mask_nth)
  then have "init_mask 16 (8 * n) = replicate n 0xff @ replicate (16 - n) 0"
    using mask_trim[of "8 * n" n] assms(3) by auto
  then show ?thesis
    using a assms(2-4) by (auto simp: fill_route_def route_of_def)
qed

lemma rta_scan_masked:
  "rta_scan 7 [0..<8] sa =
     (let s1 = drop (route_roundup (rd8 sa 0)) sa; s2 = drop (route_roundup (rd8 s1 0)) s1 in [(0, sa), (1, s1), (2, s2)])"
  "rta_scan 3 [0..<8] sa = [(0, sa), (1, drop (route_roundup (rd8 sa 0)) sa)]"
proof -
  have "[0..<8] = [0, 1, 2, 3, 4, 5, 6, 7 :: nat]"
    by code_simp
  moreover have "bit (7 :: u32) 0" "bit (7 :: u32) 1" "bit (7 :: u32) 2" "\<not> bit (7 :: u32) 3" "\<not> bit (7 :: u32) 4"
      "\<not> bit (7 :: u32) 5" "\<not> bit (7 :: u32) 6" "\<not> bit (7 :: u32) 7"
    by code_simp+
  moreover have "bit (3 :: u32) 0" "bit (3 :: u32) 1" "\<not> bit (3 :: u32) 2" "\<not> bit (3 :: u32) 3" "\<not> bit (3 :: u32) 4"
      "\<not> bit (3 :: u32) 5" "\<not> bit (3 :: u32) 6" "\<not> bit (3 :: u32) 7"
    by code_simp+
  ultimately show "rta_scan 7 [0..<8] sa =
      (let s1 = drop (route_roundup (rd8 sa 0)) sa; s2 = drop (route_roundup (rd8 s1 0)) s1 in [(0, sa), (1, s1), (2, s2)])"
    "rta_scan 3 [0..<8] sa = [(0, sa), (1, drop (route_roundup (rd8 sa 0)) sa)]"
    by (simp_all add: Let_def)
qed

lemma parse_kernel_route:
  assumes ok: "kernel_route_ok n k" and n: "n = 4 \<or> n = 16" and len: "length (k_encode n k) < 2 ^ 16"
  shows "parse_rtm (sa_family_of n) (k_encode n k @ b) =
    (if wanted_route (word_of_nat (k_flags k)) then Some (route_of (k_range k) (k_index k)) else None)"
proof -
  let ?c = "k_range k" and ?g = "k_gateway k"
  note h = k_header[OF ok n len, of b]
  have c: "cidr_wf ?c" "length (m_address ?c) = n" and i: "k_index k < 2 ^ 16"
    using ok by (simp_all add: kernel_route_ok_def)
  have r: "route_roundup 16 = 16" "route_roundup 28 = 28"
    by code_simp+
  define rest where "rest = (if k_masked k then k_mask n ?c else []) @ b"
  have dst: "rd8 (k_dst n ?c @ x) 1 = sa_family_of n" "drop (route_roundup (rd8 (k_dst n ?c @ x) 0)) (k_dst n ?c @ x) = x" for x
    using n c(2) by (auto simp: k_dst_def sa_family_of_def RT_AF_INET_def RT_AF_INET6_def rd8_Cons r)
  have gw: "drop (route_roundup (rd8 (?g @ x) 0)) (?g @ x) = x" for x
  proof -
    have "rd8 (?g @ x) 0 = unat (hd ?g)" "length ?g = route_roundup (unat (hd ?g))"
      using ok by (cases ?g; simp add: kernel_route_ok_def rd8_Cons)+
    then show ?thesis
      by (metis append_eq_conv_conj)
  qed
  have body: "k_body n k @ b = k_dst n ?c @ ?g @ rest"
    by (simp add: k_body_def rest_def)
  have scan: "rta_scan (word_of_nat (k_addrs k)) [0..<8] (k_dst n ?c @ ?g @ rest) =
      [(0, k_dst n ?c @ ?g @ rest), (1, ?g @ rest)] @ (if k_masked k then [(2, rest)] else [])"
    using rta_scan_masked[of "k_dst n ?c @ ?g @ rest", unfolded Let_def dst(2) gw] by (simp add: k_addrs_def del: drop_append)
  have fill: "fill_route (sa_offset n) n (k_dst n ?c @ ?g @ rest) (if k_masked k then Some rest else None)
      \<lparr>rt_address = replicate 16 0, rt_netmask = replicate 16 0, rt_if_index = k_index k\<rparr> = route_of ?c (k_index k)"
    using fill_route_kernel[OF c n i] fill_route_host[OF c n] ok by (auto simp: rest_def kernel_route_ok_def)
  show ?thesis
    unfolding parse_rtm_def h body Let_def scan dst(1)
    using n fill dst(1)[of "?g @ rest"] by (auto simp: sa_family_of_def sa_offset_def RT_AF_INET_def RT_AF_INET6_def)
qed

lemma k_encode_length:
  assumes "kernel_route_ok n k" "n = 4 \<or> n = 16"
  shows "length (k_encode n k) < 2 ^ 16"
proof -
  let ?c = "k_range k"
  have c: "length (m_address ?c) = n" "m_prefix_len ?c \<le> n * 8" and g: "length (k_gateway k) \<le> 256"
    using assms(1) cidr_wfD(1)[of ?c] by (simp_all add: kernel_route_ok_def)
  have "length (take (mask_len ?c) (m_mask ?c)) \<le> 16"
    using c(2) assms(2) by (auto simp: mask_len_def)
  then have "length (k_mask n ?c) \<le> 32"
    by (auto simp: k_mask_def sa_offset_def nl_align_def)
  moreover have "length (k_dst n ?c) \<le> 28"
    using c(1) assms(2) by (auto simp: k_dst_def)
  ultimately show ?thesis
    using g by (simp add: k_encode_def k_body_def)
qed

definition k_table :: "nat \<Rightarrow> kernel_route list \<Rightarrow> bytes" where
  "k_table n ks = concat (map (k_encode n) ks)"

definition k_routes :: "kernel_route list \<Rightarrow> (cidr_range \<times> nat) list" where
  "k_routes ks = map (\<lambda>k. (k_range k, k_index k)) (filter (\<lambda>k. wanted_route (word_of_nat (k_flags k))) ks)"

lemma rt_messages_table:
  assumes "list_all (kernel_route_ok n) ks" "n = 4 \<or> n = 16"
  shows "map_option (List.map_filter (parse_rtm (sa_family_of n))) (rt_messages (k_table n ks)) =
    Some (map (\<lambda>(c, i). route_of c i) (k_routes ks))"
  using assms(1)
proof (induction ks)
  case Nil
  then show ?case
    by (subst rt_messages.simps) (simp add: k_table_def k_routes_def List.map_filter_def)
next
  case (Cons k ks)
  then have ok: "kernel_route_ok n k" and oks: "list_all (kernel_route_ok n) ks"
    by simp_all
  note len = k_encode_length[OF ok assms(2)]
  have t: "k_table n (k # ks) = k_encode n k @ k_table n ks"
    by (simp add: k_table_def)
  have ne: "k_encode n k \<noteq> []"
    by (auto simp: k_encode_def le16n_def)
  obtain ms where ms: "rt_messages (k_table n ks) = Some ms"
      "List.map_filter (parse_rtm (sa_family_of n)) ms = map (\<lambda>(c, i). route_of c i) (k_routes ks)"
    using Cons.IH[OF oks] by auto
  have "rt_messages (k_table n (k # ks)) = Some ((k_encode n k @ k_table n ks) # ms)"
    unfolding t using ne ms(1) k_header(1)[OF ok assms(2) len] by (subst rt_messages.simps) simp
  then show ?case
    using ms(2) parse_kernel_route[OF ok assms(2) len, of "k_table n ks"]
    by (simp add: k_routes_def List.map_filter_simps)
qed

lemma read_kernel_table:
  assumes "dump_routing_table env (sa_family_of n) = Inr (k_table n ks)" "list_all (kernel_route_ok n) ks" "n = 4 \<or> n = 16"
  shows "read_routing_table env (sa_family_of n) = Some (ip_route_sort env (map (\<lambda>(c, i). route_of c i) (k_routes ks)))"
proof -
  obtain ms where "rt_messages (k_table n ks) = Some ms"
      "List.map_filter (parse_rtm (sa_family_of n)) ms = map (\<lambda>(c, i). route_of c i) (k_routes ks)"
    using rt_messages_table[OF assms(2,3)] by auto
  then show ?thesis
    using assms(1) by (simp add: read_routing_table_def)
qed

definition cache_of :: "bool \<Rightarrow> apple_route_resolver \<Rightarrow> ip_route list" where
  "cache_of ipv4 s = (if ipv4 then ipv4_cache s else ipv6_cache s)"

lemma cached_resolve:
  assumes "NO_CACHE_SECONDS * 10 ^ 9 \<le> now - created_at s" "cache_of (sa_is_ipv4 address) s \<noteq> []"
  shows "resolve env now address s = Some (first_match (sa_addr_unmapped address) (cache_of (sa_is_ipv4 address) s), s)"
  using assms by (auto simp: resolve_def cache_of_def)

lemma fresh_resolve:
  assumes "now - created_at s < NO_CACHE_SECONDS * 10 ^ 9 \<or> cache_of (sa_is_ipv4 address) s = []"
    and "read_routing_table env (if sa_is_ipv4 address then RT_AF_INET else RT_AF_INET6) = Some t"
  shows "\<exists>s'. resolve env now address s = Some (first_match (sa_addr_unmapped address) t, s') \<and> created_at s' = created_at s \<and>
    (NO_CACHE_SECONDS * 10 ^ 9 \<le> now - created_at s \<longrightarrow> cache_of (sa_is_ipv4 address) s' = t)"
  using assms by (cases "sa_is_ipv4 address"; cases "now - created_at s < NO_CACHE_SECONDS * 10 ^ 9")
    (auto simp: resolve_def cache_of_def)

text \<open>C7: The resolver gives the interface of the longest prefix.  When the kernel's table is asked for, and it holds any routes of the
  family, of any flags and in any order, each with its destination, a gateway and a mask in the kernel's form or, for a host, no
  mask, the answer is the interface of a usual route that contains the address and whose prefix is the longest of those, and
  there is none only if no usual route contains it.  After the first ten seconds a table with at least one usual route is
  kept: as long as it is not flushed, every later question about the family is answered by the same routes, and the kernel is
  not asked again.\<close>

theorem resolve_longest_prefix:
  assumes sort: "sorts_routes env" and n: "n = (if sa_is_ipv4 address then 4 else 16)" "length (sa_addr_unmapped address) = n"
    and dump: "dump_routing_table env (sa_family_of n) = Inr (k_table n ks)" "list_all (kernel_route_ok n) ks"
    and fresh: "now - created_at s < NO_CACHE_SECONDS * 10 ^ 9 \<or> cache_of (sa_is_ipv4 address) s = []"
  shows "\<exists>answer s'. resolve env now address s = Some (answer, s') \<and> longest_prefix (sa_addr_unmapped address) (k_routes ks) answer \<and>
    (NO_CACHE_SECONDS * 10 ^ 9 \<le> now - created_at s \<and> k_routes ks \<noteq> [] \<longrightarrow>
      (\<forall>env2 now2 address2. now \<le> now2 \<and> sa_is_ipv4 address2 = sa_is_ipv4 address \<and> length (sa_addr_unmapped address2) = n \<longrightarrow>
        (\<exists>answer2. resolve env2 now2 address2 s' = Some (answer2, s') \<and>
          longest_prefix (sa_addr_unmapped address2) (k_routes ks) answer2)))"
proof -
  let ?t = "ip_route_sort env (map (\<lambda>(c, i). route_of c i) (k_routes ks))"
  have n': "n = 4 \<or> n = 16" and fam: "(if sa_is_ipv4 address then RT_AF_INET else RT_AF_INET6) = sa_family_of n"
    using n(1) by (auto simp: sa_family_of_def)
  obtain s' where s': "resolve env now address s = Some (first_match (sa_addr_unmapped address) ?t, s')"
      "created_at s' = created_at s" "NO_CACHE_SECONDS * 10 ^ 9 \<le> now - created_at s \<longrightarrow> cache_of (sa_is_ipv4 address) s' = ?t"
    using fresh_resolve[OF fresh, of env ?t] read_kernel_table[OF dump n'] fam by auto
  have wf: "cidr_wf c \<and> length (m_address c) = n" if "(c, i) \<in> set (k_routes ks)" for c i
    using that dump(2) by (auto simp: k_routes_def list_all_iff kernel_route_ok_def)
  have lpm: "longest_prefix dest (k_routes ks) (first_match dest ?t)" if "length dest = n" for dest
    using first_match_longest[OF sort that _ wf] n' by auto
  have "length ?t = length (k_routes ks)"
    using mset_eq_length[OF sorted_routes(1)[OF sort, of "k_routes ks"]] by simp
  then have ne: "k_routes ks \<noteq> [] \<Longrightarrow> ?t \<noteq> []"
    by auto
  show ?thesis
  proof (intro exI conjI impI allI)
    show "resolve env now address s = Some (first_match (sa_addr_unmapped address) ?t, s')"
      by (rule s'(1))
    show "longest_prefix (sa_addr_unmapped address) (k_routes ks) (first_match (sa_addr_unmapped address) ?t)"
      by (rule lpm[OF n(2)])
    fix env2 now2 address2
    assume a: "NO_CACHE_SECONDS * 10 ^ 9 \<le> now - created_at s \<and> k_routes ks \<noteq> []"
      and b: "now \<le> now2 \<and> sa_is_ipv4 address2 = sa_is_ipv4 address \<and> length (sa_addr_unmapped address2) = n"
    then have "cache_of (sa_is_ipv4 address2) s' = ?t" "NO_CACHE_SECONDS * 10 ^ 9 \<le> now2 - created_at s'"
      using s' by auto
    then show "resolve env2 now2 address2 s' = Some (first_match (sa_addr_unmapped address2) ?t, s')"
      using cached_resolve[of now2 s' address2 env2] ne a by simp
    show "longest_prefix (sa_addr_unmapped address2) (k_routes ks) (first_match (sa_addr_unmapped address2) ?t)"
      using lpm b by blast
  qed
qed

text \<open>A kernel to look at: a default route, a route for \<^verbatim>\<open>10.0.0.0/8\<close>, one to a host in it, and a more specific one than the
  second that is bound to its interface.\<close>

definition ex_routes :: "kernel_route list" where
  "ex_routes =
     [\<lparr>k_flags = 0x801, k_range = cidr_init [0, 0, 0, 0] 0, k_index = 1, k_gateway = [4, 0, 0, 0], k_masked = True\<rparr>,
      \<lparr>k_flags = 0x801, k_range = cidr_init [10, 0, 0, 0] 8, k_index = 2, k_gateway = [4, 0, 0, 0], k_masked = True\<rparr>,
      \<lparr>k_flags = 0x801, k_range = cidr_init [10, 1, 0, 9] 32, k_index = 4, k_gateway = [4, 0, 0, 0], k_masked = False\<rparr>,
      \<lparr>k_flags = 0x1000801, k_range = cidr_init [10, 1, 0, 0] 16, k_index = 3, k_gateway = [4, 0, 0, 0], k_masked = True\<rparr>]"

definition ex_resolver_env :: resolver_env where
  "ex_resolver_env = \<lparr>sysctl_estimate = (\<lambda>f i. Inr 1000), sysctl_dump = (\<lambda>f i n. if i = 0 then Inl ENOMEM else Inr (k_table 4 ex_routes)),
     strerror = (\<lambda>e. ''error''), ip_route_sort = sort_key (\<lambda>r. - int (addr_nat (rt_netmask r)))\<rparr>"

lemma ex_sorts: "sorts_routes ex_resolver_env"
  unfolding sorts_routes_def
proof (intro allI impI conjI)
  fix rs :: "ip_route list"
  let ?f = "\<lambda>r. - int (addr_nat (rt_netmask r))"
  assume l: "list_all (\<lambda>r. length (rt_netmask r) = 16) rs"
  show "mset (ip_route_sort ex_resolver_env rs) = mset rs"
    by (simp add: ex_resolver_env_def)
  have "sorted_wrt (\<lambda>a b. ?f a \<le> ?f b) (sort_key ?f rs)"
    using sorted_sort_key[of ?f rs] by (simp add: sorted_wrt_map)
  then show "sorted_wrt (\<lambda>a b. \<not> ip_route_less b a) (ip_route_sort ex_resolver_env rs)"
    unfolding ex_resolver_env_def resolver_env.simps
  proof (rule sorted_wrt_mono_rel[rotated])
    fix a b
    assume "a \<in> set (sort_key ?f rs)" "b \<in> set (sort_key ?f rs)" "?f a \<le> ?f b"
    then show "\<not> ip_route_less b a"
      using l bytes_less_iff[of "rt_netmask a" "rt_netmask b"] by (simp add: ip_route_less_def list_all_iff)
  qed
qed

lemma ex_routes_ok: "list_all (kernel_route_ok 4) ex_routes"
proof -
  have "route_roundup 4 = 4"
    by code_simp
  then show ?thesis
    by (simp add: ex_routes_def kernel_route_ok_def cidr_init_wf cidr_init_dims)
qed

lemma ex_wanted: "wanted_route (word_of_nat 0x801)" "\<not> wanted_route (word_of_nat 0x1000801)"
  by (simp_all add: wanted_route_def)

theorem resolve_longest_prefix_witness:
  "\<exists>s s'. resolve ex_resolver_env 20000000000 (sa_of_bytes [10, 1, 0, 7] 53) (resolver_create 0) = Some (Some 2, s) \<and>
     resolve ex_resolver_env 20000000000 (sa_of_bytes [10, 1, 0, 9] 53) (resolver_create 0) = Some (Some 4, s')"
proof -
  have a: "sa_is_ipv4 (sa_of_bytes [10, 1, 0, x] 53)" "sa_addr_unmapped (sa_of_bytes [10, 1, 0, x] 53) = [10, 1, 0, x]" for x
    using storage_4(1,2)[of "[10, 1, 0, x]" 53]
    by (simp_all add: sa_of_bytes_def sa_is_ipv4_def sa_addr_unmapped_def sa_is_ipv4_mapped_def AF_INET_def AF_INET6_def)
  have d: "dump_routing_table ex_resolver_env (sa_family_of 4) = Inr (k_table 4 ex_routes)"
    by (simp add: dump_routing_table_def ex_resolver_env_def eval_nat_numeral)
  have r: "k_routes ex_routes = [(cidr_init [0, 0, 0, 0] 0, 1), (cidr_init [10, 0, 0, 0] 8, 2), (cidr_init [10, 1, 0, 9] 32, 4)]"
    using ex_wanted by (simp add: k_routes_def ex_routes_def)
  have s: "\<exists>answer s. resolve ex_resolver_env 20000000000 (sa_of_bytes [10, 1, 0, x] 53) (resolver_create 0) = Some (answer, s) \<and>
      longest_prefix [10, 1, 0, x] (k_routes ex_routes) answer" for x
    using resolve_longest_prefix[OF ex_sorts, of 4 "sa_of_bytes [10, 1, 0, x] 53" ex_routes 20000000000 "resolver_create 0"]
      a[of x] d ex_routes_ok by (auto simp: cache_of_def resolver_create_def)
  have c: "cidr_contains_addr (cidr_init [10, 0, 0, 0] 8) [10, 1, 0, 7]" "cidr_contains_addr (cidr_init [10, 1, 0, 9] 32) [10, 1, 0, 9]"
      "\<not> cidr_contains_addr (cidr_init [10, 1, 0, 9] 32) [10, 1, 0, 7]"
    by code_simp+
  have "[10, 1, 0, 7] \<in> cidr_addrs (cidr_init [10, 0, 0, 0] 8)" "[10, 1, 0, 9] \<in> cidr_addrs (cidr_init [10, 1, 0, 9] 32)"
      "[10, 1, 0, 7] \<notin> cidr_addrs (cidr_init [10, 1, 0, 9] 32)"
    using c cidr_contains_addr_iff[OF cidr_init_wf[of 8 "[10, 0, 0, 0]"]] cidr_contains_addr_iff[OF cidr_init_wf[of 32 "[10, 1, 0, 9]"]]
    by simp_all
  moreover have "m_prefix_len (cidr_init [0, 0, 0, 0] 0) = 0" "m_prefix_len (cidr_init [10, 0, 0, 0] 8) = 8"
      "m_prefix_len (cidr_init [10, 1, 0, 9] 32) = 32"
    by (simp_all add: cidr_init_dims)
  ultimately have "longest_prefix [10, 1, 0, 7] (k_routes ex_routes) answer \<Longrightarrow> answer = Some 2"
      "longest_prefix [10, 1, 0, 9] (k_routes ex_routes) answer \<Longrightarrow> answer = Some 4" for answer
    by (auto simp: longest_prefix_def r split: option.splits)
  then show ?thesis
    using s[of 7] s[of 9] by blast
qed

text \<open>Also: a mask of the full length of an IPv6 socket address is four bytes longer than the place for it, and its end replaces the
  index of the interface.\<close>

theorem long_mask_overwrites_index:
  assumes "length m = 20" "length (rt_netmask r) = 16"
  shows "rt_netmask (copy_netmask m r) = take 16 m \<and> rt_if_index (copy_netmask m r) = rd32 (drop 16 m) 0"
  using assms by (simp add: copy_netmask_def Let_def)

theorem long_mask_overwrites_index_witness:
  "rt_if_index (copy_netmask (replicate 16 0xff @ [9, 0, 0, 0]) \<lparr>rt_address = replicate 16 0, rt_netmask = replicate 16 0, rt_if_index = 5\<rparr>) = 9"
  using long_mask_overwrites_index[of "replicate 16 0xff @ [9, 0, 0, 0]"
      "\<lparr>rt_address = replicate 16 0, rt_netmask = replicate 16 0, rt_if_index = 5\<rparr>"]
  by (simp add: rd32_def rd16_def rd8_def)

end
