(* ===== verification/Firewall.thy ===== *)
theory Firewall
  imports CidrRangeSet
begin

text \<open>
  \<^verbatim>\<open>WfpFirewall\<close> of \<^verbatim>\<open>common/wfp_firewall.cpp\<close>: filters for the Windows filtering platform that let one program through, restrict
  DNS traffic, block IPv6 and block traffic outside a tunnel.  The filter engine is a parameter: its calls and what they
  answer, the filters that are in force in a state of it, and the choice of the filter that decides about a connection.
  What is documented about it is stated by \<^verbatim>\<open>wfp_documented\<close> and \<^verbatim>\<open>wfp_arbitrates\<close>.  Display names and the keys of the provider and
  the sublayer, which are the same in all filters, are left out.
\<close>

unbundle bit_operations_syntax

section \<open>Model\<close>

subsection \<open>Filters\<close>

datatype wfp_layer = ALE_AUTH_CONNECT_V4 | ALE_AUTH_RECV_ACCEPT_V4 | ALE_AUTH_CONNECT_V6 | ALE_AUTH_RECV_ACCEPT_V6

datatype wfp_field = ALE_APP_ID | IP_PROTOCOL | IP_REMOTE_PORT | IP_LOCAL_PORT | IP_REMOTE_ADDRESS | IP_LOCAL_ADDRESS

datatype wfp_value =
    FWP_BYTE_BLOB string
  | FWP_UINT8 u8
  | FWP_UINT16 u16
  | FWP_V4_ADDR_MASK u32 u32
  | FWP_V6_ADDR_MASK bytes u8

type_synonym wfp_condition = "wfp_field \<times> wfp_value"

datatype wfp_action = FWP_ACTION_PERMIT | FWP_ACTION_BLOCK

record wfp_filter =
  layerKey :: wfp_layer
  weight :: u8
  filterCondition :: "wfp_condition list"
  action :: wfp_action

datatype wfp_code = FE_NOT_INITIALIZED | FE_WFP_ERROR | FE_WINAPI_ERROR

fun wfp_code_to_string :: "wfp_code \<Rightarrow> string" where
  "wfp_code_to_string FE_NOT_INITIALIZED = ''The firewall failed to initialize''"
| "wfp_code_to_string FE_WFP_ERROR = ''A WFP function call failed''"
| "wfp_code_to_string FE_WINAPI_ERROR = ''A Windows API function call failed''"

type_synonym wfp_error = "wfp_code \<times> string"

definition DNS_RESTRICT_DENY_WEIGHT :: u8 where "DNS_RESTRICT_DENY_WEIGHT = 1"
definition DNS_RESTRICT_ALLOW_WEIGHT :: u8 where "DNS_RESTRICT_ALLOW_WEIGHT = 2"
definition IPV6_BLOCK_DENY_WEIGHT :: u8 where "IPV6_BLOCK_DENY_WEIGHT = 3"
definition UNTUNNELED_BLOCK_DENY_WEIGHT :: u8 where "UNTUNNELED_BLOCK_DENY_WEIGHT = 3"
definition UNTUNNELED_BLOCK_ALLOW_WEIGHT :: u8 where "UNTUNNELED_BLOCK_ALLOW_WEIGHT = 4"
definition SELF_ALLOW_WEIGHT :: u8 where "SELF_ALLOW_WEIGHT = 15"

lemmas wfp_weights = DNS_RESTRICT_DENY_WEIGHT_def DNS_RESTRICT_ALLOW_WEIGHT_def IPV6_BLOCK_DENY_WEIGHT_def
  UNTUNNELED_BLOCK_DENY_WEIGHT_def UNTUNNELED_BLOCK_ALLOW_WEIGHT_def SELF_ALLOW_WEIGHT_def

definition v4_layers :: "wfp_layer list" where "v4_layers = [ALE_AUTH_CONNECT_V4, ALE_AUTH_RECV_ACCEPT_V4]"
definition v6_layers :: "wfp_layer list" where "v6_layers = [ALE_AUTH_CONNECT_V6, ALE_AUTH_RECV_ACCEPT_V6]"

definition IPPROTO_TCP :: u8 where "IPPROTO_TCP = 6"
definition IPPROTO_UDP :: u8 where "IPPROTO_UDP = 17"
definition PLAIN_DNS_PORT_NUMBER :: u16 where "PLAIN_DNS_PORT_NUMBER = 53"

subsection \<open>The engine\<close>

text \<open>The calls of the platform.  They answer with an error code, zero for success; \<^verbatim>\<open>process_image\<close> stands for \<^verbatim>\<open>OpenProcess\<close> and
  \<^verbatim>\<open>QueryFullProcessImageNameW\<close>, with the name of the call that failed.\<close>

record 'e wfp_api =
  engine_open :: "'e \<Rightarrow> 'e \<times> u32"
  engine_close :: "'e \<Rightarrow> 'e"
  transaction_begin :: "'e \<Rightarrow> 'e \<times> u32"
  transaction_commit :: "'e \<Rightarrow> 'e \<times> u32"
  transaction_abort :: "'e \<Rightarrow> 'e"
  provider_add :: "'e \<Rightarrow> 'e \<times> u32"
  sublayer_add :: "'e \<Rightarrow> 'e \<times> u32"
  filter_add :: "wfp_filter \<Rightarrow> 'e \<Rightarrow> 'e \<times> u32"
  process_image :: "u32 \<Rightarrow> (string \<times> u32) + string"
  module_file_name :: "u32 + string"
  app_id_from_file_name :: "string \<Rightarrow> u32 + string"

definition failed_with :: "string \<Rightarrow> u32 \<Rightarrow> string" where
  "failed_with call e = call @ '' failed with code 0x'' @ hex (unat e)"

text \<open>A call of the engine as a step that may fail, and one step after another.\<close>

definition wfp_call :: "string \<Rightarrow> ('e \<Rightarrow> 'e \<times> u32) \<Rightarrow> 'e \<Rightarrow> 'e \<times> wfp_error option" where
  "wfp_call name f e =
     (let (e', error) = f e in (e', if error \<noteq> 0 then Some (FE_WFP_ERROR, failed_with name error) else None))"

definition wfp_then :: "('e \<Rightarrow> 'e \<times> wfp_error option) \<Rightarrow> ('e \<Rightarrow> 'e \<times> wfp_error option) \<Rightarrow> 'e \<Rightarrow> 'e \<times> wfp_error option" where
  "wfp_then m k e = (case m e of (e', Some error) \<Rightarrow> (e', Some error) | (e', None) \<Rightarrow> k e')"

definition run_transaction :: "'e wfp_api \<Rightarrow> ('e \<Rightarrow> 'e \<times> wfp_error option) \<Rightarrow> 'e \<Rightarrow> 'e \<times> wfp_error option" where
  "run_transaction api func =
     wfp_then (wfp_call ''FwpmTransactionBegin0'' (transaction_begin api))
       (\<lambda>e. case func e of
          (e', Some error) \<Rightarrow> (transaction_abort api e', Some error)
        | (e', None) \<Rightarrow> wfp_call ''FwpmTransactionCommit0'' (transaction_commit api) e')"

text \<open>The loops over the layers: the same filter in each of them.\<close>

fun add_to_layers :: "'e wfp_api \<Rightarrow> wfp_filter \<Rightarrow> wfp_layer list \<Rightarrow> 'e \<Rightarrow> 'e \<times> wfp_error option" where
  "add_to_layers api flt [] e = (e, None)"
| "add_to_layers api flt (layer_key # ls) e =
     wfp_then (wfp_call ''FwpmFilterAdd0'' (filter_add api (flt\<lparr>layerKey := layer_key\<rparr>))) (add_to_layers api flt ls) e"

definition wfp_nothing :: "'e \<Rightarrow> 'e \<times> wfp_error option" where
  "wfp_nothing e = (e, None)"

subsection \<open>Construction and destruction\<close>

record 'e firewall =
  engine :: 'e
  handle_valid :: bool

definition register_base_objects :: "'e wfp_api \<Rightarrow> 'e \<Rightarrow> 'e \<times> wfp_error option" where
  "register_base_objects api =
     wfp_then (wfp_call ''FwpmProviderAdd0'' (provider_add api)) (wfp_call ''FwpmSubLayerAdd0'' (sublayer_add api))"

definition own_module_name :: "'e wfp_api \<Rightarrow> u32 \<Rightarrow> wfp_error + string" where
  "own_module_name api exclude_pid =
     (if exclude_pid \<noteq> 0 then
        (case process_image api exclude_pid of
           Inl (call, error) \<Rightarrow>
             Inl (FE_WINAPI_ERROR, failed_with (call @ '' (PID '' @ dec (unat exclude_pid) @ '')'') error)
         | Inr name \<Rightarrow> Inr name)
      else (case module_file_name api of
           Inl error \<Rightarrow> Inl (FE_WINAPI_ERROR, failed_with ''GetModuleFileNameW'' error)
         | Inr name \<Rightarrow> Inr name))"

definition own_app_id :: "'e wfp_api \<Rightarrow> u32 \<Rightarrow> wfp_error + string" where
  "own_app_id api exclude_pid =
     (case own_module_name api exclude_pid of
        Inl error \<Rightarrow> Inl error
      | Inr name \<Rightarrow>
          (case app_id_from_file_name api name of
             Inl error \<Rightarrow> Inl (FE_WFP_ERROR, failed_with ''FwpmGetAppIdFromFileName'' error)
           | Inr app_id \<Rightarrow> Inr app_id))"

definition self_filter :: "string \<Rightarrow> wfp_filter" where
  "self_filter app_id = \<lparr>layerKey = ALE_AUTH_CONNECT_V4, weight = SELF_ALLOW_WEIGHT,
     filterCondition = [(ALE_APP_ID, FWP_BYTE_BLOB app_id)], action = FWP_ACTION_PERMIT\<rparr>"

definition allow_self :: "'e wfp_api \<Rightarrow> u32 \<Rightarrow> 'e \<Rightarrow> 'e \<times> wfp_error option" where
  "allow_self api exclude_pid e =
     (case own_app_id api exclude_pid of
        Inl error \<Rightarrow> (e, Some error)
      | Inr app_id \<Rightarrow> add_to_layers api (self_filter app_id) (v4_layers @ v6_layers) e)"

definition firewall_make :: "'e wfp_api \<Rightarrow> u32 \<Rightarrow> 'e \<Rightarrow> 'e firewall" where
  "firewall_make api exclude_pid e =
     (let closed = (\<lambda>e. \<lparr>engine = engine_close api e, handle_valid = False\<rparr>)
      in case engine_open api e of
           (e1, error) \<Rightarrow>
             if error \<noteq> 0 then \<lparr>engine = e1, handle_valid = False\<rparr>
             else case run_transaction api (register_base_objects api) e1 of
               (e2, Some _) \<Rightarrow> closed e2
             | (e2, None) \<Rightarrow>
                 (case run_transaction api (allow_self api exclude_pid) e2 of
                    (e3, Some _) \<Rightarrow> closed e3
                  | (e3, None) \<Rightarrow> \<lparr>engine = e3, handle_valid = True\<rparr>))"

definition firewall_destroy :: "'e wfp_api \<Rightarrow> 'e firewall \<Rightarrow> 'e" where
  "firewall_destroy api fw = (if handle_valid fw then engine_close api (engine fw) else engine fw)"

text \<open>What the three operations have in common: the check of the handle, and the transaction.\<close>

definition with_engine ::
  "'e wfp_api \<Rightarrow> ('e \<Rightarrow> 'e \<times> wfp_error option) \<Rightarrow> 'e firewall \<Rightarrow> 'e firewall \<times> wfp_error option" where
  "with_engine api func fw =
     (if \<not> handle_valid fw then (fw, Some (FE_NOT_INITIALIZED, []))
      else let (e, error) = run_transaction api func (engine fw) in (fw\<lparr>engine := e\<rparr>, error))"

subsection \<open>Ranges of addresses\<close>

definition ntohl4 :: "bytes \<Rightarrow> u32" where
  "ntohl4 b = push_bit 24 (ucast (b ! 0)) OR push_bit 16 (ucast (b ! 1)) OR push_bit 8 (ucast (b ! 2)) OR ucast (b ! 3)"

definition fwp_v4_range_from_cidr_range :: "cidr_range \<Rightarrow> wfp_value" where
  "fwp_v4_range_from_cidr_range rng = FWP_V4_ADDR_MASK (ntohl4 (m_address rng)) (ntohl4 (m_mask rng))"

definition fwp_v6_range_from_cidr_range :: "cidr_range \<Rightarrow> wfp_value" where
  "fwp_v6_range_from_cidr_range rng = FWP_V6_ADDR_MASK (take 16 (m_address rng)) (word_of_nat (m_prefix_len rng))"

text \<open>The loops that turn the ranges of one family into conditions and pass over the others.\<close>

definition v4_range_conditions :: "wfp_field \<Rightarrow> cidr_range list \<Rightarrow> wfp_condition list" where
  "v4_range_conditions field ranges =
     map (\<lambda>rng. (field, fwp_v4_range_from_cidr_range rng)) (filter (\<lambda>rng. length (m_address rng) = 4) ranges)"

definition v6_range_conditions :: "wfp_field \<Rightarrow> cidr_range list \<Rightarrow> wfp_condition list" where
  "v6_range_conditions field ranges =
     map (\<lambda>rng. (field, fwp_v6_range_from_cidr_range rng)) (filter (\<lambda>rng. length (m_address rng) = 16) ranges)"

subsection \<open>Restricting DNS\<close>

definition dns_conditions :: "wfp_condition list" where
  "dns_conditions = [(IP_REMOTE_PORT, FWP_UINT16 PLAIN_DNS_PORT_NUMBER), (IP_PROTOCOL, FWP_UINT8 IPPROTO_TCP),
     (IP_PROTOCOL, FWP_UINT8 IPPROTO_UDP)]"

definition restrict_dns_to ::
  "'e wfp_api \<Rightarrow> cidr_range list \<Rightarrow> cidr_range list \<Rightarrow> 'e firewall \<Rightarrow> 'e firewall \<times> wfp_error option" where
  "restrict_dns_to api allowed_v4 allowed_v6 = with_engine api
     (let deny = \<lparr>layerKey = ALE_AUTH_CONNECT_V4, weight = DNS_RESTRICT_DENY_WEIGHT, filterCondition = dns_conditions,
            action = FWP_ACTION_BLOCK\<rparr>;
          allow = deny\<lparr>action := FWP_ACTION_PERMIT, weight := DNS_RESTRICT_ALLOW_WEIGHT\<rparr>;
          allow_v4_conditions = dns_conditions @ v4_range_conditions IP_REMOTE_ADDRESS allowed_v4;
          allow_v6_conditions = dns_conditions @ v6_range_conditions IP_REMOTE_ADDRESS allowed_v6
      in wfp_then (add_to_layers api deny (v4_layers @ v6_layers))
         (wfp_then
           (if length allow_v4_conditions > length dns_conditions
            then add_to_layers api (allow\<lparr>filterCondition := allow_v4_conditions\<rparr>) v4_layers else wfp_nothing)
           (if length allow_v6_conditions > length dns_conditions
            then add_to_layers api (allow\<lparr>filterCondition := allow_v6_conditions\<rparr>) v6_layers else wfp_nothing)))"

subsection \<open>Blocking IPv6\<close>

definition block_ipv6 :: "'e wfp_api \<Rightarrow> 'e firewall \<Rightarrow> 'e firewall \<times> wfp_error option" where
  "block_ipv6 api = with_engine api
     (add_to_layers api \<lparr>layerKey = ALE_AUTH_CONNECT_V4, weight = IPV6_BLOCK_DENY_WEIGHT, filterCondition = [],
        action = FWP_ACTION_BLOCK\<rparr> v6_layers)"

subsection \<open>Blocking traffic outside the tunnel\<close>

text \<open>The steps for one family: the conditions for the ranges of the included addresses, those for the tunnel and for loopback, and
  the excluded ports.  With no range of the family, \<^verbatim>\<open>&v4_conditions[0]\<close> is taken of an empty vector; the number of conditions
  is zero.\<close>

definition excl_port_conditions :: "u16 list \<Rightarrow> wfp_condition list" where
  "excl_port_conditions excl_ports = map (\<lambda>port. (IP_LOCAL_PORT, FWP_UINT16 port)) excl_ports"

definition block_untunneled_family ::
  "'e wfp_api \<Rightarrow> wfp_layer list \<Rightarrow> wfp_layer \<Rightarrow> wfp_condition list \<Rightarrow> wfp_condition list \<Rightarrow> u16 list \<Rightarrow>
   'e \<Rightarrow> 'e \<times> wfp_error option" where
  "block_untunneled_family api layers layer conditions local_conditions excl_ports =
     (let deny = \<lparr>layerKey = layer, weight = UNTUNNELED_BLOCK_DENY_WEIGHT, filterCondition = conditions,
            action = FWP_ACTION_BLOCK\<rparr>;
          allow = deny\<lparr>action := FWP_ACTION_PERMIT, weight := UNTUNNELED_BLOCK_ALLOW_WEIGHT,
            filterCondition := conditions @ local_conditions\<rparr>
      in wfp_then (add_to_layers api deny layers)
         (wfp_then (add_to_layers api allow layers)
           (if excl_ports \<noteq> []
            then add_to_layers api (allow\<lparr>filterCondition := conditions @ excl_port_conditions excl_ports\<rparr>) layers
            else wfp_nothing)))"

text \<open>\<^verbatim>\<open>CidrRange{"127.0.0.1/32"}\<close> and \<^verbatim>\<open>CidrRange{"::1/128"}\<close>.\<close>

definition cidr_literal :: "inet_env \<Rightarrow> string \<Rightarrow> cidr_range" where
  "cidr_literal env s = (case cidr_of_string env s of None \<Rightarrow> cidr_blank | Some r \<Rightarrow> r)"

definition block_untunneled ::
  "inet_env \<Rightarrow> 'e wfp_api \<Rightarrow> cidr_range \<Rightarrow> cidr_range \<Rightarrow> cidr_range list \<Rightarrow> cidr_range list \<Rightarrow> u16 list \<Rightarrow>
   'e firewall \<Rightarrow> 'e firewall \<times> wfp_error option" where
  "block_untunneled env api tunaddr4 tunaddr6 incl4 incl6 excl_ports = with_engine api
     (wfp_then
       (if length (m_address tunaddr4) = 4 \<and> incl4 \<noteq> []
        then block_untunneled_family api v4_layers ALE_AUTH_RECV_ACCEPT_V4 (v4_range_conditions IP_REMOTE_ADDRESS incl4)
          [(IP_LOCAL_ADDRESS, fwp_v4_range_from_cidr_range tunaddr4),
           (IP_LOCAL_ADDRESS, fwp_v4_range_from_cidr_range (cidr_literal env ''127.0.0.1/32''))] excl_ports
        else wfp_nothing)
       (if length (m_address tunaddr6) = 16 \<and> incl6 \<noteq> []
        then block_untunneled_family api v6_layers ALE_AUTH_RECV_ACCEPT_V6 (v6_range_conditions IP_REMOTE_ADDRESS incl6)
          [(IP_LOCAL_ADDRESS, fwp_v6_range_from_cidr_range tunaddr6),
           (IP_LOCAL_ADDRESS, fwp_v6_range_from_cidr_range (cidr_literal env ''::1/128''))] excl_ports
        else wfp_nothing))"

section \<open>The documented behaviour of the engine\<close>

text \<open>A connection as the layers see it.\<close>

record connection =
  c_layer :: wfp_layer
  c_app :: string
  c_protocol :: u8
  c_remote_port :: u16
  c_local_port :: u16
  c_remote_address :: bytes
  c_local_address :: bytes

definition is_v4 :: "connection \<Rightarrow> bool" where
  "is_v4 c \<longleftrightarrow> c_layer c \<in> set v4_layers"

definition connection_wf :: "connection \<Rightarrow> bool" where
  "connection_wf c \<longleftrightarrow> (let n = (if is_v4 c then 4 else 16) in length (c_remote_address c) = n \<and> length (c_local_address c) = n)"

text \<open>A value is compared with the field; an address with a range by the bits of the mask or of the prefix.\<close>

fun address_matches :: "bytes \<Rightarrow> wfp_value \<Rightarrow> bool" where
  "address_matches a (FWP_V4_ADDR_MASK addr msk) \<longleftrightarrow> length a = 4 \<and> ntohl4 a AND msk = addr AND msk"
| "address_matches a (FWP_V6_ADDR_MASK addr len) \<longleftrightarrow> length a = 16 \<and> list_all (\<lambda>k. abit a k = abit addr k) [0..<unat len]"
| "address_matches a _ \<longleftrightarrow> False"

fun condition_holds :: "connection \<Rightarrow> wfp_condition \<Rightarrow> bool" where
  "condition_holds c (ALE_APP_ID, v) \<longleftrightarrow> v = FWP_BYTE_BLOB (c_app c)"
| "condition_holds c (IP_PROTOCOL, v) \<longleftrightarrow> v = FWP_UINT8 (c_protocol c)"
| "condition_holds c (IP_REMOTE_PORT, v) \<longleftrightarrow> v = FWP_UINT16 (c_remote_port c)"
| "condition_holds c (IP_LOCAL_PORT, v) \<longleftrightarrow> v = FWP_UINT16 (c_local_port c)"
| "condition_holds c (IP_REMOTE_ADDRESS, v) \<longleftrightarrow> address_matches (c_remote_address c) v"
| "condition_holds c (IP_LOCAL_ADDRESS, v) \<longleftrightarrow> address_matches (c_local_address c) v"

text \<open>Conditions on the same field are alternatives, those on different fields all have to hold.\<close>

definition wfp_matches :: "connection \<Rightarrow> wfp_filter \<Rightarrow> bool" where
  "wfp_matches c f \<longleftrightarrow> layerKey f = c_layer c \<and>
     list_all (\<lambda>(field, v). list_ex (\<lambda>(field', v'). field' = field \<and> condition_holds c (field', v')) (filterCondition f))
       (filterCondition f)"

text \<open>The filter that decides is one of the greatest weight among those that match; the order among equal weights is the engine's.\<close>

definition wfp_arbitrates :: "(wfp_filter list \<Rightarrow> connection \<Rightarrow> wfp_filter option) \<Rightarrow> bool" where
  "wfp_arbitrates pick \<longleftrightarrow> (\<forall>fs c. case pick fs c of
     None \<Rightarrow> \<forall>f \<in> set fs. \<not> wfp_matches c f
   | Some f \<Rightarrow> f \<in> set fs \<and> wfp_matches c f \<and> (\<forall>g \<in> set fs. wfp_matches c g \<longrightarrow> weight g \<le> weight f))"

text \<open>The filters in force, and those of the transaction: a commit puts them in force; without it nothing changes.  The objects of a
  dynamic session go with it.\<close>

definition wfp_documented :: "'e wfp_api \<Rightarrow> ('e \<Rightarrow> wfp_filter list) \<Rightarrow> ('e \<Rightarrow> wfp_filter list) \<Rightarrow> bool" where
  "wfp_documented api live txn \<longleftrightarrow>
     (\<forall>e e' error. engine_open api e = (e', error) \<longrightarrow> live e' = []) \<and>
     (\<forall>e. live (engine_close api e) = []) \<and>
     (\<forall>e e' error. transaction_begin api e = (e', error) \<longrightarrow> live e' = live e \<and> (error = 0 \<longrightarrow> txn e' = live e)) \<and>
     (\<forall>e e' error. transaction_commit api e = (e', error) \<longrightarrow> live e' = (if error = 0 then txn e else live e)) \<and>
     (\<forall>e. live (transaction_abort api e) = live e) \<and>
     (\<forall>e e' error. provider_add api e = (e', error) \<longrightarrow> live e' = live e \<and> (error = 0 \<longrightarrow> txn e' = txn e)) \<and>
     (\<forall>e e' error. sublayer_add api e = (e', error) \<longrightarrow> live e' = live e \<and> (error = 0 \<longrightarrow> txn e' = txn e)) \<and>
     (\<forall>f e e' error. filter_add api f e = (e', error) \<longrightarrow> live e' = live e \<and> (error = 0 \<longrightarrow> txn e' = txn e @ [f]))"

section \<open>What the operations add\<close>

text \<open>A step adds filters to the transaction when it succeeds, and never changes what is in force.\<close>

definition adds :: "('e \<Rightarrow> wfp_filter list) \<Rightarrow> ('e \<Rightarrow> wfp_filter list) \<Rightarrow> ('e \<Rightarrow> 'e \<times> wfp_error option) \<Rightarrow> wfp_filter list \<Rightarrow> bool" where
  "adds live txn m fs \<longleftrightarrow>
     (\<forall>e e' r. m e = (e', r) \<longrightarrow> live e' = live e \<and> (r = None \<longrightarrow> txn e' = txn e @ fs))"

named_theorems adds_intros \<open>what the steps add\<close>

definition on_layers :: "wfp_layer list \<Rightarrow> wfp_filter \<Rightarrow> wfp_filter list" where
  "on_layers ls f = map (\<lambda>l. f\<lparr>layerKey := l\<rparr>) ls"

lemma adds_nothing [adds_intros]: "adds live txn wfp_nothing []"
  by (simp add: adds_def wfp_nothing_def)

lemma adds_then [adds_intros]:
  assumes "adds live txn m fs" "adds live txn k gs"
  shows "adds live txn (wfp_then m k) (fs @ gs)"
  unfolding adds_def
proof (intro allI impI)
  fix e e' r
  assume "wfp_then m k e = (e', r)"
  moreover obtain e1 r1 where "m e = (e1, r1)"
    by fastforce
  ultimately show "live e' = live e \<and> (r = None \<longrightarrow> txn e' = txn e @ fs @ gs)"
    using assms by (auto simp: adds_def wfp_then_def split: option.splits)
qed

lemma adds_if [adds_intros]:
  "adds live txn m fs \<Longrightarrow> adds live txn m' fs' \<Longrightarrow> adds live txn (if b then m else m') (if b then fs else fs')"
  by simp

lemma adds_filter:
  assumes "wfp_documented api live txn"
  shows "adds live txn (wfp_call name (filter_add api f)) [f]"
  using assms by (auto simp: adds_def wfp_call_def wfp_documented_def split: prod.splits)

lemma adds_layers [adds_intros]:
  assumes "wfp_documented api live txn"
  shows "adds live txn (add_to_layers api f ls) (on_layers ls f)"
proof (induction ls)
  case (Cons l ls)
  have "add_to_layers api f (l # ls) =
      wfp_then (wfp_call ''FwpmFilterAdd0'' (filter_add api (f\<lparr>layerKey := l\<rparr>))) (add_to_layers api f ls)"
    by (rule ext) simp
  then show ?case
    using adds_then[OF adds_filter[OF assms] Cons] by (simp add: on_layers_def)
qed (simp add: adds_def on_layers_def)

lemma adds_base:
  assumes "wfp_documented api live txn"
  shows "adds live txn (register_base_objects api) []"
proof -
  have "adds live txn (wfp_call name (provider_add api)) []" "adds live txn (wfp_call name' (sublayer_add api)) []" for name name'
    using assms by (auto simp: adds_def wfp_call_def wfp_documented_def split: prod.splits)
  then show ?thesis
    using adds_then[of live txn _ "[]" _ "[]"] by (simp add: register_base_objects_def)
qed

lemma run_transaction_adds:
  assumes doc: "wfp_documented api live txn" and func: "adds live txn func fs" and run: "run_transaction api func e = (e', r)"
  shows "live e' = live e @ (if r = None then fs else [])"
proof -
  obtain e1 c1 where b: "transaction_begin api e = (e1, c1)"
    by fastforce
  then have l1: "live e1 = live e" and t1: "c1 = 0 \<Longrightarrow> txn e1 = live e"
    using doc unfolding wfp_documented_def by blast+
  obtain e2 r2 where f: "func e1 = (e2, r2)"
    by fastforce
  then have l2: "live e2 = live e1" and t2: "r2 = None \<Longrightarrow> txn e2 = txn e1 @ fs"
    using func by (auto simp: adds_def)
  obtain e3 c3 where c: "transaction_commit api e2 = (e3, c3)"
    by fastforce
  then have l3: "live e3 = (if c3 = 0 then txn e2 else live e2)" and la: "live (transaction_abort api e2) = live e2"
    using doc unfolding wfp_documented_def by blast+
  show ?thesis
    using run b f c l1 t1 l2 t2 l3 la
    by (cases r2) (auto simp: run_transaction_def wfp_then_def wfp_call_def split: if_splits)
qed

lemma with_engine_adds:
  assumes "wfp_documented api live txn" "adds live txn func fs" "with_engine api func fw = (fw', r)"
  shows "handle_valid fw' = handle_valid fw \<and> (\<not> handle_valid fw \<longrightarrow> fw' = fw \<and> r = Some (FE_NOT_INITIALIZED, [])) \<and>
    live (engine fw') = live (engine fw) @ (if r = None then fs else [])"
  using assms(3) run_transaction_adds[OF assms(1,2)]
  by (auto simp: with_engine_def split: prod.splits if_splits)

text \<open>The filters that each operation means to add.\<close>

datatype firewall_request =
    Restrict_dns "cidr_range list" "cidr_range list"
  | Block_ipv6
  | Block_untunneled cidr_range cidr_range "cidr_range list" "cidr_range list" "u16 list"

fun serve :: "inet_env \<Rightarrow> 'e wfp_api \<Rightarrow> firewall_request \<Rightarrow> 'e firewall \<Rightarrow> 'e firewall \<times> wfp_error option" where
  "serve env api (Restrict_dns a4 a6) = restrict_dns_to api a4 a6"
| "serve env api Block_ipv6 = block_ipv6 api"
| "serve env api (Block_untunneled t4 t6 i4 i6 ps) = block_untunneled env api t4 t6 i4 i6 ps"

definition wfp_flt :: "u8 \<Rightarrow> wfp_action \<Rightarrow> wfp_condition list \<Rightarrow> wfp_filter" where
  "wfp_flt w a cs = \<lparr>layerKey = ALE_AUTH_CONNECT_V4, weight = w, filterCondition = cs, action = a\<rparr>"

definition untunneled_filters :: "wfp_layer list \<Rightarrow> wfp_condition list \<Rightarrow> wfp_condition list \<Rightarrow> u16 list \<Rightarrow> wfp_filter list" where
  "untunneled_filters ls cs lcs ps =
     on_layers ls (wfp_flt UNTUNNELED_BLOCK_DENY_WEIGHT FWP_ACTION_BLOCK cs) @
     on_layers ls (wfp_flt UNTUNNELED_BLOCK_ALLOW_WEIGHT FWP_ACTION_PERMIT (cs @ lcs)) @
     (if ps \<noteq> [] then on_layers ls (wfp_flt UNTUNNELED_BLOCK_ALLOW_WEIGHT FWP_ACTION_PERMIT (cs @ excl_port_conditions ps)) else [])"

fun request_filters :: "inet_env \<Rightarrow> firewall_request \<Rightarrow> wfp_filter list" where
  "request_filters env (Restrict_dns a4 a6) =
     (let allow = (\<lambda>ls cs. if cs \<noteq> []
        then on_layers ls (wfp_flt DNS_RESTRICT_ALLOW_WEIGHT FWP_ACTION_PERMIT (dns_conditions @ cs)) else [])
      in on_layers (v4_layers @ v6_layers) (wfp_flt DNS_RESTRICT_DENY_WEIGHT FWP_ACTION_BLOCK dns_conditions) @
         allow v4_layers (v4_range_conditions IP_REMOTE_ADDRESS a4) @ allow v6_layers (v6_range_conditions IP_REMOTE_ADDRESS a6))"
| "request_filters env Block_ipv6 = on_layers v6_layers (wfp_flt IPV6_BLOCK_DENY_WEIGHT FWP_ACTION_BLOCK [])"
| "request_filters env (Block_untunneled t4 t6 i4 i6 ps) =
     (if length (m_address t4) = 4 \<and> i4 \<noteq> []
      then untunneled_filters v4_layers (v4_range_conditions IP_REMOTE_ADDRESS i4)
        [(IP_LOCAL_ADDRESS, fwp_v4_range_from_cidr_range t4),
         (IP_LOCAL_ADDRESS, fwp_v4_range_from_cidr_range (cidr_literal env ''127.0.0.1/32''))] ps
      else []) @
     (if length (m_address t6) = 16 \<and> i6 \<noteq> []
      then untunneled_filters v6_layers (v6_range_conditions IP_REMOTE_ADDRESS i6)
        [(IP_LOCAL_ADDRESS, fwp_v6_range_from_cidr_range t6),
         (IP_LOCAL_ADDRESS, fwp_v6_range_from_cidr_range (cidr_literal env ''::1/128''))] ps
      else [])"

lemma on_layers_layer: "on_layers ls (f\<lparr>layerKey := l\<rparr>) = on_layers ls f"
  by (simp add: on_layers_def)

lemma adds_untunneled [adds_intros]:
  assumes "wfp_documented api live txn"
  shows "adds live txn (block_untunneled_family api ls l cs lcs ps) (untunneled_filters ls cs lcs ps)"
proof -
  have l: "on_layers ls \<lparr>layerKey = l, weight = w, filterCondition = c, action = a\<rparr> = on_layers ls (wfp_flt w a c)" for w c a
    by (simp add: on_layers_def wfp_flt_def)
  show ?thesis
    unfolding block_untunneled_family_def untunneled_filters_def Let_def l[symmetric] wfp_filter.update_convs
    by (intro adds_intros assms)
qed

lemma serve_adds:
  assumes doc: "wfp_documented api live txn"
  shows "\<exists>func. serve env api q = with_engine api func \<and> adds live txn func (request_filters env q)"
proof (cases q)
  case (Restrict_dns a4 a6)
  have len: "length (dns_conditions @ cs) > length dns_conditions \<longleftrightarrow> cs \<noteq> []" for cs
    by simp
  show ?thesis
    unfolding Restrict_dns serve.simps request_filters.simps restrict_dns_to_def Let_def len wfp_flt_def wfp_filter.update_convs
    by (rule exI, rule conjI, rule refl, intro adds_intros doc)
next
  case Block_ipv6
  then show ?thesis
    using adds_layers[OF doc] by (auto simp: block_ipv6_def wfp_flt_def)
next
  case (Block_untunneled t4 t6 i4 i6 ps)
  show ?thesis
    unfolding Block_untunneled serve.simps request_filters.simps block_untunneled_def
    by (rule exI, rule conjI, rule refl, intro adds_intros doc)
qed

lemma serve_live:
  assumes "wfp_documented api live txn" "serve env api q fw = (fw', r)"
  shows "handle_valid fw' = handle_valid fw \<and> (\<not> handle_valid fw \<longrightarrow> fw' = fw \<and> r = Some (FE_NOT_INITIALIZED, [])) \<and>
    live (engine fw') = live (engine fw) @ (if r = None then request_filters env q else [])"
  using serve_adds[OF assms(1), of env q] with_engine_adds[OF assms(1)] assms(2) by metis

section \<open>Which filters match\<close>

lemma abit_ntohl4:
  assumes "length b = 4" "k < 32"
  shows "abit b k = bit (ntohl4 b) (31 - k)"
proof -
  have o: "\<not> bit (b ! i) n" if "8 \<le> n" for i n
    using that bit_imp_le_length[of "b ! i" n] by auto
  define i j where "i = k div 8" and "j = k mod 8"
  then have k: "k = i * 8 + j" "j < 8" "k div 8 = i" "k mod 8 = j"
    by simp_all
  then have "i < 4"
    using assms(2) by linarith
  then consider "i = 0" | "i = 1" | "i = 2" | "i = 3"
    by linarith
  then show ?thesis
    by cases (use k o in \<open>auto simp: abit_def ntohl4_def bit_simps numeral_2_eq_2 numeral_3_eq_3\<close>)
qed

text \<open>A range that can be used: one that was made, or one whose construction failed and that has no address.\<close>

definition range_ok :: "cidr_range \<Rightarrow> bool" where
  "range_ok r \<longleftrightarrow> cidr_wf r \<or> m_address r = []"

lemma v4_address_matches:
  assumes "cidr_wf r" "length (m_address r) = 4"
  shows "address_matches a (fwp_v4_range_from_cidr_range r) \<longleftrightarrow> a \<in> cidr_addrs r"
proof (cases "length a = 4")
  case True
  have m: "length (m_mask r) = 4"
    using cidr_wfD(2)[OF assms(1)] assms(2) by simp
  have "ntohl4 a AND ntohl4 (m_mask r) = ntohl4 (m_address r) AND ntohl4 (m_mask r) \<longleftrightarrow>
      (\<forall>n < 32. bit (ntohl4 (m_mask r)) n \<longrightarrow> bit (ntohl4 a) n = bit (ntohl4 (m_address r)) n)"
    by (auto simp: bit_eq_iff bit_and_iff dest: bit_imp_le_length)
  also have "\<dots> \<longleftrightarrow> (\<forall>k < 32. bit (ntohl4 (m_mask r)) (31 - k) \<longrightarrow> bit (ntohl4 a) (31 - k) = bit (ntohl4 (m_address r)) (31 - k))"
    (is "_ \<longleftrightarrow> ?R")
  proof
    assume R: ?R
    show "\<forall>n < 32. bit (ntohl4 (m_mask r)) n \<longrightarrow> bit (ntohl4 a) n = bit (ntohl4 (m_address r)) n"
    proof (intro allI impI)
      fix n :: nat assume "n < 32" "bit (ntohl4 (m_mask r)) n"
      then show "bit (ntohl4 a) n = bit (ntohl4 (m_address r)) n"
        using R[rule_format, of "31 - n"] by simp
    qed
  qed simp
  also have "\<dots> \<longleftrightarrow> (\<forall>k < 4 * 8. abit (m_mask r) k \<longrightarrow> abit (m_address r) k = abit a k)"
    using True assms(2) m by (auto simp: abit_ntohl4)
  also have "\<dots> \<longleftrightarrow> cidr_contains_addr r a"
    using masked_bytes_agree[of "m_address r" 4 a "m_mask r"] True assms(2) m by (simp add: cidr_contains_addr_def)
  finally show ?thesis
    using True cidr_contains_addr_iff[OF assms(1)] by (simp add: fwp_v4_range_from_cidr_range_def)
qed (use assms in \<open>auto simp: fwp_v4_range_from_cidr_range_def cidr_addrs_def\<close>)

lemma v6_address_matches:
  assumes "cidr_wf r" "length (m_address r) = 16"
  shows "address_matches a (fwp_v6_range_from_cidr_range r) \<longleftrightarrow> a \<in> cidr_addrs r"
proof -
  have "m_prefix_len r \<le> 128"
    using cidr_wfD(1)[OF assms(1)] assms(2) by simp
  then have "unat (word_of_nat (m_prefix_len r) :: u8) = m_prefix_len r"
    by (simp add: unat_of_nat)
  then show ?thesis
    using assms by (auto simp: fwp_v6_range_from_cidr_range_def cidr_addrs_def list_all_iff)
qed

definition in_ranges :: "cidr_range list \<Rightarrow> bytes \<Rightarrow> bool" where
  "in_ranges rs a \<longleftrightarrow> list_ex (\<lambda>r. cidr_contains_addr r a) rs"

lemma in_ranges_iff:
  assumes "list_all range_ok rs" "a \<noteq> []"
  shows "in_ranges rs a \<longleftrightarrow> (\<exists>r \<in> set rs. a \<in> cidr_addrs r)"
proof -
  have "cidr_contains_addr r a \<longleftrightarrow> a \<in> cidr_addrs r" if "r \<in> set rs" for r
    using assms that cidr_contains_addr_iff[of r a]
    by (auto simp: list_all_iff range_ok_def cidr_contains_addr_def cidr_addrs_def)
  then show ?thesis
    by (auto simp: in_ranges_def list_ex_iff)
qed

lemma v4_conditions_hold:
  assumes "list_all range_ok rs" "length a = 4"
  shows "(\<exists>v. (fld, v) \<in> set (v4_range_conditions fld rs) \<and> address_matches a v) \<longleftrightarrow> in_ranges rs a"
proof -
  have one: "length (m_address r) = 4 \<and> address_matches a (fwp_v4_range_from_cidr_range r) \<longleftrightarrow> a \<in> cidr_addrs r"
    if "r \<in> set rs" for r
  proof (cases "length (m_address r) = 4")
    case True
    then have "cidr_wf r"
      using assms(1) that by (auto simp: list_all_iff range_ok_def)
    then show ?thesis
      using True v4_address_matches by blast
  qed (use assms(2) in \<open>simp add: cidr_addrs_def\<close>)
  have "(\<exists>v. (fld, v) \<in> set (v4_range_conditions fld rs) \<and> address_matches a v) \<longleftrightarrow>
      (\<exists>r \<in> set rs. length (m_address r) = 4 \<and> address_matches a (fwp_v4_range_from_cidr_range r))"
    by (auto simp: v4_range_conditions_def)
  also have "\<dots> \<longleftrightarrow> (\<exists>r \<in> set rs. a \<in> cidr_addrs r)"
    by (rule bex_cong[OF refl], rule one)
  also have "\<dots> \<longleftrightarrow> in_ranges rs a"
    using assms(2) by (intro in_ranges_iff[OF assms(1), symmetric]) auto
  finally show ?thesis .
qed

lemma v6_conditions_hold:
  assumes "list_all range_ok rs" "length a = 16"
  shows "(\<exists>v. (fld, v) \<in> set (v6_range_conditions fld rs) \<and> address_matches a v) \<longleftrightarrow> in_ranges rs a"
proof -
  have one: "length (m_address r) = 16 \<and> address_matches a (fwp_v6_range_from_cidr_range r) \<longleftrightarrow> a \<in> cidr_addrs r"
    if "r \<in> set rs" for r
  proof (cases "length (m_address r) = 16")
    case True
    then have "cidr_wf r"
      using assms(1) that by (auto simp: list_all_iff range_ok_def)
    then show ?thesis
      using True v6_address_matches by blast
  qed (use assms(2) in \<open>simp add: cidr_addrs_def\<close>)
  have "(\<exists>v. (fld, v) \<in> set (v6_range_conditions fld rs) \<and> address_matches a v) \<longleftrightarrow>
      (\<exists>r \<in> set rs. length (m_address r) = 16 \<and> address_matches a (fwp_v6_range_from_cidr_range r))"
    by (auto simp: v6_range_conditions_def)
  also have "\<dots> \<longleftrightarrow> (\<exists>r \<in> set rs. a \<in> cidr_addrs r)"
    by (rule bex_cong[OF refl], rule one)
  also have "\<dots> \<longleftrightarrow> in_ranges rs a"
    using assms(2) by (intro in_ranges_iff[OF assms(1), symmetric]) auto
  finally show ?thesis .
qed

text \<open>The weight classes of the filters, with one action each.\<close>

definition classed :: "wfp_filter \<Rightarrow> bool" where
  "classed f \<longleftrightarrow> (weight f, action f) \<in>
     {(SELF_ALLOW_WEIGHT, FWP_ACTION_PERMIT), (UNTUNNELED_BLOCK_ALLOW_WEIGHT, FWP_ACTION_PERMIT),
      (UNTUNNELED_BLOCK_DENY_WEIGHT, FWP_ACTION_BLOCK), (DNS_RESTRICT_ALLOW_WEIGHT, FWP_ACTION_PERMIT),
      (DNS_RESTRICT_DENY_WEIGHT, FWP_ACTION_BLOCK)}"

definition hits :: "wfp_filter list \<Rightarrow> connection \<Rightarrow> u8 \<Rightarrow> bool" where
  "hits fs c w \<longleftrightarrow> (\<exists>f \<in> set fs. weight f = w \<and> wfp_matches c f)"

text \<open>The greatest class with a matching filter decides, whatever the order inside the classes.\<close>

definition cascade :: "(u8 \<Rightarrow> bool) \<Rightarrow> wfp_action option" where
  "cascade h =
     (if h SELF_ALLOW_WEIGHT then Some FWP_ACTION_PERMIT
      else if h UNTUNNELED_BLOCK_ALLOW_WEIGHT then Some FWP_ACTION_PERMIT
      else if h UNTUNNELED_BLOCK_DENY_WEIGHT then Some FWP_ACTION_BLOCK
      else if h DNS_RESTRICT_ALLOW_WEIGHT then Some FWP_ACTION_PERMIT
      else if h DNS_RESTRICT_DENY_WEIGHT then Some FWP_ACTION_BLOCK
      else None)"

lemma arbitration_cascade:
  assumes "wfp_arbitrates pick" and cl: "\<forall>f \<in> set fs. classed f"
  shows "map_option action (pick fs c) = cascade (hits fs c)"
proof (cases "pick fs c")
  case None
  then have "\<forall>f \<in> set fs. \<not> wfp_matches c f"
    using assms(1) unfolding wfp_arbitrates_def by (metis (no_types, lifting) option.case(1))
  then show ?thesis
    using None by (simp add: cascade_def hits_def)
next
  case (Some f)
  then have f: "f \<in> set fs" "wfp_matches c f" and max: "\<forall>g \<in> set fs. wfp_matches c g \<longrightarrow> weight g \<le> weight f"
    using assms(1) unfolding wfp_arbitrates_def by (metis (no_types, lifting) option.case(2))+
  have above: "\<not> hits fs c w" if "weight f < w" for w
    using max that by (auto simp: hits_def)
  have at: "hits fs c (weight f)"
    using f by (auto simp: hits_def)
  have "classed f"
    using cl f(1) by blast
  then show ?thesis
    using Some at above by (auto simp: classed_def cascade_def wfp_weights)
qed

section \<open>The policy\<close>

definition is_dns :: "connection \<Rightarrow> bool" where
  "is_dns c \<longleftrightarrow> c_remote_port c = 53 \<and> (c_protocol c = 6 \<or> c_protocol c = 17)"

definition loopback4 :: bytes where "loopback4 = [127, 0, 0, 1]"
definition loopback6 :: bytes where "loopback6 = replicate 15 0 @ [1]"

text \<open>Whether a request for the tunnel is about the connection, lets it through, or forbids it; and the same for the others.\<close>

fun tunnel_covers :: "connection \<Rightarrow> firewall_request \<Rightarrow> bool" where
  "tunnel_covers c (Block_untunneled t4 t6 i4 i6 ps) \<longleftrightarrow>
     (if is_v4 c then length (m_address t4) = 4 \<and> in_ranges i4 (c_remote_address c)
      else length (m_address t6) = 16 \<and> in_ranges i6 (c_remote_address c))"
| "tunnel_covers c _ \<longleftrightarrow> False"

fun tunnel_excepts :: "connection \<Rightarrow> firewall_request \<Rightarrow> bool" where
  "tunnel_excepts c (Block_untunneled t4 t6 i4 i6 ps) \<longleftrightarrow>
     c_local_address c = (if is_v4 c then loopback4 else loopback6) \<or>
     cidr_contains_addr (if is_v4 c then t4 else t6) (c_local_address c) \<or> c_local_port c \<in> set ps"
| "tunnel_excepts c _ \<longleftrightarrow> False"

fun dns_denied :: "connection \<Rightarrow> firewall_request \<Rightarrow> bool" where
  "dns_denied c (Restrict_dns a4 a6) \<longleftrightarrow> is_dns c"
| "dns_denied c _ \<longleftrightarrow> False"

fun dns_allowed :: "connection \<Rightarrow> firewall_request \<Rightarrow> bool" where
  "dns_allowed c (Restrict_dns a4 a6) \<longleftrightarrow> is_dns c \<and> in_ranges (if is_v4 c then a4 else a6) (c_remote_address c)"
| "dns_allowed c _ \<longleftrightarrow> False"

definition ipv6_denied :: "connection \<Rightarrow> firewall_request \<Rightarrow> bool" where
  "ipv6_denied c q \<longleftrightarrow> q = Block_ipv6 \<and> \<not> is_v4 c"

definition policy :: "string \<Rightarrow> firewall_request list \<Rightarrow> connection \<Rightarrow> wfp_action option" where
  "policy app qs c =
     (if c_app c = app then Some FWP_ACTION_PERMIT
      else if list_ex (\<lambda>q. tunnel_covers c q \<and> tunnel_excepts c q) qs then Some FWP_ACTION_PERMIT
      else if list_ex (\<lambda>q. tunnel_covers c q \<or> ipv6_denied c q) qs then Some FWP_ACTION_BLOCK
      else if list_ex (dns_allowed c) qs then Some FWP_ACTION_PERMIT
      else if list_ex (dns_denied c) qs then Some FWP_ACTION_BLOCK
      else None)"

text \<open>A request whose ranges were made by the constructors and that, where it names a tunnel address and ranges at all, names a range
  of the family of the tunnel address.\<close>

fun request_ok :: "firewall_request \<Rightarrow> bool" where
  "request_ok (Restrict_dns a4 a6) \<longleftrightarrow> list_all range_ok (a4 @ a6)"
| "request_ok Block_ipv6 \<longleftrightarrow> True"
| "request_ok (Block_untunneled t4 t6 i4 i6 ps) \<longleftrightarrow> list_all range_ok (t4 # t6 # i4 @ i6) \<and>
     (length (m_address t4) = 4 \<and> i4 \<noteq> [] \<longrightarrow> list_ex (\<lambda>r. length (m_address r) = 4) i4) \<and>
     (length (m_address t6) = 16 \<and> i6 \<noteq> [] \<longrightarrow> list_ex (\<lambda>r. length (m_address r) = 16) i6)"

text \<open>What the C library is asked to read.\<close>

definition inet_reads_loopback :: "inet_env \<Rightarrow> bool" where
  "inet_reads_loopback env \<longleftrightarrow> inet_pton4 env ''127.0.0.1'' = Some loopback4 \<and> inet_pton6 env ''::1'' = Some loopback6"

subsection \<open>Matching of the filters of the requests\<close>

definition conditions_match :: "connection \<Rightarrow> wfp_condition list \<Rightarrow> bool" where
  "conditions_match c cs \<longleftrightarrow> (\<forall>field \<in> fst ` set cs. \<exists>v. (field, v) \<in> set cs \<and> condition_holds c (field, v))"

lemma hits_on_layers:
  "hits (on_layers ls (wfp_flt w a cs)) c w' \<longleftrightarrow> w' = w \<and> c_layer c \<in> set ls \<and> conditions_match c cs"
  by (fastforce simp: hits_def on_layers_def wfp_flt_def wfp_matches_def conditions_match_def list_all_iff list_ex_iff)

lemma hits_append: "hits (fs @ gs) c w \<longleftrightarrow> hits fs c w \<or> hits gs c w"
  by (auto simp: hits_def)

lemma hits_Nil: "\<not> hits [] c w"
  by (simp add: hits_def)

lemma hits_concat: "hits (concat (map f qs)) c w \<longleftrightarrow> (\<exists>q \<in> set qs. hits (f q) c w)"
  by (auto simp: hits_def)

lemmas hits_simps = hits_on_layers hits_append hits_Nil

lemma conditions_match_append:
  assumes "fst ` set cs \<inter> fst ` set ds = {}"
  shows "conditions_match c (cs @ ds) \<longleftrightarrow> conditions_match c cs \<and> conditions_match c ds"
proof -
  have "field \<in> fst ` set cs \<Longrightarrow> (field, v) \<notin> set ds" "field \<in> fst ` set ds \<Longrightarrow> (field, v) \<notin> set cs" for field v
    using assms by (metis IntI empty_iff fst_conv image_eqI)+
  then show ?thesis
    by (simp add: conditions_match_def image_Un ball_Un)
qed

lemma conditions_match_one:
  assumes "cs \<noteq> []" "fst ` set cs \<subseteq> {fld}"
  shows "conditions_match c cs \<longleftrightarrow> (\<exists>v. (fld, v) \<in> set cs \<and> condition_holds c (fld, v))"
proof -
  have "fst ` set cs = {fld}"
    using assms by (cases cs) auto
  then show ?thesis
    by (simp add: conditions_match_def)
qed

lemma dns_conditions_match: "conditions_match c dns_conditions \<longleftrightarrow> is_dns c"
  by (auto simp: conditions_match_def dns_conditions_def is_dns_def PLAIN_DNS_PORT_NUMBER_def IPPROTO_TCP_def IPPROTO_UDP_def)

lemma range_condition_fields:
  "fst ` set (v4_range_conditions fld rs) \<subseteq> {fld}" "fst ` set (v6_range_conditions fld rs) \<subseteq> {fld}"
  "fst ` set (excl_port_conditions ps) \<subseteq> {IP_LOCAL_PORT}" "fst ` set dns_conditions = {IP_REMOTE_PORT, IP_PROTOCOL}"
  by (auto simp: v4_range_conditions_def v6_range_conditions_def excl_port_conditions_def dns_conditions_def)

lemma remote_match:
  assumes "list_all range_ok rs"
  shows "length (c_remote_address c) = 4 \<Longrightarrow> v4_range_conditions IP_REMOTE_ADDRESS rs \<noteq> [] \<Longrightarrow>
      conditions_match c (v4_range_conditions IP_REMOTE_ADDRESS rs) \<longleftrightarrow> in_ranges rs (c_remote_address c)"
    and "length (c_remote_address c) = 16 \<Longrightarrow> v6_range_conditions IP_REMOTE_ADDRESS rs \<noteq> [] \<Longrightarrow>
      conditions_match c (v6_range_conditions IP_REMOTE_ADDRESS rs) \<longleftrightarrow> in_ranges rs (c_remote_address c)"
  using v4_conditions_hold[OF assms, of "c_remote_address c" IP_REMOTE_ADDRESS]
    v6_conditions_hold[OF assms, of "c_remote_address c" IP_REMOTE_ADDRESS]
  by (simp_all add: conditions_match_one[OF _ range_condition_fields(1)] conditions_match_one[OF _ range_condition_fields(2)])

lemma no_range_conditions:
  "length a = 4 \<Longrightarrow> v4_range_conditions fld rs = [] \<Longrightarrow> \<not> in_ranges rs a"
  "length a = 16 \<Longrightarrow> v6_range_conditions fld rs = [] \<Longrightarrow> \<not> in_ranges rs a"
  by (auto simp: v4_range_conditions_def v6_range_conditions_def in_ranges_def list_ex_iff cidr_contains_addr_def filter_empty_conv)

lemma port_match: "ps \<noteq> [] \<Longrightarrow> conditions_match c (excl_port_conditions ps) \<longleftrightarrow> c_local_port c \<in> set ps"
  by (subst conditions_match_one[OF _ range_condition_fields(3)]) (auto simp: excl_port_conditions_def)

lemma local_match:
  "conditions_match c [(IP_LOCAL_ADDRESS, v), (IP_LOCAL_ADDRESS, w)] \<longleftrightarrow>
   address_matches (c_local_address c) v \<or> address_matches (c_local_address c) w"
  by (subst conditions_match_one[of _ IP_LOCAL_ADDRESS]) auto

lemma disjoint_fields: "A \<subseteq> {x} \<Longrightarrow> B \<subseteq> {y} \<Longrightarrow> x \<noteq> y \<Longrightarrow> A \<inter> B = {}"
  by blast

lemma untunneled_hits:
  assumes "cs \<noteq> []" "fst ` set cs \<subseteq> {IP_REMOTE_ADDRESS}" "lcs = [(IP_LOCAL_ADDRESS, v), (IP_LOCAL_ADDRESS, w)]"
  shows "hits (untunneled_filters ls cs lcs ps) c wt \<longleftrightarrow> c_layer c \<in> set ls \<and> conditions_match c cs \<and>
    (wt = 3 \<or> wt = 4 \<and> (address_matches (c_local_address c) v \<or> address_matches (c_local_address c) w \<or> c_local_port c \<in> set ps))"
proof -
  have "conditions_match c (cs @ lcs) \<longleftrightarrow> conditions_match c cs \<and> conditions_match c lcs"
    by (intro conditions_match_append disjoint_fields[OF assms(2), of _ IP_LOCAL_ADDRESS]) (auto simp: assms(3))
  moreover have "conditions_match c (cs @ excl_port_conditions ps) \<longleftrightarrow>
      conditions_match c cs \<and> conditions_match c (excl_port_conditions ps)"
    by (intro conditions_match_append disjoint_fields[OF assms(2) range_condition_fields(3)]) simp
  ultimately show ?thesis
    by (cases "ps = []") (auto simp: untunneled_filters_def hits_simps wfp_weights local_match assms(3) port_match)
qed

lemma loopback_literals:
  assumes "inet_reads_loopback env"
  shows "cidr_literal env ''127.0.0.1/32'' = cidr_init loopback4 32" "cidr_literal env ''::1/128'' = cidr_init loopback6 128"
proof -
  have d: "dec 32 = ''32''" "dec 128 = ''128''"
    by code_simp+
  have "to_integer max_u64 (dec 32) 10 = Some 32" "to_integer max_u64 (dec 128) 10 = Some 128"
    by (rule dec_roundtrip, simp add: max_u64_def)+
  then have i: "to_integer max_u64 ''32'' 10 = Some 32" "to_integer max_u64 ''128'' 10 = Some 128"
    unfolding d by blast+
  have s: "split2_by (trim ''127.0.0.1/32'') CHR ''/'' True = (''127.0.0.1'', ''32'')"
      "split2_by (trim ''::1/128'') CHR ''/'' True = (''::1'', ''128'')"
    by code_simp+
  have f: "sv_find_first_of ''127.0.0.1'' ''.'' 0 \<noteq> None" "sv_find_last_of ''127.0.0.1'' '':'' = None"
      "sv_find_first_of ''::1'' ''.'' 0 = None" "c_str ''127.0.0.1'' = ''127.0.0.1''" "c_str ''::1'' = ''::1''"
    by code_simp+
  have "get_address_from_string env ''127.0.0.1'' = Inr loopback4"
    unfolding get_address_from_string_def if_P[OF f(1)] f(2) option.case get_ipv4_address_from_string_def Let_def f(4)
    using assms by (simp add: inet_reads_loopback_def)
  moreover have "get_address_from_string env ''::1'' = Inr loopback6"
    unfolding get_address_from_string_def f(3) get_ipv6_address_from_string_def Let_def f(5)
    using assms by (simp add: inet_reads_loopback_def)
  ultimately show "cidr_literal env ''127.0.0.1/32'' = cidr_init loopback4 32" "cidr_literal env ''::1/128'' = cidr_init loopback6 128"
    unfolding cidr_literal_def cidr_of_string_def Let_def s by (simp_all add: i)
qed

lemma cidr_addrs_single: "cidr_addrs (cidr_init a (8 * length a)) = {a}"
  using bytes_eq_iff[of _ "length a" a] by (auto simp: cidr_addrs_init)

lemma loopback_matches:
  "address_matches a (fwp_v4_range_from_cidr_range (cidr_init loopback4 32)) \<longleftrightarrow> a = loopback4"
  "address_matches a (fwp_v6_range_from_cidr_range (cidr_init loopback6 128)) \<longleftrightarrow> a = loopback6"
proof -
  have l: "8 * length loopback4 = 32" "8 * length loopback6 = 128"
    by (simp_all add: loopback4_def loopback6_def)
  have w: "cidr_wf (cidr_init loopback4 32)" "cidr_wf (cidr_init loopback6 128)"
    using l by (simp_all add: cidr_init_wf)
  have n: "length (m_address (cidr_init loopback4 32)) = 4" "length (m_address (cidr_init loopback6 128)) = 16"
    using cidr_init_dims[of 32 loopback4] cidr_init_dims[of 128 loopback6] l by simp_all
  show "address_matches a (fwp_v4_range_from_cidr_range (cidr_init loopback4 32)) \<longleftrightarrow> a = loopback4"
    "address_matches a (fwp_v6_range_from_cidr_range (cidr_init loopback6 128)) \<longleftrightarrow> a = loopback6"
    using v4_address_matches[OF w(1) n(1)] v6_address_matches[OF w(2) n(2)] cidr_addrs_single[of loopback4]
      cidr_addrs_single[of loopback6] by (simp_all add: l)
qed

lemma tunnel_matches:
  assumes "range_ok t"
  shows "length (m_address t) = 4 \<Longrightarrow> address_matches a (fwp_v4_range_from_cidr_range t) \<longleftrightarrow> cidr_contains_addr t a"
    and "length (m_address t) = 16 \<Longrightarrow> address_matches a (fwp_v6_range_from_cidr_range t) \<longleftrightarrow> cidr_contains_addr t a"
  using assms v4_address_matches[of t a] v6_address_matches[of t a] cidr_contains_addr_iff[of t a] by (auto simp: range_ok_def)

lemma layers_of_family: "c_layer c \<in> set v4_layers \<longleftrightarrow> is_v4 c" "c_layer c \<in> set v6_layers \<longleftrightarrow> \<not> is_v4 c"
  by (cases "c_layer c"; simp add: is_v4_def v4_layers_def v6_layers_def)+

lemma connection_wf_simps:
  assumes "connection_wf c"
  shows "is_v4 c \<Longrightarrow> length (c_remote_address c) = 4" "\<not> is_v4 c \<Longrightarrow> length (c_remote_address c) = 16"
  using assms by (simp_all add: connection_wf_def)

lemma dns_hits:
  assumes "list_all range_ok (a4 @ a6)" "connection_wf c"
  shows "hits (request_filters env (Restrict_dns a4 a6)) c w \<longleftrightarrow>
    w = 2 \<and> dns_allowed c (Restrict_dns a4 a6) \<or> w = 1 \<and> is_dns c"
proof -
  have m: "conditions_match c (dns_conditions @ cs) \<longleftrightarrow> is_dns c \<and> conditions_match c cs" if "fst ` set cs \<subseteq> {IP_REMOTE_ADDRESS}" for cs
    by (subst conditions_match_append) (use that range_condition_fields(4) in \<open>auto simp: dns_conditions_match\<close>)
  have r: "list_all range_ok a4" "list_all range_ok a6"
    using assms(1) by simp_all
  note s = layers_of_family hits_simps wfp_weights dns_conditions_match m[OF range_condition_fields(1)] m[OF range_condition_fields(2)]
  show ?thesis
  proof (cases "is_v4 c")
    case True
    note l = connection_wf_simps(1)[OF assms(2) True]
    show ?thesis
      using True remote_match(1)[OF r(1) l] no_range_conditions(1)[OF l, of IP_REMOTE_ADDRESS a4]
      by (auto simp: s)
  next
    case False
    note l = connection_wf_simps(2)[OF assms(2) False]
    show ?thesis
      using False remote_match(2)[OF r(2) l] no_range_conditions(2)[OF l, of IP_REMOTE_ADDRESS a6]
      by (auto simp: s)
  qed
qed

lemma untunneled_request_hits:
  assumes ok: "request_ok q" and q: "q = Block_untunneled t4 t6 i4 i6 ps" and wf: "connection_wf c" and env: "inet_reads_loopback env"
  shows "hits (request_filters env q) c w \<longleftrightarrow> tunnel_covers c q \<and> (w = 3 \<or> w = 4 \<and> tunnel_excepts c q)"
proof -
  have r: "range_ok t4" "range_ok t6" "list_all range_ok i4" "list_all range_ok i6"
    using ok by (simp_all add: q)
  have n: "length (m_address t4) = 4 \<Longrightarrow> i4 \<noteq> [] \<Longrightarrow> v4_range_conditions IP_REMOTE_ADDRESS i4 \<noteq> []"
      "length (m_address t6) = 16 \<Longrightarrow> i6 \<noteq> [] \<Longrightarrow> v6_range_conditions IP_REMOTE_ADDRESS i6 \<noteq> []"
    using ok by (auto simp: q v4_range_conditions_def v6_range_conditions_def filter_empty_conv list_ex_iff)
  have e: "\<not> in_ranges [] a" for a
    by (simp add: in_ranges_def)
  note u = untunneled_hits[OF _ range_condition_fields(1) refl] untunneled_hits[OF _ range_condition_fields(2) refl]
  show ?thesis
  proof (cases "is_v4 c")
    case True
    note l = connection_wf_simps(1)[OF wf True]
    show ?thesis
      using True n remote_match(1)[OF r(3) l] tunnel_matches(1)[OF r(1)] e
      by (cases "i4 = []"; cases "i6 = []")
        (auto simp: q u hits_simps layers_of_family loopback_literals[OF env] loopback_matches)
  next
    case False
    note l = connection_wf_simps(2)[OF wf False]
    show ?thesis
      using False n remote_match(2)[OF r(4) l] tunnel_matches(2)[OF r(2)] e
      by (cases "i4 = []"; cases "i6 = []")
        (auto simp: q u hits_simps layers_of_family loopback_literals[OF env] loopback_matches)
  qed
qed

lemma request_hits:
  assumes "request_ok q" "connection_wf c" "inet_reads_loopback env"
  shows "hits (request_filters env q) c w \<longleftrightarrow>
    w = 4 \<and> tunnel_covers c q \<and> tunnel_excepts c q \<or> w = 3 \<and> (tunnel_covers c q \<or> ipv6_denied c q) \<or>
    w = 2 \<and> dns_allowed c q \<or> w = 1 \<and> dns_denied c q"
proof (cases q)
  case (Restrict_dns a4 a6)
  then show ?thesis
    using dns_hits[of a4 a6 c env w] assms by (auto simp: ipv6_denied_def)
next
  case Block_ipv6
  then show ?thesis
    by (auto simp: hits_simps wfp_weights layers_of_family ipv6_denied_def conditions_match_def)
next
  case (Block_untunneled t4 t6 i4 i6 ps)
  from untunneled_request_hits[OF assms(1) this assms(2,3), of w] show ?thesis
    by (auto simp: Block_untunneled ipv6_denied_def)
qed

section \<open>The firewall\<close>

text \<open>Several requests in turn; the second component has those that succeeded.\<close>

fun serve_all :: "inet_env \<Rightarrow> 'e wfp_api \<Rightarrow> firewall_request list \<Rightarrow> 'e firewall \<Rightarrow> 'e firewall \<times> firewall_request list" where
  "serve_all env api [] fw = (fw, [])"
| "serve_all env api (q # qs) fw =
     (let (fw1, error) = serve env api q fw; (fw2, accepted) = serve_all env api qs fw1
      in (fw2, if error = None then q # accepted else accepted))"

lemma serve_all_live:
  assumes "wfp_documented api live txn" "serve_all env api qs fw = (fw', accepted)"
  shows "live (engine fw') = live (engine fw) @ concat (map (request_filters env) accepted) \<and> set accepted \<subseteq> set qs"
  using assms(2)
proof (induction qs arbitrary: fw accepted)
  case (Cons q qs)
  obtain fw1 r where s: "serve env api q fw = (fw1, r)"
    by fastforce
  obtain fw2 acc where a: "serve_all env api qs fw1 = (fw2, acc)"
    by fastforce
  show ?case
    using Cons.prems s a serve_live[OF assms(1) s] Cons.IH[of fw1 acc] by (auto split: if_splits)
qed simp

lemma firewall_make_live:
  assumes doc: "wfp_documented api live txn"
  shows "if handle_valid (firewall_make api pid e)
    then \<exists>app. own_app_id api pid = Inr app \<and>
      live (engine (firewall_make api pid e)) = on_layers (v4_layers @ v6_layers) (self_filter app)
    else live (engine (firewall_make api pid e)) = []"
proof -
  obtain e1 c1 where o: "engine_open api e = (e1, c1)"
    by fastforce
  obtain e2 r2 where b: "run_transaction api (register_base_objects api) e1 = (e2, r2)"
    by fastforce
  obtain e3 r3 where a: "run_transaction api (allow_self api pid) e2 = (e3, r3)"
    by fastforce
  have l1: "live e1 = []"
    using doc o unfolding wfp_documented_def by metis
  have lc: "live (engine_close api x) = []" for x
    using doc unfolding wfp_documented_def by blast
  have l2: "live e2 = []"
    using run_transaction_adds[OF doc adds_base[OF doc] b] l1 by simp
  have "\<exists>app. own_app_id api pid = Inr app \<and> live e3 = on_layers (v4_layers @ v6_layers) (self_filter app)" if "r3 = None"
  proof (cases "own_app_id api pid")
    case (Inl err)
    then have "allow_self api pid = (\<lambda>e. (e, Some err))"
      by (rule_tac ext) (simp add: allow_self_def)
    then show ?thesis
      using a that by (auto simp: run_transaction_def wfp_then_def wfp_call_def split: if_splits prod.splits option.splits)
  next
    case (Inr app)
    then have as: "allow_self api pid = add_to_layers api (self_filter app) (v4_layers @ v6_layers)"
      by (rule_tac ext) (simp add: allow_self_def)
    then show ?thesis
      using run_transaction_adds[OF doc adds_layers[OF doc] a[unfolded as]] that l2 Inr by simp
  qed
  then show ?thesis
    using o b a l1 lc by (cases r2; cases r3) (auto simp: firewall_make_def Let_def)
qed

lemma self_hits: "hits (on_layers (v4_layers @ v6_layers) (self_filter app)) c w \<longleftrightarrow> w = 15 \<and> c_app c = app"
proof -
  have "self_filter app = wfp_flt 15 FWP_ACTION_PERMIT [(ALE_APP_ID, FWP_BYTE_BLOB app)]"
    by (simp add: self_filter_def wfp_flt_def wfp_weights)
  then show ?thesis
    by (auto simp: hits_simps layers_of_family conditions_match_def)
qed

lemma classed_on_layers: "classed f \<Longrightarrow> g \<in> set (on_layers ls f) \<Longrightarrow> classed g"
  by (auto simp: on_layers_def classed_def)

lemma classed_filters: "f \<in> set (request_filters env q) \<Longrightarrow> classed f"
  by (cases q) (auto simp: untunneled_filters_def Let_def wfp_flt_def classed_def wfp_weights on_layers_def split: if_splits)

lemma classed_self: "f \<in> set (on_layers ls (self_filter app)) \<Longrightarrow> classed f"
  by (rule classed_on_layers) (auto simp: classed_def self_filter_def)

text \<open>The verdict on a connection by the weight classes of the requests that succeeded, however the engine orders filters of equal
  weight.\<close>

lemma firewall_policy_verdict:
  assumes doc: "wfp_documented api live txn" and pick: "wfp_arbitrates pick" and env: "inet_reads_loopback env"
    and made: "handle_valid (firewall_make api pid e)" "own_app_id api pid = Inr app"
    and run: "serve_all env api qs (firewall_make api pid e) = (fw, accepted)"
    and ok: "list_all request_ok qs" "connection_wf c"
  shows "map_option action (pick (live (engine fw)) c) = policy app accepted c"
proof -
  let ?fs = "on_layers (v4_layers @ v6_layers) (self_filter app) @ concat (map (request_filters env) accepted)"
  have acc: "set accepted \<subseteq> set qs" and live: "live (engine fw) = ?fs"
    using serve_all_live[OF doc run] firewall_make_live[OF doc, of pid e] made by auto
  have h: "hits ?fs c w \<longleftrightarrow> w = 15 \<and> c_app c = app \<or> (\<exists>q \<in> set accepted.
      w = 4 \<and> tunnel_covers c q \<and> tunnel_excepts c q \<or> w = 3 \<and> (tunnel_covers c q \<or> ipv6_denied c q) \<or>
      w = 2 \<and> dns_allowed c q \<or> w = 1 \<and> dns_denied c q)" for w
  proof -
    have "hits (request_filters env q) c w \<longleftrightarrow>
        w = 4 \<and> tunnel_covers c q \<and> tunnel_excepts c q \<or> w = 3 \<and> (tunnel_covers c q \<or> ipv6_denied c q) \<or>
        w = 2 \<and> dns_allowed c q \<or> w = 1 \<and> dns_denied c q" if "q \<in> set accepted" for q
      using that acc ok env by (intro request_hits) (auto simp: list_all_iff)
    then show ?thesis
      unfolding hits_append hits_concat self_hits by (intro disj_cong bex_cong refl)
  qed
  have cl: "\<forall>f \<in> set ?fs. classed f"
    using classed_filters classed_self by fastforce
  have "hits ?fs c 15 \<longleftrightarrow> c_app c = app"
    and "hits ?fs c 4 \<longleftrightarrow> list_ex (\<lambda>q. tunnel_covers c q \<and> tunnel_excepts c q) accepted"
    and "hits ?fs c 3 \<longleftrightarrow> list_ex (\<lambda>q. tunnel_covers c q \<or> ipv6_denied c q) accepted"
    and "hits ?fs c 2 \<longleftrightarrow> list_ex (dns_allowed c) accepted" and "hits ?fs c 1 \<longleftrightarrow> list_ex (dns_denied c) accepted"
    unfolding h by (simp_all add: list_ex_iff)
  then show ?thesis
    unfolding live arbitration_cascade[OF pick cl] cascade_def policy_def wfp_weights by simp
qed

subsection \<open>The documented policy\<close>

text \<open>What the comments of the three operations promise, request by request: DNS goes to the allowed addresses only, IPv6 does not pass,
  and traffic to and from the included prefixes passes from the tunnel and, as the argument says, from the excluded ports;
  traffic of loopback is not blocked by the last one.\<close>

definition in_loopback :: "bytes \<Rightarrow> bool" where
  "in_loopback a \<longleftrightarrow> length a = 4 \<and> a ! 0 = 127 \<or> a = loopback6"

definition loopback_traffic :: "connection \<Rightarrow> bool" where
  "loopback_traffic c \<longleftrightarrow> in_loopback (c_local_address c) \<or> in_loopback (c_remote_address c)"

fun documented_blocks :: "connection \<Rightarrow> firewall_request \<Rightarrow> bool" where
  "documented_blocks c (Restrict_dns a4 a6) \<longleftrightarrow> is_dns c \<and> \<not> in_ranges (if is_v4 c then a4 else a6) (c_remote_address c)"
| "documented_blocks c Block_ipv6 \<longleftrightarrow> \<not> is_v4 c"
| "documented_blocks c (Block_untunneled t4 t6 i4 i6 ps) \<longleftrightarrow>
     in_ranges (if is_v4 c then i4 else i6) (c_remote_address c) \<and> \<not> loopback_traffic c \<and>
     \<not> cidr_contains_addr (if is_v4 c then t4 else t6) (c_local_address c) \<and> c_local_port c \<notin> set ps"

text \<open>What a request lets through by name: DNS to an allowed address, and included traffic that is in the tunnel, of loopback or of an
  excluded port.\<close>

fun documented_passes :: "connection \<Rightarrow> firewall_request \<Rightarrow> bool" where
  "documented_passes c (Restrict_dns a4 a6) \<longleftrightarrow> is_dns c \<and> in_ranges (if is_v4 c then a4 else a6) (c_remote_address c)"
| "documented_passes c Block_ipv6 \<longleftrightarrow> False"
| "documented_passes c (Block_untunneled t4 t6 i4 i6 ps) \<longleftrightarrow>
     in_ranges (if is_v4 c then i4 else i6) (c_remote_address c) \<and>
     (loopback_traffic c \<or> cidr_contains_addr (if is_v4 c then t4 else t6) (c_local_address c) \<or> c_local_port c \<in> set ps)"

fun is_untunneled :: "firewall_request \<Rightarrow> bool" where
  "is_untunneled (Block_untunneled t4 t6 i4 i6 ps) \<longleftrightarrow> True"
| "is_untunneled _ \<longleftrightarrow> False"

fun is_restrict_dns :: "firewall_request \<Rightarrow> bool" where
  "is_restrict_dns (Restrict_dns a4 a6) \<longleftrightarrow> True"
| "is_restrict_dns _ \<longleftrightarrow> False"

text \<open>The comments do not say what happens to a connection that one request lets through by name and another one blocks.  Requests
  agree on a connection when no tunnel lets it through while some request blocks it, and no DNS restriction allows it
  while another DNS restriction blocks it.\<close>

definition requests_agree :: "connection \<Rightarrow> firewall_request list \<Rightarrow> bool" where
  "requests_agree c qs \<longleftrightarrow>
     \<not> (list_ex (\<lambda>q. is_untunneled q \<and> documented_passes c q) qs \<and> list_ex (documented_blocks c) qs) \<and>
     \<not> (list_ex (\<lambda>q. is_restrict_dns q \<and> documented_passes c q) qs \<and>
        list_ex (\<lambda>q. is_restrict_dns q \<and> documented_blocks c q) qs)"

text \<open>The platform makes loopback connections from \<^verbatim>\<open>127.0.0.1\<close> and \<^verbatim>\<open>::1\<close>.\<close>

definition plain_loopback :: "connection \<Rightarrow> bool" where
  "plain_loopback c \<longleftrightarrow> (loopback_traffic c \<longrightarrow> c_local_address c = (if is_v4 c then loopback4 else loopback6))"

text \<open>Ranges made by the constructors; and with the ranges of a family come a tunnel address and at least one range of that family.\<close>

fun request_complete :: "firewall_request \<Rightarrow> bool" where
  "request_complete (Restrict_dns a4 a6) \<longleftrightarrow> list_all range_ok (a4 @ a6)"
| "request_complete Block_ipv6 \<longleftrightarrow> True"
| "request_complete (Block_untunneled t4 t6 i4 i6 ps) \<longleftrightarrow> list_all range_ok (t4 # t6 # i4 @ i6) \<and>
     (i4 \<noteq> [] \<longrightarrow> length (m_address t4) = 4 \<and> list_ex (\<lambda>r. length (m_address r) = 4) i4) \<and>
     (i6 \<noteq> [] \<longrightarrow> length (m_address t6) = 16 \<and> list_ex (\<lambda>r. length (m_address r) = 16) i6)"

lemma request_complete_ok: "request_complete q \<Longrightarrow> request_ok q"
  by (cases q) auto

lemma local_loopback:
  "c_local_address c = (if is_v4 c then loopback4 else loopback6) \<Longrightarrow> loopback_traffic c"
  by (auto simp: loopback_traffic_def in_loopback_def loopback4_def split: if_splits)

lemma documented_tunnel:
  assumes "request_complete q" "plain_loopback c"
  shows "is_untunneled q \<and> documented_blocks c q \<longleftrightarrow> tunnel_covers c q \<and> \<not> tunnel_excepts c q"
    "is_untunneled q \<and> documented_passes c q \<longleftrightarrow> tunnel_covers c q \<and> tunnel_excepts c q"
proof -
  have "loopback_traffic c \<longleftrightarrow> c_local_address c = (if is_v4 c then loopback4 else loopback6)"
    using assms(2) local_loopback by (auto simp: plain_loopback_def)
  moreover have "\<not> in_ranges [] a" for a
    by (simp add: in_ranges_def)
  ultimately show "is_untunneled q \<and> documented_blocks c q \<longleftrightarrow> tunnel_covers c q \<and> \<not> tunnel_excepts c q"
    "is_untunneled q \<and> documented_passes c q \<longleftrightarrow> tunnel_covers c q \<and> tunnel_excepts c q"
    using assms(1) by (cases q; auto)+
qed

lemma documented_dns:
  "is_restrict_dns q \<and> documented_blocks c q \<longleftrightarrow> dns_denied c q \<and> \<not> dns_allowed c q"
  "is_restrict_dns q \<and> documented_passes c q \<longleftrightarrow> dns_allowed c q"
  by (cases q; auto)+

lemma documented_kinds:
  "documented_blocks c q \<longleftrightarrow>
     is_untunneled q \<and> documented_blocks c q \<or> ipv6_denied c q \<or> is_restrict_dns q \<and> documented_blocks c q"
  "documented_passes c q \<longleftrightarrow> is_untunneled q \<and> documented_passes c q \<or> is_restrict_dns q \<and> documented_passes c q"
  by (cases q; auto simp: ipv6_denied_def)+

lemma policy_documented:
  assumes "list_all request_complete qs" "plain_loopback c" "requests_agree c qs"
  shows "policy app qs c =
    (if c_app c = app then Some FWP_ACTION_PERMIT
     else if list_ex (documented_blocks c) qs then Some FWP_ACTION_BLOCK
     else if list_ex (documented_passes c) qs then Some FWP_ACTION_PERMIT
     else None)"
proof -
  have t: "is_untunneled q \<and> documented_blocks c q \<longleftrightarrow> tunnel_covers c q \<and> \<not> tunnel_excepts c q"
      "is_untunneled q \<and> documented_passes c q \<longleftrightarrow> tunnel_covers c q \<and> tunnel_excepts c q" if "q \<in> set qs" for q
    using documented_tunnel[of q c] assms(1,2) that by (auto simp: list_all_iff)
  have b: "list_ex (documented_blocks c) qs \<longleftrightarrow> list_ex (\<lambda>q. tunnel_covers c q \<and> \<not> tunnel_excepts c q) qs \<or>
      list_ex (ipv6_denied c) qs \<or> list_ex (\<lambda>q. dns_denied c q \<and> \<not> dns_allowed c q) qs"
    unfolding list_ex_iff using t(1) documented_kinds(1)[of c] documented_dns(1)[of _ c] by metis
  have p: "list_ex (documented_passes c) qs \<longleftrightarrow>
      list_ex (\<lambda>q. tunnel_covers c q \<and> tunnel_excepts c q) qs \<or> list_ex (dns_allowed c) qs"
    unfolding list_ex_iff using t(2) documented_kinds(2)[of c] documented_dns(2)[of _ c] by metis
  have a: "\<not> (list_ex (\<lambda>q. tunnel_covers c q \<and> tunnel_excepts c q) qs \<and> list_ex (documented_blocks c) qs)"
      "\<not> (list_ex (dns_allowed c) qs \<and> list_ex (\<lambda>q. dns_denied c q \<and> \<not> dns_allowed c q) qs)"
    using assms(3) t(2) unfolding requests_agree_def documented_dns list_ex_iff by blast+
  have c: "list_ex (\<lambda>q. tunnel_covers c q \<or> ipv6_denied c q) qs \<longleftrightarrow>
      list_ex (\<lambda>q. tunnel_covers c q \<and> tunnel_excepts c q) qs \<or>
      list_ex (\<lambda>q. tunnel_covers c q \<and> \<not> tunnel_excepts c q) qs \<or> list_ex (ipv6_denied c) qs"
    unfolding list_ex_iff by blast
  have "dns_allowed c q \<Longrightarrow> dns_denied c q" for q
    by (cases q) auto
  then have d: "list_ex (dns_denied c) qs \<longleftrightarrow>
      list_ex (dns_allowed c) qs \<or> list_ex (\<lambda>q. dns_denied c q \<and> \<not> dns_allowed c q) qs"
    unfolding list_ex_iff by blast
  show ?thesis
    using a unfolding policy_def b p c d by (simp only: split: if_split) blast
qed

text \<open>C3: The firewall enforces the documented policy.  Once a firewall is made and has served any sequence of requests, whichever of them
  failed, the filters in force decide about every connection as the comments of the requests that succeeded promise: the
  program itself always passes; any other connection is blocked exactly when one of these requests documents that it
  blocks it (DNS, which is TCP or UDP to port 53, to an address that is not allowed; IPv6; traffic with an included prefix that
  is neither from the tunnel's addresses nor from an excluded port nor of loopback), passes when one lets it through by name, and is
  not decided otherwise.  This holds however the engine orders filters of equal weight, on the following conditions.  The
  ranges were made by the constructors, and a request that includes ranges of a family names a tunnel address and at least
  one range of that family.  The connection's addresses have the family of its layer, and if one of them is a loopback address
  then its local address is \<^verbatim>\<open>127.0.0.1\<close> or \<^verbatim>\<open>::1\<close>.  The requests agree on the connection: no tunnel lets it through by name
  while another request blocks it, and no DNS restriction allows it while another DNS restriction blocks it.\<close>

theorem firewall_enforces_policy:
  assumes doc: "wfp_documented api live txn" and pick: "wfp_arbitrates pick" and env: "inet_reads_loopback env"
    and made: "handle_valid (firewall_make api pid e)" "own_app_id api pid = Inr app"
    and run: "serve_all env api qs (firewall_make api pid e) = (fw, accepted)"
    and ok: "list_all request_complete qs" "connection_wf c" "plain_loopback c" "requests_agree c accepted"
  shows "map_option action (pick (live (engine fw)) c) =
    (if c_app c = app then Some FWP_ACTION_PERMIT
     else if list_ex (documented_blocks c) accepted then Some FWP_ACTION_BLOCK
     else if list_ex (documented_passes c) accepted then Some FWP_ACTION_PERMIT
     else None)"
proof -
  have "list_all request_ok qs" "list_all request_complete accepted"
    using ok(1) serve_all_live[OF doc run] request_complete_ok by (auto simp: list_all_iff)
  then show ?thesis
    using firewall_policy_verdict[OF doc pick env made run _ ok(2)] policy_documented[OF _ ok(3,4)] by simp
qed

text \<open>C23: All or nothing.  A request that fails leaves the filters in force as they were, and one that succeeds adds all of its filters; a
  firewall whose construction failed has no filter in force and answers every request with \<^verbatim>\<open>FE_NOT_INITIALIZED\<close> without touching
  the engine; and when a firewall is destroyed nothing of it remains in force.\<close>

theorem firewall_all_or_nothing:
  assumes doc: "wfp_documented api live txn" and fw: "serve_all env api qs (firewall_make api pid e) = (fw, accepted)"
    and q: "serve env api q fw = (fw', error)"
  shows "live (engine fw') = live (engine fw) @ (if error = None then request_filters env q else []) \<and>
    (\<not> handle_valid (firewall_make api pid e) \<longrightarrow>
      live (engine fw) = [] \<and> fw' = fw \<and> error = Some (FE_NOT_INITIALIZED, [])) \<and>
    live (firewall_destroy api fw') = []"
proof -
  have all: "handle_valid fw = handle_valid fw0 \<and> (\<not> handle_valid fw0 \<longrightarrow> fw = fw0)"
    if "serve_all env api qs fw0 = (fw, accepted)" for fw0
    using that
  proof (induction qs arbitrary: fw0 accepted)
    case (Cons p ps)
    obtain fw1 r where s: "serve env api p fw0 = (fw1, r)"
      by fastforce
    obtain fw2 acc where "serve_all env api ps fw1 = (fw2, acc)"
      by fastforce
    with Cons.prems s serve_live[OF doc s] Cons.IH[of fw1 acc] show ?case
      by (auto split: if_splits)
  qed simp
  have cl: "live (engine_close api x) = []" for x
    using doc unfolding wfp_documented_def by metis
  show ?thesis
    using serve_live[OF doc q] all[OF fw] firewall_make_live[OF doc, of pid e] cl
    by (cases "handle_valid fw") (auto simp: firewall_destroy_def)
qed

text \<open>An engine and a choice of filters to look at: every call succeeds, and the first filter of the greatest weight decides.\<close>

definition ex_api :: "(wfp_filter list \<times> wfp_filter list) wfp_api" where
  "ex_api = \<lparr>engine_open = (\<lambda>e. (([], []), 0)), engine_close = (\<lambda>e. ([], [])),
     transaction_begin = (\<lambda>(l, t). ((l, l), 0)), transaction_commit = (\<lambda>(l, t). ((t, t), 0)),
     transaction_abort = (\<lambda>(l, t). (l, l)), provider_add = (\<lambda>e. (e, 0)), sublayer_add = (\<lambda>e. (e, 0)),
     filter_add = (\<lambda>f (l, t). ((l, t @ [f]), 0)), process_image = (\<lambda>p. Inr ''other.exe''),
     module_file_name = Inr ''self.exe'', app_id_from_file_name = Inr\<rparr>"

lemma ex_api_documented: "wfp_documented ex_api fst snd"
  by (auto simp: wfp_documented_def ex_api_def)

fun heaviest :: "wfp_filter list \<Rightarrow> wfp_filter option" where
  "heaviest [] = None"
| "heaviest (f # fs) = (case heaviest fs of None \<Rightarrow> Some f | Some g \<Rightarrow> Some (if weight f < weight g then g else f))"

definition ex_pick :: "wfp_filter list \<Rightarrow> connection \<Rightarrow> wfp_filter option" where
  "ex_pick fs c = heaviest (filter (wfp_matches c) fs)"

lemma heaviest_max:
  "case heaviest fs of None \<Rightarrow> fs = [] | Some f \<Rightarrow> f \<in> set fs \<and> (\<forall>g \<in> set fs. weight g \<le> weight f)"
  by (induction fs) (auto split: option.splits)

lemma ex_pick_arbitrates: "wfp_arbitrates ex_pick"
  unfolding wfp_arbitrates_def
proof (intro allI)
  fix fs c
  show "case ex_pick fs c of None \<Rightarrow> \<forall>f \<in> set fs. \<not> wfp_matches c f
    | Some f \<Rightarrow> f \<in> set fs \<and> wfp_matches c f \<and> (\<forall>g \<in> set fs. wfp_matches c g \<longrightarrow> weight g \<le> weight f)"
    using heaviest_max[of "filter (wfp_matches c) fs"] by (auto simp: ex_pick_def filter_empty_conv split: option.splits)
qed

definition ex_env :: inet_env where
  "ex_env = \<lparr>inet_pton4 = (\<lambda>s. Some loopback4), inet_pton6 = (\<lambda>s. Some loopback6), inet_ntop4 = (\<lambda>b. []), inet_ntop6 = (\<lambda>b. []),
     errno_text = []\<rparr>"

lemma ex_env_loopback: "inet_reads_loopback ex_env"
  by (simp add: inet_reads_loopback_def ex_env_def)

lemma ex_api_made: "handle_valid (firewall_make ex_api 0 ([], [])) \<and> own_app_id ex_api 0 = Inr ''self.exe''"
  by (simp add: firewall_make_def run_transaction_def wfp_then_def wfp_call_def register_base_objects_def allow_self_def
    own_app_id_def own_module_name_def ex_api_def v4_layers_def v6_layers_def)

lemma ex_add: "add_to_layers ex_api f ls e = ((fst e, snd e @ on_layers ls f), None)"
  by (induction ls arbitrary: e) (auto simp: wfp_then_def wfp_call_def ex_api_def on_layers_def split: prod.splits)

lemma ex_serve:
  assumes "handle_valid fw"
  shows "\<exists>fw'. serve env ex_api q fw = (fw', None) \<and> handle_valid fw'"
proof -
  have t: "run_transaction ex_api func e = (let (e', r) = func (fst e, fst e) in if r = None then ((snd e', snd e'), None) else (transaction_abort ex_api e', r))"
    for func e
    by (auto simp: run_transaction_def wfp_then_def wfp_call_def ex_api_def split: prod.splits option.splits)
  show ?thesis
    using assms
    by (cases q)
      (auto simp: with_engine_def t restrict_dns_to_def block_ipv6_def block_untunneled_def block_untunneled_family_def
        Let_def wfp_then_def wfp_nothing_def ex_add)
qed

lemma ex_serve_all:
  assumes "handle_valid fw"
  shows "\<exists>fw'. serve_all env ex_api qs fw = (fw', qs)"
  using assms
proof (induction qs arbitrary: fw)
  case (Cons q qs)
  then show ?case
    using ex_serve[OF Cons.prems, of env q] by fastforce
qed simp

definition ex_requests :: "firewall_request list" where
  "ex_requests = [Restrict_dns [cidr_init [8, 8, 8, 8] 32] [],
     Block_untunneled (cidr_init [10, 1, 0, 2] 32) cidr_blank [cidr_init [10, 0, 0, 0] 8] [] [5000]]"

text \<open>A connection of another program over UDP.\<close>

definition ex_connection :: "bytes \<Rightarrow> u16 \<Rightarrow> bytes \<Rightarrow> u16 \<Rightarrow> connection" where
  "ex_connection remote rport local lport = \<lparr>c_layer = ALE_AUTH_CONNECT_V4, c_app = ''dns.exe'', c_protocol = 17,
     c_remote_port = rport, c_local_port = lport, c_remote_address = remote, c_local_address = local\<rparr>"

lemma ex_requests_complete: "list_all request_complete ex_requests"
proof -
  have "cidr_wf (cidr_init [8, 8, 8, 8] 32)" "cidr_wf (cidr_init [10, 1, 0, 2] 32)" "cidr_wf (cidr_init [10, 0, 0, 0] 8)"
    by (simp_all add: cidr_init_wf)
  then show ?thesis
    by (simp add: ex_requests_def range_ok_def cidr_blank_def cidr_init_def Let_def)
qed

theorem firewall_enforces_policy_witness:
  "\<exists>fw. serve_all ex_env ex_api ex_requests (firewall_make ex_api 0 ([], [])) = (fw, ex_requests) \<and>
     map_option action (ex_pick (fst (engine fw)) (ex_connection [9, 9, 9, 9] 53 [192, 168, 0, 5] 4000)) = Some FWP_ACTION_BLOCK \<and>
     map_option action (ex_pick (fst (engine fw)) (ex_connection [8, 8, 8, 8] 53 [192, 168, 0, 5] 4000)) = Some FWP_ACTION_PERMIT \<and>
     map_option action (ex_pick (fst (engine fw)) (ex_connection [10, 9, 9, 9] 80 [192, 168, 0, 5] 4000)) = Some FWP_ACTION_BLOCK \<and>
     map_option action (ex_pick (fst (engine fw)) (ex_connection [10, 9, 9, 9] 80 [10, 1, 0, 2] 4000)) = Some FWP_ACTION_PERMIT \<and>
     map_option action (ex_pick (fst (engine fw)) (ex_connection [9, 9, 9, 9] 80 [192, 168, 0, 5] 4000)) = None"
proof -
  obtain fw where fw: "serve_all ex_env ex_api ex_requests (firewall_make ex_api 0 ([], [])) = (fw, ex_requests)"
    using ex_serve_all ex_api_made by blast
  have w: "connection_wf (ex_connection [a, b, c, d] p [f, g, h, i] q)" for a b c d p f g h i q
    by (simp add: connection_wf_def ex_connection_def is_v4_def v4_layers_def)
  have l: "plain_loopback (ex_connection [9, 9, 9, 9] 53 [192, 168, 0, 5] 4000)"
    "plain_loopback (ex_connection [8, 8, 8, 8] 53 [192, 168, 0, 5] 4000)"
    "plain_loopback (ex_connection [10, 9, 9, 9] 80 [192, 168, 0, 5] 4000)"
    "plain_loopback (ex_connection [10, 9, 9, 9] 80 [10, 1, 0, 2] 4000)"
    "plain_loopback (ex_connection [9, 9, 9, 9] 80 [192, 168, 0, 5] 4000)"
    by code_simp+
  have a: "requests_agree (ex_connection [9, 9, 9, 9] 53 [192, 168, 0, 5] 4000) ex_requests"
    "requests_agree (ex_connection [8, 8, 8, 8] 53 [192, 168, 0, 5] 4000) ex_requests"
    "requests_agree (ex_connection [10, 9, 9, 9] 80 [192, 168, 0, 5] 4000) ex_requests"
    "requests_agree (ex_connection [10, 9, 9, 9] 80 [10, 1, 0, 2] 4000) ex_requests"
    "requests_agree (ex_connection [9, 9, 9, 9] 80 [192, 168, 0, 5] 4000) ex_requests"
    by code_simp+
  have b: "list_ex (documented_blocks (ex_connection [9, 9, 9, 9] 53 [192, 168, 0, 5] 4000)) ex_requests"
    "\<not> list_ex (documented_blocks (ex_connection [8, 8, 8, 8] 53 [192, 168, 0, 5] 4000)) ex_requests"
    "list_ex (documented_passes (ex_connection [8, 8, 8, 8] 53 [192, 168, 0, 5] 4000)) ex_requests"
    "list_ex (documented_blocks (ex_connection [10, 9, 9, 9] 80 [192, 168, 0, 5] 4000)) ex_requests"
    "\<not> list_ex (documented_blocks (ex_connection [10, 9, 9, 9] 80 [10, 1, 0, 2] 4000)) ex_requests"
    "list_ex (documented_passes (ex_connection [10, 9, 9, 9] 80 [10, 1, 0, 2] 4000)) ex_requests"
    "\<not> list_ex (documented_blocks (ex_connection [9, 9, 9, 9] 80 [192, 168, 0, 5] 4000)) ex_requests"
    "\<not> list_ex (documented_passes (ex_connection [9, 9, 9, 9] 80 [192, 168, 0, 5] 4000)) ex_requests"
    by code_simp+
  have other: "c_app (ex_connection r p l q) \<noteq> ''self.exe''" for r p l q
    by (simp add: ex_connection_def)
  note v = firewall_enforces_policy[OF ex_api_documented ex_pick_arbitrates ex_env_loopback ex_api_made[THEN conjunct1]
      ex_api_made[THEN conjunct2] fw ex_requests_complete w]
  show ?thesis
    using fw v[OF l(1) a(1)] v[OF l(2) a(2)] v[OF l(3) a(3)] v[OF l(4) a(4)] v[OF l(5) a(5)] b other
    by (intro exI[of _ fw]) simp
qed

theorem firewall_all_or_nothing_witness:
  "\<exists>fw. serve ex_env ex_api Block_ipv6 (firewall_make ex_api 0 ([], [])) = (fw, None) \<and>
     fst (engine fw) = fst (engine (firewall_make ex_api 0 ([], []))) @ request_filters ex_env Block_ipv6 \<and>
     fst (firewall_destroy ex_api fw) = []"
proof -
  obtain fw where fw: "serve ex_env ex_api Block_ipv6 (firewall_make ex_api 0 ([], [])) = (fw, None)"
    using ex_serve ex_api_made by blast
  with firewall_all_or_nothing[OF ex_api_documented _ fw, of "[]" 0 "([], [])" "[]"] show ?thesis
    by (intro exI[of _ fw]) simp
qed

text \<open>Also: ranges of the wrong family.  A request that names a tunnel address and ranges, none of which has the family of the tunnel
  address, adds a filter with no condition: it blocks all traffic of that family to which no exception applies, although no
  address was named.\<close>

theorem untunneled_no_range_blocks:
  assumes pick: "wfp_arbitrates pick" and c: "is_v4 c" "c_app c \<noteq> app"
    and q: "q = Block_untunneled t4 t6 i4 [] []" "length (m_address t4) = 4" "i4 \<noteq> []" "\<forall>r \<in> set i4. length (m_address r) \<noteq> 4"
    and loc: "range_ok t4" "\<not> cidr_contains_addr t4 (c_local_address c)" "c_local_address c \<noteq> loopback4" "inet_reads_loopback env"
  shows "map_option action (pick (on_layers (v4_layers @ v6_layers) (self_filter app) @ request_filters env q) c) = Some FWP_ACTION_BLOCK"
    (is "map_option action (pick ?fs c) = _")
proof -
  have n: "v4_range_conditions IP_REMOTE_ADDRESS i4 = []"
    using q(4) by (simp add: v4_range_conditions_def filter_empty_conv)
  have cl: "\<forall>f \<in> set ?fs. classed f"
    using classed_filters classed_self by fastforce
  have h: "hits ?fs c w \<longleftrightarrow> w = 15 \<and> c_app c = app \<or> w = 3" for w
    unfolding hits_append self_hits q(1) request_filters.simps n untunneled_filters_def
    using q(2,3) c(1) tunnel_matches(1)[OF loc(1) q(2), of "c_local_address c"] loc(2,3)
    by (auto simp: hits_simps layers_of_family wfp_weights local_match loopback_literals[OF loc(4)] loopback_matches
      conditions_match_def[of c "[]"])
  show ?thesis
    unfolding arbitration_cascade[OF pick cl] cascade_def wfp_weights h using c by simp
qed

text \<open>Also: how the restrictions combine.  The exceptions of a tunnel outweigh the other restrictions: with all addresses routed through the
  tunnel, DNS traffic from the tunnel's address passes to any server although DNS was restricted to none; and loopback means the
  one address \<^verbatim>\<open>127.0.0.1\<close>, so that traffic between other addresses of the loopback network is blocked.\<close>

theorem policies_combine:
  "let tunnel = Block_untunneled (cidr_init [10, 1, 0, 2] 32) cidr_blank [cidr_init [0, 0, 0, 0] 0] [] []
   in policy ''self.exe'' [Restrict_dns [] [], tunnel] (ex_connection [9, 9, 9, 9] 53 [10, 1, 0, 2] 4000) = Some FWP_ACTION_PERMIT \<and>
      policy ''self.exe'' [tunnel] (ex_connection [127, 0, 0, 1] 80 [127, 0, 0, 1] 4000) = Some FWP_ACTION_PERMIT \<and>
      policy ''self.exe'' [tunnel] (ex_connection [127, 0, 0, 2] 80 [127, 0, 0, 2] 4000) = Some FWP_ACTION_BLOCK"
  by code_simp

end
