(* ===== verification/Regex.thy ===== *)
theory Regex
  imports Errors StringUtils
begin

text \<open>
  The regular expressions of \<^verbatim>\<open>common/regex.h\<close> and \<^verbatim>\<open>common/regex.cpp\<close>: compiling, matching, replacing once and until nothing is
  left to replace, the expression that is compiled when it is first used, the shortcut that is looked for first, and the
  wrapper that reports errors as no result.  The PCRE2 library is a parameter; what is documented of its substitution
  is \<^verbatim>\<open>pcre2_substitutes\<close>.
\<close>

unbundle bit_operations_syntax

section \<open>Model\<close>

subsection \<open>The library\<close>

text \<open>A match gives the return value and the vector of offsets; a substitution gives the return value, the length it reports and
  what it wrote to the buffer, whose size is its last argument.  The text of an error comes with the return value and the buffer.\<close>

record ('re, 'cc, 'mc) pcre2 =
  pcre2_compile :: "string \<Rightarrow> u32 \<Rightarrow> 'cc option \<Rightarrow> (int \<times> nat) + 're"
  pcre2_match :: "'re \<Rightarrow> string \<Rightarrow> nat \<Rightarrow> u32 \<Rightarrow> 'mc option \<Rightarrow> int \<times> nat list"
  pcre2_substitute :: "'re \<Rightarrow> string \<Rightarrow> u32 \<Rightarrow> 'mc option \<Rightarrow> string \<Rightarrow> nat \<Rightarrow> int \<times> nat \<times> string"
  pcre2_get_error_message :: "int \<Rightarrow> int \<times> string"

definition PCRE2_ERROR_NOMATCH :: int where "PCRE2_ERROR_NOMATCH = -1"
definition PCRE2_ERROR_PARTIAL :: int where "PCRE2_ERROR_PARTIAL = -2"
definition PCRE2_ERROR_BADDATA :: int where "PCRE2_ERROR_BADDATA = -29"
definition PCRE2_ERROR_NOMEMORY :: int where "PCRE2_ERROR_NOMEMORY = -48"
definition PCRE2_SUBSTITUTE_GLOBAL :: u32 where "PCRE2_SUBSTITUTE_GLOBAL = 0x100"
definition PCRE2_SUBSTITUTE_EXTENDED :: u32 where "PCRE2_SUBSTITUTE_EXTENDED = 0x200"
definition PCRE2_SUBSTITUTE_UNSET_EMPTY :: u32 where "PCRE2_SUBSTITUTE_UNSET_EMPTY = 0x400"
definition PCRE2_SUBSTITUTE_OVERFLOW_LENGTH :: u32 where "PCRE2_SUBSTITUTE_OVERFLOW_LENGTH = 0x1000"

subsection \<open>Errors\<close>

text \<open>The buffer for the text has 256 places, the last one for the null.\<close>

definition pcre2_error_to_string :: "('re, 'cc, 'mc) pcre2 \<Rightarrow> int \<Rightarrow> string" where
  "pcre2_error_to_string api code =
     (let (ret, error_message) = pcre2_get_error_message api code
      in if ret = PCRE2_ERROR_BADDATA
         then ''Unknown error code: '' @ (if code < 0 then ''-'' else []) @ dec (nat \<bar>code\<bar>)
         else if ret = PCRE2_ERROR_NOMEMORY
         then take 252 error_message @ ''...'' @ drop 255 error_message
         else take (nat ret) error_message)"

record regex_compile_error =
  ce_pattern :: string
  ce_error :: int
  ce_offset :: nat

definition c_string :: "string \<Rightarrow> string" where
  "c_string s = takeWhile (\<lambda>ch. ch \<noteq> CHR 0x00) s"

definition compile_error_to_string :: "('re, 'cc, 'mc) pcre2 \<Rightarrow> regex_compile_error \<Rightarrow> string" where
  "compile_error_to_string api e =
     c_string (pcre2_error_to_string api (ce_error e)) @ '' (offset = '' @ dec (ce_offset e) @ '')'' @ [CHR 0x0A, CHR 0x09, CHR 0x09] @
     c_string (ce_pattern e) @ [CHR 0x0A, CHR 0x09, CHR 0x09] @ replicate (ce_offset e) CHR '' '' @ ''^''"

subsection \<open>Compiling and matching\<close>

definition regex_compile ::
  "('re, 'cc, 'mc) pcre2 \<Rightarrow> string \<Rightarrow> u32 \<Rightarrow> 'cc option \<Rightarrow> regex_compile_error + 're" where
  "regex_compile api regex options compile_context =
     (case pcre2_compile api regex options compile_context of
        Inl (err, off) \<Rightarrow> Inl \<lparr>ce_pattern = regex, ce_error = err, ce_offset = off\<rparr>
      | Inr re \<Rightarrow> Inr re)"

datatype match_result = RegexMatch "(nat \<times> nat) list" | RegexNoMatch | RegexMatchError int

definition regex_match ::
  "('re, 'cc, 'mc) pcre2 \<Rightarrow> 're \<Rightarrow> string \<Rightarrow> u32 \<Rightarrow> nat \<Rightarrow> 'mc option \<Rightarrow> match_result" where
  "regex_match api re txt options start_offset mcontext =
     (let (res, offsets) = pcre2_match api re txt start_offset options mcontext;
          matched_groups = (if res > 0 then map (\<lambda>group. (offsets ! (group * 2), offsets ! (group * 2 + 1))) [0..<nat res] else [])
      in if res \<ge> 0 then RegexMatch matched_groups
         else if res = PCRE2_ERROR_NOMATCH \<or> res = PCRE2_ERROR_PARTIAL then RegexNoMatch
         else RegexMatchError res)"

text \<open>\<^verbatim>\<open>substr\<close> raises when it starts after the end: \<^const>\<open>None\<close>.\<close>

definition substr_checked :: "string \<Rightarrow> nat \<Rightarrow> nat \<Rightarrow> string option" where
  "substr_checked s pos n = (if pos > length s then None else Some (take n (drop pos s)))"

definition group_substr :: "(nat \<times> nat) list \<Rightarrow> string \<Rightarrow> nat \<Rightarrow> string option" where
  "group_substr match_groups txt group_id =
     (if group_id \<ge> length match_groups then Some []
      else let (b, e) = match_groups ! group_id
           in Option.bind (substr_checked txt 0 e) (\<lambda>s. substr_checked s b (length s)))"

subsection \<open>Replacing\<close>

text \<open>The bytes of a string after a callee wrote to its buffer, and \<^verbatim>\<open>std::string::resize\<close>.\<close>

definition written_over :: "string \<Rightarrow> string \<Rightarrow> string" where
  "written_over buf w = take (length buf) (w @ drop (length w) buf)"

definition str_resize :: "string \<Rightarrow> nat \<Rightarrow> string" where
  "str_resize s n = take n s @ replicate (n - length s) CHR 0x00"

definition regex_replace ::
  "('re, 'cc, 'mc) pcre2 \<Rightarrow> 're \<Rightarrow> u32 \<Rightarrow> string \<Rightarrow> string \<Rightarrow> 'mc option \<Rightarrow> int + nat \<times> string" where
  "regex_replace api re options pattern replace_expression match_context =
     (let result = replicate (length pattern) CHR 0x00;
          opts = options OR PCRE2_SUBSTITUTE_OVERFLOW_LENGTH;
          (retval, result_length, w) =
            pcre2_substitute api re pattern opts match_context replace_expression (length result + 1);
          result = written_over result w;
          (retval, result_length, result) =
            (if retval = PCRE2_ERROR_NOMEMORY
             then (let result = str_resize result result_length;
                       (retval, len, w) = pcre2_substitute api re pattern opts None replace_expression result_length
                   in (retval, len, written_over result w))
             else (retval, result_length, result))
      in if retval < 0 then Inl retval
         else Inr (nat retval, str_resize result result_length))"

partial_function (option) regex_replace_all ::
  "('re, 'cc, 'mc) pcre2 \<Rightarrow> 're \<Rightarrow> u32 \<Rightarrow> string \<Rightarrow> string \<Rightarrow> 'mc option \<Rightarrow> (int + string) option" where
  "regex_replace_all api re options pattern replace_expression match_context =
     (case regex_replace api re options pattern replace_expression match_context of
        Inl err \<Rightarrow> Some (Inl err)
      | Inr (substitutions_number, s) \<Rightarrow>
          if substitutions_number = 0 then Some (Inr s)
          else regex_replace_all api re options s replace_expression match_context)"

subsection \<open>Compiling on first use\<close>

datatype ('re, 'cc) lazy_regex = Uncompiled string u32 "'cc option" | Compiled 're

text \<open>\<^verbatim>\<open>compile\<close> gives the error, if any, and the state after it.\<close>

fun lazy_compile :: "('re, 'cc, 'mc) pcre2 \<Rightarrow> ('re, 'cc) lazy_regex \<Rightarrow> regex_compile_error option \<times> ('re, 'cc) lazy_regex" where
  "lazy_compile api (Uncompiled txt options cc) =
     (case regex_compile api txt options cc of
        Inl e \<Rightarrow> (Some e, Uncompiled txt options cc)
      | Inr re \<Rightarrow> (None, Compiled re))"
| "lazy_compile api (Compiled re) = (None, Compiled re)"

definition lazy_get :: "('re, 'cc, 'mc) pcre2 \<Rightarrow> ('re, 'cc) lazy_regex \<Rightarrow> 're option \<times> ('re, 'cc) lazy_regex" where
  "lazy_get api l =
     (case lazy_compile api l of
        (Some e, l') \<Rightarrow> (None, l')
      | (None, l') \<Rightarrow> ((case l' of Compiled re \<Rightarrow> Some re | _ \<Rightarrow> None), l'))"

definition lazy_match ::
  "('re, 'cc, 'mc) pcre2 \<Rightarrow> string \<Rightarrow> u32 \<Rightarrow> nat \<Rightarrow> 'mc option \<Rightarrow> ('re, 'cc) lazy_regex \<Rightarrow>
   (regex_compile_error + match_result) \<times> ('re, 'cc) lazy_regex" where
  "lazy_match api txt options start_offset mcontext l =
     (case lazy_compile api l of
        (Some e, l') \<Rightarrow> (Inl e, l')
      | (None, l') \<Rightarrow>
          (case lazy_get api l' of
             (Some re, l'') \<Rightarrow> (Inr (regex_match api re txt options start_offset mcontext), l'')
           | (None, l'') \<Rightarrow> (Inr RegexNoMatch, l'')))"

subsection \<open>The shortcut\<close>

text \<open>The template takes any expression; \<^verbatim>\<open>no_match\<close> is its result for no match, \<^verbatim>\<open>m\<close> its \<^verbatim>\<open>match\<close>.\<close>

definition shortcut_found :: "bool \<Rightarrow> string \<Rightarrow> string \<Rightarrow> bool" where
  "shortcut_found case_sensitive shortcut txt \<longleftrightarrow>
     \<not> ((case_sensitive \<and> sv_find txt shortcut 0 = None) \<or> (\<not> case_sensitive \<and> ifind txt shortcut = None))"

definition shortcutted_match :: "bool \<Rightarrow> string \<Rightarrow> 'r \<Rightarrow> (string \<Rightarrow> 's \<Rightarrow> 'r \<times> 's) \<Rightarrow> string \<Rightarrow> 's \<Rightarrow> 'r \<times> 's" where
  "shortcutted_match case_sensitive shortcut no_match m txt s =
     (if \<not> shortcut_found case_sensitive shortcut txt then (no_match, s) else m txt s)"

subsection \<open>Without errors\<close>

definition simple_compile_regex :: "('re, 'cc, 'mc) pcre2 \<Rightarrow> string \<Rightarrow> u32 \<Rightarrow> 're option" where
  "simple_compile_regex api txt options = (case regex_compile api txt options None of Inl e \<Rightarrow> None | Inr re \<Rightarrow> Some re)"

definition simple_match :: "('re, 'cc, 'mc) pcre2 \<Rightarrow> 're option \<Rightarrow> string \<Rightarrow> bool" where
  "simple_match api m_re str =
     (case m_re of
        None \<Rightarrow> False
      | Some re \<Rightarrow> (case regex_match api re str 0 0 None of RegexMatch g \<Rightarrow> True | _ \<Rightarrow> False))"

definition simple_replace :: "('re, 'cc, 'mc) pcre2 \<Rightarrow> 're option \<Rightarrow> string \<Rightarrow> string \<Rightarrow> string option" where
  "simple_replace api m_re subject replacement =
     (case m_re of
        None \<Rightarrow> None
      | Some re \<Rightarrow>
          (let options = PCRE2_SUBSTITUTE_GLOBAL OR PCRE2_SUBSTITUTE_UNSET_EMPTY OR PCRE2_SUBSTITUTE_EXTENDED
           in case regex_replace api re options subject replacement None of
                Inl e \<Rightarrow> None
              | Inr (n, s) \<Rightarrow> Some s))"

text \<open>Moving exchanges the two objects.\<close>

definition simple_move_assign :: "'re option \<Rightarrow> 're option \<Rightarrow> 're option \<times> 're option" where
  "simple_move_assign self other = (other, self)"

section \<open>Replacing\<close>

text \<open>What is documented of the substitution when the length is asked for: an outcome that does not depend on the buffer, given if it
  and a null fit, and its length, with the null, if not.\<close>

definition pcre2_substitutes ::
  "('re, 'cc, 'mc) pcre2 \<Rightarrow> ('re \<Rightarrow> string \<Rightarrow> u32 \<Rightarrow> 'mc option \<Rightarrow> string \<Rightarrow> int + nat \<times> string) \<Rightarrow> bool" where
  "pcre2_substitutes api outcome \<longleftrightarrow> (\<forall>re subject options mc repl size.
     options AND PCRE2_SUBSTITUTE_OVERFLOW_LENGTH = PCRE2_SUBSTITUTE_OVERFLOW_LENGTH \<longrightarrow>
     (case outcome re subject options mc repl of
        Inl err \<Rightarrow> err < 0 \<and> err \<noteq> PCRE2_ERROR_NOMEMORY \<and> fst (pcre2_substitute api re subject options mc repl size) = err
      | Inr (n, s) \<Rightarrow>
          if length s + 1 \<le> size then pcre2_substitute api re subject options mc repl size = (int n, length s, s @ [CHR 0x00])
          else \<exists>w. pcre2_substitute api re subject options mc repl size = (PCRE2_ERROR_NOMEMORY, length s + 1, w)))"

lemma written_result: "length s \<le> length buf \<Longrightarrow> str_resize (written_over buf (s @ [CHR 0x00])) (length s) = s"
  by (auto simp: str_resize_def written_over_def min_def)

lemma str_resize_length [simp]: "length (str_resize s n) = n"
  by (simp add: str_resize_def)

text \<open>What the two calls give together: the second has no match context.\<close>

lemma regex_replace_cases:
  fixes options :: u32
  assumes doc: "pcre2_substitutes api outcome"
  defines "opts \<equiv> options OR PCRE2_SUBSTITUTE_OVERFLOW_LENGTH"
  shows "regex_replace api re options p r mc =
    (case outcome re p opts mc r of
       Inl err \<Rightarrow> Inl err
     | Inr (n, s) \<Rightarrow>
         if length s \<le> length p then Inr (n, s)
         else case outcome re p opts None r of
           Inl err \<Rightarrow> Inl err
         | Inr (n', s') \<Rightarrow> if length s' \<le> length s then Inr (n', s') else Inl PCRE2_ERROR_NOMEMORY)"
proof -
  have o: "opts AND PCRE2_SUBSTITUTE_OVERFLOW_LENGTH = PCRE2_SUBSTITUTE_OVERFLOW_LENGTH"
    by (auto simp: opts_def bit_eq_iff bit_simps)
  note d = doc[unfolded pcre2_substitutes_def, rule_format, OF o]
  have nm: "PCRE2_ERROR_NOMEMORY < 0"
    by (simp add: PCRE2_ERROR_NOMEMORY_def)
  show ?thesis
  proof (cases "outcome re p opts mc r")
    case (Inl err)
    then show ?thesis
      using d[of re p mc r "length p + 1"] by (auto simp: regex_replace_def opts_def[symmetric] Let_def split: prod.splits)
  next
    case (Inr ns)
    obtain n s where ns: "ns = (n, s)"
      by fastforce
    show ?thesis
    proof (cases "length s \<le> length p")
      case True
      have "int n \<noteq> PCRE2_ERROR_NOMEMORY"
        using nm by linarith
      then show ?thesis
        using True Inr ns d[of re p mc r "length p + 1"] written_result[of s "replicate (length p) CHR 0x00"]
        by (simp add: regex_replace_def opts_def[symmetric])
    next
      case False
      obtain w where w: "pcre2_substitute api re p opts mc r (length p + 1) = (PCRE2_ERROR_NOMEMORY, length s + 1, w)"
        using False Inr ns d[of re p mc r "length p + 1"] by auto
      show ?thesis
      proof (cases "outcome re p opts None r")
        case (Inl err)
        then show ?thesis
          using False Inr ns w d[of re p None r "length s + 1"]
          by (auto simp: regex_replace_def opts_def[symmetric] Let_def split: prod.splits)
      next
        case (Inr ns')
        obtain n' s' where ns': "ns' = (n', s')"
          by fastforce
        show ?thesis
          using \<open>outcome re p opts mc r = Inr ns\<close> False Inr ns ns' w d[of re p None r "length s + 1"] nm
            written_result[of s' "str_resize (written_over (replicate (length p) CHR 0x00) w) (length s + 1)"]
          by (auto simp: regex_replace_def opts_def[symmetric] Let_def)
      qed
    qed
  qed
qed

lemma regex_replace_outcome:
  assumes "pcre2_substitutes api outcome"
    and "mc = None \<or> (\<forall>n s. outcome re p (options OR PCRE2_SUBSTITUTE_OVERFLOW_LENGTH) mc r = Inr (n, s) \<longrightarrow> length s \<le> length p)"
  shows "regex_replace api re options p r mc = outcome re p (options OR PCRE2_SUBSTITUTE_OVERFLOW_LENGTH) mc r"
  using assms(2) by (auto simp: regex_replace_cases[OF assms(1)] split: sum.splits prod.splits)

text \<open>Also: Replacing gives the outcome that the library defines, whole and with nothing after it, whatever its length, when there is no
  match context: the buffer of the size of the subject is tried first and enlarged to the reported length.  With a match
  context this holds for results that are no longer than the subject.\<close>

theorem regex_replace_correct:
  assumes "pcre2_substitutes api outcome"
    and "mc = None \<or> (\<forall>n s. outcome re p (options OR PCRE2_SUBSTITUTE_OVERFLOW_LENGTH) mc r = Inr (n, s) \<longrightarrow> length s \<le> length p)"
  shows "regex_replace api re options p r mc = outcome re p (options OR PCRE2_SUBSTITUTE_OVERFLOW_LENGTH) mc r"
  using assms by (rule regex_replace_outcome)

text \<open>A library to look at: it replaces every letter \<^verbatim>\<open>a\<close>, and gives up under a match context.\<close>

definition ex_outcome :: "unit \<Rightarrow> string \<Rightarrow> u32 \<Rightarrow> unit option \<Rightarrow> string \<Rightarrow> int + nat \<times> string" where
  "ex_outcome re subject options mc repl =
     Inr (length (filter (\<lambda>ch. ch = CHR ''a'') subject), concat (map (\<lambda>ch. if ch = CHR ''a'' then repl else [ch]) subject))"

definition ex_pcre2 ::
  "(unit \<Rightarrow> string \<Rightarrow> u32 \<Rightarrow> unit option \<Rightarrow> string \<Rightarrow> int + nat \<times> string) \<Rightarrow> (unit, unit, unit) pcre2" where
  "ex_pcre2 outcome = \<lparr>pcre2_compile = (\<lambda>t opts cc. if t = ''a'' then Inr () else Inl (101, 0)),
     pcre2_match = (\<lambda>re t off opts mc. if CHR ''a'' \<in> set t then (1, [0, 1]) else (-1, [])),
     pcre2_substitute = (\<lambda>re t opts mc r size. case outcome re t opts mc r of
        Inl e \<Rightarrow> (e, 0, [])
      | Inr (n, s) \<Rightarrow> if length s + 1 \<le> size then (int n, length s, s @ [CHR 0x00]) else (PCRE2_ERROR_NOMEMORY, length s + 1, [])),
     pcre2_get_error_message = (\<lambda>e. (5, ''error''))\<rparr>"

lemma ex_pcre2_substitutes:
  "(\<And>re t opts mc r e. outcome re t opts mc r = Inl e \<Longrightarrow> e < 0 \<and> e \<noteq> PCRE2_ERROR_NOMEMORY) \<Longrightarrow>
   pcre2_substitutes (ex_pcre2 outcome) outcome"
  by (auto simp: pcre2_substitutes_def ex_pcre2_def split: sum.splits)

theorem regex_replace_correct_witness:
  "regex_replace (ex_pcre2 ex_outcome) () 0 ''banana'' ''oo'' None = Inr (3, ''boonoonoo'')"
proof -
  have "pcre2_substitutes (ex_pcre2 ex_outcome) ex_outcome"
    by (rule ex_pcre2_substitutes) (simp add: ex_outcome_def)
  from regex_replace_correct[OF this, of None] show ?thesis
    by (simp add: ex_outcome_def)
qed

text \<open>Also: the second call drops the match context.  When a result does not fit at first, it is computed without the limits that the
  caller set: here a context under which the third letter is not reached.\<close>

definition ex_limited :: "unit \<Rightarrow> string \<Rightarrow> u32 \<Rightarrow> unit option \<Rightarrow> string \<Rightarrow> int + nat \<times> string" where
  "ex_limited re subject options mc repl =
     (let n = (if mc = None then length subject else 2)
      in Inr (n, concat (replicate n repl) @ drop n subject))"

theorem replace_drops_context:
  "pcre2_substitutes (ex_pcre2 ex_limited) ex_limited \<and>
   ex_limited () ''abcd'' PCRE2_SUBSTITUTE_OVERFLOW_LENGTH (Some ()) ''x'' = Inr (2, ''xxcd'') \<and>
   regex_replace (ex_pcre2 ex_limited) () 0 ''abcd'' ''x'' (Some ()) = Inr (2, ''xxcd'') \<and>
   ex_limited () ''abcd'' PCRE2_SUBSTITUTE_OVERFLOW_LENGTH (Some ()) ''xyz'' = Inr (2, ''xyzxyzcd'') \<and>
   regex_replace (ex_pcre2 ex_limited) () 0 ''abcd'' ''xyz'' (Some ()) \<noteq> Inr (2, ''xyzxyzcd'')"
proof -
  have d: "pcre2_substitutes (ex_pcre2 ex_limited) ex_limited"
    by (rule ex_pcre2_substitutes) (simp add: ex_limited_def Let_def)
  then show ?thesis
    by (simp add: regex_replace_cases[OF d] ex_limited_def numeral_eq_Suc)
qed

subsection \<open>Until nothing is left\<close>

text \<open>What the library gives for a text, without a match context.\<close>

definition substituted ::
  "('re \<Rightarrow> string \<Rightarrow> u32 \<Rightarrow> 'mc option \<Rightarrow> string \<Rightarrow> int + nat \<times> string) \<Rightarrow> 're \<Rightarrow> u32 \<Rightarrow> string \<Rightarrow> string \<Rightarrow> int + nat \<times> string" where
  "substituted outcome re options r s = outcome re s (options OR PCRE2_SUBSTITUTE_OVERFLOW_LENGTH) None r"

text \<open>One replacement that replaced something, by the outcome of the library, and the end: an error, or nothing replaced.\<close>

definition replaces_to :: "(string \<Rightarrow> int + nat \<times> string) \<Rightarrow> string \<Rightarrow> string \<Rightarrow> bool" where
  "replaces_to once s t \<longleftrightarrow> (\<exists>n. once s = Inr (n, t) \<and> n \<noteq> 0)"

definition replacing_ends :: "(string \<Rightarrow> int + nat \<times> string) \<Rightarrow> string \<Rightarrow> int + string \<Rightarrow> bool" where
  "replacing_ends once s y \<longleftrightarrow> (case y of Inl e \<Rightarrow> once s = Inl e | Inr t \<Rightarrow> once s = Inr (0, t))"

lemma replace_all_chain:
  assumes once: "\<And>p. regex_replace api re options p r mc = once p" and chain: "(replaces_to once)\<^sup>*\<^sup>* p q"
  shows "regex_replace_all api re options p r mc = regex_replace_all api re options q r mc"
  using chain
proof (induction rule: rtranclp_induct)
  case (step q q')
  have "regex_replace_all api re options q r mc = regex_replace_all api re options q' r mc"
    using step(2) by (subst regex_replace_all.simps) (auto simp: once replaces_to_def)
  then show ?case
    using step.IH by simp
qed simp

lemma replace_all_end:
  assumes once: "\<And>p. regex_replace api re options p r mc = once p"
  shows "replacing_ends once p y \<Longrightarrow> regex_replace_all api re options p r mc = Some y"
  by (subst regex_replace_all.simps) (auto simp: once replacing_ends_def split: sum.splits)

lemma replace_all_ended:
  assumes "regex_replace_all api re options p r mc = Some y"
  shows "\<exists>u. (replaces_to (\<lambda>s. regex_replace api re options s r mc))\<^sup>*\<^sup>* p u \<and>
    replacing_ends (\<lambda>s. regex_replace api re options s r mc) u y"
proof (rule regex_replace_all.raw_induct[where P = "\<lambda>api re options p r mc y.
    \<exists>u. (replaces_to (\<lambda>s. regex_replace api re options s r mc))\<^sup>*\<^sup>* p u \<and>
      replacing_ends (\<lambda>s. regex_replace api re options s r mc) u y", OF _ assms])
  fix rec and api :: "('a, 'b, 'c) pcre2" and re options p r mc y
  let ?once = "\<lambda>s. regex_replace api re options s r mc"
  assume IH: "\<And>api re options p r mc y. rec api re options p r mc = Some y \<Longrightarrow>
      \<exists>u. (replaces_to (\<lambda>s. regex_replace api re options s r mc))\<^sup>*\<^sup>* p u \<and>
        replacing_ends (\<lambda>s. regex_replace api re options s r mc) u y"
    and eq: "(case regex_replace api re options p r mc of Inl err \<Rightarrow> Some (Inl err)
      | Inr (n, s) \<Rightarrow> if n = 0 then Some (Inr s) else rec api re options s r mc) = Some y"
  show "\<exists>u. (replaces_to ?once)\<^sup>*\<^sup>* p u \<and> replacing_ends ?once u y"
  proof (cases "\<exists>s. replaces_to ?once p s")
    case True
    then obtain s where s: "replaces_to ?once p s" ..
    then have "rec api re options s r mc = Some y"
      using eq by (auto simp: replaces_to_def)
    from IH[OF this] s show ?thesis
      by (blast intro: converse_rtranclp_into_rtranclp)
  next
    case False
    then have "replacing_ends ?once p y"
      using eq by (auto simp: replaces_to_def replacing_ends_def split: sum.splits if_splits)
    then show ?thesis
      by blast
  qed
qed

lemma replacing_terminates:
  fixes weight :: "string \<Rightarrow> nat"
  assumes "\<And>s t. replaces_to once s t \<Longrightarrow> weight t < weight s"
  shows "\<exists>u y. (replaces_to once)\<^sup>*\<^sup>* p u \<and> replacing_ends once u y"
proof (induction "weight p" arbitrary: p rule: less_induct)
  case less
  show ?case
  proof (cases "\<exists>q. replaces_to once p q")
    case True
    then obtain q where q: "replaces_to once p q" ..
    from less[OF assms[OF q]] q show ?thesis
      by (blast intro: converse_rtranclp_into_rtranclp)
  next
    case False
    then have "\<exists>y. replacing_ends once p y"
      by (cases "once p") (auto simp: replaces_to_def replacing_ends_def split: sum.splits intro: exI[of _ "Inl e" for e] exI[of _ "Inr t" for t])
    then show ?thesis
      by blast
  qed
qed

text \<open>C24: Replacing until nothing is left, without a match context, is the closure of the library's substitution.  It returns a text or
  an error exactly when a chain of substitutions that each replaced something leads from the text to one for which the
  substitution gives that error or that text with nothing replaced; results that are longer than the text they come from,
  for which the buffer has to be enlarged, included; in all other cases, where every substitution in turn replaces
  something, it does not return.  In particular it returns whenever each substitution that replaces something lowers some
  weight of the text.\<close>

theorem regex_replace_all_closure:
  fixes weight :: "string \<Rightarrow> nat"
  assumes doc: "pcre2_substitutes api outcome"
  shows "(regex_replace_all api re options p r None = Some y \<longleftrightarrow>
      (\<exists>u. (replaces_to (substituted outcome re options r))\<^sup>*\<^sup>* p u \<and> replacing_ends (substituted outcome re options r) u y)) \<and>
    ((\<forall>s t. replaces_to (substituted outcome re options r) s t \<longrightarrow> weight t < weight s) \<longrightarrow>
      (\<exists>z. regex_replace_all api re options p r None = Some z))"
proof -
  let ?once = "substituted outcome re options r"
  have o: "regex_replace api re options s r None = ?once s" for s
    using regex_replace_outcome[OF doc, of None] by (simp add: substituted_def)
  have closed: "regex_replace_all api re options p r None = Some z" if "(replaces_to ?once)\<^sup>*\<^sup>* p u" "replacing_ends ?once u z" for u z
    using replace_all_chain[where once = ?once, OF o that(1)] replace_all_end[where once = ?once, OF o that(2)] by simp
  show ?thesis
    using closed replace_all_ended[of api re options p r None y, unfolded o] replacing_terminates[of ?once weight p] by blast
qed

lemma ex_outcome_documented: "pcre2_substitutes (ex_pcre2 ex_outcome) ex_outcome"
  by (rule ex_pcre2_substitutes) (simp add: ex_outcome_def)

theorem regex_replace_all_closure_witness:
  "regex_replace_all (ex_pcre2 ex_outcome) () 0 ''banana'' ''oo'' None = Some (Inr ''boonoonoo'') \<and>
   (\<forall>y. regex_replace_all (ex_pcre2 ex_outcome) () 0 ''a'' ''a'' None \<noteq> Some y)"
proof (intro conjI allI notI)
  let ?o = "substituted ex_outcome () 0"
  have "replaces_to (?o ''oo'') ''banana'' ''boonoonoo''" "replacing_ends (?o ''oo'') ''boonoonoo'' (Inr ''boonoonoo'')"
    by (simp_all add: replaces_to_def replacing_ends_def substituted_def ex_outcome_def)
  then show "regex_replace_all (ex_pcre2 ex_outcome) () 0 ''banana'' ''oo'' None = Some (Inr ''boonoonoo'')"
    using regex_replace_all_closure[OF ex_outcome_documented, of "()" 0 "''banana''" "''oo''" "Inr ''boonoonoo''"] by blast
  fix y
  assume "regex_replace_all (ex_pcre2 ex_outcome) () 0 ''a'' ''a'' None = Some y"
  then obtain u where u: "(replaces_to (?o ''a''))\<^sup>*\<^sup>* ''a'' u" "replacing_ends (?o ''a'') u y"
    using regex_replace_all_closure[OF ex_outcome_documented, of "()" 0 "''a''" "''a''" y] by blast
  from u(1) have "u = ''a''"
    by (induction rule: rtranclp_induct) (simp_all add: replaces_to_def substituted_def ex_outcome_def)
  with u(2) show False
    by (cases y) (simp_all add: replacing_ends_def substituted_def ex_outcome_def)
qed

section \<open>Matching\<close>

text \<open>A compiled expression and the one that is compiled on first use, over a sequence of matches.\<close>

record 'mc match_call =
  mt_text :: string
  mt_options :: u32
  mt_offset :: nat
  mt_context :: "'mc option"

definition match_at_once ::
  "('re, 'cc, 'mc) pcre2 \<Rightarrow> string \<Rightarrow> u32 \<Rightarrow> 'cc option \<Rightarrow> 'mc match_call \<Rightarrow> regex_compile_error + match_result" where
  "match_at_once api txt options cc q =
     (case regex_compile api txt options cc of
        Inl e \<Rightarrow> Inl e
      | Inr re \<Rightarrow> Inr (regex_match api re (mt_text q) (mt_options q) (mt_offset q) (mt_context q)))"

fun lazy_matches ::
  "('re, 'cc, 'mc) pcre2 \<Rightarrow> bool \<Rightarrow> string \<Rightarrow> 'mc match_call list \<Rightarrow> ('re, 'cc) lazy_regex \<Rightarrow>
   (regex_compile_error + match_result) list \<times> ('re, 'cc) lazy_regex" where
  "lazy_matches api cs sc [] l = ([], l)"
| "lazy_matches api cs sc (q # qs) l =
     (let (x, l1) = shortcutted_match cs sc (Inr RegexNoMatch)
            (\<lambda>t. lazy_match api t (mt_options q) (mt_offset q) (mt_context q)) (mt_text q) l;
          (xs, l2) = lazy_matches api cs sc qs l1
      in (x # xs, l2))"

definition lazy_states :: "('re, 'cc, 'mc) pcre2 \<Rightarrow> string \<Rightarrow> u32 \<Rightarrow> 'cc option \<Rightarrow> ('re, 'cc) lazy_regex set" where
  "lazy_states api txt options cc =
     insert (Uncompiled txt options cc) {Compiled re | re. regex_compile api txt options cc = Inr re}"

lemma lazy_match_state:
  assumes "l \<in> lazy_states api txt options cc"
  shows "lazy_match api (mt_text q) (mt_options q) (mt_offset q) (mt_context q) l =
    (match_at_once api txt options cc q,
     case regex_compile api txt options cc of Inl e \<Rightarrow> Uncompiled txt options cc | Inr re \<Rightarrow> Compiled re)"
  using assms by (auto simp: lazy_states_def lazy_match_def match_at_once_def lazy_get_def split: sum.splits)

text \<open>C33: An expression that is compiled on first use, with or without a shortcut in front of it, answers every sequence of matches as
  an expression that is compiled at once would, except that a text without the shortcut is answered with no match, even
  where compiling fails; and it is still not compiled when every text so far was answered by the shortcut alone.\<close>

theorem lazy_regex_matches:
  "fst (lazy_matches api cs sc qs (Uncompiled txt options cc)) =
     map (\<lambda>q. if shortcut_found cs sc (mt_text q) then match_at_once api txt options cc q else Inr RegexNoMatch) qs \<and>
   snd (lazy_matches api cs sc qs (Uncompiled txt options cc)) =
     (if list_ex (\<lambda>q. shortcut_found cs sc (mt_text q)) qs
      then (case regex_compile api txt options cc of Inl e \<Rightarrow> Uncompiled txt options cc | Inr re \<Rightarrow> Compiled re)
      else Uncompiled txt options cc)"
proof -
  have "fst (lazy_matches api cs sc qs l) =
      map (\<lambda>q. if shortcut_found cs sc (mt_text q) then match_at_once api txt options cc q else Inr RegexNoMatch) qs \<and>
    snd (lazy_matches api cs sc qs l) =
      (if list_ex (\<lambda>q. shortcut_found cs sc (mt_text q)) qs
       then (case regex_compile api txt options cc of Inl e \<Rightarrow> Uncompiled txt options cc | Inr re \<Rightarrow> Compiled re) else l)"
    if "l \<in> lazy_states api txt options cc" for l
    using that
  proof (induction qs arbitrary: l)
    case (Cons q qs)
    define l' where "l' = (case regex_compile api txt options cc of Inl e \<Rightarrow> Uncompiled txt options cc | Inr re \<Rightarrow> Compiled re)"
    have l': "l' \<in> lazy_states api txt options cc"
      by (auto simp: l'_def lazy_states_def split: sum.splits)
    show ?case
      using Cons.IH[OF Cons.prems] Cons.IH[OF l'] lazy_match_state[OF Cons.prems, of q, folded l'_def]
      by (auto simp: l'_def[symmetric] shortcutted_match_def split: prod.splits)
  qed simp
  then show ?thesis
    by (simp add: lazy_states_def)
qed

text \<open>Also: the shortcut changes no match.  If every text that the expression matches has the shortcut, the match with the shortcut is
  a match exactly when the one without is, and with the same groups.\<close>

theorem shortcut_keeps_matches:
  assumes "\<And>txt g s'. m txt s = (RegexMatch g, s') \<Longrightarrow> shortcut_found cs shortcut txt"
  shows "fst (shortcutted_match cs shortcut RegexNoMatch m txt s) = RegexMatch g \<longleftrightarrow> fst (m txt s) = RegexMatch g"
  using assms[of "txt"] by (cases "m txt s") (auto simp: shortcutted_match_def)

theorem shortcut_keeps_matches_witness:
  "fst (shortcutted_match True ''b'' RegexNoMatch (\<lambda>t s. (if t = ''abc'' then RegexMatch [(0, 3)] else RegexNoMatch, s)) ''abc'' ()) =
   RegexMatch [(0, 3)]"
proof -
  have "shortcut_found True ''b'' ''abc''"
    by code_simp
  then show ?thesis
    by (subst shortcut_keeps_matches) (auto split: if_splits)
qed

text \<open>Also: the text of a group.  A group that took part gives exactly the text between its offsets; a group with a number beyond
  the match gives the empty text; but a group that did not take part, whose offsets the library sets to the greatest number,
  raises, unless the text is longer than that.\<close>

theorem group_substr_cases:
  "(i \<ge> length gs \<longrightarrow> group_substr gs txt i = Some []) \<and>
   (i < length gs \<and> gs ! i = (b, e) \<and> b \<le> e \<and> e \<le> length txt \<longrightarrow>
     group_substr gs txt i = Some (map (\<lambda>k. txt ! k) [b..<e])) \<and>
   (i < length gs \<and> gs ! i = (max_u64, max_u64) \<and> length txt < max_u64 \<longrightarrow> group_substr gs txt i = None)"
proof -
  have "take (e - b) (drop b (take e txt)) = map (\<lambda>k. txt ! k) [b..<e]" if "b \<le> e" "e \<le> length txt"
    using that by (intro nth_equalityI) auto
  then show ?thesis
    by (auto simp: group_substr_def substr_checked_def)
qed

theorem group_substr_cases_witness:
  "group_substr [(3, 6), (3, 6), (max_u64, max_u64)] ''111abc222'' 1 = Some ''abc'' \<and>
   group_substr [(3, 6), (3, 6), (max_u64, max_u64)] ''111abc222'' 2 = None"
  using group_substr_cases[of "[(3, 6), (3, 6), (max_u64, max_u64)]" 1 "''111abc222''" 3 6]
    group_substr_cases[of "[(3, 6), (3, 6), (max_u64, max_u64)]" 2 "''111abc222''"]
  by (simp add: max_u64_def upt_rec)

end
