(* ===== verification/Parallel.thy ===== *)
theory Parallel
  imports Prelude "HOL-Library.Multiset"
begin

text \<open>
  \<^verbatim>\<open>common/parallel.h\<close>: waiting for any or for all of several tasks.  The state that the tasks and the waiting coroutine
  share is a record, and the stretches of code between two suspensions, or under the mutex, are operations on it that
  also say whether the waiting coroutine is resumed.  The tasks finish in any order and between any two steps of the
  coroutine that waits: a step relation has one rule for each operation.  The locale \<^verbatim>\<open>joiner\<close> states what the two kinds
  of waiting have in common; that the coroutine is resumed exactly once, and in the end, is proved there.
\<close>

section \<open>Model\<close>

subsection \<open>Waiting for any\<close>

record 'r any_of_state =
  ay_suspended_handle :: bool
  ay_remaining :: nat
  ay_return_value :: "'r option"

definition any_of_make :: "'r any_of_state" where
  "any_of_make = \<lparr>ay_suspended_handle = False, ay_remaining = 0, ay_return_value = None\<rparr>"

text \<open>\<^verbatim>\<open>run\<close> up to the suspension, and after it; no condition is \<^const>\<open>None\<close>.  The count is raised without the mutex; here
  and in \<^verbatim>\<open>all_of_run_begin\<close> that is one step, and a race of it with a task that finishes in another thread is not modelled.\<close>

definition any_of_run_begin :: "'r any_of_state \<Rightarrow> 'r any_of_state" where
  "any_of_run_begin s = s\<lparr>ay_remaining := ay_remaining s + 1\<rparr>"

definition any_of_run_end :: "('r \<Rightarrow> bool) option \<Rightarrow> 'r \<Rightarrow> 'r any_of_state \<Rightarrow> 'r any_of_state \<times> bool" where
  "any_of_run_end check_cond r s =
     (let s1 = s\<lparr>ay_remaining := ay_remaining s - 1\<rparr>;
          has_return_value = (ay_return_value s1 = None \<and> (case check_cond of None \<Rightarrow> True | Some p \<Rightarrow> p r));
          s2 = (if has_return_value then s1\<lparr>ay_return_value := Some r\<rparr> else s1)
      in (s2, ((ay_return_value s2 = None \<and> ay_remaining s2 = 0) \<or> has_return_value) \<and> ay_suspended_handle s2))"

definition any_of_await_ready :: "'r any_of_state \<Rightarrow> bool" where
  "any_of_await_ready s \<longleftrightarrow> ay_return_value s \<noteq> None \<or> ay_remaining s = 0"

definition any_of_await_suspend :: "'r any_of_state \<Rightarrow> 'r any_of_state \<times> bool" where
  "any_of_await_suspend s =
     (let s1 = s\<lparr>ay_suspended_handle := True\<rparr> in (s1, ay_return_value s1 \<noteq> None \<or> ay_remaining s1 = 0))"

text \<open>Moving out of the optional leaves it engaged.\<close>

definition any_of_await_resume :: "'r any_of_state \<Rightarrow> 'r option" where
  "any_of_await_resume s = ay_return_value s"

subsection \<open>Waiting for all\<close>

record 'r all_of_state =
  al_suspended_handle :: bool
  al_remaining :: nat
  al_return_values :: "'r list"

definition all_of_make :: "'r all_of_state" where
  "all_of_make = \<lparr>al_suspended_handle = False, al_remaining = 0, al_return_values = []\<rparr>"

definition all_of_run_begin :: "'r all_of_state \<Rightarrow> 'r all_of_state" where
  "all_of_run_begin s = s\<lparr>al_remaining := al_remaining s + 1\<rparr>"

definition all_of_run_end :: "'r \<Rightarrow> 'r all_of_state \<Rightarrow> 'r all_of_state \<times> bool" where
  "all_of_run_end r s =
     (let s1 = s\<lparr>al_return_values := al_return_values s @ [r]\<rparr>;
          s2 = s1\<lparr>al_remaining := al_remaining s1 - 1\<rparr>
      in (s2, al_remaining s2 = 0 \<and> al_suspended_handle s2))"

definition all_of_await_ready :: "'r all_of_state \<Rightarrow> bool" where
  "all_of_await_ready s \<longleftrightarrow> al_remaining s = 0"

definition all_of_await_suspend :: "'r all_of_state \<Rightarrow> 'r all_of_state \<times> bool" where
  "all_of_await_suspend s = (let s1 = s\<lparr>al_suspended_handle := True\<rparr> in (s1, al_remaining s1 = 0))"

definition all_of_await_resume :: "'r all_of_state \<Rightarrow> 'r list" where
  "all_of_await_resume s = al_return_values s"

subsection \<open>Tasks and the coroutine that waits\<close>

record ('c, 'v, 'r) join_ops =
  op_make :: 'c
  op_begin :: "'c \<Rightarrow> 'c"
  op_end :: "'v \<Rightarrow> 'c \<Rightarrow> 'c \<times> bool"
  op_ready :: "'c \<Rightarrow> bool"
  op_suspend :: "'c \<Rightarrow> 'c \<times> bool"
  op_resume :: "'c \<Rightarrow> 'r"
  op_weak :: bool \<comment> \<open>whether a task checks that the state still exists\<close>

definition any_of_ops :: "('v \<Rightarrow> bool) option \<Rightarrow> ('v any_of_state, 'v, 'v option) join_ops" where
  "any_of_ops check_cond = \<lparr>op_make = any_of_make, op_begin = any_of_run_begin, op_end = any_of_run_end check_cond,
     op_ready = any_of_await_ready, op_suspend = any_of_await_suspend, op_resume = any_of_await_resume, op_weak = True\<rparr>"

definition all_of_ops :: "('v all_of_state, 'v, 'v list) join_ops" where
  "all_of_ops = \<lparr>op_make = all_of_make, op_begin = all_of_run_begin, op_end = all_of_run_end,
     op_ready = all_of_await_ready, op_suspend = all_of_await_suspend, op_resume = all_of_await_resume, op_weak = False\<rparr>"

datatype 'r waiter = Not_awaited | Checked | Suspended | Resuming | Returned 'r

text \<open>A task is the value that it will give.  \<^verbatim>\<open>resumes\<close> counts the calls of \<^verbatim>\<open>resume\<close> on the coroutine, and \<^verbatim>\<open>fault\<close> says that a
  task used the shared state after it was destroyed.\<close>

record ('c, 'v, 'r) join_state =
  shared :: 'c
  alive :: bool
  to_add :: "'v list"
  pending :: "'v list"
  finished :: "'v list"
  waiter :: "'r waiter"
  resumes :: nat
  fault :: bool

definition join_start :: "('c, 'v, 'r) join_ops \<Rightarrow> 'v list \<Rightarrow> ('c, 'v, 'r) join_state" where
  "join_start ops tasks = \<lparr>shared = op_make ops, alive = True, to_add = tasks, pending = [], finished = [],
     waiter = Not_awaited, resumes = 0, fault = False\<rparr>"

definition resume_if :: "bool \<Rightarrow> ('c, 'v, 'r) join_state \<Rightarrow> ('c, 'v, 'r) join_state" where
  "resume_if b j = (if b then j\<lparr>waiter := Resuming, resumes := resumes j + 1\<rparr> else j)"

definition join_finish :: "('c, 'v, 'r) join_ops \<Rightarrow> nat \<Rightarrow> ('c, 'v, 'r) join_state \<Rightarrow> ('c, 'v, 'r) join_state" where
  "join_finish ops i j =
     (let v = pending j ! i;
          j1 = j\<lparr>pending := take i (pending j) @ drop (i + 1) (pending j), finished := finished j @ [v]\<rparr>
      in if alive j then (let (c, b) = op_end ops v (shared j) in resume_if b (j1\<lparr>shared := c\<rparr>))
         else if op_weak ops then j1
         else j1\<lparr>fault := True\<rparr>)"

inductive join_step :: "('c, 'v, 'r) join_ops \<Rightarrow> ('c, 'v, 'r) join_state \<Rightarrow> ('c, 'v, 'r) join_state \<Rightarrow> bool" for ops where
  js_add: "to_add j = v # vs \<Longrightarrow>
     join_step ops j (j\<lparr>to_add := vs, pending := pending j @ [v], shared := op_begin ops (shared j)\<rparr>)"
| js_finish: "i < length (pending j) \<Longrightarrow> join_step ops j (join_finish ops i j)"
| js_ready: "to_add j = [] \<Longrightarrow> waiter j = Not_awaited \<Longrightarrow>
     join_step ops j (j\<lparr>waiter := (if op_ready ops (shared j) then Resuming else Checked)\<rparr>)"
| js_suspend: "waiter j = Checked \<Longrightarrow> op_suspend ops (shared j) = (c, b) \<Longrightarrow>
     join_step ops j (resume_if b (j\<lparr>shared := c, waiter := Suspended\<rparr>))"
| js_resume: "waiter j = Resuming \<Longrightarrow> join_step ops j (j\<lparr>waiter := Returned (op_resume ops (shared j))\<rparr>)"
| js_destroy: "waiter j = Returned r \<Longrightarrow> alive j \<Longrightarrow> join_step ops j (j\<lparr>alive := False\<rparr>)"

abbreviation join_reachable :: "('c, 'v, 'r) join_ops \<Rightarrow> 'v list \<Rightarrow> ('c, 'v, 'r) join_state \<Rightarrow> bool" where
  "join_reachable ops tasks j \<equiv> (join_step ops)\<^sup>*\<^sup>* (join_start ops tasks) j"

section \<open>What both kinds of waiting guarantee\<close>

text \<open>Nothing is left to do: all tasks are finished, the coroutine has its result and the state is gone.\<close>

definition over :: "('c, 'v, 'r) join_state \<Rightarrow> bool" where
  "over j \<longleftrightarrow> to_add j = [] \<and> pending j = [] \<and> \<not> alive j \<and> (case waiter j of Returned r \<Rightarrow> True | _ \<Rightarrow> False)"

text \<open>A number that every step lowers.\<close>

fun waiter_rank :: "'r waiter \<Rightarrow> nat" where
  "waiter_rank Not_awaited = 4"
| "waiter_rank Checked = 3"
| "waiter_rank Suspended = 2"
| "waiter_rank Resuming = 1"
| "waiter_rank (Returned r) = 0"

definition work :: "('c, 'v, 'r) join_state \<Rightarrow> nat" where
  "work j = 2 * length (to_add j) + length (pending j) + waiter_rank (waiter j) + (if alive j then 1 else 0)"

text \<open>The laws: how many tasks are left, whether the handle of the coroutine is stored, and whether the wait is over, seen from
  the shared state; a task resumes the coroutine exactly when it ends the wait.\<close>

locale joiner =
  fixes ops :: "('c, 'v, 'r) join_ops" and left :: "'c \<Rightarrow> nat" and handle :: "'c \<Rightarrow> bool" and decided :: "'c \<Rightarrow> bool"
    and holds :: "'v list \<Rightarrow> 'c \<Rightarrow> bool"
  assumes make: "left (op_make ops) = 0" "\<not> handle (op_make ops)" "holds [] (op_make ops)"
    and begin_task: "left (op_begin ops c) = left c + 1" "handle (op_begin ops c) = handle c" "holds vs c \<Longrightarrow> holds vs (op_begin ops c)"
    and end_task: "0 < left c \<Longrightarrow> op_end ops v c = (c', b) \<Longrightarrow>
      left c' = left c - 1 \<and> handle c' = handle c \<and> (decided c \<longrightarrow> decided c') \<and> (b \<longleftrightarrow> handle c \<and> \<not> decided c \<and> decided c')"
    and end_holds: "0 < left c \<Longrightarrow> op_end ops v c = (c', b) \<Longrightarrow> holds vs c \<Longrightarrow> holds (vs @ [v]) c'"
    and ready: "op_ready ops c \<longleftrightarrow> decided c"
    and suspend: "op_suspend ops c = (c', b) \<Longrightarrow>
      left c' = left c \<and> handle c' \<and> (decided c' \<longleftrightarrow> decided c) \<and> (b \<longleftrightarrow> decided c) \<and> (holds vs c \<longrightarrow> holds vs c')"
    and none_left: "left c = 0 \<Longrightarrow> decided c"
    and lasting: "decided c \<Longrightarrow> left c \<noteq> 0 \<Longrightarrow> op_weak ops"
begin

definition sound :: "'v list \<Rightarrow> ('c, 'v, 'r) join_state \<Rightarrow> bool" where
  "sound tasks j \<longleftrightarrow>
     mset tasks = mset (to_add j) + mset (pending j) + mset (finished j) \<and> \<not> fault j \<and>
     (alive j \<longrightarrow> left (shared j) = length (pending j) \<and> holds (finished j) (shared j)) \<and>
     (case waiter j of
        Not_awaited \<Rightarrow> alive j \<and> \<not> handle (shared j) \<and> resumes j = 0
      | Checked \<Rightarrow> alive j \<and> to_add j = [] \<and> \<not> handle (shared j) \<and> resumes j = 0
      | Suspended \<Rightarrow> alive j \<and> to_add j = [] \<and> handle (shared j) \<and> \<not> decided (shared j) \<and> resumes j = 0
      | Resuming \<Rightarrow> alive j \<and> to_add j = [] \<and> decided (shared j) \<and> resumes j \<le> 1
      | Returned r \<Rightarrow> to_add j = [] \<and> resumes j \<le> 1 \<and>
          (alive j \<longrightarrow> decided (shared j)) \<and>
          (pending j \<noteq> [] \<longrightarrow> op_weak ops) \<and>
          (\<exists>c vs ws. finished j = vs @ ws \<and> holds vs c \<and> decided c \<and> r = op_resume ops c \<and> left c = length ws + length (pending j)))"

lemma sound_start: "sound tasks (join_start ops tasks)"
  using make by (simp add: sound_def join_start_def)

end

context joiner
begin

lemma sound_add:
  assumes "sound tasks j" "to_add j = v # vs"
  shows "sound tasks (j\<lparr>to_add := vs, pending := pending j @ [v], shared := op_begin ops (shared j)\<rparr>)"
  using assms by (auto simp: sound_def begin_task split: waiter.splits)

lemma sound_ready:
  assumes "sound tasks j" "to_add j = []" "waiter j = Not_awaited"
  shows "sound tasks (j\<lparr>waiter := (if op_ready ops (shared j) then Resuming else Checked)\<rparr>)"
  using assms by (simp add: sound_def ready)

lemma sound_suspend:
  assumes "sound tasks j" "waiter j = Checked" "op_suspend ops (shared j) = (c, b)"
  shows "sound tasks (resume_if b (j\<lparr>shared := c, waiter := Suspended\<rparr>))"
  using assms suspend[OF assms(3)] by (auto simp: sound_def resume_if_def)

lemma sound_resume:
  assumes "sound tasks j" "waiter j = Resuming"
  shows "sound tasks (j\<lparr>waiter := Returned (op_resume ops (shared j))\<rparr>)"
proof -
  have "pending j \<noteq> [] \<longrightarrow> op_weak ops"
    using assms lasting[of "shared j"] by (auto simp: sound_def)
  moreover have "\<exists>c vs ws. finished j = vs @ ws \<and> holds vs c \<and> decided c \<and> op_resume ops (shared j) = op_resume ops c \<and>
      left c = length ws + length (pending j)"
    using assms by (intro exI[of _ "shared j"] exI[of _ "finished j"] exI[of _ "[]"]) (auto simp: sound_def)
  ultimately show ?thesis
    using assms by (simp add: sound_def)
qed

lemma sound_destroy:
  assumes "sound tasks j" "waiter j = Returned r"
  shows "sound tasks (j\<lparr>alive := False\<rparr>)"
  using assms by (simp add: sound_def)

end

lemma mset_take_out:
  assumes "i < length xs"
  shows "mset xs = add_mset (xs ! i) (mset (take i xs @ drop (i + 1) xs))"
  using arg_cong[OF id_take_nth_drop[OF assms], of mset] by simp

context joiner
begin

lemma sound_finish:
  assumes s: "sound tasks j" and i: "i < length (pending j)"
  shows "sound tasks (join_finish ops i j)"
proof -
  define v rest where "v = pending j ! i" and "rest = take i (pending j) @ drop (i + 1) (pending j)"
  have ms: "mset (pending j) = add_mset v (mset rest)"
    using mset_take_out[OF i] by (simp add: v_def rest_def)
  have len: "length rest = length (pending j) - 1"
    using i by (simp add: rest_def)
  have ret: "\<exists>c vs ws. finished j @ [v] = vs @ ws \<and> holds vs c \<and> decided c \<and> r = op_resume ops c \<and>
      left c = length ws + length rest" if w: "waiter j = Returned r" for r
  proof -
    obtain c vs ws where "finished j = vs @ ws" "holds vs c" "decided c" "r = op_resume ops c"
        "left c = length ws + length (pending j)"
      using s w by (auto simp: sound_def)
    then show ?thesis
      using i len by (intro exI[of _ c] exI[of _ vs] exI[of _ "ws @ [v]"]) auto
  qed
  show ?thesis
  proof (cases "alive j")
    case True
    obtain c' b where e: "op_end ops v (shared j) = (c', b)"
      by fastforce
    have pos: "0 < left (shared j)"
      using s i True by (auto simp: sound_def)
    have fin: "join_finish ops i j =
        resume_if b (j\<lparr>pending := rest, finished := finished j @ [v], shared := c'\<rparr>)"
      using True e by (simp add: join_finish_def v_def rest_def)
    show ?thesis
      unfolding fin using s ret ms len end_task[OF pos e] end_holds[OF pos e, of "finished j"]
      by (cases "waiter j") (auto simp: sound_def resume_if_def True)
  next
    case False
    then obtain r where r: "waiter j = Returned r"
      using s by (cases "waiter j") (auto simp: sound_def)
    have "op_weak ops"
      using s r i by (auto simp: sound_def)
    then have fin: "join_finish ops i j = j\<lparr>pending := rest, finished := finished j @ [v]\<rparr>"
      using False by (simp add: join_finish_def v_def rest_def)
    show ?thesis
      unfolding fin using s ret[OF r] ms False \<open>op_weak ops\<close> r by (auto simp: sound_def)
  qed
qed

lemma sound_step:
  assumes "join_step ops j j'" "sound tasks j"
  shows "sound tasks j'"
  using assms
  by (cases rule: join_step.cases)
    (blast intro: sound_add sound_finish sound_ready sound_suspend sound_resume sound_destroy)+

lemma sound_reachable: "join_reachable ops tasks j \<Longrightarrow> sound tasks j"
  by (induction rule: rtranclp_induct) (blast intro: sound_start sound_step)+

lemma finish_work:
  assumes "i < length (pending j)" "sound tasks j"
  shows "work (join_finish ops i j) < work j"
proof (cases "alive j")
  case True
  obtain c' b where e: "op_end ops (pending j ! i) (shared j) = (c', b)"
    by fastforce
  have "0 < left (shared j)"
    using assms True by (auto simp: sound_def)
  from end_task[OF this e] have "b \<Longrightarrow> waiter j = Suspended"
    using assms(2) True by (cases "waiter j") (auto simp: sound_def)
  with True e assms(1) show ?thesis
    by (auto simp: join_finish_def work_def resume_if_def Let_def)
next
  case False
  with assms(1) show ?thesis
    by (auto simp: join_finish_def work_def Let_def)
qed

text \<open>Every step lowers the number, so no run is endless, and a run that cannot go on has done everything.\<close>

lemma step_work:
  assumes "join_step ops j j'" "sound tasks j"
  shows "work j' < work j"
  using assms(1)
proof cases
  case (js_finish i)
  then show ?thesis using finish_work assms(2) by blast
qed (auto simp: work_def resume_if_def)

lemma not_stuck:
  assumes s: "sound tasks j" and stuck: "\<nexists>j'. join_step ops j j'"
  shows "over j"
proof -
  have "to_add j = []"
    using stuck js_add[of j] by (cases "to_add j") auto
  moreover have "pending j = []"
    using stuck js_finish[of 0 j] by auto
  moreover obtain r where r: "waiter j = Returned r"
  proof (cases "waiter j")
    case Not_awaited
    then show ?thesis using stuck js_ready \<open>to_add j = []\<close> by blast
  next
    case Checked
    then show ?thesis using stuck js_suspend by (metis surj_pair)
  next
    case Suspended
    then have "alive j" "\<not> decided (shared j)" "left (shared j) = 0"
      using s \<open>pending j = []\<close> by (auto simp: sound_def)
    then show ?thesis using none_left by blast
  next
    case Resuming
    then show ?thesis using stuck js_resume by blast
  qed blast
  moreover have "\<not> alive j"
    using stuck js_destroy[OF r] by blast
  ultimately show ?thesis
    by (simp add: over_def)
qed

lemma over_result:
  assumes "sound tasks j" "over j"
  shows "\<exists>r c vs ws. waiter j = Returned r \<and> mset (vs @ ws) = mset tasks \<and> finished j = vs @ ws \<and> holds vs c \<and> decided c \<and>
    r = op_resume ops c \<and> left c = length ws \<and> resumes j \<le> 1 \<and> \<not> fault j"
proof -
  obtain r where "waiter j = Returned r"
    using assms(2) by (auto simp: over_def split: waiter.splits)
  with assms show ?thesis
    by (fastforce simp: sound_def over_def)
qed

end

section \<open>Any\<close>

text \<open>Whether a value ends the wait.\<close>

definition accepts :: "('v \<Rightarrow> bool) option \<Rightarrow> 'v \<Rightarrow> bool" where
  "accepts check_cond v \<longleftrightarrow> (case check_cond of None \<Rightarrow> True | Some p \<Rightarrow> p v)"

lemma any_of_run_end_simps:
  "any_of_run_end cc r s = (c', b) \<Longrightarrow>
     ay_remaining c' = ay_remaining s - 1 \<and> ay_suspended_handle c' = ay_suspended_handle s \<and>
     ay_return_value c' = (if ay_return_value s = None \<and> accepts cc r then Some r else ay_return_value s) \<and>
     (b \<longleftrightarrow> ay_suspended_handle s \<and> ay_return_value s = None \<and> (accepts cc r \<or> ay_remaining s - 1 = 0))"
  by (auto simp: any_of_run_end_def accepts_def Let_def split: if_splits)

lemma find_append: "find p (xs @ ys) = (if find p xs = None then find p ys else find p xs)"
  by (induction xs) auto

interpretation any: joiner "any_of_ops cc" ay_remaining ay_suspended_handle any_of_await_ready
  "\<lambda>vs c. ay_return_value c = find (accepts cc) vs" for cc
proof unfold_locales
  fix c c' :: "'a any_of_state" and v b
  assume pos: "0 < ay_remaining c" and e: "op_end (any_of_ops cc) v c = (c', b)"
  then have e': "any_of_run_end cc v c = (c', b)"
    by (simp add: any_of_ops_def)
  show "ay_remaining c' = ay_remaining c - 1 \<and> ay_suspended_handle c' = ay_suspended_handle c \<and>
      (any_of_await_ready c \<longrightarrow> any_of_await_ready c') \<and>
      (b \<longleftrightarrow> ay_suspended_handle c \<and> \<not> any_of_await_ready c \<and> any_of_await_ready c')"
    using any_of_run_end_simps[OF e'] pos by (auto simp: any_of_await_ready_def)
  fix vs
  assume "ay_return_value c = find (accepts cc) vs"
  then show "ay_return_value c' = find (accepts cc) (vs @ [v])"
    using any_of_run_end_simps[OF e'] by (simp add: find_append)
qed (auto simp: any_of_ops_def any_of_make_def any_of_run_begin_def any_of_await_ready_def any_of_await_suspend_def)

text \<open>\<^verbatim>\<open>any_of\<close> takes the value out of the optional, which raises when there is none.\<close>

definition any_of_result :: "'v option \<Rightarrow> unit + 'v" where
  "any_of_result r = (case r of None \<Rightarrow> Inl () | Some v \<Rightarrow> Inr v)"

lemma any_of_sound_result:
  assumes "any.sound cc tasks j" "over j"
  shows "waiter j = Returned (find (accepts cc) (finished j)) \<and> mset (finished j) = mset tasks \<and> resumes j \<le> 1 \<and> \<not> fault j"
proof -
  from any.over_result[OF assms] obtain r c vs ws where *: "waiter j = Returned r" "mset (vs @ ws) = mset tasks"
      "finished j = vs @ ws" "ay_return_value c = find (accepts cc) vs" "any_of_await_ready c"
      "r = op_resume (any_of_ops cc) c" "ay_remaining c = length ws" "resumes j \<le> 1" "\<not> fault j"
    by blast
  then have "r = find (accepts cc) (vs @ ws)"
    by (auto simp: find_append any_of_await_ready_def any_of_ops_def any_of_await_resume_def)
  with * show ?thesis
    by simp
qed

lemma find_accepts_None: "vs \<noteq> [] \<Longrightarrow> find (accepts None) vs = Some (hd vs)"
  by (cases vs) (auto simp: accepts_def)

text \<open>C15: Waiting for any of several tasks ends, whatever the order in which the tasks finish and the coroutine gets on:
  every step lowers \<^const>\<open>work\<close>, so no run is endless; while the coroutine is suspended no finished task has been accepted and a
  task is still running; and a run that cannot go on has finished all tasks, has resumed the coroutine at most once, no task
  has used the state after its end, and the coroutine has the value of the first task to finish that the condition accepts,
  or nothing when there is no such task.  With no condition and at least one task, \<^verbatim>\<open>any_of\<close> never raises: it gives the
  value of the task that finished first.\<close>

theorem any_of_returns_first:
  assumes "join_reachable (any_of_ops cc) tasks j"
  shows "(\<forall>j'. join_step (any_of_ops cc) j j' \<longrightarrow> work j' < work j) \<and>
    (waiter j = Suspended \<longrightarrow> find (accepts cc) (finished j) = None \<and> pending j \<noteq> [] \<and> resumes j = 0) \<and>
    ((\<nexists>j'. join_step (any_of_ops cc) j j') \<longrightarrow>
      waiter j = Returned (find (accepts cc) (finished j)) \<and> mset (finished j) = mset tasks \<and> resumes j \<le> 1 \<and> \<not> fault j \<and>
      (cc = None \<and> tasks \<noteq> [] \<longrightarrow> any_of_result (find (accepts cc) (finished j)) = Inr (hd (finished j))))"
proof (intro conjI impI)
  have s: "any.sound cc tasks j"
    by (rule any.sound_reachable[OF assms])
  show "\<forall>j'. join_step (any_of_ops cc) j j' \<longrightarrow> work j' < work j"
    using any.step_work s by blast
  show "find (accepts cc) (finished j) = None" "pending j \<noteq> []" "resumes j = 0" if "waiter j = Suspended"
    using s that by (auto simp: any.sound_def any_of_await_ready_def)
  assume "\<nexists>j'. join_step (any_of_ops cc) j j'"
  note r = any_of_sound_result[OF s any.not_stuck[OF s this]]
  then show "waiter j = Returned (find (accepts cc) (finished j))" "mset (finished j) = mset tasks" "resumes j \<le> 1" "\<not> fault j"
    by blast+
  assume "cc = None \<and> tasks \<noteq> []"
  with r have "cc = None" "finished j \<noteq> []"
    by auto
  then show "any_of_result (find (accepts cc) (finished j)) = Inr (hd (finished j))"
    by (simp add: find_accepts_None any_of_result_def)
qed

section \<open>All\<close>

interpretation all: joiner all_of_ops al_remaining al_suspended_handle
  "\<lambda>c. al_remaining c = 0" "\<lambda>vs c. al_return_values c = vs"
  by unfold_locales
    (auto simp: all_of_ops_def all_of_make_def all_of_run_begin_def all_of_run_end_def all_of_await_ready_def
      all_of_await_suspend_def Let_def)

lemma over_no_step: "over j \<Longrightarrow> \<not> join_step ops j j'"
  by (auto simp: over_def elim!: join_step.cases)

lemmas join_defs = join_start_def join_finish_def resume_if_def any_of_ops_def any_of_make_def any_of_run_begin_def
  any_of_run_end_def any_of_await_ready_def any_of_await_suspend_def any_of_await_resume_def all_of_ops_def all_of_make_def
  all_of_run_begin_def all_of_run_end_def all_of_await_ready_def all_of_await_suspend_def all_of_await_resume_def

text \<open>C14: Waiting for all tasks ends, whatever the order in which the tasks finish and the coroutine gets on: every step
  lowers \<^const>\<open>work\<close>; while the coroutine is suspended a task is still running; and a run that cannot go on has finished all tasks,
  has resumed the coroutine at most once, no task has used the state after its end, and the coroutine has exactly the values
  of all tasks, in the order in which they finished.\<close>

theorem all_of_returns_all:
  assumes "join_reachable all_of_ops tasks j"
  shows "(\<forall>j'. join_step all_of_ops j j' \<longrightarrow> work j' < work j) \<and>
    (waiter j = Suspended \<longrightarrow> pending j \<noteq> [] \<and> resumes j = 0) \<and>
    ((\<nexists>j'. join_step all_of_ops j j') \<longrightarrow>
      waiter j = Returned (finished j) \<and> mset (finished j) = mset tasks \<and> resumes j \<le> 1 \<and> \<not> fault j)"
proof (intro conjI impI)
  have s: "all.sound tasks j"
    by (rule all.sound_reachable[OF assms])
  show "\<forall>j'. join_step all_of_ops j j' \<longrightarrow> work j' < work j"
    using all.step_work s by blast
  show "pending j \<noteq> []" "resumes j = 0" if "waiter j = Suspended"
    using s that by (auto simp: all.sound_def)
  assume "\<nexists>j'. join_step all_of_ops j j'"
  then have "over j"
    by (rule all.not_stuck[OF s])
  from all.over_result[OF s this]
  show "waiter j = Returned (finished j)" "mset (finished j) = mset tasks" "resumes j \<le> 1" "\<not> fault j"
    by (auto simp: all_of_ops_def all_of_await_resume_def)
qed

text \<open>An executable form of the steps, for looking at runs.\<close>

datatype join_act = Add | Finish nat | Ready | Suspend | Resume | Destroy

fun join_do :: "('c, 'v, 'r) join_ops \<Rightarrow> join_act \<Rightarrow> ('c, 'v, 'r) join_state \<Rightarrow> ('c, 'v, 'r) join_state option" where
  "join_do ops Add j = (case to_add j of [] \<Rightarrow> None
     | v # vs \<Rightarrow> Some (j\<lparr>to_add := vs, pending := pending j @ [v], shared := op_begin ops (shared j)\<rparr>))"
| "join_do ops (Finish i) j = (if i < length (pending j) then Some (join_finish ops i j) else None)"
| "join_do ops Ready j = (if to_add j = [] then (case waiter j of
       Not_awaited \<Rightarrow> Some (j\<lparr>waiter := (if op_ready ops (shared j) then Resuming else Checked)\<rparr>) | _ \<Rightarrow> None) else None)"
| "join_do ops Suspend j = (case waiter j of
       Checked \<Rightarrow> (let (c, b) = op_suspend ops (shared j) in Some (resume_if b (j\<lparr>shared := c, waiter := Suspended\<rparr>))) | _ \<Rightarrow> None)"
| "join_do ops Resume j = (case waiter j of Resuming \<Rightarrow> Some (j\<lparr>waiter := Returned (op_resume ops (shared j))\<rparr>) | _ \<Rightarrow> None)"
| "join_do ops Destroy j = (case waiter j of Returned r \<Rightarrow> (if alive j then Some (j\<lparr>alive := False\<rparr>) else None) | _ \<Rightarrow> None)"

fun join_run :: "('c, 'v, 'r) join_ops \<Rightarrow> join_act list \<Rightarrow> ('c, 'v, 'r) join_state \<Rightarrow> ('c, 'v, 'r) join_state option" where
  "join_run ops [] j = Some j"
| "join_run ops (a # as) j = Option.bind (join_do ops a j) (join_run ops as)"

lemma join_do_step: "join_do ops a j = Some j' \<Longrightarrow> join_step ops j j'"
  using js_ready[of j ops]
  by (cases a) (auto intro: join_step.intros split: list.splits if_splits waiter.splits prod.splits)

lemma join_step_do: "join_step ops j j' \<Longrightarrow> \<exists>a. join_do ops a j = Some j'"
proof (induction rule: join_step.induct)
  case (js_add j v vs)
  then show ?case by (intro exI[of _ Add]) simp
next
  case (js_finish i j)
  then show ?case by (intro exI[of _ "Finish i"]) simp
next
  case (js_ready j)
  then show ?case by (intro exI[of _ Ready]) simp
next
  case (js_suspend j c b)
  then show ?case by (intro exI[of _ Suspend]) simp
next
  case (js_resume j)
  then show ?case by (intro exI[of _ Resume]) simp
next
  case (js_destroy j r)
  then show ?case by (intro exI[of _ Destroy]) simp
qed

lemma join_run_steps: "join_run ops as j = Some j' \<Longrightarrow> (join_step ops)\<^sup>*\<^sup>* j j'"
  by (induction as arbitrary: j)
    (auto simp: Option.bind_eq_Some_conv intro: converse_rtranclp_into_rtranclp join_do_step)

lemma all_of_run_example:
  "join_run all_of_ops [Add, Add, Ready, Finish 1, Suspend, Finish 0, Resume, Destroy] (join_start all_of_ops [7, 8 :: nat]) =
   Some \<lparr>shared = \<lparr>al_suspended_handle = True, al_remaining = 0, al_return_values = [8, 7]\<rparr>, alive = False, to_add = [],
     pending = [], finished = [8, 7], waiter = Returned [8, 7], resumes = 1, fault = False\<rparr>"
  by (simp add: join_defs)

theorem all_of_returns_all_witness:
  "\<exists>j. join_reachable all_of_ops [7, 8 :: nat] j \<and> over j \<and> waiter j = Returned [8, 7] \<and> resumes j = 1"
proof -
  from all_of_run_example obtain j where j: "join_reachable all_of_ops [7, 8 :: nat] j" "over j" "finished j = [8, 7]" "resumes j = 1"
    using join_run_steps[OF all_of_run_example] by (auto simp: over_def)
  with all_of_returns_all[OF j(1)] over_no_step show ?thesis
    by metis
qed

lemma any_of_run_example:
  "join_run (any_of_ops (Some even)) [Add, Add, Ready, Finish 0, Suspend, Finish 0, Resume, Destroy]
     (join_start (any_of_ops (Some even)) [7, 8 :: nat]) =
   Some \<lparr>shared = \<lparr>ay_suspended_handle = True, ay_remaining = 0, ay_return_value = Some 8\<rparr>, alive = False, to_add = [],
     pending = [], finished = [7, 8], waiter = Returned (Some 8), resumes = 1, fault = False\<rparr>"
  by (simp add: join_defs)

theorem any_of_returns_first_witness:
  "\<exists>j. join_reachable (any_of_ops (Some even)) [7, 8 :: nat] j \<and> over j \<and> waiter j = Returned (Some 8) \<and> resumes j = 1"
proof -
  from any_of_run_example obtain j where j: "join_reachable (any_of_ops (Some even)) [7, 8 :: nat] j" "over j"
      "finished j = [7, 8]" "resumes j = 1"
    using join_run_steps[OF any_of_run_example] by (auto simp: over_def)
  have "waiter j = Returned (find (accepts (Some even)) (finished j))"
    using any_of_returns_first[OF j(1)] over_no_step[OF j(2)] by blast
  with j show ?thesis
    by (intro exI[of _ j]) (simp add: accepts_def)
qed

text \<open>Also: the tasks of \<^verbatim>\<open>all_of\<close> hold no reference to the shared state.  An awaitable that is dropped while tasks are running, and
  never awaited, leaves them with a state that is gone; those of \<^verbatim>\<open>any_of\<close> check for that and do nothing.\<close>

theorem dropped_awaitable:
  assumes "i < length (pending j)" "i < length (pending k)" "\<not> alive j" "\<not> alive k"
  shows "fault (join_finish all_of_ops i j) \<and> (fault (join_finish (any_of_ops cc) i k) \<longleftrightarrow> fault k)"
  using assms by (simp add: join_finish_def all_of_ops_def any_of_ops_def)

end
