(* ===== verification/Coroutines.thy ===== *)
theory Coroutines
  imports Prelude
begin

text \<open>
  \<^verbatim>\<open>common/coro.h\<close>: the promise and the awaitables of \<^verbatim>\<open>Task\<close>, its conversion to a future and detached running, on the
  coroutine frames that C++ makes for them.  A coroutine's own code is a tree: it returns, raises, awaits another task, or awaits
  an event of the program.  \<^verbatim>\<open>Task<void>\<close> is the instance whose values are of type \<^typ>\<open>unit\<close>.  Resuming or destroying what is not
  a suspended frame is undefined and is \<^const>\<open>None\<close>.
\<close>

section \<open>Model\<close>

datatype 'v body =
    Co_return 'v
  | Co_throw
  | Co_await "'v body" "'v \<Rightarrow> 'v body"
  | Co_event "'v \<Rightarrow> 'v body"

datatype promise_kind = Task_promise | Sync_promise

text \<open>Where the code of a frame stands: running, at the start, waiting for a task or an event, or at its end.\<close>

datatype 'v point =
    Executing
  | At_start "'v body"
  | At_await nat "'v \<Rightarrow> 'v body"
  | At_event "'v \<Rightarrow> 'v body"
  | At_end

record 'v coro_frame =
  fr_promise :: promise_kind
  fr_caller :: "nat option"
  fr_ret :: "'v option"
  fr_point :: "'v point"

datatype 'v control = Resumer | Running nat "'v body" | Terminated

text \<open>\<^verbatim>\<open>Resumer\<close> is the code that resumed the coroutines and runs when all of them are suspended; \<^verbatim>\<open>parked\<close> is the frame that waits for
  an event.  A future has a value, an exception, or neither.\<close>

datatype 'v future_state = Pending | Value 'v | Exception

record 'v coro_state =
  frames :: "nat \<rightharpoonup> 'v coro_frame"
  next_frame :: nat
  control :: "'v control"
  parked :: "nat option"
  future :: "'v future_state"

subsection \<open>Frames\<close>

text \<open>Calling a coroutine makes its frame, which stands where \<^verbatim>\<open>initial_suspend\<close> leaves it: at the start for a task, running for a future.\<close>

definition coro_call :: "promise_kind \<Rightarrow> 'v point \<Rightarrow> 'v coro_state \<Rightarrow> nat \<times> 'v coro_state" where
  "coro_call k p s =
     (next_frame s,
      s\<lparr>frames := (frames s)(next_frame s \<mapsto> \<lparr>fr_promise = k, fr_caller = None, fr_ret = None, fr_point = p\<rparr>),
        next_frame := next_frame s + 1\<rparr>)"

definition frame_set :: "nat \<Rightarrow> ('v coro_frame \<Rightarrow> 'v coro_frame) \<Rightarrow> 'v coro_state \<Rightarrow> 'v coro_state option" where
  "frame_set h g s = (case frames s h of None \<Rightarrow> None | Some f \<Rightarrow> Some (s\<lparr>frames := (frames s)(h \<mapsto> g f)\<rparr>))"

definition frame_destroy :: "nat \<Rightarrow> 'v coro_state \<Rightarrow> 'v coro_state option" where
  "frame_destroy h s = (case frames s h of None \<Rightarrow> None | Some f \<Rightarrow> Some (s\<lparr>frames := (frames s)(h := None)\<rparr>))"

definition run_body :: "nat \<Rightarrow> 'v body \<Rightarrow> 'v coro_state \<Rightarrow> 'v coro_state option" where
  "run_body h b s = map_option (\<lambda>s. s\<lparr>control := Running h b\<rparr>) (frame_set h (\<lambda>f. f\<lparr>fr_point := Executing\<rparr>) s)"

subsection \<open>Awaiting a task\<close>

text \<open>\<^verbatim>\<open>await_resume\<close> of the awaitable of a task gives the value and destroys the frame.\<close>

definition task_await_resume :: "nat \<Rightarrow> 'v coro_state \<Rightarrow> ('v \<times> 'v coro_state) option" where
  "task_await_resume h s =
     (case frames s h of
        Some f \<Rightarrow> (case (fr_ret f, fr_point f) of
            (Some v, At_end) \<Rightarrow> map_option (Pair v) (frame_destroy h s)
          | _ \<Rightarrow> None)
      | None \<Rightarrow> None)"

text \<open>A suspended frame goes on where it stands.  \<^verbatim>\<open>ev\<close> is the value of the event, when it waits for one.\<close>

definition coro_resume :: "nat \<Rightarrow> 'v option \<Rightarrow> 'v coro_state \<Rightarrow> 'v coro_state option" where
  "coro_resume h ev s =
     (case frames s h of
        None \<Rightarrow> None
      | Some f \<Rightarrow> (case fr_point f of
            At_start b \<Rightarrow> run_body h b s
          | At_await n k \<Rightarrow> Option.bind (task_await_resume n s) (\<lambda>(v, s1). run_body h (k v) s1)
          | At_event k \<Rightarrow> Option.bind ev (\<lambda>v. run_body h (k v) s)
          | _ \<Rightarrow> None))"

text \<open>\<^verbatim>\<open>await_suspend\<close> of the awaitable of a task saves the caller and passes control to the task.\<close>

definition task_await_suspend :: "nat \<Rightarrow> nat \<Rightarrow> 'v coro_state \<Rightarrow> 'v coro_state option" where
  "task_await_suspend n h s = Option.bind (frame_set n (\<lambda>f. f\<lparr>fr_caller := Some h\<rparr>) s) (coro_resume n None)"

definition co_await_task :: "nat \<Rightarrow> nat \<Rightarrow> ('v \<Rightarrow> 'v body) \<Rightarrow> 'v coro_state \<Rightarrow> 'v coro_state option" where
  "co_await_task h n k s = Option.bind (frame_set h (\<lambda>f. f\<lparr>fr_point := At_await n k\<rparr>) s) (task_await_suspend n h)"

subsection \<open>The promise\<close>

text \<open>A task without a caller does not suspend at its end, and its frame goes; otherwise control passes to the caller.\<close>

definition final_suspend :: "nat \<Rightarrow> 'v coro_state \<Rightarrow> 'v coro_state option" where
  "final_suspend h s =
     (case frames s h of
        None \<Rightarrow> None
      | Some f \<Rightarrow> (case fr_caller f of
            None \<Rightarrow> map_option (\<lambda>s. s\<lparr>control := Resumer\<rparr>) (frame_destroy h s)
          | Some c \<Rightarrow> Option.bind (frame_set h (\<lambda>f. f\<lparr>fr_point := At_end\<rparr>) s) (coro_resume c None)))"

definition return_value :: "nat \<Rightarrow> 'v \<Rightarrow> 'v coro_state \<Rightarrow> 'v coro_state option" where
  "return_value h v s = frame_set h (\<lambda>f. f\<lparr>fr_ret := Some v\<rparr>) s"

text \<open>The promise of a future has the value set and never suspends.  The handler of exceptions of a task is \<^verbatim>\<open>noexcept\<close> and
  rethrows, which ends the program.\<close>

definition sync_end :: "nat \<Rightarrow> 'v future_state \<Rightarrow> 'v coro_state \<Rightarrow> 'v coro_state option" where
  "sync_end h x s = map_option (\<lambda>s. s\<lparr>control := Resumer\<rparr>) (frame_destroy h (s\<lparr>future := x\<rparr>))"

definition unhandled_exception :: "nat \<Rightarrow> 'v coro_state \<Rightarrow> 'v coro_state option" where
  "unhandled_exception h s =
     (case frames s h of
        None \<Rightarrow> None
      | Some f \<Rightarrow> (case fr_promise f of
            Task_promise \<Rightarrow> Some (s\<lparr>control := Terminated\<rparr>)
          | Sync_promise \<Rightarrow> sync_end h Exception s))"

definition co_return :: "nat \<Rightarrow> 'v \<Rightarrow> 'v coro_state \<Rightarrow> 'v coro_state option" where
  "co_return h v s =
     (case frames s h of
        None \<Rightarrow> None
      | Some f \<Rightarrow> (case fr_promise f of
            Task_promise \<Rightarrow> Option.bind (return_value h v s) (final_suspend h)
          | Sync_promise \<Rightarrow> sync_end h (Value v) s))"

subsection \<open>Running\<close>

fun coro_step :: "'v coro_state \<Rightarrow> 'v coro_state option" where
  "coro_step s = (case control s of
     Running h (Co_return v) \<Rightarrow> co_return h v s
   | Running h Co_throw \<Rightarrow> unhandled_exception h s
   | Running h (Co_await b k) \<Rightarrow> (let (n, s1) = coro_call Task_promise (At_start b) s in co_await_task h n k s1)
   | Running h (Co_event k) \<Rightarrow>
       map_option (\<lambda>s. s\<lparr>control := Resumer, parked := Some h\<rparr>) (frame_set h (\<lambda>f. f\<lparr>fr_point := At_event k\<rparr>) s)
   | _ \<Rightarrow> None)"

text \<open>The steps until no coroutine runs; events come in the order of a list, and each resumes the frame that waits for it.\<close>

fun coro_run :: "nat \<Rightarrow> 'v list \<Rightarrow> 'v coro_state \<Rightarrow> 'v coro_state option" where
  "coro_run n evs s =
     (case control s of
        Running h b \<Rightarrow> (case n of 0 \<Rightarrow> None | Suc n \<Rightarrow> Option.bind (coro_step s) (coro_run n evs))
      | Terminated \<Rightarrow> Some s
      | Resumer \<Rightarrow> (case (parked s, evs) of
            (Some h, v # evs) \<Rightarrow>
              (case n of 0 \<Rightarrow> None
               | Suc n \<Rightarrow> Option.bind (coro_resume h (Some v) (s\<lparr>parked := None\<rparr>)) (coro_run n evs))
          | _ \<Rightarrow> Some s))"

definition coro_start :: "'v coro_state" where
  "coro_start = \<lparr>frames = Map.empty, next_frame = 0, control = Resumer, parked = None, future = Pending\<rparr>"

text \<open>\<^verbatim>\<open>to_future\<close> runs a coroutine whose body awaits the task; \<^verbatim>\<open>run_detached\<close> resumes the task without a caller.\<close>

definition to_future :: "nat \<Rightarrow> 'v coro_state \<Rightarrow> 'v coro_state option" where
  "to_future t s =
     (let (h, s1) = coro_call Sync_promise Executing s in co_await_task h t Co_return s1)"

definition run_detached :: "nat \<Rightarrow> 'v coro_state \<Rightarrow> 'v coro_state option" where
  "run_detached t s = coro_resume t None s"

section \<open>Tasks as ordinary functions\<close>

text \<open>What a coroutine is meant to be: a function that calls other functions and reads events, with the events that are left.\<close>

datatype 'v outcome = Returned 'v | Raised | Waiting

primrec body_eval :: "'v body \<Rightarrow> 'v list \<Rightarrow> 'v outcome \<times> 'v list" where
  "body_eval (Co_return v) evs = (Returned v, evs)"
| "body_eval Co_throw evs = (Raised, evs)"
| "body_eval (Co_await b k) evs =
     (case body_eval b evs of (Returned v, evs1) \<Rightarrow> body_eval (k v) evs1 | (x, evs1) \<Rightarrow> (x, evs1))"
| "body_eval (Co_event k) evs = (case evs of [] \<Rightarrow> (Waiting, []) | v # evs1 \<Rightarrow> body_eval (k v) evs1)"

section \<open>Running a task\<close>

declare coro_run.simps [simp del] coro_step.simps [simp del]

lemma coro_run_Running:
  "control s = Running h b \<Longrightarrow> coro_run (Suc n) evs s = Option.bind (coro_step s) (coro_run n evs)"
  by (simp add: coro_run.simps)

lemma coro_run_event:
  "\<lbrakk>control s = Resumer; parked s = Some h\<rbrakk> \<Longrightarrow>
     coro_run (Suc n) (v # evs) s = Option.bind (coro_resume h (Some v) (s\<lparr>parked := None\<rparr>)) (coro_run n evs)"
  by (simp add: coro_run.simps)

lemma coro_run_stop:
  "control s = Terminated \<Longrightarrow> coro_run n evs s = Some s"
  "\<lbrakk>control s = Resumer; parked s = None \<or> evs = []\<rbrakk> \<Longrightarrow> coro_run n evs s = Some s"
  by (auto simp: coro_run.simps split: option.splits)

lemmas coro_defs = coro_call_def frame_set_def frame_destroy_def run_body_def task_await_resume_def coro_resume_def
  task_await_suspend_def co_await_task_def final_suspend_def return_value_def sync_end_def co_return_def
  unhandled_exception_def

text \<open>The state in which a frame runs a body, and everything above the next frame is free.\<close>

definition at_body :: "nat \<Rightarrow> 'v body \<Rightarrow> 'v coro_state \<Rightarrow> bool" where
  "at_body h b s \<longleftrightarrow> control s = Running h b \<and> parked s = None \<and>
     (\<exists>f. frames s h = Some f \<and> fr_point f = Executing \<and> fr_promise f = Task_promise) \<and>
     (\<forall>i \<ge> next_frame s. frames s i = None)"

lemma at_body_fresh: "at_body h b s \<Longrightarrow> h \<noteq> next_frame s \<and> frames s (next_frame s) = None"
  unfolding at_body_def by (metis option.distinct(1) order_refl)

text \<open>The frame as an awaited task begins.\<close>

definition awaited :: "nat \<Rightarrow> 'v body \<Rightarrow> ('v \<Rightarrow> 'v body) \<Rightarrow> 'v coro_state \<Rightarrow> 'v coro_state" where
  "awaited h b k s = s\<lparr>
     frames := (frames s)(h := map_option (\<lambda>f. f\<lparr>fr_point := At_await (next_frame s) k\<rparr>) (frames s h),
       next_frame s \<mapsto> \<lparr>fr_promise = Task_promise, fr_caller = Some h, fr_ret = None, fr_point = Executing\<rparr>),
     next_frame := next_frame s + 1, control := Running (next_frame s) b\<rparr>"

lemma awaited_begins:
  assumes "at_body h (Co_await b k) s"
  shows "coro_step s = Some (awaited h b k s)" "at_body (next_frame s) b (awaited h b k s)"
proof -
  obtain f where f: "frames s h = Some f" "fr_point f = Executing" "control s = Running h (Co_await b k)"
    using assms by (auto simp: at_body_def)
  note fresh = at_body_fresh [OF assms]
  show "coro_step s = Some (awaited h b k s)"
    using f fresh by (simp add: coro_step.simps coro_defs awaited_def fun_upd_twist)
  show "at_body (next_frame s) b (awaited h b k s)"
    using assms fresh by (auto simp: at_body_def awaited_def)
qed

lemma awaited_ends:
  assumes "at_body h (Co_await b k) s"
  shows "coro_step ((awaited h b k s)\<lparr>control := Running (next_frame s) (Co_return v), next_frame := j\<rparr>) =
    Some (s\<lparr>control := Running h (k v), next_frame := j\<rparr>)"
proof -
  obtain f where f: "frames s h = Some f" "fr_point f = Executing"
    using assms by (auto simp: at_body_def)
  note fresh = at_body_fresh [OF assms]
  have "(frames s)(next_frame s := None, h \<mapsto> f\<lparr>fr_point := Executing\<rparr>) = frames s"
    using f fresh by (auto simp: fun_eq_iff)
  then show ?thesis
    using f fresh by (cases s) (simp add: coro_step.simps coro_defs awaited_def fun_upd_twist)
qed

lemma event_resumed:
  assumes "at_body h (Co_event k) s"
  shows "coro_run (Suc (Suc n)) (v # evs) s = coro_run n evs (s\<lparr>control := Running h (k v)\<rparr>)"
proof -
  obtain f where f: "frames s h = Some f" "fr_point f = Executing" "control s = Running h (Co_event k)" "parked s = None"
    using assms by (auto simp: at_body_def)
  have "(frames s)(h \<mapsto> f\<lparr>fr_point := Executing\<rparr>) = frames s" using f by (auto simp: fun_eq_iff)
  then show ?thesis
    using f by (cases s) (simp add: coro_run_Running coro_run_event coro_step.simps coro_defs)
qed

text \<open>A frame that runs a body comes to return what the body evaluates to, or the program ends, or it waits.\<close>

definition body_result :: "nat \<Rightarrow> 'v list \<Rightarrow> 'v coro_state \<Rightarrow> 'v outcome \<times> 'v list \<Rightarrow> bool" where
  "body_result h evs s r = (case fst r of
     Returned v \<Rightarrow> (\<exists>n j. next_frame s \<le> j \<and>
       (\<forall>m. coro_run (n + m) evs s = coro_run m (snd r) (s\<lparr>control := Running h (Co_return v), next_frame := j\<rparr>)))
   | Raised \<Rightarrow> (\<exists>n s'. control s' = Terminated \<and> (\<forall>m. coro_run (n + m) evs s = Some s'))
   | Waiting \<Rightarrow> (\<exists>n s'. control s' = Resumer \<and> parked s' \<noteq> None \<and> future s' = future s \<and>
       (\<forall>m. coro_run (n + m) evs s = Some s')))"

lemma body_result_Returned:
  "body_result h evs s (Returned v, evs1) \<longleftrightarrow> (\<exists>n j. next_frame s \<le> j \<and>
     (\<forall>m. coro_run (n + m) evs s = coro_run m evs1 (s\<lparr>control := Running h (Co_return v), next_frame := j\<rparr>)))"
  by (simp add: body_result_def)

text \<open>Steps before a result, in which only new frames come and go.\<close>

lemma body_result_step:
  assumes "\<And>m. coro_run (n + m) evs s = coro_run m evs1 s1" "next_frame s \<le> next_frame s1"
    "\<And>g j. s1\<lparr>control := g, next_frame := j\<rparr> = s\<lparr>control := g, next_frame := j\<rparr>" "future s1 = future s"
    "body_result h evs1 s1 r"
  shows "body_result h evs s r"
proof (cases "fst r")
  case (Returned v)
  obtain k j where k: "next_frame s1 \<le> j"
      "\<And>m. coro_run (k + m) evs1 s1 = coro_run m (snd r) (s1\<lparr>control := Running h (Co_return v), next_frame := j\<rparr>)"
    using assms(5) Returned by (auto simp: body_result_def)
  have "coro_run ((n + k) + m) evs s = coro_run m (snd r) (s\<lparr>control := Running h (Co_return v), next_frame := j\<rparr>)" for m
    using k(2) assms(1,3) by (simp add: add.assoc)
  then show ?thesis using Returned k(1) assms(2) by (auto simp: body_result_def intro: order_trans)
next
  case Raised
  then obtain k s' where k: "control s' = Terminated" "\<And>m. coro_run (k + m) evs1 s1 = Some s'"
    using assms(5) by (auto simp: body_result_def)
  have "coro_run ((n + k) + m) evs s = Some s'" for m using k(2) assms(1) by (simp add: add.assoc)
  then show ?thesis using Raised k(1) by (auto simp: body_result_def)
next
  case Waiting
  then obtain k s' where k: "control s' = Resumer" "parked s' \<noteq> None" "future s' = future s1"
      "\<And>m. coro_run (k + m) evs1 s1 = Some s'"
    using assms(5) by (auto simp: body_result_def)
  have "coro_run ((n + k) + m) evs s = Some s'" for m using k(4) assms(1) by (simp add: add.assoc)
  then show ?thesis using Waiting k(1-3) assms(4) by (auto simp: body_result_def)
qed

lemma at_body_next:
  "\<lbrakk>at_body h b s; next_frame s \<le> j\<rbrakk> \<Longrightarrow> at_body h b' (s\<lparr>control := Running h b', next_frame := j\<rparr>)"
  by (auto simp: at_body_def)

lemma awaited_future [simp]: "future (awaited h b k s) = future s"
  by (simp add: awaited_def)

lemma awaited_next_frame [simp]: "next_frame (awaited h b k s) = next_frame s + 1"
  by (simp add: awaited_def)

lemma body_runs: "at_body h b s \<Longrightarrow> body_result h evs s (body_eval b evs)"
proof (induction b arbitrary: h s evs)
  case (Co_return v)
  then have "s\<lparr>control := Running h (Co_return v), next_frame := next_frame s\<rparr> = s" by (simp add: at_body_def)
  then show ?case
    unfolding body_eval.simps body_result_Returned
    by - (rule exI [of _ 0], rule exI [of _ "next_frame s"], simp)
next
  case Co_throw
  then have "coro_run (Suc 0 + m) evs s = Some (s\<lparr>control := Terminated\<rparr>)" for m
    by (auto simp: at_body_def coro_run_Running coro_run_stop coro_step.simps coro_defs)
  then show ?case by (auto simp: body_result_def intro!: exI [of _ "Suc 0"])
next
  case (Co_await b k)
  let ?s = "awaited h b k s"
  have begins: "coro_run (Suc m) evs s = coro_run m evs ?s" for m
    using awaited_begins(1) [OF Co_await.prems] Co_await.prems by (auto simp: at_body_def coro_run_Running)
  have IH: "body_result (next_frame s) evs ?s (body_eval b evs)"
    by (rule Co_await.IH(1) [OF awaited_begins(2) [OF Co_await.prems]])
  show ?case
  proof (cases "body_eval b evs")
    case (Pair x evs1)
    show ?thesis
    proof (cases x)
      case (Returned v)
      let ?s1 = "\<lambda>j. s\<lparr>control := Running h (k v), next_frame := j\<rparr>"
      obtain n j where n: "next_frame s + 1 \<le> j"
          "\<And>m. coro_run (n + m) evs ?s =
             coro_run m evs1 (?s\<lparr>control := Running (next_frame s) (Co_return v), next_frame := j\<rparr>)"
        using IH Pair Returned by (auto simp: body_result_Returned)
      have steps: "coro_run ((Suc (Suc n)) + m) evs s = coro_run m evs1 (?s1 j)" for m
        using begins [of "n + Suc m"] n(2) [of "Suc m"] awaited_ends [OF Co_await.prems, where v = v and j = j]
        by (simp add: coro_run_Running)
      have "body_result h evs1 (?s1 j) (body_eval (k v) evs1)"
        by (rule Co_await.IH(2)) (use at_body_next [OF Co_await.prems] n(1) in auto)
      then show ?thesis
        using body_result_step [OF steps] n(1) Pair Returned by simp
    next
      case Raised
      then obtain n s' where "control s' = Terminated" "\<And>m. coro_run (n + m) evs ?s = Some s'"
        using IH Pair by (auto simp: body_result_def)
      then show ?thesis using begins Pair Raised
        by (auto simp: body_result_def intro!: exI [of _ "Suc n"])
    next
      case Waiting
      then obtain n s' where "control s' = Resumer" "parked s' \<noteq> None" "future s' = future s"
          "\<And>m. coro_run (n + m) evs ?s = Some s'"
        using IH Pair by (auto simp: body_result_def)
      then show ?thesis using begins Pair Waiting
        by (auto simp: body_result_def intro!: exI [of _ "Suc n"])
    qed
  qed
next
  case (Co_event k)
  show ?case
  proof (cases evs)
    case Nil
    obtain f where "frames s h = Some f" "control s = Running h (Co_event k)" "parked s = None"
      using Co_event.prems by (auto simp: at_body_def)
    then have "coro_run (Suc m) [] s =
        Some (s\<lparr>frames := (frames s)(h \<mapsto> f\<lparr>fr_point := At_event k\<rparr>), control := Resumer, parked := Some h\<rparr>)" for m
      by (simp add: coro_run_Running coro_run_stop coro_step.simps coro_defs)
    then show ?thesis using Nil by (auto simp: body_result_def intro!: exI [of _ "Suc 0"])
  next
    case (Cons v evs1)
    have steps: "coro_run (Suc (Suc 0) + m) (v # evs1) s = coro_run m evs1 (s\<lparr>control := Running h (k v)\<rparr>)" for m
      using event_resumed [OF Co_event.prems] by simp
    have "body_result h evs1 (s\<lparr>control := Running h (k v)\<rparr>) (body_eval (k v) evs1)"
      by (rule Co_event.IH) (use Co_event.prems in \<open>auto simp: at_body_def\<close>)
    then show ?thesis using body_result_step [OF steps] Cons by simp
  qed
qed

section \<open>Properties\<close>

definition new_task :: "'v body \<Rightarrow> nat \<times> 'v coro_state" where
  "new_task b = coro_call Task_promise (At_start b) coro_start"

text \<open>A frame ends as its body does, when what it does after returning is known.\<close>

lemma task_ends:
  assumes "at_body h b s"
    and "\<And>v j. \<exists>s'. (\<forall>m evs. coro_run (d + m) evs (s\<lparr>control := Running h (Co_return v), next_frame := j\<rparr>) = Some s') \<and> Q v s'"
  shows "\<exists>n s'. (\<forall>m. coro_run (n + m) evs s = Some s') \<and>
    (case fst (body_eval b evs) of
       Returned v \<Rightarrow> Q v s'
     | Raised \<Rightarrow> control s' = Terminated
     | Waiting \<Rightarrow> future s' = future s \<and> parked s' \<noteq> None \<and> control s' = Resumer)"
proof -
  have result: "body_result h evs s (body_eval b evs)" using assms(1) by (rule body_runs)
  show ?thesis
  proof (cases "fst (body_eval b evs)")
    case (Returned v)
    then obtain n j where n: "\<And>m. coro_run (n + m) evs s =
        coro_run m (snd (body_eval b evs)) (s\<lparr>control := Running h (Co_return v), next_frame := j\<rparr>)"
      using result by (auto simp: body_result_def)
    obtain s' where s': "\<And>m evs. coro_run (d + m) evs (s\<lparr>control := Running h (Co_return v), next_frame := j\<rparr>) = Some s'"
        "Q v s'" using assms(2) by blast
    have "coro_run ((n + d) + m) evs s = Some s'" for m using n [of "d + m"] s'(1) by (simp add: add.assoc)
    then show ?thesis using Returned s'(2) by auto
  next
    case Raised
    then obtain n s' where "control s' = Terminated" "\<And>m. coro_run (n + m) evs s = Some s'"
      using result by (auto simp: body_result_def)
    then show ?thesis using Raised by auto
  next
    case Waiting
    then obtain n s' where "control s' = Resumer" "parked s' \<noteq> None" "future s' = future s"
        "\<And>m. coro_run (n + m) evs s = Some s'"
      using result by (auto simp: body_result_def)
    then show ?thesis using Waiting by auto
  qed
qed

text \<open>Both ways of running a task leave its frame at the start of its body.\<close>

lemma to_future_at_body:
  "\<exists>s. to_future (fst (new_task b)) (snd (new_task b)) = Some s \<and> at_body 0 b s \<and> future s = Pending \<and>
     frames s = [0 \<mapsto> \<lparr>fr_promise = Task_promise, fr_caller = Some 1, fr_ret = None, fr_point = Executing\<rparr>,
                 1 \<mapsto> \<lparr>fr_promise = Sync_promise, fr_caller = None, fr_ret = None, fr_point = At_await 0 Co_return\<rparr>]"
  by (auto simp: to_future_def new_task_def coro_start_def coro_defs at_body_def fun_upd_twist)

lemma run_detached_at_body:
  "\<exists>s. run_detached (fst (new_task b)) (snd (new_task b)) = Some s \<and> at_body 0 b s \<and>
     frames s = [0 \<mapsto> \<lparr>fr_promise = Task_promise, fr_caller = None, fr_ret = None, fr_point = Executing\<rparr>]"
  by (auto simp: run_detached_def new_task_def coro_start_def coro_defs at_body_def)

lemma to_future_runs:
  "\<exists>n s. (\<forall>m. Option.bind (to_future (fst (new_task b)) (snd (new_task b))) (coro_run (n + m) evs) = Some s) \<and>
     (case fst (body_eval b evs) of
        Returned v \<Rightarrow> future s = Value v \<and> frames s = Map.empty \<and> control s = Resumer
      | Raised \<Rightarrow> control s = Terminated
      | Waiting \<Rightarrow> future s = Pending \<and> parked s \<noteq> None \<and> control s = Resumer)"
proof -
  obtain s where s: "to_future (fst (new_task b)) (snd (new_task b)) = Some s" "at_body 0 b s" "future s = Pending"
     "frames s = [0 \<mapsto> \<lparr>fr_promise = Task_promise, fr_caller = Some 1, fr_ret = None, fr_point = Executing\<rparr>,
                 1 \<mapsto> \<lparr>fr_promise = Sync_promise, fr_caller = None, fr_ret = None, fr_point = At_await 0 Co_return\<rparr>]"
    using to_future_at_body [of b] by blast
  have "\<exists>s'. (\<forall>m evs. coro_run (2 + m) evs (s\<lparr>control := Running 0 (Co_return v), next_frame := j\<rparr>) = Some s') \<and>
      (future s' = Value v \<and> frames s' = Map.empty \<and> control s' = Resumer)" for v j
    using s(2,4) by (auto simp: at_body_def coro_run_Running coro_run_stop coro_step.simps coro_defs)
  from task_ends [OF s(2), where evs = evs and Q = "\<lambda>v s'. future s' = Value v \<and> frames s' = Map.empty \<and> control s' = Resumer", OF this]
  show ?thesis unfolding s(1,3) bind.bind_lunit .
qed

text \<open>C16: A task whose body does not raise behaves as an ordinary function of its body.  Whatever tasks the body awaits, however deep, and whatever
  events it waits for, when enough steps are allowed \<^verbatim>\<open>to_future\<close> sets the future to the value that the body evaluates to, leaves no frame behind
  and never resumes or destroys a frame that is not there; and when the body needs an event that does not come the future stays
  pending with a frame parked for the event.\<close>

theorem to_future_evaluates:
  assumes "fst (body_eval b evs) \<noteq> Raised"
  shows "\<exists>n s. (\<forall>m. Option.bind (to_future (fst (new_task b)) (snd (new_task b))) (coro_run (n + m) evs) = Some s) \<and>
     control s = Resumer \<and>
     (case fst (body_eval b evs) of
        Returned v \<Rightarrow> future s = Value v \<and> frames s = Map.empty
      | _ \<Rightarrow> future s = Pending \<and> parked s \<noteq> None)"
proof -
  obtain n s where r: "\<And>m. Option.bind (to_future (fst (new_task b)) (snd (new_task b))) (coro_run (n + m) evs) = Some s"
    and c: "case fst (body_eval b evs) of
        Returned v \<Rightarrow> future s = Value v \<and> frames s = Map.empty \<and> control s = Resumer
      | Raised \<Rightarrow> control s = Terminated
      | Waiting \<Rightarrow> future s = Pending \<and> parked s \<noteq> None \<and> control s = Resumer"
    using to_future_runs [of b evs] by blast
  have "control s = Resumer \<and> (case fst (body_eval b evs) of
        Returned v \<Rightarrow> future s = Value v \<and> frames s = Map.empty
      | _ \<Rightarrow> future s = Pending \<and> parked s \<noteq> None)"
    using c assms by (cases "fst (body_eval b evs)") auto
  with r show ?thesis by blast
qed

text \<open>A body that awaits a task which waits for an event and doubles it, and adds one.\<close>

definition doubling_body :: "nat body" where
  "doubling_body = Co_await (Co_event (\<lambda>v. Co_return (2 * v))) (\<lambda>w. Co_await (Co_return 1) (\<lambda>x. Co_return (w + x)))"

theorem to_future_evaluates_witness:
  "(\<exists>n s. (\<forall>m. Option.bind (to_future (fst (new_task doubling_body)) (snd (new_task doubling_body))) (coro_run (n + m) [20]) = Some s) \<and>
      future s = Value 41 \<and> frames s = Map.empty) \<and>
   (\<exists>n s. (\<forall>m. Option.bind (to_future (fst (new_task doubling_body)) (snd (new_task doubling_body))) (coro_run (n + m) []) = Some s) \<and>
      future s = Pending \<and> parked s \<noteq> None)"
proof -
  have "fst (body_eval doubling_body [20]) = Returned 41" "fst (body_eval doubling_body []) = Waiting"
    by (simp_all add: doubling_body_def)
  then show ?thesis
    using to_future_evaluates [of doubling_body "[20]"] to_future_evaluates [of doubling_body "[]"] by fastforce
qed

text \<open>Also: an exception in a task ends the program, because its handler is \<^verbatim>\<open>noexcept\<close> and rethrows.\<close>

theorem task_exception_terminates:
  fixes b :: "'v body"
  defines "b \<equiv> Co_throw"
  shows "\<exists>s. Option.bind (to_future (fst (new_task b)) (snd (new_task b))) (coro_run 1 []) = Some s \<and> control s = Terminated"
proof -
  obtain s where s: "to_future (fst (new_task b)) (snd (new_task b)) = Some s" "at_body 0 b s"
    using to_future_at_body [of b] by blast
  then show ?thesis
    unfolding s(1) b_def by (auto simp: at_body_def coro_run_Running coro_run_stop coro_step.simps coro_defs)
qed

text \<open>Also: Detached, a task runs to the same end without a caller: when its body returns, its frame destroys itself, and when enough
  steps are allowed no frame is left.\<close>

theorem run_detached_evaluates:
  "\<exists>n s. (\<forall>m. Option.bind (run_detached (fst (new_task b)) (snd (new_task b))) (coro_run (n + m) evs) = Some s) \<and>
     (case fst (body_eval b evs) of
        Returned v \<Rightarrow> frames s = Map.empty \<and> control s = Resumer
      | Raised \<Rightarrow> control s = Terminated
      | Waiting \<Rightarrow> parked s \<noteq> None \<and> control s = Resumer)"
proof -
  obtain s where s: "run_detached (fst (new_task b)) (snd (new_task b)) = Some s" "at_body 0 b s"
     "frames s = [0 \<mapsto> \<lparr>fr_promise = Task_promise, fr_caller = None, fr_ret = None, fr_point = Executing\<rparr>]"
    using run_detached_at_body [of b] by blast
  have "\<exists>s'. (\<forall>m evs. coro_run (1 + m) evs (s\<lparr>control := Running 0 (Co_return v), next_frame := j\<rparr>) = Some s') \<and>
      (frames s' = Map.empty \<and> control s' = Resumer)" for v j
    using s(2,3) by (auto simp: at_body_def coro_run_Running coro_run_stop coro_step.simps coro_defs)
  from task_ends [OF s(2), where evs = evs and Q = "\<lambda>v s'. frames s' = Map.empty \<and> control s' = Resumer", OF this]
  show ?thesis unfolding s(1) bind.bind_lunit by (rule ex_forward [OF _ ex_forward]) (auto split: outcome.splits)
qed

end
