(* ===== verification/MoveFunction.thy ===== *)
theory MoveFunction
  imports Prelude
begin

text \<open>
  \<^verbatim>\<open>MoveOnlyFunction\<close> of \<^verbatim>\<open>common/move_only_function.h\<close>: a callable that is kept in a buffer of the wrapper when it is small and on the heap
  otherwise.  Wrappers are numbered cells of a program; the memory maps the places of objects to the objects.  What C++
  leaves undefined (destroying or moving from what is not an object, building over an object, deleting what is not on
  the heap) is \<^const>\<open>None\<close>.
\<close>

section \<open>Model\<close>

datatype place = Buf nat | Heap nat

text \<open>An object has its callable, or none after that was moved away.  A cell that holds a wrapper has its pointer.\<close>

record 'f memory =
  objs :: "place \<rightharpoonup> 'f option"
  m_ptr :: "nat \<rightharpoonup> place option"
  fresh_heap :: nat

definition memory_start :: "'f memory" where
  "memory_start = \<lparr>objs = Map.empty, m_ptr = Map.empty, fresh_heap = 0\<rparr>"

definition is_sbo :: "nat \<Rightarrow> place \<Rightarrow> bool" where
  "is_sbo c l \<longleftrightarrow> l = Buf c"

definition destroy_object :: "place \<Rightarrow> 'f memory \<Rightarrow> 'f memory option" where
  "destroy_object l m = (case objs m l of None \<Rightarrow> None | Some x \<Rightarrow> Some (m\<lparr>objs := (objs m)(l := None)\<rparr>))"

definition delete_object :: "place \<Rightarrow> 'f memory \<Rightarrow> 'f memory option" where
  "delete_object l m = (case l of Heap n \<Rightarrow> destroy_object l m | Buf c \<Rightarrow> None)"

definition build_object :: "place \<Rightarrow> 'f \<Rightarrow> 'f memory \<Rightarrow> 'f memory option" where
  "build_object l f m = (case objs m l of None \<Rightarrow> Some (m\<lparr>objs := (objs m)(l \<mapsto> Some f)\<rparr>) | Some x \<Rightarrow> None)"

definition set_ptr :: "nat \<Rightarrow> place option \<Rightarrow> 'f memory \<Rightarrow> 'f memory" where
  "set_ptr c p m = m\<lparr>m_ptr := (m_ptr m)(c \<mapsto> p)\<rparr>"

text \<open>\<^verbatim>\<open>move_into\<close> of the callable at a place.\<close>

definition move_into :: "place \<Rightarrow> place \<Rightarrow> 'f memory \<Rightarrow> 'f memory option" where
  "move_into l dst m =
     (case objs m l of
        Some (Some f) \<Rightarrow> build_object dst f (m\<lparr>objs := (objs m)(l \<mapsto> None)\<rparr>)
      | _ \<Rightarrow> None)"

text \<open>The members of the storage, on the cell whose pointer is given; \<^verbatim>\<open>small\<close> says whether a callable fits the buffer.\<close>

definition sbo_make :: "('f \<Rightarrow> bool) \<Rightarrow> nat \<Rightarrow> 'f \<Rightarrow> 'f memory \<Rightarrow> 'f memory option" where
  "sbo_make small c f m =
     (if small f then map_option (set_ptr c (Some (Buf c))) (build_object (Buf c) f m)
      else map_option (set_ptr c (Some (Heap (fresh_heap m))))
        (build_object (Heap (fresh_heap m)) f (m\<lparr>fresh_heap := fresh_heap m + 1\<rparr>)))"

definition sbo_reset :: "nat \<Rightarrow> place option \<Rightarrow> 'f memory \<Rightarrow> 'f memory option" where
  "sbo_reset c p m =
     (case p of
        None \<Rightarrow> Some m
      | Some l \<Rightarrow> map_option (set_ptr c None) (if is_sbo c l then destroy_object l m else delete_object l m))"

definition sbo_take :: "nat \<Rightarrow> nat \<Rightarrow> place option \<Rightarrow> 'f memory \<Rightarrow> 'f memory option" where
  "sbo_take c d p m =
     (case p of
        Some l \<Rightarrow>
          if is_sbo d l
          then Option.bind (move_into l (Buf c) m) (\<lambda>m1. sbo_reset d p (set_ptr c (Some (Buf c)) m1))
          else Some (set_ptr d None (set_ptr c p m))
      | None \<Rightarrow> Some (set_ptr d None (set_ptr c p m)))"

definition sbo_assign :: "nat \<Rightarrow> place option \<Rightarrow> nat \<Rightarrow> place option \<Rightarrow> 'f memory \<Rightarrow> 'f memory option" where
  "sbo_assign c q d p m = (if c \<noteq> d then Option.bind (sbo_reset c q m) (sbo_take c d p) else Some m)"

text \<open>A call gives the callable that runs, or raises.\<close>

datatype 'f call_result = Bad_function_call | Runs 'f

definition mof_call :: "nat \<Rightarrow> 'f memory \<Rightarrow> 'f call_result option" where
  "mof_call c m =
     (case m_ptr m c of
        None \<Rightarrow> None
      | Some None \<Rightarrow> Some Bad_function_call
      | Some (Some l) \<Rightarrow> (case objs m l of Some (Some f) \<Rightarrow> Some (Runs f) | _ \<Rightarrow> None))"

definition mof_engaged :: "nat \<Rightarrow> 'f memory \<Rightarrow> bool option" where
  "mof_engaged c m = map_option (\<lambda>p. p \<noteq> None) (m_ptr m c)"

subsection \<open>Programs\<close>

datatype 'f mof_op = Make_empty nat | Make nat 'f | Move_new nat nat | Assign nat nat | Destroy nat

text \<open>An operation that C++ does not let a program write, on a cell that has no wrapper or already has one, does nothing.\<close>

fun mof_step :: "('f \<Rightarrow> bool) \<Rightarrow> 'f mof_op \<Rightarrow> 'f memory \<Rightarrow> 'f memory option" where
  "mof_step small (Make_empty c) m = (case m_ptr m c of None \<Rightarrow> Some (set_ptr c None m) | Some p \<Rightarrow> Some m)"
| "mof_step small (Make c f) m = (case m_ptr m c of None \<Rightarrow> sbo_make small c f m | Some p \<Rightarrow> Some m)"
| "mof_step small (Move_new c d) m =
     (case (m_ptr m c, m_ptr m d) of (None, Some p) \<Rightarrow> sbo_take c d p m | _ \<Rightarrow> Some m)"
| "mof_step small (Assign c d) m =
     (case (m_ptr m c, m_ptr m d) of (Some q, Some p) \<Rightarrow> sbo_assign c q d p m | _ \<Rightarrow> Some m)"
| "mof_step small (Destroy c) m =
     (case m_ptr m c of
        None \<Rightarrow> Some m
      | Some p \<Rightarrow> map_option (\<lambda>m. m\<lparr>m_ptr := (m_ptr m)(c := None)\<rparr>) (sbo_reset c p m))"

fun mof_run :: "('f \<Rightarrow> bool) \<Rightarrow> 'f mof_op list \<Rightarrow> 'f memory \<Rightarrow> 'f memory option" where
  "mof_run small [] m = Some m"
| "mof_run small (a # as) m = Option.bind (mof_step small a m) (mof_run small as)"

section \<open>Cells of callables\<close>

text \<open>What the wrappers are for: cells that each have a callable or none, without memory.\<close>

fun cell_step :: "'f mof_op \<Rightarrow> (nat \<rightharpoonup> 'f option) \<Rightarrow> nat \<rightharpoonup> 'f option" where
  "cell_step (Make_empty c) s = (if s c = None then s(c \<mapsto> None) else s)"
| "cell_step (Make c f) s = (if s c = None then s(c \<mapsto> Some f) else s)"
| "cell_step (Move_new c d) s = (case (s c, s d) of (None, Some x) \<Rightarrow> s(c \<mapsto> x, d \<mapsto> None) | _ \<Rightarrow> s)"
| "cell_step (Assign c d) s =
     (case (s c, s d) of (Some y, Some x) \<Rightarrow> if c = d then s else s(c \<mapsto> x, d \<mapsto> None) | _ \<Rightarrow> s)"
| "cell_step (Destroy c) s = s(c := None)"

definition cells :: "'f memory \<Rightarrow> nat \<rightharpoonup> 'f option" where
  "cells m c = map_option (\<lambda>p. Option.bind p (\<lambda>l. Option.bind (objs m l) id)) (m_ptr m c)"

text \<open>Every pointer leads to an object with a callable, in the buffer of the cell when it is small and on the heap otherwise, and every
  object has exactly one pointer.\<close>

definition memory_ok :: "('f \<Rightarrow> bool) \<Rightarrow> 'f memory \<Rightarrow> bool" where
  "memory_ok small m \<longleftrightarrow>
     (\<forall>c l. m_ptr m c = Some (Some l) \<longrightarrow>
        (\<exists>f. objs m l = Some (Some f) \<and> (if small f then l = Buf c else (\<exists>n < fresh_heap m. l = Heap n)))) \<and>
     (\<forall>l. objs m l \<noteq> None \<longrightarrow> (\<exists>c. m_ptr m c = Some (Some l))) \<and>
     (\<forall>c d l. m_ptr m c = Some (Some l) \<and> m_ptr m d = Some (Some l) \<longrightarrow> c = d)"

section \<open>What holds of the memory\<close>

lemma memory_ok_ptr:
  assumes "memory_ok small m" "m_ptr m c = Some (Some l)"
  obtains f where "objs m l = Some (Some f)" "if small f then l = Buf c else \<exists>n < fresh_heap m. l = Heap n"
  using assms unfolding memory_ok_def by blast

lemma memory_ok_owner:
  assumes "memory_ok small m" "objs m l = Some x"
  obtains c where "m_ptr m c = Some (Some l)"
  using assms unfolding memory_ok_def by (metis option.distinct(1))

lemma memory_ok_unique: "\<lbrakk>memory_ok small m; m_ptr m c = Some (Some l); m_ptr m d = Some (Some l)\<rbrakk> \<Longrightarrow> c = d"
  unfolding memory_ok_def by blast

text \<open>The buffer of a cell without a callable holds nothing, and neither does the heap above what was allocated.\<close>

lemma memory_ok_free_buf:
  assumes "memory_ok small m" "m_ptr m c = None \<or> m_ptr m c = Some None"
  shows "objs m (Buf c) = None"
proof (rule ccontr)
  assume "objs m (Buf c) \<noteq> None"
  then obtain x where "objs m (Buf c) = Some x" by blast
  then obtain e where e: "m_ptr m e = Some (Some (Buf c))" by (rule memory_ok_owner [OF assms(1)])
  obtain f where "if small f then Buf c = Buf e else \<exists>n < fresh_heap m. Buf c = Heap n"
    using memory_ok_ptr [OF assms(1) e] by blast
  then have "e = c" by (simp split: if_splits)
  with e assms(2) show False by simp
qed

lemma memory_ok_free_heap:
  assumes "memory_ok small m"
  shows "objs m (Heap (fresh_heap m)) = None"
proof (rule ccontr)
  assume "objs m (Heap (fresh_heap m)) \<noteq> None"
  then obtain x where "objs m (Heap (fresh_heap m)) = Some x" by blast
  then obtain e where e: "m_ptr m e = Some (Some (Heap (fresh_heap m)))" by (rule memory_ok_owner [OF assms])
  obtain f where "if small f then Heap (fresh_heap m) = Buf e else \<exists>n < fresh_heap m. Heap (fresh_heap m) = Heap n"
    using memory_ok_ptr [OF assms e] by blast
  then show False by (simp split: if_splits)
qed

lemma memory_okI:
  assumes "\<And>c l. m_ptr m c = Some (Some l) \<Longrightarrow>
      \<exists>f. objs m l = Some (Some f) \<and> (if small f then l = Buf c else (\<exists>n < fresh_heap m. l = Heap n))"
    and "\<And>l. objs m l \<noteq> None \<Longrightarrow> \<exists>c. m_ptr m c = Some (Some l)"
    and "\<And>c d l. \<lbrakk>m_ptr m c = Some (Some l); m_ptr m d = Some (Some l)\<rbrakk> \<Longrightarrow> c = d"
  shows "memory_ok small m"
  using assms unfolding memory_ok_def by blast

text \<open>The three ways in which a step changes the memory: an object goes, an object comes, a pointer moves.\<close>

lemma memory_ok_drop:
  assumes "memory_ok small m" "m_ptr m c = Some (Some l)"
  defines "m' \<equiv> m\<lparr>objs := (objs m)(l := None), m_ptr := (m_ptr m)(c \<mapsto> None)\<rparr>"
  shows "memory_ok small m'" "cells m' = (cells m)(c \<mapsto> None)"
proof -
  have other: "k \<noteq> l" if "m_ptr m e = Some (Some k)" "e \<noteq> c" for e k
    using memory_ok_unique [OF assms(1) assms(2)] that by blast
  show "memory_ok small m'"
  proof (rule memory_okI)
    fix e k assume "m_ptr m' e = Some (Some k)"
    then have e: "e \<noteq> c" "m_ptr m e = Some (Some k)" by (auto simp: m'_def split: if_splits)
    show "\<exists>f. objs m' k = Some (Some f) \<and> (if small f then k = Buf e else \<exists>n < fresh_heap m'. k = Heap n)"
      by (rule memory_ok_ptr [OF assms(1) e(2)]) (use other [OF e(2,1)] in \<open>simp add: m'_def\<close>)
  next
    fix k assume "objs m' k \<noteq> None"
    then obtain x where k: "k \<noteq> l" "objs m k = Some x" by (auto simp: m'_def split: if_splits)
    obtain e where "m_ptr m e = Some (Some k)" by (rule memory_ok_owner [OF assms(1) k(2)])
    then show "\<exists>e. m_ptr m' e = Some (Some k)"
      using assms(2) k(1) by (intro exI [of _ e]) (auto simp: m'_def)
  next
    fix e d k assume "m_ptr m' e = Some (Some k)" "m_ptr m' d = Some (Some k)"
    then show "e = d" using memory_ok_unique [OF assms(1)] by (auto simp: m'_def split: if_splits)
  qed
  show "cells m' = (cells m)(c \<mapsto> None)"
  proof
    fix e
    show "cells m' e = ((cells m)(c \<mapsto> None)) e"
    proof (cases "m_ptr m e")
      case (Some q)
      then show ?thesis using other by (cases q) (auto simp: cells_def m'_def)
    qed (auto simp: cells_def m'_def)
  qed
qed

lemma memory_ok_add:
  assumes "memory_ok small m" "m_ptr m c = None \<or> m_ptr m c = Some None" "objs m l = None" "fresh_heap m \<le> h"
    "if small f then l = Buf c else \<exists>n < h. l = Heap n"
  defines "m' \<equiv> m\<lparr>fresh_heap := h, objs := (objs m)(l \<mapsto> Some f), m_ptr := (m_ptr m)(c \<mapsto> Some l)\<rparr>"
  shows "memory_ok small m'" "cells m' = (cells m)(c \<mapsto> Some f)"
proof -
  have other: "k \<noteq> l" if "m_ptr m e = Some (Some k)" for e k
    using memory_ok_ptr [OF assms(1) that] assms(3) by force
  show "memory_ok small m'"
  proof (rule memory_okI)
    fix e k assume e: "m_ptr m' e = Some (Some k)"
    show "\<exists>f. objs m' k = Some (Some f) \<and> (if small f then k = Buf e else \<exists>n < fresh_heap m'. k = Heap n)"
    proof (cases "e = c")
      case False
      then have e': "m_ptr m e = Some (Some k)" using e by (simp add: m'_def)
      obtain g where g: "objs m k = Some (Some g)" "if small g then k = Buf e else \<exists>n < fresh_heap m. k = Heap n"
        by (rule memory_ok_ptr [OF assms(1) e'])
      then have "if small g then k = Buf e else \<exists>n < h. k = Heap n"
        using assms(4) by (metis order_less_le_trans)
      then show ?thesis using g other [OF e'] by (simp add: m'_def)
    qed (use e assms(5) in \<open>auto simp: m'_def split: if_splits\<close>)
  next
    fix k assume "objs m' k \<noteq> None"
    then show "\<exists>e. m_ptr m' e = Some (Some k)"
    proof (cases "k = l")
      case False
      then obtain x where "objs m k = Some x" using \<open>objs m' k \<noteq> None\<close> by (auto simp: m'_def)
      then obtain e where "m_ptr m e = Some (Some k)" by (rule memory_ok_owner [OF assms(1)])
      then show ?thesis using assms(2) by (intro exI [of _ e]) (auto simp: m'_def)
    qed (auto simp: m'_def)
  next
    fix e d k assume "m_ptr m' e = Some (Some k)" "m_ptr m' d = Some (Some k)"
    then show "e = d" using memory_ok_unique [OF assms(1)] by (auto simp: m'_def split: if_splits dest: other)
  qed
  show "cells m' = (cells m)(c \<mapsto> Some f)"
  proof
    fix e
    show "cells m' e = ((cells m)(c \<mapsto> Some f)) e"
    proof (cases "m_ptr m e")
      case (Some q)
      then show ?thesis using other by (cases q) (auto simp: cells_def m'_def)
    qed (auto simp: cells_def m'_def)
  qed
qed

lemma memory_ok_move:
  assumes "memory_ok small m" "m_ptr m c = None \<or> m_ptr m c = Some None" "m_ptr m d = Some (Some l)" "\<not> is_sbo d l"
  defines "m' \<equiv> m\<lparr>m_ptr := (m_ptr m)(c \<mapsto> Some l, d \<mapsto> None)\<rparr>"
  shows "memory_ok small m'" "cells m' = (cells m)(c \<mapsto> the (cells m d), d \<mapsto> None)"
proof -
  have "c \<noteq> d" using assms(2,3) by auto
  obtain g where g: "objs m l = Some (Some g)" "if small g then l = Buf d else \<exists>n < fresh_heap m. l = Heap n"
    by (rule memory_ok_ptr [OF assms(1,3)])
  then have "\<not> small g" using assms(4) by (simp add: is_sbo_def split: if_splits)
  have other: "k \<noteq> l" if "m_ptr m e = Some (Some k)" "e \<noteq> d" for e k
    using memory_ok_unique [OF assms(1) assms(3)] that by blast
  show "memory_ok small m'"
  proof (rule memory_okI)
    fix e k assume e: "m_ptr m' e = Some (Some k)"
    show "\<exists>f. objs m' k = Some (Some f) \<and> (if small f then k = Buf e else \<exists>n < fresh_heap m'. k = Heap n)"
    proof (cases "e = c")
      case True
      then show ?thesis using e g \<open>\<not> small g\<close> \<open>c \<noteq> d\<close> by (auto simp: m'_def)
    next
      case False
      then have "m_ptr m e = Some (Some k)" using e by (simp add: m'_def split: if_splits)
      then show ?thesis by (rule memory_ok_ptr [OF assms(1)]) (simp add: m'_def)
    qed
  next
    fix k assume "objs m' k \<noteq> None"
    then obtain x where "objs m k = Some x" by (auto simp: m'_def)
    then obtain e where e: "m_ptr m e = Some (Some k)" by (rule memory_ok_owner [OF assms(1)])
    show "\<exists>e. m_ptr m' e = Some (Some k)"
    proof (cases "e = d")
      case True
      then show ?thesis using e assms(3) \<open>c \<noteq> d\<close> by (intro exI [of _ c]) (simp add: m'_def)
    next
      case False
      then show ?thesis using e assms(2) by (intro exI [of _ e]) (auto simp: m'_def)
    qed
  next
    fix e k j assume "m_ptr m' e = Some (Some j)" "m_ptr m' k = Some (Some j)"
    then show "e = k" using memory_ok_unique [OF assms(1)] by (auto simp: m'_def split: if_splits dest: other)
  qed
  show "cells m' = (cells m)(c \<mapsto> the (cells m d), d \<mapsto> None)"
    using assms(3) \<open>c \<noteq> d\<close> by (auto simp: cells_def m'_def fun_eq_iff)
qed

subsection \<open>The members of the storage\<close>

lemma cells_at:
  assumes "memory_ok small m" "m_ptr m c = Some (Some l)" "objs m l = Some (Some f)"
  shows "cells m c = Some (Some f)"
  using assms by (simp add: cells_def)

lemma cells_none [simp]: "cells m c = None \<longleftrightarrow> m_ptr m c = None"
  by (simp add: cells_def)

lemma cells_empty [simp]: "m_ptr m c = Some None \<Longrightarrow> cells m c = Some None"
  by (simp add: cells_def)

lemma memory_ok_leave:
  assumes "memory_ok small m" "m_ptr m c = None \<or> m_ptr m c = Some None" "p = None \<or> p = Some None"
  shows "memory_ok small (m\<lparr>m_ptr := (m_ptr m)(c := p)\<rparr>)"
    "cells (m\<lparr>m_ptr := (m_ptr m)(c := p)\<rparr>) = (cells m)(c := map_option (\<lambda>x. None) p)"
proof -
  have "((m_ptr m)(c := p)) e = Some (Some l) \<longleftrightarrow> m_ptr m e = Some (Some l)" for e l
    using assms(2,3) by auto
  then show "memory_ok small (m\<lparr>m_ptr := (m_ptr m)(c := p)\<rparr>)" using assms(1) by (simp add: memory_ok_def del: fun_upd_apply split del: if_split cong: if_cong)
  show "cells (m\<lparr>m_ptr := (m_ptr m)(c := p)\<rparr>) = (cells m)(c := map_option (\<lambda>x. None) p)"
    using assms(3) by (auto simp: cells_def fun_eq_iff)
qed

lemma sbo_reset_ok:
  assumes "memory_ok small m" "m_ptr m c = Some p"
  obtains m' where "sbo_reset c p m = Some m'" "memory_ok small m'" "cells m' = (cells m)(c \<mapsto> None)"
    "m_ptr m' = (m_ptr m)(c \<mapsto> None)"
proof (cases p)
  case None
  then show thesis using that [of m] assms by (simp add: sbo_reset_def fun_upd_idem)
next
  case (Some l)
  let ?m = "m\<lparr>objs := (objs m)(l := None), m_ptr := (m_ptr m)(c \<mapsto> None)\<rparr>"
  have p: "m_ptr m c = Some (Some l)" using assms(2) Some by simp
  obtain f where f: "objs m l = Some (Some f)" "if small f then l = Buf c else \<exists>n < fresh_heap m. l = Heap n"
    by (rule memory_ok_ptr [OF assms(1) p])
  then have "sbo_reset c p m = Some ?m"
    by (auto simp: Some sbo_reset_def is_sbo_def destroy_object_def delete_object_def set_ptr_def split: if_splits)
  then show thesis using that [of ?m] memory_ok_drop [OF assms(1) p] by simp
qed

lemma sbo_make_ok:
  assumes "memory_ok small m" "m_ptr m c = None"
  obtains m' where "sbo_make small c f m = Some m'" "memory_ok small m'" "cells m' = (cells m)(c \<mapsto> Some f)"
proof (cases "small f")
  case True
  have free: "objs m (Buf c) = None" using memory_ok_free_buf assms by blast
  then show thesis
    using that memory_ok_add [OF assms(1) _ free order_refl, of c f] assms(2) True
    by (simp add: sbo_make_def build_object_def set_ptr_def)
next
  case False
  have free: "objs m (Heap (fresh_heap m)) = None" using memory_ok_free_heap assms(1) by blast
  then show thesis
    using that memory_ok_add [OF assms(1) _ free, of c "fresh_heap m + 1" f] assms(2) False
    by (simp add: sbo_make_def build_object_def set_ptr_def)
qed

text \<open>What lies in the buffer of the source is rebuilt in the buffer of the target and destroyed; what lies on the heap changes hands.\<close>

lemma sbo_take_ok:
  assumes "memory_ok small m" "m_ptr m c = None \<or> m_ptr m c = Some None" "m_ptr m d = Some p" "c \<noteq> d"
  obtains m' where "sbo_take c d p m = Some m'" "memory_ok small m'"
    "cells m' = (cells m)(c \<mapsto> the (cells m d), d \<mapsto> None)"
proof (cases p)
  case None
  let ?m = "m\<lparr>m_ptr := (m_ptr m)(c \<mapsto> None, d \<mapsto> None)\<rparr>"
  have "(m_ptr m)(c \<mapsto> None, d \<mapsto> None) = (m_ptr m)(c \<mapsto> None)"
    using assms(3) None by (auto simp: fun_eq_iff)
  then have "memory_ok small ?m" using memory_ok_leave(1) [OF assms(1,2), of "Some None"] by simp
  moreover have "cells ?m = (cells m)(c \<mapsto> the (cells m d), d \<mapsto> None)"
    using assms(3) None by (auto simp: cells_def fun_eq_iff)
  ultimately show thesis using that [of ?m] by (simp add: None sbo_take_def set_ptr_def)
next
  case (Some l)
  have p: "m_ptr m d = Some (Some l)" using assms(3) Some by simp
  obtain f where f: "objs m l = Some (Some f)" "if small f then l = Buf d else \<exists>n < fresh_heap m. l = Heap n"
    by (rule memory_ok_ptr [OF assms(1) p])
  show thesis
  proof (cases "is_sbo d l")
    case True
    let ?m1 = "m\<lparr>objs := (objs m)(l := None), m_ptr := (m_ptr m)(d \<mapsto> None)\<rparr>"
    let ?m2 = "?m1\<lparr>fresh_heap := fresh_heap ?m1, objs := (objs ?m1)(Buf c \<mapsto> Some f), m_ptr := (m_ptr ?m1)(c \<mapsto> Some (Buf c))\<rparr>"
    have l: "l = Buf d" "small f" using True f(2) by (auto simp: is_sbo_def split: if_splits)
    have drop: "memory_ok small ?m1" "cells ?m1 = (cells m)(d \<mapsto> None)"
      using memory_ok_drop [OF assms(1) p] by simp_all
    have free: "objs m (Buf c) = None" using memory_ok_free_buf [OF assms(1,2)] .
    have add: "memory_ok small ?m2" "cells ?m2 = (cells ?m1)(c \<mapsto> Some f)"
      by (rule memory_ok_add [OF drop(1)]; use assms(2,4) free l in simp)+
    have "(objs m)(Buf d \<mapsto> None, Buf c \<mapsto> Some f, Buf d := None) = (objs m)(Buf d := None, Buf c \<mapsto> Some f)"
      "(m_ptr m)(c \<mapsto> Some (Buf c), d \<mapsto> None) = (m_ptr m)(d \<mapsto> None, c \<mapsto> Some (Buf c))"
      using assms(4) by (auto simp: fun_eq_iff)
    then have "sbo_take c d p m = Some ?m2"
      using f(1) free assms(4)
      by (simp add: Some l sbo_take_def move_into_def build_object_def is_sbo_def sbo_reset_def destroy_object_def set_ptr_def)
    moreover have "cells ?m2 = (cells m)(c \<mapsto> the (cells m d), d \<mapsto> None)"
      using add(2) drop(2) assms(4) cells_at [OF assms(1) p f(1)] by (simp add: fun_upd_twist)
    ultimately show thesis using that add(1) by blast
  next
    case False
    then show thesis
      using that memory_ok_move [OF assms(1,2) p False] by (simp add: Some sbo_take_def set_ptr_def)
  qed
qed

subsection \<open>Programs\<close>

lemma cells_some: "m_ptr m c = Some p \<Longrightarrow> \<exists>x. cells m c = Some x"
  by (simp add: cells_def)

lemma mof_step_ok:
  assumes ok: "memory_ok small m"
  obtains m' where "mof_step small a m = Some m'" "memory_ok small m'" "cells m' = cell_step a (cells m)"
proof (cases a)
  case (Make_empty c)
  then show thesis
    using that [of m] that [of "set_ptr c None m"] ok memory_ok_leave [OF ok, of c "Some None"]
    by (cases "m_ptr m c") (auto simp: set_ptr_def)
next
  case (Make c f)
  show thesis
  proof (cases "m_ptr m c")
    case None
    then show thesis using that Make by (auto elim!: sbo_make_ok [OF ok, of c f])
  next
    case (Some p)
    then show thesis using that [of m] ok Make by simp
  qed
next
  case (Move_new c d)
  show thesis
  proof (cases "m_ptr m c = None \<and> m_ptr m d \<noteq> None")
    case True
    then obtain p where p: "m_ptr m d = Some p" "c \<noteq> d" by (metis option.exhaust)
    obtain m1 where "sbo_take c d p m = Some m1" "memory_ok small m1"
      "cells m1 = (cells m)(c \<mapsto> the (cells m d), d \<mapsto> None)"
      by (rule sbo_take_ok [OF ok _ p]) (use True in auto)
    moreover have "cells m c = None" using True by simp
    ultimately show thesis
      using that [of m1] Move_new True p cells_some [OF p(1)] by (auto simp del: cells_none)
  next
    case False
    then have "mof_step small a m = Some m" "cell_step a (cells m) = cells m"
      by (auto simp: Move_new cells_def split: option.splits)
    then show thesis using that [of m] ok by simp
  qed
next
  case (Assign c d)
  show thesis
  proof (cases "c \<noteq> d \<and> m_ptr m c \<noteq> None \<and> m_ptr m d \<noteq> None")
    case True
    then obtain q p where p: "m_ptr m c = Some q" "m_ptr m d = Some p" "c \<noteq> d" by auto
    obtain m1 where m1: "sbo_reset c q m = Some m1" "memory_ok small m1" "cells m1 = (cells m)(c \<mapsto> None)"
      "m_ptr m1 = (m_ptr m)(c \<mapsto> None)" by (rule sbo_reset_ok [OF ok p(1)])
    obtain m2 where m2: "sbo_take c d p m1 = Some m2" "memory_ok small m2"
      "cells m2 = (cells m1)(c \<mapsto> the (cells m1 d), d \<mapsto> None)"
      by (rule sbo_take_ok [OF m1(2), of c d p]) (use m1(4) p in auto)
    show thesis
      using that [of m2] m1 m2 p cells_some [OF p(1)] cells_some [OF p(2)] Assign by (auto simp: sbo_assign_def)
  next
    case False
    then have "mof_step small a m = Some m" "cell_step a (cells m) = cells m"
      by (auto simp: Assign sbo_assign_def cells_def split: option.splits)
    then show thesis using that [of m] ok by simp
  qed
next
  case (Destroy c)
  show thesis
  proof (cases "m_ptr m c")
    case None
    then show thesis using that [of m] ok Destroy by (simp add: fun_upd_idem)
  next
    case (Some p)
    obtain m1 where m1: "sbo_reset c p m = Some m1" "memory_ok small m1" "cells m1 = (cells m)(c \<mapsto> None)"
      "m_ptr m1 = (m_ptr m)(c \<mapsto> None)" by (rule sbo_reset_ok [OF ok Some])
    then show thesis
      using that [of "m1\<lparr>m_ptr := (m_ptr m1)(c := None)\<rparr>"] memory_ok_leave [OF m1(2), of c None] Some Destroy by simp
  qed
qed

lemma memory_ok_start [simp]: "memory_ok small memory_start" "cells memory_start = Map.empty"
  by (auto simp: memory_ok_def memory_start_def cells_def)

lemma mof_run_ok:
  assumes "memory_ok small m"
  shows "\<exists>m'. mof_run small as m = Some m' \<and> memory_ok small m' \<and> cells m' = fold cell_step as (cells m)"
  using assms
proof (induction "as" arbitrary: m)
  case (Cons a as)
  obtain m1 where "mof_step small a m = Some m1" "memory_ok small m1" "cells m1 = cell_step a (cells m)"
    by (rule mof_step_ok [OF Cons.prems])
  then show ?case using Cons.IH [of m1] by simp
qed simp

lemma mof_call_cells:
  assumes "memory_ok small m"
  shows "mof_call c m =
    (case cells m c of None \<Rightarrow> None | Some None \<Rightarrow> Some Bad_function_call | Some (Some f) \<Rightarrow> Some (Runs f))"
proof (cases "m_ptr m c")
  case (Some p)
  show ?thesis
  proof (cases p)
    case None
    then show ?thesis using Some by (simp add: mof_call_def)
  next
    case l: (Some l)
    obtain f where "objs m l = Some (Some f)" by (rule memory_ok_ptr [OF assms]) (use Some l in simp)
    then show ?thesis using Some l cells_at [OF assms] by (simp add: mof_call_def)
  qed
qed (simp add: mof_call_def cells_def)

lemma mof_engaged_cells:
  assumes "memory_ok small m"
  shows "mof_engaged c m = map_option (\<lambda>x. x \<noteq> None) (cells m c)"
proof (cases "m_ptr m c")
  case (Some p)
  show ?thesis
  proof (cases p)
    case None
    then show ?thesis using Some by (simp add: mof_engaged_def)
  next
    case l: (Some l)
    obtain f where "objs m l = Some (Some f)" by (rule memory_ok_ptr [OF assms]) (use Some l in simp)
    then show ?thesis using Some l cells_at [OF assms] by (simp add: mof_engaged_def)
  qed
qed (simp add: mof_engaged_def cells_def)

lemma memory_ok_no_leak:
  assumes "memory_ok small m"
  shows "bij_betw (\<lambda>c. the (the (m_ptr m c))) {c. \<exists>f. cells m c = Some (Some f)} (dom (objs m))"
proof -
  let ?place = "\<lambda>c. the (the (m_ptr m c))"
  have full: "(\<exists>f. cells m c = Some (Some f)) \<longleftrightarrow> (\<exists>l. m_ptr m c = Some (Some l))" for c
  proof
    assume "\<exists>f. cells m c = Some (Some f)"
    then show "\<exists>l. m_ptr m c = Some (Some l)" by (auto simp: cells_def split: Option.bind_splits)
  next
    assume "\<exists>l. m_ptr m c = Some (Some l)"
    then obtain l where l: "m_ptr m c = Some (Some l)" ..
    show "\<exists>f. cells m c = Some (Some f)" by (rule memory_ok_ptr [OF assms l]) (use cells_at [OF assms l] in blast)
  qed
  show ?thesis
  proof (rule bij_betwI')
    fix c d assume "c \<in> {c. \<exists>f. cells m c = Some (Some f)}" "d \<in> {c. \<exists>f. cells m c = Some (Some f)}"
    then obtain k l where "m_ptr m c = Some (Some k)" "m_ptr m d = Some (Some l)" using full by blast
    then show "?place c = ?place d \<longleftrightarrow> c = d" using memory_ok_unique [OF assms] by auto
  next
    fix c assume "c \<in> {c. \<exists>f. cells m c = Some (Some f)}"
    then obtain l where l: "m_ptr m c = Some (Some l)" using full by blast
    show "?place c \<in> dom (objs m)" by (rule memory_ok_ptr [OF assms l]) (use l in auto)
  next
    fix l assume "l \<in> dom (objs m)"
    then obtain x where "objs m l = Some x" by blast
    then obtain c where "m_ptr m c = Some (Some l)" by (rule memory_ok_owner [OF assms])
    then show "\<exists>c \<in> {c. \<exists>f. cells m c = Some (Some f)}. l = ?place c" using full by force
  qed
qed

section \<open>Properties\<close>

text \<open>C17: Every program that builds, moves, assigns and destroys wrappers, in any order, and with any division of the callables
  into small and large ones, runs without undefined behaviour: no callable is destroyed twice, built over another, or
  used after it was moved away.  The wrappers behave as cells that each have a callable or none: a call runs the callable
  that the program put there and raises \<^verbatim>\<open>bad_function_call\<close> when there is none, the conversion to \<^verbatim>\<open>bool\<close> says which, and the
  pointers of the wrappers with a callable lead one to one to all objects in memory, so nothing leaks.\<close>

theorem move_only_function_refines_cells:
  "\<exists>m. mof_run small ops memory_start = Some m \<and>
     (let s = fold cell_step ops Map.empty in
        (\<forall>c. mof_call c m =
           (case s c of None \<Rightarrow> None | Some None \<Rightarrow> Some Bad_function_call | Some (Some f) \<Rightarrow> Some (Runs f))) \<and>
        (\<forall>c. mof_engaged c m = map_option (\<lambda>x. x \<noteq> None) (s c)) \<and>
        bij_betw (\<lambda>c. the (the (m_ptr m c))) {c. \<exists>f. s c = Some (Some f)} (dom (objs m)))"
proof -
  obtain m where m: "mof_run small ops memory_start = Some m" "memory_ok small m" "cells m = fold cell_step ops Map.empty"
    using mof_run_ok [OF memory_ok_start(1), of small ops] by auto
  then show ?thesis
    using mof_call_cells [OF m(2)] mof_engaged_cells [OF m(2)] memory_ok_no_leak [OF m(2)] by (auto simp: Let_def)
qed

end
