(* ===== verification/NetInterfaces.thy ===== *)
theory NetInterfaces
  imports SocketAddress Guid
begin

text \<open>
  The part of \<^verbatim>\<open>common/net_utils.cpp\<close> that works with interfaces: binding a socket to an interface, the addresses of a socket, the
  choice of the active and of the preferred interface of Windows, the name servers that Windows keeps in its registry, and the
  name servers of the system resolver.  The answers of the systems are parameters; an \<^verbatim>\<open>unordered_set\<close> is a set, and the order
  in which a loop meets its elements is a parameter too.
\<close>

unbundle bit_operations_syntax

section \<open>Binding a socket\<close>

datatype platform = Linux | Windows | Apple

text \<open>The arguments of \<^verbatim>\<open>setsockopt\<close>; on Linux the name of the interface, elsewhere its index as the four octets of memory.\<close>

datatype sock_level = IPPROTO_IP | IPPROTO_IPV6
datatype sock_option = IP_UNICAST_IF | IPV6_UNICAST_IF | IP_BOUND_IF | IPV6_BOUND_IF

datatype sockopt_call = SO_BINDTODEVICE string | Bind_option sock_level sock_option u32

record net_system =
  indextoname :: "u32 \<Rightarrow> int + string"
  nametoindex :: "string \<Rightarrow> u32"
  setsockopt :: "sockopt_call \<Rightarrow> int option"
  error_to_string :: "int \<Rightarrow> string"

type_synonym net_error = "net_utils_error \<times> string"

definition fmt_number :: "int \<Rightarrow> string" where
  "fmt_number i = (if i < 0 then ''-'' @ dec (nat (- i)) else dec (nat i))"

definition fmt_error :: "net_system \<Rightarrow> int \<Rightarrow> string" where
  "fmt_error sys e = ''('' @ fmt_number e @ '') '' @ error_to_string sys e"

text \<open>The address family and option of an interface index, by platform; \<^verbatim>\<open>htonl\<close> is on a little-endian machine.\<close>

definition htonl :: "u32 \<Rightarrow> u32" where
  "htonl w = push_bit 24 (w AND 0xff) OR push_bit 8 (w AND 0xff00) OR (drop_bit 8 w AND 0xff00) OR drop_bit 24 w"

definition if_option :: "platform \<Rightarrow> int \<Rightarrow> u32 \<Rightarrow> sockopt_call option" where
  "if_option pl family if_index =
     (if family = uint AF_INET then
        Some (Bind_option IPPROTO_IP (if pl = Windows then IP_UNICAST_IF else IP_BOUND_IF)
          (if pl = Windows then htonl if_index else if_index))
      else if family = uint AF_INET6 then
        Some (Bind_option IPPROTO_IPV6 (if pl = Windows then IPV6_UNICAST_IF else IPV6_BOUND_IF) if_index)
      else None)"

definition bind_device :: "net_system \<Rightarrow> int \<Rightarrow> string \<Rightarrow> net_error option" where
  "bind_device sys fd if_name =
     (case setsockopt sys (SO_BINDTODEVICE if_name) of
        None \<Rightarrow> None
      | Some e \<Rightarrow> Some (AE_BIND_ERROR, ''fd '' @ fmt_number fd @ '' to interface '' @ if_name @ '': '' @ fmt_error sys e))"

definition bind_socket_to_if_index :: "platform \<Rightarrow> net_system \<Rightarrow> int \<Rightarrow> int \<Rightarrow> u32 \<Rightarrow> net_error option" where
  "bind_socket_to_if_index pl sys fd family if_index =
     (if pl = Linux then
        (case indextoname sys if_index of
           Inl e \<Rightarrow> Some (AE_INVALID_IF_INDEX, fmt_error sys e)
         | Inr name \<Rightarrow> bind_device sys fd name)
      else
        (case if_option pl family if_index of
           None \<Rightarrow> Some (AE_UNSUPPORTED_FAMILY, ''family: '' @ fmt_number family)
         | Some opt \<Rightarrow>
             (case setsockopt sys opt of
                None \<Rightarrow> None
              | Some e \<Rightarrow>
                  (case indextoname sys if_index of
                     Inr name \<Rightarrow>
                       Some (AE_BIND_ERROR, ''fd '' @ fmt_number fd @ '' to interface '' @ name @ '': '' @ fmt_error sys e)
                   | Inl e2 \<Rightarrow>
                       Some (AE_BIND_ERROR, ''fd '' @ fmt_number fd @ '' to interface '' @ dec (unat if_index) @ '': '' @
                         fmt_number e @ '': '' @ error_to_string sys e)))))"

definition bind_socket_to_if :: "platform \<Rightarrow> net_system \<Rightarrow> int \<Rightarrow> int \<Rightarrow> string \<Rightarrow> net_error option" where
  "bind_socket_to_if pl sys fd family if_name =
     (if pl = Linux then bind_device sys fd if_name
      else let if_index = nametoindex sys if_name
           in if if_index = 0 then Some (AE_INVALID_IF_NAME, if_name)
              else bind_socket_to_if_index pl sys fd family if_index)"

text \<open>\<^verbatim>\<open>getpeername\<close> and \<^verbatim>\<open>getsockname\<close> fill a \<^verbatim>\<open>sockaddr_storage\<close> or fail.\<close>

definition get_peer_address :: "bytes option \<Rightarrow> storage option" where
  "get_peer_address answer = map_option (\<lambda>addr. sa_of_sockaddr (Some addr)) answer"

definition get_local_address :: "bytes option \<Rightarrow> storage option" where
  "get_local_address answer = map_option (\<lambda>addr. sa_of_sockaddr (Some addr)) answer"

section \<open>Interfaces of Windows\<close>

datatype oper_status = IfOperStatusUp | IfOperStatusDown | IfOperStatusDormant | IfOperStatusOther nat

record adapter =
  IfType :: u32
  OperStatus :: oper_status
  FirstUnicastAddress :: "bytes option"
  IfIndex :: u32
  Ipv6IfIndex :: u32
  Ipv4Metric :: u32
  Ipv6Metric :: u32

definition is_physical_adapter :: "adapter \<Rightarrow> bool" where
  "is_physical_adapter aa =
     (if \<not> (IfType aa = 6 \<or> IfType aa = 71 \<or> IfType aa = 243 \<or> IfType aa = 244) then False
      else if OperStatus aa \<noteq> IfOperStatusUp \<and> OperStatus aa \<noteq> IfOperStatusDormant then False
      else FirstUnicastAddress aa \<noteq> None)"

definition ERROR_SUCCESS :: u32 where "ERROR_SUCCESS = 0"
definition ERROR_BUFFER_OVERFLOW :: u32 where "ERROR_BUFFER_OVERFLOW = 111"

text \<open>\<^verbatim>\<open>GetAdaptersAddresses\<close> is given a size and answers an error, the size it needs and the adapters.\<close>

type_synonym adapters_call = "nat \<Rightarrow> u32 \<times> nat \<times> adapter list"

fun add_indices :: "adapter list \<Rightarrow> u32 set \<Rightarrow> u32 set" where
  "add_indices [] ifs = ifs"
| "add_indices (p # ps) ifs =
     (if \<not> is_physical_adapter p then add_indices ps ifs
      else let ifs1 = (if IfIndex p \<noteq> 0 then insert (IfIndex p) ifs else ifs);
               ifs2 = (if Ipv6IfIndex p \<noteq> 0 then insert (Ipv6IfIndex p) ifs1 else ifs1)
           in add_indices ps ifs2)"

definition win_get_physical_interfaces :: "adapters_call \<Rightarrow> u32 set \<Rightarrow> u32 \<times> u32 set" where
  "win_get_physical_interfaces gaa physical_ifs =
     (let (ret, size, _) = gaa 0
      in if ret \<noteq> ERROR_BUFFER_OVERFLOW then (if ret = ERROR_SUCCESS then ERROR_SUCCESS else ret, physical_ifs)
         else let (ret2, _, adapters) = gaa size
              in if ret2 \<noteq> ERROR_SUCCESS then (ret2, physical_ifs)
                 else (ERROR_SUCCESS, add_indices adapters physical_ifs))"

record forward_row =
  Prefix :: bytes
  PrefixLength :: u8
  InterfaceIndex :: u32

definition default_row :: "forward_row \<Rightarrow> bool" where
  "default_row r \<longleftrightarrow> sa_is_any (sa_of_sockaddr (Some (Prefix r))) \<and> PrefixLength r = 0"

text \<open>\<^verbatim>\<open>GetIpForwardTable2\<close> for both families: an error or the rows.\<close>

definition get_default_route_ifs :: "u32 + forward_row list \<Rightarrow> u32 + forward_row list \<Rightarrow> u32 \<times> u32 set \<times> u32 set" where
  "get_default_route_ifs v4 v6 =
     (case v4 of
        Inl error \<Rightarrow> (error, {}, {})
      | Inr table_v4 \<Rightarrow> (case v6 of
            Inl error \<Rightarrow> (error, {}, {})
          | Inr table_v6 \<Rightarrow>
              (ERROR_SUCCESS, set (map InterfaceIndex (filter default_row table_v4)),
               set (map InterfaceIndex (filter default_row table_v6)))))"

definition NL_MAX_METRIC_COMPONENT :: u32 where "NL_MAX_METRIC_COMPONENT = 0x7fffffff"

text \<open>\<^verbatim>\<open>GetIpInterfaceEntry\<close> fails, or tells whether the interface is connected and its metric.\<close>

type_synonym interface_entry = "u32 \<Rightarrow> (bool \<times> u32) option"

fun min_metric_loop :: "interface_entry \<Rightarrow> u32 list \<Rightarrow> u32 \<times> u32 \<Rightarrow> u32 \<times> u32" where
  "min_metric_loop ent [] acc = acc"
| "min_metric_loop ent (index # is) (result_idx, min_metric) =
     min_metric_loop ent is
       (case ent index of
          None \<Rightarrow> (result_idx, min_metric)
        | Some (connected, metric) \<Rightarrow>
            if connected \<and> metric < min_metric then (index, metric) else (result_idx, min_metric))"

definition get_min_metric_if :: "interface_entry \<Rightarrow> u32 list \<Rightarrow> u32 \<times> u32" where
  "get_min_metric_if ent net_ifs = min_metric_loop ent net_ifs (0, NL_MAX_METRIC_COMPONENT)"

record win_system =
  GetAdaptersAddresses :: adapters_call
  forward_v4 :: "u32 + forward_row list"
  forward_v6 :: "u32 + forward_row list"
  entry_v4 :: interface_entry
  entry_v6 :: interface_entry
  set_order :: "u32 set \<Rightarrow> u32 list"
  if_guid :: "u32 \<Rightarrow> guid option"

text \<open>The index, and the error given to \<^verbatim>\<open>SetLastError\<close> if any.\<close>

definition win_detect_active_if :: "win_system \<Rightarrow> u32 \<times> u32 option" where
  "win_detect_active_if sys =
     (let (error, physical_ifs) = win_get_physical_interfaces (GetAdaptersAddresses sys) {}
      in if physical_ifs = {} then (0, Some error)
         else let (error, net_ifs_v4, net_ifs_v6) = get_default_route_ifs (forward_v4 sys) (forward_v6 sys)
              in if error \<noteq> ERROR_SUCCESS then (0, Some error)
                 else let net_ifs_v4 = {i \<in> net_ifs_v4. i \<in> physical_ifs};
                          net_ifs_v6 = {i \<in> net_ifs_v6. i \<in> physical_ifs};
                          (index_v4, min_metric_v4) = get_min_metric_if (entry_v4 sys) (set_order sys net_ifs_v4);
                          (index_v6, min_metric_v6) = get_min_metric_if (entry_v6 sys) (set_order sys net_ifs_v6)
                      in (if index_v4 \<noteq> 0 then index_v4 else index_v6, None))"

definition if_index_to_uuid :: "win_system \<Rightarrow> u32 \<Rightarrow> string" where
  "if_index_to_uuid sys idx = (case if_guid sys idx of Some g \<Rightarrow> guid_to_string g | None \<Rightarrow> [])"

fun preferred_loop :: "adapter list \<Rightarrow> u32 \<times> u32 \<Rightarrow> u32 \<times> u32" where
  "preferred_loop [] acc = acc"
| "preferred_loop (p # ps) (min_metric_index, min_metric) =
     (if OperStatus p \<noteq> IfOperStatusUp then preferred_loop ps (min_metric_index, min_metric)
      else let (i1, m1) = (if IfIndex p \<noteq> 0 \<and> Ipv4Metric p \<le> min_metric then (IfIndex p, Ipv4Metric p)
                 else (min_metric_index, min_metric));
               (i2, m2) = (if Ipv6IfIndex p \<noteq> 0 \<and> Ipv6Metric p \<le> m1 then (Ipv6IfIndex p, Ipv6Metric p) else (i1, m1))
           in preferred_loop ps (i2, m2))"

definition win_get_preferred_adapter_guid :: "win_system \<Rightarrow> string" where
  "win_get_preferred_adapter_guid sys =
     (let (ret, size, adapters) = GetAdaptersAddresses sys (15 * 1024);
          (ret, size, adapters) =
            (if ret = ERROR_BUFFER_OVERFLOW then GetAdaptersAddresses sys (size * 2) else (ret, size, adapters))
      in if ret \<noteq> ERROR_SUCCESS then []
         else let (min_metric_index, min_metric) = preferred_loop adapters (0, 0xffffffff)
              in if min_metric_index = 0 then [] else if_index_to_uuid sys min_metric_index)"

section \<open>Name servers in the registry of Windows\<close>

text \<open>The registry has a state of its own; \<^verbatim>\<open>open_keys\<close> counts the keys that were opened and not closed.\<close>

record 'r registry_api =
  RegOpenKeyEx :: "string \<Rightarrow> 'r \<Rightarrow> u32"
  RegSetKeyValue :: "string \<Rightarrow> string \<Rightarrow> string \<Rightarrow> string \<Rightarrow> 'r \<Rightarrow> u32 \<times> 'r"
  RegGetValue :: "string \<Rightarrow> string \<Rightarrow> string \<Rightarrow> nat option \<Rightarrow> 'r \<Rightarrow> u32 \<times> nat \<times> string"

record 'r win_registry =
  reg_state :: 'r
  open_keys :: nat

definition interfaces_path :: "bool \<Rightarrow> string" where
  "interfaces_path ipv6 =
     (if ipv6 then ''SYSTEM'' @ [CHR 0x5c] @ ''CurrentControlSet'' @ [CHR 0x5c] @ ''Services'' @ [CHR 0x5c] @ ''Tcpip6'' @ [CHR 0x5c] @
        ''Parameters'' @ [CHR 0x5c] @ ''Interfaces''
      else ''SYSTEM'' @ [CHR 0x5c] @ ''CurrentControlSet'' @ [CHR 0x5c] @ ''Services'' @ [CHR 0x5c] @ ''Tcpip'' @ [CHR 0x5c] @
        ''Parameters'' @ [CHR 0x5c] @ ''Interfaces'')"

definition reg_open :: "'r registry_api \<Rightarrow> string \<Rightarrow> 'r win_registry \<Rightarrow> u32 \<times> 'r win_registry" where
  "reg_open api path r =
     (let error = RegOpenKeyEx api path (reg_state r)
      in (error, if error = ERROR_SUCCESS then r\<lparr>open_keys := open_keys r + 1\<rparr> else r))"

definition reg_close :: "'r win_registry \<Rightarrow> 'r win_registry" where
  "reg_close r = r\<lparr>open_keys := open_keys r - 1\<rparr>"

definition win_set_if_nameserver ::
    "'r registry_api \<Rightarrow> string \<Rightarrow> string \<Rightarrow> bool \<Rightarrow> 'r win_registry \<Rightarrow> u32 \<times> 'r win_registry" where
  "win_set_if_nameserver api dns_list guid ipv6 r =
     (let (error, r1) = reg_open api (interfaces_path ipv6) r
      in if error = ERROR_SUCCESS
         then let (error, st) = RegSetKeyValue api (interfaces_path ipv6) guid ''NameServer'' dns_list (reg_state r1)
              in (error, reg_close (r1\<lparr>reg_state := st\<rparr>))
         else (error, r1))"

definition win_get_if_nameserver ::
    "'r registry_api \<Rightarrow> string \<Rightarrow> bool \<Rightarrow> 'r win_registry \<Rightarrow> string option \<times> 'r win_registry" where
  "win_get_if_nameserver api guid ipv6 r =
     (let (error, r1) = reg_open api (interfaces_path ipv6) r
      in if error \<noteq> ERROR_SUCCESS then (None, r1)
         else let (error, size, _) = RegGetValue api (interfaces_path ipv6) guid ''NameServer'' None (reg_state r1)
              in if error \<noteq> ERROR_SUCCESS \<or> size = 0 then (None, reg_close r1)
                 else let (error, _, value) =
                            RegGetValue api (interfaces_path ipv6) guid ''NameServer'' (Some size) (reg_state r1)
                      in if error \<noteq> ERROR_SUCCESS then (None, reg_close r1)
                         else (Some (c_str value), reg_close r1))"

section \<open>Name servers of the resolver\<close>

text \<open>\<^verbatim>\<open>res_ninit\<close> fails or gives the servers.  On Apple a server is an address; with glibc it has an IPv4 address and a pointer to
  an IPv6 address, which may be null.  Reading through a null pointer is \<^const>\<open>None\<close>.\<close>

datatype retrieve_system_dns_error = AE_INIT

definition retrieve_system_dns_servers_apple ::
    "(bytes \<Rightarrow> string) \<Rightarrow> bytes list option \<Rightarrow> retrieve_system_dns_error + string list" where
  "retrieve_system_dns_servers_apple numeric_host res =
     (case res of
        None \<Rightarrow> Inl AE_INIT
      | Some addrs \<Rightarrow> Inr (concat (map (\<lambda>addr.
          let sock_addr = sa_of_sockaddr (Some addr)
          in if \<not> sa_valid sock_addr then [] else [sa_host_str numeric_host sock_addr False]) addrs)))"

definition glibc_server :: "bytes \<times> bytes option \<Rightarrow> storage option" where
  "glibc_server e =
     (if sa_family (fst e) = AF_INET then Some (sa_of_sockaddr (Some (fst e)))
      else case snd e of
        None \<Rightarrow> None
      | Some ext \<Rightarrow> Some (if sa_family ext = AF_INET6 then sa_of_sockaddr (Some ext) else storage_zero))"

definition is_route_loop :: "resolver \<Rightarrow> storage \<Rightarrow> bool" where
  "is_route_loop env addr \<longleftrightarrow>
     sa_is_loopback addr \<or> list_ex (\<lambda>u. sa_equal (sa_of_host env u plain_dns_port) addr) unfiltered_dns_ips"

fun glibc_servers :: "resolver \<Rightarrow> (bytes \<Rightarrow> string) \<Rightarrow> (bytes \<times> bytes option) list \<Rightarrow> string list option" where
  "glibc_servers env numeric_host [] = Some []"
| "glibc_servers env numeric_host (e # es) =
     (case glibc_server e of
        None \<Rightarrow> None
      | Some addr \<Rightarrow>
          if \<not> sa_valid addr \<or> is_route_loop env addr then glibc_servers env numeric_host es
          else map_option ((#) (sa_host_str numeric_host addr False)) (glibc_servers env numeric_host es))"

definition retrieve_system_dns_servers_glibc ::
    "resolver \<Rightarrow> (bytes \<Rightarrow> string) \<Rightarrow> (bytes \<times> bytes option) list option \<Rightarrow> (retrieve_system_dns_error + string list) option" where
  "retrieve_system_dns_servers_glibc env numeric_host res =
     (case res of
        None \<Rightarrow> Some (Inl AE_INIT)
      | Some es \<Rightarrow> map_option Inr (glibc_servers env numeric_host es))"

section \<open>The active interface\<close>

lemma min_metric_loop_invariant:
  assumes "min_metric_loop ent is (r, mm) = (r', m')"
  shows "m' \<le> mm \<and> (\<forall>i \<in> set is. \<forall>m. ent i = Some (True, m) \<longrightarrow> m' \<le> m) \<and>
    ((r', m') = (r, mm) \<or> r' \<in> set is \<and> ent r' = Some (True, m') \<and> m' < mm)"
  using assms
proof (induction "is" arbitrary: r mm)
  case (Cons i "is")
  obtain r1 m1 where acc: "(case ent i of None \<Rightarrow> (r, mm)
      | Some (connected, metric) \<Rightarrow> if connected \<and> metric < mm then (i, metric) else (r, mm)) = (r1, m1)"
    by fastforce
  have le: "m1 \<le> mm" "ent i = Some (True, m) \<Longrightarrow> m1 \<le> m" "(r1, m1) = (r, mm) \<or> r1 = i \<and> ent i = Some (True, m1) \<and> m1 < mm" for m
    using acc by (auto split: option.splits if_splits prod.splits)
  have IH: "m' \<le> m1" "\<forall>i \<in> set is. \<forall>m. ent i = Some (True, m) \<longrightarrow> m' \<le> m"
      "(r', m') = (r1, m1) \<or> r' \<in> set is \<and> ent r' = Some (True, m') \<and> m' < m1"
    using Cons.IH [of r1 m1] Cons.prems acc by auto
  have "m' \<le> mm" using IH(1) le(1) by (rule order_trans)
  moreover have "m' \<le> m" if "ent i = Some (True, m)" for m using IH(1) le(2) [OF that] by (rule order_trans)
  moreover have "(r', m') = (r, mm) \<or> r' \<in> set (i # is) \<and> ent r' = Some (True, m') \<and> m' < mm"
    using IH(3) le(1,3) by auto
  ultimately show ?case using IH(2) by auto
qed simp

text \<open>What a default interface has to be: an interface of a working physical adapter with a default route, that is connected
  with a metric below the largest.  What a physical adapter and a default route are is what the functions of the code that
  test it say.\<close>

definition candidates :: "win_system \<Rightarrow> interface_entry \<Rightarrow> forward_row list \<Rightarrow> u32 set" where
  "candidates sys ent rows =
     {i. i \<in> snd (win_get_physical_interfaces (GetAdaptersAddresses sys) {}) \<and>
         (\<exists>r \<in> set rows. default_row r \<and> InterfaceIndex r = i) \<and>
         (\<exists>m < NL_MAX_METRIC_COMPONENT. ent i = Some (True, m))}"

definition best_of :: "interface_entry \<Rightarrow> u32 set \<Rightarrow> u32 \<Rightarrow> bool" where
  "best_of ent is i \<longleftrightarrow> i \<in> is \<and> (\<forall>j \<in> is. snd (the (ent i)) \<le> snd (the (ent j)))"

lemma min_metric_if_best:
  fixes ent :: interface_entry
  assumes "\<forall>i \<in> set is. i \<noteq> 0"
  defines "usable \<equiv> {i \<in> set is. \<exists>m < NL_MAX_METRIC_COMPONENT. ent i = Some (True, m)}"
  shows "if usable = {} then fst (get_min_metric_if ent is) = 0
    else fst (get_min_metric_if ent is) \<noteq> 0 \<and> best_of ent usable (fst (get_min_metric_if ent is))"
proof -
  obtain r m where rm: "get_min_metric_if ent is = (r, m)" by fastforce
  note inv = min_metric_loop_invariant [OF rm [unfolded get_min_metric_if_def]]
  show ?thesis
  proof (cases "usable = {}")
    case True
    then have "(r, m) = (0, NL_MAX_METRIC_COMPONENT)" using inv by (auto simp: usable_def)
    then show ?thesis using True rm by simp
  next
    case False
    then obtain j k where j: "j \<in> set is" "k < NL_MAX_METRIC_COMPONENT" "ent j = Some (True, k)"
      by (auto simp: usable_def)
    then have "m < NL_MAX_METRIC_COMPONENT" using inv by (meson order_le_less_trans)
    then have "r \<in> set is" "ent r = Some (True, m)" "m < NL_MAX_METRIC_COMPONENT" using inv by auto
    then show ?thesis using False rm inv assms(1) by (auto simp: usable_def best_of_def)
  qed
qed

lemma add_indices_nonzero: "0 \<notin> ifs \<Longrightarrow> 0 \<notin> add_indices ps ifs"
  by (induction ps arbitrary: ifs) (auto simp: Let_def)

lemma physical_nonzero: "0 \<notin> snd (win_get_physical_interfaces gaa {})"
  using add_indices_nonzero by (auto simp: win_get_physical_interfaces_def Let_def split: prod.splits)

section \<open>Properties\<close>

text \<open>C22: When the tables can be read, \<^verbatim>\<open>win_detect_active_if\<close> answers the candidate with the smallest metric for IPv4 if there is any,
  whatever the metrics for IPv6 are, otherwise the best candidate for IPv6, and 0 if there is none; in whatever order the sets are
  enumerated.\<close>

theorem active_if_best:
  assumes "\<And>S. finite S \<Longrightarrow> set (set_order sys S) = S"
    and "forward_v4 sys = Inr rows4" "forward_v6 sys = Inr rows6"
  shows "let i = fst (win_detect_active_if sys);
             c4 = candidates sys (entry_v4 sys) rows4;
             c6 = candidates sys (entry_v6 sys) rows6
         in if c4 \<noteq> {} then best_of (entry_v4 sys) c4 i
            else if c6 \<noteq> {} then best_of (entry_v6 sys) c6 i
            else i = 0"
proof -
  obtain error phys where p: "win_get_physical_interfaces (GetAdaptersAddresses sys) {} = (error, phys)" by fastforce
  have nz: "0 \<notin> phys" using physical_nonzero [of "GetAdaptersAddresses sys"] p by simp
  define ifs where "ifs rows = {i \<in> set (map InterfaceIndex (filter default_row rows)). i \<in> phys}" for rows
  have order: "set (set_order sys (ifs rows)) = ifs rows" for rows by (rule assms(1)) (simp add: ifs_def)
  have cand: "candidates sys ent rows = {i \<in> set (set_order sys (ifs rows)). \<exists>m < NL_MAX_METRIC_COMPONENT. ent i = Some (True, m)}" for ent rows
    unfolding order by (auto simp: candidates_def p ifs_def)
  have best: "if candidates sys ent rows = {} then fst (get_min_metric_if ent (set_order sys (ifs rows))) = 0
      else fst (get_min_metric_if ent (set_order sys (ifs rows))) \<noteq> 0 \<and>
        best_of ent (candidates sys ent rows) (fst (get_min_metric_if ent (set_order sys (ifs rows))))" for ent rows
    unfolding cand by (rule min_metric_if_best) (unfold order, use nz in \<open>auto simp: ifs_def\<close>)
  show ?thesis
  proof (cases "phys = {}")
    case True
    then have "candidates sys ent rows = {}" for ent rows by (simp add: candidates_def p)
    then show ?thesis using True by (simp add: win_detect_active_if_def p)
  next
    case False
    then have "fst (win_detect_active_if sys) =
        (let i = fst (get_min_metric_if (entry_v4 sys) (set_order sys (ifs rows4)))
         in if i \<noteq> 0 then i else fst (get_min_metric_if (entry_v6 sys) (set_order sys (ifs rows6))))"
      by (simp add: win_detect_active_if_def p assms get_default_route_ifs_def Let_def ifs_def split_beta)
    then show ?thesis
      using best [of "entry_v4 sys" rows4] best [of "entry_v6 sys" rows6] by (auto simp: Let_def split: if_splits)
  qed
qed

definition dual_stack :: win_system where
  "dual_stack = \<lparr>
     GetAdaptersAddresses = (\<lambda>n. if n < 100 then (ERROR_BUFFER_OVERFLOW, 100, [])
       else (ERROR_SUCCESS, 100,
         [\<lparr>IfType = 6, OperStatus = IfOperStatusUp, FirstUnicastAddress = Some [], IfIndex = 7, Ipv6IfIndex = 7, Ipv4Metric = 25, Ipv6Metric = 25\<rparr>,
          \<lparr>IfType = 53, OperStatus = IfOperStatusUp, FirstUnicastAddress = Some [], IfIndex = 9, Ipv6IfIndex = 9, Ipv4Metric = 5, Ipv6Metric = 5\<rparr>])),
     forward_v4 = Inr [\<lparr>Prefix = sa_of_bytes [0, 0, 0, 0] 0, PrefixLength = 0, InterfaceIndex = 7\<rparr>,
                       \<lparr>Prefix = sa_of_bytes [0, 0, 0, 0] 0, PrefixLength = 0, InterfaceIndex = 9\<rparr>],
     forward_v6 = Inr [],
     entry_v4 = (\<lambda>i. Some (True, if i = 7 then 25 else 5)),
     entry_v6 = (\<lambda>i. None),
     set_order = sorted_list_of_set,
     if_guid = (\<lambda>i. None)\<rparr>"

lemma dual_stack_default: "default_row \<lparr>Prefix = sa_of_bytes [0, 0, 0, 0] 0, PrefixLength = 0, InterfaceIndex = i\<rparr>"
  by code_simp

lemma dual_stack_candidates:
  "candidates dual_stack (entry_v4 dual_stack)
     [\<lparr>Prefix = sa_of_bytes [0, 0, 0, 0] 0, PrefixLength = 0, InterfaceIndex = 7\<rparr>,
      \<lparr>Prefix = sa_of_bytes [0, 0, 0, 0] 0, PrefixLength = 0, InterfaceIndex = 9\<rparr>] = {7}"
  by (auto simp: candidates_def dual_stack_def win_get_physical_interfaces_def is_physical_adapter_def
    ERROR_BUFFER_OVERFLOW_def ERROR_SUCCESS_def NL_MAX_METRIC_COMPONENT_def dual_stack_default)

theorem active_if_best_witness: "fst (win_detect_active_if dual_stack) = 7"
proof -
  have "best_of (entry_v4 dual_stack) {7} (fst (win_detect_active_if dual_stack))"
    using active_if_best [of dual_stack
      "[\<lparr>Prefix = sa_of_bytes [0, 0, 0, 0] 0, PrefixLength = 0, InterfaceIndex = 7\<rparr>,
        \<lparr>Prefix = sa_of_bytes [0, 0, 0, 0] 0, PrefixLength = 0, InterfaceIndex = 9\<rparr>]" "[]"]
    by (simp add: dual_stack_candidates Let_def) (simp add: dual_stack_def)
  then show ?thesis by (simp add: best_of_def)
qed

text \<open>The indices of the working adapters with their metrics, in the order of the list.\<close>

definition metric_pairs :: "adapter list \<Rightarrow> (u32 \<times> u32) list" where
  "metric_pairs ps = concat (map (\<lambda>p. if OperStatus p \<noteq> IfOperStatusUp then []
     else (if IfIndex p \<noteq> 0 then [(IfIndex p, Ipv4Metric p)] else []) @
          (if Ipv6IfIndex p \<noteq> 0 then [(Ipv6IfIndex p, Ipv6Metric p)] else [])) ps)"

lemma metric_pairs_nonzero: "(i, m) \<in> set (metric_pairs ps) \<Longrightarrow> i \<noteq> 0"
  by (auto simp: metric_pairs_def split: if_splits)

lemma preferred_loop_fold:
  "preferred_loop ps acc = fold (\<lambda>(i, m) (r, mm). if m \<le> mm then (i, m) else (r, mm)) (metric_pairs ps) acc"
proof (induction ps arbitrary: acc)
  case (Cons p ps)
  then show ?case by (cases acc) (auto simp: metric_pairs_def Let_def)
qed (simp add: metric_pairs_def)

lemma last_minimum_fold:
  fixes xs :: "(u32 \<times> u32) list"
  assumes "xs \<noteq> []" "\<forall>x \<in> set xs. snd x \<le> snd acc"
  shows "\<exists>ys i m zs. xs = ys @ (i, m) # zs \<and> (\<forall>y \<in> set ys. m \<le> snd y) \<and> (\<forall>z \<in> set zs. m < snd z) \<and>
    fold (\<lambda>(i, m) (r, mm). if m \<le> mm then (i, m) else (r, mm)) xs acc = (i, m)"
  using assms
proof (induction xs rule: rev_induct)
  case (snoc x xs)
  show ?case
  proof (cases "xs = []")
    case True
    then show ?thesis using snoc.prems by (cases x; cases acc) (auto intro!: exI [of _ "[]"])
  next
    case False
    have "\<forall>x \<in> set xs. snd x \<le> snd acc" using snoc.prems(2) by simp
    from snoc.IH [OF False this] obtain ys i m zs where IH: "xs = ys @ (i, m) # zs" "\<forall>y \<in> set ys. m \<le> snd y" "\<forall>z \<in> set zs. m < snd z"
        "fold (\<lambda>(i, m) (r, mm). if m \<le> mm then (i, m) else (r, mm)) xs acc = (i, m)"
      by blast
    obtain j k where x: "x = (j, k)" by fastforce
    show ?thesis
    proof (cases "k \<le> m")
      case True
      then have "\<forall>y \<in> set xs. k \<le> snd y" using IH(1-3) by (auto intro: order_trans less_imp_le)
      then show ?thesis using IH(4) True x by (intro exI [of _ xs] exI [of _ j] exI [of _ k] exI [of _ "[]"]) simp
    next
      case False
      then show ?thesis
        using IH x by (intro exI [of _ ys] exI [of _ i] exI [of _ m] exI [of _ "zs @ [x]"]) auto
    qed
  qed
qed simp

text \<open>Also: The preferred adapter is the one with the smallest metric of all interfaces that are up, over both families, and the last of
  those with the same metric; the answer is the text of its GUID, and empty when no interface is up.\<close>

theorem preferred_adapter_best:
  assumes "GetAdaptersAddresses sys (15 * 1024) = (ERROR_SUCCESS, sz, adapters)"
  shows "if metric_pairs adapters = [] then win_get_preferred_adapter_guid sys = []
    else \<exists>ys i m zs. metric_pairs adapters = ys @ (i, m) # zs \<and>
      (\<forall>y \<in> set ys. m \<le> snd y) \<and> (\<forall>z \<in> set zs. m < snd z) \<and>
      win_get_preferred_adapter_guid sys = (case if_guid sys i of Some g \<Rightarrow> guid_to_string g | None \<Rightarrow> [])"
proof -
  have succ: "ERROR_SUCCESS \<noteq> ERROR_BUFFER_OVERFLOW" by (simp add: ERROR_SUCCESS_def ERROR_BUFFER_OVERFLOW_def)
  have max: "m \<le> 0xffffffff" for m :: u32
  proof -
    have "(0xffffffff :: u32) = - 1" by simp
    then show ?thesis using word_order.extremum [of m] by (simp only:)
  qed
  show ?thesis
  proof (cases "metric_pairs adapters = []")
    case True
    then show ?thesis using assms succ by (simp add: win_get_preferred_adapter_guid_def preferred_loop_fold)
  next
    case False
    obtain ys i m zs where p: "metric_pairs adapters = ys @ (i, m) # zs" "\<forall>y \<in> set ys. m \<le> snd y"
        "\<forall>z \<in> set zs. m < snd z" "preferred_loop adapters (0, 0xffffffff) = (i, m)"
      using last_minimum_fold [OF False, of "(0, 0xffffffff)"] max by (auto simp: preferred_loop_fold)
    have "i \<noteq> 0" by (rule metric_pairs_nonzero [of i m adapters]) (simp add: p(1))
    then have "win_get_preferred_adapter_guid sys = (case if_guid sys i of Some g \<Rightarrow> guid_to_string g | None \<Rightarrow> [])"
      using assms succ p(4) by (simp add: win_get_preferred_adapter_guid_def if_index_to_uuid_def)
    then show ?thesis using False p(1-3) by auto
  qed
qed

theorem preferred_adapter_best_witness:
  "win_get_preferred_adapter_guid (dual_stack\<lparr>if_guid := \<lambda>i. if i = 9 then Some \<lparr>Data1 = 1, Data2 = 2, Data3 = 3, Data4 = replicate 8 0\<rparr> else None\<rparr>) =
     ''{00000001-0002-0003-0000-000000000000}''"
proof -
  let ?sys = "dual_stack\<lparr>if_guid := \<lambda>i. if i = 9 then Some \<lparr>Data1 = 1, Data2 = 2, Data3 = 3, Data4 = replicate 8 0\<rparr> else None\<rparr>"
  let ?as = "snd (snd (GetAdaptersAddresses dual_stack (15 * 1024)))"
  have as: "GetAdaptersAddresses ?sys (15 * 1024) = (ERROR_SUCCESS, 100, ?as)" by (simp add: dual_stack_def)
  have pairs: "metric_pairs ?as = [(7, 25), (7, 25), (9, 5), (9, 5)]"
    by (simp add: dual_stack_def metric_pairs_def)
  have "\<exists>ys i m zs. [(7 :: u32, 25 :: u32), (7, 25), (9, 5), (9, 5)] = ys @ (i, m) # zs \<and> (\<forall>y \<in> set ys. m \<le> snd y) \<and>
      (\<forall>z \<in> set zs. m < snd z) \<and>
      win_get_preferred_adapter_guid ?sys = (case if_guid ?sys i of Some g \<Rightarrow> guid_to_string g | None \<Rightarrow> [])"
    using preferred_adapter_best [OF as] by (simp only: pairs list.simps if_False)
  then have "win_get_preferred_adapter_guid ?sys = (case if_guid ?sys 9 of Some g \<Rightarrow> guid_to_string g | None \<Rightarrow> [])"
    by (auto simp: Cons_eq_append_conv)
  also have "\<dots> = guid_to_string \<lparr>Data1 = 1, Data2 = 2, Data3 = 3, Data4 = replicate 8 0\<rparr>" by simp
  also have "\<dots> = ''{00000001-0002-0003-0000-000000000000}''" by code_simp
  finally show ?thesis .
qed

text \<open>What the registry promises: a value that was set is there, can be measured, and is read back with a zero octet after it.\<close>

definition registry_keeps :: "'r registry_api \<Rightarrow> bool" where
  "registry_keeps api \<longleftrightarrow> (\<forall>path key name data r r'.
     RegSetKeyValue api path key name data r = (ERROR_SUCCESS, r') \<longrightarrow> RegOpenKeyEx api path r' = RegOpenKeyEx api path r \<and>
       (\<exists>sz rest. 0 < sz \<and> fst (RegGetValue api path key name None r') = ERROR_SUCCESS \<and>
          fst (snd (RegGetValue api path key name None r')) = sz \<and>
          RegGetValue api path key name (Some sz) r' = (ERROR_SUCCESS, sz, data @ CHR 0x00 # rest)))"

lemma c_str_terminated: "c_str (s @ CHR 0x00 # t) = c_str s"
  by (induction s) (simp_all add: c_str_def)

text \<open>Also: A list of name servers that was set is the list that is read, up to its first zero octet, for the same interface and family;
  and both operations close every key that they open, also when they fail.\<close>

theorem if_nameserver_roundtrip:
  assumes "registry_keeps api"
  shows "let (error, r1) = win_set_if_nameserver api dns_list guid ipv6 r;
             (value, r2) = win_get_if_nameserver api guid ipv6 r1
         in (error = ERROR_SUCCESS \<longrightarrow> value = Some (c_str dns_list)) \<and> open_keys r1 = open_keys r \<and> open_keys r2 = open_keys r"
proof -
  have closed: "open_keys (snd (win_set_if_nameserver api dns_list guid ipv6 r)) = open_keys r"
      "open_keys (snd (win_get_if_nameserver api guid ipv6 q)) = open_keys q" for q
    by (simp_all add: win_set_if_nameserver_def win_get_if_nameserver_def reg_open_def reg_close_def Let_def split_beta)
  moreover have "fst (win_get_if_nameserver api guid ipv6 (snd (win_set_if_nameserver api dns_list guid ipv6 r))) = Some (c_str dns_list)"
    if ok: "fst (win_set_if_nameserver api dns_list guid ipv6 r) = ERROR_SUCCESS"
  proof -
    let ?p = "interfaces_path ipv6"
    let ?set = "RegSetKeyValue api ?p guid ''NameServer'' dns_list (reg_state r)"
    have "RegOpenKeyEx api ?p (reg_state r) = ERROR_SUCCESS" and set: "?set = (ERROR_SUCCESS, snd ?set)"
      using ok by (auto simp: win_set_if_nameserver_def reg_open_def Let_def split_beta prod_eq_iff split: if_splits)
    moreover have "reg_state (snd (win_set_if_nameserver api dns_list guid ipv6 r)) = snd ?set"
      using calculation by (simp add: win_set_if_nameserver_def reg_open_def reg_close_def split_beta)
    ultimately show ?thesis
      using assms [unfolded registry_keeps_def, rule_format, OF set] 
      by (auto simp: win_get_if_nameserver_def reg_open_def Let_def split_beta c_str_terminated)
  qed
  ultimately show ?thesis by (simp add: split_beta)
qed

definition map_registry :: "(string \<times> string \<times> string \<rightharpoonup> string) registry_api" where
  "map_registry = \<lparr>
     RegOpenKeyEx = (\<lambda>path r. ERROR_SUCCESS),
     RegSetKeyValue = (\<lambda>path key name data r. (ERROR_SUCCESS, r((path, key, name) \<mapsto> data @ [CHR 0x00]))),
     RegGetValue = (\<lambda>path key name sz r. case r (path, key, name) of
        None \<Rightarrow> (2, 0, [])
      | Some data \<Rightarrow> (ERROR_SUCCESS, length data, if sz = None then [] else data))\<rparr>"

lemma map_registry_keeps: "registry_keeps map_registry"
  by (auto simp: registry_keeps_def map_registry_def)

theorem if_nameserver_roundtrip_witness:
  "fst (win_get_if_nameserver map_registry ''{1}'' False
     (snd (win_set_if_nameserver map_registry ''1.1.1.1,8.8.8.8'' ''{1}'' False \<lparr>reg_state = Map.empty, open_keys = 0\<rparr>))) =
   Some ''1.1.1.1,8.8.8.8''"
proof -
  have "fst (win_set_if_nameserver map_registry ''1.1.1.1,8.8.8.8'' ''{1}'' False \<lparr>reg_state = Map.empty, open_keys = 0\<rparr>) = ERROR_SUCCESS"
    by (simp add: map_registry_def win_set_if_nameserver_def reg_open_def)
  then show ?thesis
    using if_nameserver_roundtrip [OF map_registry_keeps, of "''1.1.1.1,8.8.8.8''" "''{1}''" False "\<lparr>reg_state = Map.empty, open_keys = 0\<rparr>"]
    by (simp add: split_beta c_str_def)
qed

text \<open>Also: binding by name and by index come to the same when the system maps the name and the index to each other.\<close>

theorem bind_by_name_and_index:
  assumes "indextoname sys i = Inr name" "nametoindex sys name = i" "i \<noteq> 0"
  shows "bind_socket_to_if pl sys fd family name = bind_socket_to_if_index pl sys fd family i"
  using assms by (simp add: bind_socket_to_if_def bind_socket_to_if_index_def)

text \<open>Also: the resolver's servers are listed in their order, without those that are invalid or lead back to this machine or to the
  unfiltered servers, when no pointer that the code follows is null.\<close>

theorem glibc_servers_listed:
  assumes "\<forall>e \<in> set es. sa_family (fst e) = AF_INET \<or> snd e \<noteq> None"
  shows "retrieve_system_dns_servers_glibc env numeric_host (Some es) =
    Some (Inr (map (\<lambda>a. sa_host_str numeric_host a False)
      (filter (\<lambda>a. sa_valid a \<and> \<not> is_route_loop env a) (map (\<lambda>e. the (glibc_server e)) es))))"
proof -
  have "glibc_servers env numeric_host es = Some (map (\<lambda>a. sa_host_str numeric_host a False)
      (filter (\<lambda>a. sa_valid a \<and> \<not> is_route_loop env a) (map (\<lambda>e. the (glibc_server e)) es)))"
    using assms
  proof (induction es)
    case (Cons e es)
    have "sa_family (fst e) = AF_INET \<or> snd e \<noteq> None" using Cons.prems by simp
    then have "glibc_server e \<noteq> None" by (auto simp: glibc_server_def)
    then obtain a where "glibc_server e = Some a" by blast
    moreover have "glibc_servers env numeric_host es = Some (map (\<lambda>a. sa_host_str numeric_host a False)
        (filter (\<lambda>a. sa_valid a \<and> \<not> is_route_loop env a) (map (\<lambda>e. the (glibc_server e)) es)))"
      using Cons by simp
    ultimately show ?case by simp
  qed simp
  then show ?thesis by (simp add: retrieve_system_dns_servers_glibc_def)
qed

end
