(* ===== verification/MakeSsl.thy ===== *)
theory MakeSsl
  imports SocketAddress
begin

text \<open>
  \<^verbatim>\<open>make_ssl\<close> of \<^verbatim>\<open>tls/make_ssl.cpp\<close>, as it is built with BoringSSL.  A call
  of the TLS library is a value; making an object is a sequence of calls, each of which is logged, and the answers of those
  that can fail, the random bytes and the parsers of addresses are parameters.
\<close>

unbundle bit_operations_syntax

section \<open>Model\<close>

subsection \<open>Profiles\<close>

datatype tls_client_profile = CHROME | SAFARI | FIREFOX | OKHTTP | OPENSSL_DEFAULT | DEFAULT

datatype ssl_protocol = TLS | NGTCP2

datatype ssl_group =
    GROUP_X25519_MLKEM768 | GROUP_X25519 | GROUP_SECP256R1 | GROUP_SECP384R1 | GROUP_SECP521R1 | GROUP_FFDHE2048
  | GROUP_FFDHE3072

datatype ssl_sign =
    SIGN_ECDSA_SECP256R1_SHA256 | SIGN_RSA_PSS_RSAE_SHA256 | SIGN_RSA_PKCS1_SHA256 | SIGN_ECDSA_SECP384R1_SHA384
  | SIGN_RSA_PSS_RSAE_SHA384 | SIGN_RSA_PKCS1_SHA384 | SIGN_RSA_PSS_RSAE_SHA512 | SIGN_RSA_PKCS1_SHA512
  | SIGN_RSA_PKCS1_SHA1 | SIGN_ECDSA_SECP521R1_SHA512 | SIGN_ECDSA_SHA1

datatype tls_extension =
    EXT_server_name | EXT_extended_master_secret | EXT_renegotiate | EXT_supported_groups | EXT_ec_point_formats
  | EXT_application_layer_protocol_negotiation | EXT_status_request | EXT_signature_algorithms
  | EXT_certificate_timestamp | EXT_key_share | EXT_psk_key_exchange_modes | EXT_supported_versions
  | EXT_cert_compression | EXT_session_ticket | EXT_delegated_credential | EXT_record_size_limit
  | EXT_encrypted_client_hello | EXT_encrypt_then_mac

definition is_browser_profile :: "tls_client_profile \<Rightarrow> bool" where
  "is_browser_profile p \<longleftrightarrow> p = CHROME \<or> p = SAFARI \<or> p = FIREFOX"

fun cipher_list_for :: "tls_client_profile \<Rightarrow> string" where
  "cipher_list_for SAFARI =
     ''ECDHE-ECDSA-AES256-GCM-SHA384:ECDHE-ECDSA-AES128-GCM-SHA256:ECDHE-ECDSA-CHACHA20-POLY1305:'' @
     ''ECDHE-RSA-AES256-GCM-SHA384:ECDHE-RSA-AES128-GCM-SHA256:ECDHE-RSA-CHACHA20-POLY1305:'' @
     ''ECDHE-ECDSA-AES256-SHA:ECDHE-ECDSA-AES128-SHA:ECDHE-RSA-AES256-SHA:ECDHE-RSA-AES128-SHA:'' @
     ''AES256-GCM-SHA384:AES128-GCM-SHA256:AES256-SHA:AES128-SHA:ECDHE-ECDSA-DES-CBC3-SHA:'' @
     ''ECDHE-RSA-DES-CBC3-SHA:DES-CBC3-SHA''"
| "cipher_list_for FIREFOX =
     ''ECDHE-ECDSA-AES128-GCM-SHA256:ECDHE-ECDSA-AES256-GCM-SHA384:ECDHE-RSA-AES128-GCM-SHA256:'' @
     ''ECDHE-RSA-AES256-GCM-SHA384:ECDHE-ECDSA-CHACHA20-POLY1305:ECDHE-RSA-CHACHA20-POLY1305:'' @
     ''ECDHE-ECDSA-AES128-SHA:ECDHE-ECDSA-AES256-SHA:ECDHE-RSA-AES128-SHA:ECDHE-RSA-AES256-SHA:'' @
     ''AES128-GCM-SHA256:AES256-GCM-SHA384:AES128-SHA:AES256-SHA''"
| "cipher_list_for OKHTTP =
     ''ECDHE-ECDSA-AES128-GCM-SHA256:ECDHE-RSA-AES128-GCM-SHA256:ECDHE-ECDSA-AES256-GCM-SHA384:'' @
     ''ECDHE-RSA-AES256-GCM-SHA384:ECDHE-ECDSA-CHACHA20-POLY1305:ECDHE-RSA-CHACHA20-POLY1305:'' @
     ''ECDHE-RSA-AES128-SHA:ECDHE-RSA-AES256-SHA:AES128-GCM-SHA256:AES256-GCM-SHA384:AES128-SHA:AES256-SHA:'' @
     ''DES-CBC3-SHA''"
| "cipher_list_for OPENSSL_DEFAULT =
     ''ECDHE-ECDSA-AES256-GCM-SHA384:ECDHE-RSA-AES256-GCM-SHA384:DHE-RSA-AES256-GCM-SHA384:'' @
     ''ECDHE-ECDSA-CHACHA20-POLY1305:ECDHE-RSA-CHACHA20-POLY1305:DHE-RSA-CHACHA20-POLY1305:'' @
     ''ECDHE-ECDSA-AES128-GCM-SHA256:ECDHE-RSA-AES128-GCM-SHA256:DHE-RSA-AES128-GCM-SHA256:'' @
     ''ECDHE-ECDSA-AES256-SHA384:ECDHE-RSA-AES256-SHA384:DHE-RSA-AES256-SHA256:ECDHE-ECDSA-AES128-SHA256:'' @
     ''ECDHE-RSA-AES128-SHA256:DHE-RSA-AES128-SHA256:ECDHE-ECDSA-AES256-SHA:ECDHE-RSA-AES256-SHA:'' @
     ''DHE-RSA-AES256-SHA:ECDHE-ECDSA-AES128-SHA:ECDHE-RSA-AES128-SHA:DHE-RSA-AES128-SHA:AES256-GCM-SHA384:'' @
     ''AES128-GCM-SHA256:AES256-SHA256:AES128-SHA256:AES256-SHA:AES128-SHA''"
| "cipher_list_for _ =
     ''ECDHE-ECDSA-AES128-GCM-SHA256:ECDHE-RSA-AES128-GCM-SHA256:ECDHE-ECDSA-AES256-GCM-SHA384:'' @
     ''ECDHE-RSA-AES256-GCM-SHA384:ECDHE-ECDSA-CHACHA20-POLY1305:ECDHE-RSA-CHACHA20-POLY1305:'' @
     ''ECDHE-RSA-AES128-SHA:ECDHE-RSA-AES256-SHA:AES128-GCM-SHA256:AES256-GCM-SHA384:AES128-SHA:AES256-SHA''"

fun groups_for :: "tls_client_profile \<Rightarrow> ssl_group list" where
  "groups_for SAFARI =
     [GROUP_X25519_MLKEM768, GROUP_X25519, GROUP_SECP256R1, GROUP_SECP384R1, GROUP_SECP521R1]"
| "groups_for FIREFOX =
     [GROUP_X25519_MLKEM768, GROUP_X25519, GROUP_SECP256R1, GROUP_SECP384R1, GROUP_SECP521R1, GROUP_FFDHE2048,
      GROUP_FFDHE3072]"
| "groups_for OKHTTP =
     [GROUP_X25519, GROUP_SECP256R1, GROUP_SECP384R1]"
| "groups_for OPENSSL_DEFAULT =
     [GROUP_X25519_MLKEM768, GROUP_X25519, GROUP_SECP256R1, GROUP_SECP384R1, GROUP_SECP521R1, GROUP_FFDHE2048,
      GROUP_FFDHE3072]"
| "groups_for _ =
     [GROUP_X25519_MLKEM768, GROUP_X25519, GROUP_SECP256R1, GROUP_SECP384R1]"

fun sigalgs_for :: "tls_client_profile \<Rightarrow> ssl_sign list" where
  "sigalgs_for SAFARI =
     [SIGN_ECDSA_SECP256R1_SHA256, SIGN_RSA_PSS_RSAE_SHA256, SIGN_RSA_PKCS1_SHA256, SIGN_ECDSA_SECP384R1_SHA384,
      SIGN_RSA_PSS_RSAE_SHA384, SIGN_RSA_PSS_RSAE_SHA384, SIGN_RSA_PKCS1_SHA384, SIGN_RSA_PSS_RSAE_SHA512,
      SIGN_RSA_PKCS1_SHA512, SIGN_RSA_PKCS1_SHA1]"
| "sigalgs_for FIREFOX =
     [SIGN_ECDSA_SECP256R1_SHA256, SIGN_ECDSA_SECP384R1_SHA384, SIGN_ECDSA_SECP521R1_SHA512,
      SIGN_RSA_PSS_RSAE_SHA256, SIGN_RSA_PSS_RSAE_SHA384, SIGN_RSA_PSS_RSAE_SHA512, SIGN_RSA_PKCS1_SHA256,
      SIGN_RSA_PKCS1_SHA384, SIGN_RSA_PKCS1_SHA512, SIGN_ECDSA_SHA1, SIGN_RSA_PKCS1_SHA1]"
| "sigalgs_for OKHTTP =
     [SIGN_ECDSA_SECP256R1_SHA256, SIGN_RSA_PSS_RSAE_SHA256, SIGN_RSA_PKCS1_SHA256, SIGN_ECDSA_SECP384R1_SHA384,
      SIGN_RSA_PSS_RSAE_SHA384, SIGN_RSA_PKCS1_SHA384, SIGN_RSA_PSS_RSAE_SHA512, SIGN_RSA_PKCS1_SHA512,
      SIGN_RSA_PKCS1_SHA1]"
| "sigalgs_for _ =
     [SIGN_ECDSA_SECP256R1_SHA256, SIGN_RSA_PSS_RSAE_SHA256, SIGN_RSA_PKCS1_SHA256, SIGN_ECDSA_SECP384R1_SHA384,
      SIGN_RSA_PSS_RSAE_SHA384, SIGN_RSA_PKCS1_SHA384, SIGN_RSA_PSS_RSAE_SHA512, SIGN_RSA_PKCS1_SHA512]"

text \<open>No list stands for the null pointer.\<close>

fun extension_order_for :: "tls_client_profile \<Rightarrow> tls_extension list option" where
  "extension_order_for SAFARI = Some
     [EXT_server_name, EXT_extended_master_secret, EXT_renegotiate, EXT_supported_groups, EXT_ec_point_formats,
      EXT_application_layer_protocol_negotiation, EXT_status_request, EXT_signature_algorithms,
      EXT_certificate_timestamp, EXT_key_share, EXT_psk_key_exchange_modes, EXT_supported_versions,
      EXT_cert_compression]"
| "extension_order_for FIREFOX = Some
     [EXT_server_name, EXT_extended_master_secret, EXT_renegotiate, EXT_supported_groups, EXT_ec_point_formats,
      EXT_session_ticket, EXT_application_layer_protocol_negotiation, EXT_status_request, EXT_delegated_credential,
      EXT_certificate_timestamp, EXT_key_share, EXT_supported_versions, EXT_signature_algorithms,
      EXT_psk_key_exchange_modes, EXT_record_size_limit, EXT_cert_compression, EXT_encrypted_client_hello]"
| "extension_order_for OKHTTP = Some
     [EXT_server_name, EXT_extended_master_secret, EXT_renegotiate, EXT_supported_groups, EXT_ec_point_formats,
      EXT_session_ticket, EXT_application_layer_protocol_negotiation, EXT_status_request, EXT_signature_algorithms,
      EXT_key_share, EXT_psk_key_exchange_modes, EXT_supported_versions]"
| "extension_order_for OPENSSL_DEFAULT = Some
     [EXT_renegotiate, EXT_server_name, EXT_ec_point_formats, EXT_supported_groups, EXT_session_ticket,
      EXT_encrypt_then_mac, EXT_extended_master_secret, EXT_signature_algorithms, EXT_supported_versions,
      EXT_psk_key_exchange_modes, EXT_key_share]"
| "extension_order_for _ = None"

definition OPENSSL_SIGALGS :: "u16 list" where
  "OPENSSL_SIGALGS =
     [0x0905, 0x0906, 0x0904, 0x0403, 0x0503, 0x0603, 0x0807, 0x0808, 0x081a, 0x081b, 0x081c, 0x0809, 0x080a,
      0x080b, 0x0804, 0x0805, 0x0806, 0x0401, 0x0501, 0x0601, 0x0303, 0x0301, 0x0302, 0x0402, 0x0502, 0x0602]"

subsection \<open>Calls\<close>

datatype ssl_call =
    Ctx_new
  | Ctx_set_verify_peer
  | Ctx_set_cert_verify_callback
  | Ctx_set_alpn_protos bytes
  | Ctx_set_session_cache_mode_client
  | Ctx_sess_set_new_cb
  | Ctx_add_cert_compression_brotli
  | Ctx_set_permute_extensions bool
  | Ctx_set_grease_enabled
  | Configure_quic_client_context
  | Ssl_new
  | Set_tlsext_host_name string
  | Set_user_data bytes
  | Rand_bytes nat
  | Set_custom_client_random bytes
  | Set_enable_ech_grease
  | Add_application_settings string
  | Set_alps_use_new_codepoint
  | Set_op_no_ticket
  | Set_encrypt_then_mac
  | Set_strict_cipher_list string
  | Set_min_proto_version_tls12
  | Set_max_proto_version_tls13
  | Set1_group_ids "ssl_group list"
  | Set_record_size_limit nat
  | Set_delegated_credentials "ssl_sign list"
  | Set_extension_order "tls_extension list"
  | Enable_signed_cert_timestamps
  | Set_tlsext_status_type_ocsp
  | Set_raw_verify_algorithm_prefs "u16 list"
  | Set_verify_algorithm_prefs "ssl_sign list"
  | Set_connect_state
  | Set_session

text \<open>The parameters; of pointers to functions and objects, whether they are set.\<close>

record ssl_init_parameters =
  sp_profile :: tls_client_profile
  sp_protocol :: ssl_protocol
  sp_alpn_protos :: bytes
  sp_sni :: string
  sp_verify_callback :: bool
  sp_verify_arg :: bool
  sp_post_quantum :: bool
  sp_tls_client_random :: bytes
  sp_tls_client_random_mask :: bytes
  sp_endpoint_data :: bytes
  sp_new_session_cb :: bool
  sp_resume_session :: bool

record ssl_env =
  ssl_ok :: "ssl_call \<Rightarrow> bool"
  rand_bytes :: "nat \<Rightarrow> bytes"
  ssl_resolver :: resolver

text \<open>A step adds to the calls that were made, or ends with a message.\<close>

type_synonym ssl_step = "ssl_call list \<Rightarrow> string + ssl_call list"

definition call :: "ssl_call \<Rightarrow> ssl_step" where
  "call c log = Inr (log @ [c])"

definition call_or :: "ssl_env \<Rightarrow> ssl_call \<Rightarrow> string \<Rightarrow> ssl_step" where
  "call_or env c msg log = (if ssl_ok env c then Inr (log @ [c]) else Inl msg)"

definition step_if :: "bool \<Rightarrow> ssl_step \<Rightarrow> ssl_step" where
  "step_if b m log = (if b then m log else Inr log)"

fun steps :: "ssl_step list \<Rightarrow> ssl_step" where
  "steps [] log = Inr log"
| "steps (m # ms) log = (case m log of Inl e \<Rightarrow> Inl e | Inr log' \<Rightarrow> steps ms log')"

subsection \<open>The client random\<close>

definition mask_size :: "ssl_init_parameters \<Rightarrow> nat" where
  "mask_size p = min (length (sp_tls_client_random_mask p)) (length (sp_tls_client_random p))"

definition client_random_data :: "ssl_env \<Rightarrow> ssl_init_parameters \<Rightarrow> bytes" where
  "client_random_data env p =
     (let data = sp_tls_client_random p;
          mask_data = take (mask_size p) (sp_tls_client_random_mask p) @ replicate (length data - mask_size p) 0xff;
          rnd = rand_bytes env (mask_size p)
      in map (\<lambda>i. if i < mask_size p then ((data ! i) AND (mask_data ! i)) OR ((rnd ! i) AND NOT (mask_data ! i)) else data ! i)
           [0..<length data])"

subsection \<open>\<^verbatim>\<open>make_ssl\<close>\<close>

definition FIREFOX_DC_SIGALGS :: "ssl_sign list" where
  "FIREFOX_DC_SIGALGS = [SIGN_ECDSA_SECP256R1_SHA256, SIGN_ECDSA_SECP384R1_SHA384, SIGN_ECDSA_SECP521R1_SHA512, SIGN_ECDSA_SHA1]"

definition configure_ctx :: "ssl_env \<Rightarrow> ssl_init_parameters \<Rightarrow> ssl_step" where
  "configure_ctx env p =
     (let profile = sp_profile p; quic = (sp_protocol p = NGTCP2); browser = is_browser_profile profile
      in steps
        [call_or env Ctx_new ''Failed to create SSL_CTX'',
         step_if (sp_verify_callback p \<and> sp_verify_arg p) (steps [call Ctx_set_verify_peer, call Ctx_set_cert_verify_callback]),
         call_or env (Ctx_set_alpn_protos (sp_alpn_protos p)) ''Failed to set ALPN protocols'',
         step_if (sp_new_session_cb p) (steps [call Ctx_set_session_cache_mode_client, call Ctx_sess_set_new_cb]),
         step_if browser (call_or env Ctx_add_cert_compression_brotli ''Failed to add certificate compression algorithm''),
         call (Ctx_set_permute_extensions (profile = CHROME)),
         step_if (\<not> quic \<and> browser) (call Ctx_set_grease_enabled),
         step_if quic (call_or env Configure_quic_client_context ''Couldn't configure SSL object for QUIC'')])"

definition configure_ssl :: "ssl_env \<Rightarrow> ssl_init_parameters \<Rightarrow> ssl_step" where
  "configure_ssl env p = steps
     [call_or env Ssl_new ''Failed to create SSL'',
      step_if (\<not> sa_valid (sa_of_host_port (ssl_resolver env) (sp_sni p)))
        (call_or env (Set_tlsext_host_name (sp_sni p)) ''Failed to set SNI''),
      step_if (sp_endpoint_data p \<noteq> []) (call (Set_user_data (sp_endpoint_data p))),
      step_if (sp_tls_client_random p \<noteq> []) (steps
        [step_if (mask_size p > 0) (call_or env (Rand_bytes (mask_size p)) ''Failed to generate random bytes for SSL''),
         call (Set_custom_client_random (client_random_data env p))])]"

definition mimic_tls :: "ssl_env \<Rightarrow> tls_client_profile \<Rightarrow> ssl_step" where
  "mimic_tls env profile = steps
     [(case extension_order_for profile of None \<Rightarrow> steps [] | Some ext_order \<Rightarrow> call (Set_extension_order ext_order)),
      step_if (is_browser_profile profile) (call Enable_signed_cert_timestamps),
      step_if (profile \<noteq> OPENSSL_DEFAULT) (call_or env Set_tlsext_status_type_ocsp ''Failed to set OCSP status extension''),
      (if profile = OPENSSL_DEFAULT then call (Set_raw_verify_algorithm_prefs OPENSSL_SIGALGS)
       else call_or env (Set_verify_algorithm_prefs (sigalgs_for profile)) ''Failed to set signature algorithms'')]"

definition mimic :: "ssl_env \<Rightarrow> ssl_init_parameters \<Rightarrow> ssl_step" where
  "mimic env p =
     (let profile = sp_profile p; quic = (sp_protocol p = NGTCP2)
      in steps
        [step_if (profile = CHROME \<or> profile = FIREFOX) (call Set_enable_ech_grease),
         step_if (profile = CHROME) (steps
           [call_or env (Add_application_settings (if quic then ''h3'' else ''h2'')) ''Failed to add ALPS extension'',
            call Set_alps_use_new_codepoint]),
         step_if (profile = SAFARI) (call Set_op_no_ticket),
         step_if (profile = OPENSSL_DEFAULT) (call Set_encrypt_then_mac),
         call_or env (Set_strict_cipher_list (cipher_list_for profile)) ''Failed to set strict cipher list'',
         call_or env Set_min_proto_version_tls12 ''Failed to set SSL versions'',
         call_or env Set_max_proto_version_tls13 ''Failed to set SSL versions'',
         step_if (profile \<noteq> CHROME \<or> sp_post_quantum p) (call_or env (Set1_group_ids (groups_for profile)) ''Failed to set groups''),
         step_if (profile = FIREFOX) (steps [call (Set_record_size_limit 0x4001), call (Set_delegated_credentials FIREFOX_DC_SIGALGS)]),
         step_if (\<not> quic) (mimic_tls env profile)])"

definition make_ssl :: "ssl_env \<Rightarrow> ssl_init_parameters \<Rightarrow> string + ssl_call list" where
  "make_ssl env p = steps
     [configure_ctx env p, configure_ssl env p, step_if (sp_profile p \<noteq> DEFAULT) (mimic env p),
      call Set_connect_state, step_if (sp_resume_session p) (call Set_session)] []"

text \<open>The decompression of certificates: whether a buffer of a length can be had, and what the decoder wrote to it.\<close>

definition DecompressBrotliCert :: "(nat \<Rightarrow> bool) \<Rightarrow> (bytes \<Rightarrow> nat \<Rightarrow> bytes option) \<Rightarrow> nat \<Rightarrow> bytes \<Rightarrow> bytes option" where
  "DecompressBrotliCert crypto_buffer_alloc decode uncompressed_len inp =
     (if \<not> crypto_buffer_alloc uncompressed_len then None
      else case decode inp uncompressed_len of
        None \<Rightarrow> None
      | Some output \<Rightarrow> if length output \<noteq> uncompressed_len then None else Some output)"

section \<open>Which calls are made\<close>

text \<open>The message with which a call fails, if it can.\<close>

fun failure_message :: "ssl_call \<Rightarrow> string option" where
  "failure_message Ctx_new = Some ''Failed to create SSL_CTX''"
| "failure_message (Ctx_set_alpn_protos a) = Some ''Failed to set ALPN protocols''"
| "failure_message Ctx_add_cert_compression_brotli = Some ''Failed to add certificate compression algorithm''"
| "failure_message Configure_quic_client_context = Some ''Couldn't configure SSL object for QUIC''"
| "failure_message Ssl_new = Some ''Failed to create SSL''"
| "failure_message (Set_tlsext_host_name n) = Some ''Failed to set SNI''"
| "failure_message (Rand_bytes n) = Some ''Failed to generate random bytes for SSL''"
| "failure_message (Add_application_settings a) = Some ''Failed to add ALPS extension''"
| "failure_message (Set_strict_cipher_list l) = Some ''Failed to set strict cipher list''"
| "failure_message Set_min_proto_version_tls12 = Some ''Failed to set SSL versions''"
| "failure_message Set_max_proto_version_tls13 = Some ''Failed to set SSL versions''"
| "failure_message (Set1_group_ids g) = Some ''Failed to set groups''"
| "failure_message Set_tlsext_status_type_ocsp = Some ''Failed to set OCSP status extension''"
| "failure_message (Set_verify_algorithm_prefs s) = Some ''Failed to set signature algorithms''"
| "failure_message _ = None"

text \<open>Making calls in order until the first one that fails.\<close>

fun make_calls :: "ssl_env \<Rightarrow> ssl_call list \<Rightarrow> ssl_step" where
  "make_calls env [] log = Inr log"
| "make_calls env (c # cs) log =
     (case failure_message c of
        Some msg \<Rightarrow> if ssl_ok env c then make_calls env cs (log @ [c]) else Inl msg
      | None \<Rightarrow> make_calls env cs (log @ [c]))"

text \<open>The calls of a run without failures, as a list, for the lemmas about which of them are made.\<close>

definition ctx_calls :: "ssl_init_parameters \<Rightarrow> ssl_call list" where
  "ctx_calls p =
     (let profile = sp_profile p; quic = (sp_protocol p = NGTCP2); browser = is_browser_profile profile
      in concat
        [[Ctx_new],
         if sp_verify_callback p \<and> sp_verify_arg p then [Ctx_set_verify_peer, Ctx_set_cert_verify_callback] else [],
         [Ctx_set_alpn_protos (sp_alpn_protos p)],
         if sp_new_session_cb p then [Ctx_set_session_cache_mode_client, Ctx_sess_set_new_cb] else [],
         if browser then [Ctx_add_cert_compression_brotli] else [],
         [Ctx_set_permute_extensions (profile = CHROME)],
         if \<not> quic \<and> browser then [Ctx_set_grease_enabled] else [],
         if quic then [Configure_quic_client_context] else []])"

definition ssl_calls :: "ssl_env \<Rightarrow> ssl_init_parameters \<Rightarrow> ssl_call list" where
  "ssl_calls env p = concat
     [[Ssl_new],
      if \<not> sa_valid (sa_of_host_port (ssl_resolver env) (sp_sni p)) then [Set_tlsext_host_name (sp_sni p)] else [],
      if sp_endpoint_data p \<noteq> [] then [Set_user_data (sp_endpoint_data p)] else [],
      if sp_tls_client_random p \<noteq> []
      then concat [if mask_size p > 0 then [Rand_bytes (mask_size p)] else [], [Set_custom_client_random (client_random_data env p)]]
      else []]"

definition mimic_tls_calls :: "tls_client_profile \<Rightarrow> ssl_call list" where
  "mimic_tls_calls profile = concat
     [case extension_order_for profile of None \<Rightarrow> [] | Some ext_order \<Rightarrow> [Set_extension_order ext_order],
      if is_browser_profile profile then [Enable_signed_cert_timestamps] else [],
      if profile \<noteq> OPENSSL_DEFAULT then [Set_tlsext_status_type_ocsp] else [],
      if profile = OPENSSL_DEFAULT then [Set_raw_verify_algorithm_prefs OPENSSL_SIGALGS]
      else [Set_verify_algorithm_prefs (sigalgs_for profile)]]"

definition mimic_calls :: "ssl_init_parameters \<Rightarrow> ssl_call list" where
  "mimic_calls p =
     (let profile = sp_profile p; quic = (sp_protocol p = NGTCP2)
      in concat
        [if profile = CHROME \<or> profile = FIREFOX then [Set_enable_ech_grease] else [],
         if profile = CHROME then [Add_application_settings (if quic then ''h3'' else ''h2''), Set_alps_use_new_codepoint] else [],
         if profile = SAFARI then [Set_op_no_ticket] else [],
         if profile = OPENSSL_DEFAULT then [Set_encrypt_then_mac] else [],
         [Set_strict_cipher_list (cipher_list_for profile)],
         [Set_min_proto_version_tls12],
         [Set_max_proto_version_tls13],
         if profile \<noteq> CHROME \<or> sp_post_quantum p then [Set1_group_ids (groups_for profile)] else [],
         if profile = FIREFOX then [Set_record_size_limit 0x4001, Set_delegated_credentials FIREFOX_DC_SIGALGS] else [],
         if \<not> quic then mimic_tls_calls profile else []])"

definition planned_calls :: "ssl_env \<Rightarrow> ssl_init_parameters \<Rightarrow> ssl_call list" where
  "planned_calls env p = concat
     [ctx_calls p, ssl_calls env p, if sp_profile p \<noteq> DEFAULT then mimic_calls p else [],
      [Set_connect_state], if sp_resume_session p then [Set_session] else []]"

definition makes :: "ssl_env \<Rightarrow> ssl_step \<Rightarrow> ssl_call list \<Rightarrow> bool" where
  "makes env m cs \<longleftrightarrow> m = make_calls env cs"

lemma make_calls_append:
  "make_calls env (as @ bs) log = (case make_calls env as log of Inl e \<Rightarrow> Inl e | Inr log' \<Rightarrow> make_calls env bs log')"
  by (induction as arbitrary: log) (auto split: option.splits)

lemma makes_call: "failure_message c = None \<Longrightarrow> makes env (call c) [c]"
  by (rule ext [where g = "make_calls env [c]", THEN makes_def [THEN iffD2]]) (simp add: call_def)

lemma makes_call_or: "failure_message c = Some msg \<Longrightarrow> makes env (call_or env c msg) [c]"
  by (rule ext [where g = "make_calls env [c]", THEN makes_def [THEN iffD2]]) (simp add: call_or_def)

lemma makes_if: "makes env m cs \<Longrightarrow> makes env (step_if b m) (if b then cs else [])"
  by (auto simp: makes_def step_if_def)

lemma makes_cond: "makes env m cs \<Longrightarrow> makes env n ds \<Longrightarrow> makes env (if b then m else n) (if b then cs else ds)"
  by simp

lemma makes_steps: "list_all2 (makes env) ms css \<Longrightarrow> makes env (steps ms) (concat css)"
proof (induction ms css rule: list_all2_induct)
  case Nil
  show ?case
    by (auto simp: makes_def)
next
  case (Cons m ms cs css)
  then have "steps (m # ms) log = make_calls env (concat (cs # css)) log" for log
    by (auto simp: makes_def make_calls_append split: sum.splits)
  then show ?case
    by (auto simp: makes_def)
qed

lemma makes_two: "makes env m cs \<Longrightarrow> makes env n ds \<Longrightarrow> makes env (steps [m, n]) (cs @ ds)"
  using makes_steps[of env "[m, n]" "[cs, ds]"] by simp

lemma makes_none: "makes env (steps []) []"
  using makes_steps[of env "[]" "[]"] by simp

lemmas makes_intros = makes_call makes_call_or makes_if makes_none

lemma makes_order:
  "makes env (case extension_order_for profile of None \<Rightarrow> steps [] | Some ext_order \<Rightarrow> call (Set_extension_order ext_order))
     (case extension_order_for profile of None \<Rightarrow> [] | Some ext_order \<Rightarrow> [Set_extension_order ext_order])"
  by (cases "extension_order_for profile") (simp_all add: makes_none makes_call)

lemma makes_ctx: "makes env (configure_ctx env p) (ctx_calls p)"
  unfolding configure_ctx_def ctx_calls_def Let_def
  by (rule makes_steps)
    (simp add: makes_intros makes_two[OF makes_call makes_call, of Ctx_set_verify_peer Ctx_set_cert_verify_callback, simplified]
      makes_two[OF makes_call makes_call, of Ctx_set_session_cache_mode_client Ctx_sess_set_new_cb, simplified])

lemma makes_ssl: "makes env (configure_ssl env p) (ssl_calls env p)"
proof -
  have "makes env (steps
        [step_if (mask_size p > 0) (call_or env (Rand_bytes (mask_size p)) ''Failed to generate random bytes for SSL''),
         call (Set_custom_client_random (client_random_data env p))])
     (concat [if mask_size p > 0 then [Rand_bytes (mask_size p)] else [], [Set_custom_client_random (client_random_data env p)]])"
    by (rule makes_steps) (simp add: makes_call makes_if[OF makes_call_or])
  then show ?thesis
    unfolding configure_ssl_def ssl_calls_def
    by (intro makes_steps list_all2_Cons[THEN iffD2] list_all2_Nil[THEN iffD2] conjI makes_intros) simp_all
qed

lemmas makes_list = makes_steps list_all2_Cons [THEN iffD2] list_all2_Nil [THEN iffD2] conjI makes_intros makes_cond makes_order

lemma makes_mimic_tls: "makes env (mimic_tls env profile) (mimic_tls_calls profile)"
  unfolding mimic_tls_def mimic_tls_calls_def by (intro makes_list) simp_all

lemma makes_mimic: "makes env (mimic env p) (mimic_calls p)"
proof -
  have a: "makes env (steps [call_or env (Add_application_settings x) ''Failed to add ALPS extension'', call Set_alps_use_new_codepoint])
      [Add_application_settings x, Set_alps_use_new_codepoint]" for x
    using makes_two[OF makes_call_or makes_call] by simp
  have b: "makes env (steps [call (Set_record_size_limit x), call (Set_delegated_credentials y)])
      [Set_record_size_limit x, Set_delegated_credentials y]" for x y
    using makes_two[OF makes_call makes_call] by simp
  show ?thesis
    unfolding mimic_def mimic_calls_def Let_def
    by (intro makes_steps list_all2_Cons [THEN iffD2] list_all2_Nil [THEN iffD2] conjI makes_if a b makes_mimic_tls makes_call makes_call_or)
      simp_all
qed

lemma make_calls_ok:
  "make_calls env cs log0 = Inr log \<Longrightarrow> log = log0 @ cs \<and> (\<forall>c \<in> set cs. failure_message c \<noteq> None \<longrightarrow> ssl_ok env c)"
proof (induction cs arbitrary: log0)
  case (Cons a cs)
  then show ?case
    using Cons.IH[of "log0 @ [a]"] by (auto split: option.splits if_splits)
qed simp

lemma make_ssl_makes: "make_ssl env p = make_calls env (planned_calls env p) []"
proof -
  have "makes env (steps [configure_ctx env p, configure_ssl env p, step_if (sp_profile p \<noteq> DEFAULT) (mimic env p),
      call Set_connect_state, step_if (sp_resume_session p) (call Set_session)]) (planned_calls env p)"
    unfolding planned_calls_def
    by (intro makes_steps list_all2_Cons [THEN iffD2] list_all2_Nil [THEN iffD2] conjI makes_if makes_ctx makes_ssl makes_mimic makes_call)
      simp_all
  then show ?thesis
    by (simp add: make_ssl_def makes_def del: steps.simps)
qed

lemma make_ssl_log: "make_ssl env p = Inr log \<Longrightarrow> log = planned_calls env p"
  using make_ssl_makes[of env p] make_calls_ok[of env "planned_calls env p" "[]" log] by simp

lemmas plan_defs = planned_calls_def ctx_calls_def ssl_calls_def mimic_calls_def mimic_tls_calls_def is_browser_profile_def Let_def

lemma plan_members:
  "Set_extension_order x \<in> set (planned_calls env p) \<longleftrightarrow>
     sp_profile p \<noteq> DEFAULT \<and> sp_protocol p \<noteq> NGTCP2 \<and> extension_order_for (sp_profile p) = Some x"
  "Set_op_no_ticket \<in> set (planned_calls env p) \<longleftrightarrow> sp_profile p = SAFARI"
  "Ctx_add_cert_compression_brotli \<in> set (planned_calls env p) \<longleftrightarrow> is_browser_profile (sp_profile p)"
  "Enable_signed_cert_timestamps \<in> set (planned_calls env p) \<longleftrightarrow> sp_protocol p \<noteq> NGTCP2 \<and> is_browser_profile (sp_profile p)"
  "Set_tlsext_status_type_ocsp \<in> set (planned_calls env p) \<longleftrightarrow>
     sp_profile p \<noteq> DEFAULT \<and> sp_protocol p \<noteq> NGTCP2 \<and> sp_profile p \<noteq> OPENSSL_DEFAULT"
  "Set_record_size_limit n \<in> set (planned_calls env p) \<longleftrightarrow> sp_profile p = FIREFOX \<and> n = 0x4001"
  "Set_delegated_credentials l \<in> set (planned_calls env p) \<longleftrightarrow> sp_profile p = FIREFOX \<and> l = FIREFOX_DC_SIGALGS"
  "Set_encrypt_then_mac \<in> set (planned_calls env p) \<longleftrightarrow> sp_profile p = OPENSSL_DEFAULT"
  "Set_enable_ech_grease \<in> set (planned_calls env p) \<longleftrightarrow> sp_profile p = CHROME \<or> sp_profile p = FIREFOX"
  "Ctx_set_permute_extensions b \<in> set (planned_calls env p) \<longleftrightarrow> b = (sp_profile p = CHROME)"
  "Set_tlsext_host_name h \<in> set (planned_calls env p) \<longleftrightarrow> h = sp_sni p \<and> \<not> sa_valid (sa_of_host_port (ssl_resolver env) h)"
  "Ctx_set_verify_peer \<in> set (planned_calls env p) \<longleftrightarrow> sp_verify_callback p \<and> sp_verify_arg p"
  by (auto simp: plan_defs split: option.splits if_splits)

text \<open>C26: The order that is pinned for the extensions fits what else the object was told to send.  An object with a pinned order does
  not permute; the order names no extension twice; and it names each optional extension (tickets, compressed certificates,
  timestamps, status requests, record size limits, delegated credentials, encrypt-then-mac and encrypted hello) exactly when the call
  was made that makes the object send it.\<close>

theorem extension_order_consistent:
  assumes "make_ssl env p = Inr log" "Set_extension_order exts \<in> set log"
  shows "distinct exts \<and> Ctx_set_permute_extensions True \<notin> set log \<and>
    (EXT_session_ticket \<in> set exts \<longleftrightarrow> Set_op_no_ticket \<notin> set log) \<and>
    (EXT_cert_compression \<in> set exts \<longleftrightarrow> Ctx_add_cert_compression_brotli \<in> set log) \<and>
    (EXT_certificate_timestamp \<in> set exts \<longleftrightarrow> Enable_signed_cert_timestamps \<in> set log) \<and>
    (EXT_status_request \<in> set exts \<longleftrightarrow> Set_tlsext_status_type_ocsp \<in> set log) \<and>
    (EXT_record_size_limit \<in> set exts \<longleftrightarrow> (\<exists>n. Set_record_size_limit n \<in> set log)) \<and>
    (EXT_delegated_credential \<in> set exts \<longleftrightarrow> (\<exists>l. Set_delegated_credentials l \<in> set log)) \<and>
    (EXT_encrypt_then_mac \<in> set exts \<longleftrightarrow> Set_encrypt_then_mac \<in> set log) \<and>
    (EXT_encrypted_client_hello \<in> set exts \<longleftrightarrow> Set_enable_ech_grease \<in> set log)"
proof -
  note log = make_ssl_log[OF assms(1)]
  have e: "extension_order_for (sp_profile p) = Some exts" and q: "sp_profile p \<noteq> DEFAULT" "sp_protocol p \<noteq> NGTCP2"
    using assms(2) unfolding log plan_members by auto
  show ?thesis
    unfolding log plan_members using e q by (cases "sp_profile p") (auto simp: is_browser_profile_def)
qed

text \<open>C27: The client random.  The bits that the mask selects, and all bits beyond the mask, are those that the caller gave; the other
  bits are random; the length is the caller's.\<close>

theorem client_random_bits:
  assumes "i < length (sp_tls_client_random p)" "n < 8"
  shows "length (client_random_data env p) = length (sp_tls_client_random p) \<and>
    bit (client_random_data env p ! i) n =
      (if i < length (sp_tls_client_random_mask p) \<and> \<not> bit (sp_tls_client_random_mask p ! i) n
       then bit (rand_bytes env (mask_size p) ! i) n else bit (sp_tls_client_random p ! i) n)"
proof -
  have m: "i < mask_size p \<longleftrightarrow> i < length (sp_tls_client_random_mask p)"
    using assms(1) by (auto simp: mask_size_def)
  show ?thesis
    using assms m by (auto simp: client_random_data_def Let_def bit_simps nth_append mask_size_def)
qed

definition ex_params :: ssl_init_parameters where
  "ex_params = \<lparr>sp_profile = FIREFOX, sp_protocol = TLS, sp_alpn_protos = [2, 104, 50], sp_sni = ''example.org'', sp_verify_callback = True,
     sp_verify_arg = True, sp_post_quantum = True, sp_tls_client_random = [0x12, 0x34], sp_tls_client_random_mask = [0xf0],
     sp_endpoint_data = [], sp_new_session_cb = False, sp_resume_session = False\<rparr>"

definition ex_ssl_env :: ssl_env where
  "ex_ssl_env = \<lparr>ssl_ok = (\<lambda>c. True), rand_bytes = (\<lambda>n. replicate n 0xab),
     ssl_resolver = \<lparr>ev_pton4 = (\<lambda>s. None), ev_pton6 = (\<lambda>s. None), getaddrinfo6 = (\<lambda>s. None)\<rparr>\<rparr>"

lemma make_calls_all: "(\<And>c. ssl_ok env c) \<Longrightarrow> make_calls env cs log = Inr (log @ cs)"
  by (induction cs arbitrary: log) (auto split: option.splits)

lemma ex_made: "make_ssl ex_ssl_env ex_params = Inr (planned_calls ex_ssl_env ex_params)"
  using make_calls_all[of ex_ssl_env "planned_calls ex_ssl_env ex_params" "[]"] by (simp add: make_ssl_makes ex_ssl_env_def)

theorem extension_order_consistent_witness:
  "Set_extension_order (the (extension_order_for FIREFOX)) \<in> set (planned_calls ex_ssl_env ex_params) \<and>
   (\<exists>n. Set_record_size_limit n \<in> set (planned_calls ex_ssl_env ex_params))"
proof -
  have o: "Set_extension_order (the (extension_order_for FIREFOX)) \<in> set (planned_calls ex_ssl_env ex_params)"
    unfolding plan_members by (simp add: ex_params_def)
  then show ?thesis
    using extension_order_consistent[OF ex_made o] by simp
qed

theorem client_random_bits_witness:
  "bit (client_random_data ex_ssl_env ex_params ! 0) 0 \<and> \<not> bit (client_random_data ex_ssl_env ex_params ! 1) 0"
  using client_random_bits[of 0 ex_params 0 ex_ssl_env] client_random_bits[of 1 ex_params 0 ex_ssl_env]
  by (simp add: ex_params_def ex_ssl_env_def mask_size_def)

text \<open>Also: the server name is sent exactly when it is not an address, and the server's certificate is verified exactly when both the
  callback and its argument are set: a callback without an argument is not installed and nothing is verified.\<close>

theorem sni_and_verification:
  assumes "make_ssl env p = Inr log"
  shows "(Set_tlsext_host_name h \<in> set log \<longleftrightarrow> h = sp_sni p \<and> \<not> sa_valid (sa_of_host_port (ssl_resolver env) h)) \<and>
    (Ctx_set_verify_peer \<in> set log \<longleftrightarrow> sp_verify_callback p \<and> sp_verify_arg p)"
  unfolding make_ssl_log[OF assms] plan_members by simp

theorem sni_and_verification_witness: "Ctx_set_verify_peer \<in> set (planned_calls ex_ssl_env ex_params)"
  using sni_and_verification[OF ex_made] by (simp add: ex_params_def)

end
