(* ===== verification/CertInfo.thy ===== *)
theory CertInfo
  imports Cidr
begin

text \<open>
  The text about certificates of \<^verbatim>\<open>tls/cert_utils.cpp\<close>.  What OpenSSL prints about a certificate is a parameter; the buffers of fixed
  size, through which all of it goes, are modelled.
\<close>

section \<open>Model\<close>

text \<open>What OpenSSL answers about a certificate: its two names, its digest, and its two times, which may be missing or fail to print.\<close>

datatype asn1_time = Time_null | Time_no_bio | Time_printed string

record x509 =
  x_subject :: string
  x_issuer :: string
  x_sha256 :: bytes
  x_not_before :: asn1_time
  x_not_after :: asn1_time

text \<open>A buffer of \<^verbatim>\<open>n\<close> characters that is filled with text and ends with a null.\<close>

definition c_buffer :: "nat \<Rightarrow> string \<Rightarrow> string" where
  "c_buffer n s = take (n - 1) (c_str s)"

fun asn1_time_to_string :: "asn1_time \<Rightarrow> string" where
  "asn1_time_to_string Time_null = ''<null>''"
| "asn1_time_to_string Time_no_bio = ''<error>''"
| "asn1_time_to_string (Time_printed s) = (if s = [] then ''<error>'' else take 63 s)"

definition fingerprint :: "bytes \<Rightarrow> string" where
  "fingerprint sha256 = concat (map (\<lambda>b. zero_pad 2 (hex (unat b))) (take 32 sha256))"

definition cert_line :: "string \<Rightarrow> x509 \<Rightarrow> string" where
  "cert_line label c =
     label @ '': Subject: '' @ c_buffer 256 (x_subject c) @ '', Issuer: '' @ c_buffer 256 (x_issuer c) @
     '', SHA256: '' @ fingerprint (x_sha256 c) @ '', NotBefore: '' @ c_str (asn1_time_to_string (x_not_before c)) @
     '', NotAfter: '' @ c_str (asn1_time_to_string (x_not_after c))"

definition append_cert_info :: "string \<Rightarrow> x509 option \<Rightarrow> string \<Rightarrow> string" where
  "append_cert_info out cert label =
     (case cert of None \<Rightarrow> out | Some c \<Rightarrow> out @ take 799 (cert_line label c))"

text \<open>Certificates are told apart by their address.\<close>

fun append_chain :: "nat \<Rightarrow> nat \<Rightarrow> (nat \<times> x509 option) list \<Rightarrow> string \<Rightarrow> string" where
  "append_chain cert i [] result = result"
| "append_chain cert i ((chain_cert, x) # chain) result =
     append_chain cert (i + 1) chain
       (if chain_cert = cert then result
        else append_cert_info (result @ [CHR 0x0A]) x (take 31 (''Chain['' @ dec i @ '']'')))"

definition get_cert_diagnostic_info :: "(nat \<times> x509) option \<Rightarrow> (nat \<times> x509 option) list \<Rightarrow> string" where
  "get_cert_diagnostic_info cert chain =
     (case cert of None \<Rightarrow> [] | Some (k, x) \<Rightarrow> append_chain k 0 chain (append_cert_info [] (Some x) ''Leaf''))"

section \<open>Nothing is cut off\<close>

lemma c_buffer_length: "length (c_buffer n s) \<le> n - 1"
  by (simp add: c_buffer_def)

lemma c_str_length: "length (c_str s) \<le> length s"
  by (simp add: c_str_def length_takeWhile_le)

lemma time_length: "length (c_str (asn1_time_to_string t)) \<le> 63"
proof -
  have "length (asn1_time_to_string t) \<le> 63"
    by (cases t) auto
  then show ?thesis
    using c_str_length[of "asn1_time_to_string t"] by linarith
qed

lemma hex_byte_length: "length (zero_pad 2 (hex (unat (b :: u8)))) = 2"
proof -
  have "unat b < 16 ^ 2"
    using unsigned_less[of b] by simp
  then show ?thesis
    using hex_padded_length[of "unat b" 2] by (simp add: hex_def)
qed

lemma fingerprint_length: "length (fingerprint d) \<le> 64"
proof -
  have "length (concat (map (\<lambda>b. zero_pad 2 (hex (unat b))) xs)) = 2 * length xs" for xs :: bytes
    by (induction xs) (simp_all add: hex_byte_length)
  then show ?thesis
    by (simp add: fingerprint_def)
qed

lemma cert_line_fits:
  assumes "length label \<le> 31"
  shows "length (cert_line label c) \<le> 799"
  using assms c_buffer_length[of 256 "x_subject c"] c_buffer_length[of 256 "x_issuer c"] fingerprint_length[of "x_sha256 c"]
    time_length[of "x_not_before c"] time_length[of "x_not_after c"]
  by (simp add: cert_line_def)

text \<open>The lines, without any bound on their length: the leaf and each other certificate of the chain under its number.\<close>

fun chain_lines :: "nat \<Rightarrow> nat \<Rightarrow> (nat \<times> x509 option) list \<Rightarrow> string list" where
  "chain_lines cert i [] = []"
| "chain_lines cert i ((k, x) # chain) =
     (if k = cert then [] else [case x of None \<Rightarrow> [] | Some c \<Rightarrow> cert_line (''Chain['' @ dec i @ '']'') c]) @ chain_lines cert (i + 1) chain"

lemma dec_length: "n < 10 ^ w \<Longrightarrow> 0 < w \<Longrightarrow> length (dec n) \<le> w"
proof (induction w arbitrary: n)
  case (Suc w)
  show ?case
  proof (cases "n < 10")
    case False
    then have w: "0 < w"
      using Suc.prems by (cases w) auto
    have "n div 10 < 10 ^ w"
      using Suc.prems by (simp add: less_mult_imp_div_less mult.commute)
    then have "length (dec (n div 10)) \<le> w"
      using Suc.IH w by blast
    then show ?thesis
      using False unfolding dec_def by (subst fmt_uint.simps) simp
  qed (simp add: dec_def fmt_uint.simps)
qed simp

lemma append_chain_lines:
  assumes "i + length chain < 2 ^ 31"
  shows "append_chain cert i chain result = result @ concat (map (\<lambda>l. CHR 0x0A # l) (chain_lines cert i chain))"
  using assms
proof (induction chain arbitrary: i result)
  case (Cons kx chain)
  obtain k x where kx: "kx = (k, x)"
    by fastforce
  have l: "length (''Chain['' @ dec i @ '']'') \<le> 31"
    using Cons.prems dec_length[of i 10] by simp
  have "append_cert_info (result @ [CHR 0x0A]) x (take 31 (''Chain['' @ dec i @ '']'')) =
      result @ CHR 0x0A # (case x of None \<Rightarrow> [] | Some c \<Rightarrow> cert_line (''Chain['' @ dec i @ '']'') c)"
    using l cert_line_fits[OF l] by (cases x) (simp_all add: append_cert_info_def)
  then show ?case
    using Cons.IH[of "i + 1"] Cons.prems by (simp add: kx)
qed simp

text \<open>C36: The text about a certificate and its chain has one line for the leaf and one for every other certificate of the chain, each
  with its number in the chain, and no line is ever cut off: whatever OpenSSL prints, the parts fit the buffer of 800
  characters.\<close>

theorem cert_info_complete:
  assumes "length chain < 2 ^ 31"
  shows "get_cert_diagnostic_info (Some (k, x)) chain =
    cert_line ''Leaf'' x @ concat (map (\<lambda>l. CHR 0x0A # l) (chain_lines k 0 chain))"
  using assms append_chain_lines[of 0 chain k "append_cert_info [] (Some x) ''Leaf''"] cert_line_fits[of "''Leaf''" x]
  by (simp add: get_cert_diagnostic_info_def append_cert_info_def)

definition ex_cert :: "string \<Rightarrow> x509" where
  "ex_cert name = \<lparr>x_subject = name, x_issuer = ''CN=CA'', x_sha256 = replicate 32 0xab, x_not_before = Time_null,
     x_not_after = Time_printed ''Jan  1 00:00:00 2030 GMT''\<rparr>"

theorem cert_info_complete_witness:
  "get_cert_diagnostic_info (Some (1, ex_cert ''CN=a'')) [(1, Some (ex_cert ''CN=a'')), (2, Some (ex_cert ''CN=b''))] =
   cert_line ''Leaf'' (ex_cert ''CN=a'') @ CHR 0x0A # cert_line (''Chain['' @ dec 1 @ '']'') (ex_cert ''CN=b'')"
  using cert_info_complete[of "[(1, Some (ex_cert ''CN=a'')), (2, Some (ex_cert ''CN=b''))]" 1 "ex_cert ''CN=a''"] by simp

end
