(* ===== verification/Dafsa.thy ===== *)
theory Dafsa
  imports StringUtils
begin

text \<open>
  The lookup of a string in a set of strings that is stored as a graph in an array of octets: \<^verbatim>\<open>lookup_string_in_fixed_set.cc\<close> of the
  recipe \<^verbatim>\<open>tldregistry\<close>.  The graph is made at build time and is a parameter.  A pointer into the graph is an index; reading outside
  the graph is undefined and is \<^const>\<open>None\<close>.
\<close>

unbundle bit_operations_syntax

section \<open>Model\<close>

definition kDafsaNotFound :: int where "kDafsaNotFound = - 1"
definition kDafsaFound :: int where "kDafsaFound = 0"

definition octet_at :: "bytes \<Rightarrow> nat \<Rightarrow> u8 option" where
  "octet_at g p = (if p < length g then Some (g ! p) else None)"

text \<open>Whether an offset was read, the place of the next offset of the node if there is one, and the moved offset.\<close>

definition GetNextOffset :: "bytes \<Rightarrow> nat option \<Rightarrow> nat \<Rightarrow> (bool \<times> nat option \<times> nat) option" where
  "GetNextOffset g pos offset =
     (case pos of
        None \<Rightarrow> Some (False, None, offset)
      | Some p \<Rightarrow> Option.bind (octet_at g p) (\<lambda>b0.
          Option.bind
            (if b0 AND 0x60 = 0x60 then
               Option.bind (octet_at g (p + 1)) (\<lambda>b1. Option.bind (octet_at g (p + 2)) (\<lambda>b2.
                 Some (unat (push_bit 16 (ucast (b0 AND 0x1F)) OR push_bit 8 (ucast b1) OR ucast b2 :: u32), 3)))
             else if b0 AND 0x60 = 0x40 then
               Option.bind (octet_at g (p + 1)) (\<lambda>b1.
                 Some (unat (push_bit 8 (ucast (b0 AND 0x1F)) OR ucast b1 :: u32), 2))
             else Some (unat (ucast (b0 AND 0x3F) :: u32), 1))
            (\<lambda>(distance, bytes_consumed).
               Some (True, if b0 AND 0x80 \<noteq> 0 then None else Some (p + bytes_consumed), offset + distance))))"

definition IsEOL :: "u8 \<Rightarrow> bool" where
  "IsEOL b \<longleftrightarrow> b AND 0x80 \<noteq> 0"

definition signed_char :: "char \<Rightarrow> int" where
  "signed_char c = (let n = (of_char c :: nat) in if n < 0x80 then int n else int n - 0x100)"

definition IsMatch :: "u8 \<Rightarrow> char \<Rightarrow> bool" where
  "IsMatch b key \<longleftrightarrow> uint (b AND 0x7F) = signed_char key"

definition GetReturnValue :: "u8 \<Rightarrow> int option" where
  "GetReturnValue b = (if b AND 0xE0 = 0x80 then Some (uint (b AND 0x1F)) else None)"

record fixed_set_lookup =
  dafsa_pos :: "nat option"
  pos_is_label_character :: bool

definition FixedSetIncrementalLookup :: fixed_set_lookup where
  "FixedSetIncrementalLookup = \<lparr>dafsa_pos = Some 0, pos_is_label_character = False\<rparr>"

lemma GetNextOffset_moves:
  "GetNextOffset g (Some p) offset = Some (r, Some p', offset') \<Longrightarrow> p < p' \<and> p < length g"
  by (auto simp: GetNextOffset_def octet_at_def split: Option.bind_splits if_splits)

text \<open>The loop of \<^verbatim>\<open>Advance\<close> over the offsets of a node: the state after a match, if there is one.\<close>

function advance_loop :: "bytes \<Rightarrow> char \<Rightarrow> nat option \<Rightarrow> nat \<Rightarrow> fixed_set_lookup option option" where
  "advance_loop g input pos offset =
     (case GetNextOffset g pos offset of
        None \<Rightarrow> None
      | Some (found, pos', offset') \<Rightarrow>
          if \<not> found then Some None
          else case octet_at g offset' of
            None \<Rightarrow> None
          | Some b \<Rightarrow>
              if IsMatch b input
              then Some (Some \<lparr>dafsa_pos = Some (offset' + 1), pos_is_label_character = \<not> IsEOL b\<rparr>)
              else advance_loop g input pos' offset')"
  by pat_completeness auto
termination
proof (relation "measure (\<lambda>(g, input, pos, offset). case pos of None \<Rightarrow> 0 | Some p \<Rightarrow> Suc (length g - p))", goal_cases)
  case (2 g input pos offset r found r2 pos' offset' b)
  then show ?case
    using GetNextOffset_moves [of g "the pos" offset found "the pos'" offset']
    by (cases pos; cases pos') (auto simp: GetNextOffset_def)
qed simp

definition Advance :: "bytes \<Rightarrow> char \<Rightarrow> fixed_set_lookup \<Rightarrow> (bool \<times> fixed_set_lookup) option" where
  "Advance g input s =
     (let exhausted = s\<lparr>dafsa_pos := None, pos_is_label_character := False\<rparr>
      in case dafsa_pos s of
           None \<Rightarrow> Some (False, s)
         | Some p \<Rightarrow>
             if signed_char input \<ge> 0x20 then
               (if pos_is_label_character s then
                  (case octet_at g p of
                     None \<Rightarrow> None
                   | Some b \<Rightarrow>
                       if IsMatch b input
                       then Some (True, s\<lparr>dafsa_pos := Some (p + 1), pos_is_label_character := \<not> IsEOL b\<rparr>)
                       else Some (False, exhausted))
                else
                  (case advance_loop g input (Some p) p of
                     None \<Rightarrow> None
                   | Some None \<Rightarrow> Some (False, exhausted)
                   | Some (Some s') \<Rightarrow> Some (True, s')))
             else Some (False, exhausted))"

function result_loop :: "bytes \<Rightarrow> nat option \<Rightarrow> nat \<Rightarrow> int option" where
  "result_loop g temp_pos offset =
     (case GetNextOffset g temp_pos offset of
        None \<Rightarrow> None
      | Some (found, pos', offset') \<Rightarrow>
          if \<not> found then Some kDafsaNotFound
          else case octet_at g offset' of
            None \<Rightarrow> None
          | Some b \<Rightarrow> (case GetReturnValue b of Some v \<Rightarrow> Some v | None \<Rightarrow> result_loop g pos' offset'))"
  by pat_completeness auto
termination
proof (relation "measure (\<lambda>(g, pos, offset). case pos of None \<Rightarrow> 0 | Some p \<Rightarrow> Suc (length g - p))", goal_cases)
  case (2 g pos offset r found r2 pos' offset' b)
  then show ?case
    using GetNextOffset_moves [of g "the pos" offset found "the pos'" offset']
    by (cases pos; cases pos') (auto simp: GetNextOffset_def)
qed simp

definition GetResultForCurrentSequence :: "bytes \<Rightarrow> fixed_set_lookup \<Rightarrow> int option" where
  "GetResultForCurrentSequence g s =
     (if pos_is_label_character s then
        (case dafsa_pos s of
           None \<Rightarrow> None
         | Some p \<Rightarrow> (case octet_at g p of
               None \<Rightarrow> None
             | Some b \<Rightarrow> Some (case GetReturnValue b of Some v \<Rightarrow> v | None \<Rightarrow> kDafsaNotFound)))
      else result_loop g (dafsa_pos s) (case dafsa_pos s of Some p \<Rightarrow> p | None \<Rightarrow> 0))"

fun lookup_loop :: "bytes \<Rightarrow> string \<Rightarrow> fixed_set_lookup \<Rightarrow> int option" where
  "lookup_loop g [] s = GetResultForCurrentSequence g s"
| "lookup_loop g (c # key) s =
     (case Advance g c s of
        None \<Rightarrow> None
      | Some (advanced, s') \<Rightarrow> if \<not> advanced then Some kDafsaNotFound else lookup_loop g key s')"

definition LookupStringInFixedSet :: "bytes \<Rightarrow> string \<Rightarrow> int option" where
  "LookupStringInFixedSet g key = lookup_loop g key FixedSetIncrementalLookup"

section \<open>The format\<close>

text \<open>What a graph stands for, by the grammar and the decoding that \<^verbatim>\<open>make_dafsa.py\<close> documents: letters that lead on, values, and nodes
  with several children.\<close>

datatype dafsa = Word_end nat | Letter char dafsa | Branch "dafsa list"

text \<open>The children of a node, from the place of an offset and that of the child before.\<close>

function child_offsets :: "bytes \<Rightarrow> nat \<Rightarrow> nat \<Rightarrow> nat list option" where
  "child_offsets g p prev =
     (if p < length g then
        let b = unat (g ! p);
            k = b mod 0x80;
            len = (if k < 0x40 then 1 else if k < 0x60 then 2 else 3);
            child = prev + (if k < 0x40 then k
                            else if k < 0x60 then (k - 0x40) * 0x100 + unat (g ! (p + 1))
                            else (k - 0x60) * 0x10000 + unat (g ! (p + 1)) * 0x100 + unat (g ! (p + 2)))
        in if length g < p + len then None
           else if b \<ge> 0x80 then Some [child]
           else map_option ((#) child) (child_offsets g (p + len) child)
      else None)"
  by pat_completeness auto
termination by (relation "measure (\<lambda>(g, p, prev). length g - p)") (auto simp: Let_def split: if_splits)

text \<open>The label at a place.  A node lies behind its parent, so a path is not longer than the graph.\<close>

fun label_tree :: "nat \<Rightarrow> bytes \<Rightarrow> nat \<Rightarrow> dafsa option" where
  "label_tree 0 g p = None"
| "label_tree (Suc n) g p =
     (if p < length g then
        let b = unat (g ! p)
        in if b < 0x20 then None
           else if b < 0x80 then map_option (Letter (char_of b)) (label_tree n g (p + 1))
           else if b < 0xA0 then Some (Word_end (b - 0x80))
           else Option.bind (child_offsets g (p + 1) (p + 1)) (\<lambda>os.
             map_option (\<lambda>ts. Letter (char_of (b - 0x80)) (Branch ts)) (those (map (label_tree n g) os)))
      else None)"

definition dafsa_of :: "bytes \<Rightarrow> dafsa option" where
  "dafsa_of g = Option.bind (child_offsets g 0 0) (\<lambda>os. map_option Branch (those (map (label_tree (length g) g) os)))"

text \<open>The words of a graph with their values, and that no node has two children with the same first letter.\<close>

fun dafsa_words :: "dafsa \<Rightarrow> (string \<times> nat) set" where
  "dafsa_words (Word_end v) = {([], v)}"
| "dafsa_words (Letter c t) = (\<lambda>(w, v). (c # w, v)) ` dafsa_words t"
| "dafsa_words (Branch ts) = (\<Union>t \<in> set ts. dafsa_words t)"

fun first_letter :: "dafsa \<Rightarrow> char option" where
  "first_letter (Letter c t) = Some c"
| "first_letter _ = None"

fun deterministic :: "dafsa \<Rightarrow> bool" where
  "deterministic (Word_end v) = True"
| "deterministic (Letter c t) = deterministic t"
| "deterministic (Branch ts) \<longleftrightarrow> distinct (map first_letter ts) \<and> (\<forall>t \<in> set ts. deterministic t)"

section \<open>Octets\<close>

lemma octet_less: "unat b < 256" for b :: u8
proof -
  have "unat b < 2 ^ LENGTH(8)" by (rule unsigned_less)
  then show ?thesis by simp
qed

definition octet_fields :: "nat \<Rightarrow> bool" where
  "octet_fields n = (let b = (word_of_nat n :: u8) in
     ((b AND 0x60 = 0x60) = (0x60 \<le> n mod 0x80)) \<and> ((b AND 0x60 = 0x40) = (0x40 \<le> n mod 0x80 \<and> n mod 0x80 < 0x60)) \<and>
     unat (b AND 0x1F) = n mod 0x20 \<and> unat (b AND 0x3F) = n mod 0x40 \<and> unat (b AND 0x7F) = n mod 0x80 \<and>
     ((b AND 0x80 \<noteq> 0) = (0x80 \<le> n)) \<and> ((b AND 0xE0 = 0x80) = (0x80 \<le> n \<and> n < 0xA0)))"

lemma octet_fields_all: "list_all octet_fields [0..<256]"
  by code_simp

lemma octet_fields_octet: "octet_fields (unat b)" for b :: u8
proof -
  have "unat b < 256" by (rule octet_less)
  then show ?thesis using octet_fields_all by (simp add: list_all_iff)
qed

lemma octet_bits:
  fixes b :: u8
  shows "b AND 0x60 = 0x60 \<longleftrightarrow> 0x60 \<le> unat b mod 0x80"
    and "b AND 0x60 = 0x40 \<longleftrightarrow> 0x40 \<le> unat b mod 0x80 \<and> unat b mod 0x80 < 0x60"
    and "unat (b AND 0x1F) = unat b mod 0x20" "unat (b AND 0x3F) = unat b mod 0x40" "unat (b AND 0x7F) = unat b mod 0x80"
    and "b AND 0x80 = 0 \<longleftrightarrow> unat b < 0x80" "b AND 0xE0 = 0x80 \<longleftrightarrow> 0x80 \<le> unat b \<and> unat b < 0xA0"
  using octet_fields_octet [of b] by (auto simp: octet_fields_def Let_def)

lemma unat_ucast_octet: "unat (ucast c :: u32) = unat c" for c :: u8
proof -
  have "unat c < 2 ^ LENGTH(8)" by (rule unsigned_less)
  then have "unat c < 2 ^ LENGTH(32)" by simp
  then show ?thesis unfolding unsigned_ucast_eq by (simp only: take_bit_nat_eq_self_iff)
qed

lemma append_octet:
  fixes u :: u32 and c :: u8
  assumes "unat u < 2 ^ 24"
  shows "unat (push_bit 8 u OR ucast c) = unat u * 256 + unat c"
proof -
  have "push_bit 8 u AND ucast c = (0 :: u32)"
    by (intro bit_word_eqI) (auto simp: bit_simps dest: bit_imp_le_length)
  then have "push_bit 8 u OR ucast c = push_bit 8 u + (ucast c :: u32)"
    by (simp only: disjunctive_add_eq_or)
  moreover have "unat (push_bit 8 u) = unat u * 256"
    using assms by (simp add: push_bit_eq_mult unat_word_ariths)
  moreover have "unat u * 256 + unat c < 2 ^ 32" using assms octet_less [of c] by simp
  ultimately show ?thesis by (simp add: unat_word_ariths unat_ucast_octet)
qed

lemma append_octets:
  fixes u b c :: u8
  assumes "unat u < 0x20"
  shows "unat (push_bit 8 (ucast u) OR ucast b :: u32) = unat u * 256 + unat b"
    and "unat (push_bit 16 (ucast u) OR push_bit 8 (ucast b) OR ucast c :: u32) = unat u * 65536 + unat b * 256 + unat c"
proof -
  show two: "unat (push_bit 8 (ucast u) OR ucast b :: u32) = unat u * 256 + unat b"
    using append_octet [of "ucast u" b] assms by (simp add: unat_ucast_octet)
  have "push_bit 16 (ucast u) OR push_bit 8 (ucast b) OR ucast c = push_bit 8 (push_bit 8 (ucast u) OR ucast b) OR (ucast c :: u32)"
    by (simp add: push_bit_or or.assoc)
  then show "unat (push_bit 16 (ucast u) OR push_bit 8 (ucast b) OR ucast c :: u32) = unat u * 65536 + unat b * 256 + unat c"
    using append_octet [of "push_bit 8 (ucast u) OR ucast b" c] two assms octet_less [of b] by simp
qed

section \<open>The lookup follows the graph\<close>

lemma mod_eq_sub: "d * q \<le> k \<Longrightarrow> k < d * Suc q \<Longrightarrow> k mod d = k - d * q" for k d q :: nat
  by (intro mod_nat_eqI) auto

declare child_offsets.simps [simp del] advance_loop.simps [simp del] result_loop.simps [simp del]

text \<open>Reading an offset as the grammar has it.\<close>

lemma GetNextOffset_child:
  assumes "child_offsets g p prev = Some os"
  obtains child rest where "os = child # rest"
    "GetNextOffset g (Some p) prev = Some (True, None, child) \<and> rest = [] \<or>
     (\<exists>p'. GetNextOffset g (Some p) prev = Some (True, Some p', child) \<and> child_offsets g p' child = Some rest)"
proof -
  have p: "p < length g" using assms by (simp add: child_offsets.simps [of g p] split: if_splits)
  define b where "b = g ! p"
  define k where "k = unat b mod 0x80"
  define len :: nat where "len = (if k < 0x40 then 1 else if k < 0x60 then 2 else 3)"
  define child where "child = prev + (if k < 0x40 then k
    else if k < 0x60 then (k - 0x40) * 0x100 + unat (g ! (p + 1))
    else (k - 0x60) * 0x10000 + unat (g ! (p + 1)) * 0x100 + unat (g ! (p + 2)))"
  have unfolded: "child_offsets g p prev = (if length g < p + len then None
      else if unat b \<ge> 0x80 then Some [child] else map_option ((#) child) (child_offsets g (p + len) child))"
    using p by (subst child_offsets.simps) (simp only: Let_def b_def k_def len_def child_def if_True)
  have len: "p + len \<le> length g" using assms unfolded by (simp split: if_splits)
  have fields: "k < 0x80" "unat b mod 0x20 = k mod 0x20" "unat b mod 0x40 = k mod 0x40"
    by (simp_all add: k_def mod_mod_cancel)
  have "GetNextOffset g (Some p) prev = Some (True, if unat b < 0x80 then Some (p + len) else None, child)"
  proof (cases "k < 0x40")
    case True
    then show ?thesis
      using p fields by (simp add: GetNextOffset_def octet_at_def octet_bits k_def [symmetric] b_def [symmetric] len_def child_def unat_ucast_octet)
  next
    case False
    have small: "unat (b AND 0x1F) < 0x20" by (simp add: octet_bits)
    show ?thesis
    proof (cases "k < 0x60")
      case True
      then have "k mod 0x20 = k - 0x40" using False mod_eq_sub [where d = "0x20" and q = 2 and k = k] by simp
      then show ?thesis
        using True False p len fields append_octets(1) [OF small, of "g ! (p + 1)"]
        by (simp add: GetNextOffset_def octet_at_def octet_bits k_def [symmetric] b_def [symmetric] len_def child_def)
    next
      case ge: False
      then have "k mod 0x20 = k - 0x60" using fields(1) mod_eq_sub [where d = "0x20" and q = 3 and k = k] by simp
      then show ?thesis
        using ge False p len fields append_octets(2) [OF small, of "g ! (p + 1)" "g ! (p + 2)"]
        by (simp add: GetNextOffset_def octet_at_def octet_bits k_def [symmetric] b_def [symmetric] len_def child_def)
    qed
  qed
  then show thesis
    using assms unfolded len that [of child] by (cases "0x80 \<le> unat b") auto
qed

text \<open>The state of a lookup that stands where a part of the graph begins.\<close>

definition follows :: "bytes \<Rightarrow> fixed_set_lookup \<Rightarrow> dafsa \<Rightarrow> bool" where
  "follows g s t \<longleftrightarrow> (\<exists>p. dafsa_pos s = Some p \<and>
     (if pos_is_label_character s then \<exists>n. label_tree n g p = Some t
      else \<exists>n os ts. child_offsets g p p = Some os \<and> those (map (label_tree n g) os) = Some ts \<and> t = Branch ts))"

lemma follows_label: "follows g \<lparr>dafsa_pos = Some p, pos_is_label_character = True\<rparr> t \<longleftrightarrow> (\<exists>n. label_tree n g p = Some t)"
  by (simp add: follows_def)

lemma signed_char_of: "n < 0x80 \<Longrightarrow> signed_char (char_of n) = int n"
  by (simp add: signed_char_def)

lemma match_octet:
  assumes "0x20 \<le> signed_char c"
  shows "IsMatch b c \<longleftrightarrow> c = char_of (unat b mod 0x80)"
proof -
  have "of_char c mod 256 < (256 :: nat)" by (rule mod_less_divisor) simp
  then have less: "of_char c < (256 :: nat)" by simp
  have "uint (b AND 0x7F) = int (unat b mod 0x80)" using octet_bits(5) [of b] by (metis uint_nat)
  moreover have "signed_char c = int (of_char c)"
  proof (rule ccontr)
    assume "signed_char c \<noteq> int (of_char c)"
    then have "signed_char c = int (of_char c) - 0x100" by (simp add: signed_char_def Let_def split: if_splits)
    with assms less show False by linarith
  qed
  ultimately have "IsMatch b c \<longleftrightarrow> of_char c = unat b mod 0x80" by (auto simp: IsMatch_def)
  moreover have "of_char (char_of (unat b mod 0x80)) = unat b mod 0x80"
  proof -
    have "unat b mod 0x80 < 256" by (rule order_less_trans [of _ "0x80"]) simp_all
    then show ?thesis by simp
  qed
  ultimately show ?thesis by (metis of_char_eq_iff)
qed

text \<open>The first octet of a label, as the lookup reads it.\<close>

lemma label_octet:
  assumes "label_tree n g p = Some t"
  obtains v where "p < length g" "t = Word_end v" "GetReturnValue (g ! p) = Some (int v)"
      "\<And>c. 0x20 \<le> signed_char c \<Longrightarrow> \<not> IsMatch (g ! p) c"
  | d t' where "p < length g" "t = Letter d t'" "GetReturnValue (g ! p) = None" "0x20 \<le> signed_char d"
      "\<And>c. 0x20 \<le> signed_char c \<Longrightarrow> IsMatch (g ! p) c \<longleftrightarrow> c = d"
      "follows g \<lparr>dafsa_pos = Some (p + 1), pos_is_label_character = \<not> IsEOL (g ! p)\<rparr> t'"
proof -
  obtain m where n: "n = Suc m" using assms by (cases n) auto
  have p: "p < length g" using assms n by (simp split: if_splits)
  let ?b = "unat (g ! p)"
  note value_octet = octet_bits(7) [of "g ! p"]
  consider "0x20 \<le> ?b" "?b < 0x80" | "0x80 \<le> ?b" "?b < 0xA0" | "0xA0 \<le> ?b"
    using assms n p by (fastforce simp: Let_def split: if_splits)
  then show thesis
  proof cases
    case 1
    then obtain t' where t': "t = Letter (char_of ?b) t'" "label_tree m g (p + 1) = Some t'"
      using assms n p by (auto simp: Let_def split: if_splits)
    have "0x20 \<le> signed_char (char_of ?b)" using 1 signed_char_of [of ?b] by linarith
    moreover have "\<not> IsEOL (g ! p)" using 1 octet_bits(6) [of "g ! p"] by (simp add: IsEOL_def)
    ultimately show thesis
      using that(2) [of "char_of ?b" t'] 1 p t' match_octet [of _ "g ! p"] value_octet
      by (auto simp: GetReturnValue_def follows_label)
  next
    case 2
    have v: "t = Word_end (?b - 0x80)" using 2 assms n p by (auto simp: Let_def split: if_splits)
    have "uint (g ! p AND 0x1F) = int (?b mod 0x20)" using octet_bits(3) [of "g ! p"] by (metis uint_nat)
    moreover have "?b mod 0x20 = ?b - 0x80" using 2 mod_eq_sub [where d = "0x20" and q = 4 and k = ?b] by simp
    moreover have "\<not> IsMatch (g ! p) c" if "0x20 \<le> signed_char c" for c
    proof -
      have "?b mod 0x80 = ?b - 0x80" using 2 mod_eq_sub [where d = "0x80" and q = 1 and k = ?b] by simp
      moreover have "signed_char (char_of (?b - 0x80)) = int (?b - 0x80)" using 2 by (intro signed_char_of) simp
      ultimately show ?thesis using 2(2) that match_octet [OF that, of "g ! p"] by (auto simp del: of_nat_diff)
    qed
    ultimately show thesis using that(1) [of "?b - 0x80"] p v 2 value_octet by (auto simp: GetReturnValue_def)
  next
    case 3
    then obtain os ts where t: "t = Letter (char_of (?b - 0x80)) (Branch ts)" "child_offsets g (p + 1) (p + 1) = Some os"
        "those (map (label_tree m g) os) = Some ts"
      using assms n p by (auto simp: Let_def split: if_splits Option.bind_splits)
    have less: "?b - 0x80 < 0x80" using octet_less [of "g ! p"] by simp
    have "?b mod 0x80 = ?b - 0x80" using 3 less mod_eq_sub [where d = "0x80" and q = 1 and k = ?b] by simp
    moreover have "0x20 \<le> signed_char (char_of (?b - 0x80))"
      unfolding signed_char_of [OF less] using 3 by linarith
    moreover have "IsEOL (g ! p)" using 3 octet_bits(6) [of "g ! p"] by (simp add: IsEOL_def)
    moreover have "follows g \<lparr>dafsa_pos = Some (p + 1), pos_is_label_character = False\<rparr> (Branch ts)"
      using t(2,3) by (auto simp: follows_def)
    ultimately show thesis
      using that(2) [of "char_of (?b - 0x80)" "Branch ts"] 3 p t(1) less match_octet [of _ "g ! p"] value_octet
      by (auto simp: GetReturnValue_def)
  qed
qed

lemma those_map_Cons:
  "those (map f (x # xs)) = Some ts \<longleftrightarrow> (\<exists>t ts'. ts = t # ts' \<and> f x = Some t \<and> those (map f xs) = Some ts')"
  by (auto split: option.splits)

text \<open>The child that a letter leads to, and the value of the empty rest.\<close>

fun letter_child :: "char \<Rightarrow> dafsa list \<Rightarrow> dafsa option" where
  "letter_child c [] = None"
| "letter_child c (t # ts) = (case t of Letter d t' \<Rightarrow> if d = c then Some t' else letter_child c ts | _ \<Rightarrow> letter_child c ts)"

fun end_value :: "dafsa list \<Rightarrow> nat option" where
  "end_value [] = None"
| "end_value (t # ts) = (case t of Word_end v \<Rightarrow> Some v | _ \<Rightarrow> end_value ts)"

fun children :: "dafsa \<Rightarrow> dafsa list" where
  "children (Branch ts) = ts"
| "children t = [t]"

lemma octet_at_less: "p < length g \<Longrightarrow> octet_at g p = Some (g ! p)"
  by (simp add: octet_at_def)

lemma GetNextOffset_Cons:
  assumes "child_offsets g p prev = Some (child # rest)"
  obtains pos' where "GetNextOffset g (Some p) prev = Some (True, pos', child)"
    "pos' = None \<and> rest = [] \<or> (\<exists>p'. pos' = Some p' \<and> child_offsets g p' child = Some rest)"
  using assms by (rule GetNextOffset_child) (use that in blast)

lemma advance_loop_child:
  assumes "child_offsets g p prev = Some os" "those (map (label_tree n g) os) = Some ts" "0x20 \<le> signed_char c"
  shows "\<exists>r. advance_loop g c (Some p) prev = Some r \<and>
    (case letter_child c ts of None \<Rightarrow> r = None | Some t \<Rightarrow> \<exists>s. r = Some s \<and> follows g s t)"
  using assms(1,2)
proof (induction os arbitrary: p prev ts)
  case Nil
  then show ?case using GetNextOffset_child by blast
next
  case (Cons child rest)
  then obtain t ts' where t: "ts = t # ts'" "label_tree n g child = Some t" "those (map (label_tree n g) rest) = Some ts'"
    unfolding those_map_Cons by blast
  obtain pos' where nxt: "GetNextOffset g (Some p) prev = Some (True, pos', child)"
      "pos' = None \<and> rest = [] \<or> (\<exists>p'. pos' = Some p' \<and> child_offsets g p' child = Some rest)"
    by (rule GetNextOffset_Cons [OF Cons.prems(1)])
  have tail: "\<exists>r. advance_loop g c pos' child = Some r \<and>
      (case letter_child c ts' of None \<Rightarrow> r = None | Some t \<Rightarrow> \<exists>s. r = Some s \<and> follows g s t)"
    using nxt(2)
  proof
    assume "pos' = None \<and> rest = []"
    then show ?thesis using t(3) by (simp add: advance_loop.simps GetNextOffset_def)
  next
    assume "\<exists>p'. pos' = Some p' \<and> child_offsets g p' child = Some rest"
    then show ?thesis using Cons.IH t(3) by blast
  qed
  show ?case
    using t(2)
  proof (cases rule: label_octet)
    case (1 v)
    then show ?thesis
      using tail nxt(1) t(1) assms(3) by (subst advance_loop.simps) (simp add: octet_at_less)
  next
    case (2 d t')
    then show ?thesis
      using tail nxt(1) t(1) assms(3) by (subst advance_loop.simps) (auto simp: octet_at_less)
  qed
qed

lemma result_loop_child:
  assumes "child_offsets g p prev = Some os" "those (map (label_tree n g) os) = Some ts"
  shows "result_loop g (Some p) prev = Some (case end_value ts of None \<Rightarrow> kDafsaNotFound | Some v \<Rightarrow> int v)"
  using assms
proof (induction os arbitrary: p prev ts)
  case Nil
  then show ?case using GetNextOffset_child by blast
next
  case (Cons child rest)
  then obtain t ts' where t: "ts = t # ts'" "label_tree n g child = Some t" "those (map (label_tree n g) rest) = Some ts'"
    unfolding those_map_Cons by blast
  obtain pos' where nxt: "GetNextOffset g (Some p) prev = Some (True, pos', child)"
      "pos' = None \<and> rest = [] \<or> (\<exists>p'. pos' = Some p' \<and> child_offsets g p' child = Some rest)"
    by (rule GetNextOffset_Cons [OF Cons.prems(1)])
  have tail: "result_loop g pos' child = Some (case end_value ts' of None \<Rightarrow> kDafsaNotFound | Some v \<Rightarrow> int v)"
    using nxt(2)
  proof
    assume "pos' = None \<and> rest = []"
    then show ?thesis using t(3) by (simp add: result_loop.simps GetNextOffset_def)
  next
    assume "\<exists>p'. pos' = Some p' \<and> child_offsets g p' child = Some rest"
    then show ?thesis using Cons.IH t(3) by blast
  qed
  show ?case
    using t(2) by (cases rule: label_octet; subst result_loop.simps) (simp_all add: nxt(1) t(1) tail octet_at_less)
qed

lemma letter_child_printable:
  "\<lbrakk>those (map (label_tree n g) os) = Some ts; letter_child c ts = Some t\<rbrakk> \<Longrightarrow> 0x20 \<le> signed_char c"
proof (induction os arbitrary: ts)
  case (Cons child rest)
  then obtain u us where u: "ts = u # us" "label_tree n g child = Some u" "those (map (label_tree n g) rest) = Some us"
    unfolding those_map_Cons by blast
  show ?case
    using u(2) by (cases rule: label_octet) (use Cons u in \<open>auto split: if_splits\<close>)
qed simp

lemma follows_advance:
  assumes "follows g s t"
  shows "\<exists>b s'. Advance g c s = Some (b, s') \<and>
    (case letter_child c (children t) of None \<Rightarrow> \<not> b | Some t' \<Rightarrow> b \<and> follows g s' t')"
proof -
  obtain p where p: "dafsa_pos s = Some p" using assms by (auto simp: follows_def)
  show ?thesis
  proof (cases "pos_is_label_character s")
    case True
    then obtain n where "label_tree n g p = Some t" using assms p by (auto simp: follows_def)
    then show ?thesis
      by (cases rule: label_octet) (use p True in \<open>auto simp: Advance_def Let_def octet_at_less follows_def\<close>)
  next
    case False
    then obtain n os ts where t: "child_offsets g p p = Some os" "those (map (label_tree n g) os) = Some ts" "t = Branch ts"
      using assms p by (auto simp: follows_def)
    show ?thesis
    proof (cases "0x20 \<le> signed_char c")
      case True
      then show ?thesis
        using advance_loop_child [OF t(1,2) True] p False t(3)
        by (cases "letter_child c ts") (auto simp: Advance_def Let_def)
    next
      case printable: False
      then have "letter_child c ts = None" using letter_child_printable [OF t(2)] by (cases "letter_child c ts") auto
      then show ?thesis using printable p t(3) by (auto simp: Advance_def Let_def)
    qed
  qed
qed

lemma follows_result:
  assumes "follows g s t"
  shows "GetResultForCurrentSequence g s = Some (case end_value (children t) of None \<Rightarrow> kDafsaNotFound | Some v \<Rightarrow> int v)"
proof -
  obtain p where p: "dafsa_pos s = Some p" using assms by (auto simp: follows_def)
  show ?thesis
  proof (cases "pos_is_label_character s")
    case True
    then obtain n where "label_tree n g p = Some t" using assms p by (auto simp: follows_def)
    then show ?thesis
      by (cases rule: label_octet) (use p True in \<open>auto simp: GetResultForCurrentSequence_def octet_at_less\<close>)
  next
    case False
    then show ?thesis using assms p result_loop_child by (auto simp: follows_def GetResultForCurrentSequence_def)
  qed
qed

text \<open>Following a key in the graph itself.\<close>

fun dafsa_find :: "dafsa \<Rightarrow> string \<Rightarrow> nat option" where
  "dafsa_find t [] = end_value (children t)"
| "dafsa_find t (c # key) = Option.bind (letter_child c (children t)) (\<lambda>t'. dafsa_find t' key)"

lemma lookup_loop_find:
  "follows g s t \<Longrightarrow> lookup_loop g key s = Some (case dafsa_find t key of None \<Rightarrow> kDafsaNotFound | Some v \<Rightarrow> int v)"
proof (induction key arbitrary: s t)
  case Nil
  then show ?case by (simp add: follows_result)
next
  case (Cons c key)
  then show ?case using follows_advance [OF Cons.prems, of c] by (cases "letter_child c (children t)") auto
qed

text \<open>In a deterministic graph that finds exactly the words.\<close>

fun plain_label :: "dafsa \<Rightarrow> bool" where
  "plain_label (Branch ts) = False"
| "plain_label _ = True"

fun layered :: "dafsa \<Rightarrow> bool" where
  "layered (Word_end v) = True"
| "layered (Letter c t) = layered t"
| "layered (Branch ts) \<longleftrightarrow> (\<forall>t \<in> set ts. plain_label t \<and> layered t)"

lemma those_Some_set: "those (map f xs) = Some ys \<Longrightarrow> y \<in> set ys \<Longrightarrow> \<exists>x \<in> set xs. f x = Some y"
  by (induction xs arbitrary: ys) (auto split: option.splits)

lemma label_tree_layered: "label_tree n g p = Some t \<Longrightarrow> plain_label t \<and> layered t"
proof (induction n arbitrary: p t)
  case (Suc n)
  have "plain_label u \<and> layered u" if "those (map (label_tree n g) os) = Some ts" "u \<in> set ts" for os ts u
    using those_Some_set [OF that] Suc.IH by blast
  then show ?case using Suc by (auto simp: Let_def split: if_splits Option.bind_splits)
qed simp

lemma no_such_letter: "\<lbrakk>Some c \<notin> first_letter ` set ts; \<forall>t \<in> set ts. plain_label t\<rbrakk> \<Longrightarrow>
    (c # w, v) \<notin> dafsa_words (Branch ts) \<and> letter_child c ts = None"
proof (induction ts)
  case (Cons t ts)
  then show ?case by (cases t) auto
qed simp

lemma no_word_end: "\<lbrakk>None \<notin> first_letter ` set ts; \<forall>t \<in> set ts. plain_label t\<rbrakk> \<Longrightarrow>
    ([], v) \<notin> dafsa_words (Branch ts) \<and> end_value ts = None"
proof (induction ts)
  case (Cons t ts)
  then show ?case by (cases t) auto
qed simp

lemma letter_child_word:
  assumes "distinct (map first_letter ts)" "\<forall>t \<in> set ts. plain_label t"
  shows "(c # w, v) \<in> dafsa_words (Branch ts) \<longleftrightarrow> (\<exists>t. letter_child c ts = Some t \<and> (w, v) \<in> dafsa_words t)"
  using assms
proof (induction ts)
  case (Cons t ts)
  then show ?case
    using no_such_letter [of c ts w v] by (cases t) auto
qed simp

lemma end_value_word:
  assumes "distinct (map first_letter ts)" "\<forall>t \<in> set ts. plain_label t"
  shows "([], v) \<in> dafsa_words (Branch ts) \<longleftrightarrow> end_value ts = Some v"
  using assms
proof (induction ts)
  case (Cons t ts)
  then show ?case
    using no_word_end [of ts v] by (cases t) auto
qed simp

lemma letter_child_in: "letter_child c ts = Some t \<Longrightarrow> Letter c t \<in> set ts"
  by (induction ts) (auto split: dafsa.splits if_splits)

lemma dafsa_find_words:
  "\<lbrakk>deterministic t; layered t\<rbrakk> \<Longrightarrow> dafsa_find t key = Some v \<longleftrightarrow> (key, v) \<in> dafsa_words t"
proof (induction key arbitrary: t)
  case Nil
  then show ?case using end_value_word by (cases t) auto
next
  case (Cons c key)
  have ts: "distinct (map first_letter (children t))" "\<forall>u \<in> set (children t). plain_label u"
      "dafsa_words (Branch (children t)) = dafsa_words t"
    using Cons.prems by (cases t; auto)+
  have "deterministic u \<and> layered u" if "letter_child c (children t) = Some u" for u
    using letter_child_in [OF that] Cons.prems by (cases t) auto
  then show ?case
    using letter_child_word [OF ts(1,2), of c key v] Cons.IH ts(3)
    by (cases "letter_child c (children t)") auto
qed

lemma lookup_dafsa:
  assumes "dafsa_of g = Some t" "deterministic t"
  shows "LookupStringInFixedSet g key = Some (case dafsa_find t key of None \<Rightarrow> kDafsaNotFound | Some v \<Rightarrow> int v)"
    and "dafsa_find t key = Some v \<longleftrightarrow> (key, v) \<in> dafsa_words t"
proof -
  obtain os ts where ts: "child_offsets g 0 0 = Some os" "those (map (label_tree (length g) g) os) = Some ts" "t = Branch ts"
    using assms(1) by (auto simp: dafsa_of_def split: Option.bind_splits)
  have "follows g FixedSetIncrementalLookup t"
    using ts by (auto simp: follows_def FixedSetIncrementalLookup_def)
  then show "LookupStringInFixedSet g key = Some (case dafsa_find t key of None \<Rightarrow> kDafsaNotFound | Some v \<Rightarrow> int v)"
    by (simp add: LookupStringInFixedSet_def lookup_loop_find)
  have "layered t" unfolding ts(3) layered.simps using those_Some_set [OF ts(2)] label_tree_layered by blast
  then show "dafsa_find t key = Some v \<longleftrightarrow> (key, v) \<in> dafsa_words t"
    using dafsa_find_words assms(2) by blast
qed

section \<open>Properties\<close>

text \<open>C21: In a graph that has the documented format and in which no node has two children with the same first letter, the lookup of
  any string, of whatever characters, reads only octets of the graph and answers the value that the graph gives to
  the string, and \<^verbatim>\<open>kDafsaNotFound\<close> exactly when the string is not one of its words.\<close>

theorem lookup_finds_words:
  assumes "dafsa_of g = Some t" "deterministic t"
  shows "\<exists>r. LookupStringInFixedSet g key = Some r \<and>
    (\<forall>v. r = int v \<longleftrightarrow> (key, v) \<in> dafsa_words t) \<and>
    (r = kDafsaNotFound \<longleftrightarrow> key \<notin> fst ` dafsa_words t)"
proof -
  note look = lookup_dafsa(1) [OF assms, of key] and found = lookup_dafsa(2) [OF assms, of key]
  show ?thesis
  proof (cases "dafsa_find t key")
    case None
    then show ?thesis using look found by (force simp: kDafsaNotFound_def)
  next
    case (Some v)
    then have "(key, v) \<in> dafsa_words t" using found by blast
    then have "key \<in> fst ` dafsa_words t" by (rule rev_image_eqI) simp
    moreover have "int v = int u \<longleftrightarrow> (key, u) \<in> dafsa_words t" for u
      unfolding found [symmetric] Some by simp
    ultimately show ?thesis using look by (intro exI [of _ "int v"]) (simp add: Some kDafsaNotFound_def)
  qed
qed

text \<open>The second example of \<^verbatim>\<open>make_dafsa.py\<close>.\<close>

definition example_dafsa :: bytes where
  "example_dafsa = [0x02, 0x83, 0xE2, 0x02, 0x83, 0x61, 0x61, 0x81, 0x62, 0x62, 0x82]"

definition example_words :: dafsa where
  "example_words =
     (let aa = Letter (CHR ''a'') (Letter (CHR ''a'') (Word_end 1));
          bb = Letter (CHR ''b'') (Letter (CHR ''b'') (Word_end 2))
      in Branch [Letter (CHR ''b'') (Branch [aa, bb]), aa])"

theorem lookup_finds_words_witness:
  "dafsa_of example_dafsa = Some example_words \<and> deterministic example_words \<and>
   LookupStringInFixedSet example_dafsa ''baa'' = Some 1"
proof -
  have g: "dafsa_of example_dafsa = Some example_words" "deterministic example_words" by code_simp+
  have "(''baa'', 1) \<in> dafsa_words example_words" by (simp add: example_words_def Let_def)
  then show ?thesis using lookup_finds_words [OF g, of "''baa''"] g by force
qed

end
