(* ===== verification/TldRegistry.thy ===== *)
theory TldRegistry
  imports Dafsa
begin

text \<open>
  \<^verbatim>\<open>tldregistry.cpp\<close>: registered top-level domains, looked up in the generated graph, which is a parameter, and the reduction of a
  domain to its registered part and some labels.  Positions are 64-bit words, because the code lets them wrap.
\<close>

section \<open>Model\<close>

definition is_tld :: "bytes \<Rightarrow> string \<Rightarrow> bool option" where
  "is_tld g domain = map_option (\<lambda>r. kDafsaFound = r) (LookupStringInFixedSet g domain)"

abbreviation dot :: char where "dot \<equiv> CHR ''.''"

lemma sv_find_less: "sv_find s [c] i = Some p \<Longrightarrow> p < length s"
  by (auto simp: sv_find_def sv_find_sub_single Let_def split: if_splits option.splits)

function get_tld :: "bytes \<Rightarrow> string \<Rightarrow> string option option" where
  "get_tld g domain =
     (if domain = [] then Some None
      else case is_tld g domain of
        None \<Rightarrow> None
      | Some True \<Rightarrow> Some (Some domain)
      | Some False \<Rightarrow>
          (case sv_find domain [dot] 0 of
             None \<Rightarrow> Some None
           | Some p \<Rightarrow> get_tld g (drop (p + 1) domain)))"
  by pat_completeness auto
termination by (relation "measure (\<lambda>(g, domain). length domain)") (auto simp: sv_find_less)

text \<open>\<^verbatim>\<open>rfind\<close> of a character from a position: a position at or behind the end means the whole string.\<close>

definition sv_rfind_char :: "string \<Rightarrow> char \<Rightarrow> u64 \<Rightarrow> nat option" where
  "sv_rfind_char s c p =
     (let t = (if word_of_nat (length s) \<le> p then s else take (unat p + 1) s);
          i = find_if (\<lambda>x. x = c) (rev t)
      in if i < length t then Some (length t - 1 - i) else None)"

definition sv_npos :: u64 where "sv_npos = - 1"

text \<open>\<^verbatim>\<open>substr\<close> raises when it starts behind the end, which is \<^const>\<open>None\<close>.\<close>

fun reduce_loop :: "string \<Rightarrow> u64 \<Rightarrow> nat \<Rightarrow> string option" where
  "reduce_loop domain p 0 = (if word_of_nat (length domain) < p + 2 then None else Some (drop (unat (p + 2)) domain))"
| "reduce_loop domain p (Suc n) =
     (case sv_rfind_char domain dot p of
        None \<Rightarrow> Some domain
      | Some q \<Rightarrow> reduce_loop domain (word_of_nat q - 1) n)"

definition strip_dots :: "string \<Rightarrow> string" where
  "strip_dots domain = rev (dropWhile (\<lambda>c. c = dot) (rev (dropWhile (\<lambda>c. c = dot) domain)))"

definition reduce_domain :: "bytes \<Rightarrow> string \<Rightarrow> u32 \<Rightarrow> string option" where
  "reduce_domain g domain n =
     (let domain = strip_dots domain
      in case get_tld g domain of
           None \<Rightarrow> None
         | Some (Some tld) \<Rightarrow>
             reduce_loop domain (word_of_nat (length domain) - word_of_nat (length tld) - 2) (unat n)
         | Some None \<Rightarrow>
             (case sv_rfind_char domain dot sv_npos of
                Some p \<Rightarrow> reduce_loop domain (word_of_nat p - 1) (unat n)
              | None \<Rightarrow> Some domain))"

section \<open>Labels\<close>

fun labels :: "string \<Rightarrow> string list" where
  "labels [] = [[]]"
| "labels (c # s) = (if c = dot then [] # labels s else (c # hd (labels s)) # tl (labels s))"

fun undot :: "string list \<Rightarrow> string" where
  "undot [] = []"
| "undot [l] = l"
| "undot (l # m # ls) = l @ dot # undot (m # ls)"

lemma labels_nonempty [simp]: "labels s \<noteq> []"
  by (cases s) auto

lemma undot_Cons: "ls \<noteq> [] \<Longrightarrow> undot (l # ls) = l @ dot # undot ls"
  by (cases ls) auto

lemma undot_labels [simp]: "undot (labels s) = s"
proof (induction s)
  case (Cons c s)
  then show ?case by (cases "labels s"; cases "tl (labels s)") (auto simp: undot_Cons)
qed simp

lemma labels_no_dot: "l \<in> set (labels s) \<Longrightarrow> dot \<notin> set l"
proof (induction s arbitrary: l)
  case (Cons c s)
  then show ?case by (cases "labels s") (auto split: if_splits)
qed simp

lemma undot_append: "\<lbrakk>xs \<noteq> []; ys \<noteq> []\<rbrakk> \<Longrightarrow> undot (xs @ ys) = undot xs @ dot # undot ys"
proof (induction xs)
  case (Cons x xs)
  then show ?case by (cases xs) (auto simp: undot_Cons)
qed simp

section \<open>Searching from the right\<close>

lemma find_if_rev: "dot \<notin> set b \<Longrightarrow> find_if (\<lambda>x. x = dot) (rev (a @ dot # b)) = length b"
  by (auto simp: find_if_append)

text \<open>The prefix of a string that a position reaches, and the last dot in it.\<close>

definition reaches :: "string \<Rightarrow> u64 \<Rightarrow> string \<Rightarrow> bool" where
  "reaches s p t \<longleftrightarrow> (if word_of_nat (length s) \<le> p then s else take (unat p + 1) s) = t"

lemma rfind_dot: "\<lbrakk>reaches s p (a @ dot # b); dot \<notin> set b\<rbrakk> \<Longrightarrow> sv_rfind_char s dot p = Some (length a)"
  using find_if_rev [of b a] by (simp add: sv_rfind_char_def reaches_def Let_def)

lemma rfind_none:
  assumes "reaches s p t" "dot \<notin> set t"
  shows "sv_rfind_char s dot p = None"
proof -
  have "find_if (\<lambda>x. x = dot) (rev t) = length (rev t)"
    by (rule find_if_none) (use assms(2) in auto)
  then show ?thesis using assms(1) by (simp add: sv_rfind_char_def reaches_def Let_def)
qed

lemma unat_length: "length s < 2 ^ 63 \<Longrightarrow> unat (word_of_nat (length s) :: u64) = length s"
  by (simp add: unsigned_of_nat take_bit_nat_eq_self)

lemma reaches_before:
  assumes "length (a @ c # b) < 2 ^ 63" "a \<noteq> []"
  shows "reaches (a @ c # b) (word_of_nat (length a) - 1) a"
    and "unat (word_of_nat (length a) - 1 + 2 :: u64) = length a + 1"
    and "\<not> word_of_nat (length (a @ c # b)) < (word_of_nat (length a) - 1 + 2 :: u64)"
proof -
  obtain k where k: "length a = Suc k" using assms(2) by (cases a) auto
  have w: "word_of_nat (length a) - 1 = (word_of_nat k :: u64)" using k by simp
  have u: "unat (word_of_nat i :: u64) = i" if "i \<le> length (a @ c # b)" for i
    using that assms(1) by (simp add: unsigned_of_nat take_bit_nat_eq_self)
  have "unat (word_of_nat k :: u64) = k" by (rule u) (use k in simp)
  moreover have "unat (word_of_nat (length (a @ c # b)) :: u64) = length (a @ c # b)" by (rule u) simp
  ultimately have "\<not> word_of_nat (length (a @ c # b)) \<le> (word_of_nat k :: u64)"
    unfolding word_le_nat_alt using k by simp
  then show "reaches (a @ c # b) (word_of_nat (length a) - 1) a"
    using k \<open>unat (word_of_nat k :: u64) = k\<close> unfolding reaches_def w by simp
  have two: "word_of_nat (length a) - 1 + 2 = (word_of_nat (length a + 1) :: u64)" using k by simp
  have "unat (word_of_nat (length a + 1) :: u64) = length a + 1" by (rule u) simp
  moreover have "length a + 1 \<le> length (a @ c # b)" by simp
  ultimately show "unat (word_of_nat (length a) - 1 + 2 :: u64) = length a + 1"
    and "\<not> word_of_nat (length (a @ c # b)) < (word_of_nat (length a) - 1 + 2 :: u64)"
    unfolding two word_less_nat_alt by (simp_all add: \<open>unat (word_of_nat (length (a @ c # b)) :: u64) = length (a @ c # b)\<close> del: length_append of_nat_Suc of_nat_add)
qed

section \<open>Reduction\<close>

lemma undot_no_dots: "(\<forall>l \<in> set ls. dot \<notin> set l) \<Longrightarrow> dot \<in> set (undot ls) \<longleftrightarrow> 1 < length ls"
  by (induction ls rule: undot.induct) auto

lemma undot_hd: "\<lbrakk>ls \<noteq> []; hd ls \<noteq> []\<rbrakk> \<Longrightarrow> undot ls \<noteq> []"
  by (cases ls rule: undot.cases) auto

text \<open>From the labels before a position, the loop keeps as many as it is told.\<close>

lemma reduce_loop_labels:
  assumes "ys \<noteq> []" "length (undot (xs @ ys)) < 2 ^ 63" "\<forall>l \<in> set (xs @ ys). dot \<notin> set l"
    and "xs \<noteq> []" "hd xs \<noteq> []"
  shows "reduce_loop (undot (xs @ ys)) (word_of_nat (length (undot xs)) - 1) n = Some (undot (drop (length xs - n) (xs @ ys)))"
  using assms
proof (induction n arbitrary: xs ys)
  case 0
  have d: "undot (xs @ ys) = undot xs @ dot # undot ys" using 0 by (simp add: undot_append)
  note before = reaches_before [of "undot xs" dot "undot ys", folded d, OF 0(2) undot_hd [OF 0(4,5)]]
  show ?case using before(2,3) by (simp add: d)
next
  case (Suc n)
  have d: "undot (xs @ ys) = undot xs @ dot # undot ys" using Suc.prems by (simp add: undot_append)
  note reach = reaches_before(1) [of "undot xs" dot "undot ys", folded d, OF Suc.prems(2) undot_hd [OF Suc.prems(4,5)]]
  show ?case
  proof (cases "length xs = 1")
    case True
    then have "dot \<notin> set (undot xs)" using undot_no_dots [of xs] Suc.prems(3) by auto
    then show ?thesis using rfind_none [OF reach] True by simp
  next
    case False
    define us where "us = butlast xs"
    define l where "l = last xs"
    have xs: "xs = us @ [l]" "us \<noteq> []" "hd us \<noteq> []"
      unfolding us_def l_def using Suc.prems(4,5) False
      by (cases xs; cases "tl xs"; simp)+
    have "undot xs = undot us @ dot # l" using xs by (simp add: undot_append)
    moreover have "dot \<notin> set l" using Suc.prems(3) xs by auto
    ultimately have "sv_rfind_char (undot (xs @ ys)) dot (word_of_nat (length (undot xs)) - 1) = Some (length (undot us))"
      using rfind_dot reach by metis
    then show ?thesis
      using Suc.IH [of "l # ys" us] Suc.prems xs by simp
  qed
qed

section \<open>Registered domains\<close>

fun tails :: "'a list \<Rightarrow> 'a list list" where
  "tails [] = []"
| "tails (x # xs) = (x # xs) # tails xs"

lemma labels_first_dot:
  "sv_find_sub [dot] d = None \<Longrightarrow> labels d = [d]"
  "sv_find_sub [dot] d = Some p \<Longrightarrow> labels d = take p d # labels (drop (Suc p) d)"
proof (induction d arbitrary: p)
  case (Cons c d)
  { case 1
    then show ?case using Cons.IH(1) by (auto split: if_splits) }
  { case 2
    then show ?case using Cons.IH(2) by (cases p) (auto split: if_splits) }
qed auto

declare get_tld.simps [simp del]

lemma get_tld_find:
  assumes "\<And>x. is_tld g x = Some (P x)"
  shows "get_tld g d = Some (find (\<lambda>y. y \<noteq> [] \<and> P y) (map undot (tails (labels d))))"
proof (induction "length d" arbitrary: d rule: less_induct)
  case less
  have head: "tails (labels d) = labels d # tails (tl (labels d))" by (cases "labels d") auto
  show ?case
  proof (cases "d = [] \<or> P d")
    case True
    then show ?thesis by (cases "d = []") (auto simp: get_tld.simps [of g] assms head)
  next
    case False
    show ?thesis
    proof (cases "sv_find_sub [dot] d")
      case None
      then show ?thesis using False labels_first_dot(1) [OF None] by (simp add: get_tld.simps [of g d] assms sv_find_def)
    next
      case (Some p)
      have "get_tld g d = get_tld g (drop (p + 1) d)"
        using False Some by (simp add: get_tld.simps [of g d] assms sv_find_def)
      also have "\<dots> = Some (find (\<lambda>y. y \<noteq> [] \<and> P y) (map undot (tails (labels (drop (p + 1) d)))))"
        by (rule less) (use False in auto)
      finally have "get_tld g d = \<dots>" .
      moreover have "tails (labels d) = labels d # tails (labels (drop (p + 1) d))"
        using head labels_first_dot(2) [OF Some] by simp
      ultimately show ?thesis using False by simp
    qed
  qed
qed

lemma tails_append: "t \<in> set (tails ls) \<Longrightarrow> t \<noteq> [] \<and> (\<exists>xs. ls = xs @ t)"
proof (induction ls)
  case (Cons l ls)
  then consider "t = l # ls" | xs where "t \<noteq> []" "ls = xs @ t" by auto
  then show ?case
  proof cases
    case 1
    then show ?thesis by (auto intro: exI [of _ "[]"])
  next
    case (2 xs)
    then show ?thesis by (auto intro: exI [of _ "l # xs"])
  qed
qed simp

lemma find_in: "find p xs = Some x \<Longrightarrow> x \<in> set xs \<and> p x"
  by (induction xs) (auto split: if_splits)

lemma get_tld_labels:
  assumes "\<And>x. is_tld g x = Some (P x)" "get_tld g d = Some (Some t)"
  obtains xs ys where "labels d = xs @ ys" "ys \<noteq> []" "t = undot ys"
proof -
  have "find (\<lambda>y. y \<noteq> [] \<and> P y) (map undot (tails (labels d))) = Some t"
    using assms(2) unfolding get_tld_find [OF assms(1)] by simp
  from find_in [OF this] obtain ys where ys: "ys \<in> set (tails (labels d))" "t = undot ys" by auto
  then obtain xs where "labels d = xs @ ys" "ys \<noteq> []" using tails_append [OF ys(1)] by blast
  then show thesis using that ys(2) by blast
qed

lemma length_labels: "length (labels s) = Suc (count_list s dot)"
  by (induction s) auto

lemma count_undot: "\<lbrakk>ls \<noteq> []; \<forall>l \<in> set ls. dot \<notin> set l\<rbrakk> \<Longrightarrow> Suc (count_list (undot ls) dot) = length ls"
  by (induction ls rule: undot.induct) (auto simp: count_notin)

lemma labels_undot_length:
  assumes "labels d = xs @ ys" "ys \<noteq> []"
  shows "length (labels (undot ys)) = length ys"
  using count_undot [of ys] labels_no_dot [of _ d] assms by (auto simp: length_labels)

subsection \<open>Stripped domains\<close>

lemma strip_dots_hd: "strip_dots s \<noteq> [] \<Longrightarrow> hd (strip_dots s) \<noteq> dot"
proof -
  let ?t = "dropWhile (\<lambda>c. c = dot) s"
  assume ne: "strip_dots s \<noteq> []"
  obtain u where "?t = strip_dots s @ u"
    unfolding strip_dots_def by (metis rev_append rev_rev_ident takeWhile_dropWhile_id)
  then have "hd (strip_dots s) = hd ?t" "?t \<noteq> []" using ne by auto
  then show ?thesis using hd_dropWhile [of "\<lambda>c. c = dot" s] by simp
qed

lemma labels_hd: "\<lbrakk>s \<noteq> []; hd s \<noteq> dot\<rbrakk> \<Longrightarrow> hd (labels s) \<noteq> []"
  by (cases s) auto

lemma strip_dots_length: "length (strip_dots s) \<le> length s"
  by (simp add: strip_dots_def) (metis dual_order.trans length_dropWhile_le length_rev)

lemma is_tld_words:
  assumes "dafsa_of g = Some t" "deterministic t"
  shows "is_tld g x = Some ((x, 0) \<in> dafsa_words t)"
  using lookup_dafsa(1) [OF assms, of x] lookup_dafsa(2) [OF assms, of x 0]
  by (cases "dafsa_find t x") (auto simp: is_tld_def kDafsaNotFound_def kDafsaFound_def)

text \<open>The last labels of a domain, at most a given number.\<close>

definition last_labels :: "nat \<Rightarrow> string \<Rightarrow> string" where
  "last_labels n d = undot (drop (length (labels d) - n) (labels d))"

lemma reduce_from_labels:
  assumes "labels d = xs @ ys" "xs \<noteq> []" "ys \<noteq> []" "length d < 2 ^ 63" "hd d \<noteq> dot"
  shows "reduce_loop d (word_of_nat (length (undot xs)) - 1) n = Some (last_labels (length ys + n) d)"
    and "length d = length (undot xs) + 1 + length (undot ys)"
proof -
  have d: "d = undot (xs @ ys)" using undot_labels [of d] assms(1) by simp
  then show "length d = length (undot xs) + 1 + length (undot ys)" using assms(2,3) by (simp add: undot_append)
  have "d \<noteq> []" using assms(1-3) by (cases d) (auto simp: Cons_eq_append_conv)
  then have "hd xs \<noteq> []" using labels_hd [of d] assms(1,2,5) by simp
  then show "reduce_loop d (word_of_nat (length (undot xs)) - 1) n = Some (last_labels (length ys + n) d)"
    using reduce_loop_labels [of ys xs n] assms(1-4) labels_no_dot [of _ d] d by (auto simp: last_labels_def)
qed

text \<open>A position that has wrapped reaches the whole domain.\<close>

lemma reaches_all:
  assumes "length d < 2 ^ 63" "p \<in> {- 1, - 2}"
  shows "reaches d p d"
proof -
  have "unat (- 1 :: u64) = 2 ^ 64 - 1" "unat (- 2 :: u64) = 2 ^ 64 - 2" by (simp_all add: unsigned_minus_1_eq_mask mask_eq_exp_minus_1)
  then have "word_of_nat (length d) \<le> p"
    unfolding word_le_nat_alt unat_length [OF assms(1)] using assms by auto
  then show ?thesis by (simp add: reaches_def)
qed

lemma rfind_last_label:
  assumes "reaches d p d" "labels d = xs @ [l]"
  shows "sv_rfind_char d dot p = (if xs = [] then None else Some (length (undot xs)))"
proof (cases "xs = []")
  case True
  then have "d = l" "dot \<notin> set l" using undot_labels [of d] labels_no_dot [of l d] assms(2) by auto
  then show ?thesis using rfind_none [OF assms(1)] True by simp
next
  case False
  have "d = undot xs @ dot # l" using undot_labels [of d] assms(2) False by (simp add: undot_append)
  moreover have "dot \<notin> set l" using labels_no_dot [of l d] assms(2) by simp
  ultimately show ?thesis using rfind_dot assms(1) False by metis
qed

section \<open>Properties\<close>

text \<open>Also: In a graph of the documented format, \<^verbatim>\<open>get_tld\<close> gives the longest suffix of the domain that begins at a label, is not empty and is
  a word of the graph with the value \<^verbatim>\<open>kDafsaFound\<close>, and nothing when there is none.\<close>

theorem get_tld_longest:
  assumes "dafsa_of g = Some t" "deterministic t"
  shows "get_tld g d = Some (find (\<lambda>y. y \<noteq> [] \<and> (y, 0) \<in> dafsa_words t) (map undot (tails (labels d))))"
  by (rule get_tld_find) (rule is_tld_words [OF assms])

lemma labels_last: obtains xs l where "labels d = xs @ [l]"
  using rev_exhaust [of "labels d"] labels_nonempty by metis

lemma reduce_wrapped:
  assumes "length d < 2 ^ 63" "hd d \<noteq> dot"
  shows "reduce_loop d (- 2) 0 = Some d" "reduce_loop d (- 2) (Suc k) = Some (last_labels (Suc k) d)"
proof -
  show "reduce_loop d (- 2) 0 = Some d" by simp
  obtain xs l where l: "labels d = xs @ [l]" by (rule labels_last)
  have "d = l" if "xs = []" using undot_labels [of d] l that by simp
  then show "reduce_loop d (- 2) (Suc k) = Some (last_labels (Suc k) d)"
    using rfind_last_label [OF reaches_all [OF assms(1), of "- 2"] l] reduce_from_labels(1) [OF l _ _ assms, of k] l
    by (cases "xs = []") (auto simp: last_labels_def)
qed

lemma reduce_unregistered:
  assumes "length d < 2 ^ 63" "d \<noteq> [] \<Longrightarrow> hd d \<noteq> dot"
  shows "(case sv_rfind_char d dot sv_npos of Some p \<Rightarrow> reduce_loop d (word_of_nat p - 1) k | None \<Rightarrow> Some d) = Some (last_labels (Suc k) d)"
proof -
  obtain xs l where l: "labels d = xs @ [l]" by (rule labels_last)
  note find = rfind_last_label [OF reaches_all [OF assms(1), of "- 1"] l]
  show ?thesis
  proof (cases "xs = []")
    case True
    then have "d = l" using undot_labels [of d] l by simp
    then show ?thesis using True find l by (auto simp: last_labels_def sv_npos_def)
  next
    case False
    then have "d \<noteq> []" using l by (cases d) (auto simp: Cons_eq_append_conv)
    then show ?thesis using False find reduce_from_labels(1) [OF l False _ assms(1), of k] assms(2) by (auto simp: sv_npos_def)
  qed
qed

lemma reduce_domain_cases:
  assumes "dafsa_of g = Some t" "deterministic t" "length domain < 2 ^ 63"
  shows "let d = strip_dots domain; k = unat n
    in reduce_domain g domain n = Some
      (case the (get_tld g d) of
         None \<Rightarrow> last_labels (Suc k) d
       | Some tld \<Rightarrow>
           if tld \<noteq> d then last_labels (length (labels tld) + k) d
           else if k = 0 then d
           else last_labels k d)"
proof -
  define d where "d = strip_dots domain"
  have len: "length d < 2 ^ 63" using assms(3) strip_dots_length [of domain] by (simp add: d_def)
  have hd: "d \<noteq> [] \<Longrightarrow> hd d \<noteq> dot" using strip_dots_hd by (simp add: d_def)
  note tld = is_tld_words [OF assms(1,2)]
  note get = get_tld_find [OF tld, of d]
  show ?thesis
  proof (cases "the (get_tld g d)")
    case None
    then show ?thesis
      using get reduce_unregistered [OF len hd, of "unat n"] by (simp add: reduce_domain_def Let_def d_def [symmetric])
  next
    case (Some u)
    then have u: "get_tld g d = Some (Some u)" using get by simp
    obtain xs ys where ys: "labels d = xs @ ys" "ys \<noteq> []" "u = undot ys" by (rule get_tld_labels [OF tld u])
    have "u \<noteq> []" using u unfolding get by (auto dest: find_in)
    then have "d \<noteq> []" using ys undot_labels [of d] by (cases "xs = []") (auto simp: undot_append)
    show ?thesis
    proof (cases "u = d")
      case True
      then show ?thesis using u reduce_wrapped [OF len hd [OF \<open>d \<noteq> []\<close>]]
        by (cases "unat n") (simp_all add: reduce_domain_def Let_def d_def [symmetric] del: reduce_loop.simps)
    next
      case False
      then have "xs \<noteq> []" using ys undot_labels [of d] by auto
      note from_labels = reduce_from_labels [OF ys(1) this ys(2) len hd [OF \<open>d \<noteq> []\<close>]]
      have "word_of_nat (length d) - word_of_nat (length u) - 2 = (word_of_nat (length (undot xs)) - 1 :: u64)"
        unfolding from_labels(2) ys(3) by simp
      then show ?thesis
        using u False from_labels(1) labels_undot_length [OF ys(1,2)] ys(3)
        by (simp add: reduce_domain_def Let_def d_def [symmetric])
    qed
  qed
qed

text \<open>C30: With a graph of the documented format and a domain that is not itself registered, \<^verbatim>\<open>reduce_domain\<close> strips the dots around the domain and
  gives the registered domain with as many labels before it as asked for, or all there are; of a domain that does not belong to a
  registered one it gives at most one label more than asked for.  The domain is shorter than two to the power 63.  A domain that is itself
  registered is left out: the code cuts it.\<close>

theorem reduce_domain_labels:
  assumes "dafsa_of g = Some t" "deterministic t" "length domain < 2 ^ 63"
    and "get_tld g (strip_dots domain) \<noteq> Some (Some (strip_dots domain))"
  shows "let d = strip_dots domain
    in reduce_domain g domain n = Some
      (case the (get_tld g d) of
         None \<Rightarrow> last_labels (unat n + 1) d
       | Some tld \<Rightarrow> last_labels (length (labels tld) + unat n) d)"
proof -
  have "get_tld g (strip_dots domain) \<noteq> None"
    using get_tld_find [OF is_tld_words [OF assms(1,2)], of "strip_dots domain"] by simp
  then show ?thesis
    using reduce_domain_cases [OF assms(1-3), of n] assms(4) by (auto simp: Let_def split: option.splits)
qed

definition uk_dafsa :: bytes where
  "uk_dafsa = [0x02, 0x86, 0x63, 0x6f, 0x2e, 0x75, 0x6b, 0x80, 0x75, 0x6b, 0x80]"

definition uk_words :: dafsa where
  "uk_words = Branch
     [Letter (CHR ''c'') (Letter (CHR ''o'') (Letter (CHR ''.'') (Letter (CHR ''u'') (Letter (CHR ''k'') (Word_end 0))))),
      Letter (CHR ''u'') (Letter (CHR ''k'') (Word_end 0))]"

lemma uk_graph: "dafsa_of uk_dafsa = Some uk_words" "deterministic uk_words"
  by code_simp+

theorem get_tld_longest_witness: "get_tld uk_dafsa ''uk.example.co.uk'' = Some (Some ''co.uk'')"
  using get_tld_longest [OF uk_graph, of "''uk.example.co.uk''"] by (simp add: uk_words_def)

theorem reduce_domain_labels_witness: "reduce_domain uk_dafsa ''..bad.example.co.uk..'' 1 = Some ''example.co.uk''"
proof -
  have "strip_dots ''..bad.example.co.uk..'' = ''bad.example.co.uk''" by (simp add: strip_dots_def)
  moreover have "get_tld uk_dafsa ''bad.example.co.uk'' = Some (Some ''co.uk'')"
    using get_tld_find [OF is_tld_words [OF uk_graph], of "''bad.example.co.uk''"] by (simp add: uk_words_def)
  ultimately show ?thesis
    using reduce_domain_labels [OF uk_graph, of "''..bad.example.co.uk..''" 1] by (simp add: last_labels_def)
qed

text \<open>Also: a registered domain of two labels loses the first when it is reduced to itself and one label.\<close>

theorem registered_domain_cut: "is_tld uk_dafsa ''co.uk'' = Some True \<and> reduce_domain uk_dafsa ''co.uk'' 1 = Some ''uk''"
  by code_simp

end
