(* ===== verification/SystemErrors.thy ===== *)
theory SystemErrors
  imports Errors Cidr
begin

text \<open>
  \<^verbatim>\<open>Result\<close> of \<^verbatim>\<open>error.h\<close>, which aborts when it is given a null error, the codes of \<^verbatim>\<open>error.cpp\<close> for the errors of Windows sockets, and the
  texts of \<^verbatim>\<open>system_error.cpp\<close>.  The text that the system has for a code and the conversion from wide characters are parameters.
\<close>

section \<open>Results\<close>

text \<open>The alternative that the variant holds; the error is a shared pointer.\<close>

datatype ('r, 'e) result_value = Holds_value 'r | Holds_error 'e

text \<open>Construction from a value, and from a pointer to an error, which aborts when the pointer is null.\<close>

definition result_of_value :: "'r \<Rightarrow> ('r, 'e) result_value" where
  "result_of_value r = Holds_value r"

definition result_of_error :: "'e option \<Rightarrow> ('r, 'e) result_value option" where
  "result_of_error e = map_option Holds_error e"

definition result_has_value :: "('r, 'e) result_value \<Rightarrow> bool" where
  "result_has_value r = (case r of Holds_value v \<Rightarrow> True | Holds_error e \<Rightarrow> False)"

definition result_has_error :: "('r, 'e) result_value \<Rightarrow> bool" where
  "result_has_error r = (\<not> result_has_value r)"

text \<open>Access is \<^verbatim>\<open>noexcept\<close>: taking the alternative that is not held ends the program.\<close>

definition result_get_value :: "('r, 'e) result_value \<Rightarrow> 'r option" where
  "result_get_value r = (case r of Holds_value v \<Rightarrow> Some v | Holds_error e \<Rightarrow> None)"

definition result_get_error :: "('r, 'e) result_value \<Rightarrow> 'e option" where
  "result_get_error r = (case r of Holds_value v \<Rightarrow> None | Holds_error e \<Rightarrow> Some e)"

text \<open>Also: a result that was constructed has a value or an error, never neither, and the two tests tell which access is safe.\<close>

theorem result_total:
  "(result_of_error e = None \<longleftrightarrow> e = None) \<and>
   (result_has_value r \<longleftrightarrow> result_get_value r \<noteq> None) \<and> (result_has_error r \<longleftrightarrow> result_get_error r \<noteq> None) \<and>
   (result_has_value r \<noteq> result_has_error r)"
  by (cases r) (simp_all add: result_of_error_def result_has_value_def result_has_error_def result_get_value_def result_get_error_def)

section \<open>Errors of Windows sockets\<close>

datatype errc =
    bad_file_descriptor | not_enough_memory | invalid_argument | interrupted | permission_denied | bad_address
  | too_many_files_open | operation_would_block | operation_in_progress | connection_already_in_progress | not_a_socket
  | destination_address_required | message_size | wrong_protocol_type | no_protocol_option | protocol_not_supported
  | not_supported | operation_not_supported | address_family_not_supported | address_in_use | address_not_available
  | network_down | network_unreachable | network_reset | connection_aborted | connection_reset | no_buffer_space
  | already_connected | not_connected | bad_message | timed_out | connection_refused | too_many_symbolic_link_levels
  | filename_too_long | directory_not_empty | host_unreachable | too_many_files_open_in_system | broken_pipe
  | state_not_recoverable | inappropriate_io_control_operation

text \<open>The codes of \<^verbatim>\<open>winsock2.h\<close> in the order of the switch.\<close>

definition wsa_table :: "(int \<times> errc) list" where
  "wsa_table =
     [(6, bad_file_descriptor),
      (8, not_enough_memory),
      (87, invalid_argument),
      (10004, interrupted),
      (10009, bad_file_descriptor),
      (10013, permission_denied),
      (10014, bad_address),
      (10022, invalid_argument),
      (10024, too_many_files_open),
      (10035, operation_would_block),
      (10036, operation_in_progress),
      (10037, connection_already_in_progress),
      (10038, not_a_socket),
      (10039, destination_address_required),
      (10040, message_size),
      (10041, wrong_protocol_type),
      (10042, no_protocol_option),
      (10043, protocol_not_supported),
      (10044, not_supported),
      (10045, operation_not_supported),
      (10046, address_family_not_supported),
      (10047, address_family_not_supported),
      (10048, address_in_use),
      (10049, address_not_available),
      (10050, network_down),
      (10051, network_unreachable),
      (10052, network_reset),
      (10053, connection_aborted),
      (10054, connection_reset),
      (10055, no_buffer_space),
      (10056, already_connected),
      (10057, not_connected),
      (10059, bad_message),
      (10060, timed_out),
      (10061, connection_refused),
      (10062, too_many_symbolic_link_levels),
      (10063, filename_too_long),
      (10066, directory_not_empty),
      (10064, host_unreachable),
      (10065, host_unreachable),
      (10067, too_many_files_open_in_system),
      (10068, too_many_files_open_in_system),
      (10069, too_many_files_open_in_system),
      (10070, bad_file_descriptor),
      (10071, bad_address),
      (10058, broken_pipe),
      (10101, broken_pipe),
      (10091, state_not_recoverable),
      (10092, not_supported),
      (10093, inappropriate_io_control_operation)]"

text \<open>The switch has no default, so an unknown code leaves the variable without a value, which is \<^const>\<open>None\<close>.\<close>

definition errc_from_socket_error :: "int \<Rightarrow> errc option" where
  "errc_from_socket_error err = map_of wsa_table err"

text \<open>Also: the codes of the switch are all different, so each has the value that the table gives it, and every other code has none.\<close>

theorem errc_from_socket_error_table:
  "distinct (map fst wsa_table)" "errc_from_socket_error err = Some e \<longleftrightarrow> (err, e) \<in> set wsa_table"
proof -
  show d: "distinct (map fst wsa_table)" by (simp add: wsa_table_def)
  show "errc_from_socket_error err = Some e \<longleftrightarrow> (err, e) \<in> set wsa_table"
    unfolding errc_from_socket_error_def using map_of_eq_Some_iff [OF d] by simp
qed

section \<open>Texts of system errors\<close>

text \<open>\<^verbatim>\<open>FormatMessageW\<close> gives the wide characters it wrote, none when it fails; a full stop and a space at the end are cut off.\<close>

definition get_wide_error_message :: "nat list \<Rightarrow> nat list" where
  "get_wide_error_message dst =
     (let n = length dst
      in if n = 0 then []
         else if n > 2 \<and> dst ! (n - 2) = 0x2e \<and> dst ! (n - 1) = 0x20 then take (n - 2) dst
         else dst)"

definition get_error_message :: "(nat \<Rightarrow> int \<Rightarrow> nat list) \<Rightarrow> (nat list \<Rightarrow> string) \<Rightarrow> int \<Rightarrow> string" where
  "get_error_message format_message from_wstring code = from_wstring (get_wide_error_message (format_message 255 code))"

text \<open>The text is copied into a buffer of 255 octets and read as a C string.\<close>

definition win_strerror :: "(nat \<Rightarrow> int \<Rightarrow> nat list) \<Rightarrow> (nat list \<Rightarrow> string) \<Rightarrow> int \<Rightarrow> string" where
  "win_strerror format_message from_wstring code =
     (let str = get_error_message format_message from_wstring code;
          len = min (length str) (255 - 1);
          buffer = take len str @ [CHR 0x00]
      in c_str buffer)"

text \<open>Also: the text of an error fits the buffer with its terminating zero, and is the whole message when that is short and has no zero octet.\<close>

theorem win_strerror_fits:
  "length (win_strerror fm fw code) \<le> 254 \<and>
   (let str = get_error_message fm fw code
    in length str \<le> 254 \<and> CHR 0x00 \<notin> set str \<longrightarrow> win_strerror fm fw code = str)"
proof -
  have "length (c_str (take n s @ [CHR 0x00])) \<le> n" for n s
  proof -
    have "c_str (t @ [CHR 0x00]) = takeWhile (\<lambda>c. c \<noteq> CHR 0x00) t" for t
      by (induction t) (simp_all add: c_str_def)
    then show ?thesis using length_takeWhile_le [of "\<lambda>c. c \<noteq> CHR 0x00" "take n s"] by simp
  qed
  then have "length (win_strerror fm fw code) \<le> min (length (get_error_message fm fw code)) (255 - 1)"
    unfolding win_strerror_def Let_def .
  moreover have "c_str (s @ [CHR 0x00]) = s" if "CHR 0x00 \<notin> set s" for s
    using that unfolding c_str_def by (induction s) auto
  ultimately show ?thesis by (auto simp: win_strerror_def Let_def)
qed

end
