(* ===== verification/Files.thy ===== *)
theory Files
  imports FileLines
begin

text \<open>
  The operations of \<^verbatim>\<open>file.cpp\<close> on handles, for POSIX and for Windows, where \<^verbatim>\<open>pread\<close> is made of seeking and reading and positions go
  through a \<^verbatim>\<open>long\<close> of 32 bits.  The system calls and the state behind them are parameters.
\<close>

unbundle bit_operations_syntax

section \<open>Flags\<close>

definition RDONLY :: u32 where "RDONLY = 0x0000"
definition WRONLY :: u32 where "WRONLY = 0x0001"
definition RDWR :: u32 where "RDWR = 0x0002"
definition CREAT :: u32 where "CREAT = 0x0100"
definition APPEND :: u32 where "APPEND = 0x0200"
definition TRUNC :: u32 where "TRUNC = 0x0400"

text \<open>The flags of the platform, given as the values of its header.\<close>

record open_flags =
  O_CREAT :: u32
  O_APPEND :: u32
  O_TRUNC :: u32
  O_RDONLY :: u32
  O_WRONLY :: u32
  O_RDWR :: u32

definition to_platform_flags :: "open_flags \<Rightarrow> u32 \<Rightarrow> u32" where
  "to_platform_flags pf flags =
     (let r0 = 0;
          r1 = (if flags AND CREAT \<noteq> 0 then r0 OR O_CREAT pf else r0);
          r2 = (if flags AND APPEND \<noteq> 0 then r1 OR O_APPEND pf else r1);
          r3 = (if flags AND TRUNC \<noteq> 0 \<and> flags AND 0x0003 \<noteq> RDONLY then r2 OR O_TRUNC pf else r2);
          mode = flags AND 0x0003
      in if mode = RDONLY then r3 OR O_RDONLY pf
         else if mode = WRONLY then r3 OR O_WRONLY pf
         else if mode = RDWR then r3 OR O_RDWR pf
         else r3)"

section \<open>Operations\<close>

datatype whence = SEEK_SET | SEEK_CUR

record 'w file_calls =
  sys_flags :: open_flags
  sys_open :: "string \<Rightarrow> u32 \<Rightarrow> 'w \<Rightarrow> int \<times> 'w"
  sys_close :: "int \<Rightarrow> 'w \<Rightarrow> 'w"
  sys_read :: "int \<Rightarrow> nat \<Rightarrow> 'w \<Rightarrow> int \<times> string \<times> 'w"
  sys_pread :: "int \<Rightarrow> nat \<Rightarrow> int \<Rightarrow> 'w \<Rightarrow> int \<times> string"
  sys_write :: "int \<Rightarrow> string \<Rightarrow> 'w \<Rightarrow> int \<times> 'w"
  sys_lseek :: "int \<Rightarrow> int \<Rightarrow> whence \<Rightarrow> 'w \<Rightarrow> int \<times> 'w"
  sys_fstat :: "int \<Rightarrow> 'w \<Rightarrow> (nat \<times> int) option"
  sys_stat :: "string \<Rightarrow> 'w \<Rightarrow> (nat \<times> int) option"

definition file_is_valid :: "int \<Rightarrow> bool" where
  "file_is_valid f \<longleftrightarrow> f \<ge> 0"

definition file_open :: "'w file_calls \<Rightarrow> string \<Rightarrow> u32 \<Rightarrow> 'w \<Rightarrow> int \<times> 'w" where
  "file_open sys path flags = sys_open sys path (to_platform_flags (sys_flags sys) flags)"

definition file_close :: "'w file_calls \<Rightarrow> int \<Rightarrow> 'w \<Rightarrow> 'w" where
  "file_close sys f w = (if file_is_valid f then sys_close sys f w else w)"

definition file_read :: "'w file_calls \<Rightarrow> int \<Rightarrow> nat \<Rightarrow> 'w \<Rightarrow> int \<times> string \<times> 'w" where
  "file_read sys f sz w = sys_read sys f sz w"

definition file_pread :: "'w file_calls \<Rightarrow> int \<Rightarrow> nat \<Rightarrow> nat \<Rightarrow> 'w \<Rightarrow> int \<times> string \<times> 'w" where
  "file_pread sys f sz p w = (let (r, s) = sys_pread sys f sz (sint (word_of_nat p :: u64)) w in (r, s, w))"

definition file_write :: "'w file_calls \<Rightarrow> int \<Rightarrow> string \<Rightarrow> 'w \<Rightarrow> int \<times> 'w" where
  "file_write sys f buf w = sys_write sys f buf w"

definition get_position :: "'w file_calls \<Rightarrow> int \<Rightarrow> 'w \<Rightarrow> int \<times> 'w" where
  "get_position sys f w = sys_lseek sys f 0 SEEK_CUR w"

definition set_position :: "'w file_calls \<Rightarrow> int \<Rightarrow> nat \<Rightarrow> 'w \<Rightarrow> int \<times> 'w" where
  "set_position sys f p w = sys_lseek sys f (sint (word_of_nat p :: u64)) SEEK_SET w"

definition get_size :: "'w file_calls \<Rightarrow> int \<Rightarrow> 'w \<Rightarrow> int" where
  "get_size sys f w = (case sys_fstat sys f w of Some (st_size, st_mtime) \<Rightarrow> int st_size | None \<Rightarrow> -1)"

definition get_modification_time :: "'w file_calls \<Rightarrow> int \<Rightarrow> 'w \<Rightarrow> int" where
  "get_modification_time sys f w = (case sys_fstat sys f w of Some (st_size, st_mtime) \<Rightarrow> st_mtime | None \<Rightarrow> 0)"

definition path_modification_time :: "'w file_calls \<Rightarrow> string \<Rightarrow> 'w \<Rightarrow> int" where
  "path_modification_time sys path w = (case sys_stat sys path w of Some (st_size, st_mtime) \<Rightarrow> st_mtime | None \<Rightarrow> 0)"

subsection \<open>Windows\<close>

text \<open>\<^verbatim>\<open>_lseek\<close> takes and returns a \<^verbatim>\<open>long\<close> of 32 bits; the text mode is switched off when a file is opened.\<close>

definition to_long :: "int \<Rightarrow> int" where
  "to_long i = sint (word_of_int i :: u32)"

definition win_open :: "'w file_calls \<Rightarrow> u32 \<Rightarrow> string \<Rightarrow> u32 \<Rightarrow> 'w \<Rightarrow> int \<times> 'w" where
  "win_open sys O_BINARY path flags = sys_open sys path (to_platform_flags (sys_flags sys) flags OR O_BINARY)"

definition win_get_position :: "'w file_calls \<Rightarrow> int \<Rightarrow> 'w \<Rightarrow> int \<times> 'w" where
  "win_get_position sys f w = (let (r, w1) = sys_lseek sys f 0 SEEK_CUR w in (to_long r, w1))"

definition win_set_position :: "'w file_calls \<Rightarrow> int \<Rightarrow> int \<Rightarrow> 'w \<Rightarrow> int \<times> 'w" where
  "win_set_position sys f p w = (let (r, w1) = sys_lseek sys f (to_long p) SEEK_SET w in (to_long r, w1))"

definition win_pread :: "'w file_calls \<Rightarrow> int \<Rightarrow> nat \<Rightarrow> nat \<Rightarrow> 'w \<Rightarrow> int \<times> string \<times> 'w" where
  "win_pread sys f sz p w =
     (let (old_pos, w1) = win_get_position sys f w;
          (_, w2) = win_set_position sys f (int p) w1;
          (r, s, w3) = file_read sys f sz w2;
          (_, w4) = win_set_position sys f old_pos w3
      in (r, s, w4))"

definition EFBIG :: int where "EFBIG = 27"

text \<open>The sz, and the error number that is set if any; a \<^verbatim>\<open>ssize_t\<close> has 64 bits or 32 bits.\<close>

definition win_get_size :: "nat \<Rightarrow> 'w file_calls \<Rightarrow> int \<Rightarrow> 'w \<Rightarrow> int \<times> int option" where
  "win_get_size ssize_max sys f w =
     (case sys_fstat sys f w of
        None \<Rightarrow> (-1, None)
      | Some (st_size, st_mtime) \<Rightarrow> if st_size > ssize_max then (-1, Some EFBIG) else (int st_size, None))"

section \<open>Properties\<close>

text \<open>What the system promises of a file that can be sought in: a position and contents that seeking and reading go by.\<close>

definition seekable :: "'w file_calls \<Rightarrow> int \<Rightarrow> ('w \<Rightarrow> string) \<Rightarrow> ('w \<Rightarrow> nat) \<Rightarrow> bool" where
  "seekable sys f contents at \<longleftrightarrow> (\<forall>w p sz.
     sys_lseek sys f 0 SEEK_CUR w = (int (at w), w) \<and>
     (if p < 0 then sys_lseek sys f p SEEK_SET w = (-1, w)
      else fst (sys_lseek sys f p SEEK_SET w) = p \<and> at (snd (sys_lseek sys f p SEEK_SET w)) = nat p \<and>
        contents (snd (sys_lseek sys f p SEEK_SET w)) = contents w) \<and>
     (let data = take sz (drop (at w) (contents w))
      in \<exists>w1. sys_read sys f sz w = (int (length data), data, w1) \<and> at w1 = at w + length data \<and> contents w1 = contents w))"

lemma seekable_read:
  assumes "seekable sys f contents at"
  obtains w1 where "sys_read sys f sz w =
      (int (length (take sz (drop (at w) (contents w)))), take sz (drop (at w) (contents w)), w1)" "contents w1 = contents w"
  using assms unfolding seekable_def Let_def by metis

lemma to_long_small: "0 \<le> i \<Longrightarrow> i < 2 ^ 31 \<Longrightarrow> to_long i = i"
  by (simp add: to_long_def signed_of_int signed_take_bit_int_eq_self)

text \<open>Also: The \<^verbatim>\<open>pread\<close> that Windows gets reads what lies at the position it is given, leaves the position of the handle and the
  contents as they were, and so does what \<^verbatim>\<open>pread\<close> of POSIX promises, as long as both positions fit 31 bits.\<close>

theorem win_pread_correct:
  assumes "seekable sys f contents at" "p < 2 ^ 31" "at w < 2 ^ 31"
  shows "let (r, s, w1) = win_pread sys f sz p w
    in s = take sz (drop p (contents w)) \<and> r = int (length s) \<and> at w1 = at w \<and> contents w1 = contents w"
proof -
  let ?w2 = "snd (sys_lseek sys f (int p) SEEK_SET w)"
  have w2: "at ?w2 = p" "contents ?w2 = contents w" using assms(1) by (auto simp: seekable_def)
  obtain w3 where read: "sys_read sys f sz ?w2 = (int (length (take sz (drop p (contents w)))), take sz (drop p (contents w)), w3)"
      "contents w3 = contents w"
    using seekable_read [OF assms(1), of sz ?w2] unfolding w2 by blast
  let ?w4 = "snd (sys_lseek sys f (int (at w)) SEEK_SET w3)"
  have w4: "at ?w4 = at w" "contents ?w4 = contents w3"
    using assms(1) by (auto simp: seekable_def)
  have "win_pread sys f sz p w = (int (length (take sz (drop p (contents w)))), take sz (drop p (contents w)), ?w4)"
    using assms read to_long_small [of "int p"] to_long_small [of "int (at w)"]
    by (simp add: win_pread_def win_get_position_def win_set_position_def file_read_def Let_def split_beta seekable_def)
  then show ?thesis using read(2) w4 by simp
qed

definition disk_calls :: "(string \<times> nat) file_calls" where
  "disk_calls = \<lparr>
     sys_flags = \<lparr>O_CREAT = 0x40, O_APPEND = 0x400, O_TRUNC = 0x200, O_RDONLY = 0, O_WRONLY = 1, O_RDWR = 2\<rparr>,
     sys_open = (\<lambda>path flags w. (3, w)),
     sys_close = (\<lambda>f w. w),
     sys_read = (\<lambda>f n (s, p). let d = take n (drop p s) in (int (length d), d, (s, p + length d))),
     sys_pread = (\<lambda>f n p (s, q). let d = take n (drop (nat p) s) in (int (length d), d)),
     sys_write = (\<lambda>f d (s, p). (int (length d), (take p s @ d @ drop (p + length d) s, p + length d))),
     sys_lseek = (\<lambda>f p wh (s, q). if wh = SEEK_CUR then (int q + p, (s, nat (int q + p)))
        else if p < 0 then (-1, (s, q)) else (p, (s, nat p))),
     sys_fstat = (\<lambda>f (s, p). Some (length s, 0)),
     sys_stat = (\<lambda>path (s, p). Some (length s, 0))\<rparr>"

lemma disk_seekable: "seekable disk_calls f fst snd"
  by (auto simp: seekable_def disk_calls_def Let_def)

theorem win_pread_correct_witness:
  "fst (snd (win_pread disk_calls 3 4 2 (''configuration'', 9))) = ''nfig'' \<and>
   snd (snd (snd (win_pread disk_calls 3 4 2 (''configuration'', 9)))) = 9"
  using win_pread_correct [OF disk_seekable, of 2 "(''configuration'', 9)" 3 4] by (simp add: split_beta)

text \<open>Also: with a position of 2 gigabytes or more seeking fails, nobody notices, and \<^verbatim>\<open>pread\<close> reads where the handle happens to stand.\<close>

theorem win_pread_large_position:
  assumes "seekable sys f contents at" "2 ^ 31 \<le> p" "p < 2 ^ 32" "at w < 2 ^ 31"
  shows "fst (snd (win_pread sys f sz p w)) = take sz (drop (at w) (contents w))"
proof -
  have "to_long (int p) = int p - 2 ^ 32"
  proof -
    have "(int p + 2 ^ 31) mod 2 ^ 32 = int p + 2 ^ 31 - 2 ^ 32"
      using assms(2,3) by (subst mod_pos_geq) (simp_all add: mod_pos_pos_trivial)
    moreover have "to_long (int p) = (int p + 2 ^ 31) mod 2 ^ 32 - 2 ^ 31"
      unfolding to_long_def signed_of_int by (simp add: signed_take_bit_eq_take_bit_shift take_bit_eq_mod)
    ultimately show ?thesis by simp
  qed
  then have "to_long (int p) < 0" using assms(3) by simp
  moreover obtain w1 where "sys_read sys f sz w =
      (int (length (take sz (drop (at w) (contents w)))), take sz (drop (at w) (contents w)), w1)"
    using seekable_read [OF assms(1)] by blast
  ultimately show ?thesis
    using assms(1) by (simp add: win_pread_def win_get_position_def win_set_position_def file_read_def Let_def split_beta seekable_def)
qed

text \<open>Also: the flags of the platform are exactly those that were asked for: truncation only with the right to write, and the access mode of
  the lowest two bits, none when both are set.\<close>

lemma flag_bit:
  fixes flags :: u32
  shows "flags AND 0x0100 = 0 \<longleftrightarrow> \<not> bit flags 8" "flags AND 0x0200 = 0 \<longleftrightarrow> \<not> bit flags 9" "flags AND 0x0400 = 0 \<longleftrightarrow> \<not> bit flags 10"
  using and_exp_eq_0_iff_not_bit [of flags 8] and_exp_eq_0_iff_not_bit [of flags 9] and_exp_eq_0_iff_not_bit [of flags 10]
  by simp_all

lemma mode_bits:
  fixes flags :: u32
  shows "flags AND 0x0003 = (if bit flags 0 then if bit flags 1 then 3 else 1 else if bit flags 1 then 2 else 0)"
proof (rule bit_word_eqI)
  fix n assume "n < LENGTH(32)"
  have "bit (0x0003 :: u32) n \<longleftrightarrow> n = 0 \<or> n = 1" "bit (2 :: u32) n \<longleftrightarrow> n = 1" "bit (1 :: u32) n \<longleftrightarrow> n = 0"
    by (cases n; cases "n - 1"; simp add: bit_Suc bit_1_iff)+
  then show "bit (flags AND 0x0003) n \<longleftrightarrow>
      bit (if bit flags 0 then if bit flags 1 then 3 else 1 else if bit flags 1 then 2 else 0 :: u32) n"
    by (auto simp: bit_and_iff)
qed

theorem to_platform_flags_bits:
  "bit (to_platform_flags pf flags) i \<longleftrightarrow>
     bit flags 8 \<and> bit (O_CREAT pf) i \<or> bit flags 9 \<and> bit (O_APPEND pf) i \<or>
     bit flags 10 \<and> (bit flags 0 \<or> bit flags 1) \<and> bit (O_TRUNC pf) i \<or>
     \<not> bit flags 0 \<and> \<not> bit flags 1 \<and> bit (O_RDONLY pf) i \<or> bit flags 0 \<and> \<not> bit flags 1 \<and> bit (O_WRONLY pf) i \<or>
     \<not> bit flags 0 \<and> bit flags 1 \<and> bit (O_RDWR pf) i"
  unfolding to_platform_flags_def Let_def mode_bits CREAT_def APPEND_def TRUNC_def flag_bit RDONLY_def WRONLY_def RDWR_def
  by (auto simp: bit_or_iff)

end
