(* ===== verification/HttpMessage.thy ===== *)
theory HttpMessage
  imports StringUtils Errors
begin

text \<open>
  The messages of \<^verbatim>\<open>http/\<close>: protocol versions (\<^verbatim>\<open>util.cpp\<close>), the header list with its iterators, requests,
  responses and their text (\<^verbatim>\<open>headers.cpp\<close>, \<^verbatim>\<open>headers.h\<close>).  An iterator into the header vector is an index.
\<close>

unbundle bit_operations_syntax

section \<open>Versions\<close>

text \<open>The enumeration has no fixed range: a \<^verbatim>\<open>Version\<close> is any 32-bit value, five of them have names.\<close>

type_synonym version = u32

definition HTTP_0_9 :: version where "HTTP_0_9 = 0x0009"
definition HTTP_1_0 :: version where "HTTP_1_0 = 0x0100"
definition HTTP_1_1 :: version where "HTTP_1_1 = 0x0101"
definition HTTP_2_0 :: version where "HTTP_2_0 = 0x0200"
definition HTTP_3_0 :: version where "HTTP_3_0 = 0x0300"

lemmas version_defs = HTTP_0_9_def HTTP_1_0_def HTTP_1_1_def HTTP_2_0_def HTTP_3_0_def

definition version_get_major :: "version \<Rightarrow> u32" where
  "version_get_major v = drop_bit 8 v"

definition version_get_minor :: "version \<Rightarrow> u32" where
  "version_get_minor v = v AND 0xff"

definition make_version :: "u8 \<Rightarrow> u8 \<Rightarrow> version option" where
  "make_version major minor =
     (let v = (push_bit 8 (ucast major) OR ucast minor :: version)
      in if ucast major = version_get_major v \<and> ucast minor = version_get_minor v then Some v else None)"

definition version_str :: "version \<Rightarrow> string" where
  "version_str v = ''HTTP/'' @ dec (unat (version_get_major v)) @ ''.'' @ dec (unat (version_get_minor v))"

section \<open>Headers\<close>

record header =
  h_name :: string
  h_value :: string

definition make_header :: "string \<Rightarrow> string \<Rightarrow> header" where
  "make_header n v = \<lparr>h_name = n, h_value = v\<rparr>"

record headers =
  m_headers :: "header list"
  m_has_body :: bool

definition headers_empty :: headers where
  "headers_empty = \<lparr>m_headers = [], m_has_body = False\<rparr>"

definition headers_get :: "headers \<Rightarrow> string \<Rightarrow> string option" where
  "headers_get hs n =
     (let iter = find_if (\<lambda>h. iequals (h_name h) n) (m_headers hs)
      in if iter \<noteq> length (m_headers hs) then Some (h_value (m_headers hs ! iter)) else None)"

definition headers_gets :: "headers \<Rightarrow> string \<Rightarrow> string" where
  "headers_gets hs n = (case headers_get hs n of None \<Rightarrow> [] | Some v \<Rightarrow> v)"

definition headers_put :: "headers \<Rightarrow> string \<Rightarrow> string \<Rightarrow> headers" where
  "headers_put hs n v = hs\<lparr>m_headers := m_headers hs @ [\<lparr>h_name = n, h_value = v\<rparr>]\<rparr>"

definition headers_contains :: "headers \<Rightarrow> string \<Rightarrow> bool" where
  "headers_contains hs n \<longleftrightarrow> headers_get hs n \<noteq> None"

text \<open>\<^verbatim>\<open>std::remove_if\<close> keeps the other elements in order at the front; the tail is erased.\<close>

definition headers_remove :: "headers \<Rightarrow> string \<Rightarrow> headers \<times> nat" where
  "headers_remove hs n =
     (let kept = filter (\<lambda>h. \<not> h_name h = n) (m_headers hs)
      in (hs\<lparr>m_headers := kept\<rparr>, length (m_headers hs) - length kept))"

definition headers_erase :: "headers \<Rightarrow> nat \<Rightarrow> headers \<times> nat" where
  "headers_erase hs iter =
     (hs\<lparr>m_headers := take iter (m_headers hs) @ drop (iter + 1) (m_headers hs)\<rparr>, iter)"

definition headers_length :: "headers \<Rightarrow> nat" where
  "headers_length hs = length (m_headers hs)"

definition headers_set_has_body :: "headers \<Rightarrow> bool \<Rightarrow> headers" where
  "headers_set_has_body hs flag = hs\<lparr>m_has_body := flag\<rparr>"

abbreviation crlf :: string where "crlf \<equiv> [CHR 0x0D, CHR 0x0A]"

definition header_str :: "header \<Rightarrow> string" where
  "header_str h = h_name h @ '': '' @ h_value h"

definition headers_str :: "headers \<Rightarrow> string" where
  "headers_str hs = join (map header_str (m_headers hs)) crlf @ crlf"

subsection \<open>\<^verbatim>\<open>ValueIterator\<close>\<close>

record value_iterator =
  vi_current :: nat
  vi_end :: nat
  vi_name :: string
  vi_value :: "string option"

text \<open>The \<^verbatim>\<open>do ... while\<close> loop of the increment.\<close>

function vi_seek :: "header list \<Rightarrow> string \<Rightarrow> nat \<Rightarrow> nat" where
  "vi_seek hs n i =
     (let j = i + 1
      in if j < length hs \<and> \<not> iequals (h_name (hs ! j)) n then vi_seek hs n j else j)"
  by pat_completeness auto
termination by (relation "measure (\<lambda>(hs, n, i). length hs - i)") auto

declare vi_seek.simps [simp del]

definition vi_incr :: "header list \<Rightarrow> value_iterator \<Rightarrow> value_iterator" where
  "vi_incr hs it =
     (let j = vi_seek hs (vi_name it) (vi_current it)
      in it\<lparr>vi_current := j, vi_value := (if j \<noteq> vi_end it then Some (h_value (hs ! j)) else None)\<rparr>)"

definition vi_make :: "header list \<Rightarrow> nat \<Rightarrow> nat \<Rightarrow> string \<Rightarrow> value_iterator" where
  "vi_make hs b e n =
     (let it = \<lparr>vi_current = b, vi_end = e, vi_name = n, vi_value = None\<rparr>
      in if b \<noteq> e
         then if iequals (h_name (hs ! b)) n then it\<lparr>vi_value := Some (h_value (hs ! b))\<rparr> else vi_incr hs it
         else it)"

definition vi_equal :: "value_iterator \<Rightarrow> value_iterator \<Rightarrow> bool" where
  "vi_equal a b \<longleftrightarrow> vi_current a = vi_current b"

definition value_range :: "headers \<Rightarrow> string \<Rightarrow> value_iterator \<times> value_iterator" where
  "value_range hs n =
     (let e = length (m_headers hs)
      in (vi_make (m_headers hs) 0 e n, vi_make (m_headers hs) e e n))"

text \<open>\<^verbatim>\<open>erase(ValueIterator)\<close>: the iterator is made again at the place of the erased element.\<close>

definition headers_erase_value :: "headers \<Rightarrow> value_iterator \<Rightarrow> headers \<times> value_iterator" where
  "headers_erase_value hs it =
     (let (hs', pos) = headers_erase hs (vi_current it)
      in (hs', vi_make (m_headers hs') pos (length (m_headers hs')) (vi_name it)))"

section \<open>Requests\<close>

record request =
  rq_version :: version
  rq_method :: string
  rq_path :: string
  rq_scheme :: string
  rq_authority :: string
  rq_headers :: headers

definition make_request :: "version \<Rightarrow> string \<Rightarrow> string \<Rightarrow> request" where
  "make_request v method path =
     \<lparr>rq_version = v, rq_method = method, rq_path = path, rq_scheme = [], rq_authority = [],
      rq_headers = headers_empty\<rparr>"

definition request_set_version :: "request \<Rightarrow> version \<Rightarrow> request" where
  "request_set_version r val = r\<lparr>rq_version := val\<rparr>"

definition request_set_method :: "request \<Rightarrow> string \<Rightarrow> request" where
  "request_set_method r val = r\<lparr>rq_method := val\<rparr>"

definition request_set_path :: "request \<Rightarrow> string \<Rightarrow> request" where
  "request_set_path r val = r\<lparr>rq_path := val\<rparr>"

definition request_set_scheme :: "request \<Rightarrow> string \<Rightarrow> request" where
  "request_set_scheme r val = r\<lparr>rq_scheme := val\<rparr>"

definition request_set_authority :: "request \<Rightarrow> string \<Rightarrow> request" where
  "request_set_authority r val = r\<lparr>rq_authority := val\<rparr>"

definition request_str :: "request \<Rightarrow> string" where
  "request_str r =
     (let method = rq_method r; path = rq_path r; authority = rq_authority r;
          is_connect = (method = ''CONNECT'');
          v = rq_version r
      in (if method = [] then ''OPTIONS'' else method) @ '' '' @
         (if v = HTTP_0_9 \<or> v = HTTP_1_0 \<or> v = HTTP_1_1
          then (if path = [] then ''*'' else path) @ '' '' @ version_str v @ crlf
          else if v = HTTP_2_0 \<or> v = HTTP_3_0
          then (if is_connect
                then (if authority \<noteq> [] then authority else ''<empty :authority>'') @ '' '' @ version_str v @ crlf
                else (if path \<noteq> [] then path else ''<empty :path>'') @ '' '' @ version_str v @ crlf) @
               (if rq_scheme r \<noteq> [] then '':scheme: '' @ rq_scheme r @ crlf else []) @
               (if is_connect
                then (if path \<noteq> [] then '':path: '' @ path @ crlf else [])
                else (if authority \<noteq> [] then '':authority: '' @ authority @ crlf else []))
          else []) @
         headers_str (rq_headers r) @ crlf)"

subsection \<open>\<^verbatim>\<open>Request::Iterator\<close>\<close>

datatype rq_state = RQ_METHOD | RQ_SCHEME | RQ_PATH | RQ_AUTHORITY | RQ_HEADERS | RQ_DONE

record rq_iterator =
  ri_obj :: "request option"
  ri_state :: rq_state
  ri_current :: "header option"
  ri_headers_iter :: "nat option"

definition rq_update_done :: "rq_iterator \<Rightarrow> rq_iterator" where
  "rq_update_done it = it\<lparr>ri_state := RQ_DONE, ri_obj := None, ri_current := None\<rparr>"

definition rq_update_headers :: "request \<Rightarrow> rq_iterator \<Rightarrow> rq_iterator" where
  "rq_update_headers r it =
     (let hs = m_headers (rq_headers r)
      in case ri_headers_iter it of
           Some i \<Rightarrow>
             (let it' = it\<lparr>ri_headers_iter := Some (i + 1)\<rparr>
              in if i + 1 \<noteq> length hs
                 then it'\<lparr>ri_state := RQ_HEADERS,
                          ri_current := Some (make_header (h_name (hs ! (i + 1))) (h_value (hs ! (i + 1))))\<rparr>
                 else rq_update_done it')
         | None \<Rightarrow>
             (if 0 < length hs
              then it\<lparr>ri_state := RQ_HEADERS, ri_headers_iter := Some 0,
                      ri_current := Some (make_header (h_name (hs ! 0)) (h_value (hs ! 0)))\<rparr>
              else rq_update_done it))"

definition rq_update_authority :: "request \<Rightarrow> rq_iterator \<Rightarrow> rq_iterator" where
  "rq_update_authority r it =
     (if rq_authority r \<noteq> []
      then it\<lparr>ri_state := RQ_AUTHORITY, ri_current := Some (make_header '':authority'' (rq_authority r))\<rparr>
      else rq_update_headers r it)"

definition rq_update_path :: "request \<Rightarrow> rq_iterator \<Rightarrow> rq_iterator" where
  "rq_update_path r it =
     (if rq_path r \<noteq> []
      then it\<lparr>ri_state := RQ_PATH, ri_current := Some (make_header '':path'' (rq_path r))\<rparr>
      else rq_update_authority r it)"

definition rq_update_scheme :: "request \<Rightarrow> rq_iterator \<Rightarrow> rq_iterator" where
  "rq_update_scheme r it =
     (if rq_scheme r \<noteq> []
      then it\<lparr>ri_state := RQ_SCHEME, ri_current := Some (make_header '':scheme'' (rq_scheme r))\<rparr>
      else rq_update_path r it)"

definition rq_update_method :: "request \<Rightarrow> rq_iterator \<Rightarrow> rq_iterator" where
  "rq_update_method r it =
     (if rq_method r \<noteq> []
      then it\<lparr>ri_state := RQ_METHOD, ri_current := Some (make_header '':method'' (rq_method r))\<rparr>
      else rq_update_scheme r it)"

definition rq_update_current :: "rq_iterator \<Rightarrow> rq_iterator" where
  "rq_update_current it =
     (case ri_obj it of
        None \<Rightarrow> it\<lparr>ri_state := RQ_DONE, ri_current := None\<rparr>
      | Some r \<Rightarrow>
          (case ri_state it of
             RQ_METHOD \<Rightarrow> rq_update_method r it
           | RQ_SCHEME \<Rightarrow> rq_update_scheme r it
           | RQ_PATH \<Rightarrow> rq_update_path r it
           | RQ_AUTHORITY \<Rightarrow> rq_update_authority r it
           | RQ_HEADERS \<Rightarrow> rq_update_headers r it
           | RQ_DONE \<Rightarrow> rq_update_done it))"

definition rq_iterator_make :: "request option \<Rightarrow> rq_iterator" where
  "rq_iterator_make obj =
     rq_update_current \<lparr>ri_obj = obj, ri_state = (if obj = None then RQ_DONE else RQ_METHOD),
       ri_current = None, ri_headers_iter = None\<rparr>"

fun rq_state_next :: "rq_state \<Rightarrow> rq_state" where
  "rq_state_next RQ_METHOD = RQ_SCHEME"
| "rq_state_next RQ_SCHEME = RQ_PATH"
| "rq_state_next RQ_PATH = RQ_AUTHORITY"
| "rq_state_next RQ_AUTHORITY = RQ_HEADERS"
| "rq_state_next RQ_HEADERS = RQ_DONE"
| "rq_state_next RQ_DONE = RQ_DONE"

text \<open>In the \<^verbatim>\<open>HEADERS\<close> state the object and the inner iterator are set.\<close>

definition rq_incr :: "rq_iterator \<Rightarrow> rq_iterator" where
  "rq_incr it =
     rq_update_current
       (if ri_state it \<noteq> RQ_HEADERS then it\<lparr>ri_state := rq_state_next (ri_state it)\<rparr>
        else if ri_headers_iter it = map_option (\<lambda>r. length (m_headers (rq_headers r))) (ri_obj it)
        then it\<lparr>ri_state := RQ_DONE\<rparr> else it)"

definition rq_iter_equal :: "rq_iterator \<Rightarrow> rq_iterator \<Rightarrow> bool" where
  "rq_iter_equal a b \<longleftrightarrow>
     ri_state a = ri_state b \<and> (ri_state a \<noteq> RQ_HEADERS \<or> ri_headers_iter a = ri_headers_iter b)"

definition request_begin :: "request \<Rightarrow> rq_iterator" where
  "request_begin r = rq_iterator_make (Some r)"

definition request_end :: "request \<Rightarrow> rq_iterator" where
  "request_end r = rq_iterator_make None"

section \<open>Responses\<close>

record response =
  rs_version :: version
  rs_status_code :: int
  rs_status_string :: string
  rs_headers :: headers

definition fmt_int :: "int \<Rightarrow> string" where
  "fmt_int i = (if i < 0 then ''-'' @ dec (nat (- i)) else dec (nat i))"

definition response_set_status_code :: "response \<Rightarrow> int \<Rightarrow> response" where
  "response_set_status_code r code =
     (let r' = r\<lparr>rs_status_code := code\<rparr>
      in if HTTP_1_1 < rs_version r' then r'\<lparr>rs_status_string := fmt_int code\<rparr> else r')"

definition make_response :: "version \<Rightarrow> int \<Rightarrow> response" where
  "make_response v code =
     response_set_status_code
       \<lparr>rs_version = v, rs_status_code = 200, rs_status_string = [], rs_headers = headers_empty\<rparr> code"

definition make_response_version :: "version \<Rightarrow> response" where
  "make_response_version v = \<lparr>rs_version = v, rs_status_code = 200, rs_status_string = [], rs_headers = headers_empty\<rparr>"

definition response_set_version :: "response \<Rightarrow> version \<Rightarrow> response" where
  "response_set_version r val = r\<lparr>rs_version := val\<rparr>"

definition response_set_status_string :: "response \<Rightarrow> string \<Rightarrow> response" where
  "response_set_status_string r val = r\<lparr>rs_status_string := val\<rparr>"

definition response_str :: "response \<Rightarrow> string" where
  "response_str r =
     (let status_message = (if rs_version r < HTTP_2_0 then rs_status_string r else []);
          line = version_str (rs_version r) @ '' '' @ fmt_int (rs_status_code r) @
                 (if status_message = [] then [] else '' '') @ status_message
      in if headers_length (rs_headers r) = 0 then line @ crlf @ crlf
         else line @ crlf @ headers_str (rs_headers r) @ crlf)"

subsection \<open>\<^verbatim>\<open>Response::Iterator\<close>\<close>

datatype rs_state = RS_STATUS | RS_HEADERS | RS_DONE

record rs_iterator =
  si_obj :: "response option"
  si_state :: rs_state
  si_current :: "header option"
  si_headers_iter :: "nat option"

definition rs_update_done :: "rs_iterator \<Rightarrow> rs_iterator" where
  "rs_update_done it = it\<lparr>si_state := RS_DONE, si_obj := None, si_current := None\<rparr>"

definition rs_update_headers :: "response \<Rightarrow> rs_iterator \<Rightarrow> rs_iterator" where
  "rs_update_headers r it =
     (let hs = m_headers (rs_headers r)
      in case si_headers_iter it of
           Some i \<Rightarrow>
             (let it' = it\<lparr>si_headers_iter := Some (i + 1)\<rparr>
              in if i + 1 \<noteq> length hs
                 then it'\<lparr>si_state := RS_HEADERS,
                          si_current := Some (make_header (h_name (hs ! (i + 1))) (h_value (hs ! (i + 1))))\<rparr>
                 else rs_update_done it')
         | None \<Rightarrow>
             (if 0 < length hs
              then it\<lparr>si_state := RS_HEADERS, si_headers_iter := Some 0,
                      si_current := Some (make_header (h_name (hs ! 0)) (h_value (hs ! 0)))\<rparr>
              else rs_update_done it))"

definition rs_update_current :: "rs_iterator \<Rightarrow> rs_iterator" where
  "rs_update_current it =
     (case si_obj it of
        None \<Rightarrow> it\<lparr>si_state := RS_DONE, si_current := None\<rparr>
      | Some r \<Rightarrow>
          (case si_state it of
             RS_STATUS \<Rightarrow> it\<lparr>si_current := Some (make_header '':status'' (rs_status_string r))\<rparr>
           | RS_HEADERS \<Rightarrow> rs_update_headers r it
           | RS_DONE \<Rightarrow> rs_update_done it))"

definition rs_iterator_make :: "response option \<Rightarrow> rs_iterator" where
  "rs_iterator_make obj =
     rs_update_current \<lparr>si_obj = obj, si_state = (if obj = None then RS_DONE else RS_STATUS),
       si_current = None, si_headers_iter = None\<rparr>"

fun rs_state_next :: "rs_state \<Rightarrow> rs_state" where
  "rs_state_next RS_STATUS = RS_HEADERS"
| "rs_state_next RS_HEADERS = RS_DONE"
| "rs_state_next RS_DONE = RS_DONE"

definition rs_incr :: "rs_iterator \<Rightarrow> rs_iterator" where
  "rs_incr it =
     rs_update_current
       (if si_state it \<noteq> RS_HEADERS then it\<lparr>si_state := rs_state_next (si_state it)\<rparr>
        else if si_headers_iter it = map_option (\<lambda>r. length (m_headers (rs_headers r))) (si_obj it)
        then it\<lparr>si_state := RS_DONE\<rparr> else it)"

definition rs_iter_equal :: "rs_iterator \<Rightarrow> rs_iterator \<Rightarrow> bool" where
  "rs_iter_equal a b \<longleftrightarrow>
     si_state a = si_state b \<and> (si_state a \<noteq> RS_HEADERS \<or> si_headers_iter a = si_headers_iter b)"

definition response_begin :: "response \<Rightarrow> rs_iterator" where
  "response_begin r = rs_iterator_make (Some r)"

definition response_end :: "response \<Rightarrow> rs_iterator" where
  "response_end r = rs_iterator_make None"

section \<open>Iteration\<close>

text \<open>
  A range-based loop over an iterator: read the element, advance, until the end is reached.  Reading
  an absent element or running out of fuel gives \<^const>\<open>None\<close>.
\<close>

fun iterate :: "('i \<Rightarrow> 'i) \<Rightarrow> ('i \<Rightarrow> bool) \<Rightarrow> ('i \<Rightarrow> 'a option) \<Rightarrow> nat \<Rightarrow> 'i \<Rightarrow> 'a list option" where
  "iterate incr at_end cur 0 it = None"
| "iterate incr at_end cur (Suc n) it =
     (if at_end it then Some []
      else case cur it of
             None \<Rightarrow> None
           | Some x \<Rightarrow> map_option (\<lambda>xs. x # xs) (iterate incr at_end cur n (incr it)))"

text \<open>
  The contract of a forward iterator: what it still has to yield is a list, its end is the empty list,
  its element the first and its increment the tail.
\<close>

locale forward_iterator =
  fixes incr :: "'i \<Rightarrow> 'i" and at_end :: "'i \<Rightarrow> bool" and cur :: "'i \<Rightarrow> 'a option"
    and rest :: "'i \<Rightarrow> 'a list" and valid :: "'i \<Rightarrow> bool"
  assumes at_end_iff: "valid it \<Longrightarrow> at_end it \<longleftrightarrow> rest it = []"
    and cur_hd: "valid it \<Longrightarrow> rest it = x # xs \<Longrightarrow> cur it = Some x"
    and incr_tl: "valid it \<Longrightarrow> rest it = x # xs \<Longrightarrow> valid (incr it) \<and> rest (incr it) = xs"
begin

lemma iterate_rest: "valid it \<Longrightarrow> length (rest it) < n \<Longrightarrow> iterate incr at_end cur n it = Some (rest it)"
proof (induction n arbitrary: it)
  case (Suc n)
  show ?case
  proof (cases "rest it")
    case (Cons x xs)
    with Suc show ?thesis using at_end_iff cur_hd incr_tl by simp
  qed (use Suc at_end_iff in simp)
qed simp

end

subsection \<open>The values of a header\<close>

definition named_values :: "header list \<Rightarrow> string \<Rightarrow> string list" where
  "named_values hs n = map h_value (filter (\<lambda>h. iequals (h_name h) n) hs)"

lemma vi_seek_bounds: "i < length hs \<Longrightarrow> i < vi_seek hs n i \<and> vi_seek hs n i \<le> length hs"
proof (induction hs n i rule: vi_seek.induct)
  case (1 hs n i)
  then show ?case by (subst (1 2) vi_seek.simps) (force simp: Let_def)
qed

lemma named_values_nil [simp]: "named_values [] n = []"
  by (simp add: named_values_def)

lemma named_values_drop:
  "i < length hs \<Longrightarrow> named_values (drop i hs) n =
     (if iequals (h_name (hs ! i)) n then h_value (hs ! i) # named_values (drop (Suc i) hs) n
      else named_values (drop (Suc i) hs) n)"
  by (simp add: named_values_def Cons_nth_drop_Suc [symmetric])

lemma vi_seek_values:
  "named_values (drop (vi_seek hs n i) hs) n = named_values (drop (Suc i) hs) n \<and>
   (vi_seek hs n i < length hs \<longrightarrow> iequals (h_name (hs ! vi_seek hs n i)) n)"
proof (induction hs n i rule: vi_seek.induct)
  case (1 hs n i)
  show ?case
    by (subst (1 2 3) vi_seek.simps) (use 1 named_values_drop [of "Suc i" hs n] in \<open>auto simp: Let_def\<close>)
qed

definition vi_valid :: "header list \<Rightarrow> value_iterator \<Rightarrow> bool" where
  "vi_valid hs it \<longleftrightarrow> vi_end it = length hs \<and>
     (if vi_current it = length hs then vi_value it = None
      else vi_current it < length hs \<and> iequals (h_name (hs ! vi_current it)) (vi_name it) \<and>
           vi_value it = Some (h_value (hs ! vi_current it)))"

lemma vi_incr_valid:
  assumes "vi_end it = length hs" "vi_current it < length hs"
  shows "vi_valid hs (vi_incr hs it)"
    and "named_values (drop (vi_current (vi_incr hs it)) hs) (vi_name it) =
         named_values (drop (Suc (vi_current it)) hs) (vi_name it)"
    and "vi_name (vi_incr hs it) = vi_name it"
  using vi_seek_bounds [OF assms(2), of "vi_name it"] vi_seek_values [of hs "vi_name it" "vi_current it"] assms
  by (auto simp: vi_incr_def vi_valid_def Let_def)

interpretation hv: forward_iterator "vi_incr hs" "\<lambda>it. vi_equal it (vi_make hs (length hs) (length hs) n)"
  vi_value "\<lambda>it. named_values (drop (vi_current it) hs) n" "\<lambda>it. vi_valid hs it \<and> vi_name it = n" for hs n
proof (unfold_locales, goal_cases)
  case (1 it)
  then show ?case using named_values_drop [of "vi_current it" hs n]
    by (auto simp: vi_valid_def vi_equal_def vi_make_def Let_def split: if_splits)
next
  case (2 it x xs)
  then show ?case using named_values_drop [of "vi_current it" hs n]
    by (auto simp: vi_valid_def split: if_splits)
next
  case (3 it x xs)
  then have "vi_current it < length hs" "vi_end it = length hs" "iequals (h_name (hs ! vi_current it)) n"
    by (auto simp: vi_valid_def split: if_splits)
  with 3 show ?case using vi_incr_valid [of it hs] named_values_drop [of "vi_current it" hs n] by simp
qed

lemma vi_make_valid:
  "vi_valid hs (vi_make hs 0 (length hs) n) \<and> vi_name (vi_make hs 0 (length hs) n) = n \<and>
   named_values (drop (vi_current (vi_make hs 0 (length hs) n)) hs) n = named_values hs n"
proof (cases "hs = []")
  case True
  then show ?thesis by (simp add: vi_make_def vi_valid_def Let_def)
next
  case False
  let ?it = "\<lparr>vi_current = 0, vi_end = length hs, vi_name = n, vi_value = None\<rparr>"
  show ?thesis using False vi_incr_valid [of ?it hs] named_values_drop [of 0 hs n]
    by (auto simp: vi_make_def vi_valid_def Let_def)
qed

subsection \<open>The fields of a request and of a response\<close>

abbreviation pseudo :: "string \<Rightarrow> string \<Rightarrow> header list" where
  "pseudo n v \<equiv> (if v \<noteq> [] then [make_header n v] else [])"

lemma make_header_eta [simp]: "make_header (h_name h) (h_value h) = h"
  by (simp add: make_header_def)

text \<open>What the iterator yields from a state on.\<close>

fun rq_rank :: "rq_state \<Rightarrow> nat" where
  "rq_rank RQ_METHOD = 5" | "rq_rank RQ_SCHEME = 4" | "rq_rank RQ_PATH = 3"
| "rq_rank RQ_AUTHORITY = 2" | "rq_rank RQ_HEADERS = 1" | "rq_rank RQ_DONE = 0"

function rq_fields :: "request \<Rightarrow> rq_state \<Rightarrow> header list" where
  "rq_fields r RQ_METHOD = pseudo '':method'' (rq_method r) @ rq_fields r RQ_SCHEME"
| "rq_fields r RQ_SCHEME = pseudo '':scheme'' (rq_scheme r) @ rq_fields r RQ_PATH"
| "rq_fields r RQ_PATH = pseudo '':path'' (rq_path r) @ rq_fields r RQ_AUTHORITY"
| "rq_fields r RQ_AUTHORITY = pseudo '':authority'' (rq_authority r) @ rq_fields r RQ_HEADERS"
| "rq_fields r RQ_HEADERS = m_headers (rq_headers r)"
| "rq_fields r RQ_DONE = []"
  by pat_completeness auto
termination by (relation "measure (\<lambda>(r, s). rq_rank s)") auto

definition rq_rest :: "rq_iterator \<Rightarrow> header list" where
  "rq_rest it =
     (case ri_obj it of
        None \<Rightarrow> []
      | Some r \<Rightarrow> (case ri_headers_iter it of
                    None \<Rightarrow> rq_fields r (ri_state it)
                  | Some i \<Rightarrow> drop i (rq_fields r (ri_state it))))"

definition rq_valid :: "rq_iterator \<Rightarrow> bool" where
  "rq_valid it \<longleftrightarrow>
     (case ri_obj it of
        None \<Rightarrow> ri_state it = RQ_DONE
      | Some r \<Rightarrow> ri_state it \<noteq> RQ_DONE \<and> rq_rest it \<noteq> [] \<and> ri_current it = Some (hd (rq_rest it)) \<and>
          (if ri_state it = RQ_HEADERS
           then ri_headers_iter it \<noteq> None
           else ri_headers_iter it = None \<and>
             tl (rq_fields r (ri_state it)) = rq_fields r (rq_state_next (ri_state it))))"

lemmas rq_update_defs = rq_update_method_def rq_update_scheme_def rq_update_path_def
  rq_update_authority_def rq_update_headers_def rq_update_done_def

lemma rq_update_headers_start:
  assumes "ri_headers_iter it = None" "ri_obj it = Some r"
  shows "rq_valid (rq_update_headers r it) \<and> rq_rest (rq_update_headers r it) = rq_fields r RQ_HEADERS"
  using assms by (auto simp: rq_update_headers_def rq_update_done_def rq_valid_def rq_rest_def Let_def hd_conv_nth)

lemma rq_update_headers_next:
  assumes "ri_headers_iter it = Some i" "ri_obj it = Some r" "i < length (m_headers (rq_headers r))"
  shows "rq_valid (rq_update_headers r it) \<and>
    rq_rest (rq_update_headers r it) = drop (Suc i) (m_headers (rq_headers r))"
  using assms by (auto simp: rq_update_headers_def rq_update_done_def rq_valid_def rq_rest_def Let_def hd_drop_conv_nth)

lemma rq_update_authority_start:
  assumes "ri_headers_iter it = None" "ri_obj it = Some r"
  shows "rq_valid (rq_update_authority r it) \<and> rq_rest (rq_update_authority r it) = rq_fields r RQ_AUTHORITY"
  using assms rq_update_headers_start [OF assms] by (auto simp: rq_update_authority_def rq_valid_def rq_rest_def)

lemma rq_update_path_start:
  assumes "ri_headers_iter it = None" "ri_obj it = Some r"
  shows "rq_valid (rq_update_path r it) \<and> rq_rest (rq_update_path r it) = rq_fields r RQ_PATH"
  using assms rq_update_authority_start [OF assms] by (auto simp: rq_update_path_def rq_valid_def rq_rest_def)

lemma rq_update_scheme_start:
  assumes "ri_headers_iter it = None" "ri_obj it = Some r"
  shows "rq_valid (rq_update_scheme r it) \<and> rq_rest (rq_update_scheme r it) = rq_fields r RQ_SCHEME"
  using assms rq_update_path_start [OF assms] by (auto simp: rq_update_scheme_def rq_valid_def rq_rest_def)

lemma rq_update_method_start:
  assumes "ri_headers_iter it = None" "ri_obj it = Some r"
  shows "rq_valid (rq_update_method r it) \<and> rq_rest (rq_update_method r it) = rq_fields r RQ_METHOD"
  using assms rq_update_scheme_start [OF assms] by (auto simp: rq_update_method_def rq_valid_def rq_rest_def)

lemma rq_update_current_start:
  assumes "ri_headers_iter it = None" "ri_obj it = Some r" "ri_state it \<noteq> RQ_DONE"
  shows "rq_valid (rq_update_current it) \<and> rq_rest (rq_update_current it) = rq_fields r (ri_state it)"
  using assms(3) rq_update_method_start [OF assms(1,2)] rq_update_scheme_start [OF assms(1,2)]
    rq_update_path_start [OF assms(1,2)] rq_update_authority_start [OF assms(1,2)]
    rq_update_headers_start [OF assms(1,2)]
  by (cases "ri_state it") (simp_all only: rq_update_current_def assms(2) option.case rq_state.case simp_thms)

lemma rq_incr_valid:
  assumes v: "rq_valid it" and r: "rq_rest it = x # xs"
  shows "rq_valid (rq_incr it) \<and> rq_rest (rq_incr it) = xs"
proof -
  obtain q where q: "ri_obj it = Some q" using r by (cases "ri_obj it") (auto simp: rq_rest_def)
  show ?thesis
  proof (cases "ri_state it = RQ_HEADERS")
    case True
    then obtain i where i: "ri_headers_iter it = Some i" using v q by (auto simp: rq_valid_def)
    then have d: "drop i (m_headers (rq_headers q)) = x # xs" using r q True by (simp add: rq_rest_def)
    then have "i < length (m_headers (rq_headers q))" "drop (Suc i) (m_headers (rq_headers q)) = xs"
      by (auto simp: drop_Suc tl_drop [symmetric] not_le [symmetric])
    then show ?thesis using rq_update_headers_next [OF i q] True i q
      by (simp add: rq_incr_def rq_update_current_def)
  next
    case False
    have n: "ri_headers_iter it = None" using v q False by (simp add: rq_valid_def)
    moreover have "rq_fields q (rq_state_next (ri_state it)) = xs"
      using v r q n False by (simp add: rq_valid_def rq_rest_def)
    moreover have "rq_state_next (ri_state it) \<noteq> RQ_DONE"
      using v q False by (cases "ri_state it") (simp_all add: rq_valid_def)
    ultimately show ?thesis
      using rq_update_current_start [of "it\<lparr>ri_state := rq_state_next (ri_state it)\<rparr>" q] False q
      by (simp add: rq_incr_def)
  qed
qed

lemma request_end_state: "rq_iter_equal it (request_end r) \<longleftrightarrow> ri_state it = RQ_DONE"
  by (auto simp: rq_iter_equal_def request_end_def rq_iterator_make_def rq_update_current_def)

interpretation rqi: forward_iterator rq_incr "\<lambda>it. rq_iter_equal it (request_end r)" ri_current rq_rest rq_valid for r
proof (unfold_locales, goal_cases)
  case (1 it)
  then show ?case by (cases "ri_obj it") (auto simp: request_end_state rq_valid_def rq_rest_def)
next
  case (2 it x xs)
  then show ?case by (cases "ri_obj it") (auto simp: rq_valid_def rq_rest_def)
next
  case (3 it x xs)
  then show ?case by (rule rq_incr_valid)
qed

text \<open>The same for responses.\<close>

definition rs_rest :: "rs_iterator \<Rightarrow> header list" where
  "rs_rest it =
     (case si_obj it of
        None \<Rightarrow> []
      | Some r \<Rightarrow>
          (case si_state it of
             RS_STATUS \<Rightarrow> make_header '':status'' (rs_status_string r) # m_headers (rs_headers r)
           | RS_HEADERS \<Rightarrow> drop (the (si_headers_iter it)) (m_headers (rs_headers r))
           | RS_DONE \<Rightarrow> []))"

definition rs_valid :: "rs_iterator \<Rightarrow> bool" where
  "rs_valid it \<longleftrightarrow>
     (case si_obj it of
        None \<Rightarrow> si_state it = RS_DONE
      | Some r \<Rightarrow> si_state it \<noteq> RS_DONE \<and> rs_rest it \<noteq> [] \<and> si_current it = Some (hd (rs_rest it)) \<and>
          (si_headers_iter it = None) = (si_state it = RS_STATUS))"

lemma rs_update_headers_next:
  assumes "si_obj it = Some r"
    and "i = (case si_headers_iter it of None \<Rightarrow> 0 | Some j \<Rightarrow> Suc j)"
    and "i \<le> length (m_headers (rs_headers r))"
  shows "rs_valid (rs_update_headers r it) \<and>
    rs_rest (rs_update_headers r it) = drop i (m_headers (rs_headers r))"
  using assms
  by (cases "si_headers_iter it")
    (auto simp: rs_update_headers_def rs_update_done_def rs_valid_def rs_rest_def Let_def hd_conv_nth hd_drop_conv_nth)

lemma rs_incr_valid:
  assumes v: "rs_valid it" and r: "rs_rest it = x # xs"
  shows "rs_valid (rs_incr it) \<and> rs_rest (rs_incr it) = xs"
proof -
  obtain q where q: "si_obj it = Some q" using r by (cases "si_obj it") (auto simp: rs_rest_def)
  show ?thesis
  proof (cases "si_state it")
    case RS_STATUS
    then have "si_headers_iter it = None" "xs = m_headers (rs_headers q)"
      using v r q by (auto simp: rs_valid_def rs_rest_def)
    then show ?thesis using rs_update_headers_next [of "it\<lparr>si_state := RS_HEADERS\<rparr>" q 0] RS_STATUS q
      by (simp add: rs_incr_def rs_update_current_def)
  next
    case RS_HEADERS
    then obtain i where i: "si_headers_iter it = Some i" using v q by (auto simp: rs_valid_def)
    then have "drop i (m_headers (rs_headers q)) = x # xs" using r q RS_HEADERS by (simp add: rs_rest_def)
    then have "i < length (m_headers (rs_headers q))" "drop (Suc i) (m_headers (rs_headers q)) = xs"
      by (auto simp: drop_Suc tl_drop [symmetric] not_le [symmetric])
    then show ?thesis using rs_update_headers_next [of it q "Suc i"] RS_HEADERS i q
      by (simp add: rs_incr_def rs_update_current_def)
  next
    case RS_DONE
    then show ?thesis using v q by (simp add: rs_valid_def)
  qed
qed

lemma response_end_state: "rs_iter_equal it (response_end r) \<longleftrightarrow> si_state it = RS_DONE"
  by (auto simp: rs_iter_equal_def response_end_def rs_iterator_make_def rs_update_current_def)

interpretation rsi: forward_iterator rs_incr "\<lambda>it. rs_iter_equal it (response_end r)" si_current rs_rest rs_valid for r
proof (unfold_locales, goal_cases)
  case (1 it)
  then show ?case by (cases "si_obj it") (auto simp: response_end_state rs_valid_def rs_rest_def)
next
  case (2 it x xs)
  then show ?case by (cases "si_obj it") (auto simp: rs_valid_def rs_rest_def)
next
  case (3 it x xs)
  then show ?case by (rule rs_incr_valid)
qed

section \<open>Properties\<close>

lemma named_values_first:
  "headers_get hs n = (case named_values (m_headers hs) n of [] \<Rightarrow> None | v # vs \<Rightarrow> Some v)"
proof -
  have "(let iter = find_if (\<lambda>h. iequals (h_name h) n) xs
         in if iter \<noteq> length xs then Some (h_value (xs ! iter)) else None) =
        (case named_values xs n of [] \<Rightarrow> None | v # vs \<Rightarrow> Some v)" for xs
    by (induction xs) (auto simp: named_values_def Let_def)
  then show ?thesis by (simp add: headers_get_def)
qed

lemma named_values_length: "length (named_values hs n) \<le> length hs"
  by (simp add: named_values_def)

text \<open>Also: looking a header up ignores the case of its name: the value range yields the values of all the
  fields with that name, in order, \<^verbatim>\<open>get\<close> returns the first of them, \<^verbatim>\<open>put\<close> adds one at the end,
  and \<^verbatim>\<open>remove\<close> leaves exactly the fields whose names differ from its argument, so a field spelt in
  another case is still found afterwards.\<close>

theorem header_lookup_correct:
  "iterate (vi_incr (m_headers hs)) (\<lambda>it. vi_equal it (snd (value_range hs n))) vi_value
     (Suc (headers_length hs)) (fst (value_range hs n)) = Some (named_values (m_headers hs) n) \<and>
   headers_get hs n = (case named_values (m_headers hs) n of [] \<Rightarrow> None | v # vs \<Rightarrow> Some v) \<and>
   named_values (m_headers (headers_put hs k v)) n =
     named_values (m_headers hs) n @ (if iequals k n then [v] else []) \<and>
   named_values (m_headers (fst (headers_remove hs k))) n =
     map h_value (filter (\<lambda>h. iequals (h_name h) n \<and> h_name h \<noteq> k) (m_headers hs)) \<and>
   snd (headers_remove hs k) + headers_length (fst (headers_remove hs k)) = headers_length hs"
proof (intro conjI)
  show "iterate (vi_incr (m_headers hs)) (\<lambda>it. vi_equal it (snd (value_range hs n))) vi_value
     (Suc (headers_length hs)) (fst (value_range hs n)) = Some (named_values (m_headers hs) n)"
    using hv.iterate_rest [of "m_headers hs" "vi_make (m_headers hs) 0 (length (m_headers hs)) n" n
        "Suc (headers_length hs)"] vi_make_valid [of "m_headers hs" n] named_values_length [of "m_headers hs" n]
    by (simp add: value_range_def Let_def headers_length_def)
  show "named_values (m_headers (fst (headers_remove hs k))) n =
     map h_value (filter (\<lambda>h. iequals (h_name h) n \<and> h_name h \<noteq> k) (m_headers hs))"
    by (auto simp: headers_remove_def named_values_def Let_def intro: arg_cong [where f = "map h_value"] filter_cong)
qed (auto simp: named_values_first headers_put_def headers_remove_def headers_length_def named_values_def Let_def)

lemma request_iteration:
  "iterate rq_incr (\<lambda>it. rq_iter_equal it (request_end r)) ri_current
     (6 + headers_length (rq_headers r)) (request_begin r) =
   Some (pseudo '':method'' (rq_method r) @ pseudo '':scheme'' (rq_scheme r) @ pseudo '':path'' (rq_path r) @
         pseudo '':authority'' (rq_authority r) @ m_headers (rq_headers r))"
proof -
  let ?it = "\<lparr>ri_obj = Some r, ri_state = RQ_METHOD, ri_current = None, ri_headers_iter = None\<rparr>"
  have "rq_valid (request_begin r) \<and> rq_rest (request_begin r) = rq_fields r RQ_METHOD"
    using rq_update_current_start [of ?it r] by (simp add: request_begin_def rq_iterator_make_def)
  then show ?thesis
    using rqi.iterate_rest [of "request_begin r" "6 + headers_length (rq_headers r)" r]
    by (simp add: headers_length_def)
qed

lemma response_iteration:
  "iterate rs_incr (\<lambda>it. rs_iter_equal it (response_end s)) si_current
     (6 + headers_length (rs_headers s)) (response_begin s) =
   Some (make_header '':status'' (rs_status_string s) # m_headers (rs_headers s))"
proof -
  have "rs_valid (response_begin s)" "rs_rest (response_begin s) =
      make_header '':status'' (rs_status_string s) # m_headers (rs_headers s)"
    by (simp_all add: response_begin_def rs_iterator_make_def rs_update_current_def rs_valid_def rs_rest_def)
  then show ?thesis
    using rsi.iterate_rest [of "response_begin s" "6 + headers_length (rs_headers s)" s]
    by (simp add: headers_length_def)
qed

text \<open>C40: iterating over a request yields its non-empty pseudo-headers (method, scheme, path,
  authority) and then its headers in order, and ends; iterating over a response yields its status and then
  its headers.  Six steps more than there are headers are enough.\<close>

theorem message_iteration_correct:
  "iterate rq_incr (\<lambda>it. rq_iter_equal it (request_end r)) ri_current
     (6 + headers_length (rq_headers r)) (request_begin r) =
   Some (pseudo '':method'' (rq_method r) @ pseudo '':scheme'' (rq_scheme r) @ pseudo '':path'' (rq_path r) @
         pseudo '':authority'' (rq_authority r) @ m_headers (rq_headers r)) \<and>
   iterate rs_incr (\<lambda>it. rs_iter_equal it (response_end s)) si_current
     (6 + headers_length (rs_headers s)) (response_begin s) =
   Some (make_header '':status'' (rs_status_string s) # m_headers (rs_headers s))"
  by (rule conjI [OF request_iteration response_iteration])

section \<open>Reading the text back\<close>

text \<open>A reference reader of message heads: a line ends at the first carriage return and line feed, a head
  at the first empty line, a field name at the colon.\<close>

fun cut_line :: "string \<Rightarrow> (string \<times> string) option" where
  "cut_line (c # d # s) =
     (if c = CHR 0x0D \<and> d = CHR 0x0A then Some ([], s)
      else map_option (\<lambda>(l, r). (c # l, r)) (cut_line (d # s)))"
| "cut_line s = None"

lemma cut_line_shorter: "cut_line s = Some (l, r) \<Longrightarrow> length r < length s"
  by (induction s arbitrary: l rule: cut_line.induct) (fastforce split: if_splits)+

definition read_field :: "string \<Rightarrow> header" where
  "read_field l = make_header (takeWhile (\<lambda>c. c \<noteq> CHR '':'') l) (drop 2 (dropWhile (\<lambda>c. c \<noteq> CHR '':'') l))"

function read_fields :: "string \<Rightarrow> (header list \<times> string) option" where
  "read_fields s =
     (case cut_line s of
        None \<Rightarrow> None
      | Some (l, r) \<Rightarrow>
          (if l = [] then Some ([], r)
           else map_option (\<lambda>(hs, t). (read_field l # hs, t)) (read_fields r)))"
  by pat_completeness auto
termination by (relation "measure length") (auto dest: cut_line_shorter)

declare read_fields.simps [simp del]

definition no_break :: "string \<Rightarrow> bool" where
  "no_break s \<longleftrightarrow> CHR 0x0D \<notin> set s"

definition field_ok :: "header \<Rightarrow> bool" where
  "field_ok h \<longleftrightarrow> no_break (h_name h) \<and> no_break (h_value h) \<and> CHR '':'' \<notin> set (h_name h)"

lemma cut_line_append: "no_break l \<Longrightarrow> cut_line (l @ crlf @ r) = Some (l, r)"
proof (induction l)
  case (Cons c l)
  then show ?case by (cases l) (auto simp: no_break_def)
qed simp

lemma no_break_append [simp]: "no_break (a @ b) \<longleftrightarrow> no_break a \<and> no_break b"
  by (auto simp: no_break_def)

lemma read_field_str: "CHR '':'' \<notin> set (h_name h) \<Longrightarrow> read_field (header_str h) = h"
proof -
  assume a: "CHR '':'' \<notin> set (h_name h)"
  have "takeWhile (\<lambda>c. c \<noteq> CHR '':'') (n @ CHR '':'' # t) = n \<and>
        dropWhile (\<lambda>c. c \<noteq> CHR '':'') (n @ CHR '':'' # t) = CHR '':'' # t"
    if "CHR '':'' \<notin> set n" for n t using that by (induction n) auto
  from this [OF a] show ?thesis by (simp add: read_field_def header_str_def)
qed

lemma header_str_ok: "field_ok h \<Longrightarrow> no_break (header_str h) \<and> header_str h \<noteq> [] \<and> read_field (header_str h) = h"
  using read_field_str [of h] by (auto simp: field_ok_def header_str_def no_break_def)

lemma read_fields_end: "read_fields (crlf @ r) = Some ([], r)"
  by (subst read_fields.simps) simp

lemma read_fields_line:
  "field_ok h \<Longrightarrow> read_fields (header_str h @ crlf @ r) = map_option (\<lambda>(hs, t). (h # hs, t)) (read_fields r)"
  by (subst read_fields.simps) (use header_str_ok [of h] in \<open>simp add: cut_line_append [simplified]\<close>)

lemma headers_str_Cons:
  "m_headers hs = h # ts \<Longrightarrow> headers_str hs = concat (map (\<lambda>h. header_str h @ crlf) (h # ts))"
proof -
  have "join_rest (map header_str xs) crlf @ crlf = crlf @ concat (map (\<lambda>h. header_str h @ crlf) xs)" for xs
    by (induction xs) auto
  then show "m_headers hs = h # ts \<Longrightarrow> headers_str hs = concat (map (\<lambda>h. header_str h @ crlf) (h # ts))"
    by (simp add: headers_str_def join_def)
qed

lemma read_fields_block:
  "list_all field_ok hs \<Longrightarrow>
   read_fields (concat (map (\<lambda>h. header_str h @ crlf) hs) @ crlf @ r) = Some (hs, r)"
proof (induction hs)
  case (Cons h hs)
  then show ?case using read_fields_line [of h "concat (map (\<lambda>h. header_str h @ crlf) hs) @ crlf @ r"] by simp
qed (use read_fields_end in simp)

lemma read_fields_headers_str:
  assumes "list_all field_ok (m_headers hs)"
  shows "read_fields (headers_str hs @ crlf @ r) = Some (m_headers hs, if m_headers hs = [] then crlf @ r else r)"
proof (cases "m_headers hs")
  case Nil
  then show ?thesis using read_fields_end [of "crlf @ r"] by (simp add: headers_str_def join_def)
next
  case (Cons h ts)
  then show ?thesis using headers_str_Cons [OF Cons] read_fields_block [of "h # ts" r] assms by simp
qed

lemma request_str_reads:
  assumes "no_break (rq_method r)" "no_break (rq_path r)" "list_all field_ok (m_headers (rq_headers r))"
    and "rq_version r = HTTP_1_0 \<or> rq_version r = HTTP_1_1"
  shows "\<exists>t. cut_line (request_str r @ after) =
      Some ((if rq_method r = [] then ''OPTIONS'' else rq_method r) @ '' '' @
            (if rq_path r = [] then ''*'' else rq_path r) @ '' '' @ version_str (rq_version r), t) \<and>
    read_fields t = Some (m_headers (rq_headers r), if m_headers (rq_headers r) = [] then crlf @ after else after)"
proof -
  let ?l = "(if rq_method r = [] then ''OPTIONS'' else rq_method r) @ '' '' @
            (if rq_path r = [] then ''*'' else rq_path r) @ '' '' @ version_str (rq_version r)"
  have "version_str HTTP_1_0 = ''HTTP/1.0''" "version_str HTTP_1_1 = ''HTTP/1.1''"
    by code_simp+
  then have "no_break ?l" using assms by (auto simp: no_break_def)
  moreover have "request_str r @ after = ?l @ crlf @ headers_str (rq_headers r) @ crlf @ after"
    using assms(4) by (auto simp: request_str_def Let_def)
  ultimately show ?thesis
    using cut_line_append [of ?l "headers_str (rq_headers r) @ crlf @ after"] read_fields_headers_str [OF assms(3), of after]
    by (intro exI [of _ "headers_str (rq_headers r) @ crlf @ after"]) simp
qed

text \<open>C31: The text of an HTTP/1.0 or HTTP/1.1 request with at least one header, whose method, path and headers contain no carriage return,
  and whose header names contain no colon, is read back as its request line (with \<^verbatim>\<open>OPTIONS\<close> for an empty method and \<^verbatim>\<open>*\<close> for an empty
  path) and its headers in order, and what follows is what was sent next.\<close>

theorem request_str_parse:
  assumes "no_break (rq_method r)" "no_break (rq_path r)" "list_all field_ok (m_headers (rq_headers r))"
    and "rq_version r = HTTP_1_0 \<or> rq_version r = HTTP_1_1" "m_headers (rq_headers r) \<noteq> []"
  shows "\<exists>t. cut_line (request_str r @ after) =
      Some ((if rq_method r = [] then ''OPTIONS'' else rq_method r) @ '' '' @
            (if rq_path r = [] then ''*'' else rq_path r) @ '' '' @ version_str (rq_version r), t) \<and>
    read_fields t = Some (m_headers (rq_headers r), after)"
  using request_str_reads [OF assms(1-4), of after] assms(5) by simp

theorem request_str_parse_witness:
  "\<exists>t. cut_line (request_str ((make_request HTTP_1_1 ''POST'' ''/a'')\<lparr>rq_headers := headers_put (headers_put headers_empty ''Host'' ''h:80'') ''X'' []\<rparr>)
       @ ''next'') = Some (''POST /a HTTP/1.1'', t) \<and>
     read_fields t = Some ([make_header ''Host'' ''h:80'', make_header ''X'' []], ''next'')"
proof -
  let ?r = "(make_request HTTP_1_1 ''POST'' ''/a'')\<lparr>rq_headers := headers_put (headers_put headers_empty ''Host'' ''h:80'') ''X'' []\<rparr>"
  have "version_str HTTP_1_1 = ''HTTP/1.1''" by code_simp
  then show ?thesis
    using request_str_parse [of ?r "''next''"]
    by (simp add: make_request_def headers_put_def headers_empty_def no_break_def field_ok_def make_header_def)
qed

text \<open>Also: a request without headers has one line break too many at its end.\<close>

theorem request_str_no_headers:
  "request_str (make_request HTTP_1_1 ''GET'' ''/'') = ''GET / HTTP/1.1'' @ crlf @ crlf @ crlf"
  by code_simp

lemma no_break_dec: "no_break (dec n)"
  using fmt_uint_digits [of 10 False n]
  by (auto simp: no_break_def dec_def is_base_digit_def digit_val_def Let_def)

text \<open>Also: the text of a response with a non-negative status code is read back as its status line and its
  headers, with or without headers.\<close>

theorem response_str_parse:
  assumes "no_break (rs_status_string r)" "list_all field_ok (m_headers (rs_headers r))"
    and "rs_version r = HTTP_1_0 \<or> rs_version r = HTTP_1_1" and "0 \<le> rs_status_code r"
  shows "\<exists>t. cut_line (response_str r @ after) =
      Some (version_str (rs_version r) @ '' '' @ dec (nat (rs_status_code r)) @
            (if rs_status_string r = [] then [] else '' '' @ rs_status_string r), t) \<and>
    read_fields t = Some (m_headers (rs_headers r), after)"
proof -
  let ?l = "version_str (rs_version r) @ '' '' @ dec (nat (rs_status_code r)) @
            (if rs_status_string r = [] then [] else '' '' @ rs_status_string r)"
  let ?t = "(if m_headers (rs_headers r) = [] then [] else headers_str (rs_headers r)) @ crlf @ after"
  have "version_str HTTP_1_0 = ''HTTP/1.0''" "version_str HTTP_1_1 = ''HTTP/1.1''"
    by code_simp+
  then have "no_break ?l" using assms no_break_dec by (auto simp: no_break_def)
  moreover have "rs_version r < HTTP_2_0" using assms(3) by (auto simp: version_defs)
  then have "response_str r @ after = ?l @ crlf @ ?t"
    using assms(4) by (auto simp: response_str_def fmt_int_def headers_length_def Let_def)
  ultimately show ?thesis
    using cut_line_append [of ?l ?t] read_fields_headers_str [OF assms(2), of after] read_fields_end [of after]
    by (intro exI [of _ ?t]) auto
qed

theorem response_str_parse_witness:
  "\<exists>t. cut_line (response_str \<lparr>rs_version = HTTP_1_1, rs_status_code = 200, rs_status_string = ''OK'',
      rs_headers = headers_put headers_empty ''Host'' ''a''\<rparr> @ ''body'') = Some (''HTTP/1.1 200 OK'', t) \<and>
     read_fields t = Some ([make_header ''Host'' ''a''], ''body'')"
proof -
  have "version_str HTTP_1_1 = ''HTTP/1.1''" "dec 200 = ''200''" by code_simp+
  then show ?thesis
    using response_str_parse [of "\<lparr>rs_version = HTTP_1_1, rs_status_code = 200, rs_status_string = ''OK'',
      rs_headers = headers_put headers_empty ''Host'' ''a''\<rparr>" "''body''"]
    by (simp add: headers_put_def headers_empty_def no_break_def field_ok_def make_header_def)
qed

lemma make_version_total: "make_version a b = Some (push_bit 8 (ucast a) OR ucast b)"
proof -
  have "drop_bit 8 (push_bit 8 (ucast a) OR ucast b :: u32) = ucast a"
    by (rule bit_word_eqI) (auto simp: bit_simps dest: bit_imp_le_length)
  moreover have "(push_bit 8 (ucast a) OR ucast b :: u32) AND mask 8 = ucast b"
    by (rule bit_word_eqI) (auto simp: bit_simps dest: bit_imp_le_length)
  ultimately show ?thesis
    by (simp add: make_version_def version_get_major_def version_get_minor_def Let_def mask_numeral)
qed

text \<open>Also: the field \<^verbatim>\<open>:status\<close> depends on the order of the calls.  Setting the status code last gives the code; setting the version last keeps what was
  there, so that a response made for HTTP/1.1 and then sent as HTTP/2 has no status.\<close>

theorem status_field_order:
  "si_current (response_begin (response_set_status_code (response_set_version r HTTP_2_0) code)) = Some (make_header '':status'' (fmt_int code)) \<and>
   si_current (response_begin (response_set_version (make_response HTTP_1_1 code) HTTP_2_0)) = Some (make_header '':status'' []) \<and>
   si_current (response_begin (make_response_version HTTP_2_0)) = Some (make_header '':status'' [])"
  by (simp add: response_begin_def rs_iterator_make_def rs_update_current_def response_set_status_code_def response_set_version_def
      make_response_def make_response_version_def version_defs)

end
