(* ===== verification/Http1.thy ===== *)
theory Http1
  imports HttpMessage "HOL-Library.Signed_Division"
begin

text \<open>
  The HTTP/1 session of \<^verbatim>\<open>http/http1.cpp\<close>, server and client.  The parser \<^verbatim>\<open>llhttp\<close> is a parameter: what it does
  with a chunk of input is a tree of the callbacks it makes, each continued by the callback's return value, that
  ends in its error number and its next state.  The user's callbacks do not call back into the session; they are
  recorded as events in the order they are made, and a null callback records nothing.  A \<^verbatim>\<open>Uint8View\<close> is the
  \<^typ>\<open>string\<close> of its octets.
\<close>

section \<open>State\<close>

datatype side = Http1Server | Http1Client

datatype content_length = ContentLengthUnset | ContentLengthChunked | ContentLength nat

datatype h1_flag = REQ_SENT | BODY_DATA_STARTED | UPGRADE_REQUEST | HEAD_REQUEST | HAS_BODY
  | INTERMEDIATE_RESPONSE | ZERO_CHUNK_SENT

record h1_stream =
  st_id :: u32
  st_flags :: "h1_flag set"
  st_content_length :: content_length

definition h1_stream_make :: "u32 \<Rightarrow> h1_stream" where
  "h1_stream_make i = \<lparr>st_id = i, st_flags = {}, st_content_length = ContentLengthUnset\<rparr>"

definition flag_set :: "h1_flag \<Rightarrow> bool \<Rightarrow> h1_stream \<Rightarrow> h1_stream" where
  "flag_set f b st = st\<lparr>st_flags := (if b then insert f (st_flags st) else st_flags st - {f})\<rparr>"

definition flag_test :: "h1_flag \<Rightarrow> h1_stream \<Rightarrow> bool" where
  "flag_test f st \<longleftrightarrow> f \<in> st_flags st"

record parser_context =
  pc_path :: string
  pc_status_string :: string
  pc_headers :: "(string \<times> string) list"

definition parser_context_new :: parser_context where
  "parser_context_new = \<lparr>pc_path = [], pc_status_string = [], pc_headers = []\<rparr>"

text \<open>Which of the user's callbacks are set.\<close>

record callbacks =
  has_on_message :: bool
  has_on_trailer_headers :: bool
  has_on_body :: bool
  has_on_body_finished :: bool
  has_on_stream_finished :: bool
  has_on_output :: bool

definition all_callbacks :: callbacks where
  "all_callbacks = \<lparr>has_on_message = True, has_on_trailer_headers = True, has_on_body = True,
     has_on_body_finished = True, has_on_stream_finished = True, has_on_output = True\<rparr>"

datatype h1_event =
    OnRequest u64 request
  | OnResponse u64 response
  | OnTrailerHeaders u64 headers
  | OnBody u64 string
  | OnBodyFinished u64
  | OnStreamFinished u64 int
  | OnOutput string

record h1_session =
  m_side :: side
  m_handler :: callbacks
  m_parser_context :: "parser_context option"
  m_next_stream_id :: u32
  m_streams :: "h1_stream list"
  h1_events :: "h1_event list"

definition h1_session_new :: "side \<Rightarrow> callbacks \<Rightarrow> h1_session" where
  "h1_session_new d h =
     \<lparr>m_side = d, m_handler = h, m_parser_context = None, m_next_stream_id = 1, m_streams = [], h1_events = []\<rparr>"

definition raise_event :: "(callbacks \<Rightarrow> bool) \<Rightarrow> h1_event \<Rightarrow> h1_session \<Rightarrow> h1_session" where
  "raise_event has e s = (if has (m_handler s) then s\<lparr>h1_events := h1_events s @ [e]\<rparr> else s)"

definition active_stream :: "h1_session \<Rightarrow> h1_stream" where
  "active_stream s = (if m_side s = Http1Server then last (m_streams s) else hd (m_streams s))"

text \<open>Writing through the references that \<^verbatim>\<open>active_stream()\<close> and \<^verbatim>\<open>front()\<close> return.\<close>

definition on_active :: "(h1_stream \<Rightarrow> h1_stream) \<Rightarrow> h1_session \<Rightarrow> h1_session" where
  "on_active f s =
     s\<lparr>m_streams := (if m_side s = Http1Server
                      then butlast (m_streams s) @ [f (last (m_streams s))]
                      else f (hd (m_streams s)) # tl (m_streams s))\<rparr>"

definition on_front :: "(h1_stream \<Rightarrow> h1_stream) \<Rightarrow> h1_session \<Rightarrow> h1_session" where
  "on_front f s = s\<lparr>m_streams := f (hd (m_streams s)) # tl (m_streams s)\<rparr>"

definition pop_front :: "h1_session \<Rightarrow> h1_session" where
  "pop_front s = s\<lparr>m_streams := tl (m_streams s)\<rparr>"

definition sid :: "h1_stream \<Rightarrow> u64" where
  "sid st = ucast (st_id st)"

section \<open>Callbacks of the parser\<close>

text \<open>What the session reads from the parser once the headers are complete.\<close>

record llhttp_info =
  http_major :: u8
  http_minor :: u8
  method_name :: string
  f_chunked :: bool
  f_content_length :: bool
  pi_content_length :: nat
  pi_upgrade :: bool
  pi_status_code :: int

datatype parser_callback =
    CB_message_begin
  | CB_url string
  | CB_status string
  | CB_header_field string
  | CB_header_value string
  | CB_headers_complete llhttp_info
  | CB_body string
  | CB_message_complete

definition on_message_begin :: "h1_session \<Rightarrow> h1_session \<times> int" where
  "on_message_begin s =
     (if m_side s = Http1Server
      then (s\<lparr>m_streams := m_streams s @ [h1_stream_make (m_next_stream_id s)],
              m_next_stream_id := m_next_stream_id s + 1,
              m_parser_context := Some parser_context_new\<rparr>, 0)
      else if m_streams s = [] then (s, -1)
      else ((on_active (\<lambda>st. flag_set INTERMEDIATE_RESPONSE False (flag_set HAS_BODY False st)) s)
              \<lparr>m_parser_context := Some parser_context_new\<rparr>, 0))"

definition on_url :: "h1_session \<Rightarrow> string \<Rightarrow> h1_session \<times> int" where
  "on_url s path =
     (if m_streams s = [] then (s, -1)
      else if m_side s = Http1Client then (s, -1)
      else case m_parser_context s of
             None \<Rightarrow> (s, -1)
           | Some context \<Rightarrow> (s\<lparr>m_parser_context := Some (context\<lparr>pc_path := pc_path context @ path\<rparr>)\<rparr>, 0))"

definition on_status :: "h1_session \<Rightarrow> string \<Rightarrow> h1_session \<times> int" where
  "on_status s status =
     (if m_side s = Http1Server then (s, -1)
      else if m_streams s = [] then (s, -1)
      else case m_parser_context s of
             None \<Rightarrow> (s, -1)
           | Some context \<Rightarrow>
               (s\<lparr>m_parser_context := Some (context\<lparr>pc_status_string := pc_status_string context @ status\<rparr>)\<rparr>, 0))"

definition add_header_field :: "(string \<times> string) list \<Rightarrow> string \<Rightarrow> (string \<times> string) list" where
  "add_header_field hs field =
     (if hs = [] \<or> snd (last hs) \<noteq> [] then hs @ [(field, [])]
      else butlast hs @ [(fst (last hs) @ field, snd (last hs))])"

definition on_header_field :: "h1_session \<Rightarrow> string \<Rightarrow> h1_session \<times> int" where
  "on_header_field s field =
     (if m_streams s = [] then (s, -1)
      else case m_parser_context s of
             None \<Rightarrow> (s, -1)
           | Some context \<Rightarrow>
               (s\<lparr>m_parser_context := Some (context\<lparr>pc_headers := add_header_field (pc_headers context) field\<rparr>)\<rparr>, 0))"

definition add_header_value :: "(string \<times> string) list \<Rightarrow> string \<Rightarrow> (string \<times> string) list" where
  "add_header_value hs val = butlast hs @ [(fst (last hs), snd (last hs) @ val)]"

definition on_header_value :: "h1_session \<Rightarrow> string \<Rightarrow> h1_session \<times> int" where
  "on_header_value s val =
     (if m_streams s = [] then (s, -1)
      else case m_parser_context s of
             None \<Rightarrow> (s, -1)
           | Some context \<Rightarrow>
               (if pc_headers context = [] then (s, -1)
                else (s\<lparr>m_parser_context := Some (context\<lparr>pc_headers := add_header_value (pc_headers context) val\<rparr>)\<rparr>, 0)))"

definition put_all :: "(string \<times> string) list \<Rightarrow> headers" where
  "put_all hs = foldl (\<lambda>h (n, v). headers_put h n v) headers_empty hs"

text \<open>The server's half of \<^verbatim>\<open>on_headers_complete\<close>: 2 pauses for an upgrade, 1 says that there is no body.\<close>

definition headers_complete_request :: "h1_session \<Rightarrow> parser_context \<Rightarrow> llhttp_info \<Rightarrow> version \<Rightarrow> h1_session \<times> int" where
  "headers_complete_request s context p v =
     (let has = (f_chunked p \<or> (f_content_length p \<and> pi_content_length p > 0));
          hs = headers_set_has_body (put_all (pc_headers context)) has;
          rq = (make_request v (method_name p) (pc_path context))\<lparr>rq_headers := hs\<rparr>;
          s1 = s\<lparr>m_parser_context := Some (context\<lparr>pc_headers := [], pc_path := []\<rparr>)\<rparr>;
          s2 = on_active (\<lambda>st. flag_set HAS_BODY (m_has_body (rq_headers rq))
                 (flag_set HEAD_REQUEST (method_name p = ''HEAD'') (flag_set UPGRADE_REQUEST (pi_upgrade p) st))) s1;
          s3 = raise_event has_on_message (OnRequest (sid (active_stream s2)) rq) s2
      in (s3, if pi_upgrade p then 2 else if \<not> flag_test HAS_BODY (active_stream s3) then 1 else 0))"

text \<open>The client's half.\<close>

definition headers_complete_response :: "h1_session \<Rightarrow> parser_context \<Rightarrow> llhttp_info \<Rightarrow> version \<Rightarrow> h1_session \<times> int" where
  "headers_complete_response s context p v =
     (let status_code = pi_status_code p;
          has = ((status_code \<noteq> 100 \<and> status_code \<noteq> 103) \<and>
                 (f_chunked p \<or> \<not> f_content_length p \<or> pi_content_length p \<noteq> 0));
          hs = headers_set_has_body (put_all (pc_headers context)) has;
          rs = (response_set_status_code (make_response v status_code) status_code)
                 \<lparr>rs_status_string := pc_status_string context, rs_headers := hs\<rparr>;
          s1 = s\<lparr>m_parser_context := Some (context\<lparr>pc_headers := [], pc_status_string := []\<rparr>)\<rparr>;
          s2 = on_active (\<lambda>st. flag_set INTERMEDIATE_RESPONSE (status_code < 200)
                 (flag_set HAS_BODY (m_has_body (rs_headers rs)) st)) s1;
          s3 = raise_event has_on_message (OnResponse (sid (active_stream s2)) rs) s2;
          pseudo_http = (\<not> flag_test REQ_SENT (active_stream s3) \<and> status_code \<noteq> 100 \<and> status_code \<noteq> 103)
      in (s3, if pi_upgrade p \<or> pseudo_http then 2 else if \<not> flag_test HAS_BODY (active_stream s3) then 1 else 0))"

definition on_headers_complete :: "h1_session \<Rightarrow> llhttp_info \<Rightarrow> h1_session \<times> int" where
  "on_headers_complete s p =
     (if m_streams s = [] then (s, -1)
      else case m_parser_context s of
             None \<Rightarrow> (s, -1)
           | Some context \<Rightarrow>
               (case make_version (http_major p) (http_minor p) of
                  None \<Rightarrow> (s, -1)
                | Some v \<Rightarrow>
                    (if m_side s = Http1Server then headers_complete_request s context p v
                     else headers_complete_response s context p v)))"

definition on_body :: "h1_session \<Rightarrow> string \<Rightarrow> h1_session \<times> int" where
  "on_body s chunk =
     (if m_streams s = [] then (s, -1)
      else let s1 = on_active (flag_set BODY_DATA_STARTED True) s
           in (raise_event has_on_body (OnBody (sid (active_stream s1)) chunk) s1, 0))"

definition finish_body :: "h1_session \<Rightarrow> h1_session" where
  "finish_body s =
     (let i = sid (active_stream s);
          s1 = (case m_parser_context s of
                  None \<Rightarrow> s
                | Some context \<Rightarrow>
                    (if has_on_trailer_headers (m_handler s) \<and> pc_headers context \<noteq> []
                     then raise_event has_on_trailer_headers (OnTrailerHeaders i (put_all (pc_headers context)))
                            (s\<lparr>m_parser_context := Some (context\<lparr>pc_headers := []\<rparr>)\<rparr>)
                     else s))
      in raise_event has_on_body_finished (OnBodyFinished i) s1)"

definition on_message_complete :: "h1_session \<Rightarrow> h1_session \<times> int" where
  "on_message_complete s =
     (if m_streams s = [] then (s, -1)
      else let st = active_stream s;
               s1 = (if flag_test HAS_BODY st then finish_body s else s)
           in if m_side s = Http1Client \<and> \<not> flag_test INTERMEDIATE_RESPONSE st
              then ((pop_front (raise_event has_on_stream_finished (OnStreamFinished (sid st) 0) s1))
                      \<lparr>m_parser_context := None\<rparr>, 0)
              else (s1, 0))"

fun parser_call :: "h1_session \<Rightarrow> parser_callback \<Rightarrow> h1_session \<times> int" where
  "parser_call s CB_message_begin = on_message_begin s"
| "parser_call s (CB_url u) = on_url s u"
| "parser_call s (CB_status t) = on_status s t"
| "parser_call s (CB_header_field f) = on_header_field s f"
| "parser_call s (CB_header_value v) = on_header_value s v"
| "parser_call s (CB_headers_complete p) = on_headers_complete s p"
| "parser_call s (CB_body b) = on_body s b"
| "parser_call s CB_message_complete = on_message_complete s"

section \<open>Input\<close>

datatype llhttp_errno = HPE_OK | HPE_PAUSED_UPGRADE | HPE_OTHER string

datatype 'p parser_run = Run_done llhttp_errno 'p | Run_call parser_callback "int \<Rightarrow> 'p parser_run"

primrec parser_exec :: "'p parser_run \<Rightarrow> h1_session \<Rightarrow> llhttp_errno \<times> 'p \<times> h1_session" where
  "parser_exec (Run_done e p) s = (e, p, s)"
| "parser_exec (Run_call c k) s = (case parser_call s c of (s', r) \<Rightarrow> parser_exec (k r) s')"

datatype h1_error = NoActiveStreams | InvalidStreamId u64 u32 | ParseFailed string | CausedBy h1_error

datatype input_result = InputOk | InputUpgrade

definition reset_parser :: "('p \<Rightarrow> 'p) \<Rightarrow> 'p \<Rightarrow> h1_session \<Rightarrow> 'p \<times> h1_session" where
  "reset_parser llhttp_reset p s = (llhttp_reset p, s\<lparr>m_parser_context := None\<rparr>)"

definition input_impl ::
  "('p \<Rightarrow> llhttp_errno) \<Rightarrow> ('p \<Rightarrow> 'p) \<Rightarrow> ('p \<Rightarrow> string \<Rightarrow> 'p parser_run) \<Rightarrow>
   'p \<Rightarrow> h1_session \<Rightarrow> string \<Rightarrow> (h1_error + input_result) \<times> 'p \<times> h1_session" where
  "input_impl llhttp_get_errno llhttp_reset llhttp_execute p s chunk =
     (let (p1, s1) = (if llhttp_get_errno p \<noteq> HPE_OK then reset_parser llhttp_reset p s else (p, s));
          (err, p2, s2) = parser_exec (llhttp_execute p1 chunk) s1
      in (case err of
            HPE_OK \<Rightarrow> Inr InputOk
          | HPE_PAUSED_UPGRADE \<Rightarrow> Inr InputUpgrade
          | HPE_OTHER e \<Rightarrow> Inl (ParseFailed e), p2, s2))"

section \<open>Sending\<close>

definition h1_output :: "string \<Rightarrow> h1_session \<Rightarrow> h1_session" where
  "h1_output d s = raise_event has_on_output (OnOutput d) s"

definition stream_finished :: "u64 \<Rightarrow> h1_session \<Rightarrow> h1_session" where
  "stream_finished i s = raise_event has_on_stream_finished (OnStreamFinished i 0) s"

text \<open>The part of a body that is not chunked: the remaining length, and whether the message ends.\<close>

definition send_plain :: "h1_session \<Rightarrow> string \<Rightarrow> bool \<Rightarrow> h1_session \<times> bool" where
  "send_plain s chunk eof =
     (let s1 = (if chunk \<noteq> [] then h1_output chunk s else s)
      in case st_content_length (active_stream s1) of
           ContentLength n \<Rightarrow>
             (let n' = (if n \<ge> length chunk then n - length chunk else 0)
              in (on_active (\<lambda>st. st\<lparr>st_content_length := ContentLength n'\<rparr>) s1, n' = 0))
         | _ \<Rightarrow> (s1, eof))"

definition end_of_message :: "u64 \<Rightarrow> h1_session \<Rightarrow> h1_session" where
  "end_of_message stream_id s =
     (if m_side s = Http1Server then stream_finished stream_id (pop_front s)
      else on_active (flag_set REQ_SENT True) s)"

function send_body_impl :: "h1_session \<Rightarrow> u64 \<Rightarrow> string \<Rightarrow> bool \<Rightarrow> h1_error option \<times> h1_session" where
  "send_body_impl s stream_id chunk eof =
     (if m_streams s = [] then (Some NoActiveStreams, s)
      else if stream_id \<noteq> sid (active_stream s)
      then (Some (InvalidStreamId stream_id (st_id (active_stream s))), s)
      else if st_content_length (active_stream s) = ContentLengthChunked
      then (let s1 = on_active (flag_set ZERO_CHUNK_SENT (chunk = [])) s
            in if \<not> has_on_output (m_handler s)
               then (None, if eof then end_of_message stream_id s1 else s1)
               else let s2 = h1_output (fmt_uint True 16 (length chunk) @ crlf) s1
                    in if chunk = []
                       then (None, if eof then end_of_message stream_id (h1_output crlf s2) else s2)
                       else let s3 = h1_output crlf (h1_output chunk s2)
                            in if \<not> eof then (None, s3)
                               else case send_body_impl s3 stream_id [] False of
                                      (Some e, s4) \<Rightarrow> (Some (CausedBy e), s4)
                                    | (None, s4) \<Rightarrow> (None, end_of_message stream_id (h1_output crlf s4)))
      else (case send_plain s chunk eof of
              (s1, eof') \<Rightarrow> (None, if eof' then end_of_message stream_id s1 else s1)))"
  by pat_completeness auto
termination by (relation "measure (\<lambda>(s, i, chunk, eof). length chunk)") auto

declare send_body_impl.simps [simp del]

text \<open>
  \<^verbatim>\<open>send_trailer_impl\<close>: \<^const>\<open>None\<close> where \<^verbatim>\<open>pop_front\<close> is called on an empty list, which is undefined.
\<close>

definition send_trailer_impl :: "h1_session \<Rightarrow> u32 \<Rightarrow> headers \<Rightarrow> bool \<Rightarrow> (h1_error option \<times> h1_session) option" where
  "send_trailer_impl s stream_id hs eof =
     (if m_streams s = [] then Some (Some NoActiveStreams, s)
      else if stream_id \<noteq> st_id (hd (m_streams s))
      then Some (Some (InvalidStreamId (ucast stream_id) (st_id (hd (m_streams s)))), s)
      else let zero_chunk_sent = flag_test ZERO_CHUNK_SENT (hd (m_streams s));
               s1 = on_front (flag_set ZERO_CHUNK_SENT True) s
           in if \<not> has_on_output (m_handler s) then Some (None, s1)
              else let (err, s2) = (if zero_chunk_sent then (None, s1)
                                    else case send_body_impl s1 (ucast stream_id) [] False of
                                           (Some e, t) \<Rightarrow> (Some (CausedBy e), t)
                                         | (None, t) \<Rightarrow> (None, h1_output crlf t))
                   in if err \<noteq> None then Some (err, s2)
                      else let s3 = h1_output (headers_str hs) s2
                           in if \<not> eof then Some (None, s3)
                              else let s4 = h1_output crlf s3
                                   in if m_streams s4 = [] then None
                                      else Some (None, stream_finished (ucast stream_id) (pop_front s4)))"

text \<open>
  The framing of an outgoing message.  The expression \<^verbatim>\<open>std::optional x = to_integer(..).has_value()\<close> makes \<^verbatim>\<open>x\<close> an
  \<^verbatim>\<open>optional<bool>\<close> that always has a value, so what is stored is whether the text is a number.
\<close>

definition parsed_flag :: "string \<Rightarrow> nat" where
  "parsed_flag str = (if to_integer max_u64 str 10 \<noteq> None then 1 else 0)"

definition send_response :: "h1_session \<Rightarrow> u64 \<Rightarrow> response \<Rightarrow> h1_error option \<times> h1_session" where
  "send_response s stream_id rs =
     (if m_streams s = [] then (Some NoActiveStreams, s)
      else if stream_id \<noteq> sid (hd (m_streams s))
      then (Some (InvalidStreamId stream_id (st_id (hd (m_streams s)))), s)
      else let hs = rs_headers rs;
               cl = (if iequals (headers_gets hs ''Transfer-Encoding'') ''chunked'' then ContentLengthChunked
                     else ContentLength (parsed_flag (headers_gets hs ''Content-Length'')));
               s1 = on_front (\<lambda>st. st\<lparr>st_content_length := cl\<rparr>) s;
               s2 = h1_output (response_str rs) s1;
               st = hd (m_streams s2);
               status_code = rs_status_code rs;
               cant_have_body = (status_code sdiv 100 = 1 \<or> status_code = 204 \<or> status_code = 205 \<or>
                                 status_code = 304 \<or> flag_test HEAD_REQUEST st);
               empty_msg = (cant_have_body \<or> st_content_length st = ContentLength 0);
               is_upgrade = (flag_test UPGRADE_REQUEST st \<and>
                             (headers_gets hs ''Upgrade'' \<noteq> [] \<or> ifind (headers_gets hs ''Connection'') ''upgrade'' \<noteq> None))
           in (None,
               if empty_msg \<and> \<not> is_upgrade \<and> status_code \<noteq> 100 \<and> status_code \<noteq> 103
               then stream_finished stream_id (pop_front s2) else s2))"

definition on_back :: "(h1_stream \<Rightarrow> h1_stream) \<Rightarrow> h1_session \<Rightarrow> h1_session" where
  "on_back f s = s\<lparr>m_streams := butlast (m_streams s) @ [f (last (m_streams s))]\<rparr>"

definition send_request :: "h1_session \<Rightarrow> request \<Rightarrow> u32 \<times> h1_session" where
  "send_request s rq =
     (let stream_id = m_next_stream_id s;
          s1 = s\<lparr>m_next_stream_id := stream_id + 1, m_streams := m_streams s @ [h1_stream_make stream_id]\<rparr>;
          hs = rq_headers rq;
          cl = (if iequals (headers_gets hs ''Transfer-Encoding'') ''chunked'' then ContentLengthChunked
                else case headers_get hs ''Content-Length'' of
                       Some h \<Rightarrow> ContentLength (parsed_flag h)
                     | None \<Rightarrow> ContentLengthUnset);
          s2 = h1_output (request_str rq) (on_back (\<lambda>st. st\<lparr>st_content_length := cl\<rparr>) s1);
          empty_msg = (rq_method rq = ''HEAD'' \<or> cl = ContentLengthUnset \<or> cl = ContentLength 0)
      in (stream_id, on_back (flag_set REQ_SENT empty_msg) s2))"

section \<open>Receiving a message\<close>

text \<open>A sequence of callbacks, stopped by the first that returns an error.\<close>

fun feed :: "h1_session \<Rightarrow> parser_callback list \<Rightarrow> h1_session \<times> bool" where
  "feed s [] = (s, True)"
| "feed s (c # cs) = (case parser_call s c of (s', r) \<Rightarrow> if r = -1 then (s', False) else feed s' cs)"

text \<open>A run of the parser that makes the given calls and stops with a user error when one of them fails.\<close>

fun script :: "'p \<Rightarrow> parser_callback list \<Rightarrow> 'p parser_run" where
  "script p [] = Run_done HPE_OK p"
| "script p (c # cs) = Run_call c (\<lambda>r. if r = -1 then Run_done (HPE_OTHER ''HPE_USER'') p else script p cs)"

lemma parser_exec_script:
  "parser_exec (script p cs) s =
     (case feed s cs of (s', ok) \<Rightarrow> (if ok then HPE_OK else HPE_OTHER ''HPE_USER'', p, s'))"
  by (induction cs arbitrary: s) (auto split: prod.splits)

lemma input_script:
  assumes "llhttp_get_errno q = HPE_OK" "llhttp_execute q chunk = script q' cs" "feed s cs = (s', True)"
  shows "input_impl llhttp_get_errno llhttp_reset llhttp_execute q s chunk = (Inr InputOk, q', s')"
  using assms by (simp add: input_impl_def parser_exec_script)

lemma feed_append:
  "feed s (as @ bs) = (case feed s as of (s', ok) \<Rightarrow> if ok then feed s' bs else (s', False))"
  by (induction as arbitrary: s) (auto split: prod.splits)

lemma feed_single: "feed s [c] = (case parser_call s c of (s', r) \<Rightarrow> (s', r \<noteq> -1))"
  by (auto split: prod.splits)

text \<open>Within a message.\<close>

definition in_message :: "h1_session \<Rightarrow> parser_context \<Rightarrow> bool" where
  "in_message s c \<longleftrightarrow> m_streams s \<noteq> [] \<and> m_parser_context s = Some c"

abbreviation with_headers :: "h1_session \<Rightarrow> parser_context \<Rightarrow> (string \<times> string) list \<Rightarrow> h1_session" where
  "with_headers s c hs \<equiv> s\<lparr>m_parser_context := Some (c\<lparr>pc_headers := hs\<rparr>)\<rparr>"

lemma in_message_with [simp]: "in_message s c \<Longrightarrow> in_message (s\<lparr>m_parser_context := Some d\<rparr>) d"
  by (simp add: in_message_def)

lemma session_ctx_id: "in_message s c \<Longrightarrow> s\<lparr>m_parser_context := Some c\<rparr> = s"
  by (cases s) (auto simp: in_message_def)

lemma feed_fields:
  "in_message s c \<Longrightarrow> feed s (map CB_header_field fs) = (with_headers s c (foldl add_header_field (pc_headers c) fs), True)"
proof (induction fs arbitrary: s c)
  case Nil
  then show ?case by (simp add: session_ctx_id)
next
  case (Cons f fs)
  have "parser_call s (CB_header_field f) = (with_headers s c (add_header_field (pc_headers c) f), 0)"
    using Cons.prems by (simp add: on_header_field_def in_message_def)
  then show ?case
    using Cons.IH [OF in_message_with [OF Cons.prems], of "c\<lparr>pc_headers := add_header_field (pc_headers c) f\<rparr>"]
    by simp
qed

lemma add_header_value_ne [simp]: "add_header_value hs v \<noteq> []"
  by (simp add: add_header_value_def)

lemma feed_values:
  "in_message s c \<Longrightarrow> pc_headers c \<noteq> [] \<Longrightarrow>
   feed s (map CB_header_value vs) = (with_headers s c (foldl add_header_value (pc_headers c) vs), True)"
proof (induction vs arbitrary: s c)
  case Nil
  then show ?case by (simp add: session_ctx_id)
next
  case (Cons v vs)
  have "parser_call s (CB_header_value v) = (with_headers s c (add_header_value (pc_headers c) v), 0)"
    using Cons.prems by (simp add: on_header_value_def in_message_def)
  then show ?case
    using Cons.IH [OF in_message_with [OF Cons.prems(1)], of "c\<lparr>pc_headers := add_header_value (pc_headers c) v\<rparr>"]
    by simp
qed

text \<open>
  A header arrives as fragments of its name and of its value.  A name is joined to the last name when that
  name has no value yet.
\<close>

type_synonym fragments = "(string list \<times> string list) list"

definition header_calls :: "fragments \<Rightarrow> parser_callback list" where
  "header_calls frs = concat (map (\<lambda>(ns, vs). map CB_header_field ns @ map CB_header_value vs) frs)"

definition assembled :: "fragments \<Rightarrow> (string \<times> string) list" where
  "assembled frs = map (\<lambda>(ns, vs). (concat ns, concat vs)) frs"

definition join_header :: "(string \<times> string) list \<Rightarrow> string \<times> string \<Rightarrow> (string \<times> string) list" where
  "join_header hs h =
     (if hs = [] \<or> snd (last hs) \<noteq> [] then hs @ [h] else butlast hs @ [(fst (last hs) @ fst h, snd h)])"

lemma foldl_add_value: "hs \<noteq> [] \<Longrightarrow> foldl add_header_value hs vs = butlast hs @ [(fst (last hs), snd (last hs) @ concat vs)]"
  by (induction vs arbitrary: hs) (auto simp: add_header_value_def)

lemma foldl_add_field_open:
  "hs \<noteq> [] \<Longrightarrow> snd (last hs) = [] \<Longrightarrow>
   foldl add_header_field hs fs = butlast hs @ [(fst (last hs) @ concat fs, [])]"
proof (induction fs arbitrary: hs)
  case Nil
  then show ?case by (cases "last hs") (metis append_Nil2 append_butlast_last_id concat.simps(1) foldl_Nil fst_conv snd_conv)
qed (simp add: add_header_field_def)

lemma foldl_add_field:
  "fs \<noteq> [] \<Longrightarrow> foldl add_header_field hs fs = join_header hs (concat fs, [])"
  by (cases fs) (auto simp: foldl_add_field_open add_header_field_def join_header_def)

lemma foldl_header:
  "ns \<noteq> [] \<Longrightarrow> foldl add_header_value (foldl add_header_field hs ns) vs = join_header hs (concat ns, concat vs)"
  by (simp add: foldl_add_field foldl_add_value join_header_def)

lemma feed_header_calls:
  "in_message s c \<Longrightarrow> list_all (\<lambda>(ns, vs). ns \<noteq> []) frs \<Longrightarrow>
   feed s (header_calls frs) = (with_headers s c (foldl join_header (pc_headers c) (assembled frs)), True)"
proof (induction frs arbitrary: s c)
  case Nil
  then show ?case by (simp add: header_calls_def assembled_def session_ctx_id)
next
  case (Cons fr frs)
  obtain ns vs where fr: "fr = (ns, vs)" by (cases fr)
  have n: "ns \<noteq> []" using Cons.prems fr by simp
  let ?h = "foldl add_header_field (pc_headers c) ns"
  let ?c = "c\<lparr>pc_headers := join_header (pc_headers c) (concat ns, concat vs)\<rparr>"
  have "?h \<noteq> []" using foldl_add_field [OF n] by (simp add: join_header_def)
  then have "feed s (map CB_header_field ns @ map CB_header_value vs) = (s\<lparr>m_parser_context := Some ?c\<rparr>, True)"
    using feed_fields [OF Cons.prems(1), of ns] foldl_header [OF n, of "pc_headers c" vs]
      feed_values [OF in_message_with [OF Cons.prems(1)], of "c\<lparr>pc_headers := ?h\<rparr>" vs]
    by (simp add: feed_append)
  moreover have "header_calls (fr # frs) = (map CB_header_field ns @ map CB_header_value vs) @ header_calls frs"
    by (simp add: header_calls_def fr)
  ultimately show ?case
    using Cons.IH [OF in_message_with [OF Cons.prems(1)], of ?c] Cons.prems(2) fr
      feed_append [of s "map CB_header_field ns @ map CB_header_value vs" "header_calls frs"]
    by (simp add: assembled_def)
qed

lemma join_headers_full:
  "list_all (\<lambda>h. snd h \<noteq> []) hs \<Longrightarrow> list_all (\<lambda>h. snd h \<noteq> []) as \<Longrightarrow> foldl join_header hs as = hs @ as"
proof (induction as arbitrary: hs)
  case (Cons a as)
  then have "join_header hs a = hs @ [a]" by (auto simp: join_header_def list_all_iff)
  then show ?case using Cons by simp
qed simp

lemma feed_urls:
  "in_message s c \<Longrightarrow> m_side s = Http1Server \<Longrightarrow>
   feed s (map CB_url us) = (s\<lparr>m_parser_context := Some (c\<lparr>pc_path := pc_path c @ concat us\<rparr>)\<rparr>, True)"
proof (induction us arbitrary: s c)
  case Nil
  then show ?case by (simp add: session_ctx_id)
next
  case (Cons u us)
  have "parser_call s (CB_url u) = (s\<lparr>m_parser_context := Some (c\<lparr>pc_path := pc_path c @ u\<rparr>)\<rparr>, 0)"
    using Cons.prems by (simp add: on_url_def in_message_def)
  then show ?case
    using Cons.IH [OF in_message_with [OF Cons.prems(1)], of "c\<lparr>pc_path := pc_path c @ u\<rparr>"] Cons.prems
    by simp
qed

lemma feed_statuses:
  "in_message s c \<Longrightarrow> m_side s = Http1Client \<Longrightarrow>
   feed s (map CB_status us) =
     (s\<lparr>m_parser_context := Some (c\<lparr>pc_status_string := pc_status_string c @ concat us\<rparr>)\<rparr>, True)"
proof (induction us arbitrary: s c)
  case Nil
  then show ?case by (simp add: session_ctx_id)
next
  case (Cons u us)
  have "parser_call s (CB_status u) = (s\<lparr>m_parser_context := Some (c\<lparr>pc_status_string := pc_status_string c @ u\<rparr>)\<rparr>, 0)"
    using Cons.prems by (simp add: on_status_def in_message_def)
  then show ?case
    using Cons.IH [OF in_message_with [OF Cons.prems(1)], of "c\<lparr>pc_status_string := pc_status_string c @ u\<rparr>"] Cons.prems
    by simp
qed

lemma active_on_active: "m_streams s \<noteq> [] \<Longrightarrow> active_stream (on_active f s) = f (active_stream s)"
  by (simp add: active_stream_def on_active_def)

lemma active_stream_simps [simp]:
  "active_stream (s\<lparr>m_parser_context := c\<rparr>) = active_stream s"
  "active_stream (s\<lparr>h1_events := es\<rparr>) = active_stream s"
  "active_stream (s\<lparr>m_next_stream_id := n\<rparr>) = active_stream s"
  by (simp_all add: active_stream_def)

lemma on_active_simps [simp]:
  "m_side (on_active f s) = m_side s" "m_handler (on_active f s) = m_handler s"
  "m_parser_context (on_active f s) = m_parser_context s" "h1_events (on_active f s) = h1_events s"
  "m_next_stream_id (on_active f s) = m_next_stream_id s" "(m_streams (on_active f s) = []) = False"
  by (auto simp: on_active_def)

lemma flag_set_sid [simp]: "sid (flag_set f b st) = sid st" "st_id (flag_set f b st) = st_id st"
  "st_content_length (flag_set f b st) = st_content_length st"
  by (simp_all add: flag_set_def sid_def)

lemma flag_test_set [simp]: "flag_test f (flag_set g b st) = (if f = g then b else flag_test f st)"
  by (auto simp: flag_test_def flag_set_def)

lemma on_active_ids:
  "(\<And>st. st_id (f st) = st_id st) \<Longrightarrow> m_streams s \<noteq> [] \<Longrightarrow>
   map st_id (m_streams (on_active f s)) = map st_id (m_streams s)"
proof (cases "m_side s")
  case Http1Server
  then show "(\<And>st. st_id (f st) = st_id st) \<Longrightarrow> m_streams s \<noteq> [] \<Longrightarrow> ?thesis"
    by (cases "m_streams s" rule: rev_cases) (auto simp: on_active_def)
next
  case Http1Client
  then show "(\<And>st. st_id (f st) = st_id st) \<Longrightarrow> m_streams s \<noteq> [] \<Longrightarrow> ?thesis"
    by (cases "m_streams s") (auto simp: on_active_def)
qed

abbreviation raised :: "h1_event list \<Rightarrow> h1_session \<Rightarrow> h1_session" where
  "raised es s \<equiv> s\<lparr>h1_events := h1_events s @ es\<rparr>"

lemma feed_bodies:
  assumes "m_streams s \<noteq> []" "has_on_body (m_handler s)"
  shows "\<exists>f. feed s (map CB_body bs) = (raised (map (OnBody (sid (active_stream s))) bs) (on_active f s), True) \<and>
    (\<forall>st. sid (f st) = sid st \<and> st_id (f st) = st_id st \<and> flag_test HAS_BODY (f st) = flag_test HAS_BODY st \<and>
      flag_test INTERMEDIATE_RESPONSE (f st) = flag_test INTERMEDIATE_RESPONSE st)"
  using assms
proof (induction bs arbitrary: s)
  case Nil
  have "on_active (\<lambda>st. st) s = s"
    using Nil by (cases s) (auto simp: on_active_def)
  then show ?case by (intro exI [of _ "\<lambda>st. st"]) simp
next
  case (Cons b bs)
  let ?g = "flag_set BODY_DATA_STARTED True"
  let ?s = "raised [OnBody (sid (active_stream s)) b] (on_active ?g s)"
  have c: "parser_call s (CB_body b) = (?s, 0)"
    using Cons.prems by (simp add: on_body_def raise_event_def active_on_active)
  have a: "active_stream ?s = ?g (active_stream s)"
    using active_on_active [OF Cons.prems(1), of ?g] by simp
  have comp: "on_active f (raised es (on_active ?g s)) = raised es (on_active (\<lambda>st. f (?g st)) s)" for f es
    by (simp add: on_active_def)
  obtain f where f: "feed ?s (map CB_body bs) = (raised (map (OnBody (sid (active_stream ?s))) bs) (on_active f ?s), True)"
    "\<forall>st. sid (f st) = sid st \<and> st_id (f st) = st_id st \<and> flag_test HAS_BODY (f st) = flag_test HAS_BODY st \<and>
      flag_test INTERMEDIATE_RESPONSE (f st) = flag_test INTERMEDIATE_RESPONSE st"
    using Cons.IH [of ?s] Cons.prems by auto
  show ?case using c f a comp by (intro exI [of _ "\<lambda>st. f (?g st)"]) simp
qed

definition body_events :: "u64 \<Rightarrow> bool \<Rightarrow> fragments \<Rightarrow> h1_event list" where
  "body_events i has trs =
     (if has then (if trs \<noteq> [] then [OnTrailerHeaders i (put_all (assembled trs))] else []) @ [OnBodyFinished i] else [])"

definition fragments_ok :: "fragments \<Rightarrow> bool" where
  "fragments_ok frs \<longleftrightarrow> list_all (\<lambda>(ns, vs). ns \<noteq> [] \<and> concat vs \<noteq> []) frs"

lemma fragments_ok_join:
  "fragments_ok frs \<Longrightarrow> list_all (\<lambda>(ns, vs). ns \<noteq> []) frs \<and> foldl join_header [] (assembled frs) = assembled frs"
  using join_headers_full [of "[]" "assembled frs"]
  by (auto simp: fragments_ok_def assembled_def list_all_iff case_prod_beta)

text \<open>The body and the trailers of a message, up to its completion.\<close>

lemma feed_rest:
  assumes "m_streams s \<noteq> []" "m_handler s = all_callbacks" "m_parser_context s = Some c" "pc_headers c = []"
    and "fragments_ok trs"
  shows "\<exists>s'. feed s (map CB_body bs @ header_calls trs) = (s', True) \<and>
    m_streams s' \<noteq> [] \<and> m_side s' = m_side s \<and> m_handler s' = all_callbacks \<and> m_next_stream_id s' = m_next_stream_id s \<and>
    map st_id (m_streams s') = map st_id (m_streams s) \<and> sid (active_stream s') = sid (active_stream s) \<and>
    flag_test HAS_BODY (active_stream s') = flag_test HAS_BODY (active_stream s) \<and>
    flag_test INTERMEDIATE_RESPONSE (active_stream s') = flag_test INTERMEDIATE_RESPONSE (active_stream s) \<and>
    m_parser_context s' = Some (c\<lparr>pc_headers := assembled trs\<rparr>) \<and>
    h1_events s' = h1_events s @ map (OnBody (sid (active_stream s))) bs"
proof -
  obtain f where f: "feed s (map CB_body bs) = (raised (map (OnBody (sid (active_stream s))) bs) (on_active f s), True)"
    "\<forall>st. sid (f st) = sid st \<and> st_id (f st) = st_id st \<and> flag_test HAS_BODY (f st) = flag_test HAS_BODY st \<and>
      flag_test INTERMEDIATE_RESPONSE (f st) = flag_test INTERMEDIATE_RESPONSE st"
    using feed_bodies [of s bs] assms(1,2) by (auto simp: all_callbacks_def)
  let ?s = "raised (map (OnBody (sid (active_stream s))) bs) (on_active f s)"
  have "in_message ?s c" using assms by (simp add: in_message_def)
  then have "feed ?s (header_calls trs) = (with_headers ?s c (assembled trs), True)"
    using feed_header_calls [of ?s c trs] fragments_ok_join [OF assms(5)] assms(4) by simp
  then have "feed s (map CB_body bs @ header_calls trs) = (with_headers ?s c (assembled trs), True)"
    using f(1) by (simp add: feed_append)
  moreover have "active_stream (with_headers ?s c (assembled trs)) = f (active_stream s)"
    using active_on_active [OF assms(1), of f] by simp
  ultimately show ?thesis using f(2) assms on_active_ids [of f s]
    by (intro exI [of _ "with_headers ?s c (assembled trs)"]) simp
qed

lemma finish_body_events:
  assumes "m_handler s = all_callbacks" "m_parser_context s = Some c"
  shows "h1_events (finish_body s) = h1_events s @
      (if pc_headers c \<noteq> [] then [OnTrailerHeaders (sid (active_stream s)) (put_all (pc_headers c))] else []) @
      [OnBodyFinished (sid (active_stream s))]"
    and "m_streams (finish_body s) = m_streams s" "m_side (finish_body s) = m_side s"
    "m_handler (finish_body s) = m_handler s" "m_next_stream_id (finish_body s) = m_next_stream_id s"
  using assms by (auto simp: finish_body_def raise_event_def all_callbacks_def Let_def)

lemma assembled_nil [simp]: "(assembled trs = []) = (trs = [])"
  by (simp add: assembled_def)

definition request_received :: "llhttp_info \<Rightarrow> string \<Rightarrow> (string \<times> string) list \<Rightarrow> request" where
  "request_received p path hs =
     \<lparr>rq_version = push_bit 8 (ucast (http_major p)) OR ucast (http_minor p), rq_method = method_name p,
      rq_path = path, rq_scheme = [], rq_authority = [],
      rq_headers = \<lparr>m_headers = map (\<lambda>(n, v). make_header n v) hs,
        m_has_body = (f_chunked p \<or> (f_content_length p \<and> pi_content_length p > 0))\<rparr>\<rparr>"

lemma put_all_headers: "put_all hs = \<lparr>m_headers = map (\<lambda>(n, v). make_header n v) hs, m_has_body = False\<rparr>"
proof -
  have "foldl (\<lambda>h (n, v). headers_put h n v) h hs = h\<lparr>m_headers := m_headers h @ map (\<lambda>(n, v). make_header n v) hs\<rparr>" for h
    by (induction hs arbitrary: h) (auto simp: headers_put_def make_header_def)
  then show ?thesis by (simp add: put_all_def headers_empty_def)
qed

lemma server_head:
  assumes "m_side s = Http1Server" "m_handler s = all_callbacks" "fragments_ok frs"
    and has: "has = (f_chunked p \<or> (f_content_length p \<and> pi_content_length p > 0))"
  shows "\<exists>s' st c. feed s (CB_message_begin # map CB_url us @ header_calls frs @ [CB_headers_complete p]) = (s', True) \<and>
    m_streams s' = m_streams s @ [st] \<and> st_id st = m_next_stream_id s \<and> m_next_stream_id s' = m_next_stream_id s + 1 \<and>
    m_side s' = Http1Server \<and> m_handler s' = all_callbacks \<and> m_parser_context s' = Some c \<and> pc_headers c = [] \<and>
    flag_test HAS_BODY st = has \<and>
    h1_events s' = h1_events s @ [OnRequest (ucast (m_next_stream_id s)) (request_received p (concat us) (assembled frs))]"
proof -
  let ?c = "parser_context_new"
  let ?s1 = "s\<lparr>m_streams := m_streams s @ [h1_stream_make (m_next_stream_id s)],
              m_next_stream_id := m_next_stream_id s + 1, m_parser_context := Some ?c\<rparr>"
  let ?c2 = "?c\<lparr>pc_path := concat us\<rparr>"
  let ?s2 = "?s1\<lparr>m_parser_context := Some ?c2\<rparr>"
  let ?s3 = "with_headers ?s2 ?c2 (assembled frs)"
  have i: "in_message ?s1 ?c" "in_message ?s2 ?c2" by (simp_all add: in_message_def)
  have "feed ?s1 (map CB_url us) = (?s2, True)"
    using feed_urls [OF i(1), of us] assms(1) by (simp add: parser_context_new_def)
  moreover have "feed ?s2 (header_calls frs) = (?s3, True)"
    using feed_header_calls [OF i(2), of frs] fragments_ok_join [OF assms(3)] by (simp add: parser_context_new_def)
  moreover have "parser_call s CB_message_begin = (?s1, 0)" using assms(1) by (simp add: on_message_begin_def)
  ultimately have "feed s (CB_message_begin # map CB_url us @ header_calls frs @ [CB_headers_complete p]) =
    feed ?s3 [CB_headers_complete p]" by (simp add: feed_append del: feed.simps(2)) (simp add: feed_append)
  then show ?thesis
    using assms by (simp add: on_headers_complete_def make_version_total headers_complete_request_def Let_def
        raise_event_def all_callbacks_def put_all_headers headers_set_has_body_def request_received_def make_request_def
        on_active_def active_stream_def h1_stream_make_def sid_def)
qed

text \<open>C2: the callbacks of one request message, with its path, headers and trailers delivered in any fragments,
  make a server session open one stream with the next identifier and report the request with exactly the
  header fields that were sent, the body chunks in order, the trailers and the end of the body when the
  message has one.  Every header has a non-empty value.\<close>

theorem server_receives_message:
  assumes "m_side s = Http1Server" "m_handler s = all_callbacks" "fragments_ok frs" "fragments_ok trs"
    and "llhttp_get_errno q = HPE_OK"
    and "llhttp_execute q chunk = script q' (CB_message_begin # map CB_url us @ header_calls frs @
           [CB_headers_complete p] @ map CB_body bs @ header_calls trs @ [CB_message_complete])"
  shows "\<exists>s'. input_impl llhttp_get_errno llhttp_reset llhttp_execute q s chunk = (Inr InputOk, q', s') \<and>
    map st_id (m_streams s') = map st_id (m_streams s) @ [m_next_stream_id s] \<and>
    h1_events s' = h1_events s @
      [OnRequest (ucast (m_next_stream_id s)) (request_received p (concat us) (assembled frs))] @
      map (OnBody (ucast (m_next_stream_id s))) bs @
      body_events (ucast (m_next_stream_id s)) (f_chunked p \<or> (f_content_length p \<and> pi_content_length p > 0)) trs"
proof -
  let ?i = "ucast (m_next_stream_id s) :: u64"
  let ?has = "f_chunked p \<or> (f_content_length p \<and> pi_content_length p > 0)"
  let ?head = "CB_message_begin # map CB_url us @ header_calls frs @ [CB_headers_complete p]"
  obtain s1 st c where h: "feed s ?head = (s1, True)" "m_streams s1 = m_streams s @ [st]" "st_id st = m_next_stream_id s"
    "m_side s1 = Http1Server" "m_handler s1 = all_callbacks" "m_parser_context s1 = Some c" "pc_headers c = []"
    "flag_test HAS_BODY st = ?has"
    "h1_events s1 = h1_events s @ [OnRequest ?i (request_received p (concat us) (assembled frs))]"
    using server_head [OF assms(1-3) refl, of us p] by blast
  have a: "active_stream s1 = st" "sid st = ?i" using h by (simp_all add: active_stream_def sid_def)
  obtain s2 where r: "feed s1 (map CB_body bs @ header_calls trs) = (s2, True)" "m_streams s2 \<noteq> []"
    "m_side s2 = Http1Server" "m_handler s2 = all_callbacks" "map st_id (m_streams s2) = map st_id (m_streams s1)"
    "sid (active_stream s2) = ?i" "flag_test HAS_BODY (active_stream s2) = ?has"
    "m_parser_context s2 = Some (c\<lparr>pc_headers := assembled trs\<rparr>)"
    "h1_events s2 = h1_events s1 @ map (OnBody ?i) bs"
    using feed_rest [of s1 c trs bs] h a assms(4) by auto
  let ?s3 = "if ?has then finish_body s2 else s2"
  have "feed s2 [CB_message_complete] = (?s3, True)"
    using r by (simp add: on_message_complete_def Let_def)
  then have "feed s (?head @ (map CB_body bs @ header_calls trs) @ [CB_message_complete]) = (?s3, True)"
    using h(1) r(1) by (simp add: feed_append del: append_Cons append_assoc feed.simps(2))
  then have "feed s (CB_message_begin # map CB_url us @ header_calls frs @
           [CB_headers_complete p] @ map CB_body bs @ header_calls trs @ [CB_message_complete]) = (?s3, True)"
    by simp
  then have "input_impl llhttp_get_errno llhttp_reset llhttp_execute q s chunk = (Inr InputOk, q', ?s3)"
    by (rule input_script [where llhttp_get_errno = llhttp_get_errno and llhttp_execute = llhttp_execute, OF assms(5,6)])
  then show ?thesis using r h finish_body_events [OF r(4,8)]
    by (intro exI [of _ ?s3]) (auto simp: body_events_def)
qed

text \<open>A parser whose state is the script it will follow, for concrete sessions.\<close>

definition replay :: "parser_callback list \<Rightarrow> string \<Rightarrow> parser_callback list parser_run" where
  "replay cs chunk = script [] cs"

theorem server_receives_message_witness:
  "\<exists>s'. input_impl (\<lambda>q. HPE_OK) (\<lambda>q. q) replay
      [CB_message_begin, CB_url ''/a'', CB_url ''bc'', CB_header_field ''Ho'', CB_header_field ''st'', CB_header_value ''x'',
       CB_headers_complete \<lparr>http_major = 1, http_minor = 1, method_name = ''POST'', f_chunked = False, f_content_length = True,
         pi_content_length = 2, pi_upgrade = False, pi_status_code = 0\<rparr>, CB_body ''h'', CB_body ''i'', CB_message_complete]
      (h1_session_new Http1Server all_callbacks) [] = (Inr InputOk, [], s') \<and>
    map st_id (m_streams s') = [1] \<and>
    h1_events s' =
      [OnRequest 1 \<lparr>rq_version = 0x101, rq_method = ''POST'', rq_path = ''/abc'', rq_scheme = [], rq_authority = [],
         rq_headers = \<lparr>m_headers = [make_header ''Host'' ''x''], m_has_body = True\<rparr>\<rparr>,
       OnBody 1 ''h'', OnBody 1 ''i'', OnBodyFinished 1]"
  using server_receives_message [where s = "h1_session_new Http1Server all_callbacks" and frs = "[([''Ho'', ''st''], [''x''])]"
      and trs = "[]" and llhttp_get_errno = "\<lambda>q. HPE_OK" and llhttp_reset = "\<lambda>q. q" and llhttp_execute = replay
      and q = "[CB_message_begin, CB_url ''/a'', CB_url ''bc'', CB_header_field ''Ho'', CB_header_field ''st'', CB_header_value ''x'',
       CB_headers_complete \<lparr>http_major = 1, http_minor = 1, method_name = ''POST'', f_chunked = False, f_content_length = True,
         pi_content_length = 2, pi_upgrade = False, pi_status_code = 0\<rparr>, CB_body ''h'', CB_body ''i'', CB_message_complete]"
      and q' = "[]" and chunk = "[]" and us = "[''/a'', ''bc'']"
      and p = "\<lparr>http_major = 1, http_minor = 1, method_name = ''POST'', f_chunked = False, f_content_length = True,
         pi_content_length = 2, pi_upgrade = False, pi_status_code = 0\<rparr>" and bs = "[''h'', ''i'']"]
  by (simp add: h1_session_new_def replay_def fragments_ok_def header_calls_def assembled_def request_received_def body_events_def)

definition response_received :: "llhttp_info \<Rightarrow> string \<Rightarrow> (string \<times> string) list \<Rightarrow> response" where
  "response_received p status hs =
     \<lparr>rs_version = push_bit 8 (ucast (http_major p)) OR ucast (http_minor p), rs_status_code = pi_status_code p,
      rs_status_string = status,
      rs_headers = \<lparr>m_headers = map (\<lambda>(n, v). make_header n v) hs,
        m_has_body = ((pi_status_code p \<noteq> 100 \<and> pi_status_code p \<noteq> 103) \<and>
                 (f_chunked p \<or> \<not> f_content_length p \<or> pi_content_length p \<noteq> 0))\<rparr>\<rparr>"

lemma client_head:
  assumes "m_side s = Http1Client" "m_handler s = all_callbacks" "fragments_ok frs" "m_streams s = t # ts"
  shows "\<exists>s' st c. feed s (CB_message_begin # map CB_status us @ header_calls frs @ [CB_headers_complete p]) = (s', True) \<and>
    m_streams s' = st # ts \<and> st_id st = st_id t \<and> m_next_stream_id s' = m_next_stream_id s \<and>
    m_side s' = Http1Client \<and> m_handler s' = all_callbacks \<and> m_parser_context s' = Some c \<and> pc_headers c = [] \<and>
    flag_test HAS_BODY st = m_has_body (rs_headers (response_received p [] [])) \<and>
    flag_test INTERMEDIATE_RESPONSE st = (pi_status_code p < 200) \<and>
    h1_events s' = h1_events s @ [OnResponse (sid t) (response_received p (concat us) (assembled frs))]"
proof -
  let ?c = "parser_context_new"
  let ?s1 = "(on_active (\<lambda>st. flag_set INTERMEDIATE_RESPONSE False (flag_set HAS_BODY False st)) s)\<lparr>m_parser_context := Some ?c\<rparr>"
  let ?c2 = "?c\<lparr>pc_status_string := concat us\<rparr>"
  let ?s2 = "?s1\<lparr>m_parser_context := Some ?c2\<rparr>"
  let ?s3 = "with_headers ?s2 ?c2 (assembled frs)"
  have i: "in_message ?s1 ?c" "in_message ?s2 ?c2" by (simp_all add: in_message_def)
  have "feed ?s1 (map CB_status us) = (?s2, True)"
    using feed_statuses [OF i(1), of us] assms(1) by (simp add: parser_context_new_def)
  moreover have "feed ?s2 (header_calls frs) = (?s3, True)"
    using feed_header_calls [OF i(2), of frs] fragments_ok_join [OF assms(3)] by (simp add: parser_context_new_def)
  moreover have "parser_call s CB_message_begin = (?s1, 0)" using assms(1,4) by (simp add: on_message_begin_def)
  ultimately have "feed s (CB_message_begin # map CB_status us @ header_calls frs @ [CB_headers_complete p]) =
    feed ?s3 [CB_headers_complete p]" by (simp add: feed_append del: feed.simps(2)) (simp add: feed_append)
  then show ?thesis
    using assms by (simp add: on_headers_complete_def make_version_total headers_complete_response_def Let_def
        raise_event_def all_callbacks_def put_all_headers headers_set_has_body_def response_received_def make_response_def
        response_set_status_code_def on_active_def active_stream_def sid_def)
qed

text \<open>Also: the callbacks of one response message make a client session report, for its oldest stream, the
  response with exactly the header fields that were sent, the body chunks in order, the trailers and the end of
  the body; a final response finishes that stream and removes it, an intermediate one (1xx) keeps it.\<close>

theorem client_receives_message:
  assumes "m_side s = Http1Client" "m_handler s = all_callbacks" "fragments_ok frs" "fragments_ok trs"
    and "m_streams s = t # ts" and "llhttp_get_errno q = HPE_OK"
    and "llhttp_execute q chunk = script q' (CB_message_begin # map CB_status us @ header_calls frs @
           [CB_headers_complete p] @ map CB_body bs @ header_calls trs @ [CB_message_complete])"
  shows "\<exists>s'. input_impl llhttp_get_errno llhttp_reset llhttp_execute q s chunk = (Inr InputOk, q', s') \<and>
    map st_id (m_streams s') = (if pi_status_code p < 200 then [st_id t] else []) @ map st_id ts \<and>
    h1_events s' = h1_events s @ [OnResponse (sid t) (response_received p (concat us) (assembled frs))] @
      map (OnBody (sid t)) bs @ body_events (sid t) (m_has_body (rs_headers (response_received p [] []))) trs @
      (if pi_status_code p < 200 then [] else [OnStreamFinished (sid t) 0])"
proof -
  let ?has = "m_has_body (rs_headers (response_received p [] []))"
  let ?head = "CB_message_begin # map CB_status us @ header_calls frs @ [CB_headers_complete p]"
  obtain s1 st c where h: "feed s ?head = (s1, True)" "m_streams s1 = st # ts" "st_id st = st_id t"
    "m_side s1 = Http1Client" "m_handler s1 = all_callbacks" "m_parser_context s1 = Some c" "pc_headers c = []"
    "flag_test HAS_BODY st = ?has" "flag_test INTERMEDIATE_RESPONSE st = (pi_status_code p < 200)"
    "h1_events s1 = h1_events s @ [OnResponse (sid t) (response_received p (concat us) (assembled frs))]"
    using client_head [OF assms(1-3) assms(5), of us p] by blast
  have a: "active_stream s1 = st" "sid st = sid t" using h by (simp_all add: active_stream_def sid_def)
  obtain s2 where r: "feed s1 (map CB_body bs @ header_calls trs) = (s2, True)" "m_streams s2 \<noteq> []"
    "m_side s2 = Http1Client" "m_handler s2 = all_callbacks" "map st_id (m_streams s2) = map st_id (m_streams s1)"
    "sid (active_stream s2) = sid t" "flag_test HAS_BODY (active_stream s2) = ?has"
    "flag_test INTERMEDIATE_RESPONSE (active_stream s2) = (pi_status_code p < 200)"
    "m_parser_context s2 = Some (c\<lparr>pc_headers := assembled trs\<rparr>)"
    "h1_events s2 = h1_events s1 @ map (OnBody (sid t)) bs"
    using feed_rest [of s1 c trs bs] h a assms(4) by auto
  let ?s3 = "if ?has then finish_body s2 else s2"
  let ?s4 = "if pi_status_code p < 200 then ?s3
    else (pop_front (raise_event has_on_stream_finished (OnStreamFinished (sid t) 0) ?s3))\<lparr>m_parser_context := None\<rparr>"
  have "feed s2 [CB_message_complete] = (?s4, True)"
    using r by (simp add: on_message_complete_def Let_def)
  then have "feed s (?head @ (map CB_body bs @ header_calls trs) @ [CB_message_complete]) = (?s4, True)"
    using h(1) r(1) by (simp add: feed_append del: append_Cons append_assoc feed.simps(2))
  then have "feed s (CB_message_begin # map CB_status us @ header_calls frs @
           [CB_headers_complete p] @ map CB_body bs @ header_calls trs @ [CB_message_complete]) = (?s4, True)"
    by simp
  then have "input_impl llhttp_get_errno llhttp_reset llhttp_execute q s chunk = (Inr InputOk, q', ?s4)"
    by (rule input_script [where llhttp_get_errno = llhttp_get_errno and llhttp_execute = llhttp_execute, OF assms(6,7)])
  moreover have "map st_id (tl (m_streams s2)) = map st_id ts" using r(5) h(2) by (metis list.sel(3) map_tl)
  ultimately show ?thesis using r h finish_body_events [OF r(4,9)]
    by (intro exI [of _ ?s4]) (auto simp: body_events_def raise_event_def all_callbacks_def pop_front_def)
qed

theorem client_receives_message_witness:
  "\<exists>s'. input_impl (\<lambda>q. HPE_OK) (\<lambda>q. q) replay
      [CB_message_begin, CB_status ''O'', CB_status ''K'', CB_header_field ''A'', CB_header_value ''x'', CB_header_value ''y'',
       CB_headers_complete \<lparr>http_major = 1, http_minor = 1, method_name = [], f_chunked = True, f_content_length = False,
         pi_content_length = 0, pi_upgrade = False, pi_status_code = 200\<rparr>, CB_body ''hi'',
       CB_header_field ''T'', CB_header_value ''z'', CB_message_complete]
      (snd (send_request (h1_session_new Http1Client all_callbacks) (make_request HTTP_1_1 ''GET'' ''/''))) [] = (Inr InputOk, [], s') \<and>
    m_streams s' = [] \<and>
    h1_events s' = [OnOutput (request_str (make_request HTTP_1_1 ''GET'' ''/'')),
      OnResponse 1 \<lparr>rs_version = 0x101, rs_status_code = 200, rs_status_string = ''OK'',
         rs_headers = \<lparr>m_headers = [make_header ''A'' ''xy''], m_has_body = True\<rparr>\<rparr>,
       OnBody 1 ''hi'', OnTrailerHeaders 1 \<lparr>m_headers = [make_header ''T'' ''z''], m_has_body = False\<rparr>,
       OnBodyFinished 1, OnStreamFinished 1 0]"
proof -
  let ?s = "snd (send_request (h1_session_new Http1Client all_callbacks) (make_request HTTP_1_1 ''GET'' ''/''))"
  let ?t = "\<lparr>st_id = 1, st_flags = {REQ_SENT}, st_content_length = ContentLengthUnset\<rparr>"
  have g: "headers_get headers_empty n = None" for n
    by (simp add: headers_get_def headers_empty_def)
  have s: "m_streams ?s = [?t]" "m_side ?s = Http1Client" "m_handler ?s = all_callbacks"
    "h1_events ?s = [OnOutput (request_str (make_request HTTP_1_1 ''GET'' ''/''))]"
    by (simp_all add: send_request_def h1_session_new_def make_request_def g headers_gets_def Let_def iequals_def
        h1_output_def raise_event_def all_callbacks_def on_back_def h1_stream_make_def flag_set_def)
  show ?thesis
    using client_receives_message [where s = ?s and t = ?t and ts = "[]" and frs = "[([''A''], [''x'', ''y''])]"
      and trs = "[([''T''], [''z''])]" and llhttp_get_errno = "\<lambda>q. HPE_OK" and llhttp_reset = "\<lambda>q. q" and llhttp_execute = replay
      and q = "[CB_message_begin, CB_status ''O'', CB_status ''K'', CB_header_field ''A'', CB_header_value ''x'', CB_header_value ''y'',
       CB_headers_complete \<lparr>http_major = 1, http_minor = 1, method_name = [], f_chunked = True, f_content_length = False,
         pi_content_length = 0, pi_upgrade = False, pi_status_code = 200\<rparr>, CB_body ''hi'',
       CB_header_field ''T'', CB_header_value ''z'', CB_message_complete]"
      and q' = "[]" and chunk = "[]" and us = "[''O'', ''K'']"
      and p = "\<lparr>http_major = 1, http_minor = 1, method_name = [], f_chunked = True, f_content_length = False,
         pi_content_length = 0, pi_upgrade = False, pi_status_code = 200\<rparr>" and bs = "[''hi'']"] s
    by (simp add: replay_def fragments_ok_def header_calls_def assembled_def response_received_def body_events_def sid_def
        put_all_headers)
qed

text \<open>Also: a header field with an empty value is merged with the field after it: the two names are joined and the
  second value is kept, so the session reports a field that was never sent.\<close>

theorem empty_header_value_merges:
  assumes "m_streams s \<noteq> []" "m_parser_context s = Some c" "pc_headers c = []"
  shows "feed s [CB_header_field n, CB_header_value [], CB_header_field n', CB_header_value v] =
    (s\<lparr>m_parser_context := Some (c\<lparr>pc_headers := [(n @ n', v)]\<rparr>)\<rparr>, True)"
  using feed_header_calls [of s c "[([n], [[]]), ([n'], [v])]"] assms
  by (simp add: in_message_def header_calls_def assembled_def join_header_def)

theorem empty_header_value_merges_witness:
  "case on_message_begin (h1_session_new Http1Server all_callbacks) of (s, r) \<Rightarrow>
     map_option pc_headers (m_parser_context (fst (feed s
       [CB_header_field ''X-Empty'', CB_header_value [], CB_header_field ''Host'', CB_header_value ''a'']))) =
     Some [(''X-EmptyHost'', ''a'')]"
proof -
  let ?s = "fst (on_message_begin (h1_session_new Http1Server all_callbacks))"
  show ?thesis
    using empty_header_value_merges [of ?s parser_context_new "''X-Empty''" "''Host''" "''a''"]
    by (simp add: on_message_begin_def h1_session_new_def parser_context_new_def)
qed

end
