(* ===== verification/Http1Sending.thy ===== *)
theory Http1Sending
  imports Http1
begin

text \<open>
  Sending on the HTTP/1 session: the chunked coding against a reference reader, the framing of responses and
  trailers, and the invariant of the stream identifiers over every sequence of calls.
\<close>

section \<open>Chunked bodies\<close>

text \<open>A reference reader of the chunked coding: sizes in hexadecimal, the last chunk, trailers.\<close>

function decode_chunked :: "string \<Rightarrow> (string \<times> header list \<times> string) option" where
  "decode_chunked s =
     (case cut_line s of
        None \<Rightarrow> None
      | Some (l, r) \<Rightarrow>
          (case to_integer max_u64 l 16 of
             None \<Rightarrow> None
           | Some n \<Rightarrow>
               (if n = 0 then map_option (\<lambda>(hs, t). ([], hs, t)) (read_fields r)
                else if n + 2 \<le> length r \<and> take 2 (drop n r) = crlf
                then map_option (\<lambda>(b, u). (take n r @ b, u)) (decode_chunked (drop (n + 2) r))
                else None)))"
  by pat_completeness auto
termination by (relation "measure length") (auto dest: cut_line_shorter)

declare decode_chunked.simps [simp del]

abbreviation chunk_size :: "string \<Rightarrow> string" where
  "chunk_size c \<equiv> fmt_uint True 16 (length c)"

lemma no_break_hex: "no_break (fmt_uint True 16 n)"
  using fmt_uint_digits [of 16 True n]
  by (auto simp: no_break_def is_base_digit_def digit_val_def Let_def)

lemma decode_chunk:
  assumes "c \<noteq> []" "length c \<le> max_u64"
  shows "decode_chunked (chunk_size c @ crlf @ c @ crlf @ r) = map_option (\<lambda>(b, u). (c @ b, u)) (decode_chunked r)"
  using assms to_integer_fmt [of 16 max_u64 True "length c"] cut_line_append [OF no_break_hex [of "length c"], of "c @ crlf @ r"]
  by (subst decode_chunked.simps) simp

lemma decode_last: "decode_chunked (''0'' @ crlf @ r) = map_option (\<lambda>(hs, t). ([], hs, t)) (read_fields r)"
proof -
  have "fmt_uint True 16 0 = ''0''" by code_simp
  then show ?thesis
    using to_integer_fmt [of 16 max_u64 True 0] cut_line_append [OF no_break_hex [of 0], of r]
    by (subst decode_chunked.simps) simp
qed

text \<open>What has been handed to \<^verbatim>\<open>on_output\<close> so far.\<close>

definition written :: "h1_session \<Rightarrow> string" where
  "written s = concat (map (\<lambda>e. case e of OnOutput d \<Rightarrow> d | _ \<Rightarrow> []) (h1_events s))"

lemma h1_output_simps [simp]:
  "m_side (h1_output d s) = m_side s" "m_handler (h1_output d s) = m_handler s"
  "m_streams (h1_output d s) = m_streams s" "active_stream (h1_output d s) = active_stream s"
  "m_next_stream_id (h1_output d s) = m_next_stream_id s" "m_parser_context (h1_output d s) = m_parser_context s"
  "has_on_output (m_handler s) \<Longrightarrow> written (h1_output d s) = written s @ d"
  by (auto simp: h1_output_def raise_event_def written_def)

lemma written_simps [simp]:
  "written (on_active f s) = written s" "written (s\<lparr>m_streams := x\<rparr>) = written s"
  "written (stream_finished i s) = written s" "written (pop_front s) = written s"
  by (auto simp: written_def stream_finished_def raise_event_def pop_front_def)

lemma end_of_message_simps [simp]: "written (end_of_message i s) = written s"
  by (simp add: end_of_message_def)

text \<open>One chunk on a chunked stream.\<close>

definition chunked_at :: "h1_session \<Rightarrow> u64 \<Rightarrow> bool" where
  "chunked_at s i \<longleftrightarrow> m_streams s \<noteq> [] \<and> sid (active_stream s) = i \<and>
     st_content_length (active_stream s) = ContentLengthChunked \<and> has_on_output (m_handler s)"

abbreviation sent_chunk :: "string \<Rightarrow> h1_session \<Rightarrow> h1_session" where
  "sent_chunk c s \<equiv> h1_output (chunk_size c @ crlf) (on_active (flag_set ZERO_CHUNK_SENT (c = [])) s)"

lemma chunked_at_sent: "chunked_at s i \<Longrightarrow> chunked_at (sent_chunk c s) i"
  by (simp add: chunked_at_def active_on_active)

lemma chunked_at_output: "chunked_at s i \<Longrightarrow> chunked_at (h1_output d s) i"
  by (simp add: chunked_at_def)

lemma send_empty_chunk:
  "chunked_at s i \<Longrightarrow> send_body_impl s i [] eof =
     (None, if eof then end_of_message i (h1_output crlf (sent_chunk [] s)) else sent_chunk [] s)"
  by (subst send_body_impl.simps) (auto simp: chunked_at_def Let_def)

lemma send_one_chunk:
  "chunked_at s i \<Longrightarrow> c \<noteq> [] \<Longrightarrow>
   send_body_impl s i c False = (None, h1_output crlf (h1_output c (sent_chunk c s)))"
  by (subst send_body_impl.simps) (auto simp: chunked_at_def Let_def)

lemma send_last_chunk:
  assumes "chunked_at s i" "c \<noteq> []"
  shows "send_body_impl s i c True =
    (None, end_of_message i (h1_output crlf (sent_chunk [] (h1_output crlf (h1_output c (sent_chunk c s))))))"
proof -
  have "chunked_at (h1_output crlf (h1_output c (sent_chunk c s))) i"
    using assms chunked_at_sent chunked_at_output by blast
  from send_empty_chunk [OF this, of False] show ?thesis
    using assms by (subst send_body_impl.simps) (auto simp: chunked_at_def Let_def)
qed

fun send_chunks :: "h1_session \<Rightarrow> u64 \<Rightarrow> string list \<Rightarrow> h1_session" where
  "send_chunks s i [] = s"
| "send_chunks s i (c # cs) = send_chunks (snd (send_body_impl s i c False)) i cs"

abbreviation ids :: "h1_session \<Rightarrow> u32 list" where
  "ids s \<equiv> map st_id (m_streams s)"

abbreviation one_chunk :: "string \<Rightarrow> string" where
  "one_chunk c \<equiv> chunk_size c @ crlf @ c @ crlf"

lemma sent_chunk_ids: "chunked_at s i \<Longrightarrow> ids (sent_chunk c s) = ids s"
  by (simp add: chunked_at_def on_active_ids)

lemma sent_chunk_written: "chunked_at s i \<Longrightarrow> written (sent_chunk c s) = written s @ chunk_size c @ crlf"
  by (simp add: chunked_at_def)

lemma send_chunks_written:
  "chunked_at s i \<Longrightarrow> list_all (\<lambda>c. c \<noteq> []) cs \<Longrightarrow>
   chunked_at (send_chunks s i cs) i \<and> written (send_chunks s i cs) = written s @ concat (map one_chunk cs) \<and>
   m_side (send_chunks s i cs) = m_side s \<and> ids (send_chunks s i cs) = ids s"
proof (induction cs arbitrary: s)
  case (Cons c cs)
  let ?s = "h1_output crlf (h1_output c (sent_chunk c s))"
  have "chunked_at ?s i" using Cons.prems chunked_at_sent chunked_at_output by blast
  moreover have "send_chunks s i (c # cs) = send_chunks ?s i cs" using Cons.prems send_one_chunk [of s i c] by simp
  moreover have "written ?s = written s @ one_chunk c"
    using Cons.prems sent_chunk_written [OF Cons.prems(1), of c] by (simp add: chunked_at_def)
  moreover have "ids ?s = ids s" "m_side ?s = m_side s" using sent_chunk_ids [OF Cons.prems(1), of c] by simp_all
  ultimately show ?case using Cons.IH [of ?s] Cons.prems(2) by simp
qed simp

lemma decode_chunks:
  "list_all (\<lambda>c. c \<noteq> [] \<and> length c \<le> max_u64) cs \<Longrightarrow>
   decode_chunked (concat (map one_chunk cs) @ r) = map_option (\<lambda>(b, u). (concat cs @ b, u)) (decode_chunked r)"
proof (induction cs)
  case Nil
  then show ?case by (cases "decode_chunked r") auto
next
  case (Cons c cs)
  then show ?case using decode_chunk [of c "concat (map one_chunk cs) @ r"]
    by (cases "decode_chunked r") auto
qed

lemma chunk_size_nil: "fmt_uint True 16 0 = ''0''"
  by code_simp

lemma end_of_message_ids:
  "m_streams s \<noteq> [] \<Longrightarrow> ids (end_of_message i s) = (if m_side s = Http1Server then tl (ids s) else ids s)"
  by (auto simp: end_of_message_def stream_finished_def raise_event_def pop_front_def map_tl on_active_ids)

text \<open>The end of a chunked body, with or without data in it.\<close>

lemma send_final_chunk:
  assumes "chunked_at s i"
  shows "\<exists>s'. send_body_impl s i c True = (None, s') \<and>
    written s' = written s @ concat (map one_chunk (if c = [] then [] else [c])) @ ''0'' @ crlf @ crlf \<and>
    ids s' = (if m_side s = Http1Server then tl (ids s) else ids s) \<and>
    (m_side s = Http1Client \<longrightarrow> flag_test REQ_SENT (active_stream s'))"
proof -
  define t where "t = (if c = [] then s else h1_output crlf (h1_output c (sent_chunk c s)))"
  define u where "u = h1_output crlf (sent_chunk [] t)"
  have t: "chunked_at t i" "m_side t = m_side s" "ids t = ids s"
    "written t = written s @ concat (map one_chunk (if c = [] then [] else [c]))"
    using assms sent_chunk_ids [OF assms, of c] sent_chunk_written [OF assms, of c]
    by (auto simp: t_def chunked_at_def active_on_active)
  have u: "written u = written t @ ''0'' @ crlf @ crlf" "ids u = ids t" "m_side u = m_side t" "m_streams u \<noteq> []"
    using sent_chunk_written [OF t(1), of "[]"] sent_chunk_ids [OF t(1), of "[]"] t(1)
    by (auto simp: u_def chunk_size_nil chunked_at_def)
  have "send_body_impl s i c True = (None, end_of_message i u)"
    using send_empty_chunk [OF assms, of True] send_last_chunk [OF assms, of c] by (simp add: t_def u_def)
  moreover have "flag_test REQ_SENT (active_stream (end_of_message i u))" if "m_side s = Http1Client"
    using that u t active_on_active [OF u(4)] by (simp add: end_of_message_def)
  ultimately show ?thesis using t u end_of_message_ids [OF u(4), of i] by simp
qed

text \<open>C4: the pieces of a body sent on a chunked stream, each of them but the last non-empty, are written in a form that
  the reader of the chunked coding takes back to the same body, whatever is sent after it.  On a server the
  oldest stream is then closed, on a client the request is marked as sent.\<close>

theorem chunked_body_roundtrip:
  assumes "chunked_at s i" "list_all (\<lambda>c. c \<noteq> []) cs" "list_all (\<lambda>c. length c \<le> max_u64) (d # cs)"
  shows "\<exists>s' sent. send_body_impl (send_chunks s i cs) i d True = (None, s') \<and> written s' = written s @ sent \<and>
    decode_chunked (sent @ after) = Some (concat cs @ d, [], after) \<and>
    (if m_side s = Http1Server then ids s' = tl (ids s)
     else ids s' = ids s \<and> flag_test REQ_SENT (active_stream s'))"
proof -
  let ?ds = "cs @ (if d = [] then [] else [d])"
  let ?sent = "concat (map one_chunk ?ds) @ ''0'' @ crlf @ crlf"
  note w = send_chunks_written [OF assms(1,2)]
  obtain s' where s': "send_body_impl (send_chunks s i cs) i d True = (None, s')"
    "written s' = written s @ ?sent" "ids s' = (if m_side s = Http1Server then tl (ids s) else ids s)"
    "m_side s = Http1Client \<longrightarrow> flag_test REQ_SENT (active_stream s')"
    using send_final_chunk [of "send_chunks s i cs" i d] w by auto
  have "list_all (\<lambda>c. c \<noteq> [] \<and> length c \<le> max_u64) ?ds" using assms(2,3) by (auto simp: list_all_iff)
  then have "decode_chunked (?sent @ after) = Some (concat cs @ d, [], after)"
    using decode_chunks [of ?ds "''0'' @ crlf @ crlf @ after"] decode_last [of "crlf @ after"] read_fields_end [of after]
    by auto
  then show ?thesis using s' by (intro exI [of _ s'] exI [of _ ?sent]) (cases "m_side s"; simp)
qed

definition chunked_server :: h1_session where
  "chunked_server = (h1_session_new Http1Server all_callbacks)\<lparr>m_streams :=
     [\<lparr>st_id = 1, st_flags = {}, st_content_length = ContentLengthChunked\<rparr>]\<rparr>"

theorem chunked_body_roundtrip_witness:
  "\<exists>s' sent. send_body_impl (send_chunks chunked_server 1 [''ab'', ''c'']) 1 ''d'' True = (None, s') \<and>
     written s' = sent \<and> decode_chunked (sent @ ''X'') = Some (''abcd'', [], ''X'') \<and> ids s' = []"
  using chunked_body_roundtrip [of chunked_server 1 "[''ab'', ''c'']" "''d''" "''X''"]
  by (simp add: chunked_server_def chunked_at_def h1_session_new_def all_callbacks_def active_stream_def sid_def
      max_u64_def written_def)

section \<open>Framing of responses and trailers\<close>

lemma on_front_simps [simp]:
  "m_side (on_front f s) = m_side s" "m_handler (on_front f s) = m_handler s"
  "h1_events (on_front f s) = h1_events s" "m_next_stream_id (on_front f s) = m_next_stream_id s"
  "written (on_front f s) = written s"
  by (simp_all add: on_front_def written_def)

lemma stream_finished_simps [simp]:
  "m_side (stream_finished i s) = m_side s" "m_streams (stream_finished i s) = m_streams s"
  "m_handler (stream_finished i s) = m_handler s" "m_next_stream_id (stream_finished i s) = m_next_stream_id s"
  by (auto simp: stream_finished_def raise_event_def)

lemma sid_inj [simp]: "sid a = sid b \<longleftrightarrow> st_id a = st_id b"
proof
  assume "sid a = sid b"
  then have "(ucast (sid a) :: u32) = ucast (sid b)" by simp
  then show "st_id a = st_id b" by (simp add: sid_def ucast_up_ucast_id is_up)
qed (simp add: sid_def)

lemma send_body_empty: "m_streams s = [] \<Longrightarrow> send_body_impl s i c eof = (Some NoActiveStreams, s)"
  by (subst send_body_impl.simps) simp

lemma send_body_plain:
  assumes "m_streams s \<noteq> []" "sid (active_stream s) = i" "st_content_length (active_stream s) = ContentLength n"
  shows "\<exists>s'. send_body_impl s i c eof = (None, s') \<and>
    ids s' = (if n \<le> length c \<and> m_side s = Http1Server then tl (ids s) else ids s)"
proof -
  let ?t = "if c \<noteq> [] then h1_output c s else s"
  let ?u = "on_active (\<lambda>st. st\<lparr>st_content_length := ContentLength (n - length c)\<rparr>) ?t"
  have "send_plain s c eof = (?u, n \<le> length c)"
    using assms by (auto simp: send_plain_def Let_def)
  then have "send_body_impl s i c eof = (None, if n \<le> length c then end_of_message i ?u else ?u)"
    using assms by (subst send_body_impl.simps) auto
  moreover have "ids ?u = ids s" "m_streams ?u \<noteq> []" "m_side ?u = m_side s"
    using assms(1) on_active_ids [of "\<lambda>st. st\<lparr>st_content_length := ContentLength (n - length c)\<rparr>" ?t] by auto
  ultimately show ?thesis using end_of_message_ids [of ?u i] by auto
qed

text \<open>Also: the length a server announces is not the length it counts.  After an ordinary response that is not
  chunked, either the Content-Length is missing or unreadable, and then the stream is closed at once and its body is
  refused, or it is any number, and then the first non-empty piece of the body closes the stream, however long
  the body was announced to be and whether or not the piece was the last; an empty last piece does not close it.\<close>

theorem send_response_length:
  assumes "m_side s = Http1Server" "m_handler s = all_callbacks" "m_streams s = [st]"
    and "\<not> flag_test HEAD_REQUEST st" "\<not> flag_test UPGRADE_REQUEST st" "rs_status_code rs = 200"
    and "\<not> iequals (headers_gets (rs_headers rs) ''Transfer-Encoding'') ''chunked''"
  shows "fst (send_response s (sid st) rs) = None \<and>
    (if to_integer max_u64 (headers_gets (rs_headers rs) ''Content-Length'') 10 = None
     then ids (snd (send_response s (sid st) rs)) = [] \<and>
          fst (send_body_impl (snd (send_response s (sid st) rs)) (sid st) c eof) = Some NoActiveStreams
     else ids (snd (send_response s (sid st) rs)) = [st_id st] \<and>
          fst (send_body_impl (snd (send_response s (sid st) rs)) (sid st) c eof) = None \<and>
          ids (snd (send_body_impl (snd (send_response s (sid st) rs)) (sid st) c eof)) =
            (if c = [] then [st_id st] else []))"
proof -
  let ?n = "parsed_flag (headers_gets (rs_headers rs) ''Content-Length'')"
  let ?st = "st\<lparr>st_content_length := ContentLength ?n\<rparr>"
  let ?s1 = "on_front (\<lambda>st. st\<lparr>st_content_length := ContentLength ?n\<rparr>) s"
  let ?s2 = "h1_output (response_str rs) ?s1"
  have m: "m_streams ?s2 = [?st]" "m_side ?s2 = Http1Server" using assms by (simp_all add: on_front_def)
  have f: "flag_test g ?st = flag_test g st" for g by (simp add: flag_test_def)
  have "(200 :: int) sdiv 100 = 2" by code_simp
  then have r: "send_response s (sid st) rs = (None, if ?n = 0 then stream_finished (sid st) (pop_front ?s2) else ?s2)"
    using assms m f by (simp add: send_response_def Let_def)
  show ?thesis
  proof (cases "to_integer max_u64 (headers_gets (rs_headers rs) ''Content-Length'') 10")
    case None
    then have "?n = 0" by (simp add: parsed_flag_def)
    then show ?thesis using None r m by (simp add: pop_front_def send_body_empty)
  next
    case (Some v)
    then have n: "?n = 1" by (simp add: parsed_flag_def)
    have "sid (active_stream ?s2) = sid st" "st_content_length (active_stream ?s2) = ContentLength 1"
      using m n by (simp_all add: active_stream_def sid_def)
    then obtain s' where "send_body_impl ?s2 (sid st) c eof = (None, s')"
      "ids s' = (if 1 \<le> length c \<and> m_side ?s2 = Http1Server then tl (ids ?s2) else ids ?s2)"
      using send_body_plain [of ?s2 "sid st" 1 c eof] m by auto
    then show ?thesis using Some r n m by (cases c) auto
  qed
qed

theorem send_response_length_witness:
  "fst (send_body_impl (snd (send_response (chunked_server) 1
      \<lparr>rs_version = HTTP_1_1, rs_status_code = 200, rs_status_string = ''OK'',
       rs_headers = \<lparr>m_headers = [make_header ''Content-Length'' ''4''], m_has_body = True\<rparr>\<rparr>)) 1 ''ab'' False) = None \<and>
   ids (snd (send_body_impl (snd (send_response (chunked_server) 1
      \<lparr>rs_version = HTTP_1_1, rs_status_code = 200, rs_status_string = ''OK'',
       rs_headers = \<lparr>m_headers = [make_header ''Content-Length'' ''4''], m_has_body = True\<rparr>\<rparr>)) 1 ''ab'' False)) = []"
proof -
  let ?rs = "\<lparr>rs_version = HTTP_1_1, rs_status_code = 200, rs_status_string = ''OK'',
       rs_headers = \<lparr>m_headers = [make_header ''Content-Length'' ''4''], m_has_body = True\<rparr>\<rparr>"
  let ?st = "\<lparr>st_id = 1, st_flags = {}, st_content_length = ContentLengthChunked\<rparr>"
  have "headers_gets (rs_headers ?rs) ''Content-Length'' = ''4''" "headers_gets (rs_headers ?rs) ''Transfer-Encoding'' = []"
    "iequals [] ''chunked'' = False" "''4'' = fmt_uint False 10 4"
    by code_simp+
  moreover have "to_integer max_u64 (fmt_uint False 10 4) 10 = Some 4"
    using to_integer_fmt [of 10 max_u64 False 4] by (simp add: max_u64_def)
  ultimately show ?thesis
    using send_response_length [of chunked_server ?st ?rs "''ab''" False]
    by (simp add: chunked_server_def h1_session_new_def flag_test_def sid_def)
qed

text \<open>Also: with two or more requests pipelined on a server, the body of the oldest response is refused, because
  bodies are checked against the newest stream; and ending the body of the newest removes the oldest
  stream while reporting the newest as finished.\<close>

theorem server_pipelining:
  assumes "m_side s = Http1Server" "m_handler s = all_callbacks" "m_streams s = a # mid @ [b]"
    and "st_id a \<noteq> st_id b" "st_content_length b = ContentLengthChunked"
  shows "send_body_impl s (sid a) c eof = (Some (InvalidStreamId (sid a) (st_id b)), s) \<and>
    ids (snd (send_body_impl s (sid b) [] True)) = map st_id mid @ [st_id b] \<and>
    last (h1_events (snd (send_body_impl s (sid b) [] True))) = OnStreamFinished (sid b) 0"
proof (intro conjI)
  have a: "active_stream s = b" using assms by (simp add: active_stream_def)
  show "send_body_impl s (sid a) c eof = (Some (InvalidStreamId (sid a) (st_id b)), s)"
    using a assms(3,4) by (subst send_body_impl.simps) simp
  have ch: "chunked_at s (sid b)" using assms a by (simp add: chunked_at_def all_callbacks_def)
  then show "ids (snd (send_body_impl s (sid b) [] True)) = map st_id mid @ [st_id b]"
    using send_final_chunk [OF ch, of "[]"] assms(1,3) by auto
  show "last (h1_events (snd (send_body_impl s (sid b) [] True))) = OnStreamFinished (sid b) 0"
    using send_empty_chunk [OF ch, of True] assms(1,2)
    by (simp add: end_of_message_def stream_finished_def raise_event_def pop_front_def all_callbacks_def h1_output_def)
qed

definition pipelined_server :: h1_session where
  "pipelined_server = (h1_session_new Http1Server all_callbacks)\<lparr>m_streams :=
     [\<lparr>st_id = 1, st_flags = {}, st_content_length = ContentLengthChunked\<rparr>,
      \<lparr>st_id = 2, st_flags = {}, st_content_length = ContentLengthChunked\<rparr>]\<rparr>"

theorem server_pipelining_witness:
  "send_body_impl pipelined_server 1 ''x'' False = (Some (InvalidStreamId 1 2), pipelined_server) \<and>
   ids (snd (send_body_impl pipelined_server 2 [] True)) = [2] \<and>
   last (h1_events (snd (send_body_impl pipelined_server 2 [] True))) = OnStreamFinished 2 0"
  using server_pipelining [of pipelined_server "\<lparr>st_id = 1, st_flags = {}, st_content_length = ContentLengthChunked\<rparr>" "[]"
      "\<lparr>st_id = 2, st_flags = {}, st_content_length = ContentLengthChunked\<rparr>" "''x''" False]
  by (simp add: pipelined_server_def h1_session_new_def sid_def)

text \<open>Also: trailers are written after the end of the chunked body: on a stream whose last chunk was not sent, the session
  writes the last chunk and the empty line that closes the message first, so a reader of the chunked coding
  finds no trailers and takes their text for the start of the next message.  The stream is closed on
  either side, so a client has no stream left for the response.\<close>

theorem send_trailer_misplaced:
  assumes "chunked_at s (sid st)" "m_streams s = [st]" "\<not> flag_test ZERO_CHUNK_SENT st"
  shows "\<exists>s' sent. send_trailer_impl s (st_id st) hs True = Some (None, s') \<and> m_streams s' = [] \<and>
    written s' = written s @ sent \<and> decode_chunked sent = Some ([], [], headers_str hs @ crlf)"
proof -
  let ?s1 = "on_front (flag_set ZERO_CHUNK_SENT True) s"
  have m: "m_streams ?s1 = [flag_set ZERO_CHUNK_SENT True st]" using assms by (simp add: on_front_def)
  have c: "chunked_at ?s1 (sid st)" using assms m by (auto simp: chunked_at_def active_stream_def split: if_splits)
  let ?s2 = "sent_chunk [] ?s1"
  have b: "send_body_impl ?s1 (ucast (st_id st)) [] False = (None, ?s2)"
    using send_empty_chunk [OF c, of False] by (simp add: sid_def)
  let ?s4 = "h1_output crlf (h1_output (headers_str hs) (h1_output crlf ?s2))"
  have h: "has_on_output (m_handler s)" using assms(1) by (simp add: chunked_at_def)
  have m2: "ids ?s2 = [st_id st]" using sent_chunk_ids [OF c, of "[]"] m by simp
  then have "m_streams ?s4 \<noteq> []" by auto
  then have t: "send_trailer_impl s (st_id st) hs True = Some (None, stream_finished (ucast (st_id st)) (pop_front ?s4))"
    using b h assms(2,3) by (simp add: send_trailer_impl_def Let_def)
  have "length (m_streams ?s2) = 1" using m2 by (metis length_map list.size(3,4) One_nat_def plus_nat.add_0 add.commute length_Cons)
  then have p: "m_streams (pop_front ?s4) = []" by (auto simp: pop_front_def length_Suc_conv)
  have w: "written ?s4 = written s @ ''0'' @ crlf @ crlf @ headers_str hs @ crlf"
    using sent_chunk_written [OF c, of "[]"] h by (simp add: chunk_size_nil)
  have "decode_chunked (''0'' @ crlf @ crlf @ headers_str hs @ crlf) = Some ([], [], headers_str hs @ crlf)"
    using decode_last [of "crlf @ headers_str hs @ crlf"] read_fields_end [of "headers_str hs @ crlf"] by simp
  then show ?thesis using t p w
    by (intro exI [of _ "stream_finished (ucast (st_id st)) (pop_front ?s4)"]
        exI [of _ "''0'' @ crlf @ crlf @ headers_str hs @ crlf"]) simp
qed

theorem send_trailer_misplaced_witness:
  "\<exists>s' sent. send_trailer_impl chunked_server 1 (headers_put headers_empty ''T'' ''v'') True = Some (None, s') \<and>
     m_streams s' = [] \<and> written s' = sent \<and>
     decode_chunked sent = Some ([], [], headers_str (headers_put headers_empty ''T'' ''v'') @ crlf)"
  using send_trailer_misplaced [of chunked_server "\<lparr>st_id = 1, st_flags = {}, st_content_length = ContentLengthChunked\<rparr>"
      "headers_put headers_empty ''T'' ''v''"]
  by (simp add: chunked_server_def h1_session_new_def chunked_at_def all_callbacks_def active_stream_def sid_def flag_test_def
      written_def)

section \<open>Stream identifiers\<close>

text \<open>The sessions that can arise from any calls of the parser and of the user.\<close>

inductive h1_reachable :: "side \<Rightarrow> h1_session \<Rightarrow> bool" where
  start: "h1_reachable d (h1_session_new d all_callbacks)"
| callback: "h1_reachable d s \<Longrightarrow> h1_reachable d (fst (parser_call s c))"
| reset: "h1_reachable d s \<Longrightarrow> h1_reachable d (s\<lparr>m_parser_context := None\<rparr>)"
| body: "h1_reachable d s \<Longrightarrow> h1_reachable d (snd (send_body_impl s i c eof))"
| trailer: "h1_reachable d s \<Longrightarrow> send_trailer_impl s j hs eof = Some (e, s') \<Longrightarrow> h1_reachable d s'"
| response: "h1_reachable Http1Server s \<Longrightarrow> h1_reachable Http1Server (snd (send_response s i rs))"
| request: "h1_reachable Http1Client s \<Longrightarrow> h1_reachable Http1Client (snd (send_request s rq))"

lemma parser_exec_reachable:
  "h1_reachable d s \<Longrightarrow> parser_exec r s = (e, p, s') \<Longrightarrow> h1_reachable d s'"
proof (induction r arbitrary: s)
  case (Run_call c k)
  obtain t v where t: "parser_call s c = (t, v)" by (cases "parser_call s c")
  then have "h1_reachable d t" using h1_reachable.callback [OF Run_call.prems(1), of c] by simp
  then show ?case using Run_call.IH [of "k v" t] Run_call.prems(2) t by simp
qed simp

lemma input_reachable:
  assumes "h1_reachable d s"
  shows "h1_reachable d (snd (snd (input_impl get_errno rst execute q s chunk)))"
proof -
  have "h1_reachable d (s\<lparr>m_parser_context := None\<rparr>)" by (rule h1_reachable.reset [OF assms])
  then show ?thesis using assms
    by (auto simp: input_impl_def reset_parser_def Let_def intro: parser_exec_reachable split: prod.splits)
qed

text \<open>The identifiers reported as finished.\<close>

definition finished :: "h1_session \<Rightarrow> u64 list" where
  "finished s = concat (map (\<lambda>e. case e of OnStreamFinished i _ \<Rightarrow> [i] | _ \<Rightarrow> []) (h1_events s))"

text \<open>What one operation does to the list of streams: nothing, open the next one, or close the oldest.\<close>

definition moves :: "h1_session \<Rightarrow> h1_session \<Rightarrow> bool" where
  "moves s s' \<longleftrightarrow> m_side s' = m_side s \<and> m_handler s' = m_handler s \<and>
     ((ids s' = ids s \<and> m_next_stream_id s' = m_next_stream_id s \<and> finished s' = finished s) \<or>
      (ids s' = ids s @ [m_next_stream_id s] \<and> m_next_stream_id s' = m_next_stream_id s + 1 \<and> finished s' = finished s) \<or>
      (\<exists>i. ids s = i # ids s' \<and> m_next_stream_id s' = m_next_stream_id s \<and>
           (m_side s = Http1Client \<longrightarrow> finished s' = finished s @ [ucast i])))"

lemma finished_raise:
  "finished (raise_event has e s) =
     finished s @ (if has (m_handler s) then (case e of OnStreamFinished i c \<Rightarrow> [i] | _ \<Rightarrow> []) else [])"
  by (simp add: raise_event_def finished_def)

lemma raise_event_simps [simp]:
  "m_side (raise_event has e s) = m_side s" "m_handler (raise_event has e s) = m_handler s"
  "m_streams (raise_event has e s) = m_streams s" "m_next_stream_id (raise_event has e s) = m_next_stream_id s"
  "active_stream (raise_event has e s) = active_stream s"
  by (simp_all add: raise_event_def)

lemma finished_simps [simp]:
  "finished (on_active f s) = finished s" "finished (on_front f s) = finished s"
  "finished (s\<lparr>m_parser_context := c\<rparr>) = finished s" "finished (s\<lparr>m_streams := x\<rparr>) = finished s"
  "finished (s\<lparr>m_next_stream_id := n\<rparr>) = finished s" "finished (pop_front s) = finished s"
  "finished (h1_output d s) = finished s" "finished (on_back f s) = finished s"
  by (simp_all add: finished_def pop_front_def h1_output_def raise_event_def on_front_def on_active_def on_back_def)

lemma finished_stream_finished [simp]:
  "has_on_stream_finished (m_handler s) \<Longrightarrow> finished (stream_finished i s) = finished s @ [i]"
  by (simp add: stream_finished_def finished_raise)

definition quiet :: "h1_session \<Rightarrow> h1_session \<Rightarrow> bool" where
  "quiet s s' \<longleftrightarrow> m_side s' = m_side s \<and> m_handler s' = m_handler s \<and>
     ids s' = ids s \<and> m_next_stream_id s' = m_next_stream_id s \<and> finished s' = finished s"

lemma quiet_moves: "quiet s s' \<Longrightarrow> moves s s'"
  by (simp add: quiet_def moves_def)

lemma quiet_refl [simp]: "quiet s s"
  by (simp add: quiet_def)

lemma quiet_trans [trans]: "quiet s t \<Longrightarrow> quiet t u \<Longrightarrow> quiet s u"
  by (simp add: quiet_def)

lemma quiet_active: "m_streams s \<noteq> [] \<Longrightarrow> (\<And>st. st_id (f st) = st_id st) \<Longrightarrow> quiet s (on_active f s)"
  by (simp add: quiet_def on_active_ids)

lemma quiet_front: "m_streams s \<noteq> [] \<Longrightarrow> (\<And>st. st_id (f st) = st_id st) \<Longrightarrow> quiet s (on_front f s)"
  by (cases "m_streams s") (auto simp: quiet_def on_front_def finished_def)

lemma quiet_output: "quiet s (h1_output d s)"
  by (simp add: quiet_def)

lemma quiet_raise: "(\<And>i c. e \<noteq> OnStreamFinished i c) \<Longrightarrow> quiet s (raise_event has e s)"
  by (cases e) (auto simp: quiet_def finished_raise)

lemma quiet_ctx: "quiet s (s\<lparr>m_parser_context := c\<rparr>)"
  by (simp add: quiet_def)

lemmas quiet_rules = quiet_output quiet_raise quiet_ctx quiet_active quiet_front

text \<open>Closing the oldest stream.\<close>

lemma pop_moves:
  assumes "quiet s t" "m_streams s \<noteq> []" "m_handler s = all_callbacks"
    and "m_side s = Http1Client \<Longrightarrow> i = ucast (hd (ids s))"
  shows "moves s (stream_finished i (pop_front t))"
proof -
  have "has_on_stream_finished (m_handler (pop_front t))"
    using assms by (simp add: quiet_def all_callbacks_def pop_front_def)
  moreover have "ids s = hd (ids s) # tl (ids t)" "m_streams t \<noteq> []" using assms(1,2) by (cases "m_streams s"; auto simp: quiet_def)+
  ultimately show ?thesis using assms unfolding moves_def quiet_def
    by (intro conjI disjI2 exI [of _ "hd (ids s)"]) (auto simp: pop_front_def map_tl)
qed

text \<open>Sending a body never closes a stream on a client.\<close>

definition body_moves :: "h1_session \<Rightarrow> h1_session \<Rightarrow> bool" where
  "body_moves s t \<longleftrightarrow> moves s t \<and> (m_side s = Http1Client \<longrightarrow> quiet s t)"

lemma quiet_body_moves: "quiet s t \<Longrightarrow> body_moves s t"
  by (simp add: body_moves_def quiet_moves)

lemma end_of_message_moves:
  assumes "quiet s t" "m_streams s \<noteq> []" "m_handler s = all_callbacks"
  shows "body_moves s (end_of_message i t)"
proof (cases "m_side s")
  case Http1Server
  then show ?thesis using pop_moves [OF assms(1-3), of i] assms(1) by (simp add: end_of_message_def quiet_def body_moves_def)
next
  case Http1Client
  have "m_streams t \<noteq> []" using assms by (auto simp: quiet_def)
  then have "quiet t (on_active (flag_set REQ_SENT True) t)" by (rule quiet_active) simp
  then show ?thesis using Http1Client assms(1) quiet_trans quiet_body_moves by (auto simp: end_of_message_def quiet_def)
qed

lemma finish_body_quiet: "m_streams s \<noteq> [] \<Longrightarrow> quiet s (finish_body s)"
  by (cases "m_parser_context s") (auto simp: finish_body_def Let_def quiet_def finished_raise)

lemma headers_complete_quiet:
  assumes "m_streams s \<noteq> []"
  shows "quiet s (fst (headers_complete_request s c p v))" "quiet s (fst (headers_complete_response s c p v))"
  using assms by (simp_all add: headers_complete_request_def headers_complete_response_def Let_def quiet_def
      finished_raise on_active_ids)

lemma message_complete_moves:
  assumes "m_handler s = all_callbacks"
  shows "moves s (fst (on_message_complete s))"
proof (cases "m_streams s")
  case Nil
  then show ?thesis by (simp add: on_message_complete_def quiet_moves)
next
  case (Cons st ts)
  let ?t = "if flag_test HAS_BODY (active_stream s) then finish_body s else s"
  have q: "quiet s ?t" using finish_body_quiet [of s] Cons by simp
  show ?thesis
  proof (cases "m_side s = Http1Client \<and> \<not> flag_test INTERMEDIATE_RESPONSE (active_stream s)")
    case True
    have "moves s (stream_finished (sid st) (pop_front ?t))"
      by (rule pop_moves [OF q]) (use Cons assms in \<open>auto simp: sid_def\<close>)
    moreover have "pop_front (raise_event h e u) = raise_event h e (pop_front u)" for h e u
      by (simp add: pop_front_def raise_event_def)
    moreover have "active_stream s = st" using True Cons by (simp add: active_stream_def)
    ultimately show ?thesis using True Cons
      by (simp add: on_message_complete_def Let_def moves_def stream_finished_def)
  qed (use q Cons quiet_moves in \<open>auto simp: on_message_complete_def Let_def\<close>)
qed

lemma parser_call_moves:
  assumes "m_handler s = all_callbacks"
  shows "moves s (fst (parser_call s c))"
proof (cases c)
  case CB_message_begin
  then show ?thesis
    by (auto simp: on_message_begin_def moves_def h1_stream_make_def on_active_ids)
next
  case (CB_headers_complete p)
  then show ?thesis using headers_complete_quiet [of s] quiet_moves
    by (auto simp: on_headers_complete_def split: option.splits)
next
  case CB_message_complete
  then show ?thesis using message_complete_moves [OF assms] by simp
next
  case (CB_body b)
  then show ?thesis
    by (auto simp: on_body_def Let_def quiet_def finished_raise on_active_ids intro!: quiet_moves)
qed (auto simp: on_url_def on_status_def on_header_field_def on_header_value_def intro!: quiet_moves quiet_ctx
    split: option.splits)

lemma send_plain_quiet: "m_streams s \<noteq> [] \<Longrightarrow> quiet s (fst (send_plain s c eof))"
  by (auto simp: send_plain_def Let_def quiet_def on_active_ids split: content_length.splits)

lemma sent_chunk_quiet: "m_streams s \<noteq> [] \<Longrightarrow> quiet s (sent_chunk c s)"
  by (simp add: quiet_def on_active_ids)

lemma send_chunked_moves:
  assumes "chunked_at s i" "m_handler s = all_callbacks"
  shows "body_moves s (snd (send_body_impl s i c eof))"
proof -
  let ?u = "h1_output crlf (h1_output c (sent_chunk c s))"
  have m: "m_streams s \<noteq> []" using assms(1) by (simp add: chunked_at_def)
  have q: "quiet s (sent_chunk [] s)" "quiet s ?u" "quiet s (h1_output crlf (sent_chunk [] s))"
    "quiet s (h1_output crlf (sent_chunk [] ?u))"
    using sent_chunk_quiet [OF m, of "[]"] sent_chunk_quiet [OF m, of c] sent_chunk_quiet [of ?u "[]"]
    by (auto simp: quiet_def)
  show ?thesis
  proof (cases "c = []")
    case True
    then show ?thesis
      using send_empty_chunk [OF assms(1), of eof] q(1,3) end_of_message_moves [OF q(3) m assms(2)] quiet_body_moves by simp
  next
    case False
    then show ?thesis
      using send_one_chunk [OF assms(1) False] send_last_chunk [OF assms(1) False] q(2)
        end_of_message_moves [OF q(4) m assms(2)] quiet_body_moves by (cases eof) simp_all
  qed
qed

lemma send_body_moves:
  assumes "m_handler s = all_callbacks"
  shows "body_moves s (snd (send_body_impl s i c eof))"
proof (cases "m_streams s \<noteq> [] \<and> sid (active_stream s) = i")
  case False
  then have "snd (send_body_impl s i c eof) = s" by (subst send_body_impl.simps) auto
  then show ?thesis by (simp add: quiet_body_moves)
next
  case m: True
  show ?thesis
  proof (cases "st_content_length (active_stream s) = ContentLengthChunked")
    case True
    then have "chunked_at s i" using m assms by (simp add: chunked_at_def all_callbacks_def)
    then show ?thesis using send_chunked_moves assms by blast
  next
    case False
    obtain t e where t: "send_plain s c eof = (t, e)" by (cases "send_plain s c eof")
    have q: "quiet s t" using send_plain_quiet [of s c eof] m t by simp
    have "send_body_impl s i c eof = (None, if e then end_of_message i t else t)"
      using m False t by (subst send_body_impl.simps) auto
    then show ?thesis using q quiet_body_moves end_of_message_moves [OF q _ assms] m by auto
  qed
qed


lemma moves_output: "moves s t \<Longrightarrow> moves s (h1_output d t)"
  unfolding moves_def by (simp only: h1_output_simps finished_simps)

lemma body_moves_output: "body_moves s t \<Longrightarrow> body_moves s (h1_output d t)"
  unfolding body_moves_def by (blast intro: moves_output quiet_trans quiet_output)

lemma quiet_moves_trans: "quiet s t \<Longrightarrow> moves t u \<Longrightarrow> moves s u"
  unfolding moves_def quiet_def by (elim conjE) (simp only:)

lemma quiet_body_moves_trans: "quiet s t \<Longrightarrow> body_moves t u \<Longrightarrow> body_moves s u"
  unfolding body_moves_def using quiet_moves_trans quiet_trans quiet_def by metis

lemma send_trailer_ends:
  fixes s :: h1_session and j hs
  defines "s1 \<equiv> on_front (flag_set ZERO_CHUNK_SENT True) s"
  defines "b \<equiv> send_body_impl s1 (ucast j) [] False"
  defines "f \<equiv> h1_output (headers_str hs) (if flag_test ZERO_CHUNK_SENT (hd (m_streams s)) then s1 else h1_output crlf (snd b))"
  assumes "m_handler s = all_callbacks" "m_streams s \<noteq> []" "j = st_id (hd (m_streams s))"
    and t: "send_trailer_impl s j hs eof = Some (e, s')"
  shows "s' = snd b \<or> s' = f \<or> s' = stream_finished (ucast j) (pop_front (h1_output crlf f)) \<and> m_streams (h1_output crlf f) \<noteq> []"
proof -
  obtain x y where xy: "b = (x, y)" by (cases b)
  have o: "has_on_output (m_handler s)" using assms(4) by (simp add: all_callbacks_def)
  note [simp] = assms(1-3)
  show ?thesis
  proof (cases "flag_test ZERO_CHUNK_SENT (hd (m_streams s)) \<or> x = None")
    case True
    then have "send_trailer_impl s j hs eof =
      (if \<not> eof then Some (None, f) else if m_streams (h1_output crlf f) = [] then None
       else Some (None, stream_finished (ucast j) (pop_front (h1_output crlf f))))"
      using assms(5,6) o xy by (auto simp: send_trailer_impl_def Let_def)
    then show ?thesis using t by (simp split: if_splits)
  next
    case False
    then show ?thesis using t assms(5,6) o xy by (auto simp: send_trailer_impl_def Let_def)
  qed
qed

lemma send_trailer_moves:
  assumes h: "m_handler s = all_callbacks" and t: "send_trailer_impl s j hs eof = Some (e, s')"
  shows "moves\<^sup>*\<^sup>* s s'"
proof (cases "m_streams s \<noteq> [] \<and> j = st_id (hd (m_streams s))")
  case False
  then have "s' = s" using t by (auto simp: send_trailer_impl_def split: if_splits)
  then show ?thesis by simp
next
  case m: True
  let ?s1 = "on_front (flag_set ZERO_CHUNK_SENT True) s"
  let ?b = "send_body_impl ?s1 (ucast j) [] False"
  let ?t = "if flag_test ZERO_CHUNK_SENT (hd (m_streams s)) then ?s1 else h1_output crlf (snd ?b)"
  let ?f = "h1_output (headers_str hs) ?t"
  let ?u = "h1_output crlf ?f"
  have q: "quiet s ?s1" using m by (intro quiet_front) auto
  have bm: "body_moves ?s1 (snd ?b)" using send_body_moves [of ?s1] h by simp
  have b: "moves s (snd ?b)" "body_moves s (snd ?b)"
    using quiet_body_moves_trans [OF q bm] by (simp_all add: body_moves_def)
  have t': "body_moves s ?t"
    using quiet_body_moves [OF q] body_moves_output [OF b(2), of crlf] by simp
  have u: "moves s ?f" "moves s ?u" "m_side s = Http1Client \<Longrightarrow> quiet s ?u"
    using body_moves_output [OF t'] body_moves_output [OF body_moves_output [OF t']]
    by (simp_all add: body_moves_def)
  have u': "m_handler ?u = all_callbacks" "m_side ?u = m_side s"
    using u(2) h by (simp_all only: moves_def)
  consider "s' = snd ?b" | "s' = ?f" | "s' = stream_finished (ucast j) (pop_front ?u)" "m_streams ?u \<noteq> []"
    using send_trailer_ends [OF h _ _ t] m by blast
  then show ?thesis
  proof cases
    case 3
    show ?thesis
    proof (cases "m_side s")
      case Http1Server
      have "moves ?u s'" unfolding 3(1) by (rule pop_moves) (use 3(2) u' Http1Server in simp_all)
      then show ?thesis using u(2) by (meson converse_rtranclp_into_rtranclp rtranclp.rtrancl_refl)
    next
      case Http1Client
      have "moves s s'" unfolding 3(1)
        by (rule pop_moves) (use u m h Http1Client in \<open>auto simp: hd_map\<close>)
      then show ?thesis by blast
    qed
  qed (use b u in blast)+
qed

lemma send_response_moves:
  assumes "m_handler s = all_callbacks" "m_side s = Http1Server"
  shows "moves s (snd (send_response s i rs))"
proof (cases "m_streams s \<noteq> [] \<and> i = sid (hd (m_streams s))")
  case False
  then show ?thesis by (auto simp: send_response_def quiet_moves)
next
  case True
  let ?cl = "if iequals (headers_gets (rs_headers rs) ''Transfer-Encoding'') ''chunked'' then ContentLengthChunked
     else ContentLength (parsed_flag (headers_gets (rs_headers rs) ''Content-Length''))"
  let ?t = "h1_output (response_str rs) (on_front (\<lambda>st. st\<lparr>st_content_length := ?cl\<rparr>) s)"
  have "quiet s (on_front (\<lambda>st. st\<lparr>st_content_length := ?cl\<rparr>) s)" using True by (intro quiet_front) auto
  then have q: "quiet s ?t" by (simp add: quiet_def)
  have "moves s (stream_finished i (pop_front ?t))" by (rule pop_moves [OF q]) (use True assms in auto)
  then show ?thesis using True q quiet_moves by (auto simp: send_response_def Let_def)
qed

lemma send_request_moves: "moves s (snd (send_request s rq))"
  by (auto simp: send_request_def Let_def moves_def on_back_def h1_stream_make_def)

text \<open>Streams are numbered consecutively; the oldest leave first.\<close>

definition numbered :: "h1_session \<Rightarrow> bool" where
  "numbered s \<longleftrightarrow> m_handler s = all_callbacks \<and>
     (\<exists>k n. 1 \<le> k \<and> k \<le> n \<and> ids s = map of_nat [k..<n] \<and> m_next_stream_id s = of_nat n \<and>
       (m_side s = Http1Client \<longrightarrow> finished s = map (\<lambda>i. ucast (of_nat i :: u32)) [1..<k]))"

lemma numbered_moves:
  assumes "numbered s" "moves s s'"
  shows "numbered s'"
proof -
  obtain k n where k: "1 \<le> k" "k \<le> n" "ids s = map of_nat [k..<n]" "m_next_stream_id s = of_nat n"
    "m_side s = Http1Client \<Longrightarrow> finished s = map (\<lambda>i. ucast (of_nat i :: u32)) [1..<k]"
    and h: "m_handler s = all_callbacks"
    using assms(1) by (auto simp: numbered_def)
  have "(ids s' = ids s \<and> m_next_stream_id s' = m_next_stream_id s \<and> finished s' = finished s) \<or>
      (ids s' = ids s @ [m_next_stream_id s] \<and> m_next_stream_id s' = m_next_stream_id s + 1 \<and> finished s' = finished s) \<or>
      (\<exists>i. ids s = i # ids s' \<and> m_next_stream_id s' = m_next_stream_id s \<and>
           (m_side s = Http1Client \<longrightarrow> finished s' = finished s @ [ucast i]))"
    using assms(2) unfolding moves_def by (rule conjunct2 [THEN conjunct2])
  then consider
      (same) "ids s' = ids s" "m_next_stream_id s' = m_next_stream_id s" "finished s' = finished s"
    | (opened) "ids s' = ids s @ [m_next_stream_id s]" "m_next_stream_id s' = m_next_stream_id s + 1" "finished s' = finished s"
    | (closed) i where "ids s = i # ids s'" "m_next_stream_id s' = m_next_stream_id s"
        "m_side s = Http1Client \<longrightarrow> finished s' = finished s @ [ucast i]"
    by (elim disjE exE conjE) simp_all
  moreover have sd: "m_side s' = m_side s" "m_handler s' = all_callbacks" using assms(2) h by (simp_all add: moves_def)
  ultimately show ?thesis
  proof cases
    case same
    then show ?thesis using k sd unfolding numbered_def by metis
  next
    case opened
    then show ?thesis using k sd unfolding numbered_def
      by (intro conjI exI [of _ k] exI [of _ "Suc n"]) auto
  next
    case closed
    have "k < n" using closed(1) k(2,3) by (metis le_neq_implies_less list.distinct(1) list.simps(8) upt_rec less_irrefl)
    then have "[k..<n] = k # [Suc k..<n]" by (simp add: upt_conv_Cons)
    then have "i = of_nat k" "ids s' = map of_nat [Suc k..<n]" using closed(1) k(3) by auto
    then show ?thesis using closed k sd \<open>k < n\<close> unfolding numbered_def
      by (intro conjI exI [of _ "Suc k"] exI [of _ n]) auto
  qed
qed

lemma numbered_handler: "numbered s \<Longrightarrow> m_handler s = all_callbacks"
  by (simp add: numbered_def)

lemma numbered_step:
  assumes "numbered s \<and> m_side s = d" "m_handler s = all_callbacks \<Longrightarrow> m_side s = d \<Longrightarrow> moves s s'"
  shows "numbered s' \<and> m_side s' = d"
  using assms numbered_moves [of s s'] numbered_handler [of s] by (auto simp: moves_def)

lemma numbered_moves_star: "moves\<^sup>*\<^sup>* s s' \<Longrightarrow> numbered s \<Longrightarrow> numbered s'"
  by (induction rule: rtranclp_induct) (auto dest: numbered_moves)

lemma moves_star_side: "moves\<^sup>*\<^sup>* s s' \<Longrightarrow> m_side s' = m_side s"
  by (induction rule: rtranclp_induct) (auto simp: moves_def)

lemma h1_reachable_numbered: "h1_reachable d s \<Longrightarrow> numbered s \<and> m_side s = d"
proof (induction rule: h1_reachable.induct)
  case (start d)
  then show ?case by (auto simp: numbered_def h1_session_new_def finished_def intro!: exI [of _ 1])
next
  case (callback d s c)
  show ?case by (rule numbered_step [OF callback.IH]) (rule parser_call_moves)
next
  case (reset d s)
  show ?case by (rule numbered_step [OF reset.IH]) (rule quiet_moves [OF quiet_ctx])
next
  case (body d s i c eof)
  show ?case by (rule numbered_step [OF body.IH]) (use send_body_moves [of s i c eof] in \<open>simp add: body_moves_def\<close>)
next
  case (trailer d s j hs eof e s')
  then show ?case using send_trailer_moves [of s j hs eof e s'] numbered_moves_star moves_star_side numbered_handler
    by metis
next
  case (response s i rs)
  show ?case by (rule numbered_step [OF response.IH]) (rule send_response_moves)
next
  case (request s rq)
  show ?case by (rule numbered_step [OF request.IH]) (rule send_request_moves)
qed

lemma of_nat_window_inj:
  assumes "n - k < 2 ^ 32"
  shows "inj_on (of_nat :: nat \<Rightarrow> u32) {k..<n}"
proof (rule linorder_inj_onI)
  fix x y assume a: "x < y" "x \<in> {k..<n}" "y \<in> {k..<n}"
  show "(of_nat x :: u32) \<noteq> of_nat y"
  proof
    assume "(of_nat x :: u32) = of_nat y"
    then have "(of_nat (y - x) :: u32) = 0" using a(1) by (simp add: of_nat_diff)
    moreover have "y - x < 2 ^ 32" using a assms by auto
    ultimately have "2 ^ 32 dvd y - x" by (simp add: word_of_nat_eq_0_iff)
    with \<open>y - x < 2 ^ 32\<close> show False using a(1) by (auto dest: dvd_imp_le)
  qed
qed auto

text \<open>Also: whatever the parser and the user do, the streams of a session carry consecutive identifiers that end just
  before the next one to be given, and while fewer than two to the power 32 are open no two are equal.\<close>

theorem h1_streams_numbered:
  assumes "h1_reachable d s"
  shows "(\<exists>k n. 1 \<le> k \<and> k \<le> n \<and> map st_id (m_streams s) = map of_nat [k..<n] \<and> m_next_stream_id s = of_nat n) \<and>
    (if length (m_streams s) < 2 ^ 32 then distinct (map st_id (m_streams s)) else True)"
proof -
  obtain k n where k: "1 \<le> k" "k \<le> n" "ids s = map of_nat [k..<n]" "m_next_stream_id s = of_nat n"
    using h1_reachable_numbered [OF assms] by (auto simp: numbered_def)
  moreover have "distinct (ids s)" if "length (m_streams s) < 2 ^ 32"
  proof -
    have "n - k < 2 ^ 32" using that arg_cong [OF k(3), of length] by simp
    then have "inj_on (of_nat :: nat \<Rightarrow> u32) (set [k..<n])" by (auto intro!: of_nat_window_inj)
    then show ?thesis using k(3) by (simp add: distinct_map)
  qed
  ultimately show ?thesis by auto
qed

theorem h1_streams_numbered_witness:
  "\<exists>k n. 1 \<le> k \<and> k \<le> n \<and>
     map st_id (m_streams (fst (parser_call (h1_session_new Http1Server all_callbacks) CB_message_begin))) =
       map of_nat [k..<n] \<and>
     m_next_stream_id (fst (parser_call (h1_session_new Http1Server all_callbacks) CB_message_begin)) = of_nat n"
  using h1_streams_numbered [OF h1_reachable.callback [OF h1_reachable.start [of Http1Server], of CB_message_begin]]
  by (rule conjunct1)

text \<open>C19: a client finishes its streams in the order in which it opened them, each of them once: the identifiers reported as
  finished followed by those of the open streams are all the identifiers given so far.\<close>

theorem client_streams_in_order:
  assumes "h1_reachable Http1Client s"
  shows "\<exists>n. 1 \<le> n \<and> m_next_stream_id s = of_nat n \<and>
    finished s @ map sid (m_streams s) = map (\<lambda>i. ucast (of_nat i :: u32)) [1..<n]"
proof -
  obtain k n where k: "1 \<le> k" "k \<le> n" "ids s = map of_nat [k..<n]" "m_next_stream_id s = of_nat n"
    "finished s = map (\<lambda>i. ucast (of_nat i :: u32)) [1..<k]"
    using h1_reachable_numbered [OF assms] by (auto simp: numbered_def)
  have "map sid (m_streams s) = map ucast (ids s)" by (simp add: sid_def)
  then have "map sid (m_streams s) = map (\<lambda>i. ucast (of_nat i :: u32)) [k..<n]" using k(3) by simp
  moreover have "[1..<n] = [1..<k] @ [k..<n]" using k by (metis le_Suc_ex upt_add_eq_append)
  ultimately show ?thesis using k by (intro exI [of _ n]) simp
qed

theorem client_streams_in_order_witness:
  "\<exists>n. 1 \<le> n \<and> m_next_stream_id (snd (send_request (h1_session_new Http1Client all_callbacks) (make_request HTTP_1_1 ''GET'' ''/''))) = of_nat n \<and>
     finished (snd (send_request (h1_session_new Http1Client all_callbacks) (make_request HTTP_1_1 ''GET'' ''/''))) @
     map sid (m_streams (snd (send_request (h1_session_new Http1Client all_callbacks) (make_request HTTP_1_1 ''GET'' ''/'')))) =
     map (\<lambda>i. ucast (of_nat i :: u32)) [1..<n]"
  by (rule client_streams_in_order [OF h1_reachable.request [OF h1_reachable.start]])

end
