(* ===== verification/HttpFields.thy ===== *)
theory HttpFields
  imports HttpMessage
begin

text \<open>
  Messages as lists of fields, the way the HTTP/2 and HTTP/3 sessions exchange them with their libraries: the fields
  that a message is submitted as, and the message that is put together from received fields.
\<close>

section \<open>Messages from fields\<close>

datatype http_message = RequestMessage request | ResponseMessage response

fun message_headers :: "http_message \<Rightarrow> headers" where
  "message_headers (RequestMessage r) = rq_headers r"
| "message_headers (ResponseMessage r) = rs_headers r"

fun message_set_headers :: "headers \<Rightarrow> http_message \<Rightarrow> http_message" where
  "message_set_headers hs (RequestMessage r) = RequestMessage (r\<lparr>rq_headers := hs\<rparr>)"
| "message_set_headers hs (ResponseMessage r) = ResponseMessage (r\<lparr>rs_headers := hs\<rparr>)"

text \<open>The message that the head of a stream begins with: a request on a server, a response on a client.\<close>

definition new_message :: "version \<Rightarrow> bool \<Rightarrow> http_message" where
  "new_message v is_server =
     (if is_server then RequestMessage (make_request v [] [])
      else ResponseMessage \<lparr>rs_version = v, rs_status_code = 200, rs_status_string = [], rs_headers = headers_empty\<rparr>)"

text \<open>One header field put into a message; the status code is converted from unsigned to signed.\<close>

definition message_put :: "string \<Rightarrow> string \<Rightarrow> http_message \<Rightarrow> http_message option" where
  "message_put n v m =
     (case m of
        RequestMessage r \<Rightarrow>
          Some (RequestMessage
            (if n = '':method'' then r\<lparr>rq_method := v\<rparr>
             else if n = '':scheme'' then r\<lparr>rq_scheme := v\<rparr>
             else if n = '':authority'' then r\<lparr>rq_authority := v\<rparr>
             else if n = '':path'' then r\<lparr>rq_path := v\<rparr>
             else r\<lparr>rq_headers := headers_put (rq_headers r) n v\<rparr>))
      | ResponseMessage r \<Rightarrow>
          (if n = '':status''
           then case to_integer max_u32 v 10 of
                  None \<Rightarrow> None
                | Some code \<Rightarrow> Some (ResponseMessage (response_set_status_code r (sint (of_nat code :: u32))))
           else Some (ResponseMessage (r\<lparr>rs_headers := headers_put (rs_headers r) n v\<rparr>))))"

text \<open>The fields of a message, read through its iterator.\<close>

definition request_fields :: "request \<Rightarrow> header list" where
  "request_fields r =
     (case iterate rq_incr (\<lambda>it. rq_iter_equal it (request_end r)) ri_current
             (6 + headers_length (rq_headers r)) (request_begin r) of
        None \<Rightarrow> [] | Some hs \<Rightarrow> hs)"

definition response_fields :: "response \<Rightarrow> header list" where
  "response_fields r =
     (case iterate rs_incr (\<lambda>it. rs_iter_equal it (response_end r)) si_current
             (6 + headers_length (rs_headers r)) (response_begin r) of
        None \<Rightarrow> [] | Some hs \<Rightarrow> hs)"

section \<open>Reading fields back\<close>

text \<open>All fields of a list, one after the other, until one is refused.\<close>

fun fold_fields :: "(string \<Rightarrow> string \<Rightarrow> 's \<Rightarrow> 's option) \<Rightarrow> header list \<Rightarrow> 's \<Rightarrow> 's option" where
  "fold_fields f [] m = Some m"
| "fold_fields f (h # hs) m = (case f (h_name h) (h_value h) m of None \<Rightarrow> None | Some m1 \<Rightarrow> fold_fields f hs m1)"

lemma fold_fields_append:
  "fold_fields f (as @ bs) m = (case fold_fields f as m of None \<Rightarrow> None | Some m1 \<Rightarrow> fold_fields f bs m1)"
  by (induction as arbitrary: m) (auto split: option.splits)

abbreviation message_put_all :: "header list \<Rightarrow> http_message \<Rightarrow> http_message option" where
  "message_put_all \<equiv> fold_fields message_put"

text \<open>A session that keeps the message being received: receiving a field puts it into that message and changes nothing
  else, so receiving a list of fields puts all of them into the message.\<close>

locale field_receiver =
  fixes recv :: "string \<Rightarrow> string \<Rightarrow> 's \<Rightarrow> 's option"
    and put :: "string \<Rightarrow> string \<Rightarrow> 'm \<Rightarrow> 'm option"
    and store :: "'m \<Rightarrow> 's \<Rightarrow> 's"
  assumes recv_stored: "recv n v (store m s) = map_option (\<lambda>m1. store m1 s) (put n v m)"
begin

lemma receive_fields: "fold_fields recv hs (store m s) = map_option (\<lambda>m1. store m1 s) (fold_fields put hs m)"
  by (induction hs arbitrary: m) (auto simp: recv_stored split: option.splits)

end

definition pseudo_names :: "string list" where
  "pseudo_names = ['':method'', '':scheme'', '':authority'', '':path'', '':status'']"

lemma put_plain_request:
  "list_all (\<lambda>h. h_name h \<notin> set pseudo_names) hs \<Longrightarrow>
   message_put_all hs (RequestMessage r) =
     Some (RequestMessage (r\<lparr>rq_headers := (rq_headers r)\<lparr>m_headers := m_headers (rq_headers r) @ hs\<rparr>\<rparr>))"
proof (induction hs arbitrary: r)
  case (Cons h hs)
  then show ?case by (cases h) (simp add: message_put_def pseudo_names_def headers_put_def)
qed simp

lemma put_plain_response:
  "list_all (\<lambda>h. h_name h \<notin> set pseudo_names) hs \<Longrightarrow>
   message_put_all hs (ResponseMessage r) =
     Some (ResponseMessage (r\<lparr>rs_headers := (rs_headers r)\<lparr>m_headers := m_headers (rs_headers r) @ hs\<rparr>\<rparr>))"
proof (induction hs arbitrary: r)
  case (Cons h hs)
  then show ?case by (cases h) (simp add: message_put_def pseudo_names_def headers_put_def)
qed simp

lemma request_fields_eq:
  "request_fields r = pseudo '':method'' (rq_method r) @ pseudo '':scheme'' (rq_scheme r) @ pseudo '':path'' (rq_path r) @
     pseudo '':authority'' (rq_authority r) @ m_headers (rq_headers r)"
  by (simp only: request_fields_def request_iteration option.case)

lemma response_fields_eq:
  "response_fields r = make_header '':status'' (rs_status_string r) # m_headers (rs_headers r)"
  by (simp only: response_fields_def response_iteration option.case)

text \<open>Reading the fields of a message gives the message back.\<close>

lemma request_fields_read:
  assumes "list_all (\<lambda>h. h_name h \<notin> set pseudo_names) (m_headers (rq_headers r))"
  shows "message_put_all (request_fields r) (new_message v True) =
    Some (RequestMessage (r\<lparr>rq_version := v, rq_headers := (rq_headers r)\<lparr>m_has_body := False\<rparr>\<rparr>))"
proof -
  have "message_put_all (pseudo '':method'' (rq_method r) @ pseudo '':scheme'' (rq_scheme r) @ pseudo '':path'' (rq_path r) @
     pseudo '':authority'' (rq_authority r)) (new_message v True) =
    Some (RequestMessage (r\<lparr>rq_version := v, rq_headers := headers_empty\<rparr>))"
    by (cases r) (simp add: message_put_def make_header_def new_message_def make_request_def)
  then show ?thesis
    using put_plain_request [OF assms, of "r\<lparr>rq_version := v, rq_headers := headers_empty\<rparr>"]
    by (simp add: request_fields_eq fold_fields_append headers_empty_def flip: append_assoc)
qed

lemma response_fields_read:
  assumes "list_all (\<lambda>h. h_name h \<notin> set pseudo_names) (m_headers (rs_headers r))"
    and "rs_status_string r = fmt_int (rs_status_code r)" "0 \<le> rs_status_code r" "rs_status_code r < 2 ^ 31"
    and "HTTP_1_1 < v"
  shows "message_put_all (response_fields r) (new_message v False) =
    Some (ResponseMessage (r\<lparr>rs_version := v, rs_headers := (rs_headers r)\<lparr>m_has_body := False\<rparr>\<rparr>))"
proof -
  let ?c = "nat (rs_status_code r)"
  have "to_integer max_u32 (dec ?c) 10 = Some ?c"
    using assms(3,4) by (intro dec_roundtrip) (simp add: max_u32_def nat_le_iff)
  moreover have "sint (of_nat ?c :: u32) = rs_status_code r"
    using assms(3,4) by (simp add: int_word_sint)
  ultimately have "message_put_all [make_header '':status'' (rs_status_string r)] (new_message v False) =
    Some (ResponseMessage (r\<lparr>rs_version := v, rs_headers := headers_empty\<rparr>))"
    using assms(2,3,5) by (cases r) (simp add: message_put_def make_header_def new_message_def fmt_int_def
        response_set_status_code_def Let_def)
  then show ?thesis
    using put_plain_response [OF assms(1), of "r\<lparr>rs_version := v, rs_headers := headers_empty\<rparr>"]
    by (simp add: response_fields_eq headers_empty_def split: option.splits)
qed

definition set_has_body :: "bool \<Rightarrow> http_message \<Rightarrow> http_message" where
  "set_has_body b m = message_set_headers ((message_headers m)\<lparr>m_has_body := b\<rparr>) m"

fun final_message :: "http_message \<Rightarrow> bool" where
  "final_message (RequestMessage r) = True"
| "final_message (ResponseMessage r) = (200 \<le> rs_status_code r)"

lemma message_put_all_plain:
  assumes "list_all (\<lambda>h. h_name h \<notin> set pseudo_names) ts"
  shows "\<exists>m. message_put_all ts (new_message v is_server) = Some m \<and>
    message_headers (set_has_body False m) = \<lparr>m_headers = ts, m_has_body = False\<rparr>"
  using put_plain_request [OF assms] put_plain_response [OF assms]
  by (simp add: new_message_def make_request_def set_has_body_def headers_empty_def)

end
