(* ===== verification/Http2.thy ===== *)
theory Http2
  imports HttpFields "HOL-Library.AList"
begin

text \<open>
  The HTTP/2 session of \<^verbatim>\<open>http/http2.cpp\<close>, server and client.  The library \<^verbatim>\<open>nghttp2\<close> is a parameter: a function gives the
  status of each call from the calls made before it, and what it does with input and when it flushes is a tree of the
  callbacks it makes.  The session keeps the calls it made and the events it raised in order.  The hash map of
  streams is an association list.  An evbuffer is the \<^typ>\<open>string\<close> of the octets in it.
\<close>

section \<open>State\<close>

datatype h2_side = Http2Server | Http2Client

datatype h2_flag = MESSAGE_ALREADY_RECEIVED | HAS_EOF | SCHEDULED | H2_HEAD_REQUEST

record h2_stream =
  hs_message :: "http_message option"
  hs_buffer :: "string option"
  hs_flags :: "h2_flag set"

definition h2_stream_new :: h2_stream where
  "h2_stream_new = \<lparr>hs_message = None, hs_buffer = None, hs_flags = {}\<rparr>"

definition h2_flag_set :: "h2_flag \<Rightarrow> bool \<Rightarrow> h2_stream \<Rightarrow> h2_stream" where
  "h2_flag_set f b st = st\<lparr>hs_flags := (if b then insert f (hs_flags st) else hs_flags st - {f})\<rparr>"

record h2_settings =
  auto_flow_control :: bool
  header_table_size :: u32
  max_concurrent_streams :: u32
  initial_stream_window_size :: u32
  initial_session_window_size :: u32
  max_frame_size :: u32

definition h2_default_settings :: h2_settings where
  "h2_default_settings = \<lparr>auto_flow_control = False, header_table_size = 64 * 1024, max_concurrent_streams = 1000,
     initial_stream_window_size = 131072, initial_session_window_size = 8 * 1024 * 1024, max_frame_size = push_bit 14 1\<rparr>"

text \<open>The calls into the library.  A missing stream identifier stands for \<^verbatim>\<open>-1\<close>.\<close>

datatype ng_call =
    SessionNew h2_side bool
  | SubmitSettings "(string \<times> u32) list"
  | SetLocalWindowSize u32
  | SubmitTrailer u32 "header list"
  | SubmitHeaders bool "u32 option" "header list"
  | GetNextStreamId
  | SetNextStreamId u32
  | SubmitData u32
  | ResumeData u32
  | EvbufferAdd u32 string
  | ConsumeConnection nat
  | ConsumeStream u32 nat
  | SubmitRstStream u32 u32
  | TerminateSession u32
  | SessionSend

type_synonym nghttp2 = "ng_call list \<Rightarrow> ng_call \<Rightarrow> int"

datatype h2_kind = K_message | K_trailer | K_body | K_window_update | K_read_finished | K_stream_closed | K_close
  | K_output | K_data_sent

datatype h2_event =
    H2Message u32 http_message
  | H2Trailer u32 headers
  | H2Body u32 string
  | H2WindowUpdate u32 u32
  | H2ReadFinished u32
  | H2StreamClosed u32 u32
  | H2Close u32
  | H2Output string
  | H2DataSent u32 nat

record h2_session =
  h2_side :: h2_side
  h2_settings :: h2_settings
  h2_handler :: "h2_kind set"
  h2_streams :: "(u32 \<times> h2_stream) list"
  h2_error :: u32
  h2_received_handshake :: bool
  h2_open :: bool
  h2_calls :: "ng_call list"
  h2_events :: "h2_event list"

definition h2_session_new :: "h2_side \<Rightarrow> h2_settings \<Rightarrow> h2_kind set \<Rightarrow> h2_session" where
  "h2_session_new d st handler =
     \<lparr>h2_side = d, h2_settings = st, h2_handler = handler, h2_streams = [], h2_error = 0,
      h2_received_handshake = False, h2_open = False, h2_calls = [], h2_events = []\<rparr>"

definition ng_do :: "nghttp2 \<Rightarrow> ng_call \<Rightarrow> h2_session \<Rightarrow> int \<times> h2_session" where
  "ng_do ng c s = (ng (h2_calls s) c, s\<lparr>h2_calls := h2_calls s @ [c]\<rparr>)"

definition h2_raise :: "h2_kind \<Rightarrow> h2_event \<Rightarrow> h2_session \<Rightarrow> h2_session" where
  "h2_raise k e s = (if k \<in> h2_handler s then s\<lparr>h2_events := h2_events s @ [e]\<rparr> else s)"

definition h2_find :: "h2_session \<Rightarrow> u32 \<Rightarrow> h2_stream option" where
  "h2_find s i = map_of (h2_streams s) i"

definition h2_put :: "u32 \<Rightarrow> h2_stream \<Rightarrow> h2_session \<Rightarrow> h2_session" where
  "h2_put i st s = s\<lparr>h2_streams := AList.update i st (h2_streams s)\<rparr>"

section \<open>Setting up\<close>

datatype h2_failure = H2StreamNotFound | H2PushFailed | H2ScheduleFailed int | H2CreateFailed int
  | H2SettingsFailed int | H2WindowFailed int | H2StreamIdFailed int | H2RequestFailed int | H2ConsumeFailed int
  | H2Status int | H2CausedBy h2_failure

definition h2_submit_settings :: "nghttp2 \<Rightarrow> h2_session \<Rightarrow> h2_failure option \<times> h2_session" where
  "h2_submit_settings ng s =
     (let st = h2_settings s;
          (r1, s1) = ng_do ng (SubmitSettings
            [(''HEADER_TABLE_SIZE'', header_table_size st), (''ENABLE_PUSH'', 0),
             (''MAX_CONCURRENT_STREAMS'', max_concurrent_streams st),
             (''INITIAL_WINDOW_SIZE'', initial_stream_window_size st), (''MAX_FRAME_SIZE'', max_frame_size st)]) s
      in if r1 \<noteq> 0 then (Some (H2SettingsFailed r1), s1)
         else let (r2, s2) = ng_do ng (SetLocalWindowSize (initial_session_window_size st)) s1
              in if r2 \<noteq> 0 then (Some (H2WindowFailed r2), s2) else (None, s2))"

definition h2_initialize :: "nghttp2 \<Rightarrow> h2_session \<Rightarrow> h2_failure option \<times> h2_session" where
  "h2_initialize ng s =
     (let (r, s1) = ng_do ng (SessionNew (h2_side s) (\<not> auto_flow_control (h2_settings s))) s
      in if r \<noteq> 0 then (Some (H2CreateFailed r), s1)
         else let s2 = s1\<lparr>h2_open := True\<rparr>
              in if h2_side s = Http2Server then (None, s2)
                 else case h2_submit_settings ng s2 of
                        (Some e, s3) \<Rightarrow> (Some (H2CausedBy e), s3\<lparr>h2_open := False\<rparr>)
                      | (None, s3) \<Rightarrow> (None, s3))"

definition h2_make :: "nghttp2 \<Rightarrow> h2_side \<Rightarrow> h2_settings \<Rightarrow> h2_kind set \<Rightarrow> h2_failure + h2_session" where
  "h2_make ng d st handler =
     (case h2_initialize ng (h2_session_new d st handler) of (Some e, s) \<Rightarrow> Inl e | (None, s) \<Rightarrow> Inr s)"

section \<open>Callbacks of the library\<close>

text \<open>What a callback answers: success, one of the library's error codes, or the data it read with the end-of-file flag.\<close>

datatype ng_answer = NG_OK | NG_CALLBACK_FAILURE | NG_TEMPORAL_CALLBACK_FAILURE | NG_INVALID_STATE | NG_DEFERRED
  | NG_BUFFER_ERROR | NG_DATA string bool | NG_SENT nat

datatype h2_frame =
    F_HEADERS u32 bool bool  \<comment> \<open>stream, END_HEADERS, END_STREAM\<close>
  | F_DATA u32 bool          \<comment> \<open>stream, END_STREAM\<close>
  | F_GOAWAY u32
  | F_PUSH_PROMISE u32
  | F_WINDOW_UPDATE u32 u32
  | F_SETTINGS bool          \<comment> \<open>ACK\<close>
  | F_OTHER

definition close_stream :: "u32 \<Rightarrow> u32 \<Rightarrow> h2_session \<Rightarrow> h2_session" where
  "close_stream i err s = h2_raise K_stream_closed (H2StreamClosed i err) s"

definition on_end_stream :: "u32 \<Rightarrow> h2_session \<Rightarrow> h2_session" where
  "on_end_stream i s = h2_raise K_read_finished (H2ReadFinished i) s"

text \<open>\<^const>\<open>None\<close> is the exception of \<^verbatim>\<open>value()\<close> on a stream without a pending message.\<close>

definition on_end_headers :: "u32 \<Rightarrow> h2_stream \<Rightarrow> bool \<Rightarrow> h2_session \<Rightarrow> h2_session option" where
  "on_end_headers i st end_stream s =
     (case hs_message st of
        None \<Rightarrow> None
      | Some m \<Rightarrow>
          (let st1 = st\<lparr>hs_message := None\<rparr>;
               m1 = message_set_headers (headers_set_has_body (message_headers m) (\<not> end_stream)) m
           in if MESSAGE_ALREADY_RECEIVED \<in> hs_flags st
              then Some (h2_raise K_trailer (H2Trailer i (message_headers m1)) (h2_put i st1 s))
              else case m1 of
                     RequestMessage r \<Rightarrow>
                       Some (h2_raise K_message (H2Message i m1)
                         (h2_put i (h2_flag_set H2_HEAD_REQUEST (rq_method r = ''HEAD'')
                                     (h2_flag_set MESSAGE_ALREADY_RECEIVED True st1)) s))
                   | ResponseMessage r \<Rightarrow>
                       Some (h2_raise K_message (H2Message i m1)
                         (h2_put i (h2_flag_set MESSAGE_ALREADY_RECEIVED (200 \<le> rs_status_code r) st1) s))))"

definition on_frame_recv :: "h2_frame \<Rightarrow> h2_session \<Rightarrow> h2_session option" where
  "on_frame_recv fr s =
     (case fr of
        F_HEADERS i end_headers end_stream \<Rightarrow>
          (case h2_find s i of
             None \<Rightarrow> Some s
           | Some st \<Rightarrow>
               (case (if end_headers then on_end_headers i st end_stream s else Some s) of
                  None \<Rightarrow> None
                | Some s1 \<Rightarrow> Some (if end_stream then on_end_stream i s1 else s1)))
      | F_DATA i end_stream \<Rightarrow>
          Some (if h2_find s i \<noteq> None \<and> end_stream then on_end_stream i s else s)
      | F_GOAWAY err \<Rightarrow> Some (h2_raise K_close (H2Close err) s)
      | F_WINDOW_UPDATE i inc \<Rightarrow>
          Some (if i \<noteq> 0 \<and> inc > 0 then h2_raise K_window_update (H2WindowUpdate i inc) s else s)
      | _ \<Rightarrow> Some s)"

definition on_frame_send :: "nghttp2 \<Rightarrow> h2_frame \<Rightarrow> h2_session \<Rightarrow> ng_answer \<times> h2_session" where
  "on_frame_send ng fr s =
     (case fr of
        F_SETTINGS ack \<Rightarrow>
          (if h2_side s = Http2Server \<and> ack \<and> \<not> h2_received_handshake s
           then case h2_submit_settings ng (s\<lparr>h2_received_handshake := True\<rparr>) of
                  (Some e, s1) \<Rightarrow> (NG_CALLBACK_FAILURE, s1)
                | (None, s1) \<Rightarrow> (NG_OK, s1)
           else (NG_OK, s))
      | _ \<Rightarrow> (NG_OK, s))"

definition on_begin_headers :: "u32 \<Rightarrow> h2_session \<Rightarrow> ng_answer \<times> h2_session" where
  "on_begin_headers i s =
     (let st = (case h2_find s i of None \<Rightarrow> h2_stream_new | Some st \<Rightarrow> st)
      in if hs_message st \<noteq> None then (NG_CALLBACK_FAILURE, s)
         else (NG_OK, h2_put i (st\<lparr>hs_message := Some (new_message HTTP_2_0 (h2_side s = Http2Server))\<rparr>) s))"

definition on_header :: "u32 \<Rightarrow> string \<Rightarrow> string \<Rightarrow> h2_session \<Rightarrow> ng_answer \<times> h2_session" where
  "on_header i n v s =
     (case h2_find s i of
        None \<Rightarrow> (NG_TEMPORAL_CALLBACK_FAILURE, s)
      | Some st \<Rightarrow>
          (case hs_message st of
             None \<Rightarrow> (NG_CALLBACK_FAILURE, s)
           | Some m \<Rightarrow>
               (case message_put n v m of
                  None \<Rightarrow> (NG_TEMPORAL_CALLBACK_FAILURE, s)
                | Some m1 \<Rightarrow> (NG_OK, h2_put i (st\<lparr>hs_message := Some m1\<rparr>) s))))"

text \<open>The guard that consumes the connection window runs after the rest, on either return.\<close>

definition on_data_chunk_recv :: "nghttp2 \<Rightarrow> u32 \<Rightarrow> string \<Rightarrow> h2_session \<Rightarrow> ng_answer \<times> h2_session" where
  "on_data_chunk_recv ng i data s =
     (let (r, s1) = (case h2_find s i of
                       None \<Rightarrow> (NG_INVALID_STATE, s)
                     | Some st \<Rightarrow> (NG_OK, h2_raise K_body (H2Body i data) s))
      in (r, if auto_flow_control (h2_settings s) then snd (ng_do ng (ConsumeConnection (length data)) s1) else s1))"

definition on_stream_close :: "u32 \<Rightarrow> u32 \<Rightarrow> h2_session \<Rightarrow> ng_answer \<times> h2_session" where
  "on_stream_close i err s =
     (if h2_find s i = None then (NG_INVALID_STATE, s)
      else (NG_OK, close_stream i err (s\<lparr>h2_streams := AList.delete i (h2_streams s)\<rparr>)))"

definition on_send :: "string \<Rightarrow> h2_session \<Rightarrow> ng_answer \<times> h2_session" where
  "on_send data s = (NG_SENT (length data), h2_raise K_output (H2Output data) s)"

text \<open>\<^const>\<open>None\<close> where the source has no buffer yet.\<close>

definition on_data_source_read :: "u32 \<Rightarrow> nat \<Rightarrow> h2_session \<Rightarrow> (ng_answer \<times> h2_session) option" where
  "on_data_source_read i n s =
     (case h2_find s i of
        None \<Rightarrow> Some (NG_TEMPORAL_CALLBACK_FAILURE, s)
      | Some st \<Rightarrow>
          (case hs_buffer st of
             None \<Rightarrow> None
           | Some b \<Rightarrow>
               (if HAS_EOF \<notin> hs_flags st \<and> b = [] then Some (NG_DEFERRED, s)
                else let data = take n b; st1 = st\<lparr>hs_buffer := Some (drop n b)\<rparr>;
                         eof = (HAS_EOF \<in> hs_flags st \<and> drop n b = [])
                     in Some (NG_DATA data eof,
                          h2_raise K_data_sent (H2DataSent i (length data)) (h2_put i st1 s)))))"

datatype h2_callback =
    C_begin_frame
  | C_frame_recv h2_frame
  | C_frame_send h2_frame
  | C_invalid_frame
  | C_begin_headers u32
  | C_header u32 string string
  | C_data_chunk u32 string
  | C_stream_close u32 u32
  | C_send string
  | C_data_source_read u32 nat
  | C_error string

fun h2_call :: "nghttp2 \<Rightarrow> h2_callback \<Rightarrow> h2_session \<Rightarrow> (ng_answer \<times> h2_session) option" where
  "h2_call ng C_begin_frame s = Some (NG_OK, s)"
| "h2_call ng (C_frame_recv fr) s = map_option (\<lambda>t. (NG_OK, t)) (on_frame_recv fr s)"
| "h2_call ng (C_frame_send fr) s = Some (on_frame_send ng fr s)"
| "h2_call ng C_invalid_frame s = Some (NG_OK, s)"
| "h2_call ng (C_begin_headers i) s = Some (on_begin_headers i s)"
| "h2_call ng (C_header i n v) s = Some (on_header i n v s)"
| "h2_call ng (C_data_chunk i d) s = Some (on_data_chunk_recv ng i d s)"
| "h2_call ng (C_stream_close i e) s = Some (on_stream_close i e s)"
| "h2_call ng (C_send d) s = Some (on_send d s)"
| "h2_call ng (C_data_source_read i n) s = on_data_source_read i n s"
| "h2_call ng (C_error m) s = Some (NG_OK, s)"

datatype h2_run = H2Done int | H2Call h2_callback "ng_answer \<Rightarrow> h2_run"

primrec h2_exec :: "nghttp2 \<Rightarrow> h2_run \<Rightarrow> h2_session \<Rightarrow> (int \<times> h2_session) option" where
  "h2_exec ng (H2Done r) s = Some (r, s)"
| "h2_exec ng (H2Call c k) s =
     (case h2_call ng c s of None \<Rightarrow> None | Some (a, s1) \<Rightarrow> h2_exec ng (k a) s1)"

definition h2_input :: "nghttp2 \<Rightarrow> h2_run \<Rightarrow> h2_session \<Rightarrow> ((h2_failure + nat) \<times> h2_session) option" where
  "h2_input ng run s =
     (case h2_exec ng run s of
        None \<Rightarrow> None
      | Some (status, s1) \<Rightarrow> Some (if status < 0 then Inl (H2Status status) else Inr (nat status), s1))"

definition h2_flush :: "nghttp2 \<Rightarrow> h2_run \<Rightarrow> h2_session \<Rightarrow> (h2_failure option \<times> h2_session) option" where
  "h2_flush ng run s =
     (case h2_exec ng run (s\<lparr>h2_calls := h2_calls s @ [SessionSend]\<rparr>) of
        None \<Rightarrow> None
      | Some (status, s1) \<Rightarrow> Some (if status \<noteq> 0 then Some (H2Status status) else None, s1))"

section \<open>Operations of the user\<close>

definition push_data :: "nghttp2 \<Rightarrow> u32 \<Rightarrow> h2_stream \<Rightarrow> string \<Rightarrow> bool \<Rightarrow> h2_session \<Rightarrow> int \<times> h2_stream \<times> h2_session" where
  "push_data ng i st chunk eof s =
     (let b = (case hs_buffer st of None \<Rightarrow> [] | Some b \<Rightarrow> b);
          (r, s1) = ng_do ng (EvbufferAdd i chunk) s;
          st1 = h2_flag_set HAS_EOF eof (st\<lparr>hs_buffer := Some (if r = 0 then b @ chunk else b)\<rparr>)
      in (r, st1, h2_put i st1 s1))"

definition schedule_send :: "nghttp2 \<Rightarrow> u32 \<Rightarrow> h2_stream \<Rightarrow> h2_session \<Rightarrow> int \<times> h2_session" where
  "schedule_send ng i st s =
     (if SCHEDULED \<in> hs_flags st then ng_do ng (ResumeData i) s
      else ng_do ng (SubmitData i) (h2_put i (h2_flag_set SCHEDULED True st) s))"

definition submit_body :: "nghttp2 \<Rightarrow> u32 \<Rightarrow> string \<Rightarrow> bool \<Rightarrow> h2_session \<Rightarrow> h2_failure option \<times> h2_session" where
  "submit_body ng i chunk eof s =
     (case h2_find s i of
        None \<Rightarrow> (Some H2StreamNotFound, s)
      | Some st \<Rightarrow>
          (case push_data ng i st chunk eof s of
             (r, st1, s1) \<Rightarrow>
               (if r \<noteq> 0 then (Some H2PushFailed, s1)
                else case schedule_send ng i st1 s1 of
                       (r2, s2) \<Rightarrow> (if r2 \<noteq> 0 then Some (H2ScheduleFailed r2) else None, s2))))"

definition submit_trailer :: "nghttp2 \<Rightarrow> u32 \<Rightarrow> headers \<Rightarrow> h2_session \<Rightarrow> h2_failure option \<times> h2_session" where
  "submit_trailer ng i hs s =
     (case ng_do ng (SubmitTrailer i (m_headers hs)) s of
        (r, s1) \<Rightarrow> (if r \<noteq> 0 then Some (H2Status r) else None, s1))"

definition reset_stream :: "nghttp2 \<Rightarrow> u32 \<Rightarrow> u32 \<Rightarrow> h2_session \<Rightarrow> h2_failure option \<times> h2_session" where
  "reset_stream ng i err s =
     (case ng_do ng (SubmitRstStream i err) s of
        (r, s1) \<Rightarrow> (if r \<noteq> 0 then Some (H2Status r) else None, s1))"

definition consume_connection :: "nghttp2 \<Rightarrow> nat \<Rightarrow> h2_session \<Rightarrow> h2_failure option \<times> h2_session" where
  "consume_connection ng n s =
     (case ng_do ng (ConsumeConnection n) s of
        (r, s1) \<Rightarrow> (if r \<noteq> 0 then Some (H2Status r) else None, s1))"

definition consume_stream :: "nghttp2 \<Rightarrow> u32 \<Rightarrow> nat \<Rightarrow> h2_session \<Rightarrow> h2_failure option \<times> h2_session" where
  "consume_stream ng i n s =
     (let (e, s1) = (if \<not> auto_flow_control (h2_settings s) then consume_connection ng n s else (None, s))
      in case e of
           Some f \<Rightarrow> (Some (H2CausedBy f), s1)
         | None \<Rightarrow> (case ng_do ng (ConsumeStream i n) s1 of
                      (r, s2) \<Rightarrow> (if r \<noteq> 0 then Some (H2ConsumeFailed r) else None, s2)))"

definition set_session_close_error :: "u32 \<Rightarrow> h2_session \<Rightarrow> h2_session" where
  "set_session_close_error err s = s\<lparr>h2_error := err\<rparr>"

definition submit_response :: "nghttp2 \<Rightarrow> u32 \<Rightarrow> response \<Rightarrow> bool \<Rightarrow> h2_session \<Rightarrow> h2_failure option \<times> h2_session" where
  "submit_response ng i r eof s =
     (case h2_find s i of
        None \<Rightarrow> (Some H2StreamNotFound, s)
      | Some st \<Rightarrow>
          (case ng_do ng (SubmitHeaders (eof \<or> H2_HEAD_REQUEST \<in> hs_flags st) (Some i) (response_fields r)) s of
             (status, s1) \<Rightarrow> (if status \<noteq> 0 then Some (H2Status status) else None, s1)))"

definition submit_request :: "nghttp2 \<Rightarrow> request \<Rightarrow> bool \<Rightarrow> h2_session \<Rightarrow> (h2_failure + u32) \<times> h2_session" where
  "submit_request ng r eof s =
     (let (next, s1) = ng_do ng GetNextStreamId s;
          i = (word_of_int next :: u32);
          (r2, s2) = ng_do ng (SetNextStreamId i) s1
      in if r2 \<noteq> 0 then (Inl (H2StreamIdFailed r2), s2)
         else let head_request = (rq_method r = ''HEAD'');
                  eof' = (eof \<or> head_request);
                  (r3, s3) = ng_do ng (SubmitHeaders eof' None (request_fields r)) s2
              in if r3 < 0 then (Inl (H2RequestFailed r3), s3)
                 else let st = (case h2_find s3 i of None \<Rightarrow> h2_stream_new | Some st \<Rightarrow> st)
                      in (Inr i, h2_put i (h2_flag_set HAS_EOF eof' (h2_flag_set H2_HEAD_REQUEST head_request st)) s3))"

text \<open>The destructor: every stream is reported as cancelled (code 8), then the session is terminated and flushed.\<close>

definition h2_destroy :: "nghttp2 \<Rightarrow> h2_run \<Rightarrow> h2_session \<Rightarrow> h2_session option" where
  "h2_destroy ng run s =
     (let s1 = foldl (\<lambda>t (i, st). close_stream i 8 t) (s\<lparr>h2_streams := []\<rparr>) (h2_streams s)
      in if \<not> h2_open s then Some s1
         else let (r, s2) = ng_do ng (TerminateSession (h2_error s)) s1
              in map_option snd (h2_exec ng run (s2\<lparr>h2_calls := h2_calls s2 @ [SessionSend]\<rparr>)))"

end
