(* ===== verification/Http2Streams.thy ===== *)
theory Http2Streams
  imports Http2
begin

text \<open>
  Properties of the HTTP/2 session: messages that cross from one side to the other, bodies as queues, the invariant of
  every reachable session, flow control and the behaviour after a refused submission.
\<close>

section \<open>Frame lemmas\<close>

lemma h2_find_put [simp]: "h2_find (h2_put i st s) j = (if i = j then Some st else h2_find s j)"
  by (simp add: h2_find_def h2_put_def update_conv')

lemma h2_put_simps [simp]:
  "h2_side (h2_put i st s) = h2_side s" "h2_settings (h2_put i st s) = h2_settings s"
  "h2_handler (h2_put i st s) = h2_handler s" "h2_calls (h2_put i st s) = h2_calls s"
  "h2_events (h2_put i st s) = h2_events s" "h2_received_handshake (h2_put i st s) = h2_received_handshake s"
  by (simp_all add: h2_put_def)

lemma h2_put_put [simp]: "h2_put i a (h2_put i b s) = h2_put i a s"
  by (simp add: h2_put_def update_last)

lemma h2_put_put_events [simp]: "h2_put i a ((h2_put i b s)\<lparr>h2_events := es\<rparr>) = h2_put i a (s\<lparr>h2_events := es\<rparr>)"
  by (simp add: h2_put_def update_last)

lemma h2_find_events [simp]: "h2_find (s\<lparr>h2_events := es\<rparr>) i = h2_find s i"
  by (simp add: h2_find_def)

lemma h2_find_delete [simp]:
  "h2_find (s\<lparr>h2_streams := AList.delete i (h2_streams s)\<rparr>) j = (if i = j then None else h2_find s j)"
  by (simp add: h2_find_def delete_conv')

lemma h2_raise_simps [simp]:
  "h2_side (h2_raise k e s) = h2_side s" "h2_settings (h2_raise k e s) = h2_settings s"
  "h2_handler (h2_raise k e s) = h2_handler s" "h2_calls (h2_raise k e s) = h2_calls s"
  "h2_streams (h2_raise k e s) = h2_streams s" "h2_received_handshake (h2_raise k e s) = h2_received_handshake s"
  "h2_find (h2_raise k e s) i = h2_find s i"
  "k \<in> h2_handler s \<Longrightarrow> h2_events (h2_raise k e s) = h2_events s @ [e]"
  by (simp_all add: h2_raise_def h2_find_def)

lemma ng_do_simps [simp]:
  "h2_side (snd (ng_do ng c s)) = h2_side s" "h2_settings (snd (ng_do ng c s)) = h2_settings s"
  "h2_handler (snd (ng_do ng c s)) = h2_handler s" "h2_events (snd (ng_do ng c s)) = h2_events s"
  "h2_streams (snd (ng_do ng c s)) = h2_streams s" "h2_calls (snd (ng_do ng c s)) = h2_calls s @ [c]"
  "h2_received_handshake (snd (ng_do ng c s)) = h2_received_handshake s"
  "h2_find (snd (ng_do ng c s)) i = h2_find s i" "fst (ng_do ng c s) = ng (h2_calls s) c"
  by (simp_all add: ng_do_def h2_find_def)

section \<open>Receiving a message\<close>

text \<open>A sequence of callbacks that all succeed.\<close>

fun h2_feed :: "nghttp2 \<Rightarrow> h2_callback list \<Rightarrow> h2_session \<Rightarrow> h2_session option" where
  "h2_feed ng [] s = Some s"
| "h2_feed ng (c # cs) s =
     (case h2_call ng c s of Some (NG_OK, s1) \<Rightarrow> h2_feed ng cs s1 | _ \<Rightarrow> None)"

lemma h2_feed_append:
  "h2_feed ng (as @ bs) s = (case h2_feed ng as s of None \<Rightarrow> None | Some t \<Rightarrow> h2_feed ng bs t)"
  by (induction as arbitrary: s) (auto split: option.splits ng_answer.splits)

definition header_cbs :: "u32 \<Rightarrow> header list \<Rightarrow> h2_callback list" where
  "header_cbs i hs = map (\<lambda>h. C_header i (h_name h) (h_value h)) hs"

text \<open>One header callback that succeeds.\<close>

definition h2_recv :: "u32 \<Rightarrow> string \<Rightarrow> string \<Rightarrow> h2_session \<Rightarrow> h2_session option" where
  "h2_recv i n v s = (case on_header i n v s of (NG_OK, s1) \<Rightarrow> Some s1 | _ \<Rightarrow> None)"

interpretation h2_fields: field_receiver "h2_recv i" message_put "\<lambda>m s. h2_put i (st\<lparr>hs_message := Some m\<rparr>) s" for i st
  by unfold_locales (simp add: h2_recv_def on_header_def split: option.splits)

lemma feed_header_cbs: "h2_feed ng (header_cbs i hs) s = fold_fields (h2_recv i) hs s"
  by (induction hs arbitrary: s)
    (auto simp: header_cbs_def h2_recv_def split: option.splits prod.splits ng_answer.splits)

text \<open>The head of a message, with the stream known or not.\<close>

lemma feed_head:
  assumes "h2_find s i = None \<or> h2_find s i = Some st" "st = h2_stream_new \<or> h2_find s i = Some st" "hs_message st = None"
    and "message_put_all hs (new_message HTTP_2_0 (h2_side s = Http2Server)) = Some m"
  shows "h2_feed ng (C_begin_headers i # header_cbs i hs) s = Some (h2_put i (st\<lparr>hs_message := Some m\<rparr>) s)"
proof -
  let ?st = "st\<lparr>hs_message := Some (new_message HTTP_2_0 (h2_side s = Http2Server))\<rparr>"
  have "on_begin_headers i s = (NG_OK, h2_put i ?st s)"
    using assms(1-3) by (auto simp: on_begin_headers_def Let_def)
  then show ?thesis
    using h2_fields.receive_fields [where i = i and st = st and m = "new_message HTTP_2_0 (h2_side s = Http2Server)" and hs = hs and s = s] assms(4)
    by (simp add: feed_header_cbs)
qed

definition all_kinds :: "h2_kind set" where
  "all_kinds = {K_message, K_trailer, K_body, K_window_update, K_read_finished, K_stream_closed, K_close, K_output, K_data_sent}"

lemma in_all_kinds [simp]: "k \<in> all_kinds"
  by (cases k) (simp_all add: all_kinds_def)

text \<open>The end of the head of a first message and of the trailers.\<close>

definition received :: "h2_stream \<Rightarrow> bool" where
  "received st \<longleftrightarrow> MESSAGE_ALREADY_RECEIVED \<in> hs_flags st"

lemma h2_raise_put: "h2_raise k e (h2_put i st s) = h2_put i st (h2_raise k e s)"
  by (simp add: h2_raise_def h2_put_def)

lemma end_headers_message:
  assumes "h2_find s i = Some st" "hs_message st = Some m" "\<not> received st" "h2_handler s = all_kinds"
  shows "\<exists>st1. on_frame_recv (F_HEADERS i True eos) s =
      Some (h2_put i st1 (s\<lparr>h2_events := h2_events s @ [H2Message i (set_has_body (\<not> eos) m)] @
        (if eos then [H2ReadFinished i] else [])\<rparr>)) \<and>
    hs_message st1 = None \<and> received st1 = final_message m \<and> hs_buffer st1 = hs_buffer st"
proof (cases m)
  case (RequestMessage r)
  then show ?thesis using assms
    by (intro exI [of _ "h2_flag_set H2_HEAD_REQUEST (rq_method r = ''HEAD'')
          (h2_flag_set MESSAGE_ALREADY_RECEIVED True (st\<lparr>hs_message := None\<rparr>))"])
      (auto simp: on_frame_recv_def on_end_headers_def Let_def received_def h2_raise_def h2_put_def on_end_stream_def
      h2_flag_set_def set_has_body_def headers_set_has_body_def)
next
  case (ResponseMessage r)
  then show ?thesis using assms
    by (intro exI [of _ "h2_flag_set MESSAGE_ALREADY_RECEIVED (200 \<le> rs_status_code r) (st\<lparr>hs_message := None\<rparr>)"])
      (auto simp: on_frame_recv_def on_end_headers_def Let_def received_def h2_raise_def h2_put_def on_end_stream_def
      h2_flag_set_def set_has_body_def headers_set_has_body_def)
qed

lemma end_headers_trailer:
  assumes "h2_find s i = Some st" "hs_message st = Some m" "received st" "h2_handler s = all_kinds"
  shows "on_frame_recv (F_HEADERS i True eos) s =
      Some (h2_put i (st\<lparr>hs_message := None\<rparr>)
        (s\<lparr>h2_events := h2_events s @ [H2Trailer i (message_headers (set_has_body (\<not> eos) m))] @
        (if eos then [H2ReadFinished i] else [])\<rparr>))"
  using assms
  by (cases m) (auto simp: on_frame_recv_def on_end_headers_def Let_def received_def h2_raise_def h2_put_def on_end_stream_def
      set_has_body_def headers_set_has_body_def)

lemma feed_data:
  assumes "h2_find s i \<noteq> None" "h2_handler s = all_kinds" "\<not> auto_flow_control (h2_settings s)"
  shows "h2_feed ng (map (C_data_chunk i) ds) s = Some (s\<lparr>h2_events := h2_events s @ map (H2Body i) ds\<rparr>)"
  using assms
proof (induction ds arbitrary: s)
  case (Cons d ds)
  let ?s = "s\<lparr>h2_events := h2_events s @ [H2Body i d]\<rparr>"
  have "h2_call ng (C_data_chunk i d) s = Some (NG_OK, ?s)"
    using Cons.prems by (auto simp: on_data_chunk_recv_def h2_raise_def split: option.splits)
  moreover have "h2_find ?s i = h2_find s i" by (simp add: h2_find_def)
  ultimately show ?case using Cons.IH [of ?s] Cons.prems by simp
qed simp

text \<open>All the callbacks of one stream: head, data, trailers if there are any, end, close.\<close>

definition stream_tail :: "u32 \<Rightarrow> header list \<Rightarrow> h2_callback list" where
  "stream_tail i ts =
     (if ts = [] then [C_frame_recv (F_DATA i True)]
      else C_begin_headers i # header_cbs i ts @ [C_frame_recv (F_HEADERS i True True)])"

definition stream_calls :: "u32 \<Rightarrow> header list \<Rightarrow> string list \<Rightarrow> header list \<Rightarrow> u32 \<Rightarrow> h2_callback list" where
  "stream_calls i fs ds ts err =
     (C_begin_headers i # header_cbs i fs) @ [C_frame_recv (F_HEADERS i True False)] @ map (C_data_chunk i) ds @
     stream_tail i ts @ [C_stream_close i err]"

lemma feed_tail:
  assumes "h2_find s i = Some st" "hs_message st = None" "received st" "h2_handler s = all_kinds"
    and "list_all (\<lambda>h. h_name h \<notin> set pseudo_names) ts"
  shows "\<exists>st1. h2_feed ng (stream_tail i ts) s = Some (h2_put i st1 (s\<lparr>h2_events := h2_events s @
      (if ts = [] then [] else [H2Trailer i \<lparr>m_headers = ts, m_has_body = False\<rparr>]) @ [H2ReadFinished i]\<rparr>))"
proof (cases "ts = []")
  case True
  have "h2_put i st s = s" using assms(1)
    by (cases s) (simp add: h2_put_def h2_find_def update_triv)
  then have "h2_put i st (s\<lparr>h2_events := es\<rparr>) = s\<lparr>h2_events := es\<rparr>" for es
    by (cases s) (simp add: h2_put_def)
  then show ?thesis using True assms
    by (intro exI [of _ st]) (simp add: stream_tail_def on_frame_recv_def on_end_stream_def h2_raise_def)
next
  case False
  obtain m where m: "message_put_all ts (new_message HTTP_2_0 (h2_side s = Http2Server)) = Some m"
    "message_headers (set_has_body False m) = \<lparr>m_headers = ts, m_has_body = False\<rparr>"
    using message_put_all_plain [OF assms(5)] by blast
  let ?s1 = "h2_put i (st\<lparr>hs_message := Some m\<rparr>) s"
  have "h2_feed ng (C_begin_headers i # header_cbs i ts) s = Some ?s1"
    using feed_head [of s i st ts m ng] assms m(1) False by simp
  moreover have "on_frame_recv (F_HEADERS i True True) ?s1 = Some (h2_put i (st\<lparr>hs_message := None\<rparr>)
        (s\<lparr>h2_events := h2_events s @ [H2Trailer i \<lparr>m_headers = ts, m_has_body = False\<rparr>, H2ReadFinished i]\<rparr>))"
    using end_headers_trailer [of ?s1 i "st\<lparr>hs_message := Some m\<rparr>" m True] assms m(2)
    by (simp add: received_def)
  ultimately have "h2_feed ng ((C_begin_headers i # header_cbs i ts) @ [C_frame_recv (F_HEADERS i True True)]) s =
    Some (h2_put i (st\<lparr>hs_message := None\<rparr>)
        (s\<lparr>h2_events := h2_events s @ [H2Trailer i \<lparr>m_headers = ts, m_has_body = False\<rparr>, H2ReadFinished i]\<rparr>))"
    unfolding h2_feed_append by simp
  then show ?thesis using False by (auto simp: stream_tail_def)
qed

lemma feed_stream:
  assumes "h2_find s i = None \<or> h2_find s i = Some st" "st = h2_stream_new \<or> h2_find s i = Some st" "hs_message st = None"
    and "\<not> received st" "h2_handler s = all_kinds" "\<not> auto_flow_control (h2_settings s)"
    and "message_put_all fs (new_message HTTP_2_0 (h2_side s = Http2Server)) = Some m" "final_message m"
    and "list_all (\<lambda>h. h_name h \<notin> set pseudo_names) ts"
  shows "\<exists>s'. h2_feed ng (stream_calls i fs ds ts err) s = Some s' \<and> h2_find s' i = None \<and>
    h2_events s' = h2_events s @ [H2Message i (set_has_body True m)] @ map (H2Body i) ds @
      (if ts = [] then [] else [H2Trailer i \<lparr>m_headers = ts, m_has_body = False\<rparr>]) @
      [H2ReadFinished i, H2StreamClosed i err]"
proof -
  let ?s1 = "h2_put i (st\<lparr>hs_message := Some m\<rparr>) s"
  have f1: "h2_feed ng (C_begin_headers i # header_cbs i fs) s = Some ?s1"
    by (rule feed_head [OF assms(1-3,7)])
  obtain st2 where st2: "on_frame_recv (F_HEADERS i True False) ?s1 =
      Some (h2_put i st2 (?s1\<lparr>h2_events := h2_events ?s1 @ [H2Message i (set_has_body (\<not> False) m)] @ (if False then [H2ReadFinished i] else [])\<rparr>))"
    "hs_message st2 = None" "received st2"
    using end_headers_message [of ?s1 i "st\<lparr>hs_message := Some m\<rparr>" m False] assms(4,5,8) by (auto simp: received_def)
  define s2 where "s2 = h2_put i st2 (?s1\<lparr>h2_events := h2_events s @ [H2Message i (set_has_body True m)]\<rparr>)"
  have s2: "h2_find s2 i = Some st2" "h2_handler s2 = all_kinds" "\<not> auto_flow_control (h2_settings s2)"
    "h2_events s2 = h2_events s @ [H2Message i (set_has_body True m)]"
    using assms(5,6) by (simp_all add: s2_def)
  have f2: "h2_feed ng [C_frame_recv (F_HEADERS i True False)] ?s1 = Some s2" using st2(1) by (simp add: s2_def)
  define s3 where "s3 = s2\<lparr>h2_events := h2_events s2 @ map (H2Body i) ds\<rparr>"
  have f3: "h2_feed ng (map (C_data_chunk i) ds) s2 = Some s3" using feed_data [of s2 i ng ds] s2 by (simp add: s3_def)
  have "h2_find s3 i = Some st2" "h2_handler s3 = all_kinds" using s2 by (simp_all add: s3_def h2_find_def)
  from feed_tail [OF this(1) st2(2,3) this(2) assms(9), of ng] obtain st4 where
    f4: "h2_feed ng (stream_tail i ts) s3 = Some (h2_put i st4 (s3\<lparr>h2_events := h2_events s3 @
      (if ts = [] then [] else [H2Trailer i \<lparr>m_headers = ts, m_has_body = False\<rparr>]) @ [H2ReadFinished i]\<rparr>))" by blast
  define s4 where "s4 = h2_put i st4 (s3\<lparr>h2_events := h2_events s3 @
      (if ts = [] then [] else [H2Trailer i \<lparr>m_headers = ts, m_has_body = False\<rparr>]) @ [H2ReadFinished i]\<rparr>)"
  have s4: "h2_find s4 i = Some st4" "h2_handler s4 = all_kinds" "h2_events s4 = h2_events s3 @
      (if ts = [] then [] else [H2Trailer i \<lparr>m_headers = ts, m_has_body = False\<rparr>]) @ [H2ReadFinished i]"
    using s2 by (simp_all add: s4_def s3_def)
  let ?s5 = "close_stream i err (s4\<lparr>h2_streams := AList.delete i (h2_streams s4)\<rparr>)"
  have f5: "h2_feed ng [C_stream_close i err] s4 = Some ?s5" using s4 by (simp add: on_stream_close_def)
  have "h2_feed ng (stream_calls i fs ds ts err) s = Some ?s5"
    unfolding stream_calls_def h2_feed_append f1 option.case f2 f3 f4 [folded s4_def] f5 ..
  moreover have "h2_find ?s5 i = None" by (simp add: close_stream_def)
  moreover have "h2_events ?s5 = h2_events s4 @ [H2StreamClosed i err]"
    using s4(2) by (simp add: close_stream_def)
  ultimately show ?thesis using s4(3) s2(4) by (intro exI [of _ ?s5]) (simp add: s3_def)
qed

lemma submit_request_call:
  assumes "submit_request ng r eof c = (Inr j, c')"
  shows "last (h2_calls c') = SubmitHeaders (eof \<or> rq_method r = ''HEAD'') None (request_fields r)"
  using assms by (auto simp: submit_request_def ng_do_def Let_def split: if_splits)

text \<open>What reaches the server: when the head of the message ends the stream, nothing follows it but the close.\<close>

definition delivered_calls :: "u32 \<Rightarrow> bool \<Rightarrow> header list \<Rightarrow> string list \<Rightarrow> header list \<Rightarrow> u32 \<Rightarrow> h2_callback list" where
  "delivered_calls i end_stream fs ds ts err =
     (if end_stream then (C_begin_headers i # header_cbs i fs) @ [C_frame_recv (F_HEADERS i True True), C_stream_close i err]
      else stream_calls i fs ds ts err)"

lemma feed_ended_stream:
  assumes "h2_find s i = None \<or> h2_find s i = Some st" "st = h2_stream_new \<or> h2_find s i = Some st" "hs_message st = None"
    and "\<not> received st" "h2_handler s = all_kinds"
    and "message_put_all fs (new_message HTTP_2_0 (h2_side s = Http2Server)) = Some m"
  shows "\<exists>s'. h2_feed ng (delivered_calls i True fs ds ts err) s = Some s' \<and> h2_find s' i = None \<and>
    h2_events s' = h2_events s @ [H2Message i (set_has_body False m), H2ReadFinished i, H2StreamClosed i err]"
proof -
  let ?s1 = "h2_put i (st\<lparr>hs_message := Some m\<rparr>) s"
  have f1: "h2_feed ng (C_begin_headers i # header_cbs i fs) s = Some ?s1"
    by (rule feed_head [OF assms(1-3,6)])
  obtain st2 where st2: "on_frame_recv (F_HEADERS i True True) ?s1 =
      Some (h2_put i st2 (?s1\<lparr>h2_events := h2_events ?s1 @ [H2Message i (set_has_body (\<not> True) m)] @ (if True then [H2ReadFinished i] else [])\<rparr>))"
    using end_headers_message [of ?s1 i "st\<lparr>hs_message := Some m\<rparr>" m True] assms(4,5) by (auto simp: received_def)
  define s2 where "s2 = h2_put i st2 (?s1\<lparr>h2_events := h2_events s @ [H2Message i (set_has_body False m), H2ReadFinished i]\<rparr>)"
  have s2: "on_frame_recv (F_HEADERS i True True) ?s1 = Some s2" "h2_find s2 i = Some st2" "h2_handler s2 = all_kinds"
    "h2_events s2 = h2_events s @ [H2Message i (set_has_body False m), H2ReadFinished i]"
    using st2 assms(5) by (simp_all add: s2_def)
  let ?s3 = "close_stream i err (s2\<lparr>h2_streams := AList.delete i (h2_streams s2)\<rparr>)"
  have "h2_feed ng [C_frame_recv (F_HEADERS i True True), C_stream_close i err] ?s1 = Some ?s3"
    using s2 by (simp add: on_stream_close_def)
  then have "h2_feed ng (delivered_calls i True fs ds ts err) s = Some ?s3"
    unfolding delivered_calls_def if_True h2_feed_append f1 option.case .
  moreover have "h2_find ?s3 i = None" "h2_events ?s3 = h2_events s2 @ [H2StreamClosed i err]"
    using s2(3) by (simp_all add: close_stream_def)
  ultimately show ?thesis using s2(4) by (intro exI [of _ ?s3]) simp
qed

text \<open>C6: A request that a client submits is the request a server reports.  The client's last call into the library carries the request's
  fields and ends the stream exactly when the caller said that no body follows or the method is \<^verbatim>\<open>HEAD\<close>.  Delivered to a server as the
  head of a new stream, followed by data and trailers unless the head ended the stream, and by the close, the call makes the
  server report a request with the method, path, scheme, authority and headers of the one submitted, of version HTTP/2 and
  with a body exactly when the head did not end the stream, then the data in order, the trailers, the end of reading and the
  close, after which the stream is gone.  No header is named like a pseudo-header, the server has all callbacks set, and it does
  not consume the connection window by itself.\<close>

theorem h2_request_crosses:
  assumes "submit_request ngc r eof c = (Inr j, c')"
    and "list_all (\<lambda>h. h_name h \<notin> set pseudo_names) (m_headers (rq_headers r))"
    and "h2_side s = Http2Server" "h2_handler s = all_kinds" "\<not> auto_flow_control (h2_settings s)" "h2_find s i = None"
    and "list_all (\<lambda>h. h_name h \<notin> set pseudo_names) ts"
  shows "\<exists>fs s'. last (h2_calls c') = SubmitHeaders (eof \<or> rq_method r = ''HEAD'') None fs \<and>
    h2_feed ng (delivered_calls i (eof \<or> rq_method r = ''HEAD'') fs ds ts err) s = Some s' \<and> h2_find s' i = None \<and>
    h2_events s' = h2_events s @
      [H2Message i (RequestMessage (r\<lparr>rq_version := HTTP_2_0,
         rq_headers := (rq_headers r)\<lparr>m_has_body := \<not> (eof \<or> rq_method r = ''HEAD'')\<rparr>\<rparr>))] @
      (if eof \<or> rq_method r = ''HEAD'' then []
       else map (H2Body i) ds @ (if ts = [] then [] else [H2Trailer i \<lparr>m_headers = ts, m_has_body = False\<rparr>])) @
      [H2ReadFinished i, H2StreamClosed i err]"
proof -
  let ?e = "eof \<or> rq_method r = ''HEAD''"
  let ?r = "r\<lparr>rq_version := HTTP_2_0, rq_headers := (rq_headers r)\<lparr>m_has_body := False\<rparr>\<rparr>"
  note read = request_fields_read [OF assms(2), of HTTP_2_0]
  have "\<exists>s'. h2_feed ng (delivered_calls i ?e (request_fields r) ds ts err) s = Some s' \<and> h2_find s' i = None \<and>
    h2_events s' = h2_events s @ [H2Message i (set_has_body (\<not> ?e) (RequestMessage ?r))] @
      (if ?e then [] else map (H2Body i) ds @ (if ts = [] then [] else [H2Trailer i \<lparr>m_headers = ts, m_has_body = False\<rparr>])) @
      [H2ReadFinished i, H2StreamClosed i err]"
  proof (cases ?e)
    case True
    have "\<exists>s'. h2_feed ng (delivered_calls i True (request_fields r) ds ts err) s = Some s' \<and> h2_find s' i = None \<and>
      h2_events s' = h2_events s @ [H2Message i (set_has_body False (RequestMessage ?r)), H2ReadFinished i, H2StreamClosed i err]"
      by (rule feed_ended_stream [where st = h2_stream_new])
        (use assms read in \<open>simp_all add: h2_stream_new_def received_def\<close>)
    then show ?thesis using True by simp
  next
    case False
    have "\<exists>s'. h2_feed ng (stream_calls i (request_fields r) ds ts err) s = Some s' \<and> h2_find s' i = None \<and>
      h2_events s' = h2_events s @ [H2Message i (set_has_body True (RequestMessage ?r))] @
        map (H2Body i) ds @ (if ts = [] then [] else [H2Trailer i \<lparr>m_headers = ts, m_has_body = False\<rparr>]) @
        [H2ReadFinished i, H2StreamClosed i err]"
      by (rule feed_stream [where st = h2_stream_new])
        (use assms read in \<open>simp_all add: h2_stream_new_def received_def\<close>)
    then show ?thesis using False by (simp add: delivered_calls_def)
  qed
  then show ?thesis
    using submit_request_call [OF assms(1)] by (simp add: set_has_body_def)
qed

definition h2_ok :: nghttp2 where
  "h2_ok calls c = (if c = GetNextStreamId then 1 else 0)"

theorem h2_request_crosses_witness:
  "(\<exists>s'. h2_feed h2_ok (delivered_calls 1 False (request_fields (make_request HTTP_2_0 ''POST'' ''/'')) [''ab''] [make_header ''t'' ''1''] 0)
      (h2_session_new Http2Server h2_default_settings all_kinds) = Some s' \<and> h2_find s' 1 = None \<and>
    h2_events s' = [H2Message 1 (RequestMessage ((make_request HTTP_2_0 ''POST'' ''/'')\<lparr>rq_headers := \<lparr>m_headers = [], m_has_body = True\<rparr>\<rparr>)),
      H2Body 1 ''ab'', H2Trailer 1 \<lparr>m_headers = [make_header ''t'' ''1''], m_has_body = False\<rparr>, H2ReadFinished 1, H2StreamClosed 1 0]) \<and>
   (\<exists>s'. h2_feed h2_ok (delivered_calls 1 True (request_fields (make_request HTTP_2_0 ''HEAD'' ''/'')) [] [] 0)
      (h2_session_new Http2Server h2_default_settings all_kinds) = Some s' \<and> h2_find s' 1 = None \<and>
    h2_events s' = [H2Message 1 (RequestMessage ((make_request HTTP_2_0 ''HEAD'' ''/'')\<lparr>rq_headers := \<lparr>m_headers = [], m_has_body = False\<rparr>\<rparr>)),
      H2ReadFinished 1, H2StreamClosed 1 0])"
proof -
  let ?c = "h2_session_new Http2Client h2_default_settings all_kinds"
  let ?s = "h2_session_new Http2Server h2_default_settings all_kinds"
  have sub: "submit_request h2_ok r False ?c = (Inr 1, snd (submit_request h2_ok r False ?c))" for r
    by (simp add: submit_request_def ng_do_def h2_ok_def Let_def)
  have s: "h2_side ?s = Http2Server" "h2_handler ?s = all_kinds" "\<not> auto_flow_control (h2_settings ?s)" "h2_find ?s 1 = None"
      "h2_events ?s = []"
    by (simp_all add: h2_session_new_def h2_default_settings_def h2_find_def)
  have plain: "list_all (\<lambda>h. h_name h \<notin> set pseudo_names) (m_headers (rq_headers (make_request v m p)))" for v m p
    by (simp add: make_request_def headers_empty_def)
  have t: "list_all (\<lambda>h. h_name h \<notin> set pseudo_names) [make_header ''t'' ''1'']" "list_all (\<lambda>h. h_name h \<notin> set pseudo_names) []"
    by (simp_all add: make_header_def pseudo_names_def)
  have call: "last (h2_calls (snd (submit_request h2_ok r False ?c))) = SubmitHeaders (False \<or> rq_method r = ''HEAD'') None (request_fields r)" for r
    by (rule submit_request_call [OF sub])
  show ?thesis
    using h2_request_crosses [OF sub plain s(1-4) t(1), of HTTP_2_0 "''POST''" "''/''" h2_ok "[''ab'']" 0]
      h2_request_crosses [OF sub plain s(1-4) t(2), of HTTP_2_0 "''HEAD''" "''/''" h2_ok "[]" 0]
    unfolding call s(5) by (simp add: make_request_def headers_empty_def)
qed

text \<open>Also: a final response with a status below two to the power 31 that a server submits is the response a client
  reports on the stream of its request, followed by the data, the trailers, the end of reading and the close.\<close>

theorem h2_response_crosses:
  assumes "submit_response ngs k (make_response HTTP_2_0 code\<lparr>rs_headers := hs\<rparr>) eof t = (None, t')"
    and "last (h2_calls t') = SubmitHeaders e (Some k) fs" "200 \<le> code" "code < 2 ^ 31"
    and "list_all (\<lambda>h. h_name h \<notin> set pseudo_names) (m_headers hs)"
    and "h2_side s = Http2Client" "h2_handler s = all_kinds" "\<not> auto_flow_control (h2_settings s)"
    and "h2_find s i = Some st" "hs_message st = None" "MESSAGE_ALREADY_RECEIVED \<notin> hs_flags st"
    and "list_all (\<lambda>h. h_name h \<notin> set pseudo_names) ts"
  shows "\<exists>s'. h2_feed ng (stream_calls i fs ds ts err) s = Some s' \<and> h2_find s' i = None \<and>
    h2_events s' = h2_events s @
      [H2Message i (ResponseMessage (make_response HTTP_2_0 code\<lparr>rs_headers := hs\<lparr>m_has_body := True\<rparr>\<rparr>))] @
      map (H2Body i) ds @ (if ts = [] then [] else [H2Trailer i \<lparr>m_headers = ts, m_has_body = False\<rparr>]) @
      [H2ReadFinished i, H2StreamClosed i err]"
proof -
  let ?r = "make_response HTTP_2_0 code\<lparr>rs_headers := hs\<rparr>"
  have fs: "fs = response_fields ?r"
    using assms(1,2) by (auto simp: submit_response_def ng_do_def split: option.splits if_splits)
  have v: "HTTP_1_1 < HTTP_2_0" by (simp add: version_defs)
  have m: "message_put_all (response_fields ?r) (new_message HTTP_2_0 False) =
    Some (ResponseMessage (?r\<lparr>rs_version := HTTP_2_0, rs_headers := hs\<lparr>m_has_body := False\<rparr>\<rparr>))"
    using response_fields_read [of ?r HTTP_2_0] assms(3,4,5) v by (simp add: make_response_def response_set_status_code_def Let_def)
  have "\<exists>s'. h2_feed ng (stream_calls i fs ds ts err) s = Some s' \<and> h2_find s' i = None \<and>
    h2_events s' = h2_events s @ [H2Message i (set_has_body True (ResponseMessage (?r\<lparr>rs_version := HTTP_2_0, rs_headers := hs\<lparr>m_has_body := False\<rparr>\<rparr>)))] @
      map (H2Body i) ds @ (if ts = [] then [] else [H2Trailer i \<lparr>m_headers = ts, m_has_body = False\<rparr>]) @
      [H2ReadFinished i, H2StreamClosed i err]"
    by (rule feed_stream [where st = st])
      (use assms fs m in \<open>simp_all add: received_def response_fields_eq make_response_def response_set_status_code_def Let_def\<close>)
  then show ?thesis using v by (simp add: set_has_body_def make_response_def response_set_status_code_def Let_def)
qed

theorem h2_response_crosses_witness:
  "\<exists>s'. h2_feed h2_ok (stream_calls 1 (response_fields (make_response HTTP_2_0 404\<lparr>rs_headers := headers_empty\<rparr>)) [''x''] [] 0)
      (snd (submit_request h2_ok (make_request HTTP_2_0 ''GET'' ''/'') True (h2_session_new Http2Client h2_default_settings all_kinds))) = Some s' \<and>
    h2_find s' 1 = None \<and>
    h2_events s' = [H2Message 1 (ResponseMessage (make_response HTTP_2_0 404\<lparr>rs_headers := headers_empty\<lparr>m_has_body := True\<rparr>\<rparr>)),
      H2Body 1 ''x'', H2ReadFinished 1, H2StreamClosed 1 0]"
proof -
  let ?t = "h2_put 1 h2_stream_new (h2_session_new Http2Server h2_default_settings all_kinds)"
  let ?s = "snd (submit_request h2_ok (make_request HTTP_2_0 ''GET'' ''/'') True (h2_session_new Http2Client h2_default_settings all_kinds))"
  let ?r = "make_response HTTP_2_0 404\<lparr>rs_headers := headers_empty\<rparr>"
  have sub: "submit_response h2_ok 1 ?r True ?t = (None, snd (submit_response h2_ok 1 ?r True ?t))"
    and call: "last (h2_calls (snd (submit_response h2_ok 1 ?r True ?t))) = SubmitHeaders True (Some 1) (response_fields ?r)"
    by (simp_all add: submit_response_def ng_do_def h2_ok_def)
  let ?st = "\<lparr>hs_message = None, hs_buffer = None, hs_flags = {HAS_EOF}\<rparr>"
  have s: "h2_find ?s 1 = Some ?st" "h2_side ?s = Http2Client" "h2_handler ?s = all_kinds"
    "\<not> auto_flow_control (h2_settings ?s)" "h2_events ?s = []"
    by (simp_all add: submit_request_def ng_do_def h2_ok_def Let_def h2_session_new_def h2_default_settings_def h2_find_def
        h2_put_def h2_flag_set_def h2_stream_new_def make_request_def)
  show ?thesis
    using h2_response_crosses [OF sub call, of ?s 1 ?st "[]" h2_ok "[''x'']" 0] s by (simp add: headers_empty_def)
qed

section \<open>Bodies on their way out\<close>

text \<open>The user pushes pieces of a body, the library pulls data when it can send.\<close>

datatype body_op = Push string bool | Pull nat

text \<open>The data that was pulled, and whether the last pull answered that the body is complete.\<close>

fun body_run :: "nghttp2 \<Rightarrow> u32 \<Rightarrow> body_op list \<Rightarrow> h2_session \<Rightarrow> (string \<times> h2_session) option" where
  "body_run ng i [] s = Some ([], s)"
| "body_run ng i (Push c eof # ops) s =
     (case submit_body ng i c eof s of
        (None, s1) \<Rightarrow> body_run ng i ops s1
      | (Some e, s1) \<Rightarrow> None)"
| "body_run ng i (Pull n # ops) s =
     (case on_data_source_read i n s of
        Some (NG_DATA d eof, s1) \<Rightarrow> map_option (\<lambda>(out, t). (d @ out, t)) (body_run ng i ops s1)
      | Some (NG_DEFERRED, s1) \<Rightarrow> body_run ng i ops s1
      | _ \<Rightarrow> None)"

fun pushed :: "body_op list \<Rightarrow> string" where
  "pushed [] = []"
| "pushed (Push c eof # ops) = c @ pushed ops"
| "pushed (Pull n # ops) = pushed ops"

fun ended :: "bool \<Rightarrow> body_op list \<Rightarrow> bool" where
  "ended e [] = e"
| "ended e (Push c eof # ops) = ended eof ops"
| "ended e (Pull n # ops) = ended e ops"

definition buffered :: "h2_session \<Rightarrow> u32 \<Rightarrow> string \<Rightarrow> bool \<Rightarrow> bool" where
  "buffered s i b e \<longleftrightarrow> (case h2_find s i of None \<Rightarrow> False | Some st \<Rightarrow> hs_buffer st = Some b \<and> (HAS_EOF \<in> hs_flags st) = e)"

lemma submit_body_buffered:
  assumes "h2_find s i = Some st" "\<And>cs c. ng cs c = 0"
  shows "\<exists>s1. submit_body ng i c eof s = (None, s1) \<and> buffered s1 i ((case hs_buffer st of None \<Rightarrow> [] | Some b \<Rightarrow> b) @ c) eof"
  using assms
  by (auto simp: submit_body_def push_data_def schedule_send_def ng_do_def Let_def buffered_def h2_flag_set_def h2_find_def h2_put_def
      update_conv')

lemma read_buffered:
  assumes "buffered s i b e"
  shows "\<exists>s1. on_data_source_read i n s = Some (if \<not> e \<and> b = [] then NG_DEFERRED else NG_DATA (take n b) (e \<and> drop n b = []), s1) \<and>
    buffered s1 i (drop n b) e"
  using assms by (auto simp: buffered_def on_data_source_read_def Let_def split: option.splits)

lemma body_run_buffered:
  assumes "\<And>cs c. ng cs c = 0" "buffered s i b e"
  shows "\<exists>out s' b'. body_run ng i ops s = Some (out, s') \<and> out @ b' = b @ pushed ops \<and> buffered s' i b' (ended e ops)"
  using assms(2)
proof (induction ops arbitrary: s b e)
  case (Cons op ops)
  show ?case
  proof (cases op)
    case (Push c eof)
    obtain st where st: "h2_find s i = Some st" "hs_buffer st = Some b"
      using Cons.prems by (auto simp: buffered_def split: option.splits)
    obtain s1 where "submit_body ng i c eof s = (None, s1)" "buffered s1 i (b @ c) eof"
      using submit_body_buffered [of s i st ng c eof] st assms(1) by auto
    then show ?thesis using Cons.IH [of s1 "b @ c" eof] Push by auto
  next
    case (Pull n)
    obtain s1 where s1: "on_data_source_read i n s =
        Some (if \<not> e \<and> b = [] then NG_DEFERRED else NG_DATA (take n b) (e \<and> drop n b = []), s1)"
      "buffered s1 i (drop n b) e"
      using read_buffered [OF Cons.prems, of n] by blast
    obtain out s' b' where r: "body_run ng i ops s1 = Some (out, s')" "out @ b' = drop n b @ pushed ops"
      "buffered s' i b' (ended e ops)"
      using Cons.IH [OF s1(2)] by blast
    show ?thesis
    proof (cases "\<not> e \<and> b = []")
      case True
      then show ?thesis using s1 r Pull by auto
    next
      case False
      then have "body_run ng i (op # ops) s = Some (take n b @ out, s')" using s1(1) r(1) Pull by auto
      moreover have "(take n b @ out) @ b' = b @ pushed (op # ops)" using r(2) Pull by simp
      ultimately show ?thesis using r(3) Pull by auto
    qed
  qed
qed auto

text \<open>C10: The body of an HTTP/2 message is a queue.  Let the user push a first piece on a stream, with or without a buffer, and then push further
  pieces while the library pulls, in any order and in any portions, and let the library and the buffer accept every call.  What was
  pulled followed by what is still buffered is what was buffered at the start, if anything, and then what was pushed, in order;
  the next pull of at most \<^verbatim>\<open>n\<close> octets takes them from the front and answers that the body is complete exactly when the last push
  said so and nothing is left, and it is put off when there is nothing yet.\<close>

theorem h2_body_fifo:
  assumes "h2_find s i = Some st" "\<And>cs c. ng cs c = 0"
  shows "\<exists>out s' b'. body_run ng i (Push c eof # ops) s = Some (out, s') \<and>
    out @ b' = (case hs_buffer st of None \<Rightarrow> [] | Some b \<Rightarrow> b) @ pushed (Push c eof # ops) \<and>
    fst (the (on_data_source_read i n s')) =
      (if b' = [] \<and> \<not> ended eof ops then NG_DEFERRED else NG_DATA (take n b') (ended eof ops \<and> length b' \<le> n))"
proof -
  let ?b = "(case hs_buffer st of None \<Rightarrow> [] | Some b \<Rightarrow> b) @ c"
  obtain s1 where s1: "submit_body ng i c eof s = (None, s1)" "buffered s1 i ?b eof"
    using submit_body_buffered [OF assms(1), of ng c eof] assms(2) by blast
  from body_run_buffered [of ng s1 i ?b eof ops] assms(2) s1(2) obtain out s' b' where
    r: "body_run ng i ops s1 = Some (out, s')" "out @ b' = ?b @ pushed ops" "buffered s' i b' (ended eof ops)" by blast
  show ?thesis
    using s1(1) r read_buffered [OF r(3), of n] by (intro exI [of _ out] exI [of _ s'] exI [of _ b']) auto
qed

theorem h2_body_fifo_witness:
  "\<exists>out s' b'. body_run (\<lambda>cs c. 0) 1 [Push ''ab'' False, Pull 1, Push ''c'' True]
      (h2_put 1 h2_stream_new (h2_session_new Http2Client h2_default_settings all_kinds)) =
      Some (out, s') \<and> out @ b' = ''abc'' \<and>
    fst (the (on_data_source_read 1 10 s')) = NG_DATA (take 10 b') (length b' \<le> 10)"
  using h2_body_fifo [of "h2_put 1 h2_stream_new (h2_session_new Http2Client h2_default_settings all_kinds)" 1 h2_stream_new
      "\<lambda>cs c. 0" "''ab''" False "[Pull 1, Push ''c'' True]" 10]
  by (simp add: h2_stream_new_def)

section \<open>Every reachable session\<close>

inductive h2_reachable :: "nghttp2 \<Rightarrow> h2_side \<Rightarrow> h2_session \<Rightarrow> bool" for ng d where
  make: "h2_make ng d st handler = Inr s \<Longrightarrow> h2_reachable ng d s"
| callback: "h2_reachable ng d s \<Longrightarrow> h2_call ng c s = Some (a, s') \<Longrightarrow> h2_reachable ng d s'"
| body: "h2_reachable ng d s \<Longrightarrow> h2_reachable ng d (snd (submit_body ng i chunk eof s))"
| trailer: "h2_reachable ng d s \<Longrightarrow> h2_reachable ng d (snd (submit_trailer ng i hs s))"
| reset: "h2_reachable ng d s \<Longrightarrow> h2_reachable ng d (snd (reset_stream ng i err s))"
| consume: "h2_reachable ng d s \<Longrightarrow> h2_reachable ng d (snd (consume_connection ng n s))"
| consume_stream: "h2_reachable ng d s \<Longrightarrow> h2_reachable ng d (snd (consume_stream ng i n s))"
| close_error: "h2_reachable ng d s \<Longrightarrow> h2_reachable ng d (set_session_close_error err s)"
| response: "h2_reachable ng d s \<Longrightarrow> d = Http2Server \<Longrightarrow> h2_reachable ng d (snd (submit_response ng i rs eof s))"
| request: "h2_reachable ng d s \<Longrightarrow> d = Http2Client \<Longrightarrow> h2_reachable ng d (snd (submit_request ng rq eof s))"

fun is_settings :: "ng_call \<Rightarrow> bool" where
  "is_settings (SubmitSettings es) = True"
| "is_settings _ = False"

definition settings_sent :: "h2_session \<Rightarrow> nat" where
  "settings_sent s = length (filter is_settings (h2_calls s))"

definition source_ok :: "h2_stream \<Rightarrow> bool" where
  "source_ok st = (if SCHEDULED \<in> hs_flags st then hs_buffer st \<noteq> None else True)"

definition h2_inv :: "h2_side \<Rightarrow> h2_session \<Rightarrow> bool" where
  "h2_inv d s \<longleftrightarrow> h2_side s = d \<and> distinct (map fst (h2_streams s)) \<and>
     (\<forall>i st. h2_find s i = Some st \<longrightarrow> source_ok st) \<and>
     settings_sent s = (if d = Http2Server then (if h2_received_handshake s then 1 else 0) else 1)"

lemma h2_inv_put: "h2_inv d s \<Longrightarrow> source_ok st \<Longrightarrow> h2_inv d (h2_put i st s)"
  by (auto simp: h2_inv_def settings_sent_def) (auto simp: h2_put_def distinct_update)

lemma h2_inv_raise: "h2_inv d (h2_raise k e s) = h2_inv d s"
  by (simp add: h2_inv_def settings_sent_def)

lemma h2_inv_ng: "\<not> is_settings c \<Longrightarrow> h2_inv d (snd (ng_do ng c s)) = h2_inv d s"
  by (simp add: h2_inv_def settings_sent_def)

lemma h2_inv_find: "h2_inv d s \<Longrightarrow> h2_find s i = Some st \<Longrightarrow> source_ok st"
  by (simp add: h2_inv_def)

lemma source_ok_new [simp]: "source_ok h2_stream_new"
  by (simp add: source_ok_def h2_stream_new_def)

lemma source_ok_message [simp]: "source_ok (st\<lparr>hs_message := m\<rparr>) = source_ok st"
  by (simp add: source_ok_def)

lemma source_ok_flag [simp]: "f \<noteq> SCHEDULED \<Longrightarrow> source_ok (h2_flag_set f b st) = source_ok st"
  by (auto simp: source_ok_def h2_flag_set_def)

lemma source_ok_buffer [simp]: "source_ok (st\<lparr>hs_buffer := Some b\<rparr>)"
  by (simp add: source_ok_def)

lemma source_ok_flag_buffer: "hs_buffer st \<noteq> None \<Longrightarrow> source_ok (h2_flag_set f b st)"
  by (simp add: source_ok_def h2_flag_set_def)

lemmas h2_inv_rules = h2_inv_put h2_inv_raise h2_inv_ng

lemma settings_inv:
  assumes "h2_submit_settings ng s = (e, s')"
  shows "settings_sent s' = settings_sent s + 1" "h2_streams s' = h2_streams s" "h2_side s' = h2_side s"
    "h2_received_handshake s' = h2_received_handshake s"
  using assms by (auto simp: h2_submit_settings_def ng_do_def settings_sent_def Let_def split: if_splits)

lemma on_end_headers_inv: "h2_inv d s \<Longrightarrow> source_ok st \<Longrightarrow> on_end_headers i st es s = Some s' \<Longrightarrow> h2_inv d s'"
  by (auto simp: on_end_headers_def Let_def h2_inv_raise intro!: h2_inv_put
      split: option.splits if_splits http_message.splits)

lemma on_frame_recv_inv:
  assumes "h2_inv d s" "on_frame_recv fr s = Some s'"
  shows "h2_inv d s'"
proof (cases fr)
  case (F_HEADERS i eh es)
  show ?thesis
  proof (cases "h2_find s i")
    case (Some st)
    note step = on_end_headers_inv [OF assms(1) h2_inv_find [OF assms(1) Some]]
    show ?thesis using assms F_HEADERS Some
      by (auto simp: on_frame_recv_def on_end_stream_def h2_inv_raise dest: step split: option.splits if_splits)
  qed (use assms F_HEADERS in \<open>simp add: on_frame_recv_def\<close>)
qed (use assms in \<open>auto simp: on_frame_recv_def on_end_stream_def h2_inv_raise split: if_splits\<close>)

lemma on_frame_send_inv:
  assumes "h2_inv d s"
  shows "h2_inv d (snd (on_frame_send ng fr s))"
proof (cases fr)
  case (F_SETTINGS ack)
  obtain e t where t: "h2_submit_settings ng (s\<lparr>h2_received_handshake := True\<rparr>) = (e, t)" by fastforce
  have "h2_inv d t" if "h2_side s = Http2Server" "\<not> h2_received_handshake s"
    using settings_inv [OF t] assms that by (auto simp: h2_inv_def settings_sent_def h2_find_def)
  then show ?thesis using F_SETTINGS t assms by (auto simp: on_frame_send_def split: option.splits)
qed (use assms in \<open>auto simp: on_frame_send_def\<close>)

lemma on_stream_close_inv: "h2_inv d s \<Longrightarrow> h2_inv d (snd (on_stream_close i err s))"
  by (auto simp: on_stream_close_def close_stream_def h2_inv_raise)
    (auto simp: h2_inv_def settings_sent_def distinct_delete)

lemma on_header_inv: "h2_inv d s \<Longrightarrow> h2_inv d (snd (on_header i n v s))"
  by (auto simp: on_header_def intro!: h2_inv_put dest: h2_inv_find split: option.splits)

lemma on_begin_headers_inv: "h2_inv d s \<Longrightarrow> h2_inv d (snd (on_begin_headers i s))"
  by (auto simp: on_begin_headers_def Let_def intro!: h2_inv_put dest: h2_inv_find split: option.splits)

lemma on_data_source_read_inv: "h2_inv d s \<Longrightarrow> on_data_source_read i n s = Some (a, s') \<Longrightarrow> h2_inv d s'"
  by (auto simp: on_data_source_read_def Let_def h2_inv_raise intro!: h2_inv_put split: option.splits if_splits)

lemma on_data_chunk_recv_inv: "h2_inv d s \<Longrightarrow> h2_inv d (snd (on_data_chunk_recv ng i c s))"
  by (auto simp: on_data_chunk_recv_def Let_def h2_inv_raise h2_inv_ng split: option.splits)

lemma h2_call_inv: "h2_inv d s \<Longrightarrow> h2_call ng c s = Some (a, s') \<Longrightarrow> h2_inv d s'"
proof (cases c)
  case (C_frame_send fr)
  then show "h2_inv d s \<Longrightarrow> h2_call ng c s = Some (a, s') \<Longrightarrow> h2_inv d s'" using on_frame_send_inv [of d s ng fr] by simp
next
  case (C_begin_headers i)
  then show "h2_inv d s \<Longrightarrow> h2_call ng c s = Some (a, s') \<Longrightarrow> h2_inv d s'" using on_begin_headers_inv [of d s i] by simp
next
  case (C_header i n v)
  then show "h2_inv d s \<Longrightarrow> h2_call ng c s = Some (a, s') \<Longrightarrow> h2_inv d s'" using on_header_inv [of d s i n v] by simp
next
  case (C_data_chunk i x)
  then show "h2_inv d s \<Longrightarrow> h2_call ng c s = Some (a, s') \<Longrightarrow> h2_inv d s'" using on_data_chunk_recv_inv [of d s ng i x] by simp
next
  case (C_stream_close i x)
  then show "h2_inv d s \<Longrightarrow> h2_call ng c s = Some (a, s') \<Longrightarrow> h2_inv d s'" using on_stream_close_inv [of d s i x] by simp
qed (auto dest: on_frame_recv_inv on_data_source_read_inv simp: on_send_def h2_inv_raise)

lemma submit_body_inv:
  assumes "h2_inv d s"
  shows "h2_inv d (snd (submit_body ng i c eof s))"
proof (cases "h2_find s i")
  case None
  then show ?thesis using assms by (simp add: submit_body_def)
next
  case (Some st)
  obtain r st1 s1 where p: "push_data ng i st c eof s = (r, st1, s1)" by (metis surj_pair)
  have st1: "hs_buffer st1 \<noteq> None" using p by (auto simp: push_data_def Let_def h2_flag_set_def ng_do_def)
  have "h2_inv d (h2_put i st1 (snd (ng_do ng (EvbufferAdd i c) s)))"
    using assms st1 by (intro h2_inv_put) (auto simp: h2_inv_ng source_ok_def)
  then have "h2_inv d s1" using p by (auto simp: push_data_def Let_def ng_do_def)
  then have "h2_inv d (snd (schedule_send ng i st1 s1))"
    using st1 by (auto simp: schedule_send_def h2_inv_ng intro!: h2_inv_put source_ok_flag_buffer)
  then show ?thesis using Some p \<open>h2_inv d s1\<close> by (auto simp: submit_body_def split: prod.splits)
qed

lemma ng_do_split: "(case ng_do ng c s of (r, t) \<Rightarrow> f r t) = f (ng (h2_calls s) c) (snd (ng_do ng c s))"
  by (simp add: ng_do_def)

lemma submit_request_inv:
  assumes "h2_inv d s"
  shows "h2_inv d (snd (submit_request ng rq eof s))"
proof -
  let ?i = "word_of_int (ng (h2_calls s) GetNextStreamId) :: u32"
  let ?s1 = "snd (ng_do ng GetNextStreamId s)"
  let ?s2 = "snd (ng_do ng (SetNextStreamId ?i) ?s1)"
  let ?s3 = "snd (ng_do ng (SubmitHeaders (eof \<or> rq_method rq = ''HEAD'') None (request_fields rq)) ?s2)"
  have inv: "h2_inv d ?s2" "h2_inv d ?s3" using assms by (simp_all add: h2_inv_ng)
  have "source_ok (case h2_find ?s3 ?i of None \<Rightarrow> h2_stream_new | Some st \<Rightarrow> st)"
    using h2_inv_find [OF inv(2), of ?i] by (auto split: option.splits)
  then have "h2_inv d (h2_put ?i (h2_flag_set HAS_EOF (eof \<or> rq_method rq = ''HEAD'') (h2_flag_set H2_HEAD_REQUEST (rq_method rq = ''HEAD'')
      (case h2_find ?s3 ?i of None \<Rightarrow> h2_stream_new | Some st \<Rightarrow> st))) ?s3)"
    using inv(2) by (intro h2_inv_put) simp_all
  then show ?thesis using inv by (simp add: submit_request_def Let_def ng_do_split)
qed

lemma h2_make_inv: "h2_make ng d st handler = Inr s \<Longrightarrow> h2_inv d s"
proof -
  assume m: "h2_make ng d st handler = Inr s"
  let ?s = "snd (ng_do ng (SessionNew d (\<not> auto_flow_control st)) (h2_session_new d st handler))\<lparr>h2_open := True\<rparr>"
  have b: "h2_side ?s = d" "h2_streams ?s = []" "settings_sent ?s = 0" "\<not> h2_received_handshake ?s"
    by (simp_all add: h2_session_new_def settings_sent_def)
  show ?thesis
  proof (cases d)
    case Http2Server
    then have "s = ?s" using m
      by (auto simp: h2_make_def h2_initialize_def Let_def ng_do_split h2_session_new_def split: if_splits)
    then show ?thesis using b Http2Server by (simp add: h2_inv_def h2_find_def)
  next
    case Http2Client
    obtain e t where t: "h2_submit_settings ng ?s = (e, t)" by fastforce
    then have "s = t" using m Http2Client
      by (auto simp: h2_make_def h2_initialize_def Let_def ng_do_split h2_session_new_def split: if_splits option.splits)
    then show ?thesis using settings_inv [OF t] b Http2Client by (simp add: h2_inv_def h2_find_def)
  qed
qed

lemma h2_reachable_inv: "h2_reachable ng d s \<Longrightarrow> h2_inv d s"
proof (induction rule: h2_reachable.induct)
  case (consume_stream s i n)
  then show ?case
    by (auto simp: consume_stream_def consume_connection_def Let_def ng_do_split h2_inv_ng split: option.splits if_splits)
next
  case (close_error s err)
  then show ?case by (simp add: set_session_close_error_def h2_inv_def settings_sent_def h2_find_def)
next
  case (response s i rs eof)
  then show ?case by (auto simp: submit_response_def ng_do_split h2_inv_ng split: option.splits)
qed (auto simp: h2_make_inv submit_body_inv submit_request_inv submit_trailer_def reset_stream_def consume_connection_def
    ng_do_split h2_inv_ng intro: h2_call_inv)

text \<open>C11: in every session that calls and callbacks can lead to, no stream is listed twice, a stream whose data was handed to the
  library has a buffer to read from, so the library's read callback never meets a missing one, and the
  settings were submitted exactly once: by a client when it was made, by a server when it acknowledged those of its peer.\<close>

theorem h2_sessions_sound:
  assumes "h2_reachable ng d s"
  shows "distinct (map fst (h2_streams s)) \<and>
    list_all (\<lambda>(i, st). if SCHEDULED \<in> hs_flags st then on_data_source_read i n s \<noteq> None else True) (h2_streams s) \<and>
    settings_sent s = (if d = Http2Client \<or> h2_received_handshake s then 1 else 0)"
proof -
  note inv = h2_reachable_inv [OF assms]
  have d: "distinct (map fst (h2_streams s))" using inv by (simp add: h2_inv_def)
  have "on_data_source_read i n s \<noteq> None" if "(i, st) \<in> set (h2_streams s)" "SCHEDULED \<in> hs_flags st" for i st
  proof -
    have f: "h2_find s i = Some st" using d that(1) by (simp add: h2_find_def)
    then show ?thesis using h2_inv_find [OF inv f] that(2)
      by (auto simp: source_ok_def on_data_source_read_def Let_def split: if_splits)
  qed
  then show ?thesis using d inv by (auto simp: list_all_iff h2_inv_def) (metis h2_side.exhaust)+
qed

theorem h2_sessions_sound_witness:
  "\<exists>s. h2_make h2_ok Http2Client h2_default_settings all_kinds = Inr s \<and>
     distinct (map fst (h2_streams (snd (submit_body h2_ok 1 ''a'' True (snd (submit_request h2_ok (make_request HTTP_2_0 ''PUT'' ''/'') False s)))))) \<and>
     list_all (\<lambda>(i, st). if SCHEDULED \<in> hs_flags st then on_data_source_read i 5
        (snd (submit_body h2_ok 1 ''a'' True (snd (submit_request h2_ok (make_request HTTP_2_0 ''PUT'' ''/'') False s)))) \<noteq> None else True)
       (h2_streams (snd (submit_body h2_ok 1 ''a'' True (snd (submit_request h2_ok (make_request HTTP_2_0 ''PUT'' ''/'') False s))))) \<and>
     settings_sent (snd (submit_body h2_ok 1 ''a'' True (snd (submit_request h2_ok (make_request HTTP_2_0 ''PUT'' ''/'') False s)))) = 1"
proof -
  obtain s where s: "h2_make h2_ok Http2Client h2_default_settings all_kinds = Inr s"
    by (auto simp: h2_make_def h2_initialize_def h2_submit_settings_def ng_do_def h2_ok_def h2_session_new_def Let_def)
  let ?t = "snd (submit_body h2_ok 1 ''a'' True (snd (submit_request h2_ok (make_request HTTP_2_0 ''PUT'' ''/'') False s)))"
  have "h2_reachable h2_ok Http2Client ?t"
    by (intro h2_reachable.body h2_reachable.request h2_reachable.make [OF s] refl)
  from h2_sessions_sound [OF this, of 5] show ?thesis using s by (intro exI [of _ s]) simp
qed

section \<open>Flow control and failures\<close>

definition connection_consumed :: "h2_session \<Rightarrow> nat" where
  "connection_consumed s = sum_list (map (\<lambda>c. case c of ConsumeConnection n \<Rightarrow> n | _ \<Rightarrow> 0) (h2_calls s))"

lemma chunk_consumed:
  "connection_consumed (snd (on_data_chunk_recv ng i d s)) =
     connection_consumed s + (if auto_flow_control (h2_settings s) then length d else 0) \<and>
   h2_settings (snd (on_data_chunk_recv ng i d s)) = h2_settings s"
  by (auto simp: on_data_chunk_recv_def connection_consumed_def Let_def split: option.splits)

text \<open>Also: every octet of the connection window is returned once.  With automatic flow control the session returns as many octets as
  it receives, on known streams and unknown ones, and consuming a stream returns none; without it, receiving
  returns none and consuming a stream returns what the user consumed.\<close>

theorem h2_flow_control:
  "connection_consumed (foldl (\<lambda>t (i, d). snd (on_data_chunk_recv ng i d t)) s chunks) =
     connection_consumed s + (if auto_flow_control (h2_settings s) then length (concat (map snd chunks)) else 0) \<and>
   connection_consumed (snd (consume_stream ng j n s)) =
     connection_consumed s + (if auto_flow_control (h2_settings s) then 0 else n)"
proof
  show "connection_consumed (foldl (\<lambda>t (i, d). snd (on_data_chunk_recv ng i d t)) s chunks) =
     connection_consumed s + (if auto_flow_control (h2_settings s) then length (concat (map snd chunks)) else 0)"
  proof (induction chunks arbitrary: s)
    case (Cons ch chunks)
    then show ?case using chunk_consumed [of ng "fst ch" "snd ch" s] by (cases ch) auto
  qed simp
  show "connection_consumed (snd (consume_stream ng j n s)) =
     connection_consumed s + (if auto_flow_control (h2_settings s) then 0 else n)"
    by (auto simp: consume_stream_def consume_connection_def connection_consumed_def Let_def ng_do_split split: option.splits)
qed

text \<open>Also: a body whose first submission the library refuses is never submitted again: the stream stays marked as scheduled, and every
  later piece is only buffered and asked to be resumed.\<close>

theorem h2_failed_submit_sticks:
  assumes "h2_find s i = Some st" "submit_body ng i c eof s = (Some (H2ScheduleFailed r), s1)"
  shows "\<exists>st1. h2_find s1 i = Some st1 \<and> SCHEDULED \<in> hs_flags st1 \<and>
    SubmitData i \<notin> set (drop (length (h2_calls s1)) (h2_calls (snd (submit_body ng' i c' eof' s1))))"
proof -
  obtain st1 where st1: "h2_find s1 i = Some st1" "SCHEDULED \<in> hs_flags st1"
    using assms by (auto simp: submit_body_def push_data_def schedule_send_def Let_def ng_do_def h2_flag_set_def h2_find_def h2_put_def
        update_conv' split: if_splits)
  moreover have "SubmitData i \<notin> set (drop (length (h2_calls s1)) (h2_calls (snd (submit_body ng' i c' eof' s1))))"
    using st1 by (auto simp: submit_body_def push_data_def schedule_send_def Let_def ng_do_def h2_flag_set_def)
  ultimately show ?thesis by blast
qed

definition h2_refuse :: nghttp2 where
  "h2_refuse calls c = (case c of SubmitData i \<Rightarrow> -1 | _ \<Rightarrow> 0)"

theorem h2_failed_submit_sticks_witness:
  "\<exists>st1. h2_find (snd (submit_body h2_refuse 1 ''a'' False (h2_put 1 h2_stream_new (h2_session_new Http2Server h2_default_settings all_kinds)))) 1 = Some st1 \<and>
     SCHEDULED \<in> hs_flags st1 \<and>
     SubmitData 1 \<notin> set (drop (length (h2_calls (snd (submit_body h2_refuse 1 ''a'' False (h2_put 1 h2_stream_new (h2_session_new Http2Server h2_default_settings all_kinds))))))
       (h2_calls (snd (submit_body h2_refuse 1 ''b'' True (snd (submit_body h2_refuse 1 ''a'' False (h2_put 1 h2_stream_new (h2_session_new Http2Server h2_default_settings all_kinds))))))))"
proof -
  let ?s = "h2_put 1 h2_stream_new (h2_session_new Http2Server h2_default_settings all_kinds)"
  have "submit_body h2_refuse 1 ''a'' False ?s = (Some (H2ScheduleFailed (-1)), snd (submit_body h2_refuse 1 ''a'' False ?s))"
    by (simp add: submit_body_def push_data_def schedule_send_def Let_def ng_do_def h2_refuse_def h2_flag_set_def h2_stream_new_def)
  from h2_failed_submit_sticks [OF _ this, of h2_stream_new h2_refuse "''b''" True] show ?thesis by simp
qed

end
