(* ===== verification/Http3.thy ===== *)
theory Http3
  imports HttpFields "HOL-Library.AList"
begin

text \<open>
  The HTTP/3 session of \<^verbatim>\<open>http/http3.cpp\<close>, server and client.  The libraries \<^verbatim>\<open>ngtcp2\<close>, \<^verbatim>\<open>nghttp3\<close> and OpenSSL are a
  parameter, the record \<^verbatim>\<open>h3_lib\<close>: it gives the status of each call from the calls made before it, and the pure functions
  the session uses of them.  The library calls during which callbacks are made are trees: a node is a callback and
  goes on with the session's answer, a leaf is the result.  The session keeps the calls it made and the events it
  raised in order.  An evbuffer is the \<^typ>\<open>string\<close> of the octets in it; the paths of packets are left out.
\<close>

section \<open>State\<close>

datatype h3_side = Http3Server | Http3Client

datatype h3_flag = H3_HAS_EOF | TRAILERS_SUBMITTED | H3_HEAD_REQUEST

record h3_stream =
  h3s_message :: "http_message option"
  h3s_flags :: "h3_flag set"
  h3s_buffer :: "string option"
  h3s_read_offset :: nat

definition h3_stream_new :: h3_stream where
  "h3_stream_new = \<lparr>h3s_message = None, h3s_flags = {}, h3s_buffer = None, h3s_read_offset = 0\<rparr>"

definition h3_flag_set :: "h3_flag \<Rightarrow> bool \<Rightarrow> h3_stream \<Rightarrow> h3_stream" where
  "h3_flag_set f b st = st\<lparr>h3s_flags := (if b then insert f (h3s_flags st) else h3s_flags st - {f})\<rparr>"

datatype congestion_control = RENO | CUBIC | BBR

record h3_settings =
  congestion_control_algorithm :: congestion_control
  max_tx_udp_payload_size :: nat
  initial_max_stream_data_bidi_local :: u64
  initial_max_stream_data_bidi_remote :: u64
  initial_max_stream_data_uni :: u64
  initial_max_data :: u64
  initial_max_streams_bidi :: u64
  initial_max_streams_uni :: u64
  max_idle_timeout_us :: int
  max_window :: u64
  max_stream_window :: u64
  quic_version :: u32

definition h3_default_settings :: h3_settings where
  "h3_default_settings = \<lparr>congestion_control_algorithm = CUBIC, max_tx_udp_payload_size = 1350,
     initial_max_stream_data_bidi_local = 256 * 1024, initial_max_stream_data_bidi_remote = 256 * 1024,
     initial_max_stream_data_uni = 256 * 1024, initial_max_data = 8 * 1024 * 1024, initial_max_streams_bidi = 1024,
     initial_max_streams_uni = 3, max_idle_timeout_us = 180 * 1000000, max_window = 0, max_stream_window = 0,
     quic_version = 0\<rparr>"

text \<open>What the session passes to \<^verbatim>\<open>ngtcp2\<close> of its settings.\<close>

record quic_config =
  qc_settings :: h3_settings
  qc_initial_pkt_num :: nat
  qc_max_idle_timeout_ns :: int
  qc_active_connection_id_limit :: u64
  qc_original_dcid :: "bytes option"
  qc_stateless_reset_token :: "bytes option"

datatype quic_code = NGTCP2_NO_ERROR | NGTCP2_ERR_INTERNAL | NGTCP2_ERR_NOMEM | NGTCP2_ERR_STREAM_NOT_FOUND
  | NGTCP2_ERR_DROP_CONN | NGTCP2_ERR_DRAINING | NGTCP2_ERR_RETRY | NGTCP2_ERR_CRYPTO
  | NGTCP2_ERR_STREAM_DATA_BLOCKED | NGTCP2_ERR_STREAM_SHUT_WR | NGTCP2_ERR_WRITE_MORE | NGTCP2_ERR_OTHER int

datatype ccerr_type = CCERR_TRANSPORT | CCERR_APPLICATION | CCERR_VERSION_NEGOTIATION | CCERR_IDLE_CLOSE
  | CCERR_DROP_CONN | CCERR_RETRY

record ccerr =
  ce_type :: ccerr_type
  ce_code :: u64
  ce_reason :: string

text \<open>The calls into the libraries.  A reader is given with or without its callback.\<close>

datatype h3_call =
    QuicServerNew bytes bytes u32 quic_config
  | QuicClientNew bytes bytes u32 quic_config
  | QuicDel
  | HttpServerNew
  | HttpClientNew
  | QuicShutdownStreamWrite u64 u64
  | QuicShutdownStreamRead u64 u64
  | QuicShutdownStream u64 int
  | HttpShutdownStreamWrite "u64 option"
  | HttpShutdownStreamRead u64
  | HttpCloseStream u64 u64
  | HttpShutdown
  | ExtendMaxStreamsBidi nat
  | SetMaxClientStreamsBidi u64
  | OpenUniStream
  | OpenBidiStream
  | BindControlStream u64
  | BindQpackStreams u64 u64
  | SubmitTrailers u64 "header list"
  | H3SubmitResponse u64 "header list" "bool option"
  | H3SubmitRequest u64 "header list" bool
  | ResumeStream u64
  | UnblockStream u64
  | BlockStream "u64 option"
  | AddWriteOffset "u64 option" int
  | EvbufferAddReference u64 string
  | ReadStream u64 string bool
  | AddAckOffset u64 nat
  | ExtendMaxOffset nat
  | ExtendMaxStreamOffset u64 nat
  | HandleExpiry u64
  | WriteConnectionClose ccerr

record h3_lib =
  quic_status :: "h3_call list \<Rightarrow> h3_call \<Rightarrow> quic_code"
  http_status :: "h3_call list \<Rightarrow> h3_call \<Rightarrow> int"
  new_stream_id :: "h3_call list \<Rightarrow> u64"
  err_stream_not_found :: int
  h3_no_error :: u64
  h3_request_cancelled :: int
  is_bidi_stream :: "u64 \<Rightarrow> bool"
  max_stream_data_left :: "h3_call list \<Rightarrow> u64 \<Rightarrow> u64"
  max_data_left :: "h3_call list \<Rightarrow> u64"
  conn_ccerr :: "h3_call list \<Rightarrow> ccerr"
  conn_tls_alert :: "h3_call list \<Rightarrow> u8"
  conn_expiry :: "h3_call list \<Rightarrow> u64"
  conn_pto :: "h3_call list \<Rightarrow> u64"
  close_packet :: "h3_call list \<Rightarrow> ccerr \<Rightarrow> string option"
  ccerr_default :: ccerr
  ccerr_app :: "u64 \<Rightarrow> string \<Rightarrow> ccerr"
  ccerr_liberr :: "quic_code \<Rightarrow> string \<Rightarrow> ccerr"
  ccerr_tls_alert :: "u8 \<Rightarrow> string \<Rightarrow> ccerr"
  infer_app_code :: "int \<Rightarrow> u64"
  http_strerror :: "int \<Rightarrow> string"
  quic_strerror :: "quic_code \<Rightarrow> string"
  alert_desc :: "u8 \<Rightarrow> string"
  evb_peek :: "nat \<Rightarrow> string \<Rightarrow> string list"
  sha1 :: "bytes \<Rightarrow> bytes"
  md5 :: "bytes \<Rightarrow> bytes option"
  quic_accept :: "bytes \<Rightarrow> quic_code + bytes \<times> bytes \<times> u32"
  NGTCP2_PROTO_VER_V1 :: u32

datatype h3_kind = HK_handshake | HK_message | HK_trailer | HK_body | HK_read_finished | HK_stream_closed | HK_close
  | HK_output | HK_data_sent | HK_expiry_update | HK_available_streams

datatype h3_event =
    H3Handshake
  | H3Message u64 http_message
  | H3Trailer u64 headers
  | H3Body u64 string
  | H3ReadFinished u64
  | H3StreamClosed u64 int
  | H3Close u64
  | H3Output string
  | H3DataSent u64 nat
  | H3ExpiryUpdate u64
  | H3AvailableStreams

record h3_session =
  h3_side :: h3_side
  h3_settings :: h3_settings
  h3_handler :: "h3_kind set"
  h3_quic_conn :: bool
  h3_http_conn :: bool
  h3_streams :: "(u64 \<times> h3_stream) list"
  h3_last_error :: ccerr
  h3_handshake_completed :: bool
  h3_handled_rx_close :: bool
  h3_close_sent :: bool
  h3_drop_silently :: bool
  h3_static_secret :: bytes
  h3_calls :: "h3_call list"
  h3_events :: "h3_event list"

definition h3_session_new :: "h3_lib \<Rightarrow> h3_side \<Rightarrow> h3_settings \<Rightarrow> h3_kind set \<Rightarrow> h3_session" where
  "h3_session_new lib d st handler =
     \<lparr>h3_side = d, h3_settings = st, h3_handler = handler, h3_quic_conn = False, h3_http_conn = False, h3_streams = [],
      h3_last_error = ccerr_default lib, h3_handshake_completed = False, h3_handled_rx_close = False, h3_close_sent = False,
      h3_drop_silently = False, h3_static_secret = replicate 32 0, h3_calls = [], h3_events = []\<rparr>"

definition h3_log :: "h3_call \<Rightarrow> h3_session \<Rightarrow> h3_session" where
  "h3_log c s = s\<lparr>h3_calls := h3_calls s @ [c]\<rparr>"

definition quic_do :: "h3_lib \<Rightarrow> h3_call \<Rightarrow> h3_session \<Rightarrow> quic_code \<times> h3_session" where
  "quic_do lib c s = (quic_status lib (h3_calls s) c, h3_log c s)"

definition http_do :: "h3_lib \<Rightarrow> h3_call \<Rightarrow> h3_session \<Rightarrow> int \<times> h3_session" where
  "http_do lib c s = (http_status lib (h3_calls s) c, h3_log c s)"

definition h3_raise :: "h3_kind \<Rightarrow> h3_event \<Rightarrow> h3_session \<Rightarrow> h3_session" where
  "h3_raise k e s = (if k \<in> h3_handler s then s\<lparr>h3_events := h3_events s @ [e]\<rparr> else s)"

definition h3_find :: "h3_session \<Rightarrow> u64 \<Rightarrow> h3_stream option" where
  "h3_find s i = map_of (h3_streams s) i"

definition h3_put :: "u64 \<Rightarrow> h3_stream \<Rightarrow> h3_session \<Rightarrow> h3_session" where
  "h3_put i st s = s\<lparr>h3_streams := AList.update i st (h3_streams s)\<rparr>"

section \<open>Messages that arrive\<close>

text \<open>What a callback answers.  Data is answered as pieces with the flags \<^verbatim>\<open>EOF\<close> and \<^verbatim>\<open>NO_END_STREAM\<close>.\<close>

datatype h3_answer = H3_OK | H3_FAILURE | H3_CALLBACK_FAILURE | H3_WOULDBLOCK | H3_VECS "string list" bool bool | H3_STATUS int

definition h3_new_message :: "h3_session \<Rightarrow> http_message" where
  "h3_new_message s = new_message HTTP_3_0 (h3_side s = Http3Server)"

definition h3_on_begin_headers :: "u64 \<Rightarrow> h3_session \<Rightarrow> h3_answer \<times> h3_session" where
  "h3_on_begin_headers i s =
     (let st = (case h3_find s i of None \<Rightarrow> h3_stream_new | Some st \<Rightarrow> st)
      in if h3s_message st \<noteq> None then (H3_CALLBACK_FAILURE, s)
         else (H3_OK, h3_put i (st\<lparr>h3s_message := Some (h3_new_message s)\<rparr>) s))"

definition h3_on_recv_header :: "u64 \<Rightarrow> string \<Rightarrow> string \<Rightarrow> h3_session \<Rightarrow> h3_answer \<times> h3_session" where
  "h3_on_recv_header i n v s =
     (case h3_find s i of
        None \<Rightarrow> (H3_CALLBACK_FAILURE, s)
      | Some st \<Rightarrow>
          (case h3s_message st of
             None \<Rightarrow> (H3_CALLBACK_FAILURE, s)
           | Some m \<Rightarrow>
               (case message_put n v m of
                  None \<Rightarrow> (H3_CALLBACK_FAILURE, s)
                | Some m1 \<Rightarrow> (H3_OK, h3_put i (st\<lparr>h3s_message := Some m1\<rparr>) s))))"

text \<open>\<^const>\<open>None\<close> is the exception of \<^verbatim>\<open>value()\<close> on a stream without a pending message.\<close>

definition h3_on_end_headers :: "u64 \<Rightarrow> bool \<Rightarrow> h3_session \<Rightarrow> (h3_answer \<times> h3_session) option" where
  "h3_on_end_headers i fin s =
     (case h3_find s i of
        None \<Rightarrow> Some (H3_CALLBACK_FAILURE, s)
      | Some st \<Rightarrow>
          (case h3s_message st of
             None \<Rightarrow> None
           | Some m \<Rightarrow>
               (let st1 = st\<lparr>h3s_message := None\<rparr>;
                    m1 = message_set_headers (headers_set_has_body (message_headers m) (\<not> fin)) m;
                    st2 = (case m1 of
                             RequestMessage r \<Rightarrow> h3_flag_set H3_HEAD_REQUEST (rq_method r = ''HEAD'') st1
                           | ResponseMessage r \<Rightarrow> st1)
                in Some (H3_OK, h3_raise HK_message (H3Message i m1) (h3_put i st2 s)))))"

definition h3_on_begin_trailers :: "u64 \<Rightarrow> h3_session \<Rightarrow> h3_answer \<times> h3_session" where
  "h3_on_begin_trailers i s =
     (case h3_find s i of
        None \<Rightarrow> (H3_CALLBACK_FAILURE, s)
      | Some st \<Rightarrow>
          (if h3s_message st \<noteq> None then (H3_CALLBACK_FAILURE, s)
           else (H3_OK, h3_put i (st\<lparr>h3s_message := Some (h3_new_message s)\<rparr>) s)))"

definition h3_on_recv_trailer :: "u64 \<Rightarrow> string \<Rightarrow> string \<Rightarrow> h3_session \<Rightarrow> h3_answer \<times> h3_session" where
  "h3_on_recv_trailer i n v s =
     (case h3_find s i of
        None \<Rightarrow> (H3_CALLBACK_FAILURE, s)
      | Some st \<Rightarrow>
          (case h3s_message st of
             None \<Rightarrow> (H3_CALLBACK_FAILURE, s)
           | Some m \<Rightarrow>
               (H3_OK, h3_put i (st\<lparr>h3s_message :=
                  Some (message_set_headers (headers_put (message_headers m) n v) m)\<rparr>) s)))"

definition h3_on_end_trailers :: "u64 \<Rightarrow> h3_session \<Rightarrow> (h3_answer \<times> h3_session) option" where
  "h3_on_end_trailers i s =
     (case h3_find s i of
        None \<Rightarrow> Some (H3_CALLBACK_FAILURE, s)
      | Some st \<Rightarrow>
          (case h3s_message st of
             None \<Rightarrow> None
           | Some m \<Rightarrow>
               Some (H3_OK, h3_raise HK_trailer (H3Trailer i (message_headers m))
                 (h3_put i (st\<lparr>h3s_message := None\<rparr>) s))))"

definition h3_on_data_chunk_recv :: "u64 \<Rightarrow> string \<Rightarrow> h3_session \<Rightarrow> h3_answer \<times> h3_session" where
  "h3_on_data_chunk_recv i data s =
     (if h3_find s i = None then (H3_CALLBACK_FAILURE, s) else (H3_OK, h3_raise HK_body (H3Body i data) s))"

definition h3_on_end_stream :: "u64 \<Rightarrow> h3_session \<Rightarrow> h3_answer \<times> h3_session" where
  "h3_on_end_stream i s = (H3_OK, h3_raise HK_read_finished (H3ReadFinished i) s)"

section \<open>Streams that end\<close>

definition on_h3_stop_sending :: "h3_lib \<Rightarrow> u64 \<Rightarrow> u64 \<Rightarrow> h3_session \<Rightarrow> h3_answer \<times> h3_session" where
  "on_h3_stop_sending lib i err s =
     (case quic_do lib (QuicShutdownStreamWrite i err) s of
        (status, s1) \<Rightarrow> (if status \<noteq> NGTCP2_NO_ERROR then H3_FAILURE else H3_OK, s1))"

definition on_h3_reset_stream :: "h3_lib \<Rightarrow> u64 \<Rightarrow> u64 \<Rightarrow> h3_session \<Rightarrow> h3_answer \<times> h3_session" where
  "on_h3_reset_stream lib i err s =
     (case quic_do lib (QuicShutdownStreamRead i err) s of
        (status, s1) \<Rightarrow> (if status \<noteq> NGTCP2_NO_ERROR then H3_FAILURE else H3_OK, s1))"

text \<open>The parameter of \<^verbatim>\<open>close_stream\<close> has 32 bits, and so has the error code.\<close>

definition h3_close_stream :: "u32 \<Rightarrow> int \<Rightarrow> h3_session \<Rightarrow> h3_session" where
  "h3_close_stream i err s = h3_raise HK_stream_closed (H3StreamClosed (ucast i) err) s"

definition on_h3_stream_close :: "u64 \<Rightarrow> u64 \<Rightarrow> h3_session \<Rightarrow> h3_answer \<times> h3_session" where
  "on_h3_stream_close i err s =
     (if h3_find s i = None then (H3_CALLBACK_FAILURE, s)
      else (H3_OK, h3_close_stream (ucast i) (sint (ucast err :: u32))
             (s\<lparr>h3_streams := AList.delete i (h3_streams s)\<rparr>)))"

section \<open>Data that leaves\<close>

text \<open>\<^const>\<open>None\<close> where the source has no buffer yet.  The data stays in the buffer until it is acknowledged.\<close>

definition on_read_data :: "h3_lib \<Rightarrow> u64 \<Rightarrow> nat \<Rightarrow> h3_session \<Rightarrow> (h3_answer \<times> h3_session) option" where
  "on_read_data lib i vec_num s =
     (case h3_find s i of
        None \<Rightarrow> Some (H3_CALLBACK_FAILURE, s)
      | Some st \<Rightarrow>
          (case h3s_buffer st of
             None \<Rightarrow> None
           | Some b \<Rightarrow>
               (if length b < h3s_read_offset st then Some (H3_CALLBACK_FAILURE, s)
                else let vec = evb_peek lib vec_num (drop (h3s_read_offset st) b);
                         off = h3s_read_offset st + length (concat vec);
                         unsent = length b - off;
                         s1 = h3_put i (st\<lparr>h3s_read_offset := off\<rparr>) s
                     in if vec = [] \<and> unsent = 0 \<and> TRAILERS_SUBMITTED \<in> h3s_flags st then Some (H3_VECS [] True True, s1)
                        else let eof = (unsent = 0 \<and> H3_HAS_EOF \<in> h3s_flags st)
                             in if vec = [] \<and> \<not> eof then Some (H3_WOULDBLOCK, s1) else Some (H3_VECS vec eof False, s1))))"

definition on_acked_stream_data :: "u64 \<Rightarrow> nat \<Rightarrow> h3_session \<Rightarrow> (h3_answer \<times> h3_session) option" where
  "on_acked_stream_data i orig_len s =
     (case h3_find s i of
        None \<Rightarrow> Some (H3_CALLBACK_FAILURE, s)
      | Some st \<Rightarrow>
          (case h3s_buffer st of
             None \<Rightarrow> None
           | Some b \<Rightarrow>
               (let len = (if length b < orig_len then length b else orig_len);
                    len2 = (if h3s_read_offset st < len then h3s_read_offset st else len);
                    st1 = st\<lparr>h3s_buffer := Some (drop len b), h3s_read_offset := h3s_read_offset st - len2\<rparr>
                in Some (H3_OK, h3_raise HK_data_sent (H3DataSent i orig_len) (h3_put i st1 s)))))"

datatype h3_failure = H3Failure quic_code h3_reason
and h3_reason = NoReason | NullSsl | ForgeToken | CreateQuic | CreateHttp int | SubmitTrailersFailed int | ResumeFailed int
  | BufferFailed | ShutdownFailed | ConsumeConnectionFailed | ConsumeStreamFailed | ExpiryFailed
  | FlushFailed string u64 | TlsAlert string | InputFailed string u64 | StreamNotFound | SubmitResponseFailed int
  | OpenStreamFailed | SubmitRequestFailed int

definition h3_consume_connection :: "nat \<Rightarrow> h3_session \<Rightarrow> h3_failure option \<times> h3_session" where
  "h3_consume_connection n s = (None, h3_log (ExtendMaxOffset n) s)"

definition h3_consume_stream :: "h3_lib \<Rightarrow> u64 \<Rightarrow> nat \<Rightarrow> h3_session \<Rightarrow> h3_failure option \<times> h3_session" where
  "h3_consume_stream lib i n s =
     (case h3_consume_connection n s of
        (Some e, s1) \<Rightarrow> (Some (H3Failure NGTCP2_ERR_INTERNAL ConsumeConnectionFailed), s1)
      | (None, s1) \<Rightarrow>
          (case quic_do lib (ExtendMaxStreamOffset i n) s1 of
             (status, s2) \<Rightarrow>
               (if status \<noteq> NGTCP2_NO_ERROR then Some (H3Failure status ConsumeStreamFailed) else None, s2)))"

definition on_deferred_consume :: "h3_lib \<Rightarrow> u64 \<Rightarrow> nat \<Rightarrow> h3_session \<Rightarrow> h3_answer \<times> h3_session" where
  "on_deferred_consume lib i n s =
     (case h3_consume_stream lib i n s of (e, s1) \<Rightarrow> (if e \<noteq> None then H3_CALLBACK_FAILURE else H3_OK, s1))"

section \<open>Callbacks of the HTTP/3 library\<close>

datatype h3_callback =
    H_acked_stream_data u64 nat
  | H_stream_close u64 u64
  | H_recv_data u64 string
  | H_deferred_consume u64 nat
  | H_begin_headers u64
  | H_recv_header u64 string string
  | H_end_headers u64 bool
  | H_begin_trailers u64
  | H_recv_trailer u64 string string
  | H_end_trailers u64
  | H_stop_sending u64 u64
  | H_end_stream u64
  | H_reset_stream u64 u64
  | H_read_data u64 nat

fun h3_dispatch :: "h3_lib \<Rightarrow> h3_callback \<Rightarrow> h3_session \<Rightarrow> (h3_answer \<times> h3_session) option" where
  "h3_dispatch lib (H_acked_stream_data i n) s = on_acked_stream_data i n s"
| "h3_dispatch lib (H_stream_close i err) s = Some (on_h3_stream_close i err s)"
| "h3_dispatch lib (H_recv_data i d) s = Some (h3_on_data_chunk_recv i d s)"
| "h3_dispatch lib (H_deferred_consume i n) s = Some (on_deferred_consume lib i n s)"
| "h3_dispatch lib (H_begin_headers i) s = Some (h3_on_begin_headers i s)"
| "h3_dispatch lib (H_recv_header i n v) s = Some (h3_on_recv_header i n v s)"
| "h3_dispatch lib (H_end_headers i fin) s = h3_on_end_headers i fin s"
| "h3_dispatch lib (H_begin_trailers i) s = Some (h3_on_begin_trailers i s)"
| "h3_dispatch lib (H_recv_trailer i n v) s = Some (h3_on_recv_trailer i n v s)"
| "h3_dispatch lib (H_end_trailers i) s = h3_on_end_trailers i s"
| "h3_dispatch lib (H_stop_sending i err) s = Some (on_h3_stop_sending lib i err s)"
| "h3_dispatch lib (H_end_stream i) s = Some (h3_on_end_stream i s)"
| "h3_dispatch lib (H_reset_stream i err) s = Some (on_h3_reset_stream lib i err s)"
| "h3_dispatch lib (H_read_data i n) s = on_read_data lib i n s"

datatype 'r h3_run = H3Done 'r | H3Call h3_callback "h3_answer \<Rightarrow> 'r h3_run"

primrec h3_exec :: "h3_lib \<Rightarrow> 'r h3_run \<Rightarrow> h3_session \<Rightarrow> ('r \<times> h3_session) option" where
  "h3_exec lib (H3Done r) s = Some (r, s)"
| "h3_exec lib (H3Call c k) s =
     (case h3_dispatch lib c s of None \<Rightarrow> None | Some (a, s1) \<Rightarrow> h3_exec lib (k a) s1)"

section \<open>Callbacks of the QUIC library\<close>

definition on_quic_stream_stop_sending :: "u64 \<Rightarrow> h3_session \<Rightarrow> h3_answer \<times> h3_session" where
  "on_quic_stream_stop_sending i s = (H3_OK, h3_log (HttpShutdownStreamWrite (Some i)) s)"

definition on_quic_stream_reset :: "h3_lib \<Rightarrow> u64 \<Rightarrow> int h3_run \<Rightarrow> h3_session \<Rightarrow> (h3_answer \<times> h3_session) option" where
  "on_quic_stream_reset lib i run s =
     map_option (\<lambda>(status, s1). (if status \<noteq> 0 then H3_FAILURE else H3_OK, s1))
       (h3_exec lib run (h3_log (HttpShutdownStreamRead i) s))"

definition on_quic_stream_close ::
    "h3_lib \<Rightarrow> bool \<Rightarrow> u64 \<Rightarrow> u64 \<Rightarrow> int h3_run \<Rightarrow> h3_session \<Rightarrow> (h3_answer \<times> h3_session) option" where
  "on_quic_stream_close lib code_set i err run s =
     (let err1 = (if err = 0 \<or> \<not> code_set then h3_no_error lib else err)
      in case h3_exec lib run (h3_log (HttpCloseStream i err1) s) of
           None \<Rightarrow> None
         | Some (status, s1) \<Rightarrow>
             (let s2 = (if h3_side s = Http3Server \<and> is_bidi_stream lib i then h3_log (ExtendMaxStreamsBidi 1) s1 else s1)
              in Some (if status = 0 \<or> status = err_stream_not_found lib then (H3_OK, s2)
                       else (H3_FAILURE, s2\<lparr>h3_last_error := ccerr_app lib (infer_app_code lib status) []\<rparr>))))"

definition recv_h3_stream_data ::
    "h3_lib \<Rightarrow> u64 \<Rightarrow> string \<Rightarrow> bool \<Rightarrow> int h3_run \<Rightarrow> h3_session \<Rightarrow> (h3_answer \<times> h3_session) option" where
  "recv_h3_stream_data lib i chunk eof run s =
     (case h3_exec lib run (h3_log (ReadStream i chunk eof) s) of
        None \<Rightarrow> None
      | Some (r, s1) \<Rightarrow>
          Some (if r < 0 then (H3_OK, s1)
                else case h3_consume_stream lib i (nat r) s1 of
                       (e, s2) \<Rightarrow> (if e \<noteq> None then H3_CALLBACK_FAILURE else H3_OK, s2)))"

definition on_handshake_completed :: "h3_lib \<Rightarrow> h3_session \<Rightarrow> h3_answer \<times> h3_session" where
  "on_handshake_completed lib s =
     (let ctrl = new_stream_id lib (h3_calls s); (r1, s1) = quic_do lib OpenUniStream s
      in if r1 \<noteq> NGTCP2_NO_ERROR then (H3_FAILURE, s1)
      else let enc = new_stream_id lib (h3_calls s1); (r2, s2) = quic_do lib OpenUniStream s1
      in if r2 \<noteq> NGTCP2_NO_ERROR then (H3_FAILURE, s2)
      else let dec = new_stream_id lib (h3_calls s2); (r3, s3) = quic_do lib OpenUniStream s2
      in if r3 \<noteq> NGTCP2_NO_ERROR then (H3_FAILURE, s3)
      else let (r4, s4) = http_do lib (BindControlStream ctrl) s3
      in if r4 \<noteq> 0 then (H3_FAILURE, s4)
      else let (r5, s5) = http_do lib (BindQpackStreams enc dec) s4
      in if r5 \<noteq> 0 then (H3_FAILURE, s5)
      else let s6 = s5\<lparr>h3_handshake_completed := True\<rparr>
      in (H3_OK, if h3_side s = Http3Client then h3_raise HK_handshake H3Handshake s6 else s6))"

definition derive_token :: "h3_lib \<Rightarrow> bytes \<Rightarrow> h3_session \<Rightarrow> bytes option" where
  "derive_token lib input s = md5 lib (input @ h3_static_secret s)"

text \<open>A callback that calls into the HTTP/3 library carries what that library does.\<close>

datatype quic_callback =
    Q_recv_stream_data u64 string bool "int h3_run"
  | Q_acked_stream_data_offset u64 nat "int h3_run"
  | Q_stream_close bool u64 u64 "int h3_run"
  | Q_extend_max_local_streams_bidi u64
  | Q_get_new_connection_id bytes
  | Q_stream_reset u64 u64 "int h3_run"
  | Q_extend_max_remote_streams_bidi u64
  | Q_extend_max_stream_data u64
  | Q_stream_stop_sending u64 u64
  | Q_handshake_completed

fun quic_dispatch :: "h3_lib \<Rightarrow> quic_callback \<Rightarrow> h3_session \<Rightarrow> (h3_answer \<times> h3_session) option" where
  "quic_dispatch lib (Q_recv_stream_data i d fin run) s = recv_h3_stream_data lib i d fin run s"
| "quic_dispatch lib (Q_acked_stream_data_offset i n run) s =
     map_option (\<lambda>(r, s1). (H3_STATUS r, s1)) (h3_exec lib run (h3_log (AddAckOffset i n) s))"
| "quic_dispatch lib (Q_stream_close code_set i err run) s = on_quic_stream_close lib code_set i err run s"
| "quic_dispatch lib (Q_extend_max_local_streams_bidi n) s =
     Some (H3_OK, h3_raise HK_available_streams H3AvailableStreams s)"
| "quic_dispatch lib (Q_get_new_connection_id cid) s =
     Some (if derive_token lib cid s \<noteq> None then H3_OK else H3_CALLBACK_FAILURE, s)"
| "quic_dispatch lib (Q_stream_reset i err run) s = on_quic_stream_reset lib i run s"
| "quic_dispatch lib (Q_extend_max_remote_streams_bidi n) s = Some (H3_OK, h3_log (SetMaxClientStreamsBidi n) s)"
| "quic_dispatch lib (Q_extend_max_stream_data i) s =
     (case http_do lib (UnblockStream i) s of (r, s1) \<Rightarrow> Some (if r \<noteq> 0 then H3_CALLBACK_FAILURE else H3_OK, s1))"
| "quic_dispatch lib (Q_stream_stop_sending i err) s = Some (on_quic_stream_stop_sending i s)"
| "quic_dispatch lib Q_handshake_completed s = Some (on_handshake_completed lib s)"

datatype 'r quic_run = QDone 'r | QCall quic_callback "h3_answer \<Rightarrow> 'r quic_run"

primrec quic_exec :: "h3_lib \<Rightarrow> 'r quic_run \<Rightarrow> h3_session \<Rightarrow> ('r \<times> h3_session) option" where
  "quic_exec lib (QDone r) s = Some (r, s)"
| "quic_exec lib (QCall c k) s =
     (case quic_dispatch lib c s of None \<Rightarrow> None | Some (a, s1) \<Rightarrow> quic_exec lib (k a) s1)"

section \<open>Closing\<close>

definition close_connection :: "h3_lib \<Rightarrow> h3_session \<Rightarrow> h3_session" where
  "close_connection lib s =
     (if h3_close_sent s then s
      else let s1 = h3_log (WriteConnectionClose (h3_last_error s)) s
           in case close_packet lib (h3_calls s) (h3_last_error s) of
                None \<Rightarrow> s1
              | Some packet \<Rightarrow> (h3_raise HK_output (H3Output packet) s1)\<lparr>h3_close_sent := True\<rparr>)"

definition handle_error :: "h3_lib \<Rightarrow> h3_session \<Rightarrow> h3_session" where
  "handle_error lib s = (if ce_type (h3_last_error s) = CCERR_IDLE_CLOSE then s else close_connection lib s)"

definition SSL_ALERT_CODES_START :: nat where
  "SSL_ALERT_CODES_START = 1000"

definition rx_close_code :: "ccerr \<Rightarrow> u64" where
  "rx_close_code e =
     (case ce_type e of
        CCERR_TRANSPORT \<Rightarrow> of_nat SSL_ALERT_CODES_START + (ce_code e AND 0xff)
      | CCERR_APPLICATION \<Rightarrow> ce_code e AND 0xff
      | _ \<Rightarrow> 0)"

definition handle_rx_connection_close :: "h3_lib \<Rightarrow> h3_session \<Rightarrow> h3_session" where
  "handle_rx_connection_close lib s = h3_raise HK_close (H3Close (rx_close_code (conn_ccerr lib (h3_calls s)))) s"

definition h3_set_session_close_error :: "h3_lib \<Rightarrow> int \<Rightarrow> string \<Rightarrow> h3_session \<Rightarrow> h3_session" where
  "h3_set_session_close_error lib error_code reason s =
     (if error_code > int SSL_ALERT_CODES_START
      then let alert = (word_of_int (error_code - int SSL_ALERT_CODES_START) :: u8)
           in s\<lparr>h3_last_error := ccerr_tls_alert lib alert (alert_desc lib alert)\<rparr>
      else if error_code > uint (h3_no_error lib)
      then s\<lparr>h3_last_error := ccerr_app lib (word_of_int error_code) reason\<rparr>
      else s)"

definition h3_destroy :: "h3_lib \<Rightarrow> h3_session \<Rightarrow> h3_session" where
  "h3_destroy lib s =
     (let s1 = foldl (\<lambda>t (i, st). h3_close_stream (ucast i) (h3_request_cancelled lib) t) (s\<lparr>h3_streams := []\<rparr>) (h3_streams s)
      in if h3_side s = Http3Server \<and> h3_drop_silently s then s1
         else let s2 = (if h3_http_conn s \<and> ce_code (h3_last_error s) = 0 \<and> h3_handshake_completed s
                        then h3_log HttpShutdown s1 else s1)
              in if h3_quic_conn s then close_connection lib s2 else s2)"

section \<open>Setting up\<close>

definition http3_dcid_from_scid :: "h3_lib \<Rightarrow> bytes \<Rightarrow> bytes" where
  "http3_dcid_from_scid lib scid = take 12 (sha1 lib scid)"

definition h3_quic_config :: "h3_settings \<Rightarrow> quic_config" where
  "h3_quic_config st = \<lparr>qc_settings = st, qc_initial_pkt_num = 1, qc_max_idle_timeout_ns = max_idle_timeout_us st * 1000,
     qc_active_connection_id_limit = 7, qc_original_dcid = None, qc_stateless_reset_token = None\<rparr>"

text \<open>The last step, shared by both sides: a failure to create the HTTP/3 connection deletes the QUIC connection.\<close>

definition h3_create :: "h3_lib \<Rightarrow> h3_call \<Rightarrow> h3_call \<Rightarrow> h3_session \<Rightarrow> h3_failure option \<times> h3_session" where
  "h3_create lib quic_new http_new s =
     (let (r1, s1) = quic_do lib quic_new s
      in if r1 \<noteq> NGTCP2_NO_ERROR then (Some (H3Failure r1 CreateQuic), s1)
         else let (r2, s2) = http_do lib http_new s1
              in if r2 \<noteq> 0 then (Some (H3Failure NGTCP2_ERR_INTERNAL (CreateHttp r2)), h3_log QuicDel s2)
                 else (None, s2\<lparr>h3_quic_conn := True, h3_http_conn := True\<rparr>))"

text \<open>The random octets of the secret and of the destination identifier are arguments.\<close>

definition h3_initialize ::
    "h3_lib \<Rightarrow> bool \<Rightarrow> bytes \<Rightarrow> bytes \<Rightarrow> bytes \<Rightarrow> bytes \<Rightarrow> u32 \<Rightarrow> h3_session \<Rightarrow> h3_failure option \<times> h3_session" where
  "h3_initialize lib has_ssl secret random_dcid client_scid client_dcid version s =
     (if \<not> has_ssl then (Some (H3Failure NGTCP2_ERR_INTERNAL NullSsl), s)
      else let s0 = s\<lparr>h3_static_secret := secret\<rparr>; config = h3_quic_config (h3_settings s)
      in case h3_side s of
           Http3Server \<Rightarrow>
             (let server_scid = http3_dcid_from_scid lib client_scid
              in case derive_token lib server_scid s0 of
                   None \<Rightarrow> (Some (H3Failure NGTCP2_ERR_INTERNAL ForgeToken), s0)
                 | Some token \<Rightarrow>
                     h3_create lib (QuicServerNew client_scid server_scid version
                       (config\<lparr>qc_original_dcid := Some client_dcid, qc_stateless_reset_token := Some token\<rparr>)) HttpServerNew s0)
         | Http3Client \<Rightarrow>
             (let dcid = (if client_dcid = [] then random_dcid else client_dcid)
              in h3_create lib (QuicClientNew dcid client_scid version config) HttpClientNew s0))"

definition h3_accept :: "h3_lib \<Rightarrow> h3_settings \<Rightarrow> h3_kind set \<Rightarrow> bool \<Rightarrow> bytes \<Rightarrow> bytes \<Rightarrow> h3_failure + h3_session" where
  "h3_accept lib st handler has_ssl secret packet =
     (case quic_accept lib packet of
        Inl status \<Rightarrow> Inl (H3Failure status NoReason)
      | Inr (scid, dcid, version) \<Rightarrow>
          (case h3_initialize lib has_ssl secret [] scid dcid version (h3_session_new lib Http3Server st handler) of
             (Some e, s) \<Rightarrow> Inl e
           | (None, s) \<Rightarrow> Inr s))"

definition h3_connect :: "h3_lib \<Rightarrow> h3_settings \<Rightarrow> h3_kind set \<Rightarrow> bool \<Rightarrow> bytes \<Rightarrow> bytes \<Rightarrow> h3_failure + h3_session" where
  "h3_connect lib st handler has_ssl secret random_dcid =
     (let version = (if quic_version st \<noteq> 0 then quic_version st else NGTCP2_PROTO_VER_V1 lib)
      in case h3_initialize lib has_ssl secret random_dcid [] [] version (h3_session_new lib Http3Client st handler) of
           (Some e, s) \<Rightarrow> Inl e
         | (None, s) \<Rightarrow> Inr s)"

end
