(* ===== verification/Http3Session.thy ===== *)
theory Http3Session
  imports Http3
begin

text \<open>
  The operations of the HTTP/3 session of \<^verbatim>\<open>http/http3.cpp\<close> that the user calls: submitting, consuming, feeding packets in
  and flushing packets out.
\<close>

section \<open>Submitting\<close>

text \<open>The buffer is the sequence of its octets; where they are in memory is not part of the model.\<close>

definition h3_push_data :: "h3_lib \<Rightarrow> u64 \<Rightarrow> h3_stream \<Rightarrow> string \<Rightarrow> bool \<Rightarrow> h3_session \<Rightarrow> bool \<times> h3_session" where
  "h3_push_data lib i st chunk eof s =
     (let b = (case h3s_buffer st of None \<Rightarrow> [] | Some b \<Rightarrow> b);
          st1 = h3_flag_set H3_HAS_EOF eof (st\<lparr>h3s_buffer := Some b\<rparr>)
      in if chunk = [] then (True, h3_put i st1 s)
         else let (r, s1) = http_do lib (EvbufferAddReference i chunk) s
              in if r \<noteq> 0 then (False, h3_put i st1 s1)
                 else (True, h3_put i (st1\<lparr>h3s_buffer := Some (b @ chunk)\<rparr>) s1))"

definition h3_resume :: "h3_lib \<Rightarrow> u64 \<Rightarrow> h3_session \<Rightarrow> h3_failure option \<times> h3_session" where
  "h3_resume lib i s =
     (case http_do lib (ResumeStream i) s of
        (r, s1) \<Rightarrow> (if r \<noteq> 0 then Some (H3Failure NGTCP2_ERR_NOMEM (ResumeFailed r)) else None, s1))"

definition h3_submit_body :: "h3_lib \<Rightarrow> u64 \<Rightarrow> string \<Rightarrow> bool \<Rightarrow> h3_session \<Rightarrow> h3_failure option \<times> h3_session" where
  "h3_submit_body lib i chunk eof s =
     (case h3_find s i of
        None \<Rightarrow> (Some (H3Failure NGTCP2_ERR_STREAM_NOT_FOUND NoReason), s)
      | Some st \<Rightarrow>
          (case h3_push_data lib i st chunk eof s of
             (False, s1) \<Rightarrow> (Some (H3Failure NGTCP2_ERR_NOMEM BufferFailed), s1)
           | (True, s1) \<Rightarrow> h3_resume lib i s1))"

text \<open>The identifier goes to the library through a 32-bit signed integer.\<close>

definition h3_submit_trailer :: "h3_lib \<Rightarrow> u64 \<Rightarrow> headers \<Rightarrow> h3_session \<Rightarrow> h3_failure option \<times> h3_session" where
  "h3_submit_trailer lib i hs s =
     (case h3_find s i of
        None \<Rightarrow> (Some (H3Failure NGTCP2_ERR_STREAM_NOT_FOUND NoReason), s)
      | Some st \<Rightarrow>
          (case http_do lib (SubmitTrailers (scast (ucast i :: u32)) (m_headers hs)) s of
             (r, s1) \<Rightarrow>
               (if r \<noteq> 0 then (Some (H3Failure NGTCP2_ERR_INTERNAL (SubmitTrailersFailed r)), s1)
                else case h3_resume lib i s1 of
                       (Some e, s2) \<Rightarrow> (Some e, s2)
                     | (None, s2) \<Rightarrow> (None, h3_put i (h3_flag_set TRAILERS_SUBMITTED True st) s2))))"

definition h3_submit_response :: "h3_lib \<Rightarrow> u64 \<Rightarrow> response \<Rightarrow> bool \<Rightarrow> h3_session \<Rightarrow> h3_failure option \<times> h3_session" where
  "h3_submit_response lib i r eof s =
     (case h3_find s i of
        None \<Rightarrow> (Some (H3Failure NGTCP2_ERR_STREAM_NOT_FOUND StreamNotFound), s)
      | Some st \<Rightarrow>
          (let eof1 = (eof \<or> H3_HEAD_REQUEST \<in> h3s_flags st);
               fresh = (\<not> eof1 \<and> h3s_buffer st = None);
               s1 = (if fresh then h3_put i (st\<lparr>h3s_buffer := Some []\<rparr>) s else s);
               (status, s2) = http_do lib (H3SubmitResponse i (response_fields r) (if eof1 then None else Some fresh)) s1
           in if status \<noteq> 0 then (Some (H3Failure NGTCP2_ERR_INTERNAL (SubmitResponseFailed status)), s2)
              else h3_resume lib i s2))"

definition h3_submit_request :: "h3_lib \<Rightarrow> request \<Rightarrow> bool \<Rightarrow> h3_session \<Rightarrow> (h3_failure + u64) \<times> h3_session" where
  "h3_submit_request lib r eof s =
     (let i = new_stream_id lib (h3_calls s); (status, s1) = quic_do lib OpenBidiStream s
      in if status \<noteq> NGTCP2_NO_ERROR then (Inl (H3Failure status OpenStreamFailed), s1)
         else let head_request = (rq_method r = ''HEAD'');
                  eof1 = (eof \<or> head_request);
                  st = (case h3_find s1 i of None \<Rightarrow> h3_stream_new | Some st \<Rightarrow> st);
                  st1 = h3_flag_set H3_HAS_EOF eof1 (h3_flag_set H3_HEAD_REQUEST head_request st);
                  st2 = (if eof1 then st1 else st1\<lparr>h3s_buffer := Some []\<rparr>);
                  (status2, s2) = http_do lib (H3SubmitRequest i (request_fields r) (\<not> eof1)) (h3_put i st2 s1)
              in if status2 \<noteq> 0
                 then (Inl (H3Failure NGTCP2_ERR_INTERNAL (SubmitRequestFailed status2)),
                       s2\<lparr>h3_streams := AList.delete i (h3_streams s2)\<rparr>)
                 else (Inr i, s2))"

definition h3_reset_stream :: "h3_lib \<Rightarrow> u64 \<Rightarrow> int \<Rightarrow> h3_session \<Rightarrow> h3_failure option \<times> h3_session" where
  "h3_reset_stream lib i err s =
     (case quic_do lib (QuicShutdownStream i err) s of
        (status, s1) \<Rightarrow> (if status \<noteq> NGTCP2_NO_ERROR then Some (H3Failure status ShutdownFailed) else None, s1))"

definition h3_handle_expiry :: "h3_lib \<Rightarrow> u64 \<Rightarrow> h3_session \<Rightarrow> h3_failure option \<times> h3_session" where
  "h3_handle_expiry lib now s =
     (case quic_do lib (HandleExpiry now) s of
        (status, s1) \<Rightarrow> (if status \<noteq> NGTCP2_NO_ERROR then Some (H3Failure status ExpiryFailed) else None, s1))"

definition get_stream_send_capacity :: "h3_lib \<Rightarrow> u64 \<Rightarrow> h3_session \<Rightarrow> nat" where
  "get_stream_send_capacity lib i s =
     (let capacity = min (unat (max_stream_data_left lib (h3_calls s) i)) (unat (max_data_left lib (h3_calls s)))
      in case h3_find s i of
           None \<Rightarrow> capacity
         | Some st \<Rightarrow>
             (case h3s_buffer st of
                None \<Rightarrow> capacity
              | Some b \<Rightarrow>
                  (let unsent = (if length b > h3s_read_offset st then length b - h3s_read_offset st else 0)
                   in if unsent \<ge> capacity then 0 else capacity - unsent)))"

definition h3_probe_timeout :: "h3_lib \<Rightarrow> h3_session \<Rightarrow> u64" where
  "h3_probe_timeout lib s = (if h3_side s = Http3Server \<and> h3_drop_silently s then 0 else conn_pto lib (h3_calls s))"

section \<open>Packets out\<close>

text \<open>The result of writing into a packet: a packet, nothing, or an error.\<close>

datatype write_result = Wrote string | WroteNothing | WriteFailed quic_code

text \<open>One round of the loop: what \<^verbatim>\<open>nghttp3_conn_writev_stream\<close> does until it gives the number of pieces, the stream (none for \<^verbatim>\<open>-1\<close>)
  and the end flag, and what \<^verbatim>\<open>ngtcp2_conn_writev_stream\<close> does with them until it gives its result and the accepted length.\<close>

record flush_round =
  fr_read :: "(int \<times> u64 option \<times> bool) h3_run"
  fr_write :: "(write_result \<times> int) quic_run"

definition h3_app_failure :: "h3_lib \<Rightarrow> int \<Rightarrow> h3_session \<Rightarrow> h3_session" where
  "h3_app_failure lib status s = s\<lparr>h3_last_error := ccerr_app lib (infer_app_code lib status) (http_strerror lib status)\<rparr>"

text \<open>How a round ends: the loop goes on, or stops with the error of the QUIC library if there was one.\<close>

datatype round_end = Next | Stop "quic_code option"

definition flush_result :: "h3_lib \<Rightarrow> u64 option \<Rightarrow> write_result \<Rightarrow> h3_session \<Rightarrow> round_end \<times> h3_session" where
  "flush_result lib i r s =
     (case r of
        Wrote packet \<Rightarrow> (Next, h3_raise HK_output (H3Output packet) s)
      | WroteNothing \<Rightarrow> (Stop None, s)
      | WriteFailed NGTCP2_ERR_STREAM_DATA_BLOCKED \<Rightarrow> (Next, h3_log (BlockStream i) s)
      | WriteFailed NGTCP2_ERR_STREAM_SHUT_WR \<Rightarrow> (Next, h3_log (HttpShutdownStreamWrite i) s)
      | WriteFailed NGTCP2_ERR_WRITE_MORE \<Rightarrow> (Next, s)
      | WriteFailed NGTCP2_ERR_DRAINING \<Rightarrow> (Stop None, s)
      | WriteFailed NGTCP2_ERR_DROP_CONN \<Rightarrow> (Stop None, s)
      | WriteFailed code \<Rightarrow> (Stop (Some code), s\<lparr>h3_last_error := ccerr_liberr lib code (quic_strerror lib code)\<rparr>))"

definition flush_step :: "h3_lib \<Rightarrow> flush_round \<Rightarrow> h3_session \<Rightarrow> (round_end \<times> h3_session) option" where
  "flush_step lib rd s =
     (case h3_exec lib (fr_read rd) s of
        None \<Rightarrow> None
      | Some ((vec_num, i, fin), s1) \<Rightarrow>
          (if vec_num < 0 then Some (Stop None, h3_app_failure lib vec_num s1)
           else case quic_exec lib (fr_write rd) s1 of
                  None \<Rightarrow> None
                | Some ((r, data_len), s2) \<Rightarrow>
                    (let (status, s3) = (if data_len \<ge> 0 then http_do lib (AddWriteOffset i data_len) s2 else (0, s2))
                     in Some (if status \<noteq> 0 then (Stop None, h3_app_failure lib status s3)
                              else flush_result lib i r s3))))"

text \<open>The rounds that the libraries give; \<^const>\<open>None\<close> when there are not enough of them to leave the loop.\<close>

fun flush_loop :: "h3_lib \<Rightarrow> flush_round list \<Rightarrow> h3_session \<Rightarrow> (quic_code option \<times> h3_session) option" where
  "flush_loop lib [] s = None"
| "flush_loop lib (rd # rds) s =
     (case flush_step lib rd s of
        None \<Rightarrow> None
      | Some (Stop e, s1) \<Rightarrow> Some (e, s1)
      | Some (Next, s1) \<Rightarrow> flush_loop lib rds s1)"

definition h3_flush :: "h3_lib \<Rightarrow> flush_round list \<Rightarrow> u64 \<Rightarrow> h3_session \<Rightarrow> (h3_failure option \<times> h3_session) option" where
  "h3_flush lib rds now s =
     (case flush_loop lib rds s of
        None \<Rightarrow> None
      | Some (liberr, s1) \<Rightarrow>
          (let e = h3_last_error s1; expiry = conn_expiry lib (h3_calls s1)
           in Some (if ce_code e \<noteq> 0
                    then (Some (H3Failure (case liberr of None \<Rightarrow> NGTCP2_ERR_INTERNAL | Some c \<Rightarrow> c)
                            (FlushFailed (ce_reason e) (ce_code e))), handle_error lib s1)
                    else (None, if expiry \<noteq> -1 \<and> expiry > now
                                then h3_raise HK_expiry_update (H3ExpiryUpdate (expiry - now)) s1 else s1))))"

section \<open>Packets in\<close>

definition set_error_once :: "ccerr \<Rightarrow> h3_session \<Rightarrow> h3_session" where
  "set_error_once e s = (if ce_code (h3_last_error s) = 0 then s\<lparr>h3_last_error := e\<rparr> else s)"

definition h3_draining :: "h3_lib \<Rightarrow> h3_session \<Rightarrow> h3_session" where
  "h3_draining lib s =
     (if h3_handled_rx_close s then s else handle_rx_connection_close lib (s\<lparr>h3_handled_rx_close := True\<rparr>))"

definition h3_tls_failure :: "h3_lib \<Rightarrow> h3_session \<Rightarrow> h3_failure \<times> h3_session" where
  "h3_tls_failure lib s =
     (let alert = conn_tls_alert lib (h3_calls s)
      in (H3Failure NGTCP2_ERR_CRYPTO (TlsAlert (alert_desc lib alert)), set_error_once (ccerr_tls_alert lib alert []) s))"

datatype h3_input_result = EATEN | SEND_RETRY

definition h3_server_input :: "h3_lib \<Rightarrow> quic_code quic_run \<Rightarrow> h3_session \<Rightarrow> ((h3_failure + h3_input_result) \<times> h3_session) option" where
  "h3_server_input lib run s =
     (case quic_exec lib run s of
        None \<Rightarrow> None
      | Some (status, s1) \<Rightarrow>
          Some (case status of
                  NGTCP2_NO_ERROR \<Rightarrow> (Inr EATEN, s1)
                | NGTCP2_ERR_DROP_CONN \<Rightarrow>
                    (Inl (H3Failure status NoReason), handle_error lib (s1\<lparr>h3_drop_silently := True\<rparr>))
                | NGTCP2_ERR_DRAINING \<Rightarrow> (Inr EATEN, h3_draining lib s1)
                | NGTCP2_ERR_RETRY \<Rightarrow> (Inr SEND_RETRY, s1)
                | NGTCP2_ERR_CRYPTO \<Rightarrow> (case h3_tls_failure lib s1 of (e, s2) \<Rightarrow> (Inl e, handle_error lib s2))
                | _ \<Rightarrow> (Inl (H3Failure status NoReason), handle_error lib (set_error_once (ccerr_liberr lib status []) s1))))"

definition h3_client_input :: "h3_lib \<Rightarrow> quic_code quic_run \<Rightarrow> h3_session \<Rightarrow> (h3_failure option \<times> h3_session) option" where
  "h3_client_input lib run s =
     (case quic_exec lib run s of
        None \<Rightarrow> None
      | Some (status, s1) \<Rightarrow>
          Some (case status of
                  NGTCP2_NO_ERROR \<Rightarrow> (None, s1)
                | NGTCP2_ERR_DRAINING \<Rightarrow> (None, h3_draining lib s1)
                | NGTCP2_ERR_CRYPTO \<Rightarrow> (case h3_tls_failure lib s1 of (e, s2) \<Rightarrow> (Some e, handle_error lib s2))
                | _ \<Rightarrow> (let s2 = set_error_once (ccerr_liberr lib status []) s1; e = h3_last_error s2
                        in (Some (H3Failure status (InputFailed (ce_reason e) (ce_code e))), s2))))"

definition h3_update_callbacks :: "h3_kind set \<Rightarrow> h3_session \<Rightarrow> h3_session" where
  "h3_update_callbacks handler s = s\<lparr>h3_handler := handler\<rparr>"

section \<open>Retry packets\<close>

definition ORIGINAL_DCID_DATALEN :: nat where
  "ORIGINAL_DCID_DATALEN = 8"

text \<open>The header of the packet that is answered, and what the library does to forge the token and the packet: both give a negative status or the
  octets.  The largest payload is a constant of the library.\<close>

record retry_header =
  hd_version :: u32
  hd_scid :: bytes
  hd_dcid :: bytes

record 'addr retry_lib =
  rand_bytes :: "nat \<Rightarrow> bytes"
  generate_retry_token :: "bytes \<Rightarrow> u32 \<Rightarrow> 'addr \<Rightarrow> bytes \<Rightarrow> bytes \<Rightarrow> u64 \<Rightarrow> int + bytes"
  write_retry :: "nat \<Rightarrow> u32 \<Rightarrow> bytes \<Rightarrow> bytes \<Rightarrow> bytes \<Rightarrow> bytes \<Rightarrow> int + bytes"
  MAX_UDP_PAYLOAD_SIZE :: nat

definition prepare_retry :: "'addr retry_lib \<Rightarrow> retry_header \<Rightarrow> 'addr \<Rightarrow> nat \<Rightarrow> u64 \<Rightarrow> h3_session \<Rightarrow> int + bytes" where
  "prepare_retry lib h remote max_packet_len now s =
     (let scid = rand_bytes lib ORIGINAL_DCID_DATALEN
      in case generate_retry_token lib (h3_static_secret s) (hd_version h) remote scid (hd_dcid h) now of
           Inl token_len \<Rightarrow> Inl token_len
         | Inr token \<Rightarrow>
             write_retry lib (min (MAX_UDP_PAYLOAD_SIZE lib) max_packet_len) (hd_version h) (hd_scid h) scid (hd_dcid h) token)"

text \<open>The check that the peer's next packet calls for: the library verifies a token against the secret, the version, the address and the
  identifier that the packet was sent to.\<close>

definition token_verifies :: "'addr retry_lib \<Rightarrow> (bytes \<Rightarrow> u32 \<Rightarrow> 'addr \<Rightarrow> bytes \<Rightarrow> bytes \<Rightarrow> bytes option) \<Rightarrow> bool" where
  "token_verifies lib verify \<longleftrightarrow>
     (\<forall>secret v remote scid dcid now token.
        generate_retry_token lib secret v remote scid dcid now = Inr token \<longrightarrow> verify token v remote secret scid = Some dcid)"

text \<open>Also: a retry packet fits the payload and the size that the caller allows, and carries a token that verifies with the secret of this session, for
  the same version and address, to the identifier that the client chose first.\<close>

theorem prepare_retry_sound:
  assumes "\<And>n v a b c t p. write_retry lib n v a b c t = Inr p \<Longrightarrow> length p \<le> n"
    and "token_verifies lib verify"
    and "prepare_retry lib h remote max_packet_len now s = Inr packet"
  shows "length packet \<le> MAX_UDP_PAYLOAD_SIZE lib \<and> length packet \<le> max_packet_len \<and>
    (\<exists>scid token. write_retry lib (min (MAX_UDP_PAYLOAD_SIZE lib) max_packet_len) (hd_version h) (hd_scid h) scid (hd_dcid h) token = Inr packet \<and>
       verify token (hd_version h) remote (h3_static_secret s) scid = Some (hd_dcid h))"
proof -
  let ?scid = "rand_bytes lib ORIGINAL_DCID_DATALEN"
  let ?max = "min (MAX_UDP_PAYLOAD_SIZE lib) max_packet_len"
  obtain token where t: "generate_retry_token lib (h3_static_secret s) (hd_version h) remote ?scid (hd_dcid h) now = Inr token"
    and w: "write_retry lib ?max (hd_version h) (hd_scid h) ?scid (hd_dcid h) token = Inr packet"
    using assms(3) by (auto simp: prepare_retry_def Let_def split: sum.splits)
  have "length packet \<le> ?max" by (rule assms(1) [OF w])
  moreover have "verify token (hd_version h) remote (h3_static_secret s) ?scid = Some (hd_dcid h)"
    using assms(2) t by (simp add: token_verifies_def)
  ultimately show ?thesis using w by auto
qed

end
