(* ===== verification/Http3Streams.thy ===== *)
theory Http3Streams
  imports Http3Session
begin

text \<open>
  Properties of the HTTP/3 session: messages that cross from one side to the other, bodies that stay buffered until
  they are acknowledged, send capacity, the invariant of every reachable session, closing and its error codes.
\<close>

section \<open>Frame lemmas\<close>

lemma h3_find_put [simp]: "h3_find (h3_put i st s) j = (if i = j then Some st else h3_find s j)"
  by (simp add: h3_find_def h3_put_def update_conv')

lemma h3_put_simps [simp]:
  "h3_side (h3_put i st s) = h3_side s" "h3_handler (h3_put i st s) = h3_handler s" "h3_calls (h3_put i st s) = h3_calls s"
  "h3_events (h3_put i st s) = h3_events s" "h3_close_sent (h3_put i st s) = h3_close_sent s"
  by (simp_all add: h3_put_def)

lemma h3_put_put [simp]: "h3_put i a (h3_put i b s) = h3_put i a s"
  by (simp add: h3_put_def update_last)

lemma h3_put_events [simp]: "(h3_put i a s)\<lparr>h3_events := es\<rparr> = h3_put i a (s\<lparr>h3_events := es\<rparr>)"
  by (simp add: h3_put_def)

lemma h3_find_events [simp]: "h3_find (s\<lparr>h3_events := es\<rparr>) i = h3_find s i"
  by (simp add: h3_find_def)

lemma h3_find_delete [simp]:
  "h3_find (s\<lparr>h3_streams := AList.delete i (h3_streams s)\<rparr>) j = (if i = j then None else h3_find s j)"
  by (simp add: h3_find_def delete_conv')

lemma h3_raise_simps [simp]:
  "h3_side (h3_raise k e s) = h3_side s" "h3_handler (h3_raise k e s) = h3_handler s" "h3_calls (h3_raise k e s) = h3_calls s"
  "h3_streams (h3_raise k e s) = h3_streams s" "h3_find (h3_raise k e s) i = h3_find s i"
  "h3_close_sent (h3_raise k e s) = h3_close_sent s" "h3_last_error (h3_raise k e s) = h3_last_error s"
  "k \<in> h3_handler s \<Longrightarrow> h3_events (h3_raise k e s) = h3_events s @ [e]"
  by (simp_all add: h3_raise_def h3_find_def)

lemma h3_log_simps [simp]:
  "h3_side (h3_log c s) = h3_side s" "h3_handler (h3_log c s) = h3_handler s" "h3_calls (h3_log c s) = h3_calls s @ [c]"
  "h3_streams (h3_log c s) = h3_streams s" "h3_find (h3_log c s) i = h3_find s i" "h3_events (h3_log c s) = h3_events s"
  "h3_close_sent (h3_log c s) = h3_close_sent s" "h3_last_error (h3_log c s) = h3_last_error s"
  by (simp_all add: h3_log_def h3_find_def)

section \<open>Messages that cross\<close>

fun h3_feed :: "h3_lib \<Rightarrow> h3_callback list \<Rightarrow> h3_session \<Rightarrow> h3_session option" where
  "h3_feed lib [] s = Some s"
| "h3_feed lib (c # cs) s =
     (case h3_dispatch lib c s of Some (H3_OK, s1) \<Rightarrow> h3_feed lib cs s1 | _ \<Rightarrow> None)"

lemma h3_feed_append:
  "h3_feed lib (as @ bs) s = (case h3_feed lib as s of None \<Rightarrow> None | Some t \<Rightarrow> h3_feed lib bs t)"
  by (induction as arbitrary: s) (auto split: option.splits h3_answer.splits)

text \<open>One field of a head or of trailers, received with success.\<close>

definition h3_recv :: "u64 \<Rightarrow> string \<Rightarrow> string \<Rightarrow> h3_session \<Rightarrow> h3_session option" where
  "h3_recv i n v s = (case h3_on_recv_header i n v s of (H3_OK, s1) \<Rightarrow> Some s1 | _ \<Rightarrow> None)"

definition h3_recv_trailer :: "u64 \<Rightarrow> string \<Rightarrow> string \<Rightarrow> h3_session \<Rightarrow> h3_session option" where
  "h3_recv_trailer i n v s = (case h3_on_recv_trailer i n v s of (H3_OK, s1) \<Rightarrow> Some s1 | _ \<Rightarrow> None)"

definition trailer_put :: "string \<Rightarrow> string \<Rightarrow> http_message \<Rightarrow> http_message option" where
  "trailer_put n v m = Some (message_set_headers (headers_put (message_headers m) n v) m)"

interpretation h3_fields: field_receiver "h3_recv i" message_put "\<lambda>m s. h3_put i (st\<lparr>h3s_message := Some m\<rparr>) s" for i st
  by unfold_locales (simp add: h3_recv_def h3_on_recv_header_def split: option.splits)

interpretation h3_trailers: field_receiver "h3_recv_trailer i" trailer_put
    "\<lambda>m s. h3_put i (st\<lparr>h3s_message := Some m\<rparr>) s" for i st
  by unfold_locales (simp add: h3_recv_trailer_def h3_on_recv_trailer_def trailer_put_def)

definition h3_head :: "u64 \<Rightarrow> header list \<Rightarrow> bool \<Rightarrow> h3_callback list" where
  "h3_head i fs fin = H_begin_headers i # map (\<lambda>h. H_recv_header i (h_name h) (h_value h)) fs @ [H_end_headers i fin]"

definition h3_tail :: "u64 \<Rightarrow> header list \<Rightarrow> h3_callback list" where
  "h3_tail i ts =
     (if ts = [] then [] else H_begin_trailers i # map (\<lambda>h. H_recv_trailer i (h_name h) (h_value h)) ts @ [H_end_trailers i])"

definition h3_stream_calls :: "u64 \<Rightarrow> header list \<Rightarrow> string list \<Rightarrow> header list \<Rightarrow> u64 \<Rightarrow> h3_callback list" where
  "h3_stream_calls i fs ds ts err =
     h3_head i fs False @ map (H_recv_data i) ds @ h3_tail i ts @ [H_end_stream i, H_stream_close i err]"

lemma feed_recv_headers: "h3_feed lib (map (\<lambda>h. H_recv_header i (h_name h) (h_value h)) hs) s = fold_fields (h3_recv i) hs s"
  by (induction hs arbitrary: s) (auto simp: h3_recv_def split: option.splits prod.splits h3_answer.splits)

lemma feed_recv_trailers:
  "h3_feed lib (map (\<lambda>h. H_recv_trailer i (h_name h) (h_value h)) hs) s = fold_fields (h3_recv_trailer i) hs s"
  by (induction hs arbitrary: s) (auto simp: h3_recv_trailer_def split: option.splits prod.splits h3_answer.splits)

lemma trailer_put_all:
  "fold_fields trailer_put hs m =
     Some (message_set_headers ((message_headers m)\<lparr>m_headers := m_headers (message_headers m) @ hs\<rparr>) m)"
proof (induction hs arbitrary: m)
  case Nil
  then show ?case by (cases m) simp_all
next
  case (Cons h hs)
  then show ?case by (cases h; cases m) (simp_all add: trailer_put_def headers_put_def)
qed

definition h3_all :: "h3_kind set" where
  "h3_all = {HK_handshake, HK_message, HK_trailer, HK_body, HK_read_finished, HK_stream_closed, HK_close, HK_output,
     HK_data_sent, HK_expiry_update, HK_available_streams}"

lemma in_h3_all [simp]: "k \<in> h3_all"
  by (cases k) (simp_all add: h3_all_def)

lemma feed_h3_head:
  assumes "st = (case h3_find s i of None \<Rightarrow> h3_stream_new | Some st \<Rightarrow> st)" "h3s_message st = None" "h3_handler s = h3_all"
    and "message_put_all fs (h3_new_message s) = Some m"
  shows "\<exists>st1. h3_feed lib (h3_head i fs fin) s =
      Some (h3_put i st1 (s\<lparr>h3_events := h3_events s @ [H3Message i (set_has_body (\<not> fin) m)]\<rparr>)) \<and> h3s_message st1 = None"
proof -
  let ?s = "\<lambda>m. h3_put i (st\<lparr>h3s_message := Some m\<rparr>) s"
  let ?st = "case m of RequestMessage r \<Rightarrow> h3_flag_set H3_HEAD_REQUEST (rq_method r = ''HEAD'') (st\<lparr>h3s_message := None\<rparr>)
    | ResponseMessage r \<Rightarrow> st\<lparr>h3s_message := None\<rparr>"
  have "h3_on_begin_headers i s = (H3_OK, ?s (h3_new_message s))"
    using assms(1,2) by (auto simp: h3_on_begin_headers_def Let_def)
  moreover have "fold_fields (h3_recv i) fs (?s (h3_new_message s)) = Some (?s m)"
    using h3_fields.receive_fields [where i = i and st = st and m = "h3_new_message s" and hs = fs and s = s] assms(4) by simp
  moreover have "h3_on_end_headers i fin (?s m) =
      Some (H3_OK, h3_put i ?st (s\<lparr>h3_events := h3_events s @ [H3Message i (set_has_body (\<not> fin) m)]\<rparr>))"
    using assms(3) by (cases m) (simp_all add: h3_on_end_headers_def Let_def set_has_body_def headers_set_has_body_def h3_raise_def)
  moreover have "h3s_message ?st = None" by (cases m) (simp_all add: h3_flag_set_def)
  ultimately show ?thesis by (auto simp: h3_head_def h3_feed_append feed_recv_headers)
qed

lemma feed_h3_data:
  assumes "h3_find s i \<noteq> None" "h3_handler s = h3_all"
  shows "h3_feed lib (map (H_recv_data i) ds) s = Some (s\<lparr>h3_events := h3_events s @ map (H3Body i) ds\<rparr>)"
  using assms
proof (induction ds arbitrary: s)
  case (Cons d ds)
  then show ?case
    using Cons.IH [of "s\<lparr>h3_events := h3_events s @ [H3Body i d]\<rparr>"] by (simp add: h3_on_data_chunk_recv_def h3_raise_def)
qed simp

lemma feed_h3_tail:
  assumes "h3_find s i = Some st" "h3s_message st = None" "h3_handler s = h3_all"
  shows "\<exists>st1. h3_feed lib (h3_tail i ts) s = Some (h3_put i st1 (s\<lparr>h3_events := h3_events s @
      (if ts = [] then [] else [H3Trailer i \<lparr>m_headers = ts, m_has_body = False\<rparr>])\<rparr>))"
proof (cases "ts = []")
  case True
  have "h3_put i st s = s" using assms(1) by (cases s) (simp add: h3_put_def h3_find_def update_triv)
  then show ?thesis using True by (intro exI [of _ st]) (cases s, simp add: h3_tail_def h3_put_def)
next
  case False
  let ?s = "\<lambda>m. h3_put i (st\<lparr>h3s_message := Some m\<rparr>) s"
  let ?m = "h3_new_message s"
  let ?m1 = "message_set_headers ((message_headers ?m)\<lparr>m_headers := m_headers (message_headers ?m) @ ts\<rparr>) ?m"
  have "h3_on_begin_trailers i s = (H3_OK, ?s ?m)" using assms(1,2) by (simp add: h3_on_begin_trailers_def)
  moreover have "fold_fields (h3_recv_trailer i) ts (?s ?m) = Some (?s ?m1)"
    using h3_trailers.receive_fields [where i = i and st = st and m = ?m and hs = ts and s = s]
    by (simp add: trailer_put_all)
  moreover have "message_headers ?m1 = \<lparr>m_headers = ts, m_has_body = False\<rparr>"
    by (simp add: h3_new_message_def new_message_def make_request_def headers_empty_def)
  ultimately show ?thesis using False assms(3)
    by (intro exI [of _ "st\<lparr>h3s_message := None\<rparr>"])
      (simp add: h3_tail_def h3_feed_append feed_recv_trailers h3_on_end_trailers_def h3_raise_def)
qed
text \<open>The identifier of a closed stream survives when it fits in 32 bits, and the code when it fits in 31.\<close>

lemma close_codes_fit:
  fixes i err :: u64
  shows "i < 2 ^ 32 \<Longrightarrow> ucast (ucast i :: u32) = i" "err < 2 ^ 31 \<Longrightarrow> sint (ucast err :: u32) = int (unat err)"
proof -
  show "ucast (ucast i :: u32) = i" if "i < 2 ^ 32"
    using that by (simp add: word_unat_eq_iff unsigned_ucast_eq unsigned_take_bit_eq word_less_nat_alt take_bit_nat_eq_self)
  show "sint (ucast err :: u32) = int (unat err)" if "err < 2 ^ 31"
    using that by (simp add: signed_ucast_eq signed_take_bit_int_eq_self_iff word_less_def order_trans [of _ 0])
qed

lemma feed_h3_stream:
  assumes "st = (case h3_find s i of None \<Rightarrow> h3_stream_new | Some st \<Rightarrow> st)" "h3s_message st = None" "h3_handler s = h3_all"
    and "message_put_all fs (h3_new_message s) = Some m" "i < 2 ^ 32" "err < 2 ^ 31"
  shows "\<exists>s'. h3_feed lib (h3_stream_calls i fs ds ts err) s = Some s' \<and> h3_find s' i = None \<and>
    h3_events s' = h3_events s @ [H3Message i (set_has_body True m)] @ map (H3Body i) ds @
      (if ts = [] then [] else [H3Trailer i \<lparr>m_headers = ts, m_has_body = False\<rparr>]) @
      [H3ReadFinished i, H3StreamClosed i (int (unat err))]"
proof -
  note fit = close_codes_fit(1) [OF assms(5)] close_codes_fit(2) [OF assms(6)]
  obtain st1 where f1: "h3_feed lib (h3_head i fs False) s =
      Some (h3_put i st1 (s\<lparr>h3_events := h3_events s @ [H3Message i (set_has_body (\<not> False) m)]\<rparr>))" "h3s_message st1 = None"
    using feed_h3_head [OF assms(1-4)] by blast
  define s1 where "s1 = h3_put i st1 (s\<lparr>h3_events := h3_events s @ [H3Message i (set_has_body True m)]\<rparr>)"
  have f2: "h3_feed lib (map (H_recv_data i) ds) s1 = Some (s1\<lparr>h3_events := h3_events s1 @ map (H3Body i) ds\<rparr>)"
    by (rule feed_h3_data) (simp_all add: s1_def assms(3))
  define s2 where "s2 = s1\<lparr>h3_events := h3_events s1 @ map (H3Body i) ds\<rparr>"
  have s2: "h3_find s2 i = Some st1" "h3_handler s2 = h3_all" by (simp_all add: s2_def s1_def assms(3))
  from feed_h3_tail [OF s2(1) f1(2) s2(2), of lib ts] obtain st2 where f3: "h3_feed lib (h3_tail i ts) s2 =
      Some (h3_put i st2 (s2\<lparr>h3_events := h3_events s2 @ (if ts = [] then [] else [H3Trailer i \<lparr>m_headers = ts, m_has_body = False\<rparr>])\<rparr>))"
    by blast
  define s3 where "s3 = h3_put i st2 (s2\<lparr>h3_events := h3_events s2 @ (if ts = [] then [] else [H3Trailer i \<lparr>m_headers = ts, m_has_body = False\<rparr>])\<rparr>)"
  have s3: "h3_find s3 i = Some st2" "h3_handler s3 = h3_all" by (simp_all add: s3_def s2)
  have f4: "\<exists>s4. h3_feed lib [H_end_stream i, H_stream_close i err] s3 = Some s4 \<and> h3_find s4 i = None \<and>
      h3_events s4 = h3_events s3 @ [H3ReadFinished i, H3StreamClosed i (int (unat err))]"
    using s3 by (simp add: h3_on_end_stream_def on_h3_stream_close_def h3_close_stream_def fit h3_raise_def
        h3_find_def delete_conv')
  have "h3_feed lib (h3_stream_calls i fs ds ts err) s = h3_feed lib [H_end_stream i, H_stream_close i err] s3"
    using f1(1) f2 f3 unfolding h3_stream_calls_def h3_feed_append by (simp add: s3_def s2_def s1_def)
  moreover have "h3_events s3 = h3_events s @ [H3Message i (set_has_body True m)] @ map (H3Body i) ds @
      (if ts = [] then [] else [H3Trailer i \<lparr>m_headers = ts, m_has_body = False\<rparr>])"
    by (simp add: s3_def s2_def s1_def)
  ultimately show ?thesis using f4 by auto
qed

text \<open>What reaches the server: when the head of the message ends the stream, nothing follows it but the end and the close.\<close>

definition h3_delivered_calls :: "u64 \<Rightarrow> bool \<Rightarrow> header list \<Rightarrow> string list \<Rightarrow> header list \<Rightarrow> u64 \<Rightarrow> h3_callback list" where
  "h3_delivered_calls i fin fs ds ts err =
     (if fin then h3_head i fs True @ [H_end_stream i, H_stream_close i err] else h3_stream_calls i fs ds ts err)"

lemma feed_h3_ended_stream:
  assumes "st = (case h3_find s i of None \<Rightarrow> h3_stream_new | Some st \<Rightarrow> st)" "h3s_message st = None" "h3_handler s = h3_all"
    and "message_put_all fs (h3_new_message s) = Some m" "i < 2 ^ 32" "err < 2 ^ 31"
  shows "\<exists>s'. h3_feed lib (h3_delivered_calls i True fs ds ts err) s = Some s' \<and> h3_find s' i = None \<and>
    h3_events s' = h3_events s @ [H3Message i (set_has_body False m), H3ReadFinished i, H3StreamClosed i (int (unat err))]"
proof -
  note fit = close_codes_fit(1) [OF assms(5)] close_codes_fit(2) [OF assms(6)]
  obtain st1 where f1: "h3_feed lib (h3_head i fs True) s =
      Some (h3_put i st1 (s\<lparr>h3_events := h3_events s @ [H3Message i (set_has_body (\<not> True) m)]\<rparr>))"
    using feed_h3_head [OF assms(1-4)] by blast
  define s1 where "s1 = h3_put i st1 (s\<lparr>h3_events := h3_events s @ [H3Message i (set_has_body False m)]\<rparr>)"
  have s1: "h3_find s1 i = Some st1" "h3_handler s1 = h3_all" "h3_feed lib (h3_head i fs True) s = Some s1"
      "h3_events s1 = h3_events s @ [H3Message i (set_has_body False m)]"
    using f1 by (simp_all add: s1_def assms(3))
  have "\<exists>s2. h3_feed lib [H_end_stream i, H_stream_close i err] s1 = Some s2 \<and> h3_find s2 i = None \<and>
      h3_events s2 = h3_events s1 @ [H3ReadFinished i, H3StreamClosed i (int (unat err))]"
    using s1 by (simp add: h3_on_end_stream_def on_h3_stream_close_def h3_close_stream_def fit h3_raise_def
        h3_find_def delete_conv')
  then show ?thesis using s1(3,4) by (simp add: h3_delivered_calls_def h3_feed_append del: h3_feed.simps)
qed

text \<open>C18: A request that a client submits over HTTP/3 is the request a server reports.  The client's last call into the library carries the
  request's fields, and a reader for the body unless the caller said that no body follows or the method is \<^verbatim>\<open>HEAD\<close>; without a reader the
  head ends the stream.  Delivered to a server as the head of a new stream, followed by data and trailers unless the head ended the
  stream, and by the end and the close, the call makes the server report a request with the method, path, scheme, authority and
  headers of the one submitted, of version HTTP/3 and with a body exactly when the head did not end the stream, then the data in
  order, the trailers, the end of reading and the close, after which the stream is gone.  No header is named like a
  pseudo-header, the server has all callbacks set, the identifier of the stream is below two to the power 32, and the code of
  the close is below two to the power 31.\<close>

theorem h3_request_crosses:
  assumes "h3_submit_request libc r eof c = (Inr j, c')"
    and "list_all (\<lambda>h. h_name h \<notin> set pseudo_names) (m_headers (rq_headers r))"
    and "h3_side s = Http3Server" "h3_handler s = h3_all" "h3_find s i = None" "i < 2 ^ 32" "err < 2 ^ 31"
  shows "\<exists>fs reader s'. last (h3_calls c') = H3SubmitRequest j fs reader \<and> reader = (\<not> (eof \<or> rq_method r = ''HEAD'')) \<and>
    h3_feed lib (h3_delivered_calls i (\<not> reader) fs ds ts err) s = Some s' \<and> h3_find s' i = None \<and>
    h3_events s' = h3_events s @
      [H3Message i (RequestMessage (r\<lparr>rq_version := HTTP_3_0, rq_headers := (rq_headers r)\<lparr>m_has_body := reader\<rparr>\<rparr>))] @
      (if reader then map (H3Body i) ds @ (if ts = [] then [] else [H3Trailer i \<lparr>m_headers = ts, m_has_body = False\<rparr>]) else []) @
      [H3ReadFinished i, H3StreamClosed i (int (unat err))]"
proof -
  let ?reader = "\<not> (eof \<or> rq_method r = ''HEAD'')"
  have call: "last (h3_calls c') = H3SubmitRequest j (request_fields r) ?reader"
    using assms(1) by (auto simp: h3_submit_request_def quic_do_def http_do_def Let_def split: if_splits)
  let ?m = "RequestMessage (r\<lparr>rq_version := HTTP_3_0, rq_headers := (rq_headers r)\<lparr>m_has_body := False\<rparr>\<rparr>)"
  have m: "message_put_all (request_fields r) (h3_new_message s) = Some ?m"
    using request_fields_read [OF assms(2), of HTTP_3_0] assms(3) by (simp add: h3_new_message_def)
  have st: "h3_stream_new = (case h3_find s i of None \<Rightarrow> h3_stream_new | Some st \<Rightarrow> st)" "h3s_message h3_stream_new = None"
    using assms(5) by (simp_all add: h3_stream_new_def)
  have "\<exists>s'. h3_feed lib (h3_delivered_calls i (\<not> ?reader) (request_fields r) ds ts err) s = Some s' \<and> h3_find s' i = None \<and>
    h3_events s' = h3_events s @ [H3Message i (set_has_body ?reader ?m)] @
      (if ?reader then map (H3Body i) ds @ (if ts = [] then [] else [H3Trailer i \<lparr>m_headers = ts, m_has_body = False\<rparr>]) else []) @
      [H3ReadFinished i, H3StreamClosed i (int (unat err))]"
  proof (cases ?reader)
    case True
    then show ?thesis
      using feed_h3_stream [OF st assms(4) m assms(6,7), of lib ds ts] by (simp add: h3_delivered_calls_def)
  next
    case False
    then show ?thesis using feed_h3_ended_stream [OF st assms(4) m assms(6,7), of lib ds ts] by simp
  qed
  then show ?thesis unfolding call by (simp add: set_has_body_def)
qed

text \<open>A library that accepts everything, for concrete runs.\<close>

definition h3_ok :: h3_lib where
  "h3_ok = \<lparr>quic_status = (\<lambda>cs c. NGTCP2_NO_ERROR), http_status = (\<lambda>cs c. 0), new_stream_id = (\<lambda>cs. 4), err_stream_not_found = -1,
     h3_no_error = 0x100, h3_request_cancelled = 0x10c, is_bidi_stream = (\<lambda>i. i AND 2 = 0),
     max_stream_data_left = (\<lambda>cs i. 1000), max_data_left = (\<lambda>cs. 600), conn_ccerr = (\<lambda>cs. \<lparr>ce_type = CCERR_TRANSPORT, ce_code = 0, ce_reason = []\<rparr>),
     conn_tls_alert = (\<lambda>cs. 40), conn_expiry = (\<lambda>cs. -1), conn_pto = (\<lambda>cs. 5), close_packet = (\<lambda>cs e. Some ''close''),
     ccerr_default = \<lparr>ce_type = CCERR_TRANSPORT, ce_code = 0, ce_reason = []\<rparr>,
     ccerr_app = (\<lambda>c r. \<lparr>ce_type = CCERR_APPLICATION, ce_code = c, ce_reason = r\<rparr>),
     ccerr_liberr = (\<lambda>c r. \<lparr>ce_type = CCERR_TRANSPORT, ce_code = 1, ce_reason = r\<rparr>),
     ccerr_tls_alert = (\<lambda>a r. \<lparr>ce_type = CCERR_TRANSPORT, ce_code = 0x100 OR ucast a, ce_reason = r\<rparr>),
     infer_app_code = (\<lambda>e. 0x101), http_strerror = (\<lambda>e. []), quic_strerror = (\<lambda>e. []), alert_desc = (\<lambda>a. []),
     evb_peek = (\<lambda>n b. if n = 0 \<or> b = [] then [] else [b]), sha1 = (\<lambda>b. b), md5 = (\<lambda>b. Some b),
     quic_accept = (\<lambda>p. Inr (p, p, 1)), NGTCP2_PROTO_VER_V1 = 1\<rparr>"

lemma h3_ok_simps [simp]:
  "quic_status h3_ok cs c = NGTCP2_NO_ERROR" "http_status h3_ok cs c = 0" "max_stream_data_left h3_ok cs i = 1000"
  "max_data_left h3_ok cs = 600" "close_packet h3_ok cs e = Some ''close''"
  "new_stream_id h3_ok cs = 4" "h3_no_error h3_ok = 0x100" "conn_tls_alert h3_ok cs = 40" "alert_desc h3_ok x = []"
  "ccerr_default h3_ok = \<lparr>ce_type = CCERR_TRANSPORT, ce_code = 0, ce_reason = []\<rparr>"
  "ccerr_app h3_ok code r = \<lparr>ce_type = CCERR_APPLICATION, ce_code = code, ce_reason = r\<rparr>"
  "ccerr_tls_alert h3_ok x r = \<lparr>ce_type = CCERR_TRANSPORT, ce_code = 0x100 OR ucast x, ce_reason = r\<rparr>"
  "sha1 h3_ok p = p" "md5 h3_ok p = Some p" "quic_accept h3_ok p = Inr (p, p, 1)"
  by (simp_all add: h3_ok_def)

theorem h3_request_crosses_witness:
  "(\<exists>s'. h3_feed h3_ok (h3_delivered_calls 4 False (request_fields (make_request HTTP_3_0 ''POST'' ''/'')) [''ab''] [make_header ''t'' ''1''] 256)
      (h3_session_new h3_ok Http3Server h3_default_settings h3_all) = Some s' \<and> h3_find s' 4 = None \<and>
    h3_events s' = [H3Message 4 (RequestMessage ((make_request HTTP_3_0 ''POST'' ''/'')\<lparr>rq_headers := \<lparr>m_headers = [], m_has_body = True\<rparr>\<rparr>)),
      H3Body 4 ''ab'', H3Trailer 4 \<lparr>m_headers = [make_header ''t'' ''1''], m_has_body = False\<rparr>, H3ReadFinished 4, H3StreamClosed 4 256]) \<and>
   (\<exists>s'. h3_feed h3_ok (h3_delivered_calls 4 True (request_fields (make_request HTTP_3_0 ''HEAD'' ''/'')) [] [] 256)
      (h3_session_new h3_ok Http3Server h3_default_settings h3_all) = Some s' \<and> h3_find s' 4 = None \<and>
    h3_events s' = [H3Message 4 (RequestMessage ((make_request HTTP_3_0 ''HEAD'' ''/'')\<lparr>rq_headers := \<lparr>m_headers = [], m_has_body = False\<rparr>\<rparr>)),
      H3ReadFinished 4, H3StreamClosed 4 256])"
proof -
  let ?c = "h3_session_new h3_ok Http3Client h3_default_settings h3_all"
  let ?s = "h3_session_new h3_ok Http3Server h3_default_settings h3_all"
  have sub: "h3_submit_request h3_ok r False ?c = (Inr 4, snd (h3_submit_request h3_ok r False ?c))" for r
    by (simp add: h3_submit_request_def quic_do_def http_do_def h3_ok_def Let_def)
  have call: "last (h3_calls (snd (h3_submit_request h3_ok r False ?c))) = H3SubmitRequest 4 (request_fields r) (rq_method r \<noteq> ''HEAD'')" for r
    by (simp add: h3_submit_request_def quic_do_def http_do_def h3_ok_def Let_def)
  have s: "h3_side ?s = Http3Server" "h3_handler ?s = h3_all" "h3_find ?s 4 = None" "h3_events ?s = []"
    by (simp_all add: h3_session_new_def h3_find_def)
  have plain: "list_all (\<lambda>h. h_name h \<notin> set pseudo_names) (m_headers (rq_headers (make_request v m p)))" for v m p
    by (simp add: make_request_def headers_empty_def)
  have b: "(4 :: u64) < 2 ^ 32" "(256 :: u64) < 2 ^ 31" by simp_all
  show ?thesis
    using h3_request_crosses [OF sub plain s(1-3) b, of HTTP_3_0 "''POST''" "''/''" h3_ok "[''ab'']" "[make_header ''t'' ''1'']"]
      h3_request_crosses [OF sub plain s(1-3) b, of HTTP_3_0 "''HEAD''" "''/''" h3_ok "[]" "[]"]
    unfolding call s(4) by (auto simp: make_request_def headers_empty_def)
qed

text \<open>Also: a response with a status below two to the power 31 that a server submits over HTTP/3 is the response a
  client reports on the stream of its request, followed by the data, the trailers, the end of reading and the close.\<close>

theorem h3_response_crosses:
  assumes "h3_submit_response libs k (make_response HTTP_3_0 code\<lparr>rs_headers := hs\<rparr>) eof t = (None, t')"
    and "h3_calls t' = cs @ [H3SubmitResponse k fs reader, ResumeStream k]" "0 \<le> code" "code < 2 ^ 31"
    and "list_all (\<lambda>h. h_name h \<notin> set pseudo_names) (m_headers hs)"
    and "h3_side s = Http3Client" "h3_handler s = h3_all" "h3_find s i = Some st" "h3s_message st = None"
    and "i < 2 ^ 32" "err < 2 ^ 31"
  shows "\<exists>s'. h3_feed lib (h3_stream_calls i fs ds ts err) s = Some s' \<and> h3_find s' i = None \<and>
    h3_events s' = h3_events s @
      [H3Message i (ResponseMessage (make_response HTTP_3_0 code\<lparr>rs_headers := hs\<lparr>m_has_body := True\<rparr>\<rparr>))] @
      map (H3Body i) ds @ (if ts = [] then [] else [H3Trailer i \<lparr>m_headers = ts, m_has_body = False\<rparr>]) @
      [H3ReadFinished i, H3StreamClosed i (int (unat err))]"
proof -
  let ?r = "make_response HTTP_3_0 code\<lparr>rs_headers := hs\<rparr>"
  have fs: "fs = response_fields ?r"
    using assms(1,2) by (auto simp: h3_submit_response_def h3_resume_def http_do_def Let_def split: option.splits if_splits)
  have v: "HTTP_1_1 < HTTP_3_0" by (simp add: version_defs)
  have m: "message_put_all fs (h3_new_message s) =
    Some (ResponseMessage (?r\<lparr>rs_version := HTTP_3_0, rs_headers := hs\<lparr>m_has_body := False\<rparr>\<rparr>))"
    using response_fields_read [of ?r HTTP_3_0] assms(3-6) v
    by (simp add: fs h3_new_message_def make_response_def response_set_status_code_def Let_def)
  have st: "st = (case h3_find s i of None \<Rightarrow> h3_stream_new | Some st \<Rightarrow> st)" using assms(8) by simp
  show ?thesis
    using feed_h3_stream [OF st assms(9,7) m assms(10,11), of lib ds ts] v
    by (simp add: set_has_body_def make_response_def response_set_status_code_def Let_def)
qed

theorem h3_response_crosses_witness:
  "\<exists>s'. h3_feed h3_ok (h3_stream_calls 4 (response_fields (make_response HTTP_3_0 404\<lparr>rs_headers := headers_empty\<rparr>)) [''ab''] [] 256)
      (h3_put 4 h3_stream_new (h3_session_new h3_ok Http3Client h3_default_settings h3_all)) = Some s' \<and> h3_find s' 4 = None \<and>
    h3_events s' = [H3Message 4 (ResponseMessage (make_response HTTP_3_0 404\<lparr>rs_headers := \<lparr>m_headers = [], m_has_body = True\<rparr>\<rparr>)),
      H3Body 4 ''ab'', H3ReadFinished 4, H3StreamClosed 4 256]"
proof -
  let ?r = "make_response HTTP_3_0 404\<lparr>rs_headers := headers_empty\<rparr>"
  let ?t = "h3_put 4 h3_stream_new (h3_session_new h3_ok Http3Server h3_default_settings h3_all)"
  have t: "h3_submit_response h3_ok 4 ?r True ?t = (None, snd (h3_submit_response h3_ok 4 ?r True ?t))"
    "h3_calls (snd (h3_submit_response h3_ok 4 ?r True ?t)) = [] @ [H3SubmitResponse 4 (response_fields ?r) None, ResumeStream 4]"
    by (simp_all add: h3_submit_response_def h3_resume_def http_do_def h3_ok_def Let_def h3_session_new_def)
  show ?thesis
    using h3_response_crosses [OF t, of "h3_put 4 h3_stream_new (h3_session_new h3_ok Http3Client h3_default_settings h3_all)"
        4 h3_stream_new 256 h3_ok "[''ab'']" "[]"]
    by (simp add: h3_session_new_def h3_stream_new_def headers_empty_def)
qed

section \<open>Bodies stay buffered until they are acknowledged\<close>

text \<open>The user pushes pieces; the library reads into a number of vectors and acknowledges octets it has read, as many as asked
  for or all of those it holds.  A run collects what was read and how much was acknowledged.\<close>

datatype h3_body_op = H3Push string bool | H3Read nat | H3Ack nat

fun h3_body_run :: "h3_lib \<Rightarrow> u64 \<Rightarrow> h3_body_op list \<Rightarrow> h3_session \<Rightarrow> (string \<times> nat \<times> h3_session) option" where
  "h3_body_run lib i [] s = Some ([], 0, s)"
| "h3_body_run lib i (H3Push c eof # ops) s =
     (case h3_submit_body lib i c eof s of
        (None, s1) \<Rightarrow> h3_body_run lib i ops s1
      | (Some e, s1) \<Rightarrow> None)"
| "h3_body_run lib i (H3Read n # ops) s =
     (case on_read_data lib i n s of
        Some (H3_VECS vec eof no_end, s1) \<Rightarrow>
          map_option (\<lambda>(out, a, t). (concat vec @ out, a, t)) (h3_body_run lib i ops s1)
      | Some (H3_WOULDBLOCK, s1) \<Rightarrow> h3_body_run lib i ops s1
      | _ \<Rightarrow> None)"
| "h3_body_run lib i (H3Ack k # ops) s =
     (case h3_find s i of
        None \<Rightarrow> None
      | Some st \<Rightarrow>
          (let n = min k (h3s_read_offset st)
           in case on_acked_stream_data i n s of
                Some (H3_OK, s1) \<Rightarrow> map_option (\<lambda>(out, a, t). (out, n + a, t)) (h3_body_run lib i ops s1)
              | _ \<Rightarrow> None))"

fun h3_pushed :: "h3_body_op list \<Rightarrow> string" where
  "h3_pushed [] = []"
| "h3_pushed (H3Push c eof # ops) = c @ h3_pushed ops"
| "h3_pushed (_ # ops) = h3_pushed ops"

fun h3_ended :: "bool \<Rightarrow> h3_body_op list \<Rightarrow> bool" where
  "h3_ended e [] = e"
| "h3_ended e (H3Push c eof # ops) = h3_ended eof ops"
| "h3_ended e (_ # ops) = h3_ended e ops"

text \<open>The documented behaviour of \<^verbatim>\<open>evbuffer_peek\<close>: as many vectors as there is room for, over a beginning of the data, and at
  least one when there is data and room.\<close>

definition peek_ok :: "h3_lib \<Rightarrow> bool" where
  "peek_ok lib \<longleftrightarrow> (\<forall>n b. length (evb_peek lib n b) \<le> n \<and> concat (evb_peek lib n b) = take (length (concat (evb_peek lib n b))) b \<and>
     (evb_peek lib n b = [] \<longleftrightarrow> n = 0 \<or> b = []))"

definition h3_holds :: "h3_session \<Rightarrow> u64 \<Rightarrow> string \<Rightarrow> nat \<Rightarrow> bool \<Rightarrow> bool \<Rightarrow> bool" where
  "h3_holds s i b off e t \<longleftrightarrow>
     (case h3_find s i of
        None \<Rightarrow> False
      | Some st \<Rightarrow> h3s_buffer st = Some b \<and> h3s_read_offset st = off \<and> (H3_HAS_EOF \<in> h3s_flags st) = e \<and>
          (TRAILERS_SUBMITTED \<in> h3s_flags st) = t)"

lemma push_holds:
  assumes "h3_holds s i b off e t" "\<And>cs c. http_status lib cs c = 0"
  shows "\<exists>s1. h3_submit_body lib i c eof s = (None, s1) \<and> h3_holds s1 i (b @ c) off eof t"
  using assms by (auto simp: h3_holds_def h3_submit_body_def h3_push_data_def h3_resume_def http_do_def Let_def h3_flag_set_def
      split: option.splits)

lemma ack_holds:
  assumes "h3_holds s i b off e t" "k \<le> off" "off \<le> length b"
  shows "\<exists>s1. on_acked_stream_data i k s = Some (H3_OK, s1) \<and> h3_holds s1 i (drop k b) (off - k) e t"
  using assms by (auto simp: h3_holds_def on_acked_stream_data_def Let_def split: option.splits)

definition read_answer :: "string list \<Rightarrow> string \<Rightarrow> bool \<Rightarrow> bool \<Rightarrow> h3_answer" where
  "read_answer vec unsent e t =
     (if vec = [] \<and> unsent = [] \<and> t then H3_VECS [] True True
      else if vec = [] \<and> \<not> (unsent = [] \<and> e) then H3_WOULDBLOCK
      else H3_VECS vec (e \<and> concat vec = unsent) False)"

lemma on_read_data_eq:
  assumes st: "h3_find s i = Some st" "h3s_buffer st = Some b" "h3s_read_offset st = off" "off \<le> length b"
    and "peek_ok lib" "vec = evb_peek lib n (drop off b)"
  shows "on_read_data lib i n s = Some (read_answer vec (drop off b) (H3_HAS_EOF \<in> h3s_flags st) (TRAILERS_SUBMITTED \<in> h3s_flags st),
      h3_put i (st\<lparr>h3s_read_offset := off + length (concat vec)\<rparr>) s)" (is ?eq)
    and "concat vec = take (length (concat vec)) (drop off b)" "off + length (concat vec) \<le> length b"
proof -
  show p: "concat vec = take (length (concat vec)) (drop off b)" using assms(5,6) by (auto simp: peek_ok_def)
  then have l: "length (concat vec) \<le> length b - off" by (metis length_drop length_take min.cobounded1)
  then show "off + length (concat vec) \<le> length b" using st(4) by simp
  define k where "k = length (concat vec)"
  have c: "concat vec = take k (drop off b)" and k: "k \<le> length b - off" using p l by (simp_all add: k_def)
  have u: "concat vec = drop off b \<longleftrightarrow> length b - (off + k) = 0"
    using k st(4) by (auto simp: c)
  have kc: "length (concat vec) = k" by (simp add: k_def)
  have "vec = [] \<Longrightarrow> k = 0" by (simp add: k_def)
  then show ?eq
    using st(4) by (auto simp: on_read_data_def read_answer_def Let_def st(1-3) kc u simp flip: assms(6))
qed

lemma read_holds:
  assumes "h3_holds s i b off e t" "peek_ok lib" "off \<le> length b"
    and "vec = evb_peek lib n (drop off b)"
  shows "\<exists>s1. on_read_data lib i n s = Some (read_answer vec (drop off b) e t, s1) \<and>
    h3_holds s1 i b (off + length (concat vec)) e t \<and> concat vec = take (length (concat vec)) (drop off b) \<and>
    off + length (concat vec) \<le> length b"
proof -
  obtain st where st: "h3_find s i = Some st" "h3s_buffer st = Some b" "h3s_read_offset st = off"
    "(H3_HAS_EOF \<in> h3s_flags st) = e" "(TRAILERS_SUBMITTED \<in> h3s_flags st) = t"
    using assms(1) by (auto simp: h3_holds_def split: option.splits)
  note eq = on_read_data_eq [OF st(1-3) assms(3,2,4)]
  show ?thesis
    by (intro exI conjI, rule eq(1) [unfolded st(4,5)]) (use eq(2,3) st in \<open>simp_all add: h3_holds_def\<close>)
qed

lemma take_window:
  assumes "n \<le> off" "off \<le> length b" "take (off - n) (drop n b) @ g = take (off - n + length g) (drop n b @ p)"
  shows "take off b @ g = take (off + length g) (b @ p)"
proof -
  have o: "take off b = take n b @ take (off - n) (drop n b)" "off + length g = n + (off - n + length g)"
    using take_add [of n "off - n" b] assms(1) by simp_all
  have "take off b @ g = take n (b @ p) @ take (off - n + length g) (drop n (b @ p))"
    using assms by (simp add: o(1))
  then show ?thesis unfolding o(2) take_add .
qed

lemma h3_body_run_holds:
  assumes lib: "peek_ok lib" "\<And>cs c. http_status lib cs c = 0" and "h3_holds s i b off e t" "off \<le> length b"
  shows "\<exists>g a s' b' off'. h3_body_run lib i ops s = Some (g, a, s') \<and> h3_holds s' i b' off' (h3_ended e ops) t \<and>
    off' \<le> length b' \<and> a + off' = off + length g \<and> b' = drop a (b @ h3_pushed ops) \<and>
    take off b @ g = take (off + length g) (b @ h3_pushed ops)"
  using assms(3,4)
proof (induction ops arbitrary: s b off e)
  case (Cons op ops)
  show ?case
  proof (cases op)
    case (H3Push c eof)
    obtain s1 where s1: "h3_submit_body lib i c eof s = (None, s1)" "h3_holds s1 i (b @ c) off eof t"
      using push_holds [OF Cons.prems(1) lib(2)] by blast
    have "off \<le> length (b @ c)" "take off (b @ c) = take off b" using Cons.prems(2) by simp_all
    then show ?thesis using Cons.IH [OF s1(2)] unfolding H3Push h3_body_run.simps h3_pushed.simps h3_ended.simps s1(1)
      by (simp only: append_assoc prod.case option.case)
  next
    case (H3Read n)
    define vec where "vec = evb_peek lib n (drop off b)"
    obtain s1 where s1: "on_read_data lib i n s = Some (read_answer vec (drop off b) e t, s1)"
      "h3_holds s1 i b (off + length (concat vec)) e t" "concat vec = take (length (concat vec)) (drop off b)"
      "off + length (concat vec) \<le> length b"
      using read_holds [OF Cons.prems(1) lib(1) Cons.prems(2) vec_def] by blast
    obtain g a s' b' off' where r: "h3_body_run lib i ops s1 = Some (g, a, s')" "h3_holds s' i b' off' (h3_ended e ops) t"
      "off' \<le> length b'" "a + off' = off + length (concat vec) + length g" "b' = drop a (b @ h3_pushed ops)"
      "take (off + length (concat vec)) b @ g = take (off + length (concat vec) + length g) (b @ h3_pushed ops)"
      using Cons.IH [OF s1(2,4)] by blast
    have "take (off + length (concat vec)) b = take off b @ concat vec" using s1(3) by (metis take_add)
    moreover have "h3_body_run lib i (op # ops) s = Some (concat vec @ g, a, s')"
      using s1(1) r(1) H3Read by (auto simp: read_answer_def)
    ultimately show ?thesis using r H3Read
      by (intro exI [of _ "concat vec @ g"] exI [of _ a] exI [of _ s'] exI [of _ b'] exI [of _ off']) (simp add: add.assoc)
  next
    case (H3Ack k)
    define n where "n = min k off"
    have n: "n \<le> off" "n \<le> length b" using Cons.prems(2) by (simp_all add: n_def)
    obtain s1 where s1: "on_acked_stream_data i n s = Some (H3_OK, s1)" "h3_holds s1 i (drop n b) (off - n) e t"
      using ack_holds [OF Cons.prems(1) n(1) Cons.prems(2)] by blast
    have "off - n \<le> length (drop n b)" using Cons.prems(2) by simp
    then obtain g a s' b' off' where r: "h3_body_run lib i ops s1 = Some (g, a, s')" "h3_holds s' i b' off' (h3_ended e ops) t"
      "off' \<le> length b'" "a + off' = off - n + length g" "b' = drop a (drop n b @ h3_pushed ops)"
      "take (off - n) (drop n b) @ g = take (off - n + length g) (drop n b @ h3_pushed ops)"
      using Cons.IH [OF s1(2)] by blast
    obtain st where st: "h3_find s i = Some st" "h3s_read_offset st = off"
      using Cons.prems(1) by (auto simp: h3_holds_def split: option.splits)
    have run: "h3_body_run lib i (op # ops) s = Some (g, n + a, s')"
      using s1(1) r(1) st H3Ack by (simp add: n_def Let_def)
    have d: "drop n b @ h3_pushed ops = drop n (b @ h3_pushed ops)" using n(2) by simp
    have t: "take off b @ g = take (off + length g) (b @ h3_pushed ops)"
      by (rule take_window [OF n(1) Cons.prems(2) r(6)])
    have "b' = drop (n + a) (b @ h3_pushed ops)" using r(5) unfolding d by (simp only: drop_drop add.commute)
    moreover have "n + a + off' = off + length g" using r(4) n(1) by simp
    ultimately show ?thesis using run r(2,3) t unfolding H3Ack h3_pushed.simps h3_ended.simps by blast
  qed
qed auto

lemma first_push_holds:
  assumes "h3_find s i = Some st" "h3s_buffer st = None \<or> h3s_buffer st = Some []" "h3s_read_offset st = 0"
    and "\<And>cs c. http_status lib cs c = 0"
  shows "\<exists>s1. h3_submit_body lib i c eof s = (None, s1) \<and> h3_holds s1 i c 0 eof (TRAILERS_SUBMITTED \<in> h3s_flags st)"
  using assms by (auto simp: h3_holds_def h3_submit_body_def h3_push_data_def h3_resume_def http_do_def Let_def h3_flag_set_def
      split: option.splits)

text \<open>C12: Octets of an HTTP/3 body stay in the buffer until they are acknowledged.  Let the user push a first piece on a stream that has no
  buffer or an empty one, and then push further pieces while the library reads into any number of vectors and acknowledges octets that it has
  read, in any order, and let every call of the libraries succeed.  The octets that were read followed by those that were not yet read are
  the octets pushed, in order; the octets that were read and not acknowledged are the front of the buffer; and the next read
  gives unread octets from their beginning, with the end flag exactly when they are the last ones and the last push said
  so, or the flag that trailers follow when trailers were submitted and nothing is left.\<close>

theorem h3_body_retained:
  assumes "peek_ok lib" "\<And>cs c. http_status lib cs c = 0"
    and "h3_find s i = Some st" "h3s_buffer st = None \<or> h3s_buffer st = Some []" "h3s_read_offset st = 0"
  shows "\<exists>given acked s' st' b'. h3_body_run lib i (H3Push c eof # ops) s = Some (given, acked, s') \<and>
    h3_find s' i = Some st' \<and> h3s_buffer st' = Some b' \<and>
    given @ drop (h3s_read_offset st') b' = h3_pushed (H3Push c eof # ops) \<and> take (h3s_read_offset st') b' = drop acked given \<and>
    acked \<le> length given \<and> h3s_read_offset st' + acked = length given \<and>
    fst (the (on_read_data lib i n s')) =
      read_answer (evb_peek lib n (drop (h3s_read_offset st') b')) (drop (h3s_read_offset st') b')
        (h3_ended eof ops) (TRAILERS_SUBMITTED \<in> h3s_flags st)"
proof -
  let ?t = "TRAILERS_SUBMITTED \<in> h3s_flags st" let ?p = "c @ h3_pushed ops"
  obtain s1 where s1: "h3_submit_body lib i c eof s = (None, s1)" "h3_holds s1 i c 0 eof ?t"
    using first_push_holds [OF assms(3-5,2)] by blast
  from h3_body_run_holds [OF assms(1,2) s1(2), of ops] obtain g a s' b' off' where
    r: "h3_body_run lib i ops s1 = Some (g, a, s')" "h3_holds s' i b' off' (h3_ended eof ops) ?t"
      "off' \<le> length b'" "a + off' = length g" "b' = drop a ?p" "g = take (length g) ?p"
    by auto
  obtain st' where st': "h3_find s' i = Some st'" "h3s_buffer st' = Some b'" "h3s_read_offset st' = off'"
    using r(2) by (auto simp: h3_holds_def split: option.splits)
  have "g @ drop off' b' = ?p"
    using r(4-6) by (metis add.commute append_take_drop_id drop_drop)
  moreover have "take off' b' = drop a g"
    using r(4-6) by (metis add_diff_cancel_left' drop_take)
  moreover have "h3_body_run lib i (H3Push c eof # ops) s = Some (g, a, s')" using s1(1) r(1) by simp
  ultimately show ?thesis using r(4) st' read_holds [OF r(2) assms(1) r(3) refl, of n] by fastforce
qed

theorem h3_body_retained_witness:
  "\<exists>given acked s' st' b'. h3_body_run h3_ok 4 [H3Push ''abc'' False, H3Read 2, H3Push ''de'' True, H3Ack 2]
      (h3_put 4 h3_stream_new (h3_session_new h3_ok Http3Client h3_default_settings h3_all)) = Some (given, acked, s') \<and>
    h3_find s' 4 = Some st' \<and> h3s_buffer st' = Some b' \<and>
    given @ drop (h3s_read_offset st') b' = ''abcde'' \<and> take (h3s_read_offset st') b' = drop acked given \<and>
    acked \<le> length given \<and> h3s_read_offset st' + acked = length given \<and>
    fst (the (on_read_data h3_ok 4 1 s')) =
      read_answer (evb_peek h3_ok 1 (drop (h3s_read_offset st') b')) (drop (h3s_read_offset st') b') True False"
proof -
  have "peek_ok h3_ok" by (simp add: peek_ok_def h3_ok_def)
  moreover have "http_status h3_ok cs c = 0" for cs c by (simp add: h3_ok_def)
  ultimately show ?thesis
    using h3_body_retained [of h3_ok "h3_put 4 h3_stream_new (h3_session_new h3_ok Http3Client h3_default_settings h3_all)"
        4 h3_stream_new "''abc''" False "[H3Read 2, H3Push ''de'' True, H3Ack 2]" 1]
    by (simp add: h3_stream_new_def)
qed

section \<open>Send capacity\<close>

text \<open>Also: the send capacity of a stream is what is left of the smaller of the two flow-control windows after the data that is buffered and
  not yet read: a piece no longer than the capacity can be submitted, after which the unread data
  and the rest of the capacity together fill that window exactly, so unread data never exceeds the window.\<close>

theorem h3_send_capacity:
  assumes "h3_find s i = Some st" "h3s_buffer st = Some b" "h3s_read_offset st \<le> length b"
    and "c \<noteq> []" "length c \<le> get_stream_send_capacity lib i s" "\<And>cs c. http_status lib cs c = 0"
  shows "\<exists>s1 st1 b1. h3_submit_body lib i c eof s = (None, s1) \<and> h3_find s1 i = Some st1 \<and> h3s_buffer st1 = Some b1 \<and>
    length (drop (h3s_read_offset st1) b1) + (get_stream_send_capacity lib i s - length c) =
      min (unat (max_stream_data_left lib (h3_calls s) i)) (unat (max_data_left lib (h3_calls s)))"
proof -
  have "h3_holds s i b (h3s_read_offset st) (H3_HAS_EOF \<in> h3s_flags st) (TRAILERS_SUBMITTED \<in> h3s_flags st)"
    using assms(1,2) by (simp add: h3_holds_def)
  from push_holds [OF this assms(6)] obtain s1 where s1: "h3_submit_body lib i c eof s = (None, s1)"
    "h3_holds s1 i (b @ c) (h3s_read_offset st) eof (TRAILERS_SUBMITTED \<in> h3s_flags st)" by blast
  have "0 < length c" using assms(4) by simp
  then have "0 < get_stream_send_capacity lib i s" using assms(5) by (rule less_le_trans)
  then have "get_stream_send_capacity lib i s + (length b - h3s_read_offset st) =
      min (unat (max_stream_data_left lib (h3_calls s) i)) (unat (max_data_left lib (h3_calls s)))"
    using assms(1-3) by (auto simp: get_stream_send_capacity_def Let_def split: if_splits)
  then show ?thesis using s1 assms(3,5) by (fastforce simp: h3_holds_def split: option.splits)
qed

theorem h3_send_capacity_witness:
  "\<exists>s1 st1 b1. h3_submit_body h3_ok 4 ''abc'' False
      (h3_put 4 (h3_stream_new\<lparr>h3s_buffer := Some ''xyz'', h3s_read_offset := 1\<rparr>) (h3_session_new h3_ok Http3Client h3_default_settings h3_all)) = (None, s1) \<and>
    h3_find s1 4 = Some st1 \<and> h3s_buffer st1 = Some b1 \<and>
    length (drop (h3s_read_offset st1) b1) + (get_stream_send_capacity h3_ok 4
      (h3_put 4 (h3_stream_new\<lparr>h3s_buffer := Some ''xyz'', h3s_read_offset := 1\<rparr>) (h3_session_new h3_ok Http3Client h3_default_settings h3_all)) - 3) = 600"
proof -
  let ?st = "h3_stream_new\<lparr>h3s_buffer := Some ''xyz'', h3s_read_offset := 1\<rparr>"
  let ?s = "h3_put 4 ?st (h3_session_new h3_ok Http3Client h3_default_settings h3_all)"
  have "length ''abc'' \<le> get_stream_send_capacity h3_ok 4 ?s"
    by (simp add: get_stream_send_capacity_def)
  then have "\<exists>s1 st1 b1. h3_submit_body h3_ok 4 ''abc'' False ?s = (None, s1) \<and> h3_find s1 4 = Some st1 \<and> h3s_buffer st1 = Some b1 \<and>
      length (drop (h3s_read_offset st1) b1) + (get_stream_send_capacity h3_ok 4 ?s - length ''abc'') =
      min (unat (max_stream_data_left h3_ok (h3_calls ?s) 4)) (unat (max_data_left h3_ok (h3_calls ?s)))"
    by (intro h3_send_capacity [where st = ?st and b = "''xyz''"]) simp_all
  then show ?thesis by (simp add: numeral_3_eq_3)
qed

section \<open>Every reachable session\<close>

inductive h3_reachable :: "h3_lib \<Rightarrow> h3_session \<Rightarrow> bool" for lib where
  accept: "h3_accept lib st handler has_ssl secret packet = Inr s \<Longrightarrow> h3_reachable lib s"
| connect: "h3_connect lib st handler has_ssl secret dcid = Inr s \<Longrightarrow> h3_reachable lib s"
| http_callback: "h3_reachable lib s \<Longrightarrow> h3_dispatch lib c s = Some (a, s') \<Longrightarrow> h3_reachable lib s'"
| quic_callback: "h3_reachable lib s \<Longrightarrow> quic_dispatch lib q s = Some (a, s') \<Longrightarrow> h3_reachable lib s'"
| body: "h3_reachable lib s \<Longrightarrow> s' = snd (h3_submit_body lib i d eof s) \<Longrightarrow> h3_reachable lib s'"
| trailer: "h3_reachable lib s \<Longrightarrow> s' = snd (h3_submit_trailer lib i hs s) \<Longrightarrow> h3_reachable lib s'"
| response: "h3_reachable lib s \<Longrightarrow> s' = snd (h3_submit_response lib i rs eof s) \<Longrightarrow> h3_reachable lib s'"
| request: "h3_reachable lib s \<Longrightarrow> h3_find s (new_stream_id lib (h3_calls s)) = None \<Longrightarrow>
    s' = snd (h3_submit_request lib rq eof s) \<Longrightarrow> h3_reachable lib s'"
| reset: "h3_reachable lib s \<Longrightarrow> s' = snd (h3_reset_stream lib i err s) \<Longrightarrow> h3_reachable lib s'"
| consume_connection: "h3_reachable lib s \<Longrightarrow> s' = snd (h3_consume_connection n s) \<Longrightarrow> h3_reachable lib s'"
| consume_stream: "h3_reachable lib s \<Longrightarrow> s' = snd (h3_consume_stream lib i n s) \<Longrightarrow> h3_reachable lib s'"
| expiry: "h3_reachable lib s \<Longrightarrow> s' = snd (h3_handle_expiry lib now s) \<Longrightarrow> h3_reachable lib s'"
| flush: "h3_reachable lib s \<Longrightarrow> h3_flush lib rds now s = Some (e, s') \<Longrightarrow> h3_reachable lib s'"
| server_input: "h3_reachable lib s \<Longrightarrow> h3_server_input lib run s = Some (r, s') \<Longrightarrow> h3_reachable lib s'"
| client_input: "h3_reachable lib s \<Longrightarrow> h3_client_input lib run s = Some (r', s') \<Longrightarrow> h3_reachable lib s'"
| close_error: "h3_reachable lib s \<Longrightarrow> s' = h3_set_session_close_error lib code reason s \<Longrightarrow> h3_reachable lib s'"
| callbacks: "h3_reachable lib s \<Longrightarrow> s' = h3_update_callbacks handler s \<Longrightarrow> h3_reachable lib s'"

definition close_written :: "h3_lib \<Rightarrow> h3_call list \<Rightarrow> h3_call \<Rightarrow> bool" where
  "close_written lib cs c = (case c of WriteConnectionClose e \<Rightarrow> close_packet lib cs e \<noteq> None | _ \<Rightarrow> False)"

text \<open>The packets that close the connection, among all calls.\<close>

definition closes :: "h3_lib \<Rightarrow> h3_call list \<Rightarrow> nat" where
  "closes lib cs = length (filter (\<lambda>k. close_written lib (take k cs) (cs ! k)) [0..<length cs])"

lemma closes_snoc: "closes lib (cs @ [c]) = closes lib cs + (if close_written lib cs c then 1 else 0)"
proof -
  have "filter (\<lambda>k. close_written lib (take k (cs @ [c])) ((cs @ [c]) ! k)) [0..<length cs] =
      filter (\<lambda>k. close_written lib (take k cs) (cs ! k)) [0..<length cs]"
    by (rule filter_cong) (auto simp: nth_append)
  then show ?thesis by (simp add: closes_def)
qed

definition stream_credit :: "h3_call list \<Rightarrow> nat" where
  "stream_credit cs = sum_list (map (\<lambda>c. case c of ExtendMaxStreamOffset i n \<Rightarrow> n | _ \<Rightarrow> 0) cs)"

definition connection_credit :: "h3_call list \<Rightarrow> nat" where
  "connection_credit cs = sum_list (map (\<lambda>c. case c of ExtendMaxOffset n \<Rightarrow> n | _ \<Rightarrow> 0) cs)"

definition offset_ok :: "h3_stream \<Rightarrow> bool" where
  "offset_ok st \<longleftrightarrow> h3s_read_offset st \<le> length (case h3s_buffer st of None \<Rightarrow> [] | Some b \<Rightarrow> b)"

definition h3_inv :: "h3_lib \<Rightarrow> h3_session \<Rightarrow> bool" where
  "h3_inv lib s \<longleftrightarrow> distinct (map fst (h3_streams s)) \<and> (\<forall>i st. h3_find s i = Some st \<longrightarrow> offset_ok st) \<and>
     closes lib (h3_calls s) = (if h3_close_sent s then 1 else 0) \<and> stream_credit (h3_calls s) \<le> connection_credit (h3_calls s)"

lemma h3_inv_find: "h3_inv lib s \<Longrightarrow> h3_find s i = Some st \<Longrightarrow> offset_ok st"
  by (simp add: h3_inv_def)

lemma offset_ok_simps [simp]:
  "offset_ok h3_stream_new" "offset_ok (st\<lparr>h3s_message := m\<rparr>) = offset_ok st" "offset_ok (h3_flag_set f v st) = offset_ok st"
  by (simp_all add: offset_ok_def h3_stream_new_def h3_flag_set_def)

lemma h3_inv_put: "h3_inv lib s \<Longrightarrow> offset_ok st \<Longrightarrow> h3_inv lib (h3_put i st s)"
  by (auto simp: h3_inv_def) (simp add: h3_put_def distinct_update)

lemma h3_inv_raise [simp]: "h3_inv lib (h3_raise k e s) = h3_inv lib s"
  by (simp add: h3_inv_def)

lemma h3_inv_fields [simp]:
  "h3_inv lib (s\<lparr>h3_last_error := e\<rparr>) = h3_inv lib s" "h3_inv lib (s\<lparr>h3_handshake_completed := b\<rparr>) = h3_inv lib s"
  "h3_inv lib (s\<lparr>h3_handled_rx_close := b\<rparr>) = h3_inv lib s" "h3_inv lib (s\<lparr>h3_drop_silently := b\<rparr>) = h3_inv lib s"
  "h3_inv lib (s\<lparr>h3_handler := k\<rparr>) = h3_inv lib s"
  by (simp_all add: h3_inv_def h3_find_def)

lemma h3_inv_delete: "h3_inv lib s \<Longrightarrow> h3_inv lib (s\<lparr>h3_streams := AList.delete i (h3_streams s)\<rparr>)"
  by (auto simp: h3_inv_def distinct_delete)

text \<open>Calls that neither close the connection nor extend the window of a stream.\<close>

fun plain_call :: "h3_call \<Rightarrow> bool" where
  "plain_call (WriteConnectionClose e) = False"
| "plain_call (ExtendMaxStreamOffset i n) = False"
| "plain_call _ = True"

lemma plain_call_counts:
  assumes "plain_call c"
  shows "closes lib (cs @ [c]) = closes lib cs" "stream_credit (cs @ [c]) = stream_credit cs"
    "connection_credit cs \<le> connection_credit (cs @ [c])"
  using assms by (cases c; simp add: closes_snoc close_written_def stream_credit_def connection_credit_def)+

lemma h3_inv_log: "h3_inv lib s \<Longrightarrow> plain_call c \<Longrightarrow> h3_inv lib (h3_log c s)"
  using plain_call_counts [of c] by (auto simp: h3_inv_def intro: order_trans)

lemma h3_inv_do:
  assumes "h3_inv lib s" "plain_call c"
  shows "quic_do lib c s = (r, s1) \<Longrightarrow> h3_inv lib s1" "http_do lib c s = (r', s1) \<Longrightarrow> h3_inv lib s1"
  using h3_inv_log [OF assms] by (auto simp: quic_do_def http_do_def)

lemma closes_snoc2: "closes lib (cs @ [b, c]) = closes lib (cs @ [b]) + (if close_written lib (cs @ [b]) c then 1 else 0)"
  using closes_snoc [of lib "cs @ [b]" c] by simp

lemma consume_stream_inv: "h3_inv lib s \<Longrightarrow> h3_inv lib (snd (h3_consume_stream lib i n s))"
  by (auto simp: h3_consume_stream_def h3_consume_connection_def quic_do_def h3_inv_def closes_snoc closes_snoc2
      close_written_def stream_credit_def connection_credit_def)

lemma close_connection_inv: "h3_inv lib s \<Longrightarrow> h3_inv lib (close_connection lib s)"
  by (auto simp: close_connection_def Let_def h3_inv_def closes_snoc close_written_def stream_credit_def connection_credit_def
      h3_find_def split: option.splits)

lemma handle_error_inv: "h3_inv lib s \<Longrightarrow> h3_inv lib (handle_error lib s)"
  by (simp add: handle_error_def close_connection_inv)

lemma on_read_data_inv:
  assumes "peek_ok lib" "h3_inv lib s" "on_read_data lib i n s = Some (a, s')"
  shows "h3_inv lib s'"
proof (cases "h3_find s i")
  case (Some st)
  then obtain b where b: "h3s_buffer st = Some b" using assms(3) by (auto simp: on_read_data_def split: option.splits)
  have off: "h3s_read_offset st \<le> length b" using h3_inv_find [OF assms(2) Some] b by (simp add: offset_ok_def)
  note eq = on_read_data_eq [OF Some b refl off assms(1) refl, of n]
  have "offset_ok (st\<lparr>h3s_read_offset := h3s_read_offset st + length (concat (evb_peek lib n (drop (h3s_read_offset st) b)))\<rparr>)"
    using b eq(3) by (simp add: offset_ok_def)
  then show ?thesis using h3_inv_put [OF assms(2)] eq(1) assms(3) by simp
qed (use assms in \<open>simp add: on_read_data_def\<close>)

lemma on_acked_inv:
  assumes "h3_inv lib s" "on_acked_stream_data i n s = Some (a, s')"
  shows "h3_inv lib s'"
  using assms h3_inv_find [OF assms(1), of i]
  by (auto simp: on_acked_stream_data_def Let_def offset_ok_def intro!: h3_inv_put split: option.splits if_splits)

lemma h3_dispatch_inv:
  assumes "peek_ok lib" "h3_inv lib s" "h3_dispatch lib c s = Some (a, s')"
  shows "h3_inv lib s'"
proof (cases c)
  case (H_end_headers i fin)
  then show ?thesis using assms h3_inv_find [OF assms(2), of i]
    by (auto simp: h3_on_end_headers_def Let_def intro!: h3_inv_put split: option.splits http_message.splits)
next
  case (H_end_trailers i)
  then show ?thesis using assms h3_inv_find [OF assms(2), of i]
    by (auto simp: h3_on_end_trailers_def intro!: h3_inv_put split: option.splits)
next
  case (H_acked_stream_data i n)
  then show ?thesis using assms on_acked_inv by auto
next
  case (H_read_data i n)
  then show ?thesis using assms on_read_data_inv by auto
next
  case (H_deferred_consume i n)
  then show ?thesis using assms consume_stream_inv [OF assms(2), of i n] by (auto simp: on_deferred_consume_def split: prod.splits)
qed (use assms in \<open>auto simp: on_h3_stream_close_def h3_close_stream_def h3_on_data_chunk_recv_def h3_on_begin_headers_def h3_on_recv_header_def
    h3_on_begin_trailers_def h3_on_recv_trailer_def on_h3_stop_sending_def h3_on_end_stream_def
    on_h3_reset_stream_def quic_do_def Let_def h3_inv_delete
    intro!: h3_inv_put h3_inv_log intro: h3_inv_find split: option.splits if_splits\<close>)

lemma h3_exec_inv:
  assumes "peek_ok lib"
  shows "h3_inv lib s \<Longrightarrow> h3_exec lib run s = Some (r, s') \<Longrightarrow> h3_inv lib s'"
  by (induction run arbitrary: s) (auto dest: h3_dispatch_inv [OF assms] split: option.splits)

lemma handshake_inv: "h3_inv lib s \<Longrightarrow> h3_inv lib (snd (on_handshake_completed lib s))"
  by (auto simp: on_handshake_completed_def Let_def quic_do_def http_do_def intro!: h3_inv_log)

lemma h3_exec_log_inv:
  "peek_ok lib \<Longrightarrow> h3_inv lib s \<Longrightarrow> h3_exec lib run (h3_log c s) = Some (r, s') \<Longrightarrow> plain_call c \<Longrightarrow> h3_inv lib s'"
  by (blast intro: h3_exec_inv h3_inv_log)

lemma quic_dispatch_inv:
  assumes "peek_ok lib" "h3_inv lib s" "quic_dispatch lib q s = Some (a, s')"
  shows "h3_inv lib s'"
proof (cases q)
  case (Q_recv_stream_data i d fin run)
  obtain r s1 where e: "h3_exec lib run (h3_log (ReadStream i d fin) s) = Some (r, s1)"
    using assms(3) Q_recv_stream_data by (auto simp: recv_h3_stream_data_def split: option.splits)
  have "h3_inv lib s1" by (rule h3_exec_log_inv [OF assms(1,2) e]) simp
  then show ?thesis using assms(3) e Q_recv_stream_data consume_stream_inv [of lib s1 i "nat r"]
    by (auto simp: recv_h3_stream_data_def split: if_splits prod.splits)
next
  case (Q_acked_stream_data_offset i n run)
  then show ?thesis using assms by (auto dest: h3_exec_log_inv [OF assms(1,2)])
next
  case (Q_stream_reset i err run)
  then show ?thesis using assms by (auto simp: on_quic_stream_reset_def dest: h3_exec_log_inv [OF assms(1,2)])
next
  case (Q_stream_close code_set i err run)
  define err1 where "err1 = (if err = 0 \<or> \<not> code_set then h3_no_error lib else err)"
  obtain r s1 where e: "h3_exec lib run (h3_log (HttpCloseStream i err1) s) = Some (r, s1)"
    using assms(3) Q_stream_close by (auto simp: on_quic_stream_close_def Let_def err1_def split: option.splits)
  have "h3_inv lib s1" by (rule h3_exec_log_inv [OF assms(1,2) e]) simp
  then show ?thesis using assms(3) e Q_stream_close
    by (auto simp: on_quic_stream_close_def Let_def simp flip: err1_def intro!: h3_inv_log split: if_splits)
next
  case Q_handshake_completed
  then show ?thesis using assms handshake_inv [OF assms(2)] by (metis option.inject quic_dispatch.simps(10) snd_conv)
qed (use assms in \<open>auto simp: http_do_def on_quic_stream_stop_sending_def intro!: h3_inv_log\<close>)

lemma quic_exec_inv:
  assumes "peek_ok lib"
  shows "h3_inv lib s \<Longrightarrow> quic_exec lib run s = Some (r, s') \<Longrightarrow> h3_inv lib s'"
  by (induction run arbitrary: s) (auto dest: quic_dispatch_inv [OF assms] split: option.splits)

lemma h3_submit_body_inv:
  assumes "h3_inv lib s"
  shows "h3_inv lib (snd (h3_submit_body lib i c eof s))"
proof (cases "h3_find s i")
  case (Some st)
  obtain ok s1 where p: "h3_push_data lib i st c eof s = (ok, s1)" by fastforce
  have ok: "offset_ok st" by (rule h3_inv_find [OF assms Some])
  have "h3_inv lib s1"
    using p assms ok by (auto simp: h3_push_data_def http_do_def Let_def offset_ok_def h3_flag_set_def
        intro!: h3_inv_put h3_inv_log split: if_splits option.splits)
  then show ?thesis using Some p
    by (auto simp: h3_submit_body_def h3_resume_def http_do_def intro!: h3_inv_log split: bool.splits)
qed (use assms in \<open>simp add: h3_submit_body_def\<close>)

lemma h3_submit_trailer_inv:
  assumes "h3_inv lib s"
  shows "h3_inv lib (snd (h3_submit_trailer lib i hs s))"
  using assms h3_inv_find [OF assms, of i]
  by (auto simp: h3_submit_trailer_def h3_resume_def http_do_def intro!: h3_inv_put h3_inv_log split: option.splits)

lemma h3_submit_response_inv:
  assumes "h3_inv lib s"
  shows "h3_inv lib (snd (h3_submit_response lib i r eof s))"
proof (cases "h3_find s i")
  case (Some st)
  then show ?thesis using assms h3_inv_find [OF assms Some]
    by (auto simp: h3_submit_response_def Let_def http_do_def h3_resume_def offset_ok_def intro!: h3_inv_log h3_inv_put)
qed (use assms in \<open>simp add: h3_submit_response_def\<close>)

lemma h3_submit_request_inv:
  assumes "h3_inv lib s" "h3_find s (new_stream_id lib (h3_calls s)) = None"
  shows "h3_inv lib (snd (h3_submit_request lib r eof s))"
proof -
  let ?i = "new_stream_id lib (h3_calls s)"
  have inv: "h3_inv lib (h3_log c (h3_put ?i st (h3_log OpenBidiStream s)))" if "offset_ok st" "plain_call c" for st c
    using assms(1) that by (intro h3_inv_log h3_inv_put) simp_all
  note del = h3_inv_delete [OF inv, of _ _ ?i, simplified]
  show ?thesis using assms
    by (auto simp: h3_submit_request_def Let_def quic_do_def http_do_def offset_ok_def h3_flag_set_def h3_stream_new_def
        intro!: del h3_inv_log h3_inv_put)
qed

lemma flush_step_inv:
  assumes "peek_ok lib" "h3_inv lib s" "flush_step lib rd s = Some (e, s')"
  shows "h3_inv lib s'"
proof -
  obtain n i fin s1 where e1: "h3_exec lib (fr_read rd) s = Some ((n, i, fin), s1)"
    using assms(3) by (auto simp: flush_step_def split: option.splits)
  have s1: "h3_inv lib s1" by (rule h3_exec_inv [OF assms(1,2) e1])
  show ?thesis
  proof (cases "n < 0")
    case False
    obtain r len s2 where e2: "quic_exec lib (fr_write rd) s1 = Some ((r, len), s2)"
      using assms(3) e1 False by (auto simp: flush_step_def split: option.splits)
    have s2: "h3_inv lib s2" by (rule quic_exec_inv [OF assms(1) s1 e2])
    define s3 where "s3 = (if len \<ge> 0 then h3_log (AddWriteOffset i len) s2 else s2)"
    have s3: "h3_inv lib s3" using s2 by (simp add: s3_def h3_inv_log)
    have "s' = h3_app_failure lib (http_status lib (h3_calls s2) (AddWriteOffset i len)) s3 \<or> s' = snd (flush_result lib i r s3)"
      using assms(3) e1 e2 False by (auto simp: flush_step_def http_do_def s3_def split: if_splits)
    moreover have "h3_inv lib (snd (flush_result lib i r s3))"
      using s3 by (auto simp: flush_result_def intro!: h3_inv_log split: write_result.splits quic_code.splits)
    ultimately show ?thesis using s3 by (auto simp: h3_app_failure_def)
  qed (use assms(3) e1 s1 in \<open>auto simp: flush_step_def h3_app_failure_def\<close>)
qed

lemma flush_loop_inv:
  assumes "peek_ok lib"
  shows "h3_inv lib s \<Longrightarrow> flush_loop lib rds s = Some (e, s') \<Longrightarrow> h3_inv lib s'"
  by (induction rds arbitrary: s) (auto dest: flush_step_inv [OF assms] split: option.splits round_end.splits)

lemma flush_inv:
  assumes "peek_ok lib" "h3_inv lib s" "h3_flush lib rds now s = Some (e, s')"
  shows "h3_inv lib s'"
proof -
  obtain l s1 where e: "flush_loop lib rds s = Some (l, s1)" using assms(3) by (auto simp: h3_flush_def split: option.splits)
  have "h3_inv lib s1" by (rule flush_loop_inv [OF assms(1,2) e])
  then show ?thesis using assms(3) e by (auto simp: h3_flush_def Let_def handle_error_inv split: if_splits)
qed

lemma input_inv:
  assumes "peek_ok lib" "h3_inv lib s"
  shows "h3_server_input lib run s = Some (r, s') \<Longrightarrow> h3_inv lib s'" "h3_client_input lib run s = Some (r', s') \<Longrightarrow> h3_inv lib s'"
  using quic_exec_inv [OF assms, of run]
  by (auto simp: h3_server_input_def h3_client_input_def h3_draining_def handle_rx_connection_close_def h3_tls_failure_def Let_def
      set_error_once_def handle_error_inv split: option.splits quic_code.splits if_splits)

lemma create_inv: "h3_inv lib s \<Longrightarrow> plain_call a \<Longrightarrow> plain_call b \<Longrightarrow> h3_inv lib (snd (h3_create lib a b s))"
proof -
  assume a: "h3_inv lib s" "plain_call a" "plain_call b"
  then have "h3_inv lib (h3_log b (h3_log a s))" by (intro h3_inv_log)
  then have "h3_inv lib (h3_log b (h3_log a s)\<lparr>h3_quic_conn := True, h3_http_conn := True\<rparr>)" by (simp add: h3_inv_def h3_find_def)
  then show ?thesis using a by (auto simp: h3_create_def quic_do_def http_do_def Let_def intro!: h3_inv_log)
qed

lemma initialize_inv:
  "h3_inv lib (snd (h3_initialize lib has_ssl secret rd scid dcid v (h3_session_new lib d st handler)))"
proof -
  have "h3_inv lib (h3_session_new lib d st handler)" "h3_inv lib ((h3_session_new lib d st handler)\<lparr>h3_static_secret := secret\<rparr>)"
    by (simp_all add: h3_inv_def h3_session_new_def h3_find_def closes_def stream_credit_def)
  then show ?thesis
    by (auto simp: h3_initialize_def Let_def create_inv split: h3_side.splits option.splits)
qed

lemma h3_reachable_inv:
  assumes "peek_ok lib"
  shows "h3_reachable lib s \<Longrightarrow> h3_inv lib s"
proof (induction rule: h3_reachable.induct)
  case (accept st handler has_ssl secret packet s)
  obtain scid dcid v where "h3_initialize lib has_ssl secret [] scid dcid v (h3_session_new lib Http3Server st handler) = (None, s)"
    using accept by (auto simp: h3_accept_def split: sum.splits prod.splits option.splits)
  then show ?case using initialize_inv by (metis snd_conv)
next
  case (connect st handler has_ssl secret dcid s)
  then show ?case using initialize_inv by (auto simp: h3_connect_def Let_def split: prod.splits option.splits) (metis snd_conv)
qed (use assms in \<open>auto simp: h3_submit_body_inv h3_submit_trailer_inv h3_submit_response_inv h3_submit_request_inv consume_stream_inv h3_reset_stream_def
    h3_consume_connection_def h3_handle_expiry_def quic_do_def h3_set_session_close_error_def Let_def h3_update_callbacks_def
    intro!: h3_inv_log dest: h3_dispatch_inv quic_dispatch_inv flush_inv input_inv\<close>)

lemma close_streams_inv: "h3_inv lib s \<Longrightarrow> h3_inv lib (foldl (\<lambda>t (i, st). h3_close_stream (ucast i) err t) s ss)"
  by (induction ss arbitrary: s) (auto simp: h3_close_stream_def)

lemma destroy_inv:
  assumes "h3_inv lib s"
  shows "h3_inv lib (h3_destroy lib s)"
proof -
  have "h3_inv lib (s\<lparr>h3_streams := []\<rparr>)" using assms by (simp add: h3_inv_def h3_find_def)
  from close_streams_inv [OF this] show ?thesis
    by (auto simp: h3_destroy_def Let_def close_connection_inv h3_inv_log)
qed

text \<open>C13: in every session that calls, packets and callbacks can lead to, no stream is listed twice; no stream has more octets read
  than buffered, so the read callback never fails on a stream with a buffer; the windows of the streams were
  extended by no more than the window of the connection; and the packet that closes the connection is
  written at most once, the destructor included.\<close>

theorem h3_sessions_sound:
  assumes "h3_reachable lib s" "peek_ok lib"
  shows "distinct (map fst (h3_streams s)) \<and>
    list_all (\<lambda>(i, st). if h3s_buffer st = None then True
      else h3s_read_offset st \<le> length (the (h3s_buffer st)) \<and> fst (the (on_read_data lib i n s)) \<noteq> H3_CALLBACK_FAILURE) (h3_streams s) \<and>
    stream_credit (h3_calls s) \<le> connection_credit (h3_calls s) \<and>
    closes lib (h3_calls s) = (if h3_close_sent s then 1 else 0) \<and> closes lib (h3_calls (h3_destroy lib s)) \<le> 1"
proof -
  note inv = h3_reachable_inv [OF assms(2,1)]
  have d: "distinct (map fst (h3_streams s))" using inv by (simp add: h3_inv_def)
  have "h3s_read_offset st \<le> length b \<and> fst (the (on_read_data lib i n s)) \<noteq> H3_CALLBACK_FAILURE"
    if "(i, st) \<in> set (h3_streams s)" "h3s_buffer st = Some b" for i st b
  proof -
    have f: "h3_find s i = Some st" using d that(1) by (simp add: h3_find_def)
    have "h3s_read_offset st \<le> length b" using h3_inv_find [OF inv f] that(2) by (simp add: offset_ok_def)
    then show ?thesis using on_read_data_eq [OF f that(2) refl _ assms(2) refl, of n] by (simp add: read_answer_def)
  qed
  then show ?thesis using d inv destroy_inv [OF inv] by (auto simp: list_all_iff h3_inv_def)
qed

theorem h3_sessions_sound_witness:
  "\<exists>s s'. h3_accept h3_ok h3_default_settings h3_all True [] [7] = Inr s \<and>
     h3_server_input h3_ok (QDone NGTCP2_ERR_CRYPTO) s = Some (Inl (H3Failure NGTCP2_ERR_CRYPTO (TlsAlert [])), s') \<and>
     closes h3_ok (h3_calls s') = 1 \<and> closes h3_ok (h3_calls (h3_destroy h3_ok s')) \<le> 1"
proof -
  obtain s where s: "h3_accept h3_ok h3_default_settings h3_all True [] [7] = Inr s"
      "\<not> h3_close_sent s" "ce_type (h3_last_error s) = CCERR_TRANSPORT"
    by (auto simp: h3_accept_def h3_initialize_def h3_create_def derive_token_def quic_do_def http_do_def Let_def h3_session_new_def
        h3_log_def)
  obtain s' where s': "h3_server_input h3_ok (QDone NGTCP2_ERR_CRYPTO) s = Some (Inl (H3Failure NGTCP2_ERR_CRYPTO (TlsAlert [])), s')"
      "h3_close_sent s'"
    using s by (auto simp: h3_server_input_def h3_tls_failure_def set_error_once_def handle_error_def close_connection_def Let_def)
  have "peek_ok h3_ok" by (simp add: peek_ok_def h3_ok_def)
  with h3_sessions_sound [OF h3_reachable.server_input [OF h3_reachable.accept [OF s(1)] s'(1)], of 0] s'(2)
  show ?thesis using s s' by (intro exI [of _ s] exI [of _ s']) simp
qed

section \<open>Closing\<close>

text \<open>Also: a server that the QUIC library tells to drop the connection without a word records that it will, and still
  sends the packet that closes the connection.\<close>

theorem h3_drop_not_silent:
  assumes "quic_exec lib run s = Some (NGTCP2_ERR_DROP_CONN, s1)" "\<not> h3_close_sent s1" "HK_output \<in> h3_handler s1"
    and "ce_type (h3_last_error s1) \<noteq> CCERR_IDLE_CLOSE" "close_packet lib (h3_calls s1) (h3_last_error s1) = Some packet"
  shows "\<exists>s'. h3_server_input lib run s = Some (Inl (H3Failure NGTCP2_ERR_DROP_CONN NoReason), s') \<and>
    h3_drop_silently s' \<and> h3_events s' = h3_events s1 @ [H3Output packet]"
  using assms by (simp add: h3_server_input_def handle_error_def close_connection_def Let_def h3_log_def h3_raise_def)

theorem h3_drop_not_silent_witness:
  "\<exists>s'. h3_server_input h3_ok (QDone NGTCP2_ERR_DROP_CONN) (h3_session_new h3_ok Http3Server h3_default_settings h3_all) =
      Some (Inl (H3Failure NGTCP2_ERR_DROP_CONN NoReason), s') \<and>
    h3_drop_silently s' \<and> h3_events s' = [H3Output ''close'']"
  using h3_drop_not_silent [of h3_ok "QDone NGTCP2_ERR_DROP_CONN" "h3_session_new h3_ok Http3Server h3_default_settings h3_all"
      "h3_session_new h3_ok Http3Server h3_default_settings h3_all" "''close''"]
  by (simp add: h3_session_new_def)

lemma low_octet:
  "(word_of_int c :: u64) AND 0xff = word_of_int (c mod 256)" "((0x100 :: u64) OR ucast (a :: u8)) AND 0xff = ucast a"
proof -
  have mask: "(0xff :: u64) = mask 8" by (simp add: mask_eq_exp_minus_1)
  show "(word_of_int c :: u64) AND 0xff = word_of_int (c mod 256)"
    using take_bit_eq_mod [of 8 c] by (simp add: mask take_bit_of_int flip: take_bit_eq_mask)
  have "(ucast a :: u64) AND 0xff = ucast a"
    unfolding mask take_bit_eq_mask [symmetric]
    by (rule bit_word_eqI) (auto simp: bit_take_bit_iff bit_unsigned_iff dest: bit_imp_le_length)
  moreover have "((0x100 :: u64) OR ucast a) AND 0xff = (0x100 AND 0xff) OR (ucast a AND 0xff)"
    by (rule bit.conj_disj_distrib2)
  ultimately show "((0x100 :: u64) OR ucast a) AND 0xff = ucast a" by simp
qed

text \<open>Also: the code a peer is told.  With the QUIC library's documented codes, a close error above 1000 is a TLS alert that the
  peer reports under the same number; an error above 256 is an HTTP/3 error of which the peer reports only the low
  octet, so 512, a failed decompression, is reported as 0; a smaller number leaves the error as it was.\<close>

theorem h3_close_codes:
  assumes "\<And>a r. ccerr_tls_alert lib a r = \<lparr>ce_type = CCERR_TRANSPORT, ce_code = 0x100 OR ucast a, ce_reason = r\<rparr>"
    and "\<And>c r. ccerr_app lib c r = \<lparr>ce_type = CCERR_APPLICATION, ce_code = c, ce_reason = r\<rparr>" "h3_no_error lib = 0x100"
    and "0 \<le> code" "code \<le> 1255"
  shows "rx_close_code (h3_last_error (h3_set_session_close_error lib code reason s)) =
    (if code > 1000 then word_of_int code else if code > 256 then word_of_int (code mod 256)
     else rx_close_code (h3_last_error s))"
proof -
  show ?thesis
  proof (cases "code > 1000")
    case True
    then obtain n where n: "code = 1000 + n" "0 \<le> n" "n < 256" using assms(5) that [of "code - 1000"] by simp
    have "(ucast (word_of_int n :: u8) :: u64) = word_of_int n"
      using n(2,3) by (simp add: unsigned_of_int take_bit_int_eq_self)
    then show ?thesis using n True low_octet(2) [of "word_of_int n"]
      by (simp add: h3_set_session_close_error_def SSL_ALERT_CODES_START_def rx_close_code_def assms(1) low_octet Let_def)
  next
    case False
    then show ?thesis
      by (simp add: h3_set_session_close_error_def SSL_ALERT_CODES_START_def rx_close_code_def assms(2,3) low_octet)
  qed
qed

theorem h3_close_codes_witness:
  "rx_close_code (h3_last_error (h3_set_session_close_error h3_ok 1040 [] (h3_session_new h3_ok Http3Server h3_default_settings h3_all))) = 1040 \<and>
   rx_close_code (h3_last_error (h3_set_session_close_error h3_ok 512 [] (h3_session_new h3_ok Http3Server h3_default_settings h3_all))) = 0"
  using h3_close_codes [of h3_ok 1040 "[]" "h3_session_new h3_ok Http3Server h3_default_settings h3_all"]
    h3_close_codes [of h3_ok 512 "[]" "h3_session_new h3_ok Http3Server h3_default_settings h3_all"] by simp

section \<open>Identifiers and readers\<close>

lemma ids_fit:
  fixes i :: u64
  shows "(ucast (ucast i :: u32) = i) = (i < 2 ^ 32)" "i < 2 ^ 62 \<Longrightarrow> (scast (ucast i :: u32) = i) = (i < 2 ^ 31)"
proof -
  have "(ucast (ucast i :: u32) = i) = (take_bit 32 (unat i) = unat i)"
    by (simp only: word_unat_eq_iff unsigned_ucast_eq) (simp add: unsigned_take_bit_eq)
  then show "(ucast (ucast i :: u32) = i) = (i < 2 ^ 32)"
    by (simp add: take_bit_nat_eq_self_iff word_less_nat_alt)
  assume i: "i < 2 ^ 62"
  have u: "uint i < 2 ^ 62" using i by (simp add: word_less_def)
  have s: "sint i = uint i" using u by (simp add: sint_uint signed_take_bit_int_eq_self_iff order_trans [of _ 0])
  have "(scast (ucast i :: u32) = i) = (sint (scast (ucast i :: u32) :: u64) = sint i)" by (simp only: word_eq_iff_signed)
  also have "\<dots> = (signed_take_bit 31 (uint i) = uint i)"
    unfolding s signed_scast_eq [of "ucast i :: u32"] signed_ucast_eq [where 'a = int] by simp
  also have "\<dots> = (i < 2 ^ 31)" by (simp add: signed_take_bit_int_eq_self_iff word_less_def order_trans [of _ 0])
  finally show "(scast (ucast i :: u32) = i) = (i < 2 ^ 31)" .
qed

text \<open>Also: stream identifiers have 62 bits, but the event that a stream closed carries the identifier only when it is below two to
  the power 32, and trailers go to the stream they were submitted for only when the identifier is below two to the
  power 31; otherwise both name another stream.\<close>

theorem h3_stream_ids_truncated:
  assumes "h3_find s i = Some st" "HK_stream_closed \<in> h3_handler s" "i < 2 ^ 62"
  shows "\<exists>j e k. h3_events (snd (on_h3_stream_close i err s)) = h3_events s @ [H3StreamClosed j e] \<and> (j = i) = (i < 2 ^ 32) \<and>
    h3_calls (snd (h3_submit_trailer lib i hs s)) ! length (h3_calls s) = SubmitTrailers k (m_headers hs) \<and> (k = i) = (i < 2 ^ 31)"
  using assms(1,2) ids_fit(1) [of i] ids_fit(2) [OF assms(3)]
  by (simp add: on_h3_stream_close_def h3_close_stream_def h3_submit_trailer_def http_do_def h3_resume_def nth_append h3_raise_def)

theorem h3_stream_ids_truncated_witness:
  "\<exists>j e k. h3_events (snd (on_h3_stream_close 0x100000004 0 (h3_put 0x100000004 h3_stream_new (h3_session_new h3_ok Http3Client h3_default_settings h3_all)))) =
      [H3StreamClosed j e] \<and> j \<noteq> 0x100000004 \<and>
    h3_calls (snd (h3_submit_trailer h3_ok 0x100000004 headers_empty (h3_put 0x100000004 h3_stream_new (h3_session_new h3_ok Http3Client h3_default_settings h3_all)))) ! 0 =
      SubmitTrailers k [] \<and> k \<noteq> 0x100000004"
  using h3_stream_ids_truncated [of "h3_put 0x100000004 h3_stream_new (h3_session_new h3_ok Http3Client h3_default_settings h3_all)" "0x100000004"
      h3_stream_new 0 h3_ok headers_empty]
  by (simp add: h3_session_new_def headers_empty_def)

text \<open>Also: a response that is submitted on a stream that already has a buffer, because body data was submitted before it, is given a data
  reader without a callback; on a stream without a buffer the reader has its callback and the buffer it reads from.\<close>

theorem h3_response_reader:
  assumes "h3_find s i = Some st" "H3_HEAD_REQUEST \<notin> h3s_flags st" "\<And>cs c. http_status lib cs c = 0"
  shows "\<exists>s1 s2 st2. h3_submit_response lib i r False s = (None, s1) \<and>
    h3_calls s1 = h3_calls s @ [H3SubmitResponse i (response_fields r) (Some (h3s_buffer st = None)), ResumeStream i] \<and>
    h3_submit_response lib i r False (snd (h3_submit_body lib i c eof s)) = (None, s2) \<and>
    H3SubmitResponse i (response_fields r) (Some False) \<in> set (h3_calls s2) \<and>
    h3_find s1 i = Some st2 \<and> h3s_buffer st2 \<noteq> None"
proof -
  have "\<exists>s1 st1. h3_submit_body lib i c eof s = (None, s1) \<and> h3_find s1 i = Some st1 \<and> h3s_buffer st1 \<noteq> None \<and>
      H3_HEAD_REQUEST \<notin> h3s_flags st1"
    using assms by (auto simp: h3_submit_body_def h3_push_data_def h3_resume_def http_do_def Let_def h3_flag_set_def)
  then show ?thesis using assms by (auto simp: h3_submit_response_def h3_resume_def http_do_def Let_def)
qed

theorem h3_response_reader_witness:
  "\<exists>s1 s2 st2. h3_submit_response h3_ok 4 (make_response HTTP_3_0 200) False (h3_put 4 h3_stream_new (h3_session_new h3_ok Http3Server h3_default_settings h3_all)) = (None, s1) \<and>
    h3_calls s1 = [H3SubmitResponse 4 (response_fields (make_response HTTP_3_0 200)) (Some True), ResumeStream 4] \<and>
    h3_submit_response h3_ok 4 (make_response HTTP_3_0 200) False
      (snd (h3_submit_body h3_ok 4 ''a'' False (h3_put 4 h3_stream_new (h3_session_new h3_ok Http3Server h3_default_settings h3_all)))) = (None, s2) \<and>
    H3SubmitResponse 4 (response_fields (make_response HTTP_3_0 200)) (Some False) \<in> set (h3_calls s2) \<and>
    h3_find s1 4 = Some st2 \<and> h3s_buffer st2 \<noteq> None"
  using h3_response_reader [of "h3_put 4 h3_stream_new (h3_session_new h3_ok Http3Server h3_default_settings h3_all)" 4 h3_stream_new h3_ok
      "make_response HTTP_3_0 200" "''a''" False]
  by (simp add: h3_session_new_def h3_stream_new_def)

end
