(* ===== verification/Spec2Isabelle.thy ===== *)
theory Spec2Isabelle
  imports CidrRangeSet TimeoutCaches Base64 Cesu8 SocketAddress Guid UrlPath CommonDefs OwnedHandles Streams TimeUtils FileLines RotatingLog
    NetworkMonitor RouteResolver Firewall Regex Parallel Coroutines MoveFunction NetInterfaces MakeSsl CertInfo TldRegistry SystemErrors Files
    Http1Sending Http2Streams Http3Streams
begin

text \<open>
  This development models the portable core of NativeLibsCommon, the C++ library that AdGuard's native products
  share, and proves what makes it correct.  The library has three parts: utilities without state (strings, numbers,
  codecs, addresses, address ranges), components with state (caches, range sets, network monitor, routes, firewall), and
  HTTP sessions that turn the events of a parser into callbacks and calls into bytes.

  \<^bold>\<open>Conventions.\<close>  A string or string view is a HOL string, a view of bytes a list of 8-bit words, an iterator an
  index, \<^verbatim>\<open>npos\<close> and a null pointer \<^const>\<open>None\<close>.  Machine integers are words where wrap-around matters and naturals
  where the code stays below its bounds.  A raise, an error return or undefined behaviour is a value: a sum, an
  option or an outcome of its own.  Objects with state are records that every operation returns updated.  The clock,
  random bytes, \<^verbatim>\<open>std::get_time\<close>, \<^verbatim>\<open>inet_pton\<close>, \<^verbatim>\<open>inet_ntop\<close>, the HTTP/1 parser \<^verbatim>\<open>llhttp\<close>, the answers of \<^verbatim>\<open>nghttp2\<close>, \<^verbatim>\<open>nghttp3\<close>
  and \<^verbatim>\<open>ngtcp2\<close>, the file system and the user's callbacks are arguments; the user's callbacks are recorded as events and do not call back into the session.

  \<^bold>\<open>Theories.\<close>

  \<^item> \<^verbatim>\<open>Prelude\<close>: machine types, \<^verbatim>\<open>std::find_if\<close>, list lemmas.
  \<^item> \<^verbatim>\<open>StringView\<close>, \<^verbatim>\<open>StringUtils\<close>: \<^verbatim>\<open>common/utils.h\<close> and \<^verbatim>\<open>common/utils.cpp\<close> on text: case, trimming, searching, splitting,
    joining, lines, word wrapping, shell quoting, removal by swapping.  Splitting undoes joining, quoting is undone by a
    shell's reading, wrapped lines keep the words and the width, and splitting returns unless the delimiter is empty.
  \<^item> \<^verbatim>\<open>Integers\<close>: integer parsing and printing, hexadecimal, UUIDs, hashing.
  \<^item> \<^verbatim>\<open>Errors\<close>, \<^verbatim>\<open>SystemErrors\<close>: \<^verbatim>\<open>common/error.h\<close>, \<^verbatim>\<open>error.cpp\<close> and \<^verbatim>\<open>system_error.cpp\<close>: error chains and their text, results, the codes for
    errors of Windows sockets, and the texts of the system, which fit their buffer.
  \<^item> \<^verbatim>\<open>Bits\<close>, \<^verbatim>\<open>Cidr\<close>, \<^verbatim>\<open>CidrExclude\<close>, \<^verbatim>\<open>CidrRangeSet\<close>: \<^verbatim>\<open>common/cidr_range.h\<close>.  A range denotes a set of addresses; containment,
    splitting and exclusion are proved against these sets, and the range set keeps its invariant and answers inclusion.
  \<^item> \<^verbatim>\<open>LinkedIndex\<close>, \<^verbatim>\<open>LruCache\<close>, \<^verbatim>\<open>TimeoutCaches\<close>: \<^verbatim>\<open>common/cache.h\<close>.  A list with identified nodes and a map into it refine a
    most-recently-used list and a store with deadlines; the locales \<^verbatim>\<open>keyed_store\<close> and \<^verbatim>\<open>mru_cache\<close> state the interfaces.
  \<^item> \<^verbatim>\<open>Base64\<close>, \<^verbatim>\<open>Cesu8\<close>, \<^verbatim>\<open>Guid\<close>, \<^verbatim>\<open>UrlPath\<close>: the codecs of \<^verbatim>\<open>base64.cpp\<close>, \<^verbatim>\<open>cesu8.cpp\<close>, \<^verbatim>\<open>guid_utils.cpp\<close> and \<^verbatim>\<open>url.cpp\<close>, with round
    trips, bounds of the output and, for paths whose last segment is not a dot segment, an equivalence with the removal of dot
    segments of RFC 3986.
  \<^item> \<^verbatim>\<open>CommonDefs\<close>, \<^verbatim>\<open>TimeUtils\<close>, \<^verbatim>\<open>FileLines\<close>, \<^verbatim>\<open>Files\<close>, \<^verbatim>\<open>RotatingLog\<close>: \<^verbatim>\<open>defs.h\<close>, \<^verbatim>\<open>clock.h\<close> with the shift of the clock, and
    \<^verbatim>\<open>logger.cpp\<close> with the text it writes; \<^verbatim>\<open>time_utils.cpp\<close>; the lines and the handles of \<^verbatim>\<open>file.cpp\<close> on POSIX systems and Windows;
    and \<^verbatim>\<open>rotating_log_to_file.cpp\<close>.  An expiring value refines the value assigned last, parsing and formatting follow the C library, lines do
    not depend on how a file is read, and the rotated files refine a list of files of which the oldest is dropped.
  \<^item> \<^verbatim>\<open>OwnedHandles\<close>, \<^verbatim>\<open>Streams\<close>: \<^verbatim>\<open>autofd.h\<close> and the \<^verbatim>\<open>AutoPod\<close>, \<^verbatim>\<open>StringViewStream\<close> and \<^verbatim>\<open>exec_with_output\<close> of \<^verbatim>\<open>utils.h\<close>.  The locale \<^verbatim>\<open>owner\<close>
    states what a class that owns handles promises, and both classes account for every handle; the stream answers as a
    position in its text does.
  \<^item> \<^verbatim>\<open>SocketAddress\<close>: \<^verbatim>\<open>socket_address.cpp\<close> over the bytes of a \<^verbatim>\<open>sockaddr_storage\<close>, and the text functions of \<^verbatim>\<open>net_utils.cpp\<close>.
  \<^item> \<^verbatim>\<open>NetInterfaces\<close>: the rest of \<^verbatim>\<open>net_utils.cpp\<close>: binding a socket, the active and the preferred interface of Windows, which are proved the
    best by metric, name servers in the registry and of the resolver.
  \<^item> \<^verbatim>\<open>MakeSsl\<close>, \<^verbatim>\<open>CertInfo\<close>: \<^verbatim>\<open>tls/make_ssl.cpp\<close> and \<^verbatim>\<open>tls/cert_utils.cpp\<close> as logged calls of the TLS library: pinned extension orders fit the extensions that are sent, the client random mixes the caller's bits with random ones,
    and the text about certificates is complete.
  \<^item> \<^verbatim>\<open>MoveFunction\<close>: \<^verbatim>\<open>move_only_function.h\<close>: every program with wrappers runs without undefined behaviour, leaks nothing, and refines cells that
    have a callable or none.
  \<^item> \<^verbatim>\<open>Coroutines\<close>: \<^verbatim>\<open>coro.h\<close>: frames, promises and awaitables; a task whose body raises nothing gives its future
    what its body evaluates to and leaves no frame.
  \<^item> \<^verbatim>\<open>Netlink\<close>, \<^verbatim>\<open>RoutingTable\<close>, \<^verbatim>\<open>NetworkMonitor\<close>: \<^verbatim>\<open>network_monitor.cpp\<close>: the messages of the routing socket of Linux, the table that is kept
    from them, which refines a map, the choice of the default interface, and the reports of the monitor: in every reachable
    state the last report names the best default route.
  \<^item> \<^verbatim>\<open>RouteResolver\<close>: \<^verbatim>\<open>route_resolver.cpp\<close>: the dump of the routing table of Apple systems and the cached tables; the answer is the
    interface of the longest prefix.
  \<^item> \<^verbatim>\<open>Firewall\<close>: \<^verbatim>\<open>wfp_firewall.cpp\<close>: the filters and transactions; after every sequence of requests, some of which may fail, a
    connection on which the accepted requests agree is blocked exactly when one of them documents that it blocks it, and requests take
    effect wholly or not at all.
  \<^item> \<^verbatim>\<open>Regex\<close>: \<^verbatim>\<open>regex.cpp\<close> and \<^verbatim>\<open>regex.h\<close> over a PCRE2 that is a parameter: replacing until nothing is left is the closure of the
    library's substitution, and the equivalence of
    lazy and immediate compilation.
  \<^item> \<^verbatim>\<open>Dafsa\<close>, \<^verbatim>\<open>TldRegistry\<close>: the recipe \<^verbatim>\<open>conan/recipes/tldregistry\<close>: the lookup of a word in the octets of a graph, which finds exactly the words
    of the graph that the octets encode, and the registered domain of a domain name.  The generated graph is a parameter.
  \<^item> \<^verbatim>\<open>Parallel\<close>: \<^verbatim>\<open>parallel.h\<close>: waiting for any or all of several tasks as steps in any order; the locale \<^verbatim>\<open>joiner\<close> states what both have in
    common, and every run ends with the coroutine resumed at most once and holding the right result.
  \<^item> \<^verbatim>\<open>HttpMessage\<close>: \<^verbatim>\<open>http/util.cpp\<close>, \<^verbatim>\<open>http/headers.cpp\<close>: versions, headers, requests, responses, their iterators (instances
    of the locale \<^verbatim>\<open>forward_iterator\<close>) and their text, which a reference reader takes back.
  \<^item> \<^verbatim>\<open>Http1\<close>, \<^verbatim>\<open>Http1Sending\<close>: \<^verbatim>\<open>http/http1.cpp\<close>: the callbacks of the parser, what is reported for a whole message in any
    fragments, the chunked coding, the framing of responses and trailers, and the stream identifiers of every
    reachable session.
  \<^item> \<^verbatim>\<open>HttpFields\<close>: messages as lists of fields, shared by the next two: a locale states what a receiver of fields does, and
    the sessions are its instances.
  \<^item> \<^verbatim>\<open>Http2\<close>, \<^verbatim>\<open>Http2Streams\<close>: \<^verbatim>\<open>http/http2.cpp\<close>: the callbacks that \<^verbatim>\<open>nghttp2\<close> makes and the operations that submit to it.
    Requests and responses cross from one side to the other, bodies leave in the order they were pushed, every
    reachable session is sound, and consumed bytes are given back to the flow-control windows.
  \<^item> \<^verbatim>\<open>Http3\<close>, \<^verbatim>\<open>Http3Session\<close>, \<^verbatim>\<open>Http3Streams\<close>: \<^verbatim>\<open>http/http3.cpp\<close>: the callbacks of \<^verbatim>\<open>nghttp3\<close> and \<^verbatim>\<open>ngtcp2\<close>, the operations of the
    user, and what holds of them: messages cross, data stays buffered until it is acknowledged, the send capacity is
    exact, and the packet that closes a connection is written at most once in every reachable session.

  \<^bold>\<open>Loops and fuel.\<close>  Loops are structural recursions or functions with a measure.  \<^verbatim>\<open>split_by\<close>, \<^verbatim>\<open>replace_all\<close> and the loops
  over the messages of a routing table, which may not end, are partial functions; the iteration over messages is given six steps more than there are headers, which is proved enough.  The loop that
  flushes an HTTP/3 session runs over the rounds that the libraries give and returns nothing when they give too few.  The
  steps of coroutines are counted, and some number of them is proved enough for every body.

  \<^bold>\<open>Not modelled.\<close>  Wide-character conversion, timers, thread identifiers, template meta-programming and the configuration headers
  of third-party recipes: they call systems and libraries and keep no logic of their own.
\<close>

end
